(* ===== verification/FF_Prelude.thy ===== *)
theory FF_Prelude
  imports Main "HOL-Library.Sublist" "HOL-Library.Multiset"
begin

text \<open>
  Shared vocabulary of the FolderForge development: the theorem collections the component
  theories fill, error results as sums with their bind, and the parts of the JavaScript
  standard library the sources use (string functions, \<^verbatim>\<open>Array.prototype.sort\<close>, \<^verbatim>\<open>new Set\<close>
  in insertion order, \<^verbatim>\<open>Array.prototype.find\<close>).

  Strings. A JavaScript string is a sequence of UTF-16 code units; the model uses
  \<^typ>\<open>string\<close>, a list of 8-bit characters, that is the strings whose code units are below 256.
  Positions and lengths count code units on both sides.  Numbers used as time stamps, counters
  and lengths are integers.  An optional field is an \<open>option\<close>.
\<close>

named_theorems js_simps \<open>unfolding rules of the JavaScript library model\<close>
named_theorems inv_intros \<open>an operation keeps the invariant of its component\<close>
named_theorems frame_simps \<open>what an operation leaves unchanged\<close>

section \<open>Error results\<close>

text \<open>A call that may throw returns \<open>Inl e\<close> for the thrown error and \<open>Inr v\<close> for its value.\<close>

datatype ff_error =
    PolicyDeniedError string
  | ApprovalRequiredError string string
  | PathEscapeError string
  | ApprovalExpired string
  | ApprovalSelf string
  | StoreError string
  | RegExpSyntaxError
  | AuditUnavailable
  | PlainError string

type_synonym 'a result = "ff_error + 'a"

definition bindR :: "('e + 'a) \<Rightarrow> ('a \<Rightarrow> 'e + 'b) \<Rightarrow> 'e + 'b" where
  "bindR m f = (case m of Inl e \<Rightarrow> Inl e | Inr x \<Rightarrow> f x)"

definition guardR :: "bool \<Rightarrow> 'e \<Rightarrow> 'e + unit" where
  "guardR b e = (if b then Inr () else Inl e)"

definition throws :: "string \<Rightarrow> 'a result" where
  "throws msg = Inl (PlainError msg)"

lemma bindR_simps [simp]:
  "bindR (Inl e) f = Inl e"
  "bindR (Inr x) f = f x"
  by (simp_all add: bindR_def)

lemma guardR_simps [simp]:
  "guardR True e = Inr ()"
  "guardR False e = Inl e"
  by (simp_all add: guardR_def)

lemma bindR_eq_Inr_iff [simp]: "bindR m f = Inr y \<longleftrightarrow> (\<exists>x. m = Inr x \<and> f x = Inr y)"
  by (cases m) auto

lemma bindR_eq_Inl_iff: "bindR m f = Inl e \<longleftrightarrow> m = Inl e \<or> (\<exists>x. m = Inr x \<and> f x = Inl e)"
  by (cases m) auto

lemma guardR_eq_iff [simp]:
  "guardR b e = Inr u \<longleftrightarrow> b"
  "guardR b e = Inl e' \<longleftrightarrow> \<not> b \<and> e' = e"
  by (auto simp: guardR_def)

lemma bindR_split:
  "P (bindR m f) \<longleftrightarrow> (\<forall>e. m = Inl e \<longrightarrow> P (Inl e)) \<and> (\<forall>x. m = Inr x \<longrightarrow> P (f x))"
  by (cases m) auto

lemma bindR_assoc: "bindR (bindR m f) g = bindR m (\<lambda>x. bindR (f x) g)"
  by (cases m) auto

fun mapR :: "('a \<Rightarrow> 'e + 'b) \<Rightarrow> 'a list \<Rightarrow> 'e + 'b list" where
  "mapR f [] = Inr []"
| "mapR f (x # xs) = bindR (f x) (\<lambda>y. bindR (mapR f xs) (\<lambda>ys. Inr (y # ys)))"

lemma mapR_Inr_iff: "mapR f xs = Inr ys \<longleftrightarrow> list_all2 (\<lambda>x y. f x = Inr y) xs ys"
  by (induction xs arbitrary: ys) (auto simp: list_all2_Cons1)

lemma mapR_setD: "mapR f xs = Inr ys \<Longrightarrow> y \<in> set ys \<Longrightarrow> \<exists>x \<in> set xs. f x = Inr y"
  by (induction xs arbitrary: ys) auto

lemma mapR_length: "mapR f xs = Inr ys \<Longrightarrow> length ys = length xs"
  by (auto simp: mapR_Inr_iff dest: list_all2_lengthD)

text \<open>\<^verbatim>\<open>xs.some(f)\<close> for a callback that may throw: elements are tried from the left, the first
  \<open>True\<close> or error ends the search.\<close>

fun someR :: "('a \<Rightarrow> 'e + bool) \<Rightarrow> 'a list \<Rightarrow> 'e + bool" where
  "someR f [] = Inr False"
| "someR f (x # xs) = bindR (f x) (\<lambda>b. if b then Inr True else someR f xs)"

lemma someR_False_iff: "someR f xs = Inr False \<longleftrightarrow> (\<forall>x \<in> set xs. f x = Inr False)"
  by (induction xs) auto

lemma someR_TrueD: "someR f xs = Inr True \<Longrightarrow> \<exists>x \<in> set xs. f x = Inr True"
  by (induction xs) (auto split: if_splits)

lemma someR_total: "(\<And>x. x \<in> set xs \<Longrightarrow> f x = Inr (p x)) \<Longrightarrow> someR f xs = Inr (\<exists>x \<in> set xs. p x)"
  by (induction xs) auto

text \<open>\<^verbatim>\<open>xs.filter(f)\<close> for a callback that may throw.\<close>

fun filterR :: "('a \<Rightarrow> 'e + bool) \<Rightarrow> 'a list \<Rightarrow> 'e + 'a list" where
  "filterR f [] = Inr []"
| "filterR f (x # xs) =
     bindR (f x) (\<lambda>b. bindR (filterR f xs) (\<lambda>ys. Inr (if b then x # ys else ys)))"

lemma filterR_InrD:
  "filterR f xs = Inr ys \<Longrightarrow> ys = filter (\<lambda>x. f x = Inr True) xs \<and> (\<forall>x \<in> set xs. \<exists>b. f x = Inr b)"
proof (induction xs arbitrary: ys)
  case (Cons x xs)
  from Cons.prems obtain b where b: "f x = Inr b" by (cases "f x") simp_all
  with Cons.prems obtain zs where zs: "filterR f xs = Inr zs" by (cases "filterR f xs") simp_all
  from Cons.prems b zs have ys: "ys = (if b then x # zs else zs)" by simp
  from Cons.IH [OF zs] have "zs = filter (\<lambda>x. f x = Inr True) xs" "\<forall>x \<in> set xs. \<exists>b. f x = Inr b"
    by blast+
  with b ys show ?case by simp
qed simp

lemma filterR_total: "\<forall>x \<in> set xs. \<exists>b. f x = Inr b \<Longrightarrow> filterR f xs = Inr (filter (\<lambda>x. f x = Inr True) xs)"
proof (induction xs)
  case (Cons x xs)
  then obtain b where "f x = Inr b" by auto
  moreover have "filterR f xs = Inr (filter (\<lambda>x. f x = Inr True) xs)"
    using Cons by (meson list.set_intros(2))
  ultimately show ?case by simp
qed simp

text \<open>Methods that change an object and may throw: the state at the throw is kept, as it is in the
  program.  \<open>onErrorA m h\<close> is \<^verbatim>\<open>try { m } catch (error) { h; throw error; }\<close>.\<close>

type_synonym ('s, 'a) act = "'s \<Rightarrow> 'a result \<times> 's"

definition retA :: "'a \<Rightarrow> ('s, 'a) act" where
  "retA x s = (Inr x, s)"

definition throwA :: "ff_error \<Rightarrow> ('s, 'a) act" where
  "throwA e s = (Inl e, s)"

definition bindA :: "('s, 'a) act \<Rightarrow> ('a \<Rightarrow> ('s, 'b) act) \<Rightarrow> ('s, 'b) act" where
  "bindA m f s = (case m s of (Inl e, s') \<Rightarrow> (Inl e, s') | (Inr x, s') \<Rightarrow> f x s')"

definition getsA :: "('s \<Rightarrow> 'a) \<Rightarrow> ('s, 'a) act" where
  "getsA g s = (Inr (g s), s)"

definition modifyA :: "('s \<Rightarrow> 's) \<Rightarrow> ('s, unit) act" where
  "modifyA g s = (Inr (), g s)"

definition onErrorA :: "('s, 'a) act \<Rightarrow> ('s \<Rightarrow> 's) \<Rightarrow> ('s, 'a) act" where
  "onErrorA m h s = (case m s of (Inl e, s') \<Rightarrow> (Inl e, h s') | (Inr x, s') \<Rightarrow> (Inr x, s'))"

definition liftR :: "'a result \<Rightarrow> ('s, 'a) act" where
  "liftR r s = (r, s)"

lemmas act_defs = retA_def throwA_def bindA_def getsA_def modifyA_def onErrorA_def liftR_def

lemma bindA_Inr: "m s = (Inr x, s1) \<Longrightarrow> bindA m f s = f x s1"
  by (simp add: bindA_def)

lemma bindA_Inl: "m s = (Inl e, s1) \<Longrightarrow> bindA m f s = (Inl e, s1)"
  by (simp add: bindA_def)

lemma bindA_InrE:
  assumes "bindA m f s = (Inr y, s2)"
  obtains x s1 where "m s = (Inr x, s1)" "f x s1 = (Inr y, s2)"
  using assms by (auto simp: bindA_def split: prod.splits sum.splits)

fun forA :: "('a \<Rightarrow> ('s, unit) act) \<Rightarrow> 'a list \<Rightarrow> ('s, unit) act" where
  "forA f [] s = (Inr (), s)"
| "forA f (x # xs) s = (case f x s of (Inl e, s') \<Rightarrow> (Inl e, s') | (Inr _, s') \<Rightarrow> forA f xs s')"

text \<open>A property of the state that every call keeps is kept by the loop, also when it throws.\<close>

lemma forA_keeps:
  "(\<And>x s. x \<in> set xs \<Longrightarrow> P s \<Longrightarrow> P (snd (f x s))) \<Longrightarrow> P s \<Longrightarrow> P (snd (forA f xs s))"
proof (induction xs arbitrary: s)
  case (Cons x xs)
  obtain r s' where r: "f x s = (r, s')" by (cases "f x s")
  have "P s'" using Cons.prems(1) [of x s] Cons.prems(2) r by simp
  with Cons r show ?case by (cases r) simp_all
qed simp

lemma bindA_keeps:
  "P (snd (m s)) \<Longrightarrow> (\<And>x s'. m s = (Inr x, s') \<Longrightarrow> P s' \<Longrightarrow> P (snd (f x s'))) \<Longrightarrow> P (snd (bindA m f s))"
  by (auto simp: bindA_def split: prod.split sum.split)

section \<open>Characters and strings\<close>

text \<open>Code units and the character classes of JavaScript regular expressions and \<^verbatim>\<open>trim\<close>.\<close>

definition char_code :: "char \<Rightarrow> nat" where
  "char_code c = of_char c"

definition is_space :: "char \<Rightarrow> bool" where
  "is_space c \<longleftrightarrow> char_code c \<in> {9, 10, 11, 12, 13, 32, 160}"

definition is_digit :: "char \<Rightarrow> bool" where
  "is_digit c \<longleftrightarrow> 48 \<le> char_code c \<and> char_code c \<le> 57"

definition is_upper :: "char \<Rightarrow> bool" where
  "is_upper c \<longleftrightarrow> 65 \<le> char_code c \<and> char_code c \<le> 90"

definition is_lower :: "char \<Rightarrow> bool" where
  "is_lower c \<longleftrightarrow> 97 \<le> char_code c \<and> char_code c \<le> 122"

definition is_word :: "char \<Rightarrow> bool" where
  "is_word c \<longleftrightarrow> is_digit c \<or> is_upper c \<or> is_lower c \<or> c = CHR ''_''"

lemmas char_class_defs = char_code_def is_space_def is_digit_def is_upper_def is_lower_def
  is_word_def

text \<open>\<^verbatim>\<open>toLowerCase\<close> on code units below 256: ASCII and the Latin-1 capitals (all but the
  multiplication sign at 215).\<close>

definition lower_char :: "char \<Rightarrow> char" where
  "lower_char c =
     (if is_upper c \<or> (192 \<le> char_code c \<and> char_code c \<le> 222 \<and> char_code c \<noteq> 215)
      then char_of (char_code c + 32) else c)"

definition to_lower :: "string \<Rightarrow> string" where
  "to_lower = map lower_char"

definition js_trim :: "string \<Rightarrow> string" where
  "js_trim s = rev (dropWhile is_space (rev (dropWhile is_space s)))"

fun starts_with :: "string \<Rightarrow> string \<Rightarrow> bool" where
  "starts_with [] s = True"
| "starts_with (p # ps) [] = False"
| "starts_with (p # ps) (c # cs) = (p = c \<and> starts_with ps cs)"

definition ends_with :: "string \<Rightarrow> string \<Rightarrow> bool" where
  "ends_with p s = starts_with (rev p) (rev s)"

fun js_includes :: "string \<Rightarrow> string \<Rightarrow> bool" where
  "js_includes p [] = (p = [])"
| "js_includes p (c # cs) = (starts_with p (c # cs) \<or> js_includes p cs)"

text \<open>\<open>index_from p s i\<close> is \<^verbatim>\<open>s.indexOf(p, i)\<close>, \<open>None\<close> for \<open>-1\<close>.  A start past the end
  is clamped to the length, so the empty needle is found there.\<close>

fun find_index :: "string \<Rightarrow> string \<Rightarrow> nat option" where
  "find_index p [] = (if p = [] then Some 0 else None)"
| "find_index p (c # cs) =
     (if starts_with p (c # cs) then Some 0 else map_option Suc (find_index p cs))"

definition index_from :: "string \<Rightarrow> string \<Rightarrow> nat \<Rightarrow> nat option" where
  "index_from p s i =
     (let k = min i (length s) in map_option (\<lambda>d. k + d) (find_index p (drop k s)))"

text \<open>\<^verbatim>\<open>s.split(c)\<close> for a one-character separator, and \<^verbatim>\<open>xs.join(sep)\<close>.\<close>

fun split_on :: "char \<Rightarrow> string \<Rightarrow> string list" where
  "split_on c [] = [[]]"
| "split_on c (x # xs) =
     (if x = c then [] # split_on c xs
      else (case split_on c xs of [] \<Rightarrow> [[x]] | y # ys \<Rightarrow> (x # y) # ys))"

fun join_with :: "string \<Rightarrow> string list \<Rightarrow> string" where
  "join_with sep [] = []"
| "join_with sep [x] = x"
| "join_with sep (x # y # ys) = x @ sep @ join_with sep (y # ys)"

text \<open>Decimal rendering of an integer, as in a template literal.\<close>

fun show_nat :: "nat \<Rightarrow> string" where
  "show_nat n = (if n < 10 then [char_of (48 + n)] else show_nat (n div 10) @ [char_of (48 + n mod 10)])"

declare show_nat.simps [simp del]

definition show_int :: "int \<Rightarrow> string" where
  "show_int i = (if i < 0 then ''-'' @ show_nat (nat (- i)) else show_nat (nat i))"

text \<open>\<^verbatim>\<open>Number.MAX_SAFE_INTEGER\<close>, \<^verbatim>\<open>Number.isSafeInteger\<close> on integers, and \<^verbatim>\<open>Buffer.byteLength\<close>: a code unit
  below 128 is one byte of UTF-8, the others of the model are two.\<close>

definition MAX_SAFE_INTEGER :: int where
  "MAX_SAFE_INTEGER = 9007199254740991"

definition is_safe_integer :: "int \<Rightarrow> bool" where
  "is_safe_integer n \<longleftrightarrow> \<bar>n\<bar> \<le> MAX_SAFE_INTEGER"

definition byte_length :: "string \<Rightarrow> nat" where
  "byte_length s = sum_list (map (\<lambda>c. if char_code c < 128 then 1 else 2) s)"

lemma starts_with_iff_prefix: "starts_with p s \<longleftrightarrow> prefix p s"
  by (induction p s rule: starts_with.induct) auto

lemma starts_with_append [simp]: "starts_with p (p @ s)"
  by (simp add: starts_with_iff_prefix)

lemma includes_iff_sublist: "js_includes p s \<longleftrightarrow> sublist p s"
  by (induction p s rule: js_includes.induct) (auto simp: starts_with_iff_prefix sublist_Cons_right)

lemma find_index_None_iff: "find_index p s = None \<longleftrightarrow> \<not> js_includes p s"
  by (induction p s rule: find_index.induct) auto

lemma find_index_SomeD: "find_index p s = Some i \<Longrightarrow> i \<le> length s \<and> starts_with p (drop i s)"
  by (induction p s arbitrary: i rule: find_index.induct) (auto split: if_splits)

lemma find_index_least:
  "find_index p s = Some i \<Longrightarrow> j < i \<Longrightarrow> \<not> starts_with p (drop j s)"
proof (induction p s arbitrary: i j rule: find_index.induct)
  case (2 p c cs)
  then show ?case by (cases j) (auto split: if_splits)
qed (auto split: if_splits)

lemma split_on_nonempty [simp]: "split_on c s \<noteq> []"
  by (induction s) (auto split: list.splits)

lemma split_on_no_sep: "x \<in> set (split_on c s) \<Longrightarrow> c \<notin> set x"
  by (induction s arbitrary: x) (auto split: if_splits list.splits)

lemma split_on_subset: "x \<in> set (split_on c s) \<Longrightarrow> set x \<subseteq> set s"
proof (induction s arbitrary: x)
  case (Cons a s)
  then show ?case by (cases "split_on c s") (fastforce split: if_splits)+
qed simp

lemma join_split_on: "join_with [c] (split_on c s) = s"
proof (induction s)
  case (Cons x s)
  show ?case
  proof (cases "split_on c s")
    case Nil
    then show ?thesis by simp
  next
    case (Cons y ys)
    with Cons.IH show ?thesis by (cases ys) auto
  qed
qed simp

lemma split_on_append_sep:
  "c \<notin> set x \<Longrightarrow> split_on c (x @ c # s) = x # split_on c s"
  by (induction x) auto

lemma split_on_single: "c \<notin> set x \<Longrightarrow> split_on c x = [x]"
  by (induction x) auto

lemma split_join:
  "xs \<noteq> [] \<Longrightarrow> \<forall>x \<in> set xs. c \<notin> set x \<Longrightarrow> split_on c (join_with [c] xs) = xs"
  by (induction "[c]" xs rule: join_with.induct) (auto simp: split_on_append_sep split_on_single)

lemma trim_ends:
  "js_trim s = t \<Longrightarrow> t \<noteq> [] \<Longrightarrow> \<not> is_space (hd t) \<and> \<not> is_space (last t)"
proof -
  assume t: "js_trim s = t" "t \<noteq> []"
  let ?u = "dropWhile is_space s"
  have last: "\<not> is_space (last t)"
    using t hd_dropWhile [of is_space "rev ?u"] by (auto simp: js_trim_def last_rev)
  have "prefix t ?u"
    using t suffix_dropWhile [of is_space "rev ?u"] by (auto simp: js_trim_def suffix_to_prefix)
  then have "?u \<noteq> []" "hd t = hd ?u" using t(2)
    by (auto simp: prefix_def simp del: dropWhile_eq_Nil_conv)
  then show ?thesis using last hd_dropWhile [of is_space s] by auto
qed

lemma trim_id: "t = [] \<or> \<not> is_space (hd t) \<and> \<not> is_space (last t) \<Longrightarrow> js_trim t = t"
proof -
  assume t: "t = [] \<or> \<not> is_space (hd t) \<and> \<not> is_space (last t)"
  have dw: "dropWhile is_space x = x" if "x = [] \<or> \<not> is_space (hd x)" for x
    using that by (cases x) auto
  have "dropWhile is_space t = t" by (rule dw) (use t in blast)
  moreover have "dropWhile is_space (rev t) = rev t" by (rule dw) (use t in \<open>auto simp: hd_rev\<close>)
  ultimately show ?thesis by (simp add: js_trim_def)
qed

lemma trim_idem [simp]: "js_trim (js_trim s) = js_trim s"
  using trim_ends [of s] trim_id by blast

section \<open>Arrays and sets\<close>

text \<open>\<^verbatim>\<open>[...new Set(xs)]\<close>: the first occurrences, in order.\<close>

fun uniq :: "'a list \<Rightarrow> 'a list" where
  "uniq [] = []"
| "uniq (x # xs) = x # filter (\<lambda>y. y \<noteq> x) (uniq xs)"

lemma set_uniq [simp]: "set (uniq xs) = set xs"
  by (induction xs) auto

lemma distinct_uniq [simp]: "distinct (uniq xs)"
  by (induction xs) auto

lemma uniq_distinct_id: "distinct xs \<Longrightarrow> uniq xs = xs"
  by (induction xs) (auto simp: filter_id_conv)

lemma uniq_Nil_iff [simp]: "uniq xs = [] \<longleftrightarrow> xs = []"
  by (cases xs) auto

text \<open>\<^verbatim>\<open>Array.prototype.sort\<close> with a comparator is a stable sort; insertion sort from the right
  is one.  \<open>le a b\<close> stands for \<^verbatim>\<open>compare(a, b) <= 0\<close>.\<close>

fun insort_by :: "('a \<Rightarrow> 'a \<Rightarrow> bool) \<Rightarrow> 'a \<Rightarrow> 'a list \<Rightarrow> 'a list" where
  "insort_by le x [] = [x]"
| "insort_by le x (y # ys) = (if le x y then x # y # ys else y # insort_by le x ys)"

definition sort_by :: "('a \<Rightarrow> 'a \<Rightarrow> bool) \<Rightarrow> 'a list \<Rightarrow> 'a list" where
  "sort_by le xs = foldr (insort_by le) xs []"

lemma sort_by_simps [simp]:
  "sort_by le [] = []"
  "sort_by le (x # xs) = insort_by le x (sort_by le xs)"
  by (simp_all add: sort_by_def)

lemma mset_insort_by [simp]: "mset (insort_by le x ys) = add_mset x (mset ys)"
  by (induction ys) auto

lemma mset_sort_by [simp]: "mset (sort_by le xs) = mset xs"
  by (induction xs) auto

lemma set_sort_by [simp]: "set (sort_by le xs) = set xs"
  using mset_sort_by [of le xs] by (metis set_mset_mset)

lemma length_sort_by [simp]: "length (sort_by le xs) = length xs"
  using mset_sort_by [of le xs] by (metis size_mset)

lemma sort_by_Nil_iff [simp]: "sort_by le xs = [] \<longleftrightarrow> xs = []"
  by (metis length_0_conv length_sort_by)

lemma distinct_sort_by [simp]: "distinct (sort_by le xs) = distinct xs"
  by (metis mset_sort_by mset_eq_imp_distinct_iff)

text \<open>A comparator that is total and transitive on the elements sorts them; a comparator that is
  antisymmetric as well makes the result depend on the elements only, not on their order.\<close>

locale comparator =
  fixes le :: "'a \<Rightarrow> 'a \<Rightarrow> bool"
  assumes total: "le a b \<or> le b a"
    and trans: "le a b \<Longrightarrow> le b c \<Longrightarrow> le a c"
begin

lemma insort_by_sorted: "sorted_wrt le ys \<Longrightarrow> sorted_wrt le (insort_by le x ys)"
proof (induction ys)
  case (Cons y ys)
  have "set (insort_by le x ys) = insert x (set ys)"
    using mset_insort_by [of le x ys] by (metis set_mset_add_mset_insert set_mset_mset)
  with Cons show ?case using total trans by (auto 4 3)
qed simp

lemma sort_by_sorted: "sorted_wrt le (sort_by le xs)"
  by (induction xs) (auto intro: insort_by_sorted)

lemma sort_by_hd_least: "x \<in> set xs \<Longrightarrow> le (hd (sort_by le xs)) x"
proof -
  assume "x \<in> set xs"
  then have "x \<in> set (sort_by le xs)" by simp
  then show ?thesis
    using sort_by_sorted [of xs] total [of x x] by (cases "sort_by le xs") auto
qed

end

locale strict_comparator = comparator +
  assumes antisym: "le a b \<Longrightarrow> le b a \<Longrightarrow> a = b"
begin

lemma sorted_unique:
  "sorted_wrt le xs \<Longrightarrow> sorted_wrt le ys \<Longrightarrow> mset xs = mset ys \<Longrightarrow> xs = ys"
proof (induction xs arbitrary: ys)
  case (Cons x xs)
  then obtain y ys' where ys: "ys = y # ys'" by (cases ys) auto
  have "x \<in> set ys" "y \<in> set (x # xs)"
    using Cons.prems(3) ys by (metis list.set_intros(1) set_mset_mset)+
  with Cons.prems ys have "x = y" using antisym by auto
  with Cons ys show ?case by auto
qed simp

lemma sort_by_mset_cong: "mset xs = mset ys \<Longrightarrow> sort_by le xs = sort_by le ys"
  by (rule sorted_unique) (auto intro: sort_by_sorted)

end

text \<open>The comparator of \<^verbatim>\<open>(a, b) => f(a) - f(b)\<close>.\<close>

definition le_on :: "('a \<Rightarrow> int) \<Rightarrow> 'a \<Rightarrow> 'a \<Rightarrow> bool" where
  "le_on f a b \<longleftrightarrow> f a \<le> f b"

interpretation key_order: comparator "le_on f" for f
  by unfold_locales (auto simp: le_on_def)

text \<open>Updating the first element that satisfies a predicate (a record found by \<^verbatim>\<open>find\<close> and
  changed in place).\<close>

fun update_first :: "('a \<Rightarrow> bool) \<Rightarrow> ('a \<Rightarrow> 'a) \<Rightarrow> 'a list \<Rightarrow> 'a list" where
  "update_first p f [] = []"
| "update_first p f (x # xs) = (if p x then f x # xs else x # update_first p f xs)"

lemma length_update_first [simp]: "length (update_first p f xs) = length xs"
  by (induction xs) auto

lemma map_update_first:
  "(\<And>x. p x \<Longrightarrow> g (f x) = g x) \<Longrightarrow> map g (update_first p f xs) = map g xs"
  by (induction xs) auto

lemma set_update_firstD:
  "y \<in> set (update_first p f xs) \<Longrightarrow> y \<in> set xs \<or> (\<exists>x \<in> set xs. p x \<and> find p xs = Some x \<and> y = f x)"
  by (induction xs) (auto split: if_splits)

lemma find_SomeD: "find p xs = Some x \<Longrightarrow> x \<in> set xs \<and> p x"
  by (induction xs) (auto split: if_splits)

lemma find_None_iff_all: "find p xs = None \<longleftrightarrow> (\<forall>x \<in> set xs. \<not> p x)"
  by (induction xs) auto

lemma find_update_first_same:
  "find p xs = Some x \<Longrightarrow> p (f x) \<Longrightarrow> find p (update_first p f xs) = Some (f x)"
  by (induction xs) (auto split: if_splits)

lemma find_key_unique:
  "distinct (map k xs) \<Longrightarrow> x \<in> set xs \<Longrightarrow> find (\<lambda>y. k y = k x) xs = Some x"
  by (induction xs) force+

lemma set_update_first_key:
  assumes "distinct (map k xs)" and "find (\<lambda>y. k y = i) xs = Some x"
  shows "set (update_first (\<lambda>y. k y = i) f xs) = insert (f x) (set xs - {x})"
  using assms
proof (induction xs)
  case (Cons a xs)
  then show ?case by (cases "k a = i") (auto simp: find_Some_iff in_set_conv_nth image_iff)
qed simp

section \<open>Systems of states and steps\<close>

text \<open>
  A component with state is an initial-state predicate and a step function over its operations.
  The client of such a component relies on one thing only: a property that holds initially and is
  kept by every operation holds after every sequence of operations.
\<close>

locale stateful =
  fixes init :: "'s \<Rightarrow> bool"
    and step :: "'op \<Rightarrow> 's \<Rightarrow> 's"
    and inv :: "'s \<Rightarrow> bool"
  assumes inv_init: "init s \<Longrightarrow> inv s"
    and inv_step: "inv s \<Longrightarrow> inv (step a s)"
begin

lemma inv_run: "inv s \<Longrightarrow> inv (fold step as s)"
  by (induction as arbitrary: s) (auto intro: inv_step)

lemma inv_reachable: "init s \<Longrightarrow> inv (fold step as s)"
  by (blast intro: inv_run inv_init)

lemma kept_by_run:
  assumes "\<And>s a. inv s \<Longrightarrow> Q s \<Longrightarrow> Q (step a s)"
  shows "inv s \<Longrightarrow> Q s \<Longrightarrow> Q (fold step as s)"
  by (induction as arbitrary: s) (auto intro: assms inv_step)

lemma le_run:
  fixes m :: "'s \<Rightarrow> 'n::preorder"
  assumes "\<And>s a. inv s \<Longrightarrow> m s \<le> m (step a s)"
  shows "inv s \<Longrightarrow> m s \<le> m (fold step as s)"
proof (induction as arbitrary: s)
  case (Cons a as)
  have "m s \<le> m (step a s)" by (rule assms [OF Cons.prems])
  also have "\<dots> \<le> m (fold step as (step a s))" by (rule Cons.IH [OF inv_step [OF Cons.prems]])
  finally show ?case by simp
qed simp

end

text \<open>A system whose states also evolve along a preorder: later states are above earlier ones.\<close>

locale evolving = stateful +
  fixes ev :: "'a \<Rightarrow> 'a \<Rightarrow> bool"
  assumes ev_refl: "ev s s"
    and ev_trans: "ev s t \<Longrightarrow> ev t u \<Longrightarrow> ev s u"
    and ev_step: "inv s \<Longrightarrow> ev s (step a s)"
begin

lemma ev_run: "inv s \<Longrightarrow> ev s (fold step as s)"
proof (induction as arbitrary: s)
  case (Cons a as)
  from ev_trans [OF ev_step [OF Cons.prems] Cons.IH [OF inv_step [OF Cons.prems]]] show ?case by simp
qed (simp add: ev_refl)

end

end
