(* ===== verification/FF_Regex.thy ===== *)
theory FF_Regex
  imports FF_Prelude
begin

text \<open>
  The part of JavaScript regular expressions that the sources use: character classes,
  concatenation, alternation, greedy quantifiers, the anchors \<^verbatim>\<open>^\<close> and \<^verbatim>\<open>$\<close> (without the
  \<^verbatim>\<open>m\<close> flag) and the word boundary \<^verbatim>\<open>\b\<close>.

  \<open>ends r s i\<close> lists the positions at which a match of \<open>r\<close> that starts at \<open>i\<close> can end, in the
  order the backtracking matcher of the language tries them, so the first entry is the end of the
  match \<^verbatim>\<open>exec\<close> reports.  \<open>matches_at\<close> is the declarative meaning; the main lemma
  \<open>ends_iff\<close> says that the executable matcher computes exactly it.
\<close>

datatype regex =
    REmpty
  | RIn "char list"
  | RNotIn "char list"
  | RSeq regex regex
  | RAlt regex regex
  | RStar regex
  | RBol
  | REol
  | RWordB

definition word_boundary :: "string \<Rightarrow> nat \<Rightarrow> bool" where
  "word_boundary s i \<longleftrightarrow>
     (0 < i \<and> i - 1 < length s \<and> is_word (s ! (i - 1))) \<noteq> (i < length s \<and> is_word (s ! i))"

text \<open>Greedy iteration.  An iteration must advance, which is also what the language demands of
  the iterations of a quantifier; \<open>n\<close> bounds the iterations and \<open>length s - i\<close> is enough.\<close>

fun star_ends :: "(nat \<Rightarrow> nat list) \<Rightarrow> nat \<Rightarrow> nat \<Rightarrow> nat list" where
  "star_ends f 0 i = [i]"
| "star_ends f (Suc n) i =
     concat (map (star_ends f n) (filter (\<lambda>j. i < j) (f i))) @ [i]"

fun ends :: "regex \<Rightarrow> string \<Rightarrow> nat \<Rightarrow> nat list" where
  "ends REmpty s i = [i]"
| "ends (RIn cs) s i = (if i < length s \<and> s ! i \<in> set cs then [Suc i] else [])"
| "ends (RNotIn cs) s i = (if i < length s \<and> s ! i \<notin> set cs then [Suc i] else [])"
| "ends (RSeq r1 r2) s i = concat (map (ends r2 s) (ends r1 s i))"
| "ends (RAlt r1 r2) s i = ends r1 s i @ ends r2 s i"
| "ends (RStar r) s i = star_ends (ends r s) (length s - i) i"
| "ends RBol s i = (if i = 0 then [i] else [])"
| "ends REol s i = (if i = length s then [i] else [])"
| "ends RWordB s i = (if word_boundary s i then [i] else [])"

inductive matches_at :: "string \<Rightarrow> regex \<Rightarrow> nat \<Rightarrow> nat \<Rightarrow> bool" for s where
  m_empty: "matches_at s REmpty i i"
| m_in: "i < length s \<Longrightarrow> s ! i \<in> set cs \<Longrightarrow> matches_at s (RIn cs) i (Suc i)"
| m_not_in: "i < length s \<Longrightarrow> s ! i \<notin> set cs \<Longrightarrow> matches_at s (RNotIn cs) i (Suc i)"
| m_seq: "matches_at s r1 i j \<Longrightarrow> matches_at s r2 j k \<Longrightarrow> matches_at s (RSeq r1 r2) i k"
| m_alt1: "matches_at s r1 i j \<Longrightarrow> matches_at s (RAlt r1 r2) i j"
| m_alt2: "matches_at s r2 i j \<Longrightarrow> matches_at s (RAlt r1 r2) i j"
| m_star0: "matches_at s (RStar r) i i"
| m_star1: "matches_at s r i j \<Longrightarrow> matches_at s (RStar r) j k \<Longrightarrow> matches_at s (RStar r) i k"
| m_bol: "matches_at s RBol 0 0"
| m_eol: "matches_at s REol (length s) (length s)"
| m_word: "word_boundary s i \<Longrightarrow> matches_at s RWordB i i"

inductive_simps matches_at_simps [simp]:
  "matches_at s REmpty i j"
  "matches_at s (RIn cs) i j"
  "matches_at s (RNotIn cs) i j"
  "matches_at s (RSeq r1 r2) i j"
  "matches_at s (RAlt r1 r2) i j"
  "matches_at s RBol i j"
  "matches_at s REol i j"
  "matches_at s RWordB i j"

lemma matches_at_le: "matches_at s r i j \<Longrightarrow> i \<le> j"
  by (induction rule: matches_at.induct) auto

lemma matches_at_bound: "matches_at s r i j \<Longrightarrow> i \<le> length s \<Longrightarrow> j \<le> length s"
  by (induction rule: matches_at.induct) auto

lemma star_ends_sound:
  assumes "\<And>i j. j \<in> set (f i) \<Longrightarrow> matches_at s r i j"
  shows "k \<in> set (star_ends f n i) \<Longrightarrow> matches_at s (RStar r) i k"
  by (induction n arbitrary: i) (auto intro: assms m_star0 m_star1)

lemma ends_sound: "j \<in> set (ends r s i) \<Longrightarrow> matches_at s r i j"
proof (induction r arbitrary: i j)
  case (RStar r)
  then show ?case using star_ends_sound [of "ends r s" s r] by simp
qed (fastforce split: if_splits)+

lemma star_ends_complete:
  assumes f: "\<And>i j. i \<le> length s \<Longrightarrow> matches_at s r i j \<Longrightarrow> j \<in> set (f i)"
  shows "matches_at s (RStar r) i k \<Longrightarrow> i \<le> length s \<Longrightarrow> length s - i \<le> n \<Longrightarrow> k \<in> set (star_ends f n i)"
proof (induction "RStar r" i k arbitrary: n rule: matches_at.induct)
  case (m_star0 i)
  then show ?case by (cases n) auto
next
  case (m_star1 i j k)
  have ij: "i \<le> j" and jn: "j \<le> length s"
    using m_star1.hyps(1) m_star1.prems matches_at_le matches_at_bound by blast+
  show ?case
  proof (cases "i = j")
    case True
    with m_star1 show ?thesis by auto
  next
    case False
    with ij jn m_star1.prems obtain n' where n: "n = Suc n'" by (cases n) auto
    have "k \<in> set (star_ends f n' j)"
      by (rule m_star1.hyps(4)) (use False ij jn m_star1.prems n in auto)
    with f [OF m_star1.prems(1) m_star1.hyps(1)] False ij n show ?thesis by auto
  qed
qed

lemma ends_complete: "matches_at s r i j \<Longrightarrow> i \<le> length s \<Longrightarrow> j \<in> set (ends r s i)"
proof (induction r arbitrary: i j)
  case (RSeq r1 r2)
  then obtain k where k: "matches_at s r1 i k" "matches_at s r2 k j" by auto
  with RSeq have "k \<le> length s" by (blast intro: matches_at_bound)
  with k RSeq.IH RSeq.prems(2) show ?case by (auto intro: bexI [of _ k])
next
  case (RStar r)
  show ?case
    using star_ends_complete [of s r "ends r s" i j "length s - i"] RStar by simp
qed (auto split: if_splits)

theorem ends_iff: "i \<le> length s \<Longrightarrow> j \<in> set (ends r s i) \<longleftrightarrow> matches_at s r i j"
  by (blast intro: ends_sound ends_complete)

lemma ends_bound: "i \<le> length s \<Longrightarrow> j \<in> set (ends r s i) \<Longrightarrow> i \<le> j \<and> j \<le> length s"
  by (auto dest!: ends_sound intro: matches_at_le matches_at_bound)

section \<open>The methods of a compiled expression\<close>

text \<open>\<^verbatim>\<open>re.exec(s)\<close> from \<^verbatim>\<open>lastIndex = i\<close>: the leftmost start at or after \<open>i\<close> with a match,
  and the end of the match found first there.\<close>

definition exec_from :: "regex \<Rightarrow> string \<Rightarrow> nat \<Rightarrow> (nat \<times> nat) option" where
  "exec_from r s i =
     (case find (\<lambda>k. ends r s k \<noteq> []) [i..<Suc (length s)] of
        None \<Rightarrow> None
      | Some k \<Rightarrow> Some (k, hd (ends r s k)))"

text \<open>\<^verbatim>\<open>re.test(s)\<close> for an expression without the \<^verbatim>\<open>g\<close> flag.\<close>

definition re_test :: "regex \<Rightarrow> string \<Rightarrow> bool" where
  "re_test r s \<longleftrightarrow> list_ex (\<lambda>k. ends r s k \<noteq> []) [0..<Suc (length s)]"

lemma re_test_iff: "re_test r s \<longleftrightarrow> (\<exists>i j. i \<le> length s \<and> matches_at s r i j)"
proof -
  have "ends r s k \<noteq> [] \<longleftrightarrow> (\<exists>j. matches_at s r k j)" if "k \<le> length s" for k
    using ends_iff [OF that, of _ r] by (metis ex_in_conv set_empty)
  then show ?thesis
    by (auto simp: re_test_def list_ex_iff less_Suc_eq_le Bex_def simp del: upt_Suc)
qed

lemma exec_from_SomeD:
  assumes "exec_from r s i = Some (k, j)"
  shows "i \<le> k" and "k \<le> j" and "j \<le> length s" and "matches_at s r k j"
proof -
  from assms have f: "find (\<lambda>k. ends r s k \<noteq> []) [i..<Suc (length s)] = Some k"
    and j: "j = hd (ends r s k)"
    by (auto simp: exec_from_def simp del: upt_Suc split: option.splits)
  from find_SomeD [OF f] have k: "i \<le> k" "k \<le> length s" "ends r s k \<noteq> []"
    by (auto simp: less_Suc_eq_le simp del: upt_Suc)
  then have "j \<in> set (ends r s k)" using j by simp
  with k ends_bound ends_sound show "i \<le> k" "k \<le> j" "j \<le> length s" "matches_at s r k j"
    by blast+
qed

text \<open>Expressions between \<^verbatim>\<open>^\<close> and \<^verbatim>\<open>$\<close>: the test asks for a match of the whole string.\<close>

definition whole :: "regex \<Rightarrow> regex" where
  "whole r = RSeq RBol (RSeq r REol)"

lemma re_test_whole: "re_test (whole r) s \<longleftrightarrow> matches_at s r 0 (length s)"
  by (auto simp: re_test_iff whole_def)

section \<open>Derived expressions\<close>

definition ROpt :: "regex \<Rightarrow> regex" where
  "ROpt r = RAlt r REmpty"

definition RPlus :: "regex \<Rightarrow> regex" where
  "RPlus r = RSeq r (RStar r)"

fun RSeqs :: "regex list \<Rightarrow> regex" where
  "RSeqs [] = REmpty"
| "RSeqs [r] = r"
| "RSeqs (r # rs) = RSeq r (RSeqs rs)"

fun RAlts :: "regex list \<Rightarrow> regex" where
  "RAlts [] = REmpty"
| "RAlts [r] = r"
| "RAlts (r # rs) = RAlt r (RAlts rs)"

fun RTimes :: "nat \<Rightarrow> regex \<Rightarrow> regex" where
  "RTimes 0 r = REmpty"
| "RTimes (Suc n) r = RSeq r (RTimes n r)"

fun RUpTo :: "nat \<Rightarrow> regex \<Rightarrow> regex" where
  "RUpTo 0 r = REmpty"
| "RUpTo (Suc n) r = ROpt (RSeq r (RUpTo n r))"

text \<open>\<^verbatim>\<open>r{n,}\<close> and \<^verbatim>\<open>r{n,m}\<close>.\<close>

definition RAtLeast :: "nat \<Rightarrow> regex \<Rightarrow> regex" where
  "RAtLeast n r = RSeq (RTimes n r) (RStar r)"

definition RBetween :: "nat \<Rightarrow> nat \<Rightarrow> regex \<Rightarrow> regex" where
  "RBetween n m r = RSeq (RTimes n r) (RUpTo (m - n) r)"

definition RLit :: "string \<Rightarrow> regex" where
  "RLit s = RSeqs (map (\<lambda>c. RIn [c]) s)"

definition chars_between :: "nat \<Rightarrow> nat \<Rightarrow> char list" where
  "chars_between a b = map char_of [a..<Suc b]"

definition az :: "char list" where "az = ''abcdefghijklmnopqrstuvwxyz''"
definition AZ :: "char list" where "AZ = ''ABCDEFGHIJKLMNOPQRSTUVWXYZ''"
definition d09 :: "char list" where "d09 = ''0123456789''"

text \<open>\<^verbatim>\<open>\s\<close>, \<^verbatim>\<open>\S\<close>, and \<^verbatim>\<open>.\<close> (any code unit that does not end a line).\<close>

definition space_chars :: "char list" where
  "space_chars = [CHR 9, CHR 10, CHR 11, CHR 12, CHR 13, CHR '' '', CHR 160]"

definition line_ends :: "char list" where
  "line_ends = [CHR 10, CHR 13]"

definition RSpace :: regex where "RSpace = RIn space_chars"
definition RNonSpace :: regex where "RNonSpace = RNotIn space_chars"
definition RDot :: regex where "RDot = RNotIn line_ends"

text \<open>The \<^verbatim>\<open>i\<close> flag: every class is closed under case, on the ASCII letters.\<close>

definition upper_char :: "char \<Rightarrow> char" where
  "upper_char c = (if is_lower c then char_of (char_code c - 32) else c)"

fun ignore_case :: "regex \<Rightarrow> regex" where
  "ignore_case (RIn cs) = RIn (cs @ map lower_char cs @ map upper_char cs)"
| "ignore_case (RNotIn cs) = RNotIn (cs @ map lower_char cs @ map upper_char cs)"
| "ignore_case (RSeq a b) = RSeq (ignore_case a) (ignore_case b)"
| "ignore_case (RAlt a b) = RAlt (ignore_case a) (ignore_case b)"
| "ignore_case (RStar a) = RStar (ignore_case a)"
| "ignore_case r = r"

lemmas regex_defs = whole_def ROpt_def RPlus_def RAtLeast_def RBetween_def RLit_def
  RSpace_def RNonSpace_def RDot_def

lemma matches_RSeqs_Cons:
  "matches_at s (RSeqs (r # rs)) i k \<longleftrightarrow> (\<exists>j. matches_at s r i j \<and> matches_at s (RSeqs rs) j k)"
  by (cases rs) auto

lemma matches_RLit:
  "matches_at s (RLit p) i j \<longleftrightarrow> j = i + length p \<and> (p \<noteq> [] \<longrightarrow> j \<le> length s) \<and> starts_with p (drop i s)"
proof (induction p arbitrary: i)
  case (Cons c p)
  have "starts_with (c # p) (drop i s) \<longleftrightarrow> i < length s \<and> s ! i = c \<and> starts_with p (drop (Suc i) s)"
    by (cases "i < length s") (auto simp: Cons_nth_drop_Suc [symmetric])
  then show ?case
    using Cons.IH [of "Suc i"] unfolding RLit_def
    by (cases p) (auto simp: matches_RSeqs_Cons)
qed (simp add: RLit_def)

lemma matches_ROpt [simp]: "matches_at s (ROpt r) i j \<longleftrightarrow> matches_at s r i j \<or> i = j"
  by (auto simp: ROpt_def)

lemma matches_RAlts:
  "rs \<noteq> [] \<Longrightarrow> matches_at s (RAlts rs) i j \<longleftrightarrow> (\<exists>r \<in> set rs. matches_at s r i j)"
  by (induction rs rule: RAlts.induct) auto

text \<open>A starred one-character class: a run of characters of the class.\<close>

lemma matches_star_run:
  assumes one: "\<And>i j. matches_at s r i j \<longleftrightarrow> j = Suc i \<and> i < length s \<and> p (s ! i)"
  shows "matches_at s (RStar r) i j \<longleftrightarrow>
    i \<le> j \<and> (i < j \<longrightarrow> j \<le> length s) \<and> (\<forall>k. i \<le> k \<and> k < j \<longrightarrow> p (s ! k))"
    (is "?L \<longleftrightarrow> ?R i j")
proof
  show "?R i j" if ?L
    using that
  proof (induction "RStar r" i j rule: matches_at.induct)
    case (m_star1 i j k)
    from m_star1.hyps(1) have "j = Suc i" "i < length s" "p (s ! i)" by (simp_all add: one)
    moreover have "k' = i \<or> Suc i \<le> k'" if "i \<le> k'" for k' using that by arith
    ultimately show ?case using m_star1.hyps(4) by auto
  qed auto
  show ?L if "?R i j"
    using that
  proof (induction "j - i" arbitrary: i)
    case 0
    then show ?case by (auto intro: m_star0)
  next
    case (Suc n)
    have "i < j" using Suc.hyps(2) by arith
    with Suc.prems have "matches_at s r i (Suc i)" by (auto simp: one)
    moreover have "matches_at s (RStar r) (Suc i) j"
      by (rule Suc.hyps(1)) (use Suc.hyps(2) Suc.prems \<open>i < j\<close> in auto)
    ultimately show ?case by (rule m_star1)
  qed
qed

lemma matches_RStar_RNotIn:
  "matches_at s (RStar (RNotIn cs)) i j \<longleftrightarrow>
     i \<le> j \<and> (i < j \<longrightarrow> j \<le> length s) \<and> (\<forall>k. i \<le> k \<and> k < j \<longrightarrow> s ! k \<notin> set cs)"
  by (rule matches_star_run) auto

lemma matches_RTimes_RIn:
  "i + n \<le> length s \<Longrightarrow> \<forall>k \<in> {i..<i + n}. s ! k \<in> set cs \<Longrightarrow> matches_at s (RTimes n (RIn cs)) i (i + n)"
proof (induction n arbitrary: i)
  case (Suc n)
  have "matches_at s (RIn cs) i (Suc i)" using Suc.prems by (intro m_in) auto
  moreover have "matches_at s (RTimes n (RIn cs)) (Suc i) (Suc i + n)" using Suc.prems by (intro Suc.IH) auto
  ultimately show ?case by (auto intro: m_seq)
qed (simp add: m_empty)

end
