(* ===== verification/FF_Glob.thy ===== *)
theory FF_Glob
  imports FF_Regex
begin

text \<open>
  \<^verbatim>\<open>src/policy/glob-match.ts\<close>: the glob matcher behind denied paths and policy rules.  A glob is
  compiled to a regular expression piece by piece; a pattern whose brace group holds \<^verbatim>\<open>*\<close> or
  \<^verbatim>\<open>?\<close> reaches the expression compiler unescaped there, so it is read as a quantifier, or is a
  syntax error.  \<open>glob_spec\<close> is the meaning of a glob read off the pattern alone; the lemma
  \<open>picomatchLite_iff_spec\<close> says that the compiled expression decides it.
\<close>

section \<open>The compiler\<close>

text \<open>One alternative of a brace group, as the expression compiler reads the text that
  \<^verbatim>\<open>escapeLiteral\<close> produces: every character is literal but \<^verbatim>\<open>*\<close> and \<^verbatim>\<open>?\<close>, which quantify the
  character before them (a further \<^verbatim>\<open>?\<close> makes the quantifier lazy, which does not change what
  \<^verbatim>\<open>test\<close> answers) and are errors where there is nothing to repeat.\<close>

definition skip_lazy :: "string \<Rightarrow> string" where
  "skip_lazy s = (case s of [] \<Rightarrow> [] | c # cs \<Rightarrow> if c = CHR ''?'' then cs else s)"

lemma length_skip_lazy [termination_simp]: "length (skip_lazy s) \<le> length s"
  by (auto simp: skip_lazy_def split: list.splits)

lemma length_skip_lazy_tl [termination_simp]: "length (skip_lazy (tl s)) < Suc (length s)"
  using length_skip_lazy [of "tl s"] by simp

fun escapeLiteral :: "string \<Rightarrow> ff_error + regex list" where
  "escapeLiteral [] = Inr []"
| "escapeLiteral (c # cs) =
     (if c = CHR ''*'' \<or> c = CHR ''?'' then Inl RegExpSyntaxError
      else if take 1 cs = ''*'' then
        bindR (escapeLiteral (skip_lazy (tl cs))) (\<lambda>rs. Inr (RStar (RIn [c]) # rs))
      else if take 1 cs = ''?'' then
        bindR (escapeLiteral (skip_lazy (tl cs))) (\<lambda>rs. Inr (ROpt (RIn [c]) # rs))
      else bindR (escapeLiteral cs) (\<lambda>rs. Inr (RIn [c] # rs)))"

definition brace_alts :: "string \<Rightarrow> ff_error + regex" where
  "brace_alts body =
     bindR (mapR escapeLiteral (split_on (CHR '','') body)) (\<lambda>alts. Inr (RAlts (map RSeqs alts)))"

definition glob_dirs :: regex where
  "glob_dirs = ROpt (RSeq (RStar RDot) (RIn ''/''))"

fun glob_pieces :: "string \<Rightarrow> ff_error + regex list" where
  "glob_pieces [] = Inr []"
| "glob_pieces (c # cs) =
     (if c = CHR ''*'' then
        (if take 1 cs = ''*'' then
           (if take 1 (drop 1 cs) = ''/'' then
              bindR (glob_pieces (drop 2 cs)) (\<lambda>rs. Inr (glob_dirs # rs))
            else bindR (glob_pieces (drop 1 cs)) (\<lambda>rs. Inr (RStar RDot # rs)))
         else bindR (glob_pieces cs) (\<lambda>rs. Inr (RStar (RNotIn ''/'') # rs)))
      else if c = CHR ''?'' then bindR (glob_pieces cs) (\<lambda>rs. Inr (RNotIn ''/'' # rs))
      else if c = CHR ''{'' then
        (case find_index ''}'' cs of
           Some e \<Rightarrow>
             bindR (brace_alts (take e cs)) (\<lambda>r.
             bindR (glob_pieces (drop (Suc e) cs)) (\<lambda>rs. Inr (r # rs)))
         | None \<Rightarrow> bindR (glob_pieces cs) (\<lambda>rs. Inr (RIn ''{'' # rs)))
      else bindR (glob_pieces cs) (\<lambda>rs. Inr (RIn [c] # rs)))"

definition globToRegExp :: "string \<Rightarrow> ff_error + regex" where
  "globToRegExp glob = bindR (glob_pieces glob) (\<lambda>rs. Inr (whole (RSeqs rs)))"

text \<open>\<^verbatim>\<open>picomatchLite\<close> keeps the compiled expressions in a module-level map.\<close>

type_synonym glob_cache = "string \<rightharpoonup> regex"

definition picomatch_cached :: "string \<Rightarrow> string \<Rightarrow> glob_cache \<Rightarrow> (ff_error + bool) \<times> glob_cache" where
  "picomatch_cached pattern v cache =
     (case cache pattern of
        Some re \<Rightarrow> (Inr (re_test re v), cache)
      | None \<Rightarrow>
          (case globToRegExp pattern of
             Inl e \<Rightarrow> (Inl e, cache)
           | Inr re \<Rightarrow> (Inr (re_test re v), cache(pattern \<mapsto> re))))"

text \<open>The matcher without the cache; the lemma below makes it the meaning of every call.\<close>

definition picomatchLite :: "string \<Rightarrow> string \<Rightarrow> ff_error + bool" where
  "picomatchLite pattern v = bindR (globToRegExp pattern) (\<lambda>re. Inr (re_test re v))"

definition cache_ok :: "glob_cache \<Rightarrow> bool" where
  "cache_ok cache \<longleftrightarrow> (\<forall>p re. cache p = Some re \<longrightarrow> globToRegExp p = Inr re)"

lemma picomatch_cached_transparent:
  "cache_ok cache \<Longrightarrow>
     fst (picomatch_cached p v cache) = picomatchLite p v \<and> cache_ok (snd (picomatch_cached p v cache))"
  by (auto simp: picomatch_cached_def picomatchLite_def cache_ok_def split: option.splits sum.splits)

section \<open>What a glob means\<close>

definition no_line_end :: "string \<Rightarrow> bool" where
  "no_line_end x \<longleftrightarrow> (\<forall>c \<in> set x. c \<notin> set line_ends)"

definition plain_part :: "string \<Rightarrow> bool" where
  "plain_part x \<longleftrightarrow> CHR ''*'' \<notin> set x \<and> CHR ''?'' \<notin> set x"

inductive glob_spec :: "string \<Rightarrow> string \<Rightarrow> bool" where
  gs_nil: "glob_spec [] []"
| gs_dirs0: "glob_spec p v \<Longrightarrow> glob_spec (''**/'' @ p) v"
| gs_dirs: "no_line_end x \<Longrightarrow> glob_spec p v \<Longrightarrow> glob_spec (''**/'' @ p) (x @ ''/'' @ v)"
| gs_any: "take 1 p \<noteq> ''/'' \<Longrightarrow> no_line_end x \<Longrightarrow> glob_spec p v \<Longrightarrow> glob_spec (''**'' @ p) (x @ v)"
| gs_seg: "take 1 p \<noteq> ''*'' \<Longrightarrow> CHR ''/'' \<notin> set x \<Longrightarrow> glob_spec p v \<Longrightarrow> glob_spec (''*'' @ p) (x @ v)"
| gs_one: "c \<noteq> CHR ''/'' \<Longrightarrow> glob_spec p v \<Longrightarrow> glob_spec (''?'' @ p) (c # v)"
| gs_brace: "CHR ''}'' \<notin> set body \<Longrightarrow> x \<in> set (split_on (CHR '','') body) \<Longrightarrow> glob_spec p v \<Longrightarrow>
     glob_spec (''{'' @ body @ ''}'' @ p) (x @ v)"
| gs_open: "CHR ''}'' \<notin> set p \<Longrightarrow> glob_spec p v \<Longrightarrow> glob_spec (''{'' @ p) (''{'' @ v)"
| gs_lit: "c \<noteq> CHR ''*'' \<Longrightarrow> c \<noteq> CHR ''?'' \<Longrightarrow> c \<noteq> CHR ''{'' \<Longrightarrow> glob_spec p v \<Longrightarrow> glob_spec (c # p) (c # v)"

text \<open>Patterns whose brace groups hold no wildcard.\<close>

fun plain_braces :: "string \<Rightarrow> bool" where
  "plain_braces [] = True"
| "plain_braces (c # cs) =
     (if c = CHR ''{'' then
        (case find_index ''}'' cs of
           Some e \<Rightarrow> plain_part (take e cs) \<and> plain_braces (drop (Suc e) cs)
         | None \<Rightarrow> plain_braces cs)
      else plain_braces cs)"

section \<open>Pieces as sets of strings\<close>

text \<open>A piece that looks at nothing but the characters it consumes.\<close>

definition consumes :: "regex \<Rightarrow> (string \<Rightarrow> bool) \<Rightarrow> bool" where
  "consumes r L \<longleftrightarrow>
     (\<forall>s i j. i \<le> length s \<longrightarrow>
        (matches_at s r i j \<longleftrightarrow> i \<le> j \<and> j \<le> length s \<and> L (take (j - i) (drop i s))))"

lemma consumes_ex:
  assumes "consumes r L" and "i \<le> length s"
  shows "(\<exists>j. matches_at s r i j \<and> P (drop j s)) \<longleftrightarrow> (\<exists>x v. drop i s = x @ v \<and> L x \<and> P v)"
    (is "?A \<longleftrightarrow> ?B")
proof
  assume ?A
  then obtain j where "i \<le> j" "j \<le> length s" "L (take (j - i) (drop i s))" "P (drop j s)"
    using assms by (auto simp: consumes_def)
  then show ?B
    using append_take_drop_id [of "j - i" "drop i s"]
    by (intro exI [of _ "take (j - i) (drop i s)"] exI [of _ "drop j s"]) simp
next
  assume ?B
  then obtain x v where xv: "drop i s = x @ v" "L x" "P v" by blast
  then have len: "length s - i = length x + length v" by (metis length_append length_drop)
  have "drop (i + length x) s = v" using xv(1)
    by (metis add.commute append_eq_conv_conj drop_drop)
  moreover have "matches_at s r i (i + length x)"
    using assms xv len by (auto simp: consumes_def)
  ultimately show ?A using xv by blast
qed

lemma consumes_RIn: "consumes (RIn [c]) (\<lambda>x. x = [c])"
  unfolding consumes_def
proof (intro allI impI)
  fix s :: string and i j assume "i \<le> length s"
  show "matches_at s (RIn [c]) i j \<longleftrightarrow> i \<le> j \<and> j \<le> length s \<and> take (j - i) (drop i s) = [c]"
    by (cases "i < length s"; cases "j - i") (auto simp: Cons_nth_drop_Suc [symmetric] take_eq_Nil)
qed

lemma consumes_RNotIn: "consumes (RNotIn cs) (\<lambda>x. \<exists>c. x = [c] \<and> c \<notin> set cs)"
  unfolding consumes_def
proof (intro allI impI)
  fix s :: string and i j assume "i \<le> length s"
  show "matches_at s (RNotIn cs) i j \<longleftrightarrow>
      i \<le> j \<and> j \<le> length s \<and> (\<exists>c. take (j - i) (drop i s) = [c] \<and> c \<notin> set cs)"
    by (cases "i < length s"; cases "j - i") (auto simp: Cons_nth_drop_Suc [symmetric] take_eq_Nil)
qed

lemma set_slice: "set (take (j - i) (drop i s)) = {s ! k | k. i \<le> k \<and> k < j \<and> k < length s}"
  (is "_ = ?R")
proof -
  have "set (take (j - i) (drop i s)) = {s ! (i + m) | m. m < j - i \<and> m < length s - i}"
    by (force simp: set_conv_nth)
  also have "\<dots> = ?R"
  proof (intro equalityI subsetI)
    fix c assume "c \<in> ?R"
    then obtain k where "c = s ! k" "i \<le> k" "k < j" "k < length s" by blast
    then show "c \<in> {s ! (i + m) | m. m < j - i \<and> m < length s - i}"
      by (intro CollectI exI [of _ "k - i"]) auto
  qed force
  finally show ?thesis .
qed

lemma consumes_RStar_RNotIn: "consumes (RStar (RNotIn cs)) (\<lambda>x. \<forall>c \<in> set x. c \<notin> set cs)"
  unfolding consumes_def
proof (intro allI impI)
  fix s :: string and i j assume i: "i \<le> length s"
  have "(\<forall>c \<in> {s ! k | k. i \<le> k \<and> k < j \<and> k < length s}. c \<notin> set cs) \<longleftrightarrow>
      (\<forall>k. i \<le> k \<and> k < j \<and> k < length s \<longrightarrow> s ! k \<notin> set cs)" by blast
  then show "matches_at s (RStar (RNotIn cs)) i j \<longleftrightarrow>
      i \<le> j \<and> j \<le> length s \<and> (\<forall>c \<in> set (take (j - i) (drop i s)). c \<notin> set cs)"
    using i unfolding set_slice matches_RStar_RNotIn
    by (cases "j \<le> length s") (auto simp: le_less [of i j])
qed

lemma consumes_REmpty: "consumes REmpty (\<lambda>x. x = [])"
  by (auto simp: consumes_def)

lemma consumes_RSeq:
  assumes "consumes r1 L1" and "consumes r2 L2"
  shows "consumes (RSeq r1 r2) (\<lambda>x. \<exists>y z. x = y @ z \<and> L1 y \<and> L2 z)"
  unfolding consumes_def
proof (intro allI impI)
  fix s :: string and i k assume i: "i \<le> length s"
  let ?x = "take (k - i) (drop i s)"
  show "matches_at s (RSeq r1 r2) i k \<longleftrightarrow>
      i \<le> k \<and> k \<le> length s \<and> (\<exists>y z. ?x = y @ z \<and> L1 y \<and> L2 z)" (is "_ \<longleftrightarrow> ?R")
  proof
    assume "matches_at s (RSeq r1 r2) i k"
    then obtain j where j: "matches_at s r1 i j" "matches_at s r2 j k" by auto
    then have b: "i \<le> j" "j \<le> length s" "L1 (take (j - i) (drop i s))"
      "j \<le> k" "k \<le> length s" "L2 (take (k - j) (drop j s))"
      using assms i by (auto simp: consumes_def)
    have "?x = take (j - i) (drop i s) @ take (k - j) (drop j s)"
      using b take_add [of "j - i" "k - j" "drop i s"] by simp
    with b show ?R by auto
  next
    assume ?R
    then obtain y z where yz: "i \<le> k" "k \<le> length s" "?x = y @ z" "L1 y" "L2 z" by blast
    then have len: "k - i = length y + length z"
      by (metis length_append length_take length_drop diff_le_mono min_absorb2)
    let ?j = "i + length y"
    have "take (length y) (drop i s) = y" and "take (k - ?j) (drop ?j s) = z"
      using yz(3) len
      by (metis append_eq_conv_conj le_add1 min_absorb1 take_take,
          metis add.commute add_diff_cancel_left' append_eq_conv_conj diff_diff_left drop_drop take_drop)
    then have "matches_at s r1 i ?j" "matches_at s r2 ?j k"
      using assms i yz len by (auto simp: consumes_def)
    then show "matches_at s (RSeq r1 r2) i k" by auto
  qed
qed

lemma consumes_ROpt: "consumes r L \<Longrightarrow> consumes (ROpt r) (\<lambda>x. L x \<or> x = [])"
  by (auto simp: consumes_def)

lemma consumes_cong: "consumes r L \<Longrightarrow> (\<And>x. L x \<longleftrightarrow> M x) \<Longrightarrow> consumes r M"
  by (simp add: consumes_def)

lemma consumes_dirs: "consumes glob_dirs (\<lambda>x. x = [] \<or> (\<exists>y. x = y @ ''/'' \<and> no_line_end y))"
  unfolding glob_dirs_def RDot_def
  by (rule consumes_cong [OF consumes_ROpt [OF consumes_RSeq [OF consumes_RStar_RNotIn consumes_RIn]]])
    (auto simp: no_line_end_def)

lemma consumes_any: "consumes (RStar RDot) no_line_end"
  unfolding RDot_def by (rule consumes_cong [OF consumes_RStar_RNotIn]) (auto simp: no_line_end_def)

lemma consumes_seg: "consumes (RStar (RNotIn ''/'')) (\<lambda>x. CHR ''/'' \<notin> set x)"
  by (rule consumes_cong [OF consumes_RStar_RNotIn]) auto

lemma escapeLiteral_plain: "plain_part p \<Longrightarrow> escapeLiteral p = Inr (map (\<lambda>c. RIn [c]) p)"
proof (induction p)
  case (Cons c p)
  then show ?case by (cases p) (auto simp: plain_part_def)
qed simp

lemma consumes_lits: "consumes (RSeqs (map (\<lambda>c. RIn [c]) p)) (\<lambda>x. x = p)"
proof (induction p)
  case (Cons c p)
  note step = consumes_RSeq [OF consumes_RIn [of c] Cons.IH]
  show ?case
    by (cases p) (use consumes_RIn step in \<open>simp_all\<close>)
qed (use consumes_REmpty in simp)

lemma consumes_RAlts:
  assumes "ps \<noteq> []" and "\<And>p. p \<in> set ps \<Longrightarrow> consumes (f p) (L p)"
  shows "consumes (RAlts (map f ps)) (\<lambda>x. \<exists>p \<in> set ps. L p x)"
  using assms by (auto simp: consumes_def matches_RAlts)

lemma plain_part_split: "plain_part body \<Longrightarrow> x \<in> set (split_on c body) \<Longrightarrow> plain_part x"
  using split_on_subset [of x c body] by (auto simp: plain_part_def)

lemma brace_alts_plain:
  assumes "plain_part body"
  obtains r where "brace_alts body = Inr r"
    and "consumes r (\<lambda>x. x \<in> set (split_on (CHR '','') body))"
proof
  let ?lits = "\<lambda>p. map (\<lambda>c. RIn [c]) p"
  let ?parts = "split_on (CHR '','') body"
  have "mapR escapeLiteral ?parts = Inr (map ?lits ?parts)"
    using assms plain_part_split [OF assms]
    by (auto simp: mapR_Inr_iff list_all2_map2 list_all2_same intro: escapeLiteral_plain)
  then show "brace_alts body = Inr (RAlts (map RSeqs (map ?lits ?parts)))"
    by (simp add: brace_alts_def)
  have "consumes (RAlts (map (\<lambda>p. RSeqs (?lits p)) ?parts)) (\<lambda>x. \<exists>p \<in> set ?parts. x = p)"
    by (rule consumes_RAlts) (simp_all add: consumes_lits)
  then show "consumes (RAlts (map RSeqs (map ?lits ?parts))) (\<lambda>x. x \<in> set ?parts)"
    by (simp add: comp_def)
qed

section \<open>The compiled expression decides the meaning\<close>

text \<open>How \<open>glob_spec\<close> reads the head of a pattern, in the order of the compiler's cases.\<close>

lemma glob_spec_Nil: "glob_spec [] v \<longleftrightarrow> v = []"
  by (subst glob_spec.simps) auto

lemma glob_spec_dirs:
  "glob_spec (CHR ''*'' # CHR ''*'' # CHR ''/'' # p) v \<longleftrightarrow>
     (\<exists>x v'. v = x @ v' \<and> (x = [] \<or> (\<exists>y. x = y @ ''/'' \<and> no_line_end y)) \<and> glob_spec p v')"
    (is "?L \<longleftrightarrow> ?R")
proof
  assume ?L
  then show ?R
  proof (cases rule: glob_spec.cases)
    case (gs_dirs x p' v')
    then show ?thesis by (intro exI [of _ "x @ ''/''"] exI [of _ v']) auto
  qed auto
next
  assume ?R
  then show ?L using gs_dirs0 [of p] gs_dirs [of _ p] by auto
qed

lemma glob_spec_any:
  "take 1 p \<noteq> ''/'' \<Longrightarrow> glob_spec (CHR ''*'' # CHR ''*'' # p) v \<longleftrightarrow>
     (\<exists>x v'. v = x @ v' \<and> no_line_end x \<and> glob_spec p v')"
  by (subst glob_spec.simps) auto

lemma glob_spec_seg:
  "take 1 p \<noteq> ''*'' \<Longrightarrow> glob_spec (CHR ''*'' # p) v \<longleftrightarrow>
     (\<exists>x v'. v = x @ v' \<and> CHR ''/'' \<notin> set x \<and> glob_spec p v')"
  by (subst glob_spec.simps) auto

lemma glob_spec_one:
  "glob_spec (CHR ''?'' # p) v \<longleftrightarrow>
     (\<exists>x v'. v = x @ v' \<and> (\<exists>c. x = [c] \<and> c \<notin> set ''/'') \<and> glob_spec p v')"
    (is "?L \<longleftrightarrow> ?R")
proof
  assume ?L
  then show ?R
  proof (cases rule: glob_spec.cases)
    case (gs_one c p' v')
    then show ?thesis by (intro exI [of _ "[c]"] exI [of _ v']) auto
  qed auto
next
  assume ?R
  then show ?L by (auto intro: gs_one [of _ p, simplified])
qed

lemma split_at_first:
  "c \<notin> set x \<Longrightarrow> c \<notin> set y \<Longrightarrow> x @ c # p = y @ c # q \<Longrightarrow> x = y \<and> p = q"
proof (induction x arbitrary: y)
  case Nil
  then show ?case by (cases y) auto
next
  case (Cons a x)
  then show ?case by (cases y) auto
qed

lemma glob_spec_brace:
  assumes "CHR ''}'' \<notin> set body"
  shows "glob_spec (CHR ''{'' # body @ CHR ''}'' # p) v \<longleftrightarrow>
     (\<exists>x v'. v = x @ v' \<and> x \<in> set (split_on (CHR '','') body) \<and> glob_spec p v')"
    (is "?L \<longleftrightarrow> ?R")
proof
  assume ?L
  then show ?R
  proof (cases rule: glob_spec.cases)
    case (gs_brace body' x p' v')
    with assms have "body = body' \<and> p = p'" by (intro split_at_first [of "CHR ''}''"]) auto
    with gs_brace show ?thesis by auto
  qed (use assms in auto)
next
  assume ?R
  then show ?L using gs_brace [OF assms] by auto
qed

lemma glob_spec_open:
  assumes "CHR ''}'' \<notin> set p"
  shows "glob_spec (CHR ''{'' # p) v \<longleftrightarrow> (\<exists>x v'. v = x @ v' \<and> x = ''{'' \<and> glob_spec p v')"
  using assms by (subst glob_spec.simps) auto

lemma glob_spec_lit:
  "c \<noteq> CHR ''*'' \<Longrightarrow> c \<noteq> CHR ''?'' \<Longrightarrow> c \<noteq> CHR ''{'' \<Longrightarrow> glob_spec (c # p) v \<longleftrightarrow>
     (\<exists>x v'. v = x @ v' \<and> x = [c] \<and> glob_spec p v')"
  by (subst glob_spec.simps) auto

lemma find_index_char:
  "find_index [c] s = Some e \<Longrightarrow> c \<notin> set (take e s) \<and> s = take e s @ c # drop (Suc e) s"
  by (induction "[c]" s arbitrary: e rule: find_index.induct) (auto split: if_splits)

lemma find_index_char_None: "find_index [c] s = None \<longleftrightarrow> c \<notin> set s"
  by (induction "[c]" s rule: find_index.induct) auto

text \<open>The remaining pieces match the rest of the value iff the remaining pattern means it.\<close>

definition pieces_ok :: "string \<Rightarrow> regex list \<Rightarrow> bool" where
  "pieces_ok p rs \<longleftrightarrow>
     (\<forall>s i. i \<le> length s \<longrightarrow> (matches_at s (RSeqs rs) i (length s) \<longleftrightarrow> glob_spec p (drop i s)))"

lemma pieces_ok_Cons:
  assumes ok: "pieces_ok p rs" and r: "consumes r L"
    and spec: "\<And>v. glob_spec q v \<longleftrightarrow> (\<exists>x v'. v = x @ v' \<and> L x \<and> glob_spec p v')"
  shows "pieces_ok q (r # rs)"
  unfolding pieces_ok_def
proof (intro allI impI)
  fix s :: string and i assume i: "i \<le> length s"
  have "matches_at s (RSeqs (r # rs)) i (length s) \<longleftrightarrow>
      (\<exists>j. matches_at s r i j \<and> glob_spec p (drop j s))"
    using ok i matches_at_bound [of s r i] unfolding pieces_ok_def matches_RSeqs_Cons by blast
  also have "\<dots> \<longleftrightarrow> glob_spec q (drop i s)"
    unfolding consumes_ex [OF r i] spec by blast
  finally show "matches_at s (RSeqs (r # rs)) i (length s) \<longleftrightarrow> glob_spec q (drop i s)" .
qed

lemma pieces_ok_Nil: "pieces_ok [] []"
  by (auto simp: pieces_ok_def glob_spec_Nil)

lemma glob_pieces_ok: "plain_braces p \<Longrightarrow> \<exists>rs. glob_pieces p = Inr rs \<and> pieces_ok p rs"
proof (induction p rule: glob_pieces.induct)
  case 1
  then show ?case by (simp add: pieces_ok_Nil)
next
  case (2 c cs)
  have star: ?case if c: "c = CHR ''*''"
  proof -
    have pb: "plain_braces cs" using 2 c by simp
    show ?thesis
    proof (cases "take 1 cs = ''*''")
      case False
      with 2 c pb obtain rs where "glob_pieces cs = Inr rs" "pieces_ok cs rs" by auto
      then show ?thesis
        using c False pieces_ok_Cons [OF _ consumes_seg glob_spec_seg [OF False]] by auto
    next
      case True
      then obtain ds where ds: "cs = CHR ''*'' # ds" by (cases cs) auto
      with pb have pd: "plain_braces ds" by simp
      show ?thesis
      proof (cases "take 1 ds = ''/''")
        case False
        with 2 c ds pd obtain rs where "glob_pieces ds = Inr rs" "pieces_ok ds rs" by auto
        then show ?thesis
          using c ds False pieces_ok_Cons [OF _ consumes_any glob_spec_any [OF False]] by auto
      next
        case True
        then obtain es where es: "ds = CHR ''/'' # es" by (cases ds) auto
        with 2 c ds pd obtain rs where "glob_pieces es = Inr rs" "pieces_ok es rs"
          by (auto simp: numeral_2_eq_2)
        then show ?thesis
          using c ds es pieces_ok_Cons [OF _ consumes_dirs glob_spec_dirs] by (auto simp: numeral_2_eq_2)
      qed
    qed
  qed
  have brace: ?case if c: "c = CHR ''{''"
  proof (cases "find_index ''}'' cs")
    case None
    with 2 c obtain rs where "glob_pieces cs = Inr rs" "pieces_ok cs rs" by auto
    moreover have "CHR ''}'' \<notin> set cs" using None by (simp add: find_index_char_None)
    ultimately show ?thesis
      using c None pieces_ok_Cons [OF _ consumes_RIn glob_spec_open] by auto
  next
    case (Some e)
    let ?body = "take e cs" and ?rest = "drop (Suc e) cs"
    have fi: "CHR ''}'' \<notin> set ?body" "cs = ?body @ CHR ''}'' # ?rest"
      using find_index_char [OF Some] by auto
    from 2(8) c Some have "plain_part ?body" "plain_braces ?rest" by auto
    then obtain r where r: "brace_alts ?body = Inr r"
      and L: "consumes r (\<lambda>x. x \<in> set (split_on (CHR '','') ?body))"
      using brace_alts_plain by blast
    from 2 c Some r \<open>plain_braces ?rest\<close> obtain rs
      where rs: "glob_pieces ?rest = Inr rs" "pieces_ok ?rest rs" by auto
    have "pieces_ok (CHR ''{'' # ?body @ CHR ''}'' # ?rest) (r # rs)"
      by (rule pieces_ok_Cons [OF rs(2) L glob_spec_brace [OF fi(1)]])
    then have "pieces_ok (c # cs) (r # rs)" using c fi(2) by simp
    then show ?thesis using c Some r rs by auto
  qed
  show ?case
  proof -
    consider "c = CHR ''*''" | "c = CHR ''?''" | "c = CHR ''{''"
      | "c \<noteq> CHR ''*''" "c \<noteq> CHR ''?''" "c \<noteq> CHR ''{''" by blast
    then show ?thesis
    proof cases
      case 2: 2
      with "2.IH" "2.prems" obtain rs where "glob_pieces cs = Inr rs" "pieces_ok cs rs" by auto
      then show ?thesis using 2 pieces_ok_Cons [OF _ consumes_RNotIn glob_spec_one] by auto
    next
      case 4
      with "2.IH" "2.prems" obtain rs where "glob_pieces cs = Inr rs" "pieces_ok cs rs" by auto
      then show ?thesis using 4 pieces_ok_Cons [OF _ consumes_RIn glob_spec_lit] by auto
    qed (use star brace in blast)+
  qed
qed

lemma picomatchLite_iff_spec:
  assumes "plain_braces p"
  shows "\<exists>b. picomatchLite p v = Inr b \<and> (b \<longleftrightarrow> glob_spec p v)"
proof -
  obtain rs where rs: "glob_pieces p = Inr rs" "pieces_ok p rs"
    using glob_pieces_ok [OF assms] by blast
  then have "matches_at v (RSeqs rs) 0 (length v) \<longleftrightarrow> glob_spec p v"
    by (auto simp: pieces_ok_def)
  then show ?thesis
    by (simp add: picomatchLite_def globToRegExp_def rs re_test_whole)
qed

section \<open>Properties\<close>

lemma escapeLiteral_error: "escapeLiteral p = Inl e \<Longrightarrow> e = RegExpSyntaxError"
  by (induction p rule: escapeLiteral.induct) (auto simp: bindR_eq_Inl_iff split: if_splits)

lemma mapR_Inl_ex:
  "(\<And>x e. f x = Inl e \<Longrightarrow> e = d) \<Longrightarrow> \<exists>x \<in> set xs. \<exists>e. f x = Inl e \<Longrightarrow> mapR f xs = Inl d"
proof (induction xs)
  case (Cons x xs)
  show ?case
  proof (cases "f x")
    case (Inl e)
    with Cons.prems(1) show ?thesis by simp
  next
    case (Inr y)
    with Cons.prems(2) have "\<exists>x \<in> set xs. \<exists>e. f x = Inl e" by auto
    with Cons.IH Cons.prems(1) Inr show ?thesis by simp
  qed
qed simp

lemma find_index_body: "CHR ''}'' \<notin> set body \<Longrightarrow> find_index ''}'' (body @ CHR ''}'' # p) = Some (length body)"
  by (induction body) auto

lemma glob_spec_literal:
  "CHR ''*'' \<notin> set n \<Longrightarrow> CHR ''?'' \<notin> set n \<Longrightarrow> CHR ''{'' \<notin> set n \<Longrightarrow> glob_spec n v \<longleftrightarrow> v = n"
proof (induction n arbitrary: v)
  case Nil
  show ?case by (rule glob_spec_Nil)
next
  case (Cons c n)
  have "glob_spec (c # n) v \<longleftrightarrow> (\<exists>x v'. v = x @ v' \<and> x = [c] \<and> glob_spec n v')"
    by (rule glob_spec_lit) (use Cons.prems in auto)
  moreover have "glob_spec n v' \<longleftrightarrow> v' = n" for v'
    by (rule Cons.IH) (use Cons.prems in auto)
  ultimately show ?case by simp
qed

lemma plain_braces_literal: "CHR ''{'' \<notin> set n \<Longrightarrow> plain_braces n"
  by (induction n) auto



text \<open>A pattern \<^verbatim>\<open>**/name\<close> matches \<^verbatim>\<open>x/name\<close> exactly when \<open>x\<close> holds no line
  terminator: the comment of the matcher promises any characters for \<^verbatim>\<open>**\<close>, the compiled dot
  stops at a line end, so a denied glob does not see a path with a newline in a directory name.\<close>

theorem star_star_stops_at_line_end:
  assumes "CHR ''*'' \<notin> set n" and "CHR ''?'' \<notin> set n" and "CHR ''{'' \<notin> set n"
  shows "picomatchLite (''**/'' @ n) (x @ ''/'' @ n) = Inr (no_line_end x)"
proof -
  have "plain_braces (''**/'' @ n)" using assms(3) by (simp add: plain_braces_literal)
  then obtain b where b: "picomatchLite (''**/'' @ n) (x @ ''/'' @ n) = Inr b"
    "b \<longleftrightarrow> glob_spec (''**/'' @ n) (x @ ''/'' @ n)"
    using picomatchLite_iff_spec by blast
  have "glob_spec (CHR ''*'' # CHR ''*'' # CHR ''/'' # n) (x @ CHR ''/'' # n) \<longleftrightarrow> no_line_end x"
    unfolding glob_spec_dirs glob_spec_literal [OF assms] by auto
  with b show ?thesis by simp
qed

theorem star_star_stops_at_line_end_witness:
  "picomatchLite ''**/.env'' (''a'' @ [CHR 10] @ ''b/.env'') = Inr False \<and>
   picomatchLite ''**/.env'' ''a/b/.env'' = Inr True"
  using star_star_stops_at_line_end [of "''.env''" "''a'' @ [CHR 10] @ ''b''"]
    star_star_stops_at_line_end [of "''.env''" "''a/b''"]
  by (simp add: no_line_end_def line_ends_def)

text \<open>A brace group with an alternative that starts with a wildcard does not compile:
  every match with such a pattern throws, although the header of the module offers both braces and
  wildcards.\<close>

theorem brace_leading_wildcard_throws:
  assumes "CHR ''}'' \<notin> set body" and "part \<in> set (split_on (CHR '','') body)"
    and "part = CHR ''*'' # rest \<or> part = CHR ''?'' # rest"
  shows "picomatchLite (''{'' @ body @ ''}'' @ p) v = Inl RegExpSyntaxError"
proof -
  have "\<exists>e. escapeLiteral part = Inl e" using assms(3) by auto
  then have "mapR escapeLiteral (split_on (CHR '','') body) = Inl RegExpSyntaxError"
    using assms(2) escapeLiteral_error by (intro mapR_Inl_ex) auto
  then have "brace_alts body = Inl RegExpSyntaxError" by (simp add: brace_alts_def)
  then show ?thesis
    by (simp add: picomatchLite_def globToRegExp_def find_index_body [OF assms(1)])
qed

theorem brace_leading_wildcard_throws_witness:
  "picomatchLite ''{*.ts,b}'' ''a.ts'' = Inl RegExpSyntaxError"
  using brace_leading_wildcard_throws [of "''*.ts,b''" "''*.ts''" "''.ts''" "[]" "''a.ts''"] by simp

end
