(* ===== verification/FF_Paths.thy ===== *)
theory FF_Paths
  imports FF_Glob
begin

text \<open>
  The workspace boundary: \<^verbatim>\<open>src/core/path-identity.ts\<close> and \<^verbatim>\<open>src/policy/path-policy.ts\<close> over
  the POSIX half of \<^verbatim>\<open>node:path\<close>.  The file system is a parameter: \<open>fs_exists\<close> and
  \<open>fs_realpath\<close> stand for \<^verbatim>\<open>existsSync\<close> and \<^verbatim>\<open>realpathSync.native\<close>, \<open>fs_cwd\<close> for the working
  directory.  The locale \<open>posix_fs\<close> names what the policy relies on: a resolved path is absolute and
  normalised.
\<close>

section \<open>node:path on POSIX\<close>

definition isAbsolute :: "string \<Rightarrow> bool" where
  "isAbsolute p = starts_with ''/'' p"

definition push_seg :: "string list \<Rightarrow> string \<Rightarrow> string list" where
  "push_seg acc seg =
     (if seg = [] \<or> seg = ''.'' then acc else if seg = ''..'' then butlast acc else acc @ [seg])"

text \<open>The segments of an absolute path, with \<^verbatim>\<open>.\<close>, \<^verbatim>\<open>..\<close> and empty segments resolved.\<close>

definition norm_segs :: "string \<Rightarrow> string list" where
  "norm_segs p = foldl push_seg [] (split_on (CHR ''/'') p)"

definition render :: "string list \<Rightarrow> string" where
  "render segs = ''/'' @ join_with ''/'' segs"

text \<open>\<^verbatim>\<open>resolve(...ps)\<close>: an absolute argument restarts, the working directory comes first.\<close>

definition resolve_text :: "string \<Rightarrow> string list \<Rightarrow> string" where
  "resolve_text cwd ps =
     foldl (\<lambda>acc p. if p = [] then acc else if isAbsolute p then p else acc @ ''/'' @ p) cwd ps"

definition resolve :: "string \<Rightarrow> string list \<Rightarrow> string" where
  "resolve cwd ps = render (norm_segs (resolve_text cwd ps))"

fun rel_segs :: "string list \<Rightarrow> string list \<Rightarrow> string list" where
  "rel_segs [] ys = ys"
| "rel_segs (x # xs) [] = replicate (Suc (length xs)) ''..''"
| "rel_segs (x # xs) (y # ys) =
     (if x = y then rel_segs xs ys else replicate (Suc (length xs)) ''..'' @ y # ys)"

definition relative :: "string \<Rightarrow> string \<Rightarrow> string \<Rightarrow> string" where
  "relative cwd from_path to_path =
     join_with ''/'' (rel_segs (norm_segs (resolve cwd [from_path])) (norm_segs (resolve cwd [to_path])))"

text \<open>A segment of a normalised path.\<close>

definition seg_ok :: "string \<Rightarrow> bool" where
  "seg_ok x \<longleftrightarrow> x \<noteq> [] \<and> x \<noteq> ''.'' \<and> x \<noteq> ''..'' \<and> CHR ''/'' \<notin> set x"

definition normal_path :: "string \<Rightarrow> bool" where
  "normal_path p \<longleftrightarrow> (\<exists>segs. p = render segs \<and> list_all seg_ok segs)"

lemma foldl_push_ok:
  "list_all seg_ok acc \<Longrightarrow> \<forall>x \<in> set xs. CHR ''/'' \<notin> set x \<Longrightarrow> list_all seg_ok (foldl push_seg acc xs)"
proof (induction xs arbitrary: acc)
  case (Cons x xs)
  have "list_all seg_ok (push_seg acc x)"
    using Cons.prems by (auto simp: push_seg_def seg_ok_def list_all_iff dest: in_set_butlastD)
  with Cons show ?case by simp
qed simp

lemma norm_segs_ok: "list_all seg_ok (norm_segs p)"
  unfolding norm_segs_def by (rule foldl_push_ok) (auto dest: split_on_no_sep)

lemma foldl_push_id: "list_all seg_ok xs \<Longrightarrow> foldl push_seg acc xs = acc @ xs"
  by (induction xs arbitrary: acc) (auto simp: push_seg_def seg_ok_def)

lemma norm_segs_render: "list_all seg_ok segs \<Longrightarrow> norm_segs (render segs) = segs"
proof (cases segs)
  case (Cons x xs)
  assume ok: "list_all seg_ok segs"
  then have "split_on (CHR ''/'') (join_with ''/'' segs) = segs"
    using Cons by (intro split_join) (auto simp: list_all_iff seg_ok_def)
  then show ?thesis
    using ok foldl_push_id [of segs "[]"] by (simp add: norm_segs_def render_def push_seg_def)
qed (simp add: norm_segs_def render_def push_seg_def)

lemma normal_path_resolve [simp]: "normal_path (resolve cwd ps)"
  using norm_segs_ok by (auto simp: normal_path_def resolve_def)

lemma resolve_normal: "normal_path p \<Longrightarrow> resolve cwd [p] = p"
proof -
  assume "normal_path p"
  then obtain segs where p: "p = render segs" "list_all seg_ok segs" by (auto simp: normal_path_def)
  then have "isAbsolute p" "p \<noteq> []" by (simp_all add: isAbsolute_def render_def)
  then show ?thesis using p by (simp add: resolve_def resolve_text_def norm_segs_render)
qed

lemma normal_path_render: "normal_path p \<Longrightarrow> render (norm_segs p) = p"
  by (auto simp: normal_path_def norm_segs_render)

section \<open>src/core/path-identity.ts\<close>

record file_system =
  fs_cwd :: string
  fs_exists :: "string \<Rightarrow> bool"
  fs_realpath :: "string \<Rightarrow> string result"

definition displayPath :: "file_system \<Rightarrow> string \<Rightarrow> string" where
  "displayPath fs input = resolve (fs_cwd fs) [input]"

definition canonicalExistingPath :: "file_system \<Rightarrow> string \<Rightarrow> string result" where
  "canonicalExistingPath fs input = fs_realpath fs (displayPath fs input)"

text \<open>The walk to the nearest existing ancestor; \<open>segs\<close> are the segments of the probe, the
  \<open>below\<close> collects the base names below it.\<close>

function probe_up :: "file_system \<Rightarrow> string \<Rightarrow> string list \<Rightarrow> string list \<Rightarrow> string result" where
  "probe_up fs absolute segs below =
     (if fs_exists fs (render segs) then
        bindR (fs_realpath fs (render segs)) (\<lambda>anc.
          Inr (if below \<noteq> [] then resolve (fs_cwd fs) (anc # below) else anc))
      else if segs = [] then
        Inl (PlainError (''PATH_CANONICALIZATION_FAILED: no existing ancestor for '' @ absolute))
      else probe_up fs absolute (butlast segs) (last segs # below))"
  by pat_completeness auto
termination
  by (relation "measure (\<lambda>(fs, absolute, segs, below). length segs)") auto

declare probe_up.simps [simp del]

definition canonicalCandidatePath :: "file_system \<Rightarrow> string \<Rightarrow> string result" where
  "canonicalCandidatePath fs input =
     (let absolute = displayPath fs input in probe_up fs absolute (norm_segs absolute) [])"

text \<open>The persisted representation falls back to the lexical path wherever the canonical one
  would fail.\<close>

function probe_legacy :: "file_system \<Rightarrow> string \<Rightarrow> string list \<Rightarrow> string list \<Rightarrow> string" where
  "probe_legacy fs absolute segs below =
     (if fs_exists fs (render segs) then
        (case fs_realpath fs (render segs) of
           Inl e \<Rightarrow> absolute
         | Inr anc \<Rightarrow> if below \<noteq> [] then resolve (fs_cwd fs) (anc # below) else anc)
      else if segs = [] then absolute
      else probe_legacy fs absolute (butlast segs) (last segs # below))"
  by pat_completeness auto
termination
  by (relation "measure (\<lambda>(fs, absolute, segs, below). length segs)") auto

declare probe_legacy.simps [simp del]

definition legacyPersistedPath :: "file_system \<Rightarrow> string \<Rightarrow> string" where
  "legacyPersistedPath fs input =
     (let absolute = displayPath fs input in probe_legacy fs absolute (norm_segs absolute) [])"

definition samePath :: "string \<Rightarrow> string \<Rightarrow> string \<Rightarrow> bool" where
  "samePath cwd left right \<longleftrightarrow> relative cwd left right = [] \<and> relative cwd right left = []"

definition isPathWithin :: "string \<Rightarrow> string \<Rightarrow> string \<Rightarrow> bool" where
  "isPathWithin cwd root candidate \<longleftrightarrow>
     (let rel = relative cwd root candidate
      in rel = [] \<or> (rel \<noteq> ''..'' \<and> \<not> starts_with ''../'' rel \<and> \<not> isAbsolute rel))"

text \<open>Containment is a prefix of segments.\<close>

lemma rel_segs_prefix: "rel_segs xs (xs @ ys) = ys"
  by (induction xs) auto

lemma rel_segs_not_prefix: "\<not> prefix xs ys \<Longrightarrow> \<exists>zs. rel_segs xs ys = ''..'' # zs"
  by (induction xs ys rule: rel_segs.induct) (auto split: if_splits)

lemma join_with_Nil_iff: "list_all seg_ok ys \<Longrightarrow> join_with ''/'' ys = [] \<longleftrightarrow> ys = []"
  by (induction "''/''" ys rule: join_with.induct) (auto simp: seg_ok_def)

lemma join_dotdot: "join_with ''/'' (''..'' # zs) = ''..'' \<or> starts_with ''../'' (join_with ''/'' (''..'' # zs))"
  by (cases zs) auto

lemma join_seg_not_up:
  assumes "list_all seg_ok (y # ys)"
  shows "join_with ''/'' (y # ys) \<noteq> ''..'' \<and> \<not> starts_with ''../'' (join_with ''/'' (y # ys)) \<and>
    \<not> isAbsolute (join_with ''/'' (y # ys))"
proof -
  have "split_on (CHR ''/'') (join_with ''/'' (y # ys)) = y # ys"
    using assms by (intro split_join) (auto simp: list_all_iff seg_ok_def)
  moreover have "y \<noteq> ''..''" "y \<noteq> []" using assms by (auto simp: seg_ok_def)
  ultimately show ?thesis
    by (auto simp: isAbsolute_def starts_with_iff_prefix prefix_def split: list.splits)
qed

lemma isPathWithin_iff:
  "isPathWithin cwd root cand \<longleftrightarrow> prefix (norm_segs (resolve cwd [root])) (norm_segs (resolve cwd [cand]))"
proof -
  let ?r = "norm_segs (resolve cwd [root])" and ?c = "norm_segs (resolve cwd [cand])"
  show ?thesis
  proof (cases "prefix ?r ?c")
    case True
    then obtain ys where c: "?c = ?r @ ys" by (auto simp: prefix_def)
    moreover have "list_all seg_ok ys" using norm_segs_ok [of "resolve cwd [cand]"] c by simp
    ultimately show ?thesis
      using True join_seg_not_up rel_segs_prefix [of ?r ys]
      by (cases ys) (simp_all add: isPathWithin_def relative_def Let_def)
  next
    case False
    then obtain zs where "rel_segs ?r ?c = ''..'' # zs" using rel_segs_not_prefix by blast
    then show ?thesis
      using False join_dotdot [of zs] by (cases zs) (auto simp: isPathWithin_def relative_def Let_def)
  qed
qed

lemma samePath_iff:
  "samePath cwd a b \<longleftrightarrow> norm_segs (resolve cwd [a]) = norm_segs (resolve cwd [b])"
proof -
  have "relative cwd a b = [] \<longleftrightarrow> norm_segs (resolve cwd [a]) = norm_segs (resolve cwd [b])" for a b
  proof (cases "prefix (norm_segs (resolve cwd [a])) (norm_segs (resolve cwd [b]))")
    case True
    then obtain ys where c: "norm_segs (resolve cwd [b]) = norm_segs (resolve cwd [a]) @ ys"
      by (auto simp: prefix_def)
    moreover have "list_all seg_ok ys" using norm_segs_ok [of "resolve cwd [b]"] c by simp
    ultimately show ?thesis by (auto simp: relative_def rel_segs_prefix join_with_Nil_iff)
  next
    case False
    then obtain zs where "rel_segs (norm_segs (resolve cwd [a])) (norm_segs (resolve cwd [b])) = ''..'' # zs"
      using rel_segs_not_prefix by blast
    with False show ?thesis by (cases zs) (auto simp: relative_def)
  qed
  then show ?thesis by (auto simp: samePath_def)
qed

locale posix_fs =
  fixes fs :: file_system
  assumes realpath_normal: "fs_realpath fs p = Inr q \<Longrightarrow> normal_path q"
begin

lemma probe_up_normal: "probe_up fs absolute segs below = Inr q \<Longrightarrow> normal_path q"
proof (induction "length segs" arbitrary: segs below)
  case 0
  then show ?case
    by (subst (asm) probe_up.simps) (auto intro: realpath_normal split: if_splits)
next
  case (Suc n)
  have IH: "probe_up fs absolute (butlast segs) (last segs # below) = Inr q \<Longrightarrow> normal_path q"
    by (rule Suc.hyps(1)) (use Suc.hyps(2) in auto)
  show ?case
    using Suc.prems
    by (subst (asm) probe_up.simps) (auto intro: IH realpath_normal split: if_splits)
qed

lemma canonical_normal: "canonicalCandidatePath fs p = Inr q \<Longrightarrow> normal_path q"
  by (auto simp: canonicalCandidatePath_def Let_def intro: probe_up_normal)

end

text \<open>A root directory that exists makes the walk succeed.\<close>

lemma probe_up_total:
  assumes "fs_exists fs (render [])" and "\<And>p. fs_exists fs p \<Longrightarrow> \<exists>q. fs_realpath fs p = Inr q"
  shows "\<exists>q. probe_up fs absolute segs below = Inr q"
proof (induction "length segs" arbitrary: segs below)
  case 0
  with assms show ?case by (subst probe_up.simps) auto
next
  case (Suc n)
  have "\<exists>q. probe_up fs absolute (butlast segs) (last segs # below) = Inr q"
    by (rule Suc.hyps(1)) (use Suc.hyps(2) in auto)
  with assms Suc.hyps(2) show ?case by (subst probe_up.simps) auto
qed

section \<open>src/policy/path-policy.ts\<close>

record path_policy =
  pp_allowed :: "string list"
  pp_deniedGlobs :: "string list"

definition new_PathPolicy :: "file_system \<Rightarrow> string list \<Rightarrow> string list \<Rightarrow> path_policy result" where
  "new_PathPolicy fs allowedDirectories deniedGlobs =
     bindR (mapR (canonicalCandidatePath fs) allowedDirectories) (\<lambda>roots.
       Inr \<lparr>pp_allowed = roots, pp_deniedGlobs = deniedGlobs\<rparr>)"

definition isInsideAllowed :: "file_system \<Rightarrow> path_policy \<Rightarrow> string \<Rightarrow> bool result" where
  "isInsideAllowed fs pp apath =
     bindR (canonicalCandidatePath fs apath) (\<lambda>canon.
       Inr (list_ex (\<lambda>root. isPathWithin (fs_cwd fs) root canon) (pp_allowed pp)))"

definition assertInsideAllowed :: "file_system \<Rightarrow> path_policy \<Rightarrow> string \<Rightarrow> unit result" where
  "assertInsideAllowed fs pp apath =
     bindR (isInsideAllowed fs pp apath) (\<lambda>b.
       guardR b (PathEscapeError (''Path is outside allowed directories: '' @ apath)))"

text \<open>On POSIX \<^verbatim>\<open>split(sep).join('/')\<close> is the identity (\<open>join_split_on\<close>).\<close>

definition to_slashes :: "string \<Rightarrow> string" where
  "to_slashes p = join_with ''/'' (split_on (CHR ''/'') p)"

definition isDenied :: "file_system \<Rightarrow> path_policy \<Rightarrow> string \<Rightarrow> string \<Rightarrow> bool result" where
  "isDenied fs pp apath projectRoot =
     (let rel = to_slashes (relative (fs_cwd fs) projectRoot apath);
          candidates = [rel, to_slashes apath]
      in someR (\<lambda>g. someR (\<lambda>c. picomatchLite g c) candidates) (pp_deniedGlobs pp))"

definition sensitive_folders :: "string list" where
  "sensitive_folders = [''/.ssh/'', ''/.aws/'', ''/.gnupg/'', ''/.config/gcloud/'', ''/.kube/'']"

definition assertNotDenied :: "file_system \<Rightarrow> path_policy \<Rightarrow> string \<Rightarrow> string \<Rightarrow> unit result" where
  "assertNotDenied fs pp apath projectRoot =
     bindR (isDenied fs pp apath projectRoot) (\<lambda>b.
     bindR (guardR (\<not> b) (PathEscapeError (''Path is denied by policy (secret/ignored): '' @ apath))) (\<lambda>_.
       guardR (\<not> list_ex (\<lambda>x. js_includes x (to_lower apath)) sensitive_folders)
         (PathEscapeError (''Path touches a protected credential folder: '' @ apath))))"

definition assertNoSymlinkEscape :: "file_system \<Rightarrow> path_policy \<Rightarrow> string \<Rightarrow> unit result" where
  "assertNoSymlinkEscape fs pp apath =
     bindR (canonicalCandidatePath fs apath) (\<lambda>real.
     bindR (isInsideAllowed fs pp real) (\<lambda>b.
       guardR b (PathEscapeError (''Symlink escapes the workspace boundary: '' @ apath @ '' -> '' @ real))))"

definition resolveSafe :: "file_system \<Rightarrow> path_policy \<Rightarrow> string \<Rightarrow> string \<Rightarrow> string result" where
  "resolveSafe fs pp inputPath projectRoot =
     (let apath = (if isAbsolute inputPath then resolve (fs_cwd fs) [inputPath]
                 else resolve (fs_cwd fs) [projectRoot, inputPath])
      in bindR (assertInsideAllowed fs pp apath) (\<lambda>_.
         bindR (assertNotDenied fs pp apath projectRoot) (\<lambda>_.
         bindR (assertNoSymlinkEscape fs pp apath) (\<lambda>_. Inr apath))))"

text \<open>What an accepted path satisfies, check by check.\<close>

lemma isInsideAllowed_TrueD:
  assumes "isInsideAllowed fs pp apath = Inr True"
  shows "\<exists>canon root. canonicalCandidatePath fs apath = Inr canon \<and> root \<in> set (pp_allowed pp) \<and>
    prefix (norm_segs (resolve (fs_cwd fs) [root])) (norm_segs (resolve (fs_cwd fs) [canon]))"
  using assms by (auto simp: isInsideAllowed_def list_ex_iff isPathWithin_iff)

lemma resolveSafe_InrD:
  assumes "resolveSafe fs pp inputPath projectRoot = Inr apath"
  shows "assertInsideAllowed fs pp apath = Inr ()" and "assertNotDenied fs pp apath projectRoot = Inr ()"
    and "assertNoSymlinkEscape fs pp apath = Inr ()" and "normal_path apath"
  using assms by (auto simp: resolveSafe_def Let_def split: if_splits)

lemma assertNotDenied_okD:
  assumes "assertNotDenied fs pp apath projectRoot = Inr ()"
  shows "g \<in> set (pp_deniedGlobs pp) \<Longrightarrow> picomatchLite g apath = Inr False"
    and "g \<in> set (pp_deniedGlobs pp) \<Longrightarrow> picomatchLite g (relative (fs_cwd fs) projectRoot apath) = Inr False"
    and "x \<in> set sensitive_folders \<Longrightarrow> \<not> sublist x (to_lower apath)"
proof -
  from assms have "isDenied fs pp apath projectRoot = Inr False"
    by (auto simp: assertNotDenied_def)
  then show "g \<in> set (pp_deniedGlobs pp) \<Longrightarrow> picomatchLite g apath = Inr False"
    and "g \<in> set (pp_deniedGlobs pp) \<Longrightarrow> picomatchLite g (relative (fs_cwd fs) projectRoot apath) = Inr False"
    by (simp_all add: isDenied_def Let_def to_slashes_def join_split_on someR_False_iff
        del: someR.simps bindR_eq_Inr_iff)
  show "x \<in> set sensitive_folders \<Longrightarrow> \<not> sublist x (to_lower apath)"
    using assms by (auto simp: assertNotDenied_def list_ex_iff includes_iff_sublist)
qed

section \<open>Properties\<close>

text \<open>A file system given by which paths exist and where each link leads.\<close>

definition linked_fs :: "string \<Rightarrow> (string \<Rightarrow> bool) \<Rightarrow> (string \<Rightarrow> string) \<Rightarrow> file_system" where
  "linked_fs cwd ex link =
     \<lparr>fs_cwd = cwd, fs_exists = ex, fs_realpath = (\<lambda>p. Inr (resolve cwd [link p]))\<rparr>"

interpretation linked: posix_fs "linked_fs cwd ex link" for cwd ex link
  by unfold_locales (auto simp: linked_fs_def)

text \<open>Containment of paths is containment of segments: a path is within a root exactly
  when the normalised segments of the root are a prefix of its own, so a sibling that merely shares
  a name prefix, and a path that climbs out with \<^verbatim>\<open>..\<close>, are outside.\<close>

theorem path_within_is_segment_prefix:
  "isPathWithin cwd root cand \<longleftrightarrow>
     prefix (norm_segs (resolve cwd [root])) (norm_segs (resolve cwd [cand]))"
  by (rule isPathWithin_iff)

text \<open>Claim C31. A path that \<^verbatim>\<open>resolveSafe\<close> accepts is inside the workspace after symbolic links are
  resolved: its canonical form lies, segment by segment, under the canonical form of one of the
  configured directories; neither its absolute nor its project-relative text matches a denied glob,
  and it touches none of the credential folders.\<close>

theorem resolveSafe_stays_inside:
  assumes "posix_fs fs" and "new_PathPolicy fs dirs globs = Inr pp"
    and "resolveSafe fs pp inputPath projectRoot = Inr apath"
  shows "(\<exists>d canon root. d \<in> set dirs \<and> canonicalCandidatePath fs d = Inr root \<and>
        canonicalCandidatePath fs apath = Inr canon \<and> prefix (norm_segs root) (norm_segs canon)) \<and>
    (\<forall>g \<in> set globs. picomatchLite g apath = Inr False \<and>
        picomatchLite g (relative (fs_cwd fs) projectRoot apath) = Inr False) \<and>
    (\<forall>x \<in> set sensitive_folders. \<not> sublist x (to_lower apath))"
proof -
  from assms(2) obtain roots where pp: "mapR (canonicalCandidatePath fs) dirs = Inr roots"
    "pp_allowed pp = roots" "pp_deniedGlobs pp = globs"
    by (auto simp: new_PathPolicy_def)
  note ok = resolveSafe_InrD [OF assms(3)]
  from ok(1) have "isInsideAllowed fs pp apath = Inr True" by (auto simp: assertInsideAllowed_def)
  then obtain canon root where cr: "canonicalCandidatePath fs apath = Inr canon" "root \<in> set roots"
    "prefix (norm_segs (resolve (fs_cwd fs) [root])) (norm_segs (resolve (fs_cwd fs) [canon]))"
    using isInsideAllowed_TrueD pp(2) by blast
  obtain d where d: "d \<in> set dirs" "canonicalCandidatePath fs d = Inr root"
    using mapR_setD [OF pp(1) cr(2)] by blast
  from d cr(1) have "normal_path root" "normal_path canon"
    using posix_fs.canonical_normal [OF assms(1)] by blast+
  with cr d have "\<exists>d canon root. d \<in> set dirs \<and> canonicalCandidatePath fs d = Inr root \<and>
      canonicalCandidatePath fs apath = Inr canon \<and> prefix (norm_segs root) (norm_segs canon)"
    by (auto simp: resolve_normal)
  moreover have "\<forall>g \<in> set globs. picomatchLite g apath = Inr False \<and>
      picomatchLite g (relative (fs_cwd fs) projectRoot apath) = Inr False"
    and "\<forall>x \<in> set sensitive_folders. \<not> sublist x (to_lower apath)"
    using assertNotDenied_okD [OF ok(2)] pp(3) by blast+
  ultimately show ?thesis by blast
qed

theorem resolveSafe_stays_inside_witness:
  "\<exists>canon. canonicalCandidatePath (linked_fs ''/w'' (\<lambda>_. True) id) ''/w/src/a.ts'' = Inr canon \<and>
     prefix (norm_segs ''/w'') (norm_segs canon)"
proof -
  let ?fs = "linked_fs ''/w'' (\<lambda>_. True) id"
  let ?pp = "\<lparr>pp_allowed = [''/w''], pp_deniedGlobs = [''**/.env'']\<rparr>"
  have pol: "new_PathPolicy ?fs [''/w''] [''**/.env''] = Inr ?pp" by code_simp
  have ok: "resolveSafe ?fs ?pp ''src/a.ts'' ''/w'' = Inr ''/w/src/a.ts''" by code_simp
  have root: "canonicalCandidatePath ?fs ''/w'' = Inr ''/w''" by code_simp
  show ?thesis
    using resolveSafe_stays_inside [OF linked.posix_fs_axioms pol ok] root by auto
qed


section \<open>The persisted form of a path is stable\<close>

text \<open>What POSIX promises of a resolved path, for a file system that does not change between the calls: it
  exists, it resolves to itself, and the same names exist below it as below the path it came from.\<close>

lemma split_on_last: "c \<notin> set p \<Longrightarrow> split_on c (acc @ c # p) = split_on c acc @ [p]"
proof (induction acc)
  case (Cons x acc)
  then show ?case by (cases "split_on c acc") (auto simp: split_on_single)
qed (simp add: split_on_single)

locale posix_links = posix_fs +
  assumes realpath_exists: "fs_exists fs p \<Longrightarrow> fs_realpath fs p = Inr q \<Longrightarrow> fs_exists fs q"
    and realpath_fixed: "fs_exists fs p \<Longrightarrow> fs_realpath fs p = Inr q \<Longrightarrow> fs_realpath fs q = Inr q"
    and realpath_children: "fs_exists fs (render segs) \<Longrightarrow> fs_realpath fs (render segs) = Inr q \<Longrightarrow>
      list_all seg_ok segs \<Longrightarrow> list_all seg_ok ys \<Longrightarrow>
      fs_exists fs (render (norm_segs q @ ys)) = fs_exists fs (render (segs @ ys))"
begin

lemma probe_legacy_walk:
  "\<forall>k \<in> {1..length below}. \<not> fs_exists fs (render (segs @ take k below)) \<Longrightarrow>
     probe_legacy fs a (segs @ below) rest = probe_legacy fs a segs (below @ rest)"
proof (induction below arbitrary: rest rule: rev_induct)
  case (snoc x below)
  from snoc.prems have "\<not> fs_exists fs (render (segs @ take (length (below @ [x])) (below @ [x])))"
    by (intro bspec [OF snoc.prems]) auto
  then have "\<not> fs_exists fs (render (segs @ below @ [x]))" by simp
  then have "probe_legacy fs a (segs @ below @ [x]) rest = probe_legacy fs a (segs @ below) (x # rest)"
    by (subst probe_legacy.simps) (simp add: butlast_append)
  also have "\<dots> = probe_legacy fs a segs (below @ x # rest)"
  proof (rule snoc.IH, rule ballI)
    fix k assume "k \<in> {1..length below}"
    then show "\<not> fs_exists fs (render (segs @ take k below))" using bspec [OF snoc.prems, of k] by simp
  qed
  finally show ?case by simp
qed simp

lemma norm_segs_extend: "CHR ''/'' \<notin> set p \<Longrightarrow> norm_segs (acc @ ''/'' @ p) = push_seg (norm_segs acc) p"
  by (simp add: norm_segs_def split_on_last)

lemma norm_segs_foldl:
  "list_all seg_ok ys \<Longrightarrow>
     norm_segs (foldl (\<lambda>acc p. if p = [] then acc else if isAbsolute p then p else acc @ ''/'' @ p) acc ys) = norm_segs acc @ ys"
proof (induction ys arbitrary: acc)
  case (Cons y ys)
  then have "y \<noteq> []" "\<not> isAbsolute y" "CHR ''/'' \<notin> set y" "push_seg (norm_segs acc) y = norm_segs acc @ [y]"
    by (cases y; auto simp: seg_ok_def isAbsolute_def push_seg_def)+
  with Cons show ?case using norm_segs_extend [of y acc] by simp
qed simp

lemma resolve_below:
  assumes "normal_path q" "list_all seg_ok ys"
  shows "resolve cwd (q # ys) = render (norm_segs q @ ys)"
proof -
  obtain segs where q: "q = render segs" using assms(1) by (auto simp: normal_path_def)
  then have "q \<noteq> []" "isAbsolute q" by (simp_all add: render_def isAbsolute_def)
  then show ?thesis using norm_segs_foldl [OF assms(2), of q] by (simp add: resolve_def resolve_text_def)
qed

lemma probe_legacy_stable:
  assumes "list_all seg_ok (segs @ below)" and "a = render (segs @ below)"
    and "\<forall>k \<in> {1..length below}. \<not> fs_exists fs (render (segs @ take k below))"
    and "r = probe_legacy fs a segs below"
  shows "probe_legacy fs r (norm_segs r) [] = r \<and> normal_path r"
  using assms
proof (induction "length segs" arbitrary: segs below rule: less_induct)
  case less
  have ok: "list_all seg_ok segs" "list_all seg_ok below" using less.prems(1) by simp_all
  have na: "norm_segs a = segs @ below" "normal_path a"
    using less.prems(1,2) by (auto simp: norm_segs_render normal_path_def)
  have same: "probe_legacy fs a (norm_segs a) [] = probe_legacy fs a segs below"
    using probe_legacy_walk [OF less.prems(3), of a "[]"] na by simp
  show ?case
  proof (cases "fs_exists fs (render segs)")
    case ex: True
    show ?thesis
    proof (cases "fs_realpath fs (render segs)")
      case (Inl e)
      with ex less.prems(4) have "r = a" by (simp add: probe_legacy.simps [of fs a segs])
      with same less.prems(4) na show ?thesis by simp
    next
      case (Inr q)
      have q: "normal_path q" "fs_exists fs q" "fs_realpath fs q = Inr q"
        using ex Inr realpath_normal realpath_exists realpath_fixed by blast+
      have qe: "fs_exists fs (render (norm_segs q))" "fs_realpath fs (render (norm_segs q)) = Inr q"
        using q by (simp_all add: normal_path_render)
      have r: "r = render (norm_segs q @ below)"
        using ex Inr less.prems(4) resolve_below [OF q(1) ok(2)] q(1)
        by (simp add: probe_legacy.simps [of fs a segs] normal_path_render split: if_splits)
      have nr: "norm_segs r = norm_segs q @ below" "normal_path r"
        using r ok(2) norm_segs_ok [of q] by (auto simp: norm_segs_render normal_path_def)
      have "\<forall>k \<in> {1..length below}. \<not> fs_exists fs (render (norm_segs q @ take k below))"
      proof
        fix k assume k: "k \<in> {1..length below}"
        have "list_all seg_ok (take k below)" using ok(2) by (auto simp: list_all_iff dest: in_set_takeD)
        from realpath_children [OF ex Inr ok(1) this] bspec [OF less.prems(3) k]
        show "\<not> fs_exists fs (render (norm_segs q @ take k below))" by simp
      qed
      from probe_legacy_walk [OF this, of r "[]"] have
        "probe_legacy fs r (norm_segs r) [] = probe_legacy fs r (norm_segs q) below" by (simp add: nr)
      also have "\<dots> = r"
        using qe resolve_below [OF q(1) ok(2)] r q(1)
        by (subst probe_legacy.simps) (simp add: normal_path_render)
      finally show ?thesis using nr by simp
    qed
  next
    case nex: False
    show ?thesis
    proof (cases "segs = []")
      case True
      with nex have "probe_legacy fs a segs below = a" by (subst probe_legacy.simps) simp
      then have "r = a" using less.prems(4) by simp
      with same less.prems(4) na show ?thesis by simp
    next
      case False
      then have segs: "segs = butlast segs @ [last segs]" by simp
      show ?thesis
      proof (rule less.hyps [of "butlast segs" "last segs # below"])
        show "length (butlast segs) < length segs" using False by simp
        show "list_all seg_ok (butlast segs @ last segs # below)" "a = render (butlast segs @ last segs # below)"
          using less.prems(1,2) segs by (metis append.assoc append_Cons append_Nil)+
        show "r = probe_legacy fs a (butlast segs) (last segs # below)"
          using nex False less.prems(4) by (simp add: probe_legacy.simps [of fs a segs])
        show "\<forall>k \<in> {1..length (last segs # below)}. \<not> fs_exists fs (render (butlast segs @ take k (last segs # below)))"
        proof
          fix k assume k: "k \<in> {1..length (last segs # below)}"
          then obtain j where j: "k = Suc j" "j \<le> length below" by (cases k) auto
          have "butlast segs @ take k (last segs # below) = segs @ take j below"
            using segs j by (metis append.assoc append_Cons append_Nil take_Suc_Cons)
          moreover have "\<not> fs_exists fs (render (segs @ take j below))"
            using less.prems(3) nex j by (cases "j = 0") auto
          ultimately show "\<not> fs_exists fs (render (butlast segs @ take k (last segs # below)))" by metis
        qed
      qed
    qed
  qed
qed

lemma legacy_stable:
  "legacyPersistedPath fs (legacyPersistedPath fs p) = legacyPersistedPath fs p \<and> normal_path (legacyPersistedPath fs p)"
proof -
  let ?a = "displayPath fs p"
  have a: "normal_path ?a" by (simp add: displayPath_def)
  then have "probe_legacy fs (legacyPersistedPath fs p) (norm_segs (legacyPersistedPath fs p)) [] = legacyPersistedPath fs p \<and>
      normal_path (legacyPersistedPath fs p)"
    by (intro probe_legacy_stable [of "norm_segs ?a" "[]" ?a])
      (auto simp: norm_segs_ok normal_path_render legacyPersistedPath_def Let_def)
  then show ?thesis by (simp add: legacyPersistedPath_def [of fs "legacyPersistedPath fs p"] displayPath_def resolve_normal Let_def)
qed

end

interpretation plain_links: posix_links "linked_fs cwd (\<lambda>_. True) id" for cwd
  by unfold_locales (auto simp: linked_fs_def resolve_normal)

end
