(* ===== verification/FF_Json.thy ===== *)
theory FF_Json
  imports FF_Prelude
begin

text \<open>
  JavaScript values as the tools exchange them (\<^verbatim>\<open>unknown\<close> arguments and records), and the two
  canonical serialisations that fingerprints and signatures are computed from:
  \<^verbatim>\<open>canonical\<close> of \<^verbatim>\<open>src/policy/approvals.ts\<close> and \<^verbatim>\<open>canonicalJson\<close> of
  \<^verbatim>\<open>src/distributed/coordinator.ts\<close>.

  An object is its list of entries in enumeration order.  Both serialisations sort the entries
  with \<^verbatim>\<open>localeCompare\<close>, whose order depends on the locale data of the runtime; it is the
  parameter \<open>lc\<close> (\<open>lc a b\<close> for \<^verbatim>\<open>a.localeCompare(b) <= 0\<close>) of the definitions, and the locale
  \<open>collation\<close> states what the independence of the key order needs of it.
\<close>

datatype jval =
    JUndef
  | JNull
  | JBool bool
  | JNum int
  | JStr string
  | JArr "jval list"
  | JObj "(string \<times> jval) list"

type_synonym jobject = "(string \<times> jval) list"

text \<open>What counts as true in a condition.\<close>

definition js_truthy :: "jval \<Rightarrow> bool" where
  "js_truthy v = (case v of JUndef \<Rightarrow> False | JNull \<Rightarrow> False | JBool b \<Rightarrow> b | JNum n \<Rightarrow> n \<noteq> 0 | JStr s \<Rightarrow> s \<noteq> [] | _ \<Rightarrow> True)"

fun is_object :: "jval \<Rightarrow> bool" where
  "is_object (JObj kvs) = True"
| "is_object v = False"

fun is_string :: "jval \<Rightarrow> bool" where
  "is_string (JStr s) = True"
| "is_string v = False"

text \<open>\<^verbatim>\<open>obj[key]\<close>: \<^verbatim>\<open>undefined\<close> for a missing key.\<close>

definition jget :: "jobject \<Rightarrow> string \<Rightarrow> jval" where
  "jget kvs k = (case map_of kvs k of None \<Rightarrow> JUndef | Some v \<Rightarrow> v)"

section \<open>JSON text\<close>

definition hex_digit :: "nat \<Rightarrow> char" where
  "hex_digit n = ''0123456789abcdef'' ! (n mod 16)"

definition json_escape :: "char \<Rightarrow> string" where
  "json_escape c =
     (if c = CHR 34 then [CHR 92, CHR 34]
      else if c = CHR 92 then [CHR 92, CHR 92]
      else if c = CHR 8 then [CHR 92, CHR ''b'']
      else if c = CHR 9 then [CHR 92, CHR ''t'']
      else if c = CHR 10 then [CHR 92, CHR ''n'']
      else if c = CHR 12 then [CHR 92, CHR ''f'']
      else if c = CHR 13 then [CHR 92, CHR ''r'']
      else if char_code c < 32 then
        [CHR 92, CHR ''u'', CHR ''0'', CHR ''0'', hex_digit (char_code c div 16), hex_digit (char_code c)]
      else [c])"

text \<open>\<^verbatim>\<open>JSON.stringify\<close> of a string.\<close>

definition json_quote :: "string \<Rightarrow> string" where
  "json_quote s = [CHR 34] @ concat (map json_escape s) @ [CHR 34]"

text \<open>\<^verbatim>\<open>JSON.stringify\<close> of a value that is neither array nor object; \<open>None\<close> is
  \<^verbatim>\<open>undefined\<close>.\<close>

fun stringify_atom :: "jval \<Rightarrow> string option" where
  "stringify_atom JNull = Some ''null''"
| "stringify_atom (JBool b) = Some (if b then ''true'' else ''false'')"
| "stringify_atom (JNum i) = Some (show_int i)"
| "stringify_atom (JStr s) = Some (json_quote s)"
| "stringify_atom v = None"

text \<open>\<^verbatim>\<open>join\<close> writes an \<^verbatim>\<open>undefined\<close> element as the empty string, a template literal writes it
  as \<^verbatim>\<open>undefined\<close>.\<close>

definition join_elem :: "string option \<Rightarrow> string" where
  "join_elem x = (case x of None \<Rightarrow> [] | Some s \<Rightarrow> s)"

definition template :: "string option \<Rightarrow> string" where
  "template x = (case x of None \<Rightarrow> ''undefined'' | Some s \<Rightarrow> s)"

definition entry_le :: "(string \<Rightarrow> string \<Rightarrow> bool) \<Rightarrow> string \<times> 'a \<Rightarrow> string \<times> 'a \<Rightarrow> bool" where
  "entry_le lc a b = lc (fst a) (fst b)"

text \<open>The children are serialised first and the entries sorted by key afterwards; the source
  sorts first, which gives the same list because the comparator reads the keys only
  (\<open>sort_by_map_snd\<close>).\<close>

fun canonical :: "(string \<Rightarrow> string \<Rightarrow> bool) \<Rightarrow> jval \<Rightarrow> string option" where
  "canonical lc (JArr vs) =
     Some (''['' @ join_with '','' (map (\<lambda>v. join_elem (canonical lc v)) vs) @ '']'')"
| "canonical lc (JObj kvs) =
     Some (''{'' @ join_with '',''
       (map (\<lambda>(k, t). json_quote k @ '':'' @ t)
         (sort_by (entry_le lc) (map (\<lambda>(k, v). (k, template (canonical lc v))) kvs))) @ ''}'')"
| "canonical lc v = stringify_atom v"

fun canonicalJson :: "(string \<Rightarrow> string \<Rightarrow> bool) \<Rightarrow> jval \<Rightarrow> string" where
  "canonicalJson lc (JArr vs) = ''['' @ join_with '','' (map (canonicalJson lc) vs) @ '']''"
| "canonicalJson lc (JObj kvs) =
     ''{'' @ join_with '',''
       (map (\<lambda>(k, t). json_quote k @ '':'' @ t)
         (sort_by (entry_le lc)
           (map (\<lambda>(k, v). (k, canonicalJson lc v)) (filter (\<lambda>(k, v). v \<noteq> JUndef) kvs)))) @ ''}''"
| "canonicalJson lc v = (case stringify_atom v of None \<Rightarrow> ''null'' | Some s \<Rightarrow> s)"

lemma insort_by_map_snd:
  "insort_by (entry_le lc) (k, f v) (map (\<lambda>(k, v). (k, f v)) kvs) =
     map (\<lambda>(k, v). (k, f v)) (insort_by (entry_le lc) (k, v) kvs)"
  by (induction kvs) (auto simp: entry_le_def)

lemma sort_by_map_snd:
  "sort_by (entry_le lc) (map (\<lambda>(k, v). (k, f v)) kvs) =
     map (\<lambda>(k, v). (k, f v)) (sort_by (entry_le lc) kvs)"
  by (induction kvs) (auto simp: insort_by_map_snd)

section \<open>Independence of the key order\<close>

text \<open>Two values that differ only in the enumeration order of object keys, at any depth.\<close>

inductive same_value :: "jval \<Rightarrow> jval \<Rightarrow> bool" where
  sv_refl: "same_value v v"
| sv_arr: "list_all2 same_value vs ws \<Longrightarrow> same_value (JArr vs) (JArr ws)"
| sv_obj: "distinct (map fst kvs) \<Longrightarrow> mset kvs = mset kvs' \<Longrightarrow>
     list_all2 (rel_prod (=) same_value) kvs' kws \<Longrightarrow>
     same_value (JObj kvs) (JObj kws)"

locale collation =
  fixes lc :: "string \<Rightarrow> string \<Rightarrow> bool"
  assumes lc_total: "lc a b \<or> lc b a"
    and lc_trans: "lc a b \<Longrightarrow> lc b c \<Longrightarrow> lc a c"
    and lc_antisym: "lc a b \<Longrightarrow> lc b a \<Longrightarrow> a = b"
begin

lemma entry_comparator: "comparator (entry_le lc)"
  using lc_total lc_trans by unfold_locales (auto simp: entry_le_def)

lemma keyed_sorted_unique:
  "sorted_wrt (entry_le lc) xs \<Longrightarrow> sorted_wrt (entry_le lc) ys \<Longrightarrow> mset xs = mset ys \<Longrightarrow>
     distinct (map fst xs) \<Longrightarrow> xs = ys"
proof (induction xs arbitrary: ys)
  case (Cons x xs)
  then obtain y ys' where ys: "ys = y # ys'" by (cases ys) auto
  have mem: "x \<in> set ys" "y \<in> set (x # xs)"
    using Cons.prems(3) ys by (metis list.set_intros(1) set_mset_mset)+
  have "fst x = fst y"
    using mem Cons.prems(1,2) ys lc_antisym lc_total by (auto simp: entry_le_def)
  with mem(2) Cons.prems(4) have "x = y" by (auto simp: image_iff)
  with Cons ys show ?case by auto
qed simp

lemma sort_keys_cong:
  assumes "mset kvs = mset kws" and "distinct (map fst kvs)"
  shows "sort_by (entry_le lc) kvs = sort_by (entry_le lc) kws"
proof (rule keyed_sorted_unique)
  show "mset (sort_by (entry_le lc) kvs) = mset (sort_by (entry_le lc) kws)"
    using assms by simp
  have "mset (map fst (sort_by (entry_le lc) kvs)) = mset (map fst kvs)" by simp
  then show "distinct (map fst (sort_by (entry_le lc) kvs))"
    using assms(2) mset_eq_imp_distinct_iff by blast
qed (rule comparator.sort_by_sorted [OF entry_comparator])+

lemma canonical_same_value: "same_value v w \<Longrightarrow> canonical lc v = canonical lc w"
proof (induction rule: same_value.induct)
  case (sv_arr vs ws)
  then have "map (\<lambda>v. join_elem (canonical lc v)) vs = map (\<lambda>v. join_elem (canonical lc v)) ws"
    by (induction rule: list_all2_induct) auto
  then show ?case by simp
next
  case (sv_obj kvs kvs' kws)
  let ?f = "\<lambda>(k, v). (k, template (canonical lc v))"
  from sv_obj(3) have "map ?f kvs' = map ?f kws"
    by (induction rule: list_all2_induct) auto
  moreover have "mset (map ?f kvs) = mset (map ?f kvs')"
    using sv_obj(2) by simp
  moreover have "map fst (map ?f kvs) = map fst kvs" by auto
  ultimately have "sort_by (entry_le lc) (map ?f kvs) = sort_by (entry_le lc) (map ?f kws)"
    using sv_obj(1) by (metis sort_keys_cong)
  then show ?case by simp
qed simp

end

text \<open>A collation orders keys strictly, so sorting keys depends on their multiset only.\<close>

sublocale collation \<subseteq> keys: strict_comparator lc
  by unfold_locales (use lc_total lc_trans lc_antisym in blast)+

text \<open>Comparison by code units is one collation.\<close>

fun code_unit_le :: "string \<Rightarrow> string \<Rightarrow> bool" where
  "code_unit_le [] b = True"
| "code_unit_le (x # xs) [] = False"
| "code_unit_le (x # xs) (y # ys) =
     (if x = y then code_unit_le xs ys else char_code x < char_code y)"

lemma char_code_inj: "char_code x = char_code y \<Longrightarrow> x = y"
  by (simp add: char_code_def)

interpretation code_units: collation code_unit_le
proof
  show "code_unit_le a b \<or> code_unit_le b a" for a b
    by (induction a b rule: code_unit_le.induct) (use char_code_inj in \<open>auto simp: not_less_iff_gr_or_eq\<close>)
  show "code_unit_le a b \<Longrightarrow> code_unit_le b a \<Longrightarrow> a = b" for a b
    by (induction a b rule: code_unit_le.induct) (auto split: if_splits elim: code_unit_le.elims)
  show "code_unit_le a b \<Longrightarrow> code_unit_le b c \<Longrightarrow> code_unit_le a c" for a b c
  proof (induction a b arbitrary: c rule: code_unit_le.induct)
    case (3 x xs y ys)
    then show ?case by (cases c) (auto split: if_splits)
  qed auto
qed

section \<open>The text determines the value\<close>

text \<open>\<open>sort_keys\<close> is the value with the entries of every object in key order, \<open>json_text\<close> writes a
  value without sorting.  \<^verbatim>\<open>canonical\<close> is the composition (\<open>canonical_eq\<close>), and \<open>json_text\<close> is
  injective on values without \<^verbatim>\<open>undefined\<close>, so the canonical text identifies a JSON value up to the
  order of its keys.\<close>

fun sort_keys :: "(string \<Rightarrow> string \<Rightarrow> bool) \<Rightarrow> jval \<Rightarrow> jval" where
  "sort_keys lc (JArr vs) = JArr (map (sort_keys lc) vs)"
| "sort_keys lc (JObj kvs) = JObj (sort_by (entry_le lc) (map (\<lambda>(k, v). (k, sort_keys lc v)) kvs))"
| "sort_keys lc v = v"

fun json_text :: "jval \<Rightarrow> string option" where
  "json_text (JArr vs) = Some (''['' @ join_with '','' (map (\<lambda>v. join_elem (json_text v)) vs) @ '']'')"
| "json_text (JObj kvs) =
     Some (''{'' @ join_with '','' (map (\<lambda>(k, v). json_quote k @ '':'' @ template (json_text v)) kvs) @ ''}'')"
| "json_text v = stringify_atom v"

fun no_undef :: "jval \<Rightarrow> bool" where
  "no_undef JUndef = False"
| "no_undef (JArr vs) = list_all no_undef vs"
| "no_undef (JObj kvs) = list_all (\<lambda>(k, v). no_undef v) kvs"
| "no_undef v = True"

lemma canonical_eq: "canonical lc v = json_text (sort_keys lc v)"
proof (induction v)
  case (JArr vs)
  then show ?case by (simp add: comp_def cong: map_cong)
next
  case (JObj kvs)
  let ?f = "\<lambda>(k, v). (k, template (json_text v))"
  have "map (\<lambda>(k, v). (k, template (canonical lc v))) kvs = map ?f (map (\<lambda>(k, v). (k, sort_keys lc v)) kvs)"
    using JObj by fastforce
  then have "sort_by (entry_le lc) (map (\<lambda>(k, v). (k, template (canonical lc v))) kvs) =
             map ?f (sort_by (entry_le lc) (map (\<lambda>(k, v). (k, sort_keys lc v)) kvs))"
    by (simp only: sort_by_map_snd [of lc "\<lambda>v. template (json_text v)"])
  then show ?case by (simp add: case_prod_beta' comp_def)
qed simp_all

lemma no_undef_sort_keys: "no_undef (sort_keys lc v) = no_undef v"
  by (induction v) (auto simp: list_all_iff)

text \<open>Quoted strings are prefix free.\<close>

lemma json_escape_cases:
  "json_escape c = [c] \<and> c \<noteq> CHR 34 \<and> c \<noteq> CHR 92 \<or> (\<exists>d ds. json_escape c = CHR 92 # d # ds)"
  by (auto simp: json_escape_def)

lemma hex_digit_inj: "m < 16 \<Longrightarrow> n < 16 \<Longrightarrow> hex_digit m = hex_digit n \<Longrightarrow> m = n"
proof -
  have "distinct ''0123456789abcdef''" by code_simp
  then show "m < 16 \<Longrightarrow> n < 16 \<Longrightarrow> hex_digit m = hex_digit n \<Longrightarrow> m = n"
    by (simp add: hex_digit_def nth_eq_iff_index_eq)
qed

lemma json_escape_prefix_free: "json_escape c @ x = json_escape d @ y \<Longrightarrow> c = d \<and> x = y"
proof -
  assume eq: "json_escape c @ x = json_escape d @ y"
  have div_mod: "char_code c = char_code d" if "char_code c < 32" "char_code d < 32"
      "hex_digit (char_code c div 16) = hex_digit (char_code d div 16)"
      "hex_digit (char_code c) = hex_digit (char_code d)"
  proof -
    have "char_code c div 16 = char_code d div 16"
      by (rule hex_digit_inj) (use that in auto)
    moreover have "hex_digit (char_code c mod 16) = hex_digit (char_code d mod 16)"
      using that by (simp add: hex_digit_def)
    then have "char_code c mod 16 = char_code d mod 16" by (intro hex_digit_inj) auto
    ultimately show ?thesis by (metis div_mult_mod_eq)
  qed
  show ?thesis using eq div_mod
    by (auto simp: json_escape_def char_code_inj split: if_split_asm)
qed

lemma json_escape_not_quote: "json_escape c @ x \<noteq> CHR 34 # y"
  using json_escape_cases [of c] by auto

lemma json_body_prefix_free:
  "concat (map json_escape a) @ CHR 34 # x = concat (map json_escape b) @ CHR 34 # y \<Longrightarrow> a = b \<and> x = y"
proof (induction a arbitrary: b)
  case Nil
  show ?case
  proof (cases b)
    case (Cons d ds)
    with Nil have "json_escape d @ concat (map json_escape ds) @ CHR 34 # y = CHR 34 # x" by simp
    then show ?thesis by (simp only: json_escape_not_quote)
  qed (use Nil in simp)
next
  case (Cons c cs)
  show ?case
  proof (cases b)
    case Nil
    with Cons.prems have "json_escape c @ concat (map json_escape cs) @ CHR 34 # x = CHR 34 # y" by simp
    then show ?thesis by (simp only: json_escape_not_quote)
  next
    case (Cons d ds)
    with Cons.prems have "json_escape c @ concat (map json_escape cs) @ CHR 34 # x =
      json_escape d @ concat (map json_escape ds) @ CHR 34 # y" by simp
    from json_escape_prefix_free [OF this] Cons.IH [of ds] show ?thesis by (simp add: Cons)
  qed
qed

lemma json_quote_prefix_free: "json_quote a @ x = json_quote b @ y \<Longrightarrow> a = b \<and> x = y"
  using json_body_prefix_free [of a x b y] by (simp add: json_quote_def)

text \<open>Numbers end at the first character that is not a digit.\<close>

lemma show_nat_digits: "\<forall>c \<in> set (show_nat n). is_digit c"
  by (induction n rule: show_nat.induct) (subst show_nat.simps, auto simp: is_digit_def char_code_def)

lemma show_nat_nonempty [simp]: "show_nat n \<noteq> []"
  by (subst show_nat.simps) simp

lemma show_nat_inj: "show_nat m = show_nat n \<Longrightarrow> m = n"
proof (induction m arbitrary: n rule: show_nat.induct)
  case (1 m)
  have one: "length (show_nat k) = 1 \<longleftrightarrow> k < 10" for k
    using show_nat_nonempty [of "k div 10"] by (simp add: show_nat.simps [of k])
  have digit: "a = b" if "char_of (48 + a) = (char_of (48 + b) :: char)" "a < 10" "b < 10" for a b :: nat
    using arg_cong [OF that(1), of "of_char :: char \<Rightarrow> nat"] that(2,3) by (simp add: of_char_of)
  show ?case
  proof (cases "m < 10")
    case True
    with 1(2) one [of m] one [of n] have "n < 10" by simp
    with True 1(2) digit [of m n] show ?thesis by (simp add: show_nat.simps [of m] show_nat.simps [of n])
  next
    case False
    with 1(2) one [of m] one [of n] have "\<not> n < 10" by simp
    with False 1(2) have "show_nat (m div 10) = show_nat (n div 10)"
      "char_of (48 + m mod 10) = (char_of (48 + n mod 10) :: char)"
      by (simp_all add: show_nat.simps [of m] show_nat.simps [of n])
    with 1(1) [OF False] digit [of "m mod 10" "n mod 10"] have "m div 10 = n div 10" "m mod 10 = n mod 10" by auto
    then show ?thesis by (metis div_mult_mod_eq)
  qed
qed

definition delim :: "string \<Rightarrow> bool" where
  "delim x \<longleftrightarrow> x = [] \<or> hd x \<in> {CHR '','', CHR '']'', CHR ''}''}"

lemma delim_simps [simp]: "delim []" "delim (CHR '','' # x)" "delim (CHR '']'' # x)" "delim (CHR ''}'' # x)"
  by (simp_all add: delim_def)

lemma delim_not_digit: "delim x \<Longrightarrow> takeWhile is_digit x = []"
  by (cases x) (auto simp: delim_def is_digit_def char_code_def)

lemma show_nat_delim:
  assumes "show_nat m @ x = show_nat n @ y" "delim x" "delim y"
  shows "m = n \<and> x = y"
proof -
  have tw: "takeWhile is_digit (show_nat k @ z) = show_nat k" if "delim z" for k z
    using show_nat_digits [of k] delim_not_digit [OF that] by (simp add: takeWhile_append)
  have "show_nat m = show_nat n" using assms tw by metis
  then show ?thesis using assms(1) show_nat_inj by simp
qed

lemma show_nat_hd: "hd (show_nat n) \<noteq> CHR ''-''"
proof -
  have "is_digit (hd (show_nat n))" using show_nat_digits [of n] by simp
  moreover have "\<not> is_digit (CHR ''-'')" by code_simp
  ultimately show ?thesis by metis
qed

lemma show_int_Cons: "\<exists>c cs. show_int i = c # cs \<and> (c = CHR ''-'' \<or> is_digit c)"
proof (cases "i < 0")
  case False
  obtain c cs where c: "show_nat (nat i) = c # cs" using show_nat_nonempty by (cases "show_nat (nat i)") auto
  with show_nat_digits [of "nat i"] False show ?thesis by (simp add: show_int_def)
qed (simp add: show_int_def)

lemma show_int_delim:
  assumes "show_int i @ x = show_int j @ y" "delim x" "delim y"
  shows "i = j \<and> x = y"
proof -
  have hd: "show_nat n @ z \<noteq> CHR ''-'' # u" for n z u
    using show_nat_hd [of n] by (cases "show_nat n") auto
  consider "i < 0" "j < 0" | "0 \<le> i" "0 \<le> j" | "i < 0 \<longleftrightarrow> \<not> j < 0" by linarith
  then show ?thesis
  proof cases
    case 1
    with assms show_nat_delim [of "nat (- i)" x "nat (- j)" y] show ?thesis by (auto simp: show_int_def)
  next
    case 2
    with assms show_nat_delim [of "nat i" x "nat j" y] show ?thesis by (auto simp: show_int_def)
  next
    case 3
    with assms(1) hd [of "nat i" x] hd [of "nat j" y, THEN not_sym] show ?thesis
      by (auto simp: show_int_def split: if_split_asm)
  qed
qed

text \<open>The text of a value ends where a delimiter follows; lists and objects by induction on their
  elements.\<close>

definition decodable :: "jval \<Rightarrow> bool" where
  "decodable v \<longleftrightarrow> (\<forall>w x y. no_undef w \<longrightarrow> delim x \<longrightarrow> delim y \<longrightarrow>
     join_elem (json_text v) @ x = join_elem (json_text w) @ y \<longrightarrow> v = w \<and> x = y)"

lemma decodableD:
  "decodable v \<Longrightarrow> no_undef w \<Longrightarrow> delim x \<Longrightarrow> delim y \<Longrightarrow>
     join_elem (json_text v) @ x = join_elem (json_text w) @ y \<Longrightarrow> v = w \<and> x = y"
  by (simp add: decodable_def)

lemma json_text_defined: "no_undef v \<Longrightarrow> \<exists>c cs. json_text v = Some (c # cs) \<and> c \<notin> {CHR '','', CHR '']'', CHR ''}''}"
proof (cases v)
  case (JNum i)
  obtain c cs where c: "show_int i = c # cs" "c = CHR ''-'' \<or> is_digit c" using show_int_Cons by blast
  with JNum show ?thesis by (auto simp: is_digit_def char_code_def)
qed (auto simp: json_quote_def)

lemma join_Cons_eq: "join_with sep (x # xs) = x @ (if xs = [] then [] else sep @ join_with sep xs)"
  by (cases xs) auto

lemma elements_decodable:
  assumes "\<forall>v \<in> set vs. decodable v \<and> no_undef v" "list_all no_undef ws"
    and "join_with '','' (map (\<lambda>v. join_elem (json_text v)) vs) @ CHR '']'' # x =
         join_with '','' (map (\<lambda>v. join_elem (json_text v)) ws) @ CHR '']'' # y"
  shows "vs = ws \<and> x = y"
  using assms
proof (induction vs arbitrary: ws)
  case Nil
  then show ?case
    using json_text_defined [of "hd ws"] by (cases ws) (auto simp: join_Cons_eq join_elem_def)
next
  case (Cons v vs)
  show ?case
  proof (cases ws)
    case Nil
    with Cons.prems json_text_defined [of v] show ?thesis by (auto simp: join_Cons_eq join_elem_def)
  next
    case ws: (Cons w ws')
    let ?rest = "\<lambda>us z. (if us = [] then [] else '','' @ join_with '','' (map (\<lambda>v. join_elem (json_text v)) us)) @ CHR '']'' # z"
    have eq: "join_elem (json_text v) @ ?rest vs x = join_elem (json_text w) @ ?rest ws' y"
      using Cons.prems(3) ws by (simp add: join_Cons_eq)
    have "v = w \<and> ?rest vs x = ?rest ws' y"
      by (rule decodableD [OF _ _ _ _ eq]) (use Cons.prems ws in auto)
    with Cons.IH [of ws'] Cons.prems ws show ?thesis by (auto split: if_split_asm)
  qed
qed

lemma entries_decodable:
  assumes "\<forall>(k, v) \<in> set vs. decodable v \<and> no_undef v" "list_all (\<lambda>(k, v). no_undef v) ws"
    and "join_with '','' (map (\<lambda>(k, v). json_quote k @ '':'' @ template (json_text v)) vs) @ CHR ''}'' # x =
         join_with '','' (map (\<lambda>(k, v). json_quote k @ '':'' @ template (json_text v)) ws) @ CHR ''}'' # y"
  shows "vs = ws \<and> x = y"
  using assms
proof (induction vs arbitrary: ws)
  case Nil
  then show ?case by (cases ws) (auto simp: join_Cons_eq json_quote_def)
next
  case (Cons kv vs)
  obtain k v where kv: "kv = (k, v)" by (cases kv)
  show ?case
  proof (cases ws)
    case Nil
    with Cons.prems kv show ?thesis by (auto simp: join_Cons_eq json_quote_def)
  next
    case ws: (Cons lw ws')
    obtain l w where lw: "lw = (l, w)" by (cases lw)
    let ?rest = "\<lambda>us z. (if us = [] then [] else '','' @ join_with '',''
      (map (\<lambda>(k, v). json_quote k @ '':'' @ template (json_text v)) us)) @ CHR ''}'' # z"
    have und: "no_undef v" "no_undef w" using Cons.prems kv ws lw by auto
    then have el: "template (json_text v) = join_elem (json_text v)" "template (json_text w) = join_elem (json_text w)"
      using json_text_defined by (fastforce simp: template_def join_elem_def)+
    have "json_quote k @ '':'' @ template (json_text v) @ ?rest vs x =
          json_quote l @ '':'' @ template (json_text w) @ ?rest ws' y"
      using Cons.prems(3) ws kv lw by (cases "vs = []"; cases "ws' = []") (simp_all add: join_Cons_eq)
    from json_quote_prefix_free [OF this] have "k = l"
      and eq: "join_elem (json_text v) @ ?rest vs x = join_elem (json_text w) @ ?rest ws' y"
      by (simp_all add: el)
    have "v = w \<and> ?rest vs x = ?rest ws' y"
      by (rule decodableD [OF _ _ _ _ eq]) (use Cons.prems kv und in auto)
    with \<open>k = l\<close> Cons.IH [of ws'] Cons.prems ws kv lw show ?thesis by (auto split: if_split_asm)
  qed
qed

lemma show_int_hd:
  assumes "c \<in> {CHR ''n'', CHR ''t'', CHR ''f'', CHR 34, CHR ''['', CHR ''{''}"
  shows "show_int i @ x \<noteq> c # y" "c # y \<noteq> show_int i @ x"
proof -
  obtain d ds where d: "show_int i = d # ds" "d = CHR ''-'' \<or> is_digit d" using show_int_Cons by blast
  moreover have "\<not> is_digit c" "c \<noteq> CHR ''-''" using assms by (auto simp: is_digit_def char_code_def)
  ultimately show "show_int i @ x \<noteq> c # y" "c # y \<noteq> show_int i @ x" using d by auto
qed

lemma json_text_decodable: "no_undef v \<Longrightarrow> decodable v"
proof (induction v)
  case JNull
  show ?case unfolding decodable_def
  proof (intro allI impI)
    fix w x y assume "no_undef w" "join_elem (json_text JNull) @ x = join_elem (json_text w) @ y"
    then show "JNull = w \<and> x = y"
      by (cases w) (auto simp: join_elem_def json_quote_def show_int_hd split: if_split_asm)
  qed
next
  case (JBool b)
  show ?case unfolding decodable_def
  proof (intro allI impI)
    fix w x y assume "no_undef w" "join_elem (json_text (JBool b)) @ x = join_elem (json_text w) @ y"
    then show "JBool b = w \<and> x = y"
      by (cases w) (auto simp: join_elem_def json_quote_def show_int_hd split: if_split_asm)
  qed
next
  case (JNum i)
  show ?case unfolding decodable_def
  proof (intro allI impI)
    fix w x y assume "no_undef w" "delim x" "delim y" "join_elem (json_text (JNum i)) @ x = join_elem (json_text w) @ y"
    then show "JNum i = w \<and> x = y"
      using show_int_delim [of i x _ y]
      by (cases w) (auto simp: join_elem_def json_quote_def show_int_hd split: if_split_asm)
  qed
next
  case (JStr t)
  show ?case unfolding decodable_def
  proof (intro allI impI)
    fix w x y assume w: "no_undef w" "join_elem (json_text (JStr t)) @ x = join_elem (json_text w) @ y"
    show "JStr t = w \<and> x = y"
    proof (cases w)
      case (JStr u)
      with w json_quote_prefix_free [of t x u y] show ?thesis by (simp add: join_elem_def)
    qed (use w in \<open>auto simp: join_elem_def json_quote_def show_int_hd split: if_split_asm\<close>)
  qed
next
  case (JArr vs)
  show ?case unfolding decodable_def
  proof (intro allI impI)
    fix w x y assume w: "no_undef w" "join_elem (json_text (JArr vs)) @ x = join_elem (json_text w) @ y"
    show "JArr vs = w \<and> x = y"
    proof (cases w)
      case (JArr ws)
      with w JArr.IH JArr.prems elements_decodable [of vs ws x y] show ?thesis
        by (auto simp: join_elem_def list_all_iff)
    qed (use w in \<open>auto simp: join_elem_def json_quote_def show_int_hd split: if_split_asm\<close>)
  qed
next
  case (JObj vs)
  show ?case unfolding decodable_def
  proof (intro allI impI)
    fix w x y assume w: "no_undef w" "join_elem (json_text (JObj vs)) @ x = join_elem (json_text w) @ y"
    have dec: "\<forall>(k, v) \<in> set vs. decodable v \<and> no_undef v"
      using JObj.IH JObj.prems by (fastforce simp: list_all_iff)
    show "JObj vs = w \<and> x = y"
    proof (cases w)
      case (JObj ws)
      with w dec entries_decodable [of vs ws x y] show ?thesis by (simp add: join_elem_def)
    qed (use w in \<open>auto simp: join_elem_def json_quote_def show_int_hd split: if_split_asm\<close>)
  qed
qed simp

lemma canonical_determines:
  assumes "canonical lc v = canonical lc w" "no_undef v" "no_undef w"
  shows "sort_keys lc v = sort_keys lc w"
  using decodableD [OF json_text_decodable, of "sort_keys lc v" "sort_keys lc w" "[]" "[]"] assms
  by (simp add: canonical_eq no_undef_sort_keys)

text \<open>For objects with plain values (texts, numbers), equal canonical texts mean the same entries.\<close>

lemma sort_keys_flat: "\<forall>(k, v) \<in> set us. sort_keys lc v = v \<Longrightarrow> map (\<lambda>(k, v). (k, sort_keys lc v)) us = us"
  by (induction us) auto

lemma canonical_flat_object:
  assumes "canonical lc (JObj kvs) = canonical lc (JObj kws)" "no_undef (JObj kvs)" "no_undef (JObj kws)"
    and "\<forall>(k, v) \<in> set kvs. sort_keys lc v = v" "\<forall>(k, v) \<in> set kws. sort_keys lc v = v"
  shows "set kvs = set kws"
proof -
  have "sort_by (entry_le lc) kvs = sort_by (entry_le lc) kws"
    using canonical_determines [OF assms(1-3)] sort_keys_flat [OF assms(4)] sort_keys_flat [OF assms(5)] by simp
  from arg_cong [OF this, of set] show ?thesis by simp
qed


section \<open>JSON.stringify, String and truthiness\<close>

text \<open>\<^verbatim>\<open>JSON.stringify(v)\<close>: undefined entries of objects are left out, undefined elements of arrays are
  written as \<^verbatim>\<open>null\<close>.\<close>

fun stringify :: "jval \<Rightarrow> string option" where
  "stringify (JArr vs) =
     Some (''['' @ join_with '','' (map (\<lambda>v. case stringify v of None \<Rightarrow> ''null'' | Some t \<Rightarrow> t) vs) @ '']'')"
| "stringify (JObj kvs) =
     Some (''{'' @ join_with '',''
       (concat (map (\<lambda>(k, v). case stringify v of None \<Rightarrow> [] | Some t \<Rightarrow> [json_quote k @ '':'' @ t]) kvs)) @ ''}'')"
| "stringify v = stringify_atom v"

text \<open>\<^verbatim>\<open>String(v)\<close>; \<^verbatim>\<open>join\<close> of an array writes null and undefined elements as nothing.\<close>

fun js_String :: "jval \<Rightarrow> string" where
  "js_String JUndef = ''undefined''"
| "js_String JNull = ''null''"
| "js_String (JBool b) = (if b then ''true'' else ''false'')"
| "js_String (JNum i) = show_int i"
| "js_String (JStr s) = s"
| "js_String (JArr vs) = join_with '','' (map (\<lambda>v. if v = JUndef \<or> v = JNull then [] else js_String v) vs)"
| "js_String (JObj kvs) = ''[object Object]''"

text \<open>\<^verbatim>\<open>JSON.parse(JSON.stringify(v))\<close> of an object or array.\<close>

fun json_copy :: "jval \<Rightarrow> jval" where
  "json_copy (JArr vs) = JArr (map (\<lambda>v. if v = JUndef then JNull else json_copy v) vs)"
| "json_copy (JObj kvs) = JObj (map (\<lambda>(k, v). (k, json_copy v)) (filter (\<lambda>(k, v). v \<noteq> JUndef) kvs))"
| "json_copy v = v"

text \<open>\<^verbatim>\<open>v ?? d\<close>\<close>

definition js_or_else :: "jval \<Rightarrow> jval \<Rightarrow> jval" where
  "js_or_else v d = (if v = JUndef \<or> v = JNull then d else v)"

text \<open>The named field of a value; a value that is not an object has none of the fields the code asks for.\<close>

definition jprop :: "jval \<Rightarrow> string \<Rightarrow> jval" where
  "jprop v k = (case v of JObj kvs \<Rightarrow> jget kvs k | _ \<Rightarrow> JUndef)"

definition jitems :: "jval \<Rightarrow> jval list" where
  "jitems v = (case v of JArr vs \<Rightarrow> vs | _ \<Rightarrow> [])"

definition jentries :: "jval \<Rightarrow> jobject" where
  "jentries v = (case v of JObj kvs \<Rightarrow> kvs | _ \<Rightarrow> [])"

definition json_bytes :: "jval \<Rightarrow> nat" where
  "json_bytes v = byte_length (template (stringify v))"

text \<open>The entry of a field that is present only when it has a value (\<^verbatim>\<open>...(x ? {k: x} : {})\<close>).\<close>

definition opt_entry :: "string \<Rightarrow> string option \<Rightarrow> jobject" where
  "opt_entry k x = (case x of None \<Rightarrow> [] | Some t \<Rightarrow> [(k, JStr t)])"

lemma stringify_no_undef: "no_undef v \<Longrightarrow> stringify v = json_text v"
proof (induction v rule: no_undef.induct)
  case (2 vs)
  have "map (\<lambda>v. case stringify v of None \<Rightarrow> ''null'' | Some t \<Rightarrow> t) vs = map (\<lambda>v. join_elem (json_text v)) vs"
  proof (rule map_cong [OF refl])
    fix v assume v: "v \<in> set vs"
    then have "no_undef v" using 2 by (simp add: list_all_iff)
    moreover obtain c cs where "json_text v = Some (c # cs)" using json_text_defined [OF \<open>no_undef v\<close>] by blast
    ultimately show "(case stringify v of None \<Rightarrow> ''null'' | Some t \<Rightarrow> t) = join_elem (json_text v)"
      using 2 v by (simp add: join_elem_def)
  qed
  then show ?case by (simp del: map_eq_conv)
next
  case (3 kvs)
  have "concat (map (\<lambda>(k, v). case stringify v of None \<Rightarrow> [] | Some t \<Rightarrow> [json_quote k @ '':'' @ t]) kvs) =
      concat (map (\<lambda>(k, v). [json_quote k @ '':'' @ template (json_text v)]) kvs)"
  proof (rule arg_cong [where f = concat], rule map_cong [OF refl])
    fix x assume x: "x \<in> set kvs"
    obtain k v where kv: "x = (k, v)" by (cases x)
    then have nu: "no_undef v" using 3(2) x by (auto simp: list_all_iff)
    then obtain c cs where "json_text v = Some (c # cs)" using json_text_defined [OF nu] by blast
    moreover have "stringify v = json_text v" by (rule 3(1) [OF x kv [symmetric] nu])
    ultimately show "(case x of (k, v) \<Rightarrow> case stringify v of None \<Rightarrow> [] | Some t \<Rightarrow> [json_quote k @ '':'' @ t]) =
        (case x of (k, v) \<Rightarrow> [json_quote k @ '':'' @ template (json_text v)])"
      using kv by (simp add: template_def)
  qed
  also have "\<dots> = map (\<lambda>(k, v). json_quote k @ '':'' @ template (json_text v)) kvs"
    by (induction kvs) auto
  finally show ?case by simp
qed simp_all

text \<open>Lookup in an object written as a list of entries.\<close>

lemma jget_Nil: "jget [] k = JUndef"
  and jget_Cons: "jget ((k', v) # kvs) k = (if k' = k then v else jget kvs k)"
  by (auto simp: jget_def)

lemma jget_opt_entry:
  "jget (opt_entry k' x @ kvs) k = (if k' = k \<and> x \<noteq> None then JStr (the x) else jget kvs k)"
  "jget (opt_entry k' x) k = (if k' = k \<and> x \<noteq> None then JStr (the x) else JUndef)"
  by (auto simp: opt_entry_def jget_Nil jget_Cons split: option.splits)

lemmas jget_simps = jget_Nil jget_Cons jget_opt_entry

end
