(* ===== verification/FF_Risk.thy ===== *)
theory FF_Risk
  imports FF_Prelude
begin

text \<open>
  The shared types of \<^verbatim>\<open>src/core/types.ts\<close> that policy decisions read (risk levels, policy modes,
  principals) and \<^verbatim>\<open>src/policy/risk.ts\<close>: the order of the risk levels and the default risk of
  every built-in tool.  The order is the \<open>linorder\<close> instance of \<open>risk_level\<close>, so the library's
  lemmas on \<open>max\<close> and \<open>\<le>\<close> apply to \<^verbatim>\<open>maxRisk\<close> and to the comparisons of the engine.
\<close>

datatype risk_level = LOW | MEDIUM | HIGH | CRITICAL

datatype policy_mode = Readonly | Safe | Dev | Danger

datatype principal_role = RoleAgent | RoleAdmin | RoleSystem

datatype auth_mode = AuthNone | AuthToken | AuthOauth | AuthStdio

record tool_principal =
  p_id :: string
  p_role :: principal_role
  p_roles :: "string list option"
  p_organizationId :: "string option"
  p_teamIds :: "string list option"
  p_projectId :: "string option"
  p_sessionId :: "string option"
  p_authMode :: "auth_mode option"
  p_scopes :: "string list option"
  p_oauthClientId :: "string option"
  p_capsuleId :: "string option"
  p_taskId :: "string option"
  p_resourceMetadataUrl :: "string option"
  p_readScope :: "string option"
  p_writeScope :: "string option"

definition role_text :: "principal_role \<Rightarrow> string" where
  "role_text r = (case r of RoleAgent \<Rightarrow> ''agent'' | RoleAdmin \<Rightarrow> ''admin'' | RoleSystem \<Rightarrow> ''system'')"

definition mode_text :: "policy_mode \<Rightarrow> string" where
  "mode_text m = (case m of Readonly \<Rightarrow> ''readonly'' | Safe \<Rightarrow> ''safe'' | Dev \<Rightarrow> ''dev'' | Danger \<Rightarrow> ''danger'')"

definition risk_text :: "risk_level \<Rightarrow> string" where
  "risk_text r = (case r of LOW \<Rightarrow> ''LOW'' | MEDIUM \<Rightarrow> ''MEDIUM'' | HIGH \<Rightarrow> ''HIGH'' | CRITICAL \<Rightarrow> ''CRITICAL'')"

text \<open>A principal that carries an identity and a role only.\<close>

definition bare_principal :: "string \<Rightarrow> principal_role \<Rightarrow> tool_principal" where
  "bare_principal i r =
     \<lparr>p_id = i, p_role = r, p_roles = None, p_organizationId = None, p_teamIds = None,
      p_projectId = None, p_sessionId = None, p_authMode = None, p_scopes = None,
      p_oauthClientId = None, p_capsuleId = None, p_taskId = None,
      p_resourceMetadataUrl = None, p_readScope = None, p_writeScope = None\<rparr>"

text \<open>\<^verbatim>\<open>x ? ... : ...\<close> on an optional string: absent and empty are both false.\<close>

definition truthy :: "string option \<Rightarrow> string option" where
  "truthy x = (case x of None \<Rightarrow> None | Some s \<Rightarrow> if s = [] then None else Some s)"

lemma truthy_Some_iff: "truthy x = Some s \<longleftrightarrow> x = Some s \<and> s \<noteq> []"
  by (auto simp: truthy_def split: option.splits)

section \<open>The order of the risk levels\<close>

fun RISK_ORDER :: "risk_level \<Rightarrow> nat" where
  "RISK_ORDER LOW = 0"
| "RISK_ORDER MEDIUM = 1"
| "RISK_ORDER HIGH = 2"
| "RISK_ORDER CRITICAL = 3"

definition maxRisk :: "risk_level \<Rightarrow> risk_level \<Rightarrow> risk_level" where
  "maxRisk a b = (if RISK_ORDER a \<ge> RISK_ORDER b then a else b)"

lemma RISK_ORDER_inj: "RISK_ORDER a = RISK_ORDER b \<Longrightarrow> a = b"
  by (cases a; cases b) auto

instantiation risk_level :: linorder
begin

definition less_eq_risk_level :: "risk_level \<Rightarrow> risk_level \<Rightarrow> bool" where
  "less_eq_risk_level a b \<longleftrightarrow> RISK_ORDER a \<le> RISK_ORDER b"

definition less_risk_level :: "risk_level \<Rightarrow> risk_level \<Rightarrow> bool" where
  "less_risk_level a b \<longleftrightarrow> RISK_ORDER a < RISK_ORDER b"

instance
  by standard (auto simp: less_eq_risk_level_def less_risk_level_def intro: RISK_ORDER_inj)

end

lemma RISK_ORDER_le_iff: "RISK_ORDER a \<le> RISK_ORDER b \<longleftrightarrow> a \<le> b"
  by (simp add: less_eq_risk_level_def)

lemma maxRisk_eq_max: "maxRisk a b = max a b"
  using RISK_ORDER_inj [of a b]
  by (auto simp: maxRisk_def max_def less_eq_risk_level_def)

lemma risk_high_cases: "HIGH \<le> r \<longleftrightarrow> r = HIGH \<or> r = CRITICAL"
  by (cases r) (auto simp: less_eq_risk_level_def)

section \<open>Default risk per tool\<close>

definition TOOL_RISK_core :: "(string \<times> risk_level) list" where
  "TOOL_RISK_core = [
    (''file_read'', LOW), (''file_read_many'', LOW), (''search_files'', LOW),
    (''search_text'', LOW), (''search_ast'', LOW), (''git_status'', LOW), (''git_diff'', LOW),
    (''git_log'', LOW), (''git_show'', LOW), (''git_blame'', LOW), (''git_branch'', LOW),
    (''git_fetch'', MEDIUM), (''git_stash'', MEDIUM), (''list_directory'', LOW),
    (''run_test'', LOW), (''run_lint'', LOW), (''run_typecheck'', LOW), (''run_coverage'', LOW),
    (''pkg_list'', LOW), (''pkg_outdated'', LOW), (''pkg_audit'', LOW), (''format_check'', LOW),
    (''project_detect_commands'', LOW), (''project_analyze'', LOW), (''code_context'', LOW),
    (''change_summary'', LOW), (''workspace_status'', LOW), (''workspace_list'', LOW),
    (''workspace_health'', LOW), (''workspace_route'', LOW), (''policy_get'', LOW),
    (''policy_explain'', LOW), (''policy_ratelimits'', LOW), (''audit_recent'', LOW),
    (''memory_list'', LOW), (''memory_read'', LOW), (''code_symbols_overview'', LOW),
    (''code_find_symbol'', LOW), (''code_find_references'', LOW), (''code_find_definition'', LOW),
    (''code_find_implementations'', LOW), (''code_diagnostics'', LOW), (''browser_snapshot'', LOW),
    (''browser_console'', LOW), (''browser_network'', LOW), (''browser_accessibility_audit'', LOW),
    (''browser_emulation_status'', LOW), (''browser_emulate'', MEDIUM),
    (''browser_flow_run'', MEDIUM), (''browser_visual_compare'', MEDIUM),
    (''db_list_connections'', LOW), (''db_list_tables'', LOW), (''db_describe_table'', LOW),
    (''db_query_readonly'', LOW), (''db_explain'', LOW), (''secret_scan'', LOW),
    (''approval_status'', LOW), (''approval_approve'', LOW), (''approval_deny'', LOW),
    (''artifact_list'', LOW), (''artifact_get'', LOW), (''artifact_put'', MEDIUM),
    (''artifact_compare'', MEDIUM), (''artifact_delete'', HIGH), (''marketplace_list'', LOW),
    (''marketplace_inspect'', LOW), (''marketplace_scan'', LOW), (''marketplace_sync'', HIGH),
    (''marketplace_quarantine'', HIGH), (''marketplace_install'', HIGH),
    (''marketplace_export'', MEDIUM), (''marketplace_package'', HIGH),
    (''marketplace_publisher_add'', HIGH), (''marketplace_publisher_revoke'', HIGH),
    (''marketplace_publisher_list'', LOW), (''marketplace_moderate'', HIGH),
    (''distributed_status'', LOW), (''distributed_job_submit'', MEDIUM),
    (''distributed_job_status'', LOW), (''distributed_job_list'', LOW),
    (''distributed_job_cancel'', HIGH), (''distributed_job_retry'', HIGH),
    (''distributed_completion_verify'', LOW), (''distributed_recover'', MEDIUM),
    (''distributed_worker_register'', HIGH), (''distributed_worker_rotate'', HIGH),
    (''distributed_worker_revoke'', HIGH), (''distributed_worker_list'', LOW),
    (''distributed_worker_lease'', MEDIUM), (''distributed_worker_ack'', MEDIUM),
    (''distributed_worker_heartbeat'', MEDIUM), (''distributed_worker_complete'', MEDIUM),
    (''distributed_worker_fail'', MEDIUM)]"

definition TOOL_RISK_game_edit :: "(string \<times> risk_level) list" where
  "TOOL_RISK_game_edit = [
    (''game_get_godot_version'', LOW), (''game_get_project_info'', LOW),
    (''game_read_scene'', LOW), (''game_read_project_settings'', LOW),
    (''game_list_project_files'', LOW), (''game_read_file'', LOW), (''game_write_file'', HIGH),
    (''game_create_directory'', MEDIUM), (''game_rename_file'', HIGH),
    (''game_create_scene'', HIGH), (''game_add_node'', HIGH), (''game_remove_node'', HIGH),
    (''game_modify_node'', HIGH), (''game_attach_script'', HIGH), (''game_create_resource'', HIGH),
    (''game_modify_project_settings'', HIGH), (''game_set_main_scene'', HIGH),
    (''game_delete_file'', CRITICAL), (''game_create_script'', CRITICAL),
    (''game_runtime_status'', LOW), (''game_get_scene_tree'', LOW), (''game_get_node_info'', LOW),
    (''game_get_ui'', LOW), (''game_get_performance'', LOW), (''game_get_nodes_in_group'', LOW),
    (''game_find_nodes_by_class'', LOW), (''game_get_errors'', LOW), (''game_get_logs'', LOW),
    (''game_pause'', MEDIUM), (''game_wait'', MEDIUM), (''game_eval'', CRITICAL),
    (''game_get_property'', LOW), (''game_list_signals'', LOW), (''game_await_signal'', LOW),
    (''game_set_property'', HIGH), (''game_instantiate_scene'', HIGH),
    (''game_runtime_remove_node'', HIGH), (''game_change_scene'', HIGH),
    (''game_reparent_node'', HIGH), (''game_connect_signal'', HIGH),
    (''game_disconnect_signal'', HIGH), (''game_emit_signal'', HIGH),
    (''game_call_method'', CRITICAL), (''game_screenshot'', LOW), (''game_input_state'', LOW),
    (''game_click'', MEDIUM), (''game_key_press'', MEDIUM), (''game_mouse_move'', MEDIUM),
    (''game_key_hold'', MEDIUM), (''game_key_release'', MEDIUM), (''game_scroll'', MEDIUM),
    (''game_mouse_drag'', MEDIUM), (''game_gamepad'', MEDIUM), (''game_touch'', MEDIUM),
    (''game_input_action'', MEDIUM), (''game_play_animation'', MEDIUM),
    (''game_tween_property'', MEDIUM), (''game_animation_tree'', MEDIUM),
    (''game_animation_control'', MEDIUM), (''game_skeleton_ik'', MEDIUM),
    (''game_audio_effect'', MEDIUM), (''game_audio_bus_layout'', MEDIUM),
    (''game_audio_spatial'', MEDIUM), (''game_os_info'', LOW), (''game_time_scale'', MEDIUM),
    (''game_window'', HIGH), (''game_process_mode'', HIGH), (''game_world_settings'', HIGH),
    (''game_script'', CRITICAL), (''game_ui_control'', MEDIUM), (''game_ui_text'', MEDIUM),
    (''game_ui_popup'', MEDIUM), (''game_ui_tree'', MEDIUM), (''game_ui_item_list'', MEDIUM),
    (''game_ui_tabs'', MEDIUM), (''game_ui_menu'', MEDIUM), (''game_ui_range'', MEDIUM)]"

definition TOOL_RISK_game_runtime :: "(string \<times> risk_level) list" where
  "TOOL_RISK_game_runtime = [
    (''game_get_camera'', LOW), (''game_raycast'', LOW), (''game_get_audio'', LOW),
    (''game_navigate_path'', LOW), (''game_serialize_state'', LOW), (''game_audio_play'', MEDIUM),
    (''game_audio_bus'', MEDIUM), (''game_create_timer'', MEDIUM), (''game_debug_draw'', MEDIUM),
    (''game_set_camera'', HIGH), (''game_spawn_node'', HIGH), (''game_set_shader_param'', HIGH),
    (''game_tilemap'', HIGH), (''game_add_collision'', HIGH), (''game_environment'', HIGH),
    (''game_manage_group'', HIGH), (''game_set_particles'', HIGH),
    (''game_create_animation'', HIGH), (''game_physics_body'', HIGH),
    (''game_create_joint'', HIGH), (''game_bone_pose'', HIGH), (''game_ui_theme'', HIGH),
    (''game_viewport'', HIGH), (''game_http_request'', CRITICAL), (''game_websocket'', CRITICAL),
    (''game_multiplayer'', CRITICAL), (''game_rpc'', CRITICAL), (''game_csg'', HIGH),
    (''game_multimesh'', HIGH), (''game_procedural_mesh'', HIGH), (''game_light_3d'', HIGH),
    (''game_mesh_instance'', HIGH), (''game_gridmap'', HIGH), (''game_3d_effects'', HIGH),
    (''game_gi'', HIGH), (''game_path_3d'', HIGH), (''game_sky'', HIGH),
    (''game_camera_attributes'', HIGH), (''game_navigation_3d'', HIGH),
    (''game_physics_3d'', HIGH), (''game_canvas'', HIGH), (''game_canvas_draw'', HIGH),
    (''game_light_2d'', HIGH), (''game_parallax'', HIGH), (''game_shape_2d'', HIGH),
    (''game_path_2d'', HIGH), (''game_physics_2d'', HIGH), (''game_render_settings'', HIGH),
    (''game_resource'', HIGH), (''game_list_projects'', LOW), (''game_run_project'', MEDIUM),
    (''game_launch_editor'', MEDIUM), (''game_stop_project'', MEDIUM),
    (''game_get_debug_output'', LOW), (''game_export_project'', MEDIUM),
    (''game_save_scene'', HIGH), (''game_get_uid'', LOW), (''game_update_project_uids'', HIGH),
    (''game_create_project'', CRITICAL), (''game_manage_autoloads'', HIGH),
    (''game_manage_input_map'', HIGH), (''game_manage_export_presets'', HIGH),
    (''game_manage_layers'', HIGH), (''game_manage_plugins'', HIGH),
    (''game_manage_translations'', HIGH), (''game_load_sprite'', HIGH),
    (''game_export_mesh_library'', HIGH), (''game_manage_scene_signals'', HIGH),
    (''game_manage_shader'', CRITICAL), (''game_manage_theme_resource'', HIGH),
    (''game_manage_resource'', HIGH), (''game_locale'', MEDIUM)]"

definition TOOL_RISK_rest :: "(string \<times> risk_level) list" where
  "TOOL_RISK_rest = [
    (''file_write'', MEDIUM), (''file_patch'', MEDIUM), (''file_edit_block'', MEDIUM),
    (''file_move'', MEDIUM), (''file_copy'', MEDIUM), (''git_pull'', HIGH),
    (''workspace_activate'', MEDIUM), (''workspace_switch'', MEDIUM),
    (''workspace_deactivate'', MEDIUM), (''workspace_onboard'', MEDIUM), (''git_add'', MEDIUM),
    (''git_checkout'', MEDIUM), (''run_build'', MEDIUM), (''patch_transaction'', MEDIUM),
    (''project_verify'', MEDIUM), (''plugin_list'', LOW), (''plugin_inspect'', LOW),
    (''plugin_install'', HIGH), (''plugin_update'', HIGH), (''plugin_enable'', MEDIUM),
    (''plugin_disable'', MEDIUM), (''plugin_uninstall'', HIGH), (''plugin_health'', MEDIUM),
    (''workflow_create'', MEDIUM), (''workflow_run'', MEDIUM), (''workflow_resume'', MEDIUM),
    (''workflow_status'', LOW), (''workflow_list'', LOW), (''workflow_cancel'', MEDIUM),
    (''workflow_report'', LOW), (''pkg_run'', MEDIUM), (''format_apply'', MEDIUM),
    (''process_start'', MEDIUM), (''process_read'', LOW), (''process_tail'', LOW),
    (''process_write'', MEDIUM), (''process_stop'', MEDIUM), (''process_list'', LOW),
    (''memory_write'', MEDIUM), (''memory_update'', MEDIUM),
    (''code_replace_symbol_body'', MEDIUM), (''code_insert_before_symbol'', MEDIUM),
    (''code_insert_after_symbol'', MEDIUM), (''code_rename_symbol'', MEDIUM),
    (''browser_open'', MEDIUM), (''browser_click'', MEDIUM), (''browser_type'', MEDIUM),
    (''browser_screenshot'', MEDIUM), (''browser_set_viewport'', MEDIUM),
    (''browser_close'', MEDIUM), (''policy_set_mode'', MEDIUM), (''db_connect'', MEDIUM),
    (''shell_exec'', MEDIUM), (''file_delete'', HIGH), (''git_commit'', HIGH),
    (''process_kill'', HIGH), (''db_run_migration'', HIGH), (''db_write'', HIGH),
    (''pkg_add'', HIGH), (''pkg_remove'', HIGH), (''git_push'', CRITICAL),
    (''git_reset'', CRITICAL), (''browser_eval'', HIGH)]"

definition TOOL_RISK :: "string \<Rightarrow> risk_level option" where
  "TOOL_RISK name =
     map_of (TOOL_RISK_core @ TOOL_RISK_game_edit @ TOOL_RISK_game_runtime @ TOOL_RISK_rest) name"

end
