(* ===== verification/FF_PolicyCode.thy ===== *)
theory FF_PolicyCode
  imports FF_Paths FF_Json FF_Risk
begin

text \<open>
  \<^verbatim>\<open>src/policy/policy-as-code.ts\<close>: rule files are parsed into rules that can deny a call or ask for
  approval, never allow one, and a call is judged by the first deny among the matching rules, else by
  the first match.  The YAML parser and the file system are parameters (\<open>policy_files\<close>).
\<close>

datatype rule_effect = EffDeny | EffApproval

record principal_selector =
  sel_ids :: "string list option"
  sel_roles :: "string list option"
  sel_organizationIds :: "string list option"
  sel_teamIds :: "string list option"
  sel_projectIds :: "string list option"
  sel_sessionIds :: "string list option"

record loaded_rule =
  rule_id :: string
  rule_effect :: rule_effect
  rule_tools :: "string list"
  rule_risks :: "risk_level list option"
  rule_mutates :: "bool option"
  rule_modes :: "policy_mode list option"
  rule_principals :: "principal_selector option"
  rule_reason :: string
  rule_source :: string

record rule_context =
  ctx_tool :: string
  ctx_risk :: risk_level
  ctx_mutates :: bool
  ctx_mode :: policy_mode
  ctx_principal :: tool_principal

record rule_match =
  rm_effect :: rule_effect
  rm_ruleId :: string
  rm_reason :: string
  rm_source :: string

section \<open>Parsing rule files\<close>

definition DOCUMENT_KEYS :: "string list" where
  "DOCUMENT_KEYS = [''version'', ''name'', ''rules'']"

definition RULE_KEYS :: "string list" where
  "RULE_KEYS = [''id'', ''effect'', ''tools'', ''risks'', ''mutates'', ''modes'', ''principals'', ''reason'']"

definition PRINCIPAL_KEYS :: "string list" where
  "PRINCIPAL_KEYS = [''ids'', ''roles'', ''organizationIds'', ''teamIds'', ''projectIds'', ''sessionIds'']"

definition risk_of_text :: "string \<Rightarrow> risk_level option" where
  "risk_of_text s = find (\<lambda>r. risk_text r = s) [LOW, MEDIUM, HIGH, CRITICAL]"

definition mode_of_text :: "string \<Rightarrow> policy_mode option" where
  "mode_of_text s = find (\<lambda>m. mode_text m = s) [Readonly, Safe, Dev, Danger]"

definition object_of :: "jval \<Rightarrow> string \<Rightarrow> jobject result" where
  "object_of v label =
     (case v of JObj kvs \<Rightarrow> Inr kvs | _ \<Rightarrow> Inl (PlainError (label @ '' must be an object.'')))"

definition rejectUnknownKeys :: "jobject \<Rightarrow> string list \<Rightarrow> string \<Rightarrow> unit result" where
  "rejectUnknownKeys v allowed label =
     (let unknown = filter (\<lambda>k. k \<notin> set allowed) (map fst v)
      in guardR (unknown = [])
           (PlainError (label @ '' contains unknown key(s): '' @ join_with '', '' unknown @ ''.'')))"

definition nonEmptyString :: "jval \<Rightarrow> string \<Rightarrow> string result" where
  "nonEmptyString v label =
     (case v of
        JStr s \<Rightarrow> if js_trim s = [] then Inl (PlainError (label @ '' must be a non-empty string.''))
                  else Inr (js_trim s)
      | _ \<Rightarrow> Inl (PlainError (label @ '' must be a non-empty string.'')))"

fun mapR_index :: "(nat \<Rightarrow> 'a \<Rightarrow> 'e + 'b) \<Rightarrow> nat \<Rightarrow> 'a list \<Rightarrow> 'e + 'b list" where
  "mapR_index f i [] = Inr []"
| "mapR_index f i (x # xs) = bindR (f i x) (\<lambda>y. bindR (mapR_index f (Suc i) xs) (\<lambda>ys. Inr (y # ys)))"

definition index_label :: "string \<Rightarrow> nat \<Rightarrow> string" where
  "index_label label i = label @ ''['' @ show_nat i @ '']''"

definition stringArray :: "jval \<Rightarrow> string \<Rightarrow> bool \<Rightarrow> string list option result" where
  "stringArray v label required =
     (if v = JUndef \<and> \<not> required then Inr None
      else (case v of
              JArr vs \<Rightarrow>
                if vs = [] then Inl (PlainError (label @ '' must be a non-empty string array.''))
                else bindR (mapR_index (\<lambda>i x. nonEmptyString x (index_label label i)) 0 vs)
                       (\<lambda>ss. Inr (Some (uniq ss)))
            | _ \<Rightarrow> Inl (PlainError (label @ '' must be a non-empty string array.''))))"

text \<open>\<open>enum\<close> is the table of the allowed texts.\<close>

definition enumArray :: "jval \<Rightarrow> string \<Rightarrow> (string \<Rightarrow> 'a option) \<Rightarrow> 'a list option result" where
  "enumArray v label enum =
     bindR (stringArray v label False) (\<lambda>vs.
       (case vs of
          None \<Rightarrow> Inr None
        | Some ss \<Rightarrow>
            (let invalid = filter (\<lambda>s. enum s = None) ss
             in if invalid \<noteq> [] then
                  Inl (PlainError (label @ '' contains invalid value(s): '' @ join_with '', '' invalid @ ''.''))
                else Inr (Some (List.map_filter enum ss)))))"

definition parsePrincipalSelector :: "jval \<Rightarrow> string \<Rightarrow> principal_selector option result" where
  "parsePrincipalSelector v label =
     (if v = JUndef then Inr None
      else
        bindR (object_of v label) (\<lambda>raw.
        bindR (rejectUnknownKeys raw PRINCIPAL_KEYS label) (\<lambda>_.
        bindR (stringArray (jget raw ''ids'') (label @ ''.ids'') False) (\<lambda>ids.
        bindR (stringArray (jget raw ''roles'') (label @ ''.roles'') False) (\<lambda>roles.
        bindR (stringArray (jget raw ''organizationIds'') (label @ ''.organizationIds'') False) (\<lambda>orgs.
        bindR (stringArray (jget raw ''teamIds'') (label @ ''.teamIds'') False) (\<lambda>teams.
        bindR (stringArray (jget raw ''projectIds'') (label @ ''.projectIds'') False) (\<lambda>projects.
        bindR (stringArray (jget raw ''sessionIds'') (label @ ''.sessionIds'') False) (\<lambda>sessions.
          if ids = None \<and> roles = None \<and> orgs = None \<and> teams = None \<and> projects = None \<and> sessions = None
          then Inl (PlainError (label @ '' must contain at least one selector.''))
          else Inr (Some \<lparr>sel_ids = ids, sel_roles = roles, sel_organizationIds = orgs,
                          sel_teamIds = teams, sel_projectIds = projects, sel_sessionIds = sessions\<rparr>))))))))))"

text \<open>\<^verbatim>\<open>xs ?? []\<close>.\<close>

definition or_empty :: "'a list option \<Rightarrow> 'a list" where
  "or_empty x = (case x of None \<Rightarrow> [] | Some xs \<Rightarrow> xs)"

definition effect_of_text :: "string \<Rightarrow> rule_effect option" where
  "effect_of_text s = (if s = ''deny'' then Some EffDeny else if s = ''approval'' then Some EffApproval else None)"

definition mutates_field :: "jval \<Rightarrow> string \<Rightarrow> bool option result" where
  "mutates_field v label =
     (case v of
        JUndef \<Rightarrow> Inr None
      | JBool b \<Rightarrow> Inr (Some b)
      | _ \<Rightarrow> Inl (PlainError (label @ ''.mutates must be boolean when provided.'')))"

definition rule_label :: "string \<Rightarrow> nat \<Rightarrow> string" where
  "rule_label source i = source @ '': rules['' @ show_nat i @ '']''"

definition parseRule :: "jval \<Rightarrow> string \<Rightarrow> nat \<Rightarrow> loaded_rule result" where
  "parseRule v source i =
     (let label = rule_label source i in
        bindR (object_of v label) (\<lambda>raw.
        bindR (rejectUnknownKeys raw RULE_KEYS label) (\<lambda>_.
        bindR (nonEmptyString (jget raw ''effect'') (label @ ''.effect'')) (\<lambda>effect.
        (case effect_of_text effect of
           None \<Rightarrow> Inl (PlainError (label @ ''.effect must be deny or approval; allow rules are intentionally unsupported.''))
         | Some eff \<Rightarrow>
        bindR (mutates_field (jget raw ''mutates'') label) (\<lambda>mutates.
        bindR (enumArray (jget raw ''risks'') (label @ ''.risks'') risk_of_text) (\<lambda>risks.
        bindR (enumArray (jget raw ''modes'') (label @ ''.modes'') mode_of_text) (\<lambda>modes.
        bindR (parsePrincipalSelector (jget raw ''principals'') (label @ ''.principals'')) (\<lambda>principals.
        bindR (nonEmptyString (jget raw ''id'') (label @ ''.id'')) (\<lambda>i'.
        bindR (stringArray (jget raw ''tools'') (label @ ''.tools'') True) (\<lambda>tools.
        bindR (nonEmptyString (jget raw ''reason'') (label @ ''.reason'')) (\<lambda>reason.
          Inr \<lparr>rule_id = i', rule_effect = eff, rule_tools = or_empty tools,
               rule_risks = risks, rule_mutates = mutates, rule_modes = modes,
               rule_principals = principals, rule_reason = reason, rule_source = source\<rparr>))))))))))))"

text \<open>The document of one file, after the YAML parser (\<open>Inl msg\<close> when reading or parsing
  failed).\<close>

definition parseDocument :: "(string \<Rightarrow> string + jval) \<Rightarrow> string \<Rightarrow> loaded_rule list result" where
  "parseDocument yaml path =
     (case yaml path of
        Inl msg \<Rightarrow> Inl (PlainError (''Failed to parse policy file '' @ path @ '': '' @ msg))
      | Inr parsed \<Rightarrow>
          bindR (object_of parsed path) (\<lambda>raw.
          bindR (rejectUnknownKeys raw DOCUMENT_KEYS path) (\<lambda>_.
          bindR (guardR (jget raw ''version'' = JNum 1) (PlainError (path @ '': version must be 1.''))) (\<lambda>_.
          bindR (if jget raw ''name'' \<noteq> JUndef then nonEmptyString (jget raw ''name'') (path @ ''.name'')
                 else Inr []) (\<lambda>_.
          (case jget raw ''rules'' of
             JArr rules \<Rightarrow>
               if rules = [] then Inl (PlainError (path @ '': rules must be a non-empty array.''))
               else mapR_index (\<lambda>i rule. parseRule rule path i) 0 rules
           | _ \<Rightarrow> Inl (PlainError (path @ '': rules must be a non-empty array.''))))))))"

section \<open>Collecting rule files\<close>

datatype file_kind = KFile | KDirectory | KSymlink | KOther

record policy_files = file_system +
  pf_kind :: "string \<Rightarrow> file_kind"
  pf_readdir :: "string \<Rightarrow> string list"
  pf_yaml :: "string \<Rightarrow> string + jval"

definition yaml_name :: regex where
  "yaml_name = ignore_case (RSeqs [RIn ''.'', RIn ''y'', ROpt (RIn ''a''), RIn ''m'', RIn ''l'', REol])"

definition withinProject :: "string \<Rightarrow> string \<Rightarrow> string \<Rightarrow> bool" where
  "withinProject cwd projectRoot candidate =
     (let rel = relative cwd projectRoot candidate
      in rel = [] \<or> (\<not> starts_with ''..'' rel \<and> \<not> isAbsolute rel))"

definition assertCanonicalBoundary :: "policy_files \<Rightarrow> string \<Rightarrow> string \<Rightarrow> unit result" where
  "assertCanonicalBoundary pf canonicalRoot path =
     bindR (fs_realpath pf path) (\<lambda>canon.
       guardR (withinProject (fs_cwd pf) canonicalRoot canon)
         (PlainError (''Policy path resolves outside the project root: '' @ path)))"

text \<open>\<open>files\<close> is the insertion-ordered set of the files found so far.\<close>

definition add_file :: "string list \<Rightarrow> string \<Rightarrow> string list" where
  "add_file files f = (if f \<in> set files then files else files @ [f])"

fun collect_dir :: "policy_files \<Rightarrow> string \<Rightarrow> string \<Rightarrow> string list \<Rightarrow> string list \<Rightarrow> string list result" where
  "collect_dir pf canonicalRoot dir [] files = Inr files"
| "collect_dir pf canonicalRoot dir (name # names) files =
     (let path = resolve (fs_cwd pf) [dir, name] in
      if \<not> re_test yaml_name name then collect_dir pf canonicalRoot dir names files
      else if pf_kind pf path = KSymlink then
        Inl (PlainError (''Policy file must not be a symbolic link: '' @ path))
      else bindR (assertCanonicalBoundary pf canonicalRoot path) (\<lambda>_.
             collect_dir pf canonicalRoot dir names
               (if pf_kind pf path = KFile then add_file files path else files)))"

definition collect_candidate :: "policy_files \<Rightarrow> string \<Rightarrow> string \<Rightarrow> string \<Rightarrow> string list \<Rightarrow> string list result" where
  "collect_candidate pf projectRoot canonicalRoot candidate files =
     (if \<not> withinProject (fs_cwd pf) projectRoot candidate then
        Inl (PlainError (''Policy path must stay inside the project root: '' @ candidate))
      else if \<not> fs_exists pf candidate then
        (if ends_with ''.yaml'' candidate \<or> ends_with ''.yml'' candidate then
           Inl (PlainError (''Configured policy file does not exist: '' @ candidate))
         else Inr files)
      else if pf_kind pf candidate = KSymlink then
        Inl (PlainError (''Policy path must not be a symbolic link: '' @ candidate))
      else bindR (assertCanonicalBoundary pf canonicalRoot candidate) (\<lambda>_.
        if pf_kind pf candidate = KFile then
          (if re_test yaml_name candidate then Inr (add_file files candidate)
           else Inl (PlainError (''Policy file must use .yaml or .yml: '' @ candidate)))
        else if pf_kind pf candidate = KDirectory then
          collect_dir pf canonicalRoot candidate (sort_by code_unit_le (pf_readdir pf candidate)) files
        else Inl (PlainError (''Policy path must be a file or directory: '' @ candidate))))"

fun collect_all :: "policy_files \<Rightarrow> string \<Rightarrow> string \<Rightarrow> string list \<Rightarrow> string list \<Rightarrow> string list result" where
  "collect_all pf projectRoot canonicalRoot [] files = Inr files"
| "collect_all pf projectRoot canonicalRoot (c # cs) files =
     bindR (collect_candidate pf projectRoot canonicalRoot c files)
       (\<lambda>files'. collect_all pf projectRoot canonicalRoot cs files')"

definition collectFiles :: "policy_files \<Rightarrow> string \<Rightarrow> string list \<Rightarrow> string list result" where
  "collectFiles pf projectRoot configured =
     bindR (fs_realpath pf projectRoot) (\<lambda>canonicalRoot.
       (let candidates = resolve (fs_cwd pf) [projectRoot, ''.folderforge'', ''policies'']
              # map (\<lambda>item. resolve (fs_cwd pf) [projectRoot, item]) configured
        in bindR (collect_all pf projectRoot canonicalRoot candidates [])
             (\<lambda>files. Inr (sort_by code_unit_le files))))"

section \<open>Matching and evaluation\<close>

definition anyPattern :: "string list option \<Rightarrow> string list \<Rightarrow> bool result" where
  "anyPattern patterns vs =
     (case patterns of
        None \<Rightarrow> Inr True
      | Some ps \<Rightarrow> someR (\<lambda>p. someR (picomatchLite p) vs) ps)"

text \<open>The selectors of optional attributes: present in the rule, they need an attribute to match.\<close>

definition selector_ok :: "string list option \<Rightarrow> string list \<Rightarrow> bool result" where
  "selector_ok sel vs =
     (case sel of None \<Rightarrow> Inr True | Some ps \<Rightarrow> if vs = [] then Inr False else anyPattern (Some ps) vs)"

definition opt_list :: "'a option \<Rightarrow> 'a list" where
  "opt_list x = (case x of None \<Rightarrow> [] | Some a \<Rightarrow> [a])"

definition opt_holds :: "'a option \<Rightarrow> ('a \<Rightarrow> bool) \<Rightarrow> bool" where
  "opt_holds x P = (case x of None \<Rightarrow> True | Some v \<Rightarrow> P v)"

definition andR :: "bool result \<Rightarrow> bool result \<Rightarrow> bool result" where
  "andR a b = bindR a (\<lambda>x. if x then b else Inr False)"

definition matches_principals :: "principal_selector \<Rightarrow> tool_principal \<Rightarrow> bool result" where
  "matches_principals sel p =
     andR (anyPattern (sel_ids sel) [p_id p])
    (andR (anyPattern (sel_roles sel)
            (role_text (p_role p) # or_empty (p_roles p)))
    (andR (selector_ok (sel_organizationIds sel) (opt_list (truthy (p_organizationId p))))
    (andR (selector_ok (sel_teamIds sel) (or_empty (p_teamIds p)))
    (andR (selector_ok (sel_projectIds sel) (opt_list (truthy (p_projectId p))))
          (selector_ok (sel_sessionIds sel) (opt_list (truthy (p_sessionId p))))))))"

definition matches :: "loaded_rule \<Rightarrow> rule_context \<Rightarrow> bool result" where
  "matches rule ctx =
     andR (anyPattern (Some (rule_tools rule)) [ctx_tool ctx])
       (if \<not> opt_holds (rule_risks rule) (\<lambda>rs. ctx_risk ctx \<in> set rs)
           \<or> \<not> opt_holds (rule_mutates rule) (\<lambda>m. m = ctx_mutates ctx)
           \<or> \<not> opt_holds (rule_modes rule) (\<lambda>ms. ctx_mode ctx \<in> set ms)
        then Inr False
        else (case rule_principals rule of
                None \<Rightarrow> Inr True
              | Some sel \<Rightarrow> matches_principals sel (ctx_principal ctx)))"

record policy_as_code =
  pac_files :: "string list"
  pac_rules :: "loaded_rule list"

fun check_rule_ids :: "loaded_rule list \<Rightarrow> (string \<rightharpoonup> string) \<Rightarrow> unit result" where
  "check_rule_ids [] ids = Inr ()"
| "check_rule_ids (r # rs) ids =
     (case ids (rule_id r) of
        Some prior \<Rightarrow>
          if prior \<noteq> [] then
            Inl (PlainError (''Duplicate policy rule id '' @ rule_id r @ '' in '' @ prior @ '' and '' @ rule_source r @ ''.''))
          else check_rule_ids rs (ids(rule_id r \<mapsto> rule_source r))
      | None \<Rightarrow> check_rule_ids rs (ids(rule_id r \<mapsto> rule_source r)))"

definition new_PolicyAsCode :: "policy_files \<Rightarrow> string \<Rightarrow> string list \<Rightarrow> policy_as_code result" where
  "new_PolicyAsCode pf projectRoot configured =
     bindR (collectFiles pf (resolve (fs_cwd pf) [projectRoot]) configured) (\<lambda>files.
     bindR (mapR (parseDocument (pf_yaml pf)) files) (\<lambda>docs.
       (let rules = concat docs in
        bindR (check_rule_ids rules Map.empty) (\<lambda>_. Inr \<lparr>pac_files = files, pac_rules = rules\<rparr>))))"

definition match_of :: "loaded_rule \<Rightarrow> rule_match" where
  "match_of r =
     \<lparr>rm_effect = rule_effect r, rm_ruleId = rule_id r,
      rm_reason = rule_reason r @ '' (policy rule '' @ rule_id r @ '')'', rm_source = rule_source r\<rparr>"

definition pac_evaluate :: "loaded_rule list \<Rightarrow> rule_context \<Rightarrow> rule_match option result" where
  "pac_evaluate rules ctx =
     bindR (filterR (\<lambda>r. matches r ctx) rules) (\<lambda>matched.
       Inr (map_option match_of
         (case find (\<lambda>r. rule_effect r = EffDeny) matched of
            Some r \<Rightarrow> Some r
          | None \<Rightarrow> (case matched of [] \<Rightarrow> None | r # _ \<Rightarrow> Some r))))"

definition pac_describe :: "policy_as_code \<Rightarrow> string list \<times> nat \<times> nat \<times> nat" where
  "pac_describe pac =
     (pac_files pac, length (pac_rules pac),
      length (filter (\<lambda>r. rule_effect r = EffDeny) (pac_rules pac)),
      length (filter (\<lambda>r. rule_effect r = EffApproval) (pac_rules pac)))"

section \<open>Rules only restrict\<close>

text \<open>How strict an outcome is: no rule, approval, deny.\<close>

definition effect_rank :: "rule_effect \<Rightarrow> nat" where
  "effect_rank e = (case e of EffApproval \<Rightarrow> 1 | EffDeny \<Rightarrow> 2)"

definition outcome_rank :: "rule_match option \<Rightarrow> nat" where
  "outcome_rank res = (case res of None \<Rightarrow> 0 | Some m \<Rightarrow> effect_rank (rm_effect m))"

definition matching :: "loaded_rule list \<Rightarrow> rule_context \<Rightarrow> loaded_rule set" where
  "matching rules ctx = {r \<in> set rules. matches r ctx = Inr True}"

lemma finite_matching [simp]: "finite (matching rules ctx)"
  by (simp add: matching_def)

lemma pac_evaluate_InrD:
  assumes "pac_evaluate rules ctx = Inr res"
  shows "set (filter (\<lambda>r. matches r ctx = Inr True) rules) = matching rules ctx"
    and "res = map_option match_of
      (case find (\<lambda>r. rule_effect r = EffDeny) (filter (\<lambda>r. matches r ctx = Inr True) rules) of
         Some r \<Rightarrow> Some r
       | None \<Rightarrow> (case filter (\<lambda>r. matches r ctx = Inr True) rules of [] \<Rightarrow> None | r # _ \<Rightarrow> Some r))"
    and "\<forall>r \<in> set rules. \<exists>b. matches r ctx = Inr b"
  using assms filterR_InrD [of "\<lambda>r. matches r ctx" rules] by (auto simp: pac_evaluate_def matching_def)

lemma pac_evaluate_cases:
  assumes ev: "pac_evaluate rules ctx = Inr res"
  obtains (deny) r where "r \<in> matching rules ctx" "rule_effect r = EffDeny" "res = Some (match_of r)"
    | (approval) r where "r \<in> matching rules ctx" "res = Some (match_of r)"
        "\<forall>q \<in> matching rules ctx. rule_effect q = EffApproval"
    | (no_match) "matching rules ctx = {}" "res = None"
proof -
  let ?ms = "filter (\<lambda>r. matches r ctx = Inr True) rules"
  let ?d = "find (\<lambda>r. rule_effect r = EffDeny) ?ms"
  note ms = pac_evaluate_InrD [OF ev]
  show thesis
  proof (cases ?d)
    case (Some r)
    then have "r \<in> matching rules ctx" "rule_effect r = EffDeny"
      using find_SomeD [OF Some] ms(1) by auto
    with Some ms(2) show thesis by (intro deny) auto
  next
    case None
    then have "\<forall>q \<in> set ?ms. rule_effect q \<noteq> EffDeny" by (simp only: find_None_iff_all)
    then have app: "\<forall>q \<in> matching rules ctx. rule_effect q = EffApproval"
      unfolding ms(1) by (metis rule_effect.exhaust)
    show thesis
    proof (cases ?ms)
      case Nil
      with None ms show thesis by (intro no_match) auto
    next
      case (Cons r rs)
      with ms(1) have "r \<in> matching rules ctx" by (metis list.set_intros(1))
      with None Cons ms(2) app show thesis by (intro approval) auto
    qed
  qed
qed

lemma pac_evaluate_total:
  "\<forall>r \<in> set rules. \<exists>b. matches r ctx = Inr b \<Longrightarrow> \<exists>res. pac_evaluate rules ctx = Inr res"
  using filterR_total [of rules "\<lambda>r. matches r ctx"] by (simp add: pac_evaluate_def)

lemma outcome_rank_Max:
  assumes ev: "pac_evaluate rules ctx = Inr res"
  shows "outcome_rank res = Max (insert 0 ((\<lambda>r. effect_rank (rule_effect r)) ` matching rules ctx))"
proof -
  let ?R = "(\<lambda>r. effect_rank (rule_effect r)) ` matching rules ctx"
  have le: "x \<le> 2" if "x \<in> insert 0 ?R" for x
    using that by (auto simp: effect_rank_def split: rule_effect.splits)
  from ev show ?thesis
  proof (cases rule: pac_evaluate_cases)
    case (deny r)
    then have "2 \<in> insert 0 ?R" by (force simp: effect_rank_def)
    then have "Max (insert 0 ?R) = 2" using le by (intro Max_eqI) auto
    with deny show ?thesis by (simp add: outcome_rank_def match_of_def effect_rank_def)
  next
    case (approval r)
    then have "insert 0 ?R = {0, 1}" by (force simp: effect_rank_def)
    with approval show ?thesis by (auto simp: outcome_rank_def match_of_def effect_rank_def)
  next
    case no_match
    then show ?thesis by (simp add: outcome_rank_def)
  qed
qed

section \<open>Printing and parsing rules\<close>

definition trimmed :: "string \<Rightarrow> bool" where
  "trimmed s \<longleftrightarrow> s \<noteq> [] \<and> js_trim s = s"

definition wf_strings :: "string list \<Rightarrow> bool" where
  "wf_strings ss \<longleftrightarrow> ss \<noteq> [] \<and> distinct ss \<and> list_all trimmed ss"

definition wf_selector :: "principal_selector \<Rightarrow> bool" where
  "wf_selector sel \<longleftrightarrow>
     (let fields = [sel_ids sel, sel_roles sel, sel_organizationIds sel, sel_teamIds sel,
                    sel_projectIds sel, sel_sessionIds sel]
      in list_ex (\<lambda>x. x \<noteq> None) fields \<and> list_all (\<lambda>x. opt_holds x wf_strings) fields)"

definition wf_rule :: "loaded_rule \<Rightarrow> bool" where
  "wf_rule r \<longleftrightarrow>
     trimmed (rule_id r) \<and> trimmed (rule_reason r) \<and> wf_strings (rule_tools r) \<and>
     opt_holds (rule_risks r) (\<lambda>rs. rs \<noteq> [] \<and> distinct rs) \<and>
     opt_holds (rule_modes r) (\<lambda>ms. ms \<noteq> [] \<and> distinct ms) \<and>
     opt_holds (rule_principals r) wf_selector"

definition str_array :: "string list \<Rightarrow> jval" where
  "str_array ss = JArr (map JStr ss)"

definition field :: "string \<Rightarrow> ('a \<Rightarrow> jval) \<Rightarrow> 'a option \<Rightarrow> jobject" where
  "field k f x = (case x of None \<Rightarrow> [] | Some v \<Rightarrow> [(k, f v)])"

definition selector_json :: "principal_selector \<Rightarrow> jval" where
  "selector_json sel =
     JObj (field ''ids'' str_array (sel_ids sel) @ field ''roles'' str_array (sel_roles sel)
       @ field ''organizationIds'' str_array (sel_organizationIds sel)
       @ field ''teamIds'' str_array (sel_teamIds sel) @ field ''projectIds'' str_array (sel_projectIds sel)
       @ field ''sessionIds'' str_array (sel_sessionIds sel))"

definition effect_text :: "rule_effect \<Rightarrow> string" where
  "effect_text e = (case e of EffDeny \<Rightarrow> ''deny'' | EffApproval \<Rightarrow> ''approval'')"

text \<open>The document form of a rule.\<close>

definition rule_json :: "loaded_rule \<Rightarrow> jval" where
  "rule_json r =
     JObj ([(''id'', JStr (rule_id r)), (''effect'', JStr (effect_text (rule_effect r))),
            (''tools'', str_array (rule_tools r))]
       @ field ''risks'' (\<lambda>rs. str_array (map risk_text rs)) (rule_risks r)
       @ field ''mutates'' JBool (rule_mutates r)
       @ field ''modes'' (\<lambda>ms. str_array (map mode_text ms)) (rule_modes r)
       @ field ''principals'' selector_json (rule_principals r)
       @ [(''reason'', JStr (rule_reason r))])"

lemma nonEmptyString_InrD: "nonEmptyString v l = Inr s \<Longrightarrow> trimmed s"
  by (auto simp: nonEmptyString_def trimmed_def split: jval.splits if_splits)

lemma nonEmptyString_JStr: "trimmed s \<Longrightarrow> nonEmptyString (JStr s) l = Inr s"
  by (auto simp: nonEmptyString_def trimmed_def)

lemma mapR_index_strings:
  "mapR_index (\<lambda>i x. nonEmptyString x (f i)) n vs = Inr ss \<Longrightarrow> list_all trimmed ss \<and> length ss = length vs"
  by (induction vs arbitrary: n ss) (auto dest: nonEmptyString_InrD)

lemma mapR_index_JStr:
  "list_all trimmed ss \<Longrightarrow> mapR_index (\<lambda>i x. nonEmptyString x (f i)) n (map JStr ss) = Inr ss"
  by (induction ss arbitrary: n) (auto simp: nonEmptyString_JStr)

lemma stringArray_wf:
  assumes "stringArray v l req = Inr x"
  shows "opt_holds x wf_strings" and "req \<Longrightarrow> x \<noteq> None"
  using assms
  by (auto simp: stringArray_def opt_holds_def wf_strings_def list_all_iff
      dest!: mapR_index_strings split: jval.splits if_splits)

lemma stringArray_str_array: "wf_strings ss \<Longrightarrow> stringArray (str_array ss) l req = Inr (Some ss)"
  by (auto simp: stringArray_def str_array_def wf_strings_def mapR_index_JStr uniq_distinct_id)

lemma stringArray_JUndef [simp]: "stringArray JUndef l False = Inr None"
  by (simp add: stringArray_def)

lemma map_filter_enum:
  "filter (\<lambda>s. enum s = None) ss = [] \<Longrightarrow> length (List.map_filter enum ss) = length ss"
  by (induction ss) (auto simp: List.map_filter_simps split: if_splits option.splits)

lemma distinct_map_filter:
  assumes "\<And>s t a. enum s = Some a \<Longrightarrow> enum t = Some a \<Longrightarrow> s = t"
  shows "distinct ss \<Longrightarrow> distinct (List.map_filter enum ss)"
  by (induction ss) (auto simp: List.map_filter_simps List.map_filter_def assms split: option.splits dest: assms)

lemma enumArray_wf:
  assumes "enumArray v l enum = Inr x"
    and inj: "\<And>s t a. enum s = Some a \<Longrightarrow> enum t = Some a \<Longrightarrow> s = t"
  shows "opt_holds x (\<lambda>rs. rs \<noteq> [] \<and> distinct rs)"
proof -
  obtain y where y: "stringArray v l False = Inr y" using assms(1) by (auto simp: enumArray_def)
  show ?thesis
  proof (cases y)
    case None
    with assms(1) y show ?thesis by (simp add: enumArray_def opt_holds_def)
  next
    case (Some ss)
    with stringArray_wf [OF y] have ss: "ss \<noteq> []" "distinct ss"
      by (auto simp: opt_holds_def wf_strings_def)
    with assms(1) y Some have "filter (\<lambda>s. enum s = None) ss = []" "x = Some (List.map_filter enum ss)"
      by (auto simp: enumArray_def Let_def split: if_splits)
    with ss map_filter_enum [of enum ss] distinct_map_filter [of enum ss] inj show ?thesis
      by (auto simp: opt_holds_def)
  qed
qed

lemma risk_of_text_Some_iff: "risk_of_text s = Some r \<longleftrightarrow> s = risk_text r"
  by (cases r) (auto simp: risk_of_text_def risk_text_def)

lemma mode_of_text_Some_iff: "mode_of_text s = Some r \<longleftrightarrow> s = mode_text r"
  by (cases r) (auto simp: mode_of_text_def mode_text_def)

lemma parsePrincipalSelector_wf:
  "parsePrincipalSelector v l = Inr x \<Longrightarrow> opt_holds x wf_selector"
  by (auto simp: parsePrincipalSelector_def wf_selector_def opt_holds_def Let_def
      dest!: stringArray_wf(1) split: if_splits)

lemma parseRule_wf: "parseRule v source i = Inr r \<Longrightarrow> wf_rule r"
proof -
  assume p: "parseRule v source i = Inr r"
  have tools: "wf_strings (or_empty x)"
    if "stringArray w l True = Inr x" for w l x
    using stringArray_wf [OF that] by (cases x) (auto simp: opt_holds_def or_empty_def)
  have risks: "opt_holds x (\<lambda>rs. rs \<noteq> [] \<and> distinct rs)" if "enumArray w l risk_of_text = Inr x" for w l x
    by (rule enumArray_wf [OF that]) (simp add: risk_of_text_Some_iff)
  have modes: "opt_holds x (\<lambda>ms. ms \<noteq> [] \<and> distinct ms)" if "enumArray w l mode_of_text = Inr x" for w l x
    by (rule enumArray_wf [OF that]) (simp add: mode_of_text_Some_iff)
  from p show ?thesis
    unfolding parseRule_def Let_def
    by (auto simp: wf_rule_def tools risks modes parsePrincipalSelector_wf nonEmptyString_InrD
        split: option.split_asm)
qed

lemma enumArray_str_array:
  assumes enum: "\<And>s a. enum s = Some a \<longleftrightarrow> s = tx a"
    and "rs \<noteq> []" "distinct rs" and "\<And>a. trimmed (tx a)"
  shows "enumArray (str_array (map tx rs)) l enum = Inr (Some rs)"
proof -
  have "inj tx" using enum by (metis injI option.inject)
  then have "wf_strings (map tx rs)"
    using assms by (auto simp: wf_strings_def list_all_iff distinct_map intro: inj_on_subset)
  moreover have "enum (tx a) = Some a" for a by (simp add: enum)
  then have "List.map_filter enum (map tx rs) = rs" "filter (\<lambda>s. enum s = None) (map tx rs) = []"
    by (induction rs) (auto simp: List.map_filter_simps)
  ultimately show ?thesis by (simp add: enumArray_def stringArray_str_array)
qed

lemma trimmed_enum_texts: "trimmed (risk_text r)" "trimmed (mode_text m)" "trimmed (effect_text e)"
  by (cases r; cases m; cases e; simp add: trimmed_def risk_text_def mode_text_def effect_text_def
      js_trim_def char_class_defs)+

text \<open>Looking a key up in a printed object.\<close>

lemma map_of_field:
  "map_of (field k f x) k' = (if k' = k then map_option f x else None)"
  by (cases x) (auto simp: field_def)

lemma keys_field: "(k', v) \<in> set (field k f x) \<Longrightarrow> k' = k"
  by (cases x) (auto simp: field_def)

lemma jget_field:
  "(case map_option f x of None \<Rightarrow> JUndef | Some v \<Rightarrow> v) = (case x of None \<Rightarrow> JUndef | Some v \<Rightarrow> f v)"
  by (cases x) auto

lemma stringArray_field:
  "opt_holds x wf_strings \<Longrightarrow> stringArray (case x of None \<Rightarrow> JUndef | Some v \<Rightarrow> str_array v) l False = Inr x"
  by (cases x) (auto simp: opt_holds_def stringArray_str_array)

lemma jget_selector_json:
  assumes "selector_json sel = JObj raw"
  shows "jget raw ''ids'' = (case sel_ids sel of None \<Rightarrow> JUndef | Some v \<Rightarrow> str_array v)"
    and "jget raw ''roles'' = (case sel_roles sel of None \<Rightarrow> JUndef | Some v \<Rightarrow> str_array v)"
    and "jget raw ''organizationIds'' = (case sel_organizationIds sel of None \<Rightarrow> JUndef | Some v \<Rightarrow> str_array v)"
    and "jget raw ''teamIds'' = (case sel_teamIds sel of None \<Rightarrow> JUndef | Some v \<Rightarrow> str_array v)"
    and "jget raw ''projectIds'' = (case sel_projectIds sel of None \<Rightarrow> JUndef | Some v \<Rightarrow> str_array v)"
    and "jget raw ''sessionIds'' = (case sel_sessionIds sel of None \<Rightarrow> JUndef | Some v \<Rightarrow> str_array v)"
    and "rejectUnknownKeys raw PRINCIPAL_KEYS l = Inr ()"
  using assms
  by (auto simp: selector_json_def jget_def map_add_def map_of_field jget_field rejectUnknownKeys_def
      PRINCIPAL_KEYS_def filter_empty_conv dest: keys_field split: option.splits)

lemma parsePrincipalSelector_selector_json:
  assumes "wf_selector sel"
  shows "parsePrincipalSelector (selector_json sel) l = Inr (Some sel)"
proof -
  obtain raw where raw: "selector_json sel = JObj raw" by (simp add: selector_json_def)
  note get = jget_selector_json [OF raw]
  from assms have wf: "opt_holds (sel_ids sel) wf_strings" "opt_holds (sel_roles sel) wf_strings"
    "opt_holds (sel_organizationIds sel) wf_strings" "opt_holds (sel_teamIds sel) wf_strings"
    "opt_holds (sel_projectIds sel) wf_strings" "opt_holds (sel_sessionIds sel) wf_strings"
    by (simp_all add: wf_selector_def Let_def)
  from assms have some: "\<not> (sel_ids sel = None \<and> sel_roles sel = None \<and> sel_organizationIds sel = None \<and>
      sel_teamIds sel = None \<and> sel_projectIds sel = None \<and> sel_sessionIds sel = None)"
    by (auto simp: wf_selector_def Let_def)
  show ?thesis
    unfolding raw parsePrincipalSelector_def object_of_def
    by (simp add: get wf stringArray_field some del: not_None_eq)
qed

lemma jget_rule_json:
  assumes "rule_json r = JObj raw"
  shows "jget raw ''id'' = JStr (rule_id r)"
    and "jget raw ''effect'' = JStr (effect_text (rule_effect r))"
    and "jget raw ''tools'' = str_array (rule_tools r)"
    and "jget raw ''risks'' = (case rule_risks r of None \<Rightarrow> JUndef | Some v \<Rightarrow> str_array (map risk_text v))"
    and "jget raw ''mutates'' = (case rule_mutates r of None \<Rightarrow> JUndef | Some v \<Rightarrow> JBool v)"
    and "jget raw ''modes'' = (case rule_modes r of None \<Rightarrow> JUndef | Some v \<Rightarrow> str_array (map mode_text v))"
    and "jget raw ''principals'' = (case rule_principals r of None \<Rightarrow> JUndef | Some v \<Rightarrow> selector_json v)"
    and "jget raw ''reason'' = JStr (rule_reason r)"
    and "rejectUnknownKeys raw RULE_KEYS l = Inr ()"
  using assms
  by (auto simp: rule_json_def jget_def map_add_def map_of_field jget_field rejectUnknownKeys_def
      RULE_KEYS_def filter_empty_conv dest: keys_field split: option.splits)

lemma enumArray_field:
  assumes "\<And>s a. enum s = Some a \<longleftrightarrow> s = tx a" and "\<And>a. trimmed (tx a)"
    and "opt_holds x (\<lambda>rs. rs \<noteq> [] \<and> distinct rs)"
  shows "enumArray (case x of None \<Rightarrow> JUndef | Some v \<Rightarrow> str_array (map tx v)) l enum = Inr x"
  using assms enumArray_str_array [of enum tx]
  by (cases x) (auto simp: opt_holds_def enumArray_def [of JUndef])

lemma parseRule_rule_json:
  assumes "wf_rule r"
  shows "parseRule (rule_json r) (rule_source r) i = Inr r"
proof -
  obtain raw where raw: "rule_json r = JObj raw" by (simp add: rule_json_def)
  note get = jget_rule_json [OF raw]
  note wf = assms [unfolded wf_rule_def]
  have "effect_of_text (effect_text (rule_effect r)) = Some (rule_effect r)"
    by (cases "rule_effect r") (simp_all add: effect_of_text_def effect_text_def)
  moreover have "mutates_field (case rule_mutates r of None \<Rightarrow> JUndef | Some v \<Rightarrow> JBool v) l = Inr (rule_mutates r)" for l
    by (cases "rule_mutates r") (simp_all add: mutates_field_def)
  moreover have "parsePrincipalSelector (case rule_principals r of None \<Rightarrow> JUndef | Some v \<Rightarrow> selector_json v) l
      = Inr (rule_principals r)" for l
    using wf parsePrincipalSelector_selector_json
    by (cases "rule_principals r") (auto simp: opt_holds_def parsePrincipalSelector_def [of JUndef])
  moreover have "enumArray (case rule_risks r of None \<Rightarrow> JUndef | Some v \<Rightarrow> str_array (map risk_text v)) l risk_of_text
      = Inr (rule_risks r)" for l
    using wf by (intro enumArray_field) (auto simp: risk_of_text_Some_iff trimmed_enum_texts)
  moreover have "enumArray (case rule_modes r of None \<Rightarrow> JUndef | Some v \<Rightarrow> str_array (map mode_text v)) l mode_of_text
      = Inr (rule_modes r)" for l
    using wf by (intro enumArray_field) (auto simp: mode_of_text_Some_iff trimmed_enum_texts)
  ultimately show ?thesis
    unfolding raw parseRule_def object_of_def
    using wf by (simp add: get nonEmptyString_JStr trimmed_enum_texts stringArray_str_array or_empty_def)
qed

lemma check_rule_ids_distinct:
  assumes "\<forall>r \<in> set rules. rule_source r \<noteq> []"
  shows "check_rule_ids rules ids = Inr () \<Longrightarrow> (\<And>k v. ids k = Some v \<Longrightarrow> v \<noteq> []) \<Longrightarrow>
    distinct (map rule_id rules) \<and> (\<forall>r \<in> set rules. ids (rule_id r) = None)"
  using assms
proof (induction rules arbitrary: ids)
  case (Cons r rs)
  then have fresh: "ids (rule_id r) = None"
    by (auto split: option.splits if_splits)
  with Cons.prems have "check_rule_ids rs (ids(rule_id r \<mapsto> rule_source r)) = Inr ()" by simp
  then have "distinct (map rule_id rs) \<and> (\<forall>q \<in> set rs. (ids(rule_id r \<mapsto> rule_source r)) (rule_id q) = None)"
    by (rule Cons.IH) (use Cons.prems in \<open>auto split: if_splits\<close>)
  with fresh show ?case by (auto simp: image_iff split: if_splits)
qed simp

section \<open>Where rule files come from\<close>

lemma resolve_not_Nil [simp]: "resolve cwd ps \<noteq> []"
  by (simp add: resolve_def render_def)

lemma assertCanonicalBoundary_okD:
  "assertCanonicalBoundary pf root f = Inr () \<Longrightarrow>
     \<exists>canon. fs_realpath pf f = Inr canon \<and> withinProject (fs_cwd pf) root canon"
  by (auto simp: assertCanonicalBoundary_def)

lemma set_add_file [simp]: "set (add_file files f) = insert f (set files)"
  by (auto simp: add_file_def)

text \<open>A regular file whose canonical path is inside the canonical project root.\<close>

definition entry_inside :: "policy_files \<Rightarrow> string \<Rightarrow> string \<Rightarrow> bool" where
  "entry_inside pf canonicalRoot f \<longleftrightarrow>
     f \<noteq> [] \<and> pf_kind pf f = KFile \<and>
     (\<exists>canon. fs_realpath pf f = Inr canon \<and> withinProject (fs_cwd pf) canonicalRoot canon)"

lemma collect_dir_inside:
  "collect_dir pf root dir names files = Inr files' \<Longrightarrow> \<forall>f \<in> set files. entry_inside pf root f \<Longrightarrow>
     \<forall>f \<in> set files'. entry_inside pf root f"
proof (induction names arbitrary: files)
  case (Cons name names)
  let ?p = "resolve (fs_cwd pf) [dir, name]"
  show ?case
  proof (cases "re_test yaml_name name")
    case False
    with Cons show ?thesis by simp
  next
    case True
    with Cons.prems have b: "assertCanonicalBoundary pf root ?p = Inr ()"
      and rest: "collect_dir pf root dir names (if pf_kind pf ?p = KFile then add_file files ?p else files) = Inr files'"
      by (auto simp: Let_def split: if_splits)
    from assertCanonicalBoundary_okD [OF b] Cons.prems(2)
    have "\<forall>f \<in> set (if pf_kind pf ?p = KFile then add_file files ?p else files). entry_inside pf root f"
      by (auto simp: entry_inside_def)
    with rest show ?thesis by (rule Cons.IH)
  qed
qed simp

lemma collect_candidate_inside:
  assumes "collect_candidate pf projectRoot root c files = Inr files'" and "c \<noteq> []"
    and "\<forall>f \<in> set files. entry_inside pf root f"
  shows "\<forall>f \<in> set files'. entry_inside pf root f"
  using assms
  by (auto simp: collect_candidate_def entry_inside_def split: if_splits
      dest!: assertCanonicalBoundary_okD dest: collect_dir_inside [unfolded entry_inside_def])

lemma collect_all_inside:
  "collect_all pf projectRoot root cs files = Inr files' \<Longrightarrow> \<forall>c \<in> set cs. c \<noteq> [] \<Longrightarrow>
     \<forall>f \<in> set files. entry_inside pf root f \<Longrightarrow> \<forall>f \<in> set files'. entry_inside pf root f"
proof (induction cs arbitrary: files)
  case (Cons c cs)
  then obtain files1 where f1: "collect_candidate pf projectRoot root c files = Inr files1"
    and rest: "collect_all pf projectRoot root cs files1 = Inr files'" by auto
  have "\<forall>f \<in> set files1. entry_inside pf root f"
    using collect_candidate_inside [OF f1] Cons.prems by simp
  with Cons.IH [OF rest] Cons.prems show ?case by simp
qed simp

lemma collectFiles_inside:
  assumes "collectFiles pf projectRoot configured = Inr files"
  shows "\<exists>root. fs_realpath pf projectRoot = Inr root \<and> (\<forall>f \<in> set files. entry_inside pf root f)"
proof -
  from assms obtain root fs where r: "fs_realpath pf projectRoot = Inr root"
    and c: "collect_all pf projectRoot root
      (resolve (fs_cwd pf) [projectRoot, ''.folderforge'', ''policies'']
        # map (\<lambda>item. resolve (fs_cwd pf) [projectRoot, item]) configured) [] = Inr fs"
    and files: "files = sort_by code_unit_le fs"
    by (auto simp: collectFiles_def Let_def simp del: collect_all.simps)
  have "\<forall>f \<in> set fs. entry_inside pf root f"
    by (rule collect_all_inside [OF c]) auto
  with r files show ?thesis by auto
qed

lemma parseRule_source: "parseRule v source i = Inr r \<Longrightarrow> rule_source r = source"
  by (auto simp: parseRule_def Let_def split: option.split_asm)

lemma mapR_index_parseRule:
  "mapR_index (\<lambda>i rule. parseRule rule path i) n vs = Inr rs \<Longrightarrow>
     \<forall>r \<in> set rs. wf_rule r \<and> rule_source r = path"
  by (induction vs arbitrary: n rs) (auto dest: parseRule_wf parseRule_source)

lemma parseDocument_wf:
  "parseDocument yaml path = Inr rs \<Longrightarrow> \<forall>r \<in> set rs. wf_rule r \<and> rule_source r = path"
proof (cases "yaml path")
  case (Inr parsed)
  assume ok: "parseDocument yaml path = Inr rs"
  from ok Inr obtain raw where raw: "object_of parsed path = Inr raw"
    by (auto simp: parseDocument_def)
  show ?thesis
  proof (cases "jget raw ''rules''")
    case (JArr vs)
    with ok Inr raw have "mapR_index (\<lambda>i rule. parseRule rule path i) 0 vs = Inr rs"
      by (auto simp: parseDocument_def split: if_split_asm)
    then show ?thesis by (rule mapR_index_parseRule)
  qed (use ok Inr raw in \<open>auto simp: parseDocument_def\<close>)
qed (simp add: parseDocument_def)

section \<open>Properties\<close>

text \<open>Claim C32. The outcome of the rule set is the strictest effect among the matching rules, where
  no match is weaker than approval and approval weaker than deny.  So a deny always wins, the order
  of files and rules does not change the effect, and adding rules never loosens it.\<close>

theorem strictest_matching_rule_wins:
  assumes "pac_evaluate rules ctx = Inr res"
  shows "outcome_rank res = Max (insert 0 ((\<lambda>r. effect_rank (rule_effect r)) ` matching rules ctx))"
  by (rule outcome_rank_Max [OF assms])

definition demo_rule :: "string \<Rightarrow> rule_effect \<Rightarrow> string list \<Rightarrow> loaded_rule" where
  "demo_rule i e ts =
     \<lparr>rule_id = i, rule_effect = e, rule_tools = ts, rule_risks = None, rule_mutates = None,
      rule_modes = None, rule_principals = None, rule_reason = ''why'', rule_source = ''p.yaml''\<rparr>"

definition demo_context :: "string \<Rightarrow> rule_context" where
  "demo_context t =
     \<lparr>ctx_tool = t, ctx_risk = LOW, ctx_mutates = False, ctx_mode = Safe,
      ctx_principal = bare_principal ''a'' RoleAgent\<rparr>"

theorem strictest_matching_rule_wins_witness:
  "\<exists>res. pac_evaluate [demo_rule ''r1'' EffApproval [''git_*''], demo_rule ''r2'' EffDeny [''*'']]
      (demo_context ''git_log'') = Inr res \<and> outcome_rank res = 2"
proof -
  let ?rules = "[demo_rule ''r1'' EffApproval [''git_*''], demo_rule ''r2'' EffDeny [''*'']]"
  let ?ctx = "demo_context ''git_log''"
  have m: "matches (?rules ! 0) ?ctx = Inr True" "matches (?rules ! 1) ?ctx = Inr True"
    by code_simp+
  then obtain res where ev: "pac_evaluate ?rules ?ctx = Inr res"
    using pac_evaluate_total [of ?rules ?ctx] by auto
  have "matching ?rules ?ctx = set ?rules" using m by (auto simp: matching_def)
  then have "outcome_rank res = 2"
    using strictest_matching_rule_wins [OF ev] by (simp add: demo_rule_def effect_rank_def)
  with ev show ?thesis by blast
qed

text \<open>Printing a parsed rule and parsing the text again gives the same rule: whatever
  \<^verbatim>\<open>parseRule\<close> accepts, it normalises once and for all.\<close>

theorem rule_print_parse:
  assumes "parseRule v source i = Inr r"
  shows "parseRule (rule_json r) source j = Inr r"
  using parseRule_rule_json [OF parseRule_wf [OF assms], of j] parseRule_source [OF assms] by simp

theorem rule_print_parse_witness:
  "\<exists>r. parseRule (JObj [(''id'', JStr '' r1 ''), (''effect'', JStr ''deny''),
        (''tools'', JArr [JStr ''git_*'', JStr '' git_*'']), (''reason'', JStr ''no git'')]) ''p.yaml'' 0 = Inr r \<and>
      rule_tools r = [''git_*''] \<and> parseRule (rule_json r) ''p.yaml'' 7 = Inr r"
proof -
  let ?r = "\<lparr>rule_id = ''r1'', rule_effect = EffDeny, rule_tools = [''git_*''], rule_risks = None,
    rule_mutates = None, rule_modes = None, rule_principals = None, rule_reason = ''no git'',
    rule_source = ''p.yaml''\<rparr>"
  have p: "parseRule (JObj [(''id'', JStr '' r1 ''), (''effect'', JStr ''deny''),
        (''tools'', JArr [JStr ''git_*'', JStr '' git_*'']), (''reason'', JStr ''no git'')]) ''p.yaml'' 0 = Inr ?r"
    by code_simp
  show ?thesis using p rule_print_parse [OF p, of 7] by (intro exI [of _ ?r]) simp
qed

text \<open>Loading a rule set either fails or yields rules that are all well formed, have
  pairwise different identifiers and come from regular files whose canonical path is inside the
  canonical project root.\<close>

theorem loaded_rules_are_trusted:
  assumes "new_PolicyAsCode pf projectRoot configured = Inr pac"
  shows "distinct (map rule_id (pac_rules pac)) \<and> list_all wf_rule (pac_rules pac) \<and>
    (\<exists>root. fs_realpath pf (resolve (fs_cwd pf) [projectRoot]) = Inr root \<and>
      (\<forall>r \<in> set (pac_rules pac). entry_inside pf root (rule_source r)))"
proof -
  from assms obtain docs where
    files: "collectFiles pf (resolve (fs_cwd pf) [projectRoot]) configured = Inr (pac_files pac)"
    and docs: "mapR (parseDocument (pf_yaml pf)) (pac_files pac) = Inr docs"
    and rules: "pac_rules pac = concat docs" and ids: "check_rule_ids (concat docs) Map.empty = Inr ()"
    by (auto simp: new_PolicyAsCode_def Let_def)
  from collectFiles_inside [OF files] obtain root
    where root: "fs_realpath pf (resolve (fs_cwd pf) [projectRoot]) = Inr root"
      "\<forall>f \<in> set (pac_files pac). entry_inside pf root f" by blast
  have from_file: "wf_rule r \<and> rule_source r \<in> set (pac_files pac)" if "r \<in> set (concat docs)" for r
  proof -
    from that obtain d where d: "d \<in> set docs" "r \<in> set d" by auto
    from mapR_setD [OF docs d(1)] obtain f where "f \<in> set (pac_files pac)" "parseDocument (pf_yaml pf) f = Inr d"
      by blast
    with parseDocument_wf [of "pf_yaml pf" f d] d(2) show ?thesis by auto
  qed
  then have "\<forall>r \<in> set (concat docs). rule_source r \<noteq> []"
    using root(2) by (auto simp: entry_inside_def)
  from check_rule_ids_distinct [OF this ids] have "distinct (map rule_id (concat docs))" by simp
  with from_file root rules show ?thesis by (auto simp: list_all_iff)
qed

definition demo_files :: policy_files where
  "demo_files =
     \<lparr>fs_cwd = ''/w'', fs_exists = (\<lambda>p. p = ''/w/p.yaml''), fs_realpath = (\<lambda>p. Inr p),
      pf_kind = (\<lambda>_. KFile), pf_readdir = (\<lambda>_. []),
      pf_yaml = (\<lambda>_. Inr (JObj [(''version'', JNum 1), (''rules'', JArr [rule_json (demo_rule ''r1'' EffDeny [''git_*''])])]))\<rparr>"

theorem loaded_rules_are_trusted_witness:
  "\<exists>pac. new_PolicyAsCode demo_files ''/w'' [''p.yaml''] = Inr pac \<and> length (pac_rules pac) = 1 \<and>
     distinct (map rule_id (pac_rules pac))"
proof -
  let ?pac = "\<lparr>pac_files = [''/w/p.yaml''],
    pac_rules = [(demo_rule ''r1'' EffDeny [''git_*''])\<lparr>rule_source := ''/w/p.yaml''\<rparr>]\<rparr>"
  have p: "new_PolicyAsCode demo_files ''/w'' [''p.yaml''] = Inr ?pac" by code_simp
  show ?thesis using p loaded_rules_are_trusted [OF p] by (intro exI [of _ ?pac]) simp
qed

end
