(* ===== verification/FF_Command.thy ===== *)
theory FF_Command
  imports FF_Regex FF_Paths FF_Risk
begin

text \<open>
  \<^verbatim>\<open>src/policy/command-policy.ts\<close>: the classification of shell commands by destructive patterns,
  the configured blocklist and the one exemption, the removal of a disposable temporary directory.
  The temporary directory \<^verbatim>\<open>tmpdir()\<close> of the host is a parameter.
\<close>

record CommandClassification =
  cc_risk :: risk_level
  cc_blockedReason :: "string option"
  cc_matched :: "string option"

text \<open>The source text of an expression, as \<^verbatim>\<open>re.source\<close> gives it; the table below writes a
  percent sign for each backslash.\<close>

definition re_source :: "string \<Rightarrow> string" where
  "re_source s = map (\<lambda>c. if c = CHR ''%'' then CHR 92 else c) s"

abbreviation RS :: regex where "RS \<equiv> RPlus RSpace"
abbreviation RWord :: "string \<Rightarrow> regex" where "RWord w \<equiv> RSeqs [RWordB, RLit w, RWordB]"

definition CRITICAL_PATTERNS :: "(string \<times> regex) list" where
  "CRITICAL_PATTERNS =
    [(''%brm%s+-rf?%s+%/(?:%s|$)'',
        RSeqs [RWordB, RLit ''rm'', RS, RLit ''-r'', ROpt (RLit ''f''), RS, RLit ''/'', RAlt RSpace REol]),
     (''%brm%s+-rf?%s+~(?:%/|%s|$)'',
        RSeqs [RWordB, RLit ''rm'', RS, RLit ''-r'', ROpt (RLit ''f''), RS, RLit ''~'',
               RAlts [RLit ''/'', RSpace, REol]]),
     (''%bsudo%b'', RWord ''sudo''),
     (''%bmkfs%b'', RWord ''mkfs''),
     (''%bdd%s+if='', RSeqs [RWordB, RLit ''dd'', RS, RLit ''if='']),
     (''%bchmod%s+-R%s+777%s+%/'',
        RSeqs [RWordB, RLit ''chmod'', RS, RLit ''-R'', RS, RLit ''777'', RS, RLit ''/'']),
     (''%bchown%s+-R%b'', RSeqs [RWordB, RLit ''chown'', RS, RLit ''-R'', RWordB]),
     (''%bcurl%b[^|]*%|%s*(?:bash|sh)%b'',
        RSeqs [RWord ''curl'', RStar (RNotIn ''|''), RLit ''|'', RStar RSpace,
               RAlt (RLit ''bash'') (RLit ''sh''), RWordB]),
     (''%bwget%b[^|]*%|%s*(?:bash|sh)%b'',
        RSeqs [RWord ''wget'', RStar (RNotIn ''|''), RLit ''|'', RStar RSpace,
               RAlt (RLit ''bash'') (RLit ''sh''), RWordB]),
     (''%bgit%s+reset%s+--hard%b'',
        RSeqs [RWordB, RLit ''git'', RS, RLit ''reset'', RS, RLit ''--hard'', RWordB]),
     (''%bgit%s+clean%s+-[a-z]*f'',
        RSeqs [RWordB, RLit ''git'', RS, RLit ''clean'', RS, RLit ''-'', RStar (RIn az), RLit ''f'']),
     (''%bgit%s+push%b[^&|;]*--force%b'',
        RSeqs [RWordB, RLit ''git'', RS, RLit ''push'', RWordB, RStar (RNotIn ''&|;''),
               RLit ''--force'', RWordB]),
     (''%bdocker%s+system%s+prune%b'',
        RSeqs [RWordB, RLit ''docker'', RS, RLit ''system'', RS, RLit ''prune'', RWordB]),
     (''%bkubectl%s+delete%b'', RSeqs [RWordB, RLit ''kubectl'', RS, RLit ''delete'', RWordB]),
     (''%bterraform%s+apply%b'', RSeqs [RWordB, RLit ''terraform'', RS, RLit ''apply'', RWordB]),
     (''%bmv%s+%S+%s+%/dev%/null%b'',
        RSeqs [RWordB, RLit ''mv'', RS, RPlus RNonSpace, RS, RLit ''/dev/null'', RWordB]),
     ('':%(%)%s*%{.*%|.*&%s*%}%s*;'',
        RSeqs [RLit '':()'', RStar RSpace, RLit ''{'', RStar RDot, RLit ''|'', RStar RDot, RLit ''&'',
               RStar RSpace, RLit ''}'', RStar RSpace, RLit '';''])]"

definition HIGH_PATTERNS :: "(string \<times> regex) list" where
  "HIGH_PATTERNS =
    [(''%bgit%s+push%b'', RSeqs [RWordB, RLit ''git'', RS, RLit ''push'', RWordB]),
     (''%bgit%s+reset%b'', RSeqs [RWordB, RLit ''git'', RS, RLit ''reset'', RWordB]),
     (''%bdocker%s+compose%s+down%b'',
        RSeqs [RWordB, RLit ''docker'', RS, RLit ''compose'', RS, RLit ''down'', RWordB]),
     (''%bdocker%s+rm%b'', RSeqs [RWordB, RLit ''docker'', RS, RLit ''rm'', RWordB]),
     (''%bnpm%s+publish%b'', RSeqs [RWordB, RLit ''npm'', RS, RLit ''publish'', RWordB]),
     (''%brm%s+-rf?%b'', RSeqs [RWordB, RLit ''rm'', RS, RLit ''-r'', ROpt (RLit ''f''), RWordB])]"

definition MEDIUM_PATTERNS :: "(string \<times> regex) list" where
  "MEDIUM_PATTERNS =
    [(''%bnpm%s+(install|i|ci|add)%b'',
        RSeqs [RWordB, RLit ''npm'', RS,
               RAlts [RLit ''install'', RLit ''i'', RLit ''ci'', RLit ''add''], RWordB]),
     (''%bpnpm%s+(install|add)%b'',
        RSeqs [RWordB, RLit ''pnpm'', RS, RAlts [RLit ''install'', RLit ''add''], RWordB]),
     (''%byarn%s+(add|install)%b'',
        RSeqs [RWordB, RLit ''yarn'', RS, RAlts [RLit ''add'', RLit ''install''], RWordB]),
     (''%bpip%s+install%b'', RSeqs [RWordB, RLit ''pip'', RS, RLit ''install'', RWordB]),
     (''%bdocker%s+compose%s+up%b'',
        RSeqs [RWordB, RLit ''docker'', RS, RLit ''compose'', RS, RLit ''up'', RWordB]),
     (''%bmake%b'', RWord ''make''),
     (''%b(npm|pnpm|yarn)%s+run%s+build%b'',
        RSeqs [RWordB, RAlts [RLit ''npm'', RLit ''pnpm'', RLit ''yarn''], RS, RLit ''run'', RS,
               RLit ''build'', RWordB])]"

section \<open>Recursive removals\<close>

fun first_some :: "('a \<Rightarrow> 'b option) \<Rightarrow> 'a list \<Rightarrow> 'b option" where
  "first_some f [] = None"
| "first_some f (x # xs) = (case f x of Some y \<Rightarrow> Some y | None \<Rightarrow> first_some f xs)"

definition shell_meta :: "char list" where
  "shell_meta = '';&|'' @ [CHR 96] @ ''$*?{}[]''"

definition removal_prefix :: regex where
  "removal_prefix =
     RSeqs [RLit ''rm'', RS, RLit ''-r'', ROpt (RLit ''f''), RS, ROpt (RSeq (RLit ''--'') RS)]"

text \<open>The capture groups of the anchored expression: each way to match the prefix is tried in the
  matcher's order, then the double-quoted, the single-quoted and the bare form up to the end.\<close>

definition removal_capture :: "string \<Rightarrow> nat \<Rightarrow> string option" where
  "removal_capture s k =
     (let e = length s;
          quoted = (\<lambda>q. RSeqs [RLit [q], RPlus (RNotIn [q]), RLit [q], REol]);
          bare = RSeqs [RPlus (RNotIn (space_chars @ shell_meta)), REol]
      in if ends (quoted (CHR 34)) s k \<noteq> [] then Some (take (e - k - 2) (drop (Suc k) s))
         else if ends (quoted (CHR 39)) s k \<noteq> [] then Some (take (e - k - 2) (drop (Suc k) s))
         else if ends bare s k \<noteq> [] then Some (drop k s)
         else None)"

definition recursiveRemovalTarget :: "string \<Rightarrow> string \<Rightarrow> string option" where
  "recursiveRemovalTarget cwd command =
     (let s = js_trim command
      in case first_some (removal_capture s) (ends removal_prefix s 0) of
           None \<Rightarrow> None
         | Some raw \<Rightarrow>
             if raw = [] \<or> re_test (RIn (shell_meta @ [CHR 13, CHR 10])) raw \<or> \<not> isAbsolute raw
             then None else Some (resolve cwd [raw]))"

definition disposable_name :: regex where
  "disposable_name =
     ignore_case (whole (RSeq (RAlt (RLit ''ff-'') (RLit ''folderforge-'')) (RPlus (RIn (az @ d09 @ ''._-'')))))"

definition disposableTempRemoval :: "string \<Rightarrow> string \<Rightarrow> string \<Rightarrow> string option" where
  "disposableTempRemoval cwd tmpdir command =
     (case recursiveRemovalTarget cwd command of
        None \<Rightarrow> None
      | Some target \<Rightarrow>
          if target = [] then None
          else
            let tempRoot = resolve cwd [tmpdir]; rel = relative cwd tempRoot target
            in if rel = [] \<or> starts_with ''..'' rel \<or> js_includes ''..'' rel then None
               else if re_test disposable_name (takeWhile (\<lambda>c. c \<noteq> CHR 92 \<and> c \<noteq> CHR ''/'') rel)
               then Some target else None)"

section \<open>The configured blocklist and the classification\<close>

fun ordered_parts :: "string \<Rightarrow> string list \<Rightarrow> nat \<Rightarrow> bool" where
  "ordered_parts cmd [] idx = True"
| "ordered_parts cmd (p # ps) idx =
     (case index_from (js_trim p) cmd idx of
        None \<Rightarrow> False
      | Some found \<Rightarrow> ordered_parts cmd ps (found + length p))"

definition blocks_entry :: "string \<Rightarrow> string \<Rightarrow> bool" where
  "blocks_entry cmd entry =
     (let pat = to_lower entry
      in if js_includes ''*'' pat
         then ordered_parts cmd (filter (\<lambda>p. p \<noteq> []) (split_on (CHR ''*'') pat)) 0
         else js_includes pat cmd)"

definition matchesConfigBlocklist :: "string list \<Rightarrow> string \<Rightarrow> string option" where
  "matchesConfigBlocklist blocked command = find (blocks_entry (to_lower command)) blocked"

text \<open>\<^verbatim>\<open>if (cfgHit)\<close> tests the returned entry for truth, so a hit by the empty entry counts as none.\<close>

definition classify :: "string \<Rightarrow> string \<Rightarrow> string list \<Rightarrow> string \<Rightarrow> CommandClassification" where
  "classify cwd tmpdir blocked command =
     (let trimmed = js_trim command in
      case disposableTempRemoval cwd tmpdir trimmed of
        Some t \<Rightarrow> \<lparr>cc_risk = MEDIUM, cc_blockedReason = None, cc_matched = Some (''disposable-temp:'' @ t)\<rparr>
      | None \<Rightarrow>
      case recursiveRemovalTarget cwd trimmed of
        Some t \<Rightarrow>
          \<lparr>cc_risk = CRITICAL,
           cc_blockedReason = Some (''Recursive deletion targets an absolute non-disposable path: '' @ t),
           cc_matched = Some ''absolute-recursive-removal''\<rparr>
      | None \<Rightarrow>
      case find (\<lambda>(src, re). re_test re trimmed) CRITICAL_PATTERNS of
        Some (src, re) \<Rightarrow>
          \<lparr>cc_risk = CRITICAL,
           cc_blockedReason = Some (''Matches destructive pattern: /'' @ re_source src @ ''/''),
           cc_matched = Some (re_source src)\<rparr>
      | None \<Rightarrow>
      case matchesConfigBlocklist blocked trimmed of
        Some (c # cs) \<Rightarrow>
          \<lparr>cc_risk = CRITICAL, cc_blockedReason = Some (''Matches blocked command rule: '' @ c # cs),
           cc_matched = Some (c # cs)\<rparr>
      | _ \<Rightarrow>
      case find (\<lambda>(src, re). re_test re trimmed) HIGH_PATTERNS of
        Some (src, re) \<Rightarrow> \<lparr>cc_risk = HIGH, cc_blockedReason = None, cc_matched = Some (re_source src)\<rparr>
      | None \<Rightarrow>
      case find (\<lambda>(src, re). re_test re trimmed) MEDIUM_PATTERNS of
        Some (src, re) \<Rightarrow> \<lparr>cc_risk = MEDIUM, cc_blockedReason = None, cc_matched = Some (re_source src)\<rparr>
      | None \<Rightarrow> \<lparr>cc_risk = LOW, cc_blockedReason = None, cc_matched = None\<rparr>)"

definition DEFAULT_BLOCKED :: "string list" where
  "DEFAULT_BLOCKED =
     [''rm -rf /'', ''sudo rm'', ''mkfs'', ''dd if='', ''chmod -R 777 /'', ''chown -R'',
      ''curl * | bash'', ''wget * | sh'', ''git reset --hard'', ''git push --force'',
      ''docker system prune'', ''kubectl delete'', ''terraform apply'']"

section \<open>Lemmas\<close>

lemma first_some_SomeD: "first_some f xs = Some y \<Longrightarrow> \<exists>x \<in> set xs. f x = Some y"
  by (induction xs) (auto split: option.splits)

lemma re_test_class: "re_test (RIn cs) s \<longleftrightarrow> (\<exists>c \<in> set s. c \<in> set cs)"
proof
  assume "\<exists>c \<in> set s. c \<in> set cs"
  then obtain i where "i < length s" "s ! i \<in> set cs" by (metis in_set_conv_nth)
  then show "re_test (RIn cs) s" by (auto simp: re_test_iff intro!: exI [of _ i] intro: less_imp_le)
qed (auto simp: re_test_iff)

lemma set_push_seg: "\<Union> (set ` set (push_seg acc x)) \<subseteq> \<Union> (set ` set acc) \<union> set x"
  by (auto simp: push_seg_def dest: in_set_butlastD)

lemma set_foldl_push: "\<Union> (set ` set (foldl push_seg acc xs)) \<subseteq> \<Union> (set ` set acc) \<union> \<Union> (set ` set xs)"
proof (induction xs arbitrary: acc)
  case (Cons x xs)
  from Cons.IH [of "push_seg acc x"] set_push_seg [of acc x] show ?case by auto
qed simp

lemma set_norm_segs: "\<Union> (set ` set (norm_segs p)) \<subseteq> set p"
  using set_foldl_push [of "[]" "split_on (CHR ''/'') p"] split_on_subset [of _ "CHR ''/''" p]
  by (auto simp: norm_segs_def)

lemma set_join_with: "set (join_with sep xs) \<subseteq> set sep \<union> \<Union> (set ` set xs)"
  by (induction sep xs rule: join_with.induct) auto

lemma resolve_absolute_chars:
  assumes "isAbsolute raw" shows "set (resolve cwd [raw]) \<subseteq> insert (CHR ''/'') (set raw)"
proof -
  have "resolve cwd [raw] = render (norm_segs raw)"
    using assms by (simp add: resolve_def resolve_text_def) (auto simp: isAbsolute_def)
  moreover have "set (join_with ''/'' (norm_segs raw)) \<subseteq> insert (CHR ''/'') (set raw)"
    using set_join_with [of "''/''" "norm_segs raw"] set_norm_segs [of raw] by auto
  ultimately show ?thesis by (simp add: render_def)
qed

text \<open>An accepted target is a normalised path with none of the shell's expansion characters.\<close>

lemma removal_target_clean:
  assumes "recursiveRemovalTarget cwd command = Some t"
  shows "normal_path t" "set t \<inter> set (shell_meta @ [CHR 13, CHR 10]) = {}"
proof -
  from assms obtain raw where raw: "\<not> re_test (RIn (shell_meta @ [CHR 13, CHR 10])) raw"
      "isAbsolute raw" "t = resolve cwd [raw]"
    by (auto simp: recursiveRemovalTarget_def Let_def split: option.split_asm if_split_asm)
  then show "normal_path t" by simp
  from raw(1) have "\<And>c. c \<in> set raw \<Longrightarrow> c \<notin> set (shell_meta @ [CHR 13, CHR 10])"
    by (auto simp: re_test_class)
  moreover have "CHR ''/'' \<notin> set (shell_meta @ [CHR 13, CHR 10])" by (simp add: shell_meta_def)
  ultimately show "set t \<inter> set (shell_meta @ [CHR 13, CHR 10]) = {}"
    using resolve_absolute_chars [OF raw(2), of cwd] raw(3) by blast
qed

text \<open>Case-insensitive literals.\<close>

lemma lower_upper_char: "lower_char (upper_char c) = lower_char c"
  by (auto simp: lower_char_def upper_char_def char_class_defs of_char_of)

lemma lower_lower_char: "lower_char (lower_char c) = lower_char c"
  by (auto simp: lower_char_def char_class_defs)

lemma ignore_case_RSeqs: "ignore_case (RSeqs rs) = RSeqs (map ignore_case rs)"
  by (induction rs rule: RSeqs.induct) auto

lemma matches_ignore_case_RLit:
  "matches_at s (RSeqs (map (\<lambda>c. ignore_case (RIn [c])) p)) i j \<Longrightarrow>
     starts_with (to_lower p) (to_lower (drop i s))"
proof (induction p arbitrary: i)
  case (Cons c p)
  then obtain k where k: "matches_at s (ignore_case (RIn [c])) i k"
    "matches_at s (RSeqs (map (\<lambda>c. ignore_case (RIn [c])) p)) k j"
    by (auto simp: matches_RSeqs_Cons)
  from k(1) have i: "i < length s" "k = Suc i" "lower_char (s ! i) = lower_char c"
    using lower_upper_char [of c] lower_lower_char [of c] by auto
  then show ?case using Cons.IH [OF k(2)]
    by (simp add: to_lower_def Cons_nth_drop_Suc [symmetric])
qed (simp add: to_lower_def)

lemma disposable_name_prefix:
  assumes "re_test disposable_name x"
  shows "starts_with ''ff-'' (to_lower x) \<or> starts_with ''folderforge-'' (to_lower x)"
proof -
  from assms obtain i j where "matches_at x disposable_name i j" by (auto simp: re_test_iff)
  then have "(\<exists>k. matches_at x (ignore_case (RLit ''ff-'')) 0 k) \<or>
             (\<exists>k. matches_at x (ignore_case (RLit ''folderforge-'')) 0 k)"
    by (auto simp: disposable_name_def whole_def)
  moreover have "to_lower ''ff-'' = ''ff-''" "to_lower ''folderforge-'' = ''folderforge-''"
    by code_simp+
  ultimately show ?thesis
    using matches_ignore_case_RLit [of x "''ff-''" 0] matches_ignore_case_RLit [of x "''folderforge-''" 0]
    by (auto simp only: RLit_def ignore_case_RSeqs map_map comp_def drop_0)
qed

lemma takeWhile_join_prefix:
  assumes "\<And>c. P c \<Longrightarrow> c \<noteq> CHR ''/''"
  shows "prefix (takeWhile P (join_with ''/'' (x # zs))) x"
proof (cases zs)
  case (Cons z zs')
  have "takeWhile P (x @ CHR ''/'' # u) = takeWhile P x" for u
    using assms by (auto simp: takeWhile_append) (metis takeWhile_eq_all_conv)
  with Cons show ?thesis by (simp add: takeWhile_is_prefix)
qed (simp add: takeWhile_is_prefix)

lemma disposable_target_segments:
  assumes "disposableTempRemoval cwd tmp command = Some t"
  shows "\<exists>x rest. norm_segs t = norm_segs (resolve cwd [tmp]) @ x # rest \<and>
           (starts_with ''ff-'' (to_lower x) \<or> starts_with ''folderforge-'' (to_lower x))"
proof -
  let ?root = "resolve cwd [tmp]" and ?P = "\<lambda>c. c \<noteq> CHR 92 \<and> c \<noteq> CHR ''/''"
  from assms have target: "recursiveRemovalTarget cwd command = Some t"
    and ne: "relative cwd ?root t \<noteq> []" and up: "\<not> starts_with ''..'' (relative cwd ?root t)"
    and name: "re_test disposable_name (takeWhile ?P (relative cwd ?root t))"
    by (auto simp: disposableTempRemoval_def Let_def split: option.split_asm if_split_asm)
  have rel: "relative cwd ?root t = join_with ''/'' (rel_segs (norm_segs ?root) (norm_segs t))"
    using removal_target_clean(1) [OF target] by (simp add: relative_def resolve_normal)
  have "prefix (norm_segs ?root) (norm_segs t)"
  proof (rule ccontr)
    assume "\<not> prefix (norm_segs ?root) (norm_segs t)"
    then obtain zs where "rel_segs (norm_segs ?root) (norm_segs t) = ''..'' # zs"
      using rel_segs_not_prefix by blast
    with join_dotdot [of zs] up rel show False by (cases zs) auto
  qed
  then obtain ys where ys: "norm_segs t = norm_segs ?root @ ys" by (auto simp: prefix_def)
  with ne rel obtain x rest where x: "ys = x # rest" by (cases ys) (auto simp: rel_segs_prefix [of _ "[]", simplified])
  have "prefix (takeWhile ?P (relative cwd ?root t)) x"
    using takeWhile_join_prefix [of ?P x rest] rel ys x by (simp add: rel_segs_prefix)
  then have "prefix (to_lower (takeWhile ?P (relative cwd ?root t))) (to_lower x)"
    by (simp add: to_lower_def map_mono_prefix)
  with disposable_name_prefix [OF name] have "starts_with ''ff-'' (to_lower x) \<or> starts_with ''folderforge-'' (to_lower x)"
    unfolding starts_with_iff_prefix by (meson prefix_order.trans)
  with ys x show ?thesis by blast
qed

text \<open>What the wildcard entries of the blocklist mean: the pieces occur one after the other, without
  overlap, anywhere in the command.\<close>

fun in_order :: "string list \<Rightarrow> string \<Rightarrow> bool" where
  "in_order [] s = True"
| "in_order (p # ps) s =
     list_ex (\<lambda>k. starts_with p (drop k s) \<and> in_order ps (drop (k + length p) s)) [0..<Suc (length s)]"

lemma in_order_Cons:
  "in_order (p # ps) s \<longleftrightarrow> (\<exists>k \<le> length s. starts_with p (drop k s) \<and> in_order ps (drop (k + length p) s))"
  by (auto simp: list_ex_iff less_Suc_eq_le Bex_def simp del: upt_Suc)

declare in_order.simps(2) [simp del]

lemma in_order_drop: "in_order ps (drop d s) \<Longrightarrow> in_order ps s"
proof (cases ps)
  case (Cons p qs)
  assume "in_order ps (drop d s)"
  then obtain k where k: "k \<le> length s - d" "starts_with p (drop (k + d) s)" "in_order qs (drop (k + length p + d) s)"
    by (auto simp: Cons in_order_Cons add.commute)
  show ?thesis
  proof (cases "d \<le> length s")
    case True
    with k show ?thesis unfolding Cons in_order_Cons by (intro exI [of _ "k + d"]) (auto simp: ac_simps)
  next
    case False
    with k show ?thesis unfolding Cons in_order_Cons by (intro exI [of _ "length s"]) (auto simp: ac_simps)
  qed
qed simp

lemma in_order_later: "in_order ps (drop j s) \<Longrightarrow> i \<le> j \<Longrightarrow> in_order ps (drop i s)"
  using in_order_drop [of ps "j - i" "drop i s"] by simp

lemma index_from_eq: "index_from p s i = map_option (\<lambda>d. min i (length s) + d) (find_index p (drop i s))"
  by (cases "i \<le> length s") (simp_all add: index_from_def Let_def min_def)

lemma length_trim_le: "length (js_trim p) \<le> length p"
  using length_dropWhile_le [of is_space "rev (dropWhile is_space p)"] length_dropWhile_le [of is_space p]
  by (simp add: js_trim_def)

lemma ordered_parts_sound: "ordered_parts cmd ps idx \<Longrightarrow> in_order (map js_trim ps) (drop idx cmd)"
proof (induction ps arbitrary: idx)
  case (Cons p ps)
  from Cons.prems obtain d where d: "find_index (js_trim p) (drop idx cmd) = Some d"
    and rest: "ordered_parts cmd ps (min idx (length cmd) + d + length p)"
    by (auto simp: index_from_eq split: option.split_asm)
  have "in_order (map js_trim ps) (drop (d + length (js_trim p) + idx) cmd)"
  proof (cases "idx \<le> length cmd")
    case True
    then show ?thesis
      using in_order_later [OF Cons.IH [OF rest], of "d + length (js_trim p) + idx"] length_trim_le [of p]
      by simp
  next
    case False
    then show ?thesis using Cons.IH [OF rest] by simp
  qed
  with find_index_SomeD [OF d] show ?case by (auto simp: in_order_Cons intro!: exI [of _ d])
qed simp

lemma find_index_leftmost:
  assumes "k \<le> length s" "starts_with p (drop k s)"
  shows "\<exists>d \<le> k. find_index p s = Some d"
proof (cases "find_index p s")
  case None
  have "sublist p s" using assms(2)
    by (metis append_take_drop_id sublist_appendI prefix_def starts_with_iff_prefix)
  with None show ?thesis by (simp add: find_index_None_iff includes_iff_sublist)
next
  case (Some d)
  with assms(2) find_index_least [OF Some, of k] show ?thesis by (intro exI [of _ d]) force
qed

lemma ordered_parts_complete:
  "in_order ps (drop idx cmd) \<Longrightarrow> \<forall>p \<in> set ps. js_trim p = p \<Longrightarrow> idx \<le> length cmd \<Longrightarrow> ordered_parts cmd ps idx"
proof (induction ps arbitrary: idx)
  case (Cons p ps)
  then obtain k where k: "k \<le> length (drop idx cmd)" "starts_with p (drop k (drop idx cmd))"
    "in_order ps (drop (k + length p) (drop idx cmd))"
    by (auto simp: in_order_Cons)
  from find_index_leftmost [OF k(1,2)] obtain d where d: "d \<le> k" "find_index p (drop idx cmd) = Some d" by blast
  have "in_order ps (drop (idx + d + length p) cmd)"
    using in_order_later [of ps "k + length p + idx" cmd "idx + d + length p"] k(3) d(1) by simp
  moreover have "length p \<le> length (drop d (drop idx cmd))"
    using find_index_SomeD [OF d(2)] by (metis prefix_length_le starts_with_iff_prefix)
  moreover have "d \<le> length (drop idx cmd)" using find_index_SomeD [OF d(2)] by simp
  ultimately have "ordered_parts cmd ps (idx + d + length p)"
    using Cons.prems by (intro Cons.IH) auto
  with d(2) Cons.prems show ?case by (simp add: index_from_eq)
qed simp

lemma find_pattern_None:
  "find (\<lambda>(src, re). re_test re s) ps = None \<longleftrightarrow>
     \<not> (\<exists>(src, re) \<in> set ps. \<exists>i \<le> length s. \<exists>j. matches_at s re i j)"
  by (auto simp: find_None_iff re_test_iff)

section \<open>Properties\<close>

text \<open>The only recursive removal that escapes the hard deny is contained: when a command is
  classified as the removal of a disposable directory, it is a non-blocking MEDIUM, and its target is
  strictly below the host's temporary directory, its first segment there starts with \<^verbatim>\<open>ff-\<close> or
  \<^verbatim>\<open>folderforge-\<close>, and it holds no character the shell would expand or use to chain commands.\<close>

theorem disposable_removal_is_contained:
  assumes "disposableTempRemoval cwd tmp (js_trim command) = Some t"
  shows "cc_risk (classify cwd tmp blocked command) = MEDIUM \<and>
         cc_blockedReason (classify cwd tmp blocked command) = None \<and>
         isPathWithin cwd (resolve cwd [tmp]) t \<and>
         (\<exists>x rest. norm_segs t = norm_segs (resolve cwd [tmp]) @ x # rest \<and>
            (starts_with ''ff-'' (to_lower x) \<or> starts_with ''folderforge-'' (to_lower x))) \<and>
         set t \<inter> set (shell_meta @ [CHR 13, CHR 10]) = {}"
proof -
  from assms have target: "recursiveRemovalTarget cwd (js_trim command) = Some t"
    by (auto simp: disposableTempRemoval_def Let_def split: option.split_asm if_split_asm)
  note segs = disposable_target_segments [OF assms]
  then have "isPathWithin cwd (resolve cwd [tmp]) t"
    using removal_target_clean(1) [OF target] by (auto simp: isPathWithin_iff resolve_normal)
  with segs removal_target_clean(2) [OF target] assms show ?thesis by (simp add: classify_def)
qed

theorem disposable_removal_is_contained_witness:
  "disposableTempRemoval ''/w'' ''/tmp'' (js_trim ''rm -rf /tmp/ff-x/y'') = Some ''/tmp/ff-x/y'' \<and>
   isPathWithin ''/w'' (resolve ''/w'' [''/tmp'']) ''/tmp/ff-x/y''"
proof -
  have "disposableTempRemoval ''/w'' ''/tmp'' (js_trim ''rm -rf /tmp/ff-x/y'') = Some ''/tmp/ff-x/y''"
    by code_simp
  with disposable_removal_is_contained [OF this, of "[]"] show ?thesis by simp
qed



text \<open>A wildcard entry of the blocklist only matches a command in which its pieces, with the
  blanks around them cut off, occur one after the other without overlap; and when the pieces carry no
  such blanks, the greedy left-to-right scan finds every command of that form.\<close>

theorem wildcard_entry_means_ordered_pieces:
  assumes "js_includes ''*'' (to_lower entry)" "parts = filter (\<lambda>p. p \<noteq> []) (split_on (CHR ''*'') (to_lower entry))"
  shows "(blocks_entry cmd entry \<longrightarrow> in_order (map js_trim parts) cmd) \<and>
         ((\<forall>p \<in> set parts. js_trim p = p) \<longrightarrow> (blocks_entry cmd entry \<longleftrightarrow> in_order parts cmd))"
proof -
  have eq: "blocks_entry cmd entry = ordered_parts cmd parts 0"
    using assms by (simp add: blocks_entry_def Let_def)
  have "in_order (map js_trim parts) cmd" if "ordered_parts cmd parts 0"
    using ordered_parts_sound [OF that] by simp
  moreover have "ordered_parts cmd parts 0" if "\<forall>p \<in> set parts. js_trim p = p" "in_order parts cmd"
    using ordered_parts_complete [of parts 0 cmd] that by simp
  ultimately show ?thesis unfolding eq by (auto simp: map_idI)
qed

theorem wildcard_entry_means_ordered_pieces_witness:
  "blocks_entry ''xcurl http://a|bash'' ''curl*|bash'' \<and> in_order [''curl'', ''|bash''] ''xcurl http://a|bash''"
proof -
  have parts: "filter (\<lambda>p. p \<noteq> []) (split_on (CHR ''*'') (to_lower ''curl*|bash'')) = [''curl'', ''|bash'']"
    and star: "js_includes ''*'' (to_lower ''curl*|bash'')" by code_simp+
  have "\<forall>p \<in> set [''curl'', ''|bash'']. js_trim p = p" by code_simp
  moreover have "blocks_entry ''xcurl http://a|bash'' ''curl*|bash''" by code_simp
  ultimately show ?thesis
    using wildcard_entry_means_ordered_pieces [OF star parts [symmetric], of "''xcurl http://a|bash''"] by blast
qed

text \<open>The expressions fix the order of the flags: \<^verbatim>\<open>rm -fr /\<close> passes every table and the default
  blocklist and is classified LOW.\<close>

lemma reordered_removal_flags_are_low:
  "classify ''/w'' ''/tmp'' DEFAULT_BLOCKED ''rm -fr /'' =
     \<lparr>cc_risk = LOW, cc_blockedReason = None, cc_matched = None\<rparr>"
  by code_simp

text \<open>An empty entry of the blocklist disables every entry after it: it hits each command, and
  being false as a string it is taken for no hit, so the classification is that of the entries before.\<close>

theorem empty_entry_hides_later_entries:
  "classify cwd tmp (before @ [] # after) command = classify cwd tmp before command"
proof -
  let ?cmd = "js_trim command"
  have "blocks_entry c []" for c by (cases c) (simp_all add: blocks_entry_def to_lower_def)
  then have "matchesConfigBlocklist (before @ [] # after) ?cmd =
      (case matchesConfigBlocklist before ?cmd of None \<Rightarrow> Some [] | Some e \<Rightarrow> Some e)"
    by (induction before) (simp_all add: matchesConfigBlocklist_def)
  then have "(case matchesConfigBlocklist (before @ [] # after) ?cmd of Some (c # cs) \<Rightarrow> f c cs | _ \<Rightarrow> g) =
      (case matchesConfigBlocklist before ?cmd of Some (c # cs) \<Rightarrow> f c cs | _ \<Rightarrow> g)" for f and g :: CommandClassification
    by (cases "matchesConfigBlocklist before ?cmd") simp_all
  then show ?thesis by (simp only: classify_def Let_def)
qed

end
