(* ===== verification/FF_Approvals.thy ===== *)
theory FF_Approvals
  imports FF_Json FF_Risk "HOL-Library.AList"
begin

text \<open>
  \<^verbatim>\<open>src/policy/approvals.ts\<close>: the approval queue.  A request is bound to its requester, its exact
  arguments and an expiry; an administrator resolves it for one call or for a session; a grant for
  one call is consumed by the call it matches.  Every transition is appended to a durable log and
  undone in memory when the append fails; a restart replays the log.

  What the engine takes from outside is the record \<open>approval_env\<close>: the hash, the collation, the
  sanitiser of recorded arguments, the successive readings of the clock, the successive random
  identifiers, and the outcome of the successive writes to the store.  A failing write may or may not
  have left the record in the file, and both outcomes are modelled.
\<close>

datatype ApprovalState = SPending | SApproved | SDenied | SExpired

datatype ApprovalScope = ScopeOnce | ScopeSession

record ApprovalBinding =
  b_principalId :: string
  b_clientId :: "string option"
  b_projectId :: "string option"
  b_sessionId :: "string option"
  b_capsuleId :: "string option"
  b_taskId :: "string option"

record ApprovalRequest =
  ar_id :: string
  ar_tool :: string
  ar_args :: jval
  ar_argsFingerprint :: "string option"
  ar_risk :: risk_level
  ar_reason :: string
  ar_state :: ApprovalState
  ar_requesterId :: string
  ar_binding :: "ApprovalBinding option"
  ar_requesterKey :: "string option"
  ar_approverId :: "string option"
  ar_createdAt :: int
  ar_expiresAt :: int
  ar_resolvedAt :: "int option"
  ar_consumedAt :: "int option"
  ar_scope :: ApprovalScope

text \<open>A record of the log.  Records of earlier versions may lack the requester and the expiry.\<close>

record stored_approval =
  st_request :: ApprovalRequest
  st_hasRequester :: bool
  st_hasExpiry :: bool

datatype store_outcome = StoreOk | StoreFailed | StoreFailedWritten

record approval_env =
  ae_sha256 :: "string \<Rightarrow> string"
  ae_lc :: "string \<Rightarrow> string \<Rightarrow> bool"
  ae_sanitize :: "jval \<Rightarrow> jval"
  ae_ttl :: int
  ae_restoreSession :: bool
  ae_hasStore :: bool
  ae_now :: "nat \<Rightarrow> int"
  ae_uuid :: "nat \<Rightarrow> string"
  ae_store :: "nat \<Rightarrow> store_outcome"

record approval_state =
  as_requests :: "(string \<times> ApprovalRequest) list"
  as_session :: "string list"
  as_stored :: "stored_approval list"
  as_reads :: nat
  as_draws :: nat
  as_writes :: nat

section \<open>Keys and evidence\<close>

definition fingerprint :: "approval_env \<Rightarrow> jval \<Rightarrow> string" where
  "fingerprint env args = ''sha256:'' @ ae_sha256 env (template (canonical (ae_lc env) args))"

definition approvalBinding :: "tool_principal \<Rightarrow> ApprovalBinding" where
  "approvalBinding requester =
     \<lparr>b_principalId = p_id requester, b_clientId = truthy (p_oauthClientId requester),
      b_projectId = truthy (p_projectId requester), b_sessionId = truthy (p_sessionId requester),
      b_capsuleId = truthy (p_capsuleId requester), b_taskId = truthy (p_taskId requester)\<rparr>"

text \<open>The binding as an object: a field that was left out has no entry.\<close>

definition binding_object :: "ApprovalBinding \<Rightarrow> jobject" where
  "binding_object b =
     (''principalId'', JStr (b_principalId b)) #
     opt_entry ''clientId'' (b_clientId b) @ opt_entry ''projectId'' (b_projectId b) @
     opt_entry ''sessionId'' (b_sessionId b) @ opt_entry ''capsuleId'' (b_capsuleId b) @
     opt_entry ''taskId'' (b_taskId b)"

definition bindingKey :: "approval_env \<Rightarrow> ApprovalBinding \<Rightarrow> string" where
  "bindingKey env b =
     (let contextual = list_ex (\<lambda>(k, v). k \<noteq> ''principalId'') (binding_object b)
      in if \<not> contextual then b_principalId b
         else ''binding:sha256:'' @ ae_sha256 env (template (canonical (ae_lc env) (JObj (binding_object b)))))"

text \<open>The ellipsis U+2026 is one code unit outside the 8-bit range; it is written as the code unit
  133 here.\<close>

definition ellipsis :: string where
  "ellipsis = [CHR 133]"

function boundedEvidence :: "nat \<Rightarrow> jval \<Rightarrow> jval" where
  "boundedEvidence depth v =
     (if depth \<ge> 5 then JStr ''[TRUNCATED: depth]''
      else case v of
        JStr s \<Rightarrow> if length s > 1024 then JStr (take 1024 s @ ellipsis @ ''[TRUNCATED]'') else JStr s
      | JArr vs \<Rightarrow>
          JArr (map (boundedEvidence (depth + 1)) (take 20 vs) @
                (if length vs > 20
                 then [JStr (''[TRUNCATED: '' @ show_nat (length vs - 20) @ '' items]'')] else []))
      | JObj kvs \<Rightarrow>
          let bounded = map (\<lambda>(k, child). (k, boundedEvidence (depth + 1) child)) (take 20 kvs)
          in JObj (if length kvs > 20
                   then AList.update ''__truncated'' (JStr (show_nat (length kvs - 20) @ '' fields'')) bounded
                   else bounded)
      | _ \<Rightarrow> v)"
  by pat_completeness auto

termination
  by (relation "measure (\<lambda>(depth, v). 5 - depth)") auto

declare boundedEvidence.simps [simp del]

section \<open>The engine\<close>

definition sessionKey :: "string \<Rightarrow> string \<Rightarrow> string" where
  "sessionKey tool requesterKey = requesterKey @ [CHR 0x00] @ tool"

definition now_A :: "approval_env \<Rightarrow> (approval_state, int) act" where
  "now_A env s = (Inr (ae_now env (as_reads s)), s\<lparr>as_reads := Suc (as_reads s)\<rparr>)"

definition snapshot_of :: "ApprovalRequest \<Rightarrow> stored_approval" where
  "snapshot_of r = \<lparr>st_request = r, st_hasRequester = True, st_hasExpiry = True\<rparr>"

definition append_A :: "approval_env \<Rightarrow> ApprovalRequest \<Rightarrow> (approval_state, unit) act" where
  "append_A env r s =
     (if \<not> ae_hasStore env then (Inr (), s)
      else
        let s1 = s\<lparr>as_writes := Suc (as_writes s)\<rparr>;
            s2 = s1\<lparr>as_stored := as_stored s @ [snapshot_of r]\<rparr>
        in case ae_store env (as_writes s) of
             StoreOk \<Rightarrow> (Inr (), s2)
           | StoreFailed \<Rightarrow> (Inl (StoreError ''append''), s1)
           | StoreFailedWritten \<Rightarrow> (Inl (StoreError ''append''), s2))"

definition compact_A :: "approval_env \<Rightarrow> (approval_state, unit) act" where
  "compact_A env s =
     (if \<not> ae_hasStore env then (Inr (), s)
      else
        let s1 = s\<lparr>as_writes := Suc (as_writes s)\<rparr>;
            s2 = s1\<lparr>as_stored := map (snapshot_of \<circ> snd) (as_requests s)\<rparr>
        in case ae_store env (as_writes s) of
             StoreOk \<Rightarrow> (Inr (), s2)
           | StoreFailed \<Rightarrow> (Inl (StoreError ''replaceAll''), s1)
           | StoreFailedWritten \<Rightarrow> (Inl (StoreError ''replaceAll''), s2))"

text \<open>Requests are objects shared with the map, so changing one changes its entry.\<close>

definition put_request :: "ApprovalRequest \<Rightarrow> approval_state \<Rightarrow> approval_state" where
  "put_request r s = s\<lparr>as_requests := AList.update (ar_id r) r (as_requests s)\<rparr>"

text \<open>Change a request, append it, and restore the old fields when the append throws.\<close>

definition commit_A :: "approval_env \<Rightarrow> ApprovalRequest \<Rightarrow> ApprovalRequest \<Rightarrow> (approval_state, unit) act" where
  "commit_A env old new =
     bindA (modifyA (put_request new)) (\<lambda>_. onErrorA (append_A env new) (put_request old))"

definition new_request :: "approval_env \<Rightarrow> string \<Rightarrow> jval \<Rightarrow> risk_level \<Rightarrow> string \<Rightarrow> tool_principal \<Rightarrow>
    int \<Rightarrow> nat \<Rightarrow> ApprovalRequest" where
  "new_request env tool args risk reason requester createdAt draw =
     (let binding = approvalBinding requester
      in \<lparr>ar_id = ''appr_'' @ take 8 (ae_uuid env draw), ar_tool = tool,
          ar_args = ae_sanitize env (boundedEvidence 0 args),
          ar_argsFingerprint = Some (fingerprint env args), ar_risk = risk, ar_reason = reason,
          ar_state = SPending, ar_requesterId = b_principalId binding, ar_binding = Some binding,
          ar_requesterKey = Some (bindingKey env binding), ar_approverId = None,
          ar_createdAt = createdAt, ar_expiresAt = createdAt + ae_ttl env,
          ar_resolvedAt = None, ar_consumedAt = None, ar_scope = ScopeOnce\<rparr>)"

definition create :: "approval_env \<Rightarrow> string \<Rightarrow> jval \<Rightarrow> risk_level \<Rightarrow> string \<Rightarrow> tool_principal \<Rightarrow>
    (approval_state, ApprovalRequest) act" where
  "create env tool args risk reason requester =
     bindA (now_A env) (\<lambda>createdAt s.
       let req = new_request env tool args risk reason requester createdAt (as_draws s)
       in bindA (append_A env req) (\<lambda>_. bindA (modifyA (put_request req)) (\<lambda>_. retA req))
            (s\<lparr>as_draws := Suc (as_draws s)\<rparr>))"

definition isSessionAllowed :: "approval_env \<Rightarrow> string \<Rightarrow> tool_principal \<Rightarrow> approval_state \<Rightarrow> bool" where
  "isSessionAllowed env tool requester s =
     (sessionKey tool (bindingKey env (approvalBinding requester)) \<in> set (as_session s))"

definition requester_key :: "ApprovalRequest \<Rightarrow> string" where
  "requester_key r = (case ar_requesterKey r of Some k \<Rightarrow> k | None \<Rightarrow> ar_requesterId r)"

definition args_print :: "approval_env \<Rightarrow> ApprovalRequest \<Rightarrow> string" where
  "args_print env r = (case ar_argsFingerprint r of Some f \<Rightarrow> f | None \<Rightarrow> fingerprint env (ar_args r))"

definition grants :: "approval_env \<Rightarrow> string \<Rightarrow> jval \<Rightarrow> tool_principal \<Rightarrow> ApprovalRequest \<Rightarrow> bool" where
  "grants env tool args requester r \<longleftrightarrow>
     requester_key r = bindingKey env (approvalBinding requester) \<and> ar_tool r = tool \<and>
     ar_state r = SApproved \<and> ar_scope r = ScopeOnce \<and> ar_consumedAt r = None \<and>
     args_print env r = fingerprint env args"

text \<open>The oldest matching grant.\<close>

definition once_match :: "approval_env \<Rightarrow> string \<Rightarrow> jval \<Rightarrow> tool_principal \<Rightarrow> approval_state \<Rightarrow>
    ApprovalRequest option" where
  "once_match env tool args requester s =
     (case sort_by (\<lambda>a b. ar_createdAt a \<le> ar_createdAt b)
             (filter (grants env tool args requester) (map snd (as_requests s))) of
        [] \<Rightarrow> None | r # _ \<Rightarrow> Some r)"

definition consumeOnce :: "approval_env \<Rightarrow> string \<Rightarrow> jval \<Rightarrow> tool_principal \<Rightarrow> (approval_state, bool) act" where
  "consumeOnce env tool args requester s =
     (case once_match env tool args requester s of
        None \<Rightarrow> (Inr False, s)
      | Some m \<Rightarrow>
          bindA (now_A env) (\<lambda>t.
          bindA (commit_A env m (m\<lparr>ar_consumedAt := Some t\<rparr>)) (\<lambda>_. retA True)) s)"

definition expireIfNeeded :: "approval_env \<Rightarrow> bool \<Rightarrow> string \<Rightarrow> (approval_state, unit) act" where
  "expireIfNeeded env doAppend rid s =
     (case map_of (as_requests s) rid of
        None \<Rightarrow> (Inr (), s)
      | Some r \<Rightarrow>
          if ar_state r \<noteq> SPending then (Inr (), s)
          else bindA (now_A env) (\<lambda>t1.
            if t1 < ar_expiresAt r then retA ()
            else bindA (now_A env) (\<lambda>t2.
              let new = r\<lparr>ar_state := SExpired, ar_resolvedAt := Some t2\<rparr>
              in if \<not> doAppend then modifyA (put_request new) else commit_A env r new)) s)"

definition expirePending :: "approval_env \<Rightarrow> bool \<Rightarrow> (approval_state, unit) act" where
  "expirePending env doAppend s = forA (expireIfNeeded env doAppend) (map fst (as_requests s)) s"

definition add_key :: "string \<Rightarrow> string list \<Rightarrow> string list" where
  "add_key k ks = (if k \<in> set ks then ks else ks @ [k])"

definition session_grant :: "ApprovalRequest \<Rightarrow> string" where
  "session_grant r = sessionKey (ar_tool r) (requester_key r)"

definition approved_by :: "ApprovalRequest \<Rightarrow> ApprovalScope \<Rightarrow> string \<Rightarrow> int \<Rightarrow> ApprovalRequest" where
  "approved_by req scope approverId t =
     req\<lparr>ar_state := SApproved, ar_scope := scope, ar_approverId := Some approverId, ar_resolvedAt := Some t\<rparr>"

text \<open>The transition of a pending request, with the undo of a failed append.\<close>

definition approve_pending :: "approval_env \<Rightarrow> ApprovalRequest \<Rightarrow> ApprovalScope \<Rightarrow> string \<Rightarrow>
    (approval_state, ApprovalRequest option) act" where
  "approve_pending env req scope approverId s =
     (let key = session_grant req;
          was = key \<in> set (as_session s)
      in bindA (now_A env) (\<lambda>t.
           let new = approved_by req scope approverId t
           in bindA (modifyA (put_request new)) (\<lambda>_.
              bindA (modifyA (\<lambda>u. if scope = ScopeSession then u\<lparr>as_session := add_key key (as_session u)\<rparr> else u)) (\<lambda>_.
              bindA (onErrorA (append_A env new)
                (\<lambda>u. let v = put_request req u
                     in if \<not> was then v\<lparr>as_session := filter (\<lambda>k. k \<noteq> key) (as_session v)\<rparr> else v)) (\<lambda>_.
              retA (Some new))))) s)"

definition approve :: "approval_env \<Rightarrow> string \<Rightarrow> ApprovalScope \<Rightarrow> string \<Rightarrow>
    (approval_state, ApprovalRequest option) act" where
  "approve env rid scope approverId s0 =
     (case map_of (as_requests s0) rid of
        None \<Rightarrow> (Inr None, s0)
      | Some _ \<Rightarrow>
          bindA (expireIfNeeded env True rid) (\<lambda>_ s.
            case map_of (as_requests s) rid of
              None \<Rightarrow> (Inr None, s)
            | Some req \<Rightarrow>
                if ar_state req = SExpired then (Inl (ApprovalExpired rid), s)
                else if ar_state req \<noteq> SPending then (Inr (Some req), s)
                else if ar_requesterId req = approverId then (Inl (ApprovalSelf rid), s)
                else approve_pending env req scope approverId s) s0)"

definition deny_pending :: "approval_env \<Rightarrow> ApprovalRequest \<Rightarrow> string \<Rightarrow> (approval_state, ApprovalRequest option) act" where
  "deny_pending env req approverId =
     bindA (now_A env) (\<lambda>t.
       let new = req\<lparr>ar_state := SDenied, ar_approverId := Some approverId, ar_resolvedAt := Some t\<rparr>
       in bindA (commit_A env req new) (\<lambda>_. retA (Some new)))"

definition deny :: "approval_env \<Rightarrow> string \<Rightarrow> string \<Rightarrow> (approval_state, ApprovalRequest option) act" where
  "deny env rid approverId s0 =
     (case map_of (as_requests s0) rid of
        None \<Rightarrow> (Inr None, s0)
      | Some _ \<Rightarrow>
          bindA (expireIfNeeded env True rid) (\<lambda>_ s.
            case map_of (as_requests s) rid of
              None \<Rightarrow> (Inr None, s)
            | Some req \<Rightarrow>
                if ar_state req = SExpired then (Inl (ApprovalExpired rid), s)
                else if ar_state req \<noteq> SPending then (Inr (Some req), s)
                else deny_pending env req approverId s) s0)"

definition get_request :: "approval_env \<Rightarrow> string \<Rightarrow> (approval_state, ApprovalRequest option) act" where
  "get_request env rid = bindA (expireIfNeeded env True rid) (\<lambda>_. getsA (\<lambda>s. map_of (as_requests s) rid))"

definition pending :: "approval_env \<Rightarrow> (approval_state, ApprovalRequest list) act" where
  "pending env =
     bindA (expirePending env True)
       (\<lambda>_. getsA (\<lambda>s. filter (\<lambda>r. ar_state r = SPending) (map snd (as_requests s))))"

definition all_requests :: "approval_env \<Rightarrow> (approval_state, ApprovalRequest list) act" where
  "all_requests env =
     bindA (expirePending env True)
       (\<lambda>_. getsA (\<lambda>s. sort_by (\<lambda>a b. ar_createdAt b \<le> ar_createdAt a) (map snd (as_requests s))))"

section \<open>Restart\<close>

definition upgrade :: "approval_env \<Rightarrow> stored_approval \<Rightarrow> ApprovalRequest" where
  "upgrade env st =
     (let r = st_request st;
          requesterId = (if st_hasRequester st then ar_requesterId r else ''legacy:unknown'');
          binding = (case ar_binding r of
              Some b \<Rightarrow> b
            | None \<Rightarrow> \<lparr>b_principalId = requesterId, b_clientId = None, b_projectId = None,
                       b_sessionId = None, b_capsuleId = None, b_taskId = None\<rparr>)
      in r\<lparr>ar_argsFingerprint := Some (args_print env r),
           ar_args := ae_sanitize env (boundedEvidence 0 (ar_args r)),
           ar_requesterId := requesterId, ar_binding := Some binding,
           ar_requesterKey := Some (case ar_requesterKey r of Some k \<Rightarrow> k | None \<Rightarrow> bindingKey env binding),
           ar_expiresAt := (if st_hasExpiry st then ar_expiresAt r else ar_createdAt r + ae_ttl env)\<rparr>)"

text \<open>The constructor on an existing store: a new process starts with nothing in memory.\<close>

definition load_A :: "approval_env \<Rightarrow> (approval_state, unit) act" where
  "load_A env =
     bindA (modifyA (\<lambda>s. fold (\<lambda>st. put_request (upgrade env st)) (as_stored s) s)) (\<lambda>_.
     bindA (expirePending env False) (\<lambda>_.
     bindA (modifyA (\<lambda>s.
       if ae_restoreSession env then
         s\<lparr>as_session := fold (\<lambda>r. add_key (session_grant r))
              (filter (\<lambda>r. ar_state r = SApproved \<and> ar_scope r = ScopeSession) (map snd (as_requests s)))
              (as_session s)\<rparr>
       else s)) (\<lambda>_.
     compact_A env)))"

definition new_ApprovalEngine :: "approval_env \<Rightarrow> (approval_state, unit) act" where
  "new_ApprovalEngine env s =
     (let s0 = s\<lparr>as_requests := [], as_session := []\<rparr>
      in if ae_hasStore env then load_A env s0 else (Inr (), s0))"

section \<open>The transitions of the queue\<close>

text \<open>Every operation is a sequence of these transitions of the part of the state that decisions
  read: the requests in memory, the session keys and the log.  \<open>_lost\<close> is the transition whose append
  failed after the record had reached the file: memory is unchanged, the log is longer.\<close>

definition approval_id :: "approval_env \<Rightarrow> nat \<Rightarrow> string" where
  "approval_id env j = ''appr_'' @ take 8 (ae_uuid env j)"

definition resolves :: "ApprovalRequest \<Rightarrow> ApprovalRequest \<Rightarrow> bool" where
  "resolves r r' \<longleftrightarrow>
     ar_state r = SPending \<and> ar_state r' \<noteq> SPending \<and> ar_id r' = ar_id r \<and> ar_tool r' = ar_tool r \<and>
     ar_requesterId r' = ar_requesterId r \<and> requester_key r' = requester_key r \<and>
     ar_argsFingerprint r' = ar_argsFingerprint r \<and> ar_args r' = ar_args r \<and>
     ar_consumedAt r' = ar_consumedAt r \<and>
     (ar_state r' = SApproved \<longrightarrow> (\<exists>a. ar_approverId r' = Some a \<and> a \<noteq> ar_requesterId r))"

definition consumes_grant :: "ApprovalRequest \<Rightarrow> ApprovalRequest \<Rightarrow> bool" where
  "consumes_grant r r' \<longleftrightarrow>
     ar_state r = SApproved \<and> ar_scope r = ScopeOnce \<and> ar_consumedAt r = None \<and>
     (\<exists>t. r' = r\<lparr>ar_consumedAt := Some t\<rparr>)"

definition logged :: "approval_env \<Rightarrow> ApprovalRequest \<Rightarrow> approval_state \<Rightarrow> stored_approval list" where
  "logged env r s = (if ae_hasStore env then as_stored s @ [snapshot_of r] else as_stored s)"

definition fresh_request :: "ApprovalRequest \<Rightarrow> bool" where
  "fresh_request r \<longleftrightarrow> ar_state r = SPending \<and> ar_consumedAt r = None"

definition issued :: "approval_env \<Rightarrow> approval_state \<Rightarrow> string \<Rightarrow> bool" where
  "issued env s i \<longleftrightarrow> (\<exists>j < as_draws s. i = approval_id env j)"

inductive ap_step :: "approval_env \<Rightarrow> approval_state \<Rightarrow> approval_state \<Rightarrow> bool" for env where
  tick: "as_requests s' = as_requests s \<Longrightarrow> as_session s' = as_session s \<Longrightarrow> as_stored s' = as_stored s \<Longrightarrow>
     as_draws s \<le> as_draws s' \<Longrightarrow> ap_step env s s'"
| filed: "fresh_request r \<Longrightarrow> ar_id r = approval_id env (as_draws s) \<Longrightarrow> as_draws s' = Suc (as_draws s) \<Longrightarrow>
     \<not> issued env s (ar_id r) \<Longrightarrow>
     as_requests s' = AList.update (ar_id r) r (as_requests s) \<Longrightarrow> as_session s' = as_session s \<Longrightarrow>
     as_stored s' = logged env r s \<Longrightarrow> ap_step env s s'"
| filed_lost: "fresh_request r \<Longrightarrow> ar_id r = approval_id env (as_draws s) \<Longrightarrow> as_draws s' = Suc (as_draws s) \<Longrightarrow>
     \<not> issued env s (ar_id r) \<Longrightarrow>
     as_requests s' = as_requests s \<Longrightarrow> as_session s' = as_session s \<Longrightarrow>
     as_stored s' = logged env r s \<Longrightarrow> ap_step env s s'"
| change: "map_of (as_requests s) (ar_id r) = Some r \<Longrightarrow> resolves r r' \<or> consumes_grant r r' \<Longrightarrow>
     as_draws s' = as_draws s \<Longrightarrow> as_requests s' = AList.update (ar_id r) r' (as_requests s) \<Longrightarrow>
     as_session s' = as_session s \<or>
       ar_state r' = SApproved \<and> ar_scope r' = ScopeSession \<and> as_session s' = add_key (session_grant r') (as_session s) \<Longrightarrow>
     as_stored s' = logged env r' s \<or> as_stored s' = as_stored s \<and> ar_consumedAt r' = None \<Longrightarrow> ap_step env s s'"
| change_lost: "map_of (as_requests s) (ar_id r) = Some r \<Longrightarrow> resolves r r' \<or> consumes_grant r r' \<Longrightarrow>
     as_draws s' = as_draws s \<Longrightarrow> as_requests s' = as_requests s \<Longrightarrow> as_session s' = as_session s \<Longrightarrow>
     as_stored s' = logged env r' s \<Longrightarrow> ap_step env s s'"
| boot: "as_requests s' =
       (if ae_hasStore env then fold (\<lambda>st. AList.update (ar_id (st_request st)) (upgrade env st)) (as_stored s) [] else []) \<Longrightarrow>
     as_session s' = [] \<Longrightarrow> as_stored s' = as_stored s \<Longrightarrow> as_draws s' = as_draws s \<Longrightarrow> ap_step env s s'"
| rearm: "as_requests s' = as_requests s \<Longrightarrow> as_stored s' = as_stored s \<Longrightarrow> as_draws s' = as_draws s \<Longrightarrow>
     \<forall>k \<in> set (as_session s'). k \<in> set (as_session s) \<or>
       (\<exists>i r. (i, r) \<in> set (as_requests s) \<and> ar_state r = SApproved \<and> ar_scope r = ScopeSession \<and>
          k = session_grant r) \<Longrightarrow>
     ap_step env s s'"
| compacted: "as_requests s' = as_requests s \<Longrightarrow> as_session s' = as_session s \<Longrightarrow> as_draws s' = as_draws s \<Longrightarrow>
     as_stored s' = map (snapshot_of \<circ> snd) (as_requests s) \<Longrightarrow> ap_step env s s'"

abbreviation ap_steps :: "approval_env \<Rightarrow> approval_state \<Rightarrow> approval_state \<Rightarrow> bool" where
  "ap_steps env \<equiv> (ap_step env)\<^sup>*\<^sup>*"

lemma tick_steps:
  "as_requests s' = as_requests s \<Longrightarrow> as_session s' = as_session s \<Longrightarrow> as_stored s' = as_stored s \<Longrightarrow>
     as_draws s' = as_draws s \<Longrightarrow> ap_steps env s s'"
  by (auto intro!: r_into_rtranclp tick)

text \<open>The invariant of the memory and the log.\<close>

definition request_ok :: "ApprovalRequest \<Rightarrow> bool" where
  "request_ok r \<longleftrightarrow>
     (ar_state r = SApproved \<longrightarrow> (\<exists>a. ar_approverId r = Some a \<and> a \<noteq> ar_requesterId r)) \<and>
     (ar_consumedAt r \<noteq> None \<longrightarrow> ar_state r = SApproved \<and> ar_scope r = ScopeOnce)"

definition approvals_inv :: "approval_env \<Rightarrow> approval_state \<Rightarrow> bool" where
  "approvals_inv env s \<longleftrightarrow>
     distinct (map fst (as_requests s)) \<and>
     (\<forall>(k, r) \<in> set (as_requests s). ar_id r = k \<and> request_ok r \<and> issued env s k) \<and>
     (\<forall>st \<in> set (as_stored s). st_hasRequester st \<and> request_ok (st_request st) \<and> issued env s (ar_id (st_request st))) \<and>
     (\<forall>k \<in> set (as_session s). \<exists>i r. (i, r) \<in> set (as_requests s) \<and>
        ar_state r = SApproved \<and> ar_scope r = ScopeSession \<and> k = session_grant r)"

text \<open>A grant is used up when neither memory nor the log can offer it again.\<close>

definition latest :: "string \<Rightarrow> stored_approval list \<Rightarrow> stored_approval option" where
  "latest i sts = find (\<lambda>st. ar_id (st_request st) = i) (rev sts)"

definition used_up :: "approval_env \<Rightarrow> string \<Rightarrow> approval_state \<Rightarrow> bool" where
  "used_up env i s \<longleftrightarrow>
     issued env s i \<and>
     (\<forall>r. map_of (as_requests s) i = Some r \<longrightarrow> ar_consumedAt r \<noteq> None) \<and>
     (ae_hasStore env \<longrightarrow> (\<forall>st. latest i (as_stored s) = Some st \<longrightarrow> ar_consumedAt (st_request st) \<noteq> None))"

lemma latest_snoc: "latest i (sts @ [st]) = (if ar_id (st_request st) = i then Some st else latest i sts)"
  by (simp add: latest_def)

lemma latest_mem: "latest i sts = Some st \<Longrightarrow> st \<in> set sts \<and> ar_id (st_request st) = i"
  using find_SomeD [of "\<lambda>st. ar_id (st_request st) = i" "rev sts" st] by (simp add: latest_def)

lemma map_of_replay:
  "map_of (fold (\<lambda>st. AList.update (ar_id (st_request st)) (f st)) sts acc) i =
     (case latest i sts of Some st \<Rightarrow> Some (f st) | None \<Rightarrow> map_of acc i)"
  by (induction sts arbitrary: acc rule: rev_induct) (auto simp: latest_snoc update_conv' latest_def)

lemma snapshot_simps [simp]:
  "st_request (snapshot_of r) = r" "st_hasRequester (snapshot_of r)"
  by (simp_all add: snapshot_of_def)

lemma latest_snapshots:
  "distinct (map fst rs) \<Longrightarrow> \<forall>(k, r) \<in> set rs. ar_id r = k \<Longrightarrow>
     latest i (map (snapshot_of \<circ> snd) rs) = map_option snapshot_of (map_of rs i)"
proof (induction rs rule: rev_induct)
  case (snoc kr rs)
  obtain k r where kr: "kr = (k, r)" by (cases kr)
  have "ar_id r = k" "map_of rs k = None"
    using snoc.prems kr by (auto simp: map_of_eq_None_iff)
  moreover have "latest i (map (snapshot_of \<circ> snd) rs) = map_option snapshot_of (map_of rs i)"
    by (rule snoc.IH) (use snoc.prems in auto)
  ultimately show ?case by (auto simp: kr latest_snoc map_add_def comp_def split: option.split)
qed (simp add: latest_def)

lemma upgrade_simps [simp]:
  "ar_id (upgrade env st) = ar_id (st_request st)"
  "ar_state (upgrade env st) = ar_state (st_request st)"
  "ar_scope (upgrade env st) = ar_scope (st_request st)"
  "ar_tool (upgrade env st) = ar_tool (st_request st)"
  "ar_approverId (upgrade env st) = ar_approverId (st_request st)"
  "ar_consumedAt (upgrade env st) = ar_consumedAt (st_request st)"
  "st_hasRequester st \<Longrightarrow> ar_requesterId (upgrade env st) = ar_requesterId (st_request st)"
  by (simp_all add: upgrade_def Let_def)

lemma request_ok_upgrade: "st_hasRequester st \<Longrightarrow> request_ok (st_request st) \<Longrightarrow> request_ok (upgrade env st)"
  by (simp add: request_ok_def)

lemma request_ok_change:
  "request_ok r \<Longrightarrow> resolves r r' \<or> consumes_grant r r' \<Longrightarrow> request_ok r' \<and> ar_id r' = ar_id r"
  by (auto simp: request_ok_def resolves_def consumes_grant_def)

lemma request_ok_fresh: "fresh_request r \<Longrightarrow> request_ok r"
  by (simp add: request_ok_def fresh_request_def)

lemma set_alist_update:
  "distinct (map fst al) \<Longrightarrow> (a, b) \<in> set (AList.update k v al) \<longleftrightarrow> (if a = k then b = v else (a, b) \<in> set al)"
proof -
  assume d: "distinct (map fst al)"
  have "(a, b) \<in> set (AList.update k v al) \<longleftrightarrow> map_of (AList.update k v al) a = Some b"
    using distinct_update [OF d, of k v] by simp
  also have "\<dots> \<longleftrightarrow> (if a = k then b = v else map_of al a = Some b)" by (auto simp: update_conv')
  finally show ?thesis using d by simp
qed

lemma issued_mono: "issued env s i \<Longrightarrow> as_draws s \<le> as_draws s' \<Longrightarrow> issued env s' i"
  by (auto simp: issued_def intro: less_le_trans)

lemma approvals_inv_I:
  assumes "distinct (map fst (as_requests s))"
    and "\<And>k r. (k, r) \<in> set (as_requests s) \<Longrightarrow> ar_id r = k \<and> request_ok r \<and> issued env s k"
    and "\<And>st. st \<in> set (as_stored s) \<Longrightarrow>
      st_hasRequester st \<and> request_ok (st_request st) \<and> issued env s (ar_id (st_request st))"
    and "\<And>k. k \<in> set (as_session s) \<Longrightarrow> \<exists>i r. (i, r) \<in> set (as_requests s) \<and>
        ar_state r = SApproved \<and> ar_scope r = ScopeSession \<and> k = session_grant r"
  shows "approvals_inv env s"
  using assms unfolding approvals_inv_def by blast

lemma approvals_invD:
  assumes "approvals_inv env s"
  shows "distinct (map fst (as_requests s))"
    and "(k, r) \<in> set (as_requests s) \<Longrightarrow> ar_id r = k \<and> request_ok r \<and> issued env s k"
    and "st \<in> set (as_stored s) \<Longrightarrow>
      st_hasRequester st \<and> request_ok (st_request st) \<and> issued env s (ar_id (st_request st))"
    and "x \<in> set (as_session s) \<Longrightarrow> \<exists>i r. (i, r) \<in> set (as_requests s) \<and>
        ar_state r = SApproved \<and> ar_scope r = ScopeSession \<and> x = session_grant r"
  subgoal using assms by (simp add: approvals_inv_def)
  subgoal using assms unfolding approvals_inv_def by blast
  subgoal using assms unfolding approvals_inv_def by blast
  subgoal using assms unfolding approvals_inv_def by blast
  done

lemma issued_new: "as_draws s' = Suc (as_draws s) \<Longrightarrow> issued env s' (approval_id env (as_draws s))"
  by (auto simp: issued_def)

lemma inv_filed:
  assumes inv: "approvals_inv env s"
    and r: "fresh_request r" "ar_id r = approval_id env (as_draws s)" "as_draws s' = Suc (as_draws s)"
      "\<not> issued env s (ar_id r)"
    and req: "as_requests s' = AList.update (ar_id r) r (as_requests s) \<or> as_requests s' = as_requests s"
    and ses: "as_session s' = as_session s" and sto: "as_stored s' = logged env r s"
  shows "approvals_inv env s'"
proof (rule approvals_inv_I)
  note D = approvals_invD [OF inv]
  have up: "issued env s' i" if "issued env s i" for i
    by (rule issued_mono [OF that]) (use r(3) in simp)
  have new: "issued env s' (ar_id r)" unfolding r(2) by (rule issued_new [OF r(3)])
  have not_old: "(ar_id r, x) \<notin> set (as_requests s)" for x
    using D(2) [of "ar_id r" x] r(4) by auto
  show "distinct (map fst (as_requests s'))" using req D(1) by (auto simp: distinct_update)
  show "ar_id x = k \<and> request_ok x \<and> issued env s' k" if "(k, x) \<in> set (as_requests s')" for k x
    using req that D(2) [of k x] up new request_ok_fresh [OF r(1)]
    by (auto simp: set_alist_update [OF D(1)] split: if_split_asm)
  show "st_hasRequester st \<and> request_ok (st_request st) \<and> issued env s' (ar_id (st_request st))"
    if "st \<in> set (as_stored s')" for st
    using that D(3) [of st] up new request_ok_fresh [OF r(1)]
    by (auto simp: sto logged_def split: if_split_asm)
  show "\<exists>i x. (i, x) \<in> set (as_requests s') \<and> ar_state x = SApproved \<and> ar_scope x = ScopeSession \<and> k = session_grant x"
    if "k \<in> set (as_session s')" for k
  proof -
    from that ses D(4) [of k] obtain i x where x: "(i, x) \<in> set (as_requests s)" "ar_state x = SApproved"
      "ar_scope x = ScopeSession" "k = session_grant x" by auto
    with not_old have "i \<noteq> ar_id r" by metis
    with x req D(1) show ?thesis by (intro exI [of _ i] exI [of _ x]) (auto simp: set_alist_update)
  qed
qed

lemma change_keeps_session:
  "resolves r r' \<or> consumes_grant r r' \<Longrightarrow> \<not> (ar_state r = SApproved \<and> ar_scope r = ScopeSession)"
  by (auto simp: resolves_def consumes_grant_def)

lemma inv_change:
  assumes inv: "approvals_inv env s" and r: "map_of (as_requests s) (ar_id r) = Some r"
    and c: "resolves r r' \<or> consumes_grant r r'" and d: "as_draws s' = as_draws s"
    and req: "as_requests s' = AList.update (ar_id r) r' (as_requests s) \<or>
              as_requests s' = as_requests s \<and> as_session s' = as_session s"
    and ses: "as_session s' = as_session s \<or>
       ar_state r' = SApproved \<and> ar_scope r' = ScopeSession \<and> as_session s' = add_key (session_grant r') (as_session s)"
    and sto: "as_stored s' = logged env r' s \<or> as_stored s' = as_stored s"
  shows "approvals_inv env s'"
proof (rule approvals_inv_I)
  note D = approvals_invD [OF inv]
  have mem: "(ar_id r, r) \<in> set (as_requests s)" using r by (rule map_of_SomeD)
  have iss: "issued env s' i = issued env s i" for i using d by (simp add: issued_def)
  have r': "request_ok r'" "ar_id r' = ar_id r" using request_ok_change [OF _ c] D(2) [OF mem] by auto
  show "distinct (map fst (as_requests s'))" using req D(1) by (auto simp: distinct_update)
  show "ar_id x = k \<and> request_ok x \<and> issued env s' k" if "(k, x) \<in> set (as_requests s')" for k x
  proof (cases "(k, x) \<in> set (as_requests s)")
    case True
    from D(2) [OF this] show ?thesis by (simp only: iss)
  next
    case False
    with that req have "k = ar_id r" "x = r'" by (auto simp: set_alist_update [OF D(1)] split: if_split_asm)
    with D(2) [OF mem] r' show ?thesis by (simp only: iss)
  qed
  show "st_hasRequester st \<and> request_ok (st_request st) \<and> issued env s' (ar_id (st_request st))"
    if "st \<in> set (as_stored s')" for st
  proof (cases "st \<in> set (as_stored s)")
    case True
    from D(3) [OF this] show ?thesis by (simp only: iss)
  next
    case False
    with that sto have "st = snapshot_of r'" by (auto simp: logged_def split: if_split_asm)
    with D(2) [OF mem] r' show ?thesis by (simp add: iss)
  qed
  show "\<exists>i x. (i, x) \<in> set (as_requests s') \<and> ar_state x = SApproved \<and> ar_scope x = ScopeSession \<and> k = session_grant x"
    if k: "k \<in> set (as_session s')" for k
  proof (cases "k \<in> set (as_session s)")
    case True
    from D(4) [OF this] obtain i x where x: "(i, x) \<in> set (as_requests s)" "ar_state x = SApproved"
      "ar_scope x = ScopeSession" "k = session_grant x" by auto
    with change_keeps_session [OF c] have "x \<noteq> r" by auto
    moreover have "x = r" if "i = ar_id r" using x(1) mem D(1) that by (simp add: eq_key_imp_eq_value)
    ultimately have "i \<noteq> ar_id r" by blast
    with x req D(1) show ?thesis by (intro exI [of _ i] exI [of _ x]) (auto simp: set_alist_update)
  next
    case False
    with k ses req have "ar_state r' = SApproved" "ar_scope r' = ScopeSession" "k = session_grant r'"
      "as_requests s' = AList.update (ar_id r) r' (as_requests s)"
      by (auto simp: add_key_def split: if_split_asm)
    then show ?thesis using D(1) by (intro exI [of _ "ar_id r"] exI [of _ r']) (simp add: set_alist_update)
  qed
qed

lemma inv_boot:
  assumes inv: "approvals_inv env s"
    and req: "as_requests s' =
       (if ae_hasStore env then fold (\<lambda>st. AList.update (ar_id (st_request st)) (upgrade env st)) (as_stored s) [] else [])"
    and rest: "as_session s' = []" "as_stored s' = as_stored s" "as_draws s' = as_draws s"
  shows "approvals_inv env s'"
proof (rule approvals_inv_I)
  note D = approvals_invD [OF inv]
  have dist: "distinct (map fst (fold (\<lambda>st. AList.update (ar_id (st_request st)) (upgrade env st)) sts acc))"
    if "distinct (map fst acc)" for sts acc
    using that by (induction sts arbitrary: acc) (auto simp: distinct_update)
  then show d: "distinct (map fst (as_requests s'))" using req by simp
  have iss: "issued env s' i = issued env s i" for i using rest by (simp add: issued_def)
  show "ar_id x = k \<and> request_ok x \<and> issued env s' k" if "(k, x) \<in> set (as_requests s')" for k x
  proof -
    from that d have "map_of (as_requests s') k = Some x" by simp
    with req obtain st where st: "latest k (as_stored s) = Some st" "x = upgrade env st"
      by (auto simp: map_of_replay split: if_split_asm option.split_asm)
    from latest_mem [OF st(1)] D(3) [of st] st(2) request_ok_upgrade [of st env] show ?thesis by (simp add: iss)
  qed
  show "st_hasRequester st \<and> request_ok (st_request st) \<and> issued env s' (ar_id (st_request st))"
    if "st \<in> set (as_stored s')" for st
    using that D(3) [of st] rest by (simp add: iss)
qed (simp add: rest)

lemma ap_step_inv:
  assumes "ap_step env s s'" "approvals_inv env s"
  shows "approvals_inv env s'"
  using assms(1)
proof cases
  case tick
  then show ?thesis using assms(2) issued_mono [of env s _ s'] unfolding approvals_inv_def by (simp, blast)
next
  case (filed r)
  show ?thesis by (rule inv_filed [OF assms(2) filed(1-4) disjI1 [OF filed(5)] filed(6,7)])
next
  case (filed_lost r)
  show ?thesis by (rule inv_filed [OF assms(2) filed_lost(1-4) disjI2 [OF filed_lost(5)] filed_lost(6,7)])
next
  case (change r r')
  show ?thesis by (rule inv_change [OF assms(2) change(1-3) disjI1 [OF change(4)] change(5)]) (use change(6) in blast)
next
  case (change_lost r r')
  show ?thesis
    by (rule inv_change [OF assms(2) change_lost(1-3) disjI2 disjI1 [OF change_lost(5)] disjI1 [OF change_lost(6)]])
      (use change_lost in blast)
next
  case boot
  show ?thesis by (rule inv_boot [OF assms(2) boot])
next
  case rearm
  show ?thesis
  proof (rule approvals_inv_I)
    note D = approvals_invD [OF assms(2)]
    have iss: "issued env s' i = issued env s i" for i using rearm by (simp add: issued_def)
    show "distinct (map fst (as_requests s'))" using D(1) rearm by simp
    show "ar_id r = k \<and> request_ok r \<and> issued env s' k" if "(k, r) \<in> set (as_requests s')" for k r
      using D(2) that rearm(1) by (simp add: iss)
    show "st_hasRequester st \<and> request_ok (st_request st) \<and> issued env s' (ar_id (st_request st))"
      if "st \<in> set (as_stored s')" for st
      using D(3) that rearm(2) by (simp add: iss)
    show "\<exists>i r. (i, r) \<in> set (as_requests s') \<and> ar_state r = SApproved \<and> ar_scope r = ScopeSession \<and> k = session_grant r"
      if "k \<in> set (as_session s')" for k
      using D(4) [of k] rearm(1,4) that by auto
  qed
next
  case compacted
  show ?thesis
  proof (rule approvals_inv_I)
    note D = approvals_invD [OF assms(2)]
    have iss: "issued env s' i = issued env s i" for i using compacted by (simp add: issued_def)
    show "distinct (map fst (as_requests s'))" using D(1) compacted by simp
    show "ar_id r = k \<and> request_ok r \<and> issued env s' k" if "(k, r) \<in> set (as_requests s')" for k r
      using D(2) that compacted(1) by (simp add: iss)
    show "st_hasRequester st \<and> request_ok (st_request st) \<and> issued env s' (ar_id (st_request st))"
      if "st \<in> set (as_stored s')" for st
    proof -
      from that compacted(4) obtain k r where "(k, r) \<in> set (as_requests s)" "st = snapshot_of r" by auto
      with D(2) [of k r] show ?thesis by (simp add: iss)
    qed
    show "\<exists>i r. (i, r) \<in> set (as_requests s') \<and> ar_state r = SApproved \<and> ar_scope r = ScopeSession \<and> k = session_grant r"
      if "k \<in> set (as_session s')" for k
      using D(4) [of k] compacted(1,2) that by auto
  qed
qed

text \<open>A used-up grant stays used up.\<close>

lemma used_up_I:
  assumes "issued env s' i"
    and "\<And>r. map_of (as_requests s') i = Some r \<Longrightarrow> ar_consumedAt r \<noteq> None"
    and "\<And>st. ae_hasStore env \<Longrightarrow> latest i (as_stored s') = Some st \<Longrightarrow> ar_consumedAt (st_request st) \<noteq> None"
  shows "used_up env i s'"
  using assms by (simp add: used_up_def)

lemma ap_step_used_up:
  assumes "ap_step env s s'" "approvals_inv env s" and u: "used_up env i s"
  shows "used_up env i s'"
proof -
  note D = approvals_invD [OF assms(2)]
  from u have iss: "issued env s i"
    and mem: "\<And>r. map_of (as_requests s) i = Some r \<Longrightarrow> ar_consumedAt r \<noteq> None"
    and log: "\<And>st. ae_hasStore env \<Longrightarrow> latest i (as_stored s) = Some st \<Longrightarrow> ar_consumedAt (st_request st) \<noteq> None"
    by (auto simp: used_up_def)
  have new: "i \<noteq> ar_id r" if "\<not> issued env s (ar_id r)" for r using iss that by metis
  have old: "i \<noteq> ar_id r" if "map_of (as_requests s) (ar_id r) = Some r" "resolves r r' \<or> consumes_grant r r'" for r r'
  proof
    assume "i = ar_id r"
    with that(1) mem [of r] D(2) [OF map_of_SomeD [OF that(1)]] have "ar_consumedAt r \<noteq> None" "request_ok r" by auto
    with that(2) show False by (auto simp: request_ok_def resolves_def consumes_grant_def)
  qed
  from assms(1) show ?thesis
  proof cases
    case tick
    then show ?thesis using u by (auto simp: used_up_def intro: issued_mono)
  next
    case (filed r)
    with new [OF filed(4)] show ?thesis using mem log issued_mono [OF iss, of s']
      by (intro used_up_I) (auto simp: update_conv' logged_def latest_snoc split: if_split_asm)
  next
    case (filed_lost r)
    with new [OF filed_lost(4)] show ?thesis using mem log issued_mono [OF iss, of s']
      by (intro used_up_I) (auto simp: logged_def latest_snoc split: if_split_asm)
  next
    case (change r r')
    have "ar_id r' = ar_id r" using change(2) by (auto simp: resolves_def consumes_grant_def)
    with change old [OF change(1,2)] show ?thesis using mem log issued_mono [OF iss, of s']
      by (intro used_up_I) (auto simp: update_conv' logged_def latest_snoc split: if_split_asm)
  next
    case (change_lost r r')
    have "ar_id r' = ar_id r" using change_lost(2) by (auto simp: resolves_def consumes_grant_def)
    with change_lost old [OF change_lost(1,2)] show ?thesis using mem log issued_mono [OF iss, of s']
      by (intro used_up_I) (auto simp: logged_def latest_snoc split: if_split_asm)
  next
    case boot
    then show ?thesis using log issued_mono [OF iss, of s']
      by (intro used_up_I) (auto simp: map_of_replay split: if_split_asm option.split_asm)
  next
    case rearm
    then show ?thesis using mem log issued_mono [OF iss, of s'] by (intro used_up_I) auto
  next
    case compacted
    have "latest i (as_stored s') = map_option snapshot_of (map_of (as_requests s) i)"
      unfolding compacted(4) by (rule latest_snapshots [OF D(1)]) (use D(2) in auto)
    with compacted show ?thesis using mem issued_mono [OF iss, of s'] by (intro used_up_I) auto
  qed
qed

section \<open>The operations are sequences of transitions\<close>

lemma alist_restore: "map_of al k = Some v \<Longrightarrow> AList.update k v (AList.update k w al) = al"
  by (induction al) (auto split: if_split_asm)

lemma alist_same: "map_of al k = Some v \<Longrightarrow> AList.update k v al = al"
  by (induction al) (auto split: if_split_asm)

lemma requester_key_updates [simp]:
  "requester_key (r\<lparr>ar_state := x\<rparr>) = requester_key r"
  "requester_key (r\<lparr>ar_scope := y\<rparr>) = requester_key r"
  "requester_key (r\<lparr>ar_approverId := z\<rparr>) = requester_key r"
  "requester_key (r\<lparr>ar_resolvedAt := t\<rparr>) = requester_key r"
  "requester_key (r\<lparr>ar_consumedAt := t\<rparr>) = requester_key r"
  by (simp_all add: requester_key_def split: option.split)

lemma now_A_eq: "now_A env s = (Inr (ae_now env (as_reads s)), s\<lparr>as_reads := Suc (as_reads s)\<rparr>)"
  by (simp add: now_A_def)

lemma append_A_cases:
  obtains "append_A env r s = (Inr (), s\<lparr>as_writes := as_writes (snd (append_A env r s)), as_stored := logged env r s\<rparr>)"
  | "append_A env r s = (Inl (StoreError ''append''), s\<lparr>as_writes := Suc (as_writes s)\<rparr>)"
  | "append_A env r s = (Inl (StoreError ''append''), s\<lparr>as_writes := Suc (as_writes s), as_stored := logged env r s\<rparr>)"
  by (cases "ae_hasStore env"; cases "ae_store env (as_writes s)") (auto simp: append_A_def logged_def Let_def)

lemma commit_A_cases:
  assumes "map_of (as_requests s) (ar_id old) = Some old" "ar_id new = ar_id old"
  obtains n where "commit_A env old new s =
      (Inr (), s\<lparr>as_requests := AList.update (ar_id old) new (as_requests s), as_writes := n, as_stored := logged env new s\<rparr>)"
  | "commit_A env old new s = (Inl (StoreError ''append''), s\<lparr>as_writes := Suc (as_writes s)\<rparr>)"
  | "commit_A env old new s = (Inl (StoreError ''append''), s\<lparr>as_writes := Suc (as_writes s), as_stored := logged env new s\<rparr>)"
proof (cases rule: append_A_cases [of env new "put_request new s"])
  case 1
  have "commit_A env old new s = (Inr (), s\<lparr>as_requests := AList.update (ar_id old) new (as_requests s),
      as_writes := as_writes (snd (append_A env new (put_request new s))), as_stored := logged env new s\<rparr>)"
    using assms(2) by (simp add: commit_A_def act_defs) (subst 1, simp add: put_request_def logged_def)
  then show ?thesis by (rule that(1))
next
  case 2
  have "commit_A env old new s = (Inl (StoreError ''append''), s\<lparr>as_writes := Suc (as_writes s)\<rparr>)"
    using assms by (simp add: commit_A_def act_defs 2) (simp add: put_request_def alist_restore alist_same)
  then show ?thesis by (rule that(2))
next
  case 3
  have "commit_A env old new s =
      (Inl (StoreError ''append''), s\<lparr>as_writes := Suc (as_writes s), as_stored := logged env new s\<rparr>)"
    using assms by (simp add: commit_A_def act_defs 3) (simp add: put_request_def alist_restore alist_same logged_def)
  then show ?thesis by (rule that(3))
qed

lemma commit_steps:
  assumes "map_of (as_requests s) (ar_id old) = Some old" "resolves old new \<or> consumes_grant old new"
  shows "ap_steps env s (snd (commit_A env old new s))"
proof -
  have new: "ar_id new = ar_id old" using assms(2) by (auto simp: resolves_def consumes_grant_def)
  show ?thesis
  proof (cases rule: commit_A_cases [OF assms(1) new, of env])
    case (1 n)
    then show ?thesis by (auto intro!: r_into_rtranclp change [OF assms])
  next
    case 2
    then show ?thesis by (auto intro!: tick_steps)
  next
    case 3
    then show ?thesis by (auto intro!: r_into_rtranclp change_lost [OF assms])
  qed
qed

lemma read_steps: "ap_steps env s (s\<lparr>as_reads := n\<rparr>)"
  by (rule tick_steps) simp_all

lemma expire_steps:
  assumes inv: "approvals_inv env s"
  shows "ap_steps env s (snd (expireIfNeeded env a rid s))"
proof (cases "map_of (as_requests s) rid")
  case (Some r)
  have r: "ar_id r = rid" "map_of (as_requests s) (ar_id r) = Some r" "request_ok r"
    using approvals_invD(2) [OF inv map_of_SomeD [OF Some]] Some by auto
  let ?s2 = "s\<lparr>as_reads := Suc (Suc (as_reads s))\<rparr>"
  let ?new = "r\<lparr>ar_state := SExpired, ar_resolvedAt := Some (ae_now env (Suc (as_reads s)))\<rparr>"
  show ?thesis
  proof (cases "ar_state r = SPending \<and> \<not> ae_now env (as_reads s) < ar_expiresAt r")
    case True
    then have res: "resolves r ?new" "ar_consumedAt r = None"
      using r(3) by (auto simp: resolves_def request_ok_def)
    have "expireIfNeeded env a rid s = (if a then commit_A env r ?new ?s2 else modifyA (put_request ?new) ?s2)"
      using Some True by (simp add: expireIfNeeded_def bindA_def now_A_eq)
    moreover have "ap_steps env ?s2 (snd (commit_A env r ?new ?s2))"
      by (rule commit_steps) (use r res in auto)
    moreover have "ap_step env ?s2 (put_request ?new ?s2)"
      by (rule change [of _ r ?new]) (use r res in \<open>auto simp: put_request_def\<close>)
    ultimately have "ap_steps env ?s2 (snd (expireIfNeeded env a rid s))" by (simp add: modifyA_def r_into_rtranclp)
    with read_steps show ?thesis by (rule rtranclp_trans)
  next
    case False
    then show ?thesis using Some read_steps [of env s]
      by (auto simp: expireIfNeeded_def bindA_def now_A_eq retA_def)
  qed
qed (simp add: expireIfNeeded_def)

lemma steps_inv: "ap_steps env s s' \<Longrightarrow> approvals_inv env s \<Longrightarrow> approvals_inv env s'"
  by (induction rule: rtranclp_induct) (auto intro: ap_step_inv)

lemma steps_used_up:
  "ap_steps env s s' \<Longrightarrow> approvals_inv env s \<Longrightarrow> used_up env i s \<Longrightarrow> used_up env i s'"
proof (induction rule: rtranclp_induct)
  case (step y z)
  then have "approvals_inv env y" using steps_inv by blast
  with step show ?case using ap_step_used_up by blast
qed

lemma expire_all_steps:
  assumes "approvals_inv env s"
  shows "ap_steps env s (snd (expirePending env a s))"
  unfolding expirePending_def
  by (rule forA_keeps [where P = "ap_steps env s"])
    (use assms steps_inv expire_steps in \<open>blast intro: rtranclp_trans\<close>)+

lemma create_steps:
  assumes fresh: "\<not> issued env s (approval_id env (as_draws s))"
  shows "ap_steps env s (snd (create env tool args risk reason requester s))"
proof -
  let ?s1 = "s\<lparr>as_reads := Suc (as_reads s)\<rparr>" and ?s2 = "s\<lparr>as_reads := Suc (as_reads s), as_draws := Suc (as_draws s)\<rparr>"
  define r where "r = new_request env tool args risk reason requester (ae_now env (as_reads s)) (as_draws s)"
  have r: "fresh_request r" "ar_id r = approval_id env (as_draws s)"
    by (simp_all add: r_def new_request_def Let_def fresh_request_def approval_id_def)
  have iss: "\<not> issued env s (ar_id r)" using fresh r(2) by simp
  have eq: "create env tool args risk reason requester s =
        bindA (append_A env r) (\<lambda>_. bindA (modifyA (put_request r)) (\<lambda>_. retA r)) ?s2"
    by (simp add: create_def Let_def bindA_def [of "now_A env"] now_A_eq r_def)
  show ?thesis
  proof (cases rule: append_A_cases [of env r ?s2])
    case 1
    have "ap_step env s (snd (create env tool args risk reason requester s))"
      unfolding eq by (subst bindA_def, subst 1)
        (rule filed [OF r _ iss], simp_all add: act_defs put_request_def logged_def)
    then show ?thesis by blast
  next
    case 2
    have "ap_step env s (snd (create env tool args risk reason requester s))"
      unfolding eq by (rule tick) (simp_all add: bindA_def 2)
    then show ?thesis by blast
  next
    case 3
    have "ap_step env s (snd (create env tool args risk reason requester s))"
      unfolding eq by (rule filed_lost [OF r _ iss]) (simp_all add: bindA_def 3 logged_def)
    then show ?thesis by blast
  qed
qed

lemma once_match_SomeD:
  "once_match env tool args requester s = Some m \<Longrightarrow> m \<in> snd ` set (as_requests s) \<and> grants env tool args requester m"
proof -
  assume m: "once_match env tool args requester s = Some m"
  let ?xs = "filter (grants env tool args requester) (map snd (as_requests s))"
  let ?le = "\<lambda>a b. ar_createdAt a \<le> ar_createdAt b"
  from m have "m \<in> set (sort_by ?le ?xs)" unfolding once_match_def by (cases "sort_by ?le ?xs") simp_all
  then show ?thesis by simp
qed

lemma once_match_lookup:
  assumes "approvals_inv env s" "once_match env tool args requester s = Some m"
  shows "map_of (as_requests s) (ar_id m) = Some m"
proof -
  from once_match_SomeD [OF assms(2)] obtain k where k: "(k, m) \<in> set (as_requests s)" by auto
  with approvals_invD(2) [OF assms(1) k] approvals_invD(1) [OF assms(1)] show ?thesis by simp
qed

lemma consume_steps:
  assumes inv: "approvals_inv env s"
  shows "ap_steps env s (snd (consumeOnce env tool args requester s))"
proof (cases "once_match env tool args requester s")
  case (Some m)
  let ?s1 = "s\<lparr>as_reads := Suc (as_reads s)\<rparr>" and ?new = "m\<lparr>ar_consumedAt := Some (ae_now env (as_reads s))\<rparr>"
  have "consumes_grant m ?new" using once_match_SomeD [OF Some] by (auto simp: consumes_grant_def grants_def)
  then have "ap_steps env ?s1 (snd (commit_A env m ?new ?s1))"
    by (intro commit_steps) (use once_match_lookup [OF inv Some] in auto)
  moreover have "snd (consumeOnce env tool args requester s) = snd (commit_A env m ?new ?s1)"
    by (auto simp: consumeOnce_def Some bindA_def now_A_eq retA_def split: prod.split sum.split)
  ultimately show ?thesis using read_steps [of env s] by (auto intro: rtranclp_trans)
qed (simp add: consumeOnce_def)

text \<open>Approving a pending request: the new request is stored, or the append failed and memory is as
  before.\<close>

lemma filter_add_key: "k \<notin> set ks \<Longrightarrow> filter (\<lambda>x. x \<noteq> k) (add_key k ks) = ks"
  by (auto simp: add_key_def intro: filter_True)

lemma approved_by_simps [simp]:
  "ar_id (approved_by r scope a t) = ar_id r" "ar_state (approved_by r scope a t) = SApproved"
  "ar_scope (approved_by r scope a t) = scope" "ar_approverId (approved_by r scope a t) = Some a"
  "session_grant (approved_by r scope a t) = session_grant r"
  by (simp_all add: approved_by_def session_grant_def)

lemma approved_by_resolves: "ar_state r = SPending \<Longrightarrow> ar_requesterId r \<noteq> a \<Longrightarrow> resolves r (approved_by r scope a t)"
  by (auto simp: resolves_def approved_by_def)

lemma approve_pending_cases:
  fixes env req scope a s
  defines "new \<equiv> approved_by req scope a (ae_now env (as_reads s))"
  assumes "map_of (as_requests s) (ar_id req) = Some req"
  obtains n where "approve_pending env req scope a s =
      (Inr (Some new),
       s\<lparr>as_requests := AList.update (ar_id req) new (as_requests s),
         as_session := (if scope = ScopeSession then add_key (session_grant req) (as_session s) else as_session s),
         as_reads := Suc (as_reads s), as_writes := n, as_stored := logged env new s\<rparr>)"
  | n sts where "approve_pending env req scope a s =
      (Inl (StoreError ''append''), s\<lparr>as_reads := Suc (as_reads s), as_writes := n, as_stored := sts\<rparr>)"
    "sts = as_stored s \<or> sts = logged env new s"
proof -
  let ?key = "session_grant req"
  define u where "u = (let v = put_request new (s\<lparr>as_reads := Suc (as_reads s)\<rparr>)
    in if scope = ScopeSession then v\<lparr>as_session := add_key ?key (as_session v)\<rparr> else v)"
  define undo where "undo = (\<lambda>u. let v = put_request req u
           in if ?key \<notin> set (as_session s) then v\<lparr>as_session := filter (\<lambda>k. k \<noteq> ?key) (as_session v)\<rparr> else v)"
  have eq: "approve_pending env req scope a s = bindA (onErrorA (append_A env new) undo) (\<lambda>_. retA (Some new)) u"
    by (simp add: approve_pending_def bindA_def [of "now_A env"] now_A_eq modifyA_def Let_def u_def undo_def
        bindA_def [of "modifyA f" for f] new_def)
  have u: "as_requests u = AList.update (ar_id req) new (as_requests s)" "as_reads u = Suc (as_reads s)"
    "as_stored u = as_stored s" "as_writes u = as_writes s" "as_draws u = as_draws s"
    "as_session u = (if scope = ScopeSession then add_key ?key (as_session s) else as_session s)"
    by (simp_all add: u_def Let_def put_request_def new_def)
  have ses: "filter (\<lambda>k. k \<noteq> ?key) (as_session u) = as_session s" if "?key \<notin> set (as_session s)"
    using that u(6) filter_add_key [OF that] by (auto intro: filter_True)
  have un: "undo (u\<lparr>as_writes := n\<rparr>) = s\<lparr>as_reads := Suc (as_reads s), as_writes := n\<rparr>"
    "undo (u\<lparr>as_writes := n, as_stored := st\<rparr>) = s\<lparr>as_reads := Suc (as_reads s), as_writes := n, as_stored := st\<rparr>" for n st
    using ses u assms(2)
    by (auto intro!: approval_state.equality simp: undo_def Let_def put_request_def alist_same add_key_def)
  have log: "logged env new u = logged env new s" by (simp add: logged_def u)
  show thesis
  proof (cases rule: append_A_cases [of env new u])
    case 1
    let ?n = "as_writes (snd (append_A env new u))"
    have "approve_pending env req scope a s = (Inr (Some new), u\<lparr>as_writes := ?n, as_stored := logged env new s\<rparr>)"
      unfolding eq log [symmetric] by (subst bindA_def, subst onErrorA_def, subst 1) (simp add: retA_def)
    also have "u\<lparr>as_writes := ?n, as_stored := logged env new s\<rparr> =
       s\<lparr>as_requests := AList.update (ar_id req) new (as_requests s),
         as_session := (if scope = ScopeSession then add_key ?key (as_session s) else as_session s),
         as_reads := Suc (as_reads s), as_writes := ?n, as_stored := logged env new s\<rparr>"
      by (rule approval_state.equality) (simp_all add: u)
    finally show thesis by (rule that(1))
  next
    case 2
    show thesis by (rule that(2) [where n = "Suc (as_writes s)" and sts = "as_stored s"])
        (simp_all add: eq bindA_def onErrorA_def 2 un u)
  next
    case 3
    show thesis by (rule that(2) [where n = "Suc (as_writes s)" and sts = "logged env new s"])
        (simp_all add: eq bindA_def onErrorA_def 3 un u log)
  qed
qed

lemma approve_pending_steps:
  assumes "map_of (as_requests s) (ar_id req) = Some req" "ar_state req = SPending" "ar_requesterId req \<noteq> a"
  shows "ap_steps env s (snd (approve_pending env req scope a s))"
proof -
  let ?new = "approved_by req scope a (ae_now env (as_reads s))"
  note c = disjI1 [OF approved_by_resolves [OF assms(2,3)]]
  show ?thesis
  proof (cases rule: approve_pending_cases [OF assms(1), of env scope a])
    case (1 n)
    have "ap_step env s (snd (approve_pending env req scope a s))"
      by (rule change [OF assms(1) c]) (auto simp: 1)
    then show ?thesis by blast
  next
    case (2 n sts)
    from 2(2) show ?thesis
    proof
      assume "sts = as_stored s"
      with 2(1) show ?thesis by (intro tick_steps) simp_all
    next
      assume st: "sts = logged env ?new s"
      have "ap_step env s (snd (approve_pending env req scope a s))"
        by (rule change_lost [OF assms(1) c]) (simp_all add: 2(1) st)
      then show ?thesis by blast
    qed
  qed
qed

lemma deny_pending_steps:
  assumes "map_of (as_requests s) (ar_id req) = Some req" "ar_state req = SPending"
  shows "ap_steps env s (snd (deny_pending env req a s))"
proof -
  let ?s1 = "s\<lparr>as_reads := Suc (as_reads s)\<rparr>"
  let ?new = "req\<lparr>ar_state := SDenied, ar_approverId := Some a, ar_resolvedAt := Some (ae_now env (as_reads s))\<rparr>"
  have "resolves req ?new" using assms(2) by (simp add: resolves_def)
  then have "ap_steps env ?s1 (snd (commit_A env req ?new ?s1))"
    by (intro commit_steps) (use assms(1) in auto)
  moreover have "snd (deny_pending env req a s) = snd (commit_A env req ?new ?s1)"
    by (auto simp: deny_pending_def bindA_def now_A_eq retA_def Let_def split: prod.split sum.split)
  ultimately show ?thesis using read_steps [of env s] by (auto intro: rtranclp_trans)
qed

lemma bindA_steps:
  assumes "ap_steps env s (snd (m s))" "\<And>x s'. m s = (Inr x, s') \<Longrightarrow> ap_steps env s' (snd (f x s'))"
  shows "ap_steps env s (snd (bindA m f s))"
  using assms by (cases "m s"; cases "fst (m s)") (auto simp: bindA_def intro: rtranclp_trans)

lemma approve_steps:
  assumes "approvals_inv env s"
  shows "ap_steps env s (snd (approve env rid scope a s))"
proof (cases "map_of (as_requests s) rid")
  case (Some r)
  have "ap_steps env s (snd (bindA (expireIfNeeded env True rid) (\<lambda>_ s.
            case map_of (as_requests s) rid of
              None \<Rightarrow> (Inr None, s)
            | Some req \<Rightarrow>
                if ar_state req = SExpired then (Inl (ApprovalExpired rid), s)
                else if ar_state req \<noteq> SPending then (Inr (Some req), s)
                else if ar_requesterId req = a then (Inl (ApprovalSelf rid), s)
                else approve_pending env req scope a s) s))"
  proof (rule bindA_steps)
    show "ap_steps env s (snd (expireIfNeeded env True rid s))" by (rule expire_steps [OF assms])
    fix x s' assume "expireIfNeeded env True rid s = (Inr x, s')"
    with expire_steps [OF assms, of True rid] have inv: "approvals_inv env s'"
      using steps_inv [OF _ assms] by (metis snd_conv)
    have "ar_id q = rid" if "map_of (as_requests s') rid = Some q" for q
      using approvals_invD(2) [OF inv map_of_SomeD [OF that]] by simp
    then show "ap_steps env s' (snd (case map_of (as_requests s') rid of
              None \<Rightarrow> (Inr None, s')
            | Some req \<Rightarrow>
                if ar_state req = SExpired then (Inl (ApprovalExpired rid), s')
                else if ar_state req \<noteq> SPending then (Inr (Some req), s')
                else if ar_requesterId req = a then (Inl (ApprovalSelf rid), s')
                else approve_pending env req scope a s'))"
      by (auto intro: approve_pending_steps split: option.split)
  qed
  then show ?thesis by (simp add: approve_def Some)
qed (simp add: approve_def)

lemma deny_steps:
  assumes "approvals_inv env s"
  shows "ap_steps env s (snd (deny env rid a s))"
proof (cases "map_of (as_requests s) rid")
  case (Some r)
  have "ap_steps env s (snd (bindA (expireIfNeeded env True rid) (\<lambda>_ s.
            case map_of (as_requests s) rid of
              None \<Rightarrow> (Inr None, s)
            | Some req \<Rightarrow>
                if ar_state req = SExpired then (Inl (ApprovalExpired rid), s)
                else if ar_state req \<noteq> SPending then (Inr (Some req), s)
                else deny_pending env req a s) s))"
  proof (rule bindA_steps)
    show "ap_steps env s (snd (expireIfNeeded env True rid s))" by (rule expire_steps [OF assms])
    fix x s' assume "expireIfNeeded env True rid s = (Inr x, s')"
    with expire_steps [OF assms, of True rid] have inv: "approvals_inv env s'"
      using steps_inv [OF _ assms] by (metis snd_conv)
    have "ar_id q = rid" if "map_of (as_requests s') rid = Some q" for q
      using approvals_invD(2) [OF inv map_of_SomeD [OF that]] by simp
    then show "ap_steps env s' (snd (case map_of (as_requests s') rid of
              None \<Rightarrow> (Inr None, s')
            | Some req \<Rightarrow>
                if ar_state req = SExpired then (Inl (ApprovalExpired rid), s')
                else if ar_state req \<noteq> SPending then (Inr (Some req), s')
                else deny_pending env req a s'))"
      by (auto intro: deny_pending_steps split: option.split)
  qed
  then show ?thesis by (simp add: deny_def Some)
qed (simp add: deny_def)

lemma get_steps: "approvals_inv env s \<Longrightarrow> ap_steps env s (snd (get_request env rid s))"
  unfolding get_request_def by (rule bindA_steps) (simp_all add: getsA_def expire_steps)

lemma pending_steps: "approvals_inv env s \<Longrightarrow> ap_steps env s (snd (pending env s))"
  unfolding pending_def by (rule bindA_steps) (simp_all add: getsA_def expire_all_steps)

lemma all_steps: "approvals_inv env s \<Longrightarrow> ap_steps env s (snd (all_requests env s))"
  unfolding all_requests_def by (rule bindA_steps) (simp_all add: getsA_def expire_all_steps)

lemma fold_put_request:
  "fold (\<lambda>st. put_request (upgrade env st)) sts s =
     s\<lparr>as_requests := fold (\<lambda>st. AList.update (ar_id (st_request st)) (upgrade env st)) sts (as_requests s)\<rparr>"
  by (induction sts arbitrary: s) (simp_all add: put_request_def)

lemma fold_add_key: "k \<in> set (fold (\<lambda>r. add_key (f r)) rs ks) \<longleftrightarrow> k \<in> set ks \<or> (\<exists>r \<in> set rs. k = f r)"
  by (induction rs arbitrary: ks) (auto simp: add_key_def)

lemma compact_steps: "ap_steps env s (snd (compact_A env s))"
proof (cases "ae_hasStore env \<and> ae_store env (as_writes s) \<noteq> StoreFailed")
  case True
  then have "ap_step env s (snd (compact_A env s))"
    by (intro compacted) (auto simp: compact_A_def Let_def split: store_outcome.split)
  then show ?thesis by blast
next
  case False
  then show ?thesis by (intro tick_steps) (auto simp: compact_A_def Let_def)
qed

lemma restart_steps:
  assumes "approvals_inv env s"
  shows "ap_steps env s (snd (new_ApprovalEngine env s))"
proof (cases "ae_hasStore env")
  case True
  let ?s0 = "s\<lparr>as_requests := [], as_session := []\<rparr>"
  let ?s1 = "fold (\<lambda>st. put_request (upgrade env st)) (as_stored ?s0) ?s0"
  have first: "ap_step env s ?s1" by (rule boot) (simp_all add: fold_put_request True)
  then have inv: "approvals_inv env ?s1" using ap_step_inv assms by blast
  let ?arm = "\<lambda>s. if ae_restoreSession env then
         s\<lparr>as_session := fold (\<lambda>r. add_key (session_grant r))
              (filter (\<lambda>r. ar_state r = SApproved \<and> ar_scope r = ScopeSession) (map snd (as_requests s)))
              (as_session s)\<rparr>
       else s"
  have arm: "ap_step env u (?arm u)" for u by (rule rearm) (auto simp: fold_add_key, blast?)
  have "ap_steps env ?s1 (snd (bindA (expirePending env False) (\<lambda>_.
     bindA (modifyA ?arm) (\<lambda>_. compact_A env)) ?s1))"
  proof (rule bindA_steps)
    show "ap_steps env ?s1 (snd (expirePending env False ?s1))" by (rule expire_all_steps [OF inv])
    show "ap_steps env s' (snd (bindA (modifyA ?arm) (\<lambda>_. compact_A env) s'))" for s'
      using arm [of s'] compact_steps [of env "?arm s'"]
      by (auto simp: bindA_def modifyA_def intro: converse_rtranclp_into_rtranclp)
  qed
  then have "ap_steps env ?s1 (snd (new_ApprovalEngine env s))"
    by (simp add: new_ApprovalEngine_def load_A_def True bindA_def [of "modifyA f" for f] modifyA_def)
  with first show ?thesis by (rule converse_rtranclp_into_rtranclp)
next
  case False
  have "ap_step env s (snd (new_ApprovalEngine env s))"
    by (rule boot) (simp_all add: new_ApprovalEngine_def False)
  then show ?thesis by blast
qed

section \<open>Runs\<close>

datatype approval_op =
    OpCreate string jval risk_level string tool_principal
  | OpConsume string jval tool_principal
  | OpApprove string ApprovalScope string
  | OpDeny string string
  | OpGet string
  | OpPending
  | OpAll
  | OpRestart

fun ap_do :: "approval_env \<Rightarrow> approval_op \<Rightarrow> approval_state \<Rightarrow> approval_state" where
  "ap_do env (OpCreate tool args risk reason requester) s = snd (create env tool args risk reason requester s)"
| "ap_do env (OpConsume tool args requester) s = snd (consumeOnce env tool args requester s)"
| "ap_do env (OpApprove rid scope a) s = snd (approve env rid scope a s)"
| "ap_do env (OpDeny rid a) s = snd (deny env rid a s)"
| "ap_do env (OpGet rid) s = snd (get_request env rid s)"
| "ap_do env OpPending s = snd (pending env s)"
| "ap_do env OpAll s = snd (all_requests env s)"
| "ap_do env OpRestart s = snd (new_ApprovalEngine env s)"

definition ap_empty :: "approval_state \<Rightarrow> bool" where
  "ap_empty s \<longleftrightarrow> as_requests s = [] \<and> as_session s = [] \<and> as_stored s = []"

text \<open>Only \<^verbatim>\<open>create\<close> draws an identifier.\<close>

lemma draws_frame [frame_simps]:
  "as_draws (put_request r s) = as_draws s" "as_draws (snd (now_A env s)) = as_draws s"
  "as_draws (snd (append_A env r s)) = as_draws s" "as_draws (snd (compact_A env s)) = as_draws s"
  by (simp_all add: put_request_def now_A_def append_A_def compact_A_def Let_def split: store_outcome.split)

lemma draws_bindA:
  "as_draws (snd (m s)) = d \<Longrightarrow> (\<And>x s'. as_draws s' = d \<Longrightarrow> as_draws (snd (f x s')) = d) \<Longrightarrow> as_draws (snd (bindA m f s)) = d"
  by (rule bindA_keeps [where P = "\<lambda>s. as_draws s = d"])

lemma draws_commit [frame_simps]: "as_draws (snd (commit_A env old new s)) = as_draws s"
  using draws_frame(3) [of env new "put_request new s"]
  by (auto simp: commit_A_def act_defs draws_frame(1) split: prod.split sum.split)

lemma draws_expire [frame_simps]: "as_draws (snd (expireIfNeeded env a rid s)) = as_draws s"
  by (auto simp: expireIfNeeded_def bindA_def now_A_eq retA_def modifyA_def frame_simps Let_def split: option.split)

lemma draws_expire_all [frame_simps]: "as_draws (snd (expirePending env a s)) = as_draws s"
  unfolding expirePending_def
  by (rule forA_keeps [where P = "\<lambda>u. as_draws u = as_draws s"]) (simp_all add: frame_simps)

lemma draws_approve_pending [frame_simps]: "as_draws (snd (approve_pending env req scope a s)) = as_draws s"
proof -
  have "as_draws (snd (onErrorA (append_A env r) h u)) = as_draws u" if "\<And>v. as_draws (h v) = as_draws v" for r h u
    using draws_frame(3) [of env r u] that by (auto simp: onErrorA_def split: prod.split sum.split)
  then show ?thesis
    unfolding approve_pending_def Let_def
    by (intro draws_bindA) (simp_all add: frame_simps modifyA_def retA_def)
qed

lemma draws_deny_pending [frame_simps]: "as_draws (snd (deny_pending env req a s)) = as_draws s"
  unfolding deny_pending_def Let_def by (intro draws_bindA) (simp_all add: frame_simps retA_def)

lemma draws_consume [frame_simps]: "as_draws (snd (consumeOnce env tool args requester s)) = as_draws s"
  by (auto simp: consumeOnce_def frame_simps retA_def intro!: draws_bindA split: option.split)

lemma draws_resolve [frame_simps]:
  "as_draws (snd (approve env rid scope a s)) = as_draws s"
  "as_draws (snd (deny env rid a s)) = as_draws s"
  by (auto simp: approve_def deny_def frame_simps intro!: draws_bindA split: option.split)

lemma draws_read [frame_simps]:
  "as_draws (snd (get_request env rid s)) = as_draws s" "as_draws (snd (pending env s)) = as_draws s"
  "as_draws (snd (all_requests env s)) = as_draws s"
  by (auto simp: get_request_def pending_def all_requests_def getsA_def frame_simps intro!: draws_bindA)

lemma draws_restart [frame_simps]: "as_draws (snd (new_ApprovalEngine env s)) = as_draws s"
  by (auto simp: new_ApprovalEngine_def load_A_def modifyA_def fold_put_request frame_simps Let_def intro!: draws_bindA)

lemma draws_create: "as_draws (snd (create env tool args risk reason requester s)) = Suc (as_draws s)"
  unfolding create_def bindA_def [of "now_A env"] now_A_eq Let_def
  by (auto simp: frame_simps modifyA_def retA_def intro!: draws_bindA)

lemma draws_ap_do: "as_draws s \<le> as_draws (ap_do env a s)"
  by (cases a) (simp_all add: frame_simps draws_create)

lemma fresh_next:
  "inj_on (approval_id env) {..<N} \<Longrightarrow> as_draws s < N \<Longrightarrow> \<not> issued env s (approval_id env (as_draws s))"
  by (auto simp: issued_def dest!: inj_onD)

lemma ap_do_steps:
  assumes "inj_on (approval_id env) {..<N}" "as_draws (ap_do env a s) \<le> N" "approvals_inv env s"
  shows "ap_steps env s (ap_do env a s)"
proof (cases a)
  case (OpCreate tool args risk reason requester)
  with assms(2) have "as_draws s < N" by (simp add: draws_create)
  from create_steps [OF fresh_next [OF assms(1) this]] OpCreate show ?thesis by simp
qed (simp_all add: assms(3) consume_steps approve_steps deny_steps get_steps pending_steps all_steps restart_steps)

text \<open>The identifiers of the grants that successful calls of \<^verbatim>\<open>consumeOnce\<close> used, in order.\<close>

definition granted :: "approval_env \<Rightarrow> approval_op \<Rightarrow> approval_state \<Rightarrow> string list" where
  "granted env a s =
     (case a of
        OpConsume tool args requester \<Rightarrow>
          if fst (consumeOnce env tool args requester s) = Inr True
          then map ar_id (case once_match env tool args requester s of Some m \<Rightarrow> [m] | None \<Rightarrow> []) else []
      | _ \<Rightarrow> [])"

fun grants_of :: "approval_env \<Rightarrow> approval_op list \<Rightarrow> approval_state \<Rightarrow> string list" where
  "grants_of env [] s = []"
| "grants_of env (a # as) s = granted env a s @ grants_of env as (ap_do env a s)"

text \<open>The engine as an instance of the transition systems of the prelude.  The identifiers drawn so far,
  at most \<open>N\<close>, must not repeat (they are eight hexadecimal digits of a random UUID).\<close>

definition approvals_ok :: "approval_env \<Rightarrow> nat \<Rightarrow> approval_state \<Rightarrow> bool" where
  "approvals_ok env N s \<longleftrightarrow> (inj_on (approval_id env) {..<N} \<and> as_draws s \<le> N \<longrightarrow> approvals_inv env s)"

interpretation queue: stateful ap_empty "ap_do env" "approvals_ok env N" for env N
proof
  show "ap_empty s \<Longrightarrow> approvals_ok env N s" for s
    by (simp add: ap_empty_def approvals_ok_def approvals_inv_def)
  show "approvals_ok env N s \<Longrightarrow> approvals_ok env N (ap_do env a s)" for a s
    using steps_inv [OF ap_do_steps] draws_ap_do [of s env a] by (fastforce simp: approvals_ok_def)
qed

lemma reachable_inv:
  assumes "inj_on (approval_id env) {..<as_draws s}" "ap_empty s0" "s = fold (ap_do env) ops s0"
  shows "approvals_inv env s"
  using queue.inv_reachable [OF assms(2), of env "as_draws s" ops] assms by (simp add: approvals_ok_def)

lemma draws_run: "as_draws s \<le> as_draws (fold (ap_do env) ops s)"
proof (induction ops arbitrary: s)
  case (Cons a ops)
  from Cons [of "ap_do env a s"] draws_ap_do [of s env a] show ?case by simp
qed simp

lemma consume_True:
  assumes inv: "approvals_inv env s" and ok: "fst (consumeOnce env tool args requester s) = Inr True"
  obtains m where "once_match env tool args requester s = Some m"
    "used_up env (ar_id m) (snd (consumeOnce env tool args requester s))"
proof -
  from ok obtain m where m: "once_match env tool args requester s = Some m"
    by (auto simp: consumeOnce_def split: option.split_asm)
  let ?s1 = "s\<lparr>as_reads := Suc (as_reads s)\<rparr>" and ?new = "m\<lparr>ar_consumedAt := Some (ae_now env (as_reads s))\<rparr>"
  have eq: "consumeOnce env tool args requester s = bindA (commit_A env m ?new) (\<lambda>_. retA True) ?s1"
    by (simp add: consumeOnce_def m bindA_def [of "now_A env"] now_A_eq)
  have look: "map_of (as_requests ?s1) (ar_id m) = Some m" using once_match_lookup [OF inv m] by simp
  have iss: "issued env s (ar_id m)" using approvals_invD(2) [OF inv map_of_SomeD [OF once_match_lookup [OF inv m]]] by simp
  have "ar_id ?new = ar_id m" by simp
  from commit_A_cases [OF look this, of env] have "used_up env (ar_id m) (snd (consumeOnce env tool args requester s))"
  proof cases
    case (1 n)
    then show ?thesis using iss
      by (intro used_up_I) (auto simp: eq bindA_def retA_def update_conv' logged_def latest_snoc issued_def)
  qed (use ok in \<open>simp_all add: eq bindA_def\<close>)
  with m show thesis by (rule that)
qed

lemma granted_used_up:
  assumes "approvals_inv env s" "i \<in> set (granted env a s)"
  shows "used_up env i (ap_do env a s) \<and> \<not> used_up env i s \<and> distinct (granted env a s)"
proof -
  from assms(2) obtain tool args requester where a: "a = OpConsume tool args requester"
    by (cases a) (auto simp: granted_def)
  with assms(2) have ok: "fst (consumeOnce env tool args requester s) = Inr True"
    by (simp add: granted_def split: if_split_asm)
  with assms(2) a obtain m where m: "once_match env tool args requester s = Some m"
    and i: "i = ar_id m" "granted env a s = [i]"
    by (cases "once_match env tool args requester s") (auto simp: granted_def)
  from consume_True [OF assms(1) ok] m have "used_up env i (ap_do env a s)" by (auto simp: a i)
  moreover have "\<not> used_up env i s"
    using once_match_lookup [OF assms(1) m] once_match_SomeD [OF m] by (auto simp: used_up_def i grants_def)
  ultimately show ?thesis by (simp add: i)
qed

lemma grants_not_used:
  assumes "inj_on (approval_id env) {..<N}"
  shows "approvals_inv env s \<Longrightarrow> as_draws (fold (ap_do env) ops s) \<le> N \<Longrightarrow>
    distinct (grants_of env ops s) \<and> (\<forall>i \<in> set (grants_of env ops s). \<not> used_up env i s)"
proof (induction ops arbitrary: s)
  case (Cons a ops)
  let ?s' = "ap_do env a s"
  have "as_draws ?s' \<le> N" using Cons.prems(2) draws_run [of ?s' env ops] by simp
  note steps = ap_do_steps [OF assms this Cons.prems(1)]
  have inv: "approvals_inv env ?s'" by (rule steps_inv [OF steps Cons.prems(1)])
  have IH: "distinct (grants_of env ops ?s') \<and> (\<forall>i \<in> set (grants_of env ops ?s'). \<not> used_up env i ?s')"
    by (rule Cons.IH [OF inv]) (use Cons.prems(2) in simp)
  have keep: "used_up env i ?s'" if "used_up env i s" for i
    by (rule steps_used_up [OF steps Cons.prems(1) that])
  have now: "used_up env i ?s' \<and> \<not> used_up env i s" "distinct (granted env a s)" if "i \<in> set (granted env a s)" for i
    using granted_used_up [OF Cons.prems(1) that] by auto
  have "distinct (granted env a s)" using now(2) by (cases "granted env a s") auto
  with IH keep now(1) show ?case by auto
qed simp

section \<open>Exactness of the keys\<close>

lemma opt_entry_inj:
  "(\<forall>v. (k, v) \<in> set (opt_entry k x) \<longleftrightarrow> (k, v) \<in> set (opt_entry k y)) \<Longrightarrow> x = y"
  by (cases x; cases y) (auto simp: opt_entry_def)

lemma binding_object_entry:
  "(k, v) \<in> set (binding_object b) \<longleftrightarrow>
     k = ''principalId'' \<and> v = JStr (b_principalId b) \<or> (k, v) \<in> set (opt_entry ''clientId'' (b_clientId b)) \<or>
     (k, v) \<in> set (opt_entry ''projectId'' (b_projectId b)) \<or> (k, v) \<in> set (opt_entry ''sessionId'' (b_sessionId b)) \<or>
     (k, v) \<in> set (opt_entry ''capsuleId'' (b_capsuleId b)) \<or> (k, v) \<in> set (opt_entry ''taskId'' (b_taskId b))"
  by (auto simp: binding_object_def)

lemma opt_entry_key: "(k, v) \<in> set (opt_entry l x) \<longleftrightarrow> k = l \<and> (\<exists>s. x = Some s \<and> v = JStr s)"
  by (cases x) (auto simp: opt_entry_def)

lemma option_ext: "(\<And>s. x = Some s \<longleftrightarrow> y = Some s) \<Longrightarrow> x = y"
  by (cases x; cases y) auto

lemma binding_object_inj:
  assumes "set (binding_object b) = set (binding_object c)" shows "b = (c :: ApprovalBinding)"
proof (rule ApprovalBinding.equality)
  have mem: "(k, v) \<in> set (binding_object b) \<longleftrightarrow> (k, v) \<in> set (binding_object c)" for k v using assms by simp
  note e = mem [unfolded binding_object_entry opt_entry_key]
  show "b_principalId b = b_principalId c" using e [of "''principalId''" "JStr (b_principalId b)"] by simp
  show "b_clientId b = b_clientId c" using e [of "''clientId''" "JStr s" for s] by (intro option_ext) simp
  show "b_projectId b = b_projectId c" using e [of "''projectId''" "JStr s" for s] by (intro option_ext) simp
  show "b_sessionId b = b_sessionId c" using e [of "''sessionId''" "JStr s" for s] by (intro option_ext) simp
  show "b_capsuleId b = b_capsuleId c" using e [of "''capsuleId''" "JStr s" for s] by (intro option_ext) simp
  show "b_taskId b = b_taskId c" using e [of "''taskId''" "JStr s" for s] by (intro option_ext) simp
qed simp

lemma binding_object_flat:
  "no_undef (JObj (binding_object b))" "\<forall>(k, v) \<in> set (binding_object b). sort_keys lc v = v"
proof -
  have str: "\<exists>s. v = JStr s" if "(k, v) \<in> set (binding_object b)" for k v
    using that unfolding binding_object_entry opt_entry_key by auto
  then show "no_undef (JObj (binding_object b))" "\<forall>(k, v) \<in> set (binding_object b). sort_keys lc v = v"
    by (fastforce simp: list_all_iff)+
qed

definition binding_text :: "approval_env \<Rightarrow> ApprovalBinding \<Rightarrow> string" where
  "binding_text env b = template (canonical (ae_lc env) (JObj (binding_object b)))"

lemma binding_text_inj: "binding_text env b = binding_text env c \<Longrightarrow> b = c"
  unfolding binding_text_def
  by (intro binding_object_inj canonical_flat_object [of "ae_lc env"] binding_object_flat) (simp add: template_def)

lemma no_context:
  assumes "\<not> list_ex (\<lambda>(k, v). k \<noteq> ''principalId'') (binding_object b)"
  shows "b = \<lparr>b_principalId = b_principalId b, b_clientId = None, b_projectId = None, b_sessionId = None,
              b_capsuleId = None, b_taskId = None\<rparr>"
proof -
  have none: "x = None" if "set (opt_entry k x) \<subseteq> set (binding_object b)" "k \<noteq> ''principalId''" for k x
    using that assms by (cases x) (auto simp: opt_entry_def list_ex_iff)
  have "b_clientId b = None" by (rule none [of "''clientId''"]) (auto simp: binding_object_def)
  moreover have "b_projectId b = None" by (rule none [of "''projectId''"]) (auto simp: binding_object_def)
  moreover have "b_sessionId b = None" by (rule none [of "''sessionId''"]) (auto simp: binding_object_def)
  moreover have "b_capsuleId b = None" by (rule none [of "''capsuleId''"]) (auto simp: binding_object_def)
  moreover have "b_taskId b = None" by (rule none [of "''taskId''"]) (auto simp: binding_object_def)
  ultimately show ?thesis by (intro ApprovalBinding.equality) simp_all
qed

section \<open>Failing writes\<close>

text \<open>The same memory: what the decisions read, without the log and the counters.\<close>

definition same_memory :: "approval_state \<Rightarrow> approval_state \<Rightarrow> bool" where
  "same_memory s s' \<longleftrightarrow> as_requests s' = as_requests s \<and> as_session s' = as_session s"

lemma create_failure:
  "fst (create env tool args risk reason requester s) = Inl (StoreError e) \<Longrightarrow>
     same_memory s (snd (create env tool args risk reason requester s))"
  unfolding create_def bindA_def [of "now_A env"] now_A_eq Let_def
  by (auto simp: bindA_def append_A_def act_defs same_memory_def Let_def split: if_split_asm store_outcome.split_asm)

lemma commit_failure:
  assumes "map_of (as_requests s) (ar_id old) = Some old" "ar_id new = ar_id old"
    and "fst (commit_A env old new s) = Inl e"
  shows "same_memory s (snd (commit_A env old new s))"
  by (cases rule: commit_A_cases [OF assms(1,2), of env]) (use assms(3) in \<open>simp_all add: same_memory_def\<close>)

lemma consume_failure:
  assumes "approvals_inv env s" "fst (consumeOnce env tool args requester s) = Inl (StoreError e)"
  shows "same_memory s (snd (consumeOnce env tool args requester s))"
proof -
  from assms(2) obtain m where m: "once_match env tool args requester s = Some m"
    by (auto simp: consumeOnce_def split: option.split_asm)
  let ?s1 = "s\<lparr>as_reads := Suc (as_reads s)\<rparr>" and ?new = "m\<lparr>ar_consumedAt := Some (ae_now env (as_reads s))\<rparr>"
  have eq: "consumeOnce env tool args requester s = bindA (commit_A env m ?new) (\<lambda>_. retA True) ?s1"
    by (simp add: consumeOnce_def m bindA_def [of "now_A env"] now_A_eq)
  have look: "map_of (as_requests ?s1) (ar_id m) = Some m" using once_match_lookup [OF assms(1) m] by simp
  have "ar_id ?new = ar_id m" by simp
  from commit_A_cases [OF look this, of env] show ?thesis
    by cases (use assms(2) in \<open>simp_all add: eq bindA_def same_memory_def retA_def\<close>)
qed

text \<open>Expiry of a request: it only fails for the store, and then leaves the memory.\<close>

lemma expire_cases:
  assumes "approvals_inv env s" "map_of (as_requests s) rid = Some r"
  obtains "ar_state r = SPending" "ar_expiresAt r \<le> ae_now env (as_reads s)" "fst (expireIfNeeded env True rid s) = Inr ()"
      "\<exists>t. map_of (as_requests (snd (expireIfNeeded env True rid s))) rid = Some (r\<lparr>ar_state := SExpired, ar_resolvedAt := Some t\<rparr>)"
  | "ar_state r = SPending" "ar_expiresAt r \<le> ae_now env (as_reads s)"
      "fst (expireIfNeeded env True rid s) = Inl (StoreError ''append'')"
      "same_memory s (snd (expireIfNeeded env True rid s))"
  | n where "ar_state r = SPending \<longrightarrow> ae_now env (as_reads s) < ar_expiresAt r"
      "expireIfNeeded env True rid s = (Inr (), s\<lparr>as_reads := n\<rparr>)"
proof (cases "ar_state r = SPending \<and> ar_expiresAt r \<le> ae_now env (as_reads s)")
  case True
  let ?s2 = "s\<lparr>as_reads := Suc (Suc (as_reads s))\<rparr>"
  let ?new = "r\<lparr>ar_state := SExpired, ar_resolvedAt := Some (ae_now env (Suc (as_reads s)))\<rparr>"
  have eq: "expireIfNeeded env True rid s = commit_A env r ?new ?s2"
    using assms(2) True by (simp add: expireIfNeeded_def bindA_def now_A_eq)
  have r: "ar_id r = rid" using approvals_invD(2) [OF assms(1) map_of_SomeD [OF assms(2)]] by simp
  have look: "map_of (as_requests ?s2) (ar_id r) = Some r" using assms(2) r by simp
  have "ar_id ?new = ar_id r" by simp
  from commit_A_cases [OF look this, of env] show thesis
  proof cases
    case (1 n)
    show thesis by (rule that(1)) (use True r in \<open>auto simp: eq 1 update_conv'\<close>)
  next
    case 2
    show thesis by (rule that(2)) (use True in \<open>simp_all add: eq 2 same_memory_def\<close>)
  next
    case 3
    show thesis by (rule that(2)) (use True in \<open>simp_all add: eq 3 same_memory_def\<close>)
  qed
next
  case False
  show thesis
  proof (cases "ar_state r = SPending")
    case True
    with False assms(2) show thesis
      by (intro that(3) [of "Suc (as_reads s)"]) (auto simp: expireIfNeeded_def bindA_def now_A_eq retA_def)
  next
    case False
    with assms(2) show thesis by (intro that(3) [of "as_reads s"]) (auto simp: expireIfNeeded_def)
  qed
qed

lemma same_memory_reads [simp]: "same_memory (s\<lparr>as_reads := n\<rparr>) s' \<longleftrightarrow> same_memory s s'"
  by (simp add: same_memory_def)

lemma approve_failure:
  assumes inv: "approvals_inv env s" and bad: "fst (approve env rid scope a s) = Inl (StoreError e)"
  shows "same_memory s (snd (approve env rid scope a s))"
proof (cases "map_of (as_requests s) rid")
  case (Some r)
  have r: "ar_id r = rid" using approvals_invD(2) [OF inv map_of_SomeD [OF Some]] by simp
  show ?thesis
  proof (cases rule: expire_cases [OF inv Some])
    case 1
    then have "fst (approve env rid scope a s) = Inl (ApprovalExpired rid)"
      by (auto simp: approve_def Some bindA_def split: prod.split)
    with bad show ?thesis by simp
  next
    case 2
    then show ?thesis by (cases "expireIfNeeded env True rid s") (auto simp: approve_def Some bindA_def)
  next
    case (3 n)
    let ?s = "s\<lparr>as_reads := n\<rparr>"
    from bad 3 have pend: "approve env rid scope a s = approve_pending env r scope a ?s"
      by (auto simp: approve_def Some bindA_def split: if_split_asm)
    have look: "map_of (as_requests ?s) (ar_id r) = Some r" using Some r by simp
    show ?thesis
      by (cases rule: approve_pending_cases [OF look, of env scope a])
        (use bad pend in \<open>simp_all add: same_memory_def\<close>)
  qed
qed (use bad in \<open>simp add: approve_def\<close>)

lemma deny_failure:
  assumes inv: "approvals_inv env s" and bad: "fst (deny env rid a s) = Inl (StoreError e)"
  shows "same_memory s (snd (deny env rid a s))"
proof (cases "map_of (as_requests s) rid")
  case (Some r)
  have r: "ar_id r = rid" using approvals_invD(2) [OF inv map_of_SomeD [OF Some]] by simp
  show ?thesis
  proof (cases rule: expire_cases [OF inv Some])
    case 1
    then have "fst (deny env rid a s) = Inl (ApprovalExpired rid)"
      by (auto simp: deny_def Some bindA_def split: prod.split)
    with bad show ?thesis by simp
  next
    case 2
    then show ?thesis by (cases "expireIfNeeded env True rid s") (auto simp: deny_def Some bindA_def)
  next
    case (3 n)
    let ?s1 = "s\<lparr>as_reads := Suc n\<rparr>"
    let ?new = "r\<lparr>ar_state := SDenied, ar_approverId := Some a, ar_resolvedAt := Some (ae_now env n)\<rparr>"
    from bad 3 have pend: "deny env rid a s = bindA (commit_A env r ?new) (\<lambda>_. retA (Some ?new)) ?s1"
      by (auto simp: deny_def Some deny_pending_def Let_def bindA_def [of "now_A env"] now_A_eq
          bindA_def [of "expireIfNeeded env True rid"] split: if_split_asm)
    have look: "map_of (as_requests ?s1) (ar_id r) = Some r" using Some r by simp
    have "ar_id ?new = ar_id r" by simp
    from commit_A_cases [OF look this, of env] show ?thesis
      by cases (use bad in \<open>simp_all add: pend bindA_def same_memory_def retA_def\<close>)
  qed
qed (use bad in \<open>simp add: deny_def\<close>)

lemma first_sep_unique: "y @ c # x = y' @ c # x' \<Longrightarrow> c \<notin> set y \<Longrightarrow> c \<notin> set y' \<Longrightarrow> y = y' \<and> x = x'"
proof (induction y arbitrary: y')
  case Nil
  then show ?case by (cases y') auto
next
  case (Cons d y)
  then show ?case by (cases y') auto
qed

lemma consume_approved:
  assumes inv: "approvals_inv env s" and ok: "fst (consumeOnce env tool args requester s) = Inr True"
  shows "\<exists>r a t. (ar_id r, r) \<in> set (as_requests s) \<and> ar_tool r = tool \<and>
           requester_key r = bindingKey env (approvalBinding requester) \<and> args_print env r = fingerprint env args \<and>
           ar_state r = SApproved \<and> ar_scope r = ScopeOnce \<and> ar_consumedAt r = None \<and>
           ar_approverId r = Some a \<and> a \<noteq> ar_requesterId r \<and>
           as_requests (snd (consumeOnce env tool args requester s)) =
             AList.update (ar_id r) (r\<lparr>ar_consumedAt := Some t\<rparr>) (as_requests s)"
proof -
  from ok obtain m where m: "once_match env tool args requester s = Some m"
    by (auto simp: consumeOnce_def split: option.split_asm)
  note g = once_match_SomeD [OF m] and look = once_match_lookup [OF inv m]
  let ?s1 = "s\<lparr>as_reads := Suc (as_reads s)\<rparr>" and ?t = "ae_now env (as_reads s)"
  have eq: "consumeOnce env tool args requester s = bindA (commit_A env m (m\<lparr>ar_consumedAt := Some ?t\<rparr>)) (\<lambda>_. retA True) ?s1"
    by (simp add: consumeOnce_def m bindA_def [of "now_A env"] now_A_eq)
  have "as_requests (snd (consumeOnce env tool args requester s)) =
        AList.update (ar_id m) (m\<lparr>ar_consumedAt := Some ?t\<rparr>) (as_requests s)"
  proof (cases rule: commit_A_cases [of ?s1 m "m\<lparr>ar_consumedAt := Some ?t\<rparr>" env])
    case (3 n)
    then show ?thesis by (simp add: eq bindA_def retA_def)
  qed (use look ok in \<open>simp_all add: eq bindA_def\<close>)
  moreover obtain a where "ar_approverId m = Some a" "a \<noteq> ar_requesterId m"
    using approvals_invD(2) [OF inv map_of_SomeD [OF look]] g by (auto simp: request_ok_def grants_def)
  ultimately show ?thesis using g map_of_SomeD [OF look] by (auto simp: grants_def)
qed

lemma session_approved:
  assumes inv: "approvals_inv env s" and al: "isSessionAllowed env tool requester s" and nul: "CHR 0x00 \<notin> set tool"
  shows "\<exists>r a. (ar_id r, r) \<in> set (as_requests s) \<and> ar_state r = SApproved \<and> ar_scope r = ScopeSession \<and>
           ar_approverId r = Some a \<and> a \<noteq> ar_requesterId r \<and>
           (CHR 0x00 \<in> set (ar_tool r) \<or>
            ar_tool r = tool \<and> requester_key r = bindingKey env (approvalBinding requester))"
proof -
  from al have "sessionKey tool (bindingKey env (approvalBinding requester)) \<in> set (as_session s)"
    by (simp add: isSessionAllowed_def)
  from approvals_invD(4) [OF inv this] obtain i r where r: "(i, r) \<in> set (as_requests s)" "ar_state r = SApproved"
    "ar_scope r = ScopeSession" "sessionKey tool (bindingKey env (approvalBinding requester)) = session_grant r"
    by blast
  have split: "x = x' \<and> y = y'" if "x @ [CHR 0x00] @ y = x' @ [CHR 0x00] @ y'" "CHR 0x00 \<notin> set y" "CHR 0x00 \<notin> set y'"
    for x x' y y' :: string
  proof -
    have "rev y @ CHR 0x00 # rev x = rev y' @ CHR 0x00 # rev x'" using arg_cong [OF that(1), of rev] by simp
    from first_sep_unique [OF this] that(2,3) show ?thesis by simp
  qed
  from approvals_invD(2) [OF inv r(1)] r(2) obtain a where "ar_id r = i" "ar_approverId r = Some a" "a \<noteq> ar_requesterId r"
    by (auto simp: request_ok_def)
  with r split [of "bindingKey env (approvalBinding requester)" tool "requester_key r" "ar_tool r"] nul
  show ?thesis by (intro exI [of _ r] exI [of _ a]) (auto simp: session_grant_def sessionKey_def)
qed

section \<open>Properties\<close>

text \<open>Claim C2. An approval for one call is used at most once: over any run of the engine from an empty
  store, with any interleaving of requests, resolutions, consumptions, failing writes and restarts of
  the process, no two successful consumptions use the same request, as long as the random identifiers
  drawn in the run do not repeat.\<close>

theorem once_grant_used_at_most_once:
  assumes "ap_empty s0" "inj_on (approval_id env) {..<as_draws (fold (ap_do env) ops s0)}"
  shows "distinct (grants_of env ops s0)"
proof -
  have "approvals_inv env s0" using assms(1) by (simp add: ap_empty_def approvals_inv_def)
  from grants_not_used [OF assms(2) this order_refl] show ?thesis by blast
qed

definition demo_env :: approval_env where
  "demo_env =
     \<lparr>ae_sha256 = (\<lambda>s. s), ae_lc = code_unit_le, ae_sanitize = (\<lambda>v. v), ae_ttl = 100, ae_restoreSession = False,
      ae_hasStore = True, ae_now = int, ae_uuid = (\<lambda>j. [char_of (65 + j)]),
      ae_store = (\<lambda>j. if j = 3 then StoreFailed else StoreOk)\<rparr>"

definition demo_queue :: approval_state where
  "demo_queue = \<lparr>as_requests = [], as_session = [], as_stored = [], as_reads = 0, as_draws = 0, as_writes = 0\<rparr>"

definition demo_ops :: "approval_op list" where
  "demo_ops =
     [OpCreate ''t'' (JObj []) HIGH ''r'' (bare_principal ''a'' RoleAgent), OpApprove ''appr_A'' ScopeOnce ''b'',
      OpRestart, OpConsume ''t'' (JObj []) (bare_principal ''a'' RoleAgent),
      OpConsume ''t'' (JObj []) (bare_principal ''a'' RoleAgent), OpRestart,
      OpConsume ''t'' (JObj []) (bare_principal ''a'' RoleAgent)]"

theorem once_grant_used_at_most_once_witness:
  "grants_of demo_env demo_ops demo_queue = [''appr_A''] \<and> distinct (grants_of demo_env demo_ops demo_queue)"
proof -
  have "as_draws (fold (ap_do demo_env) demo_ops demo_queue) = 1" by code_simp
  moreover have "grants_of demo_env demo_ops demo_queue = [''appr_A'']" by code_simp
  moreover have "ap_empty demo_queue" by (simp add: ap_empty_def demo_queue_def)
  ultimately show ?thesis
    using once_grant_used_at_most_once [of demo_queue demo_env demo_ops] by (simp add: inj_on_def)
qed

text \<open>A call that is let through by a once-grant has been approved: in every reachable state, a
  successful consumption uses a stored request for the same tool, the same requester binding and the
  same argument fingerprint, approved for one call by a principal other than its requester and not
  consumed before; afterwards exactly that request is marked as consumed.\<close>

theorem consumed_call_was_approved:
  assumes "ap_empty s0" "s = fold (ap_do env) ops s0" "inj_on (approval_id env) {..<as_draws s}"
    and "fst (consumeOnce env tool args requester s) = Inr True"
  shows "\<exists>r a t. (ar_id r, r) \<in> set (as_requests s) \<and> ar_tool r = tool \<and>
           requester_key r = bindingKey env (approvalBinding requester) \<and> args_print env r = fingerprint env args \<and>
           ar_state r = SApproved \<and> ar_scope r = ScopeOnce \<and> ar_consumedAt r = None \<and>
           ar_approverId r = Some a \<and> a \<noteq> ar_requesterId r \<and>
           as_requests (snd (consumeOnce env tool args requester s)) =
             AList.update (ar_id r) (r\<lparr>ar_consumedAt := Some t\<rparr>) (as_requests s)"
  by (rule consume_approved [OF reachable_inv [OF assms(3,1,2)] assms(4)])

theorem consumed_call_was_approved_witness:
  "\<exists>r a. (ar_id r, r) \<in> set (as_requests (fold (ap_do demo_env) (take 4 demo_ops) demo_queue)) \<and>
      ar_tool r = ''t'' \<and> ar_approverId r = Some a \<and> a \<noteq> ar_requesterId r"
proof -
  let ?s = "fold (ap_do demo_env) (take 4 demo_ops) demo_queue"
  have "as_draws ?s = 1" "fst (consumeOnce demo_env ''t'' (JObj []) (bare_principal ''a'' RoleAgent) ?s) = Inr True"
    by code_simp+
  moreover have "ap_empty demo_queue" by (simp add: ap_empty_def demo_queue_def)
  ultimately show ?thesis
    using consumed_call_was_approved [OF _ refl, of demo_queue demo_env "take 4 demo_ops" "''t''" "JObj []"
        "bare_principal ''a'' RoleAgent"] by (auto simp: inj_on_def)
qed

text \<open>A session allowance exists only through an approval: in every reachable state a tool that is
  allowed for a principal's session has a stored request with that session key, approved for the session
  by a principal other than its requester; and when the tool names hold no NUL character it is a request
  for the same tool and the same requester binding.\<close>

theorem session_allowance_was_approved:
  assumes "ap_empty s0" "s = fold (ap_do env) ops s0" "inj_on (approval_id env) {..<as_draws s}"
    and "isSessionAllowed env tool requester s" "CHR 0x00 \<notin> set tool"
  shows "\<exists>r a. (ar_id r, r) \<in> set (as_requests s) \<and> ar_state r = SApproved \<and> ar_scope r = ScopeSession \<and>
           ar_approverId r = Some a \<and> a \<noteq> ar_requesterId r \<and>
           (CHR 0x00 \<in> set (ar_tool r) \<or>
            ar_tool r = tool \<and> requester_key r = bindingKey env (approvalBinding requester))"
  by (rule session_approved [OF reachable_inv [OF assms(3,1,2)] assms(4,5)])

theorem session_allowance_was_approved_witness:
  "let s = fold (ap_do demo_env) [hd demo_ops, OpApprove ''appr_A'' ScopeSession ''b''] demo_queue
   in isSessionAllowed demo_env ''t'' (bare_principal ''a'' RoleAgent) s \<and>
      (\<exists>r a. (ar_id r, r) \<in> set (as_requests s) \<and> ar_approverId r = Some a \<and> a \<noteq> ar_requesterId r)"
proof -
  let ?ops = "[hd demo_ops, OpApprove ''appr_A'' ScopeSession ''b'']"
  let ?s = "fold (ap_do demo_env) ?ops demo_queue"
  have "as_draws ?s = 1" "isSessionAllowed demo_env ''t'' (bare_principal ''a'' RoleAgent) ?s" by code_simp+
  moreover have "ap_empty demo_queue" by (simp add: ap_empty_def demo_queue_def)
  ultimately show ?thesis
    using session_allowance_was_approved [OF _ refl, of demo_queue demo_env ?ops "''t''"
        "bare_principal ''a'' RoleAgent"] by (auto simp: inj_on_def Let_def)
qed

text \<open>A failed write changes nothing in memory: when filing, consuming, approving or denying throws
  because the store does, the requests and the session allowances are those from before the call.\<close>

theorem store_failure_leaves_memory:
  assumes "ap_empty s0" "s = fold (ap_do env) ops s0" "inj_on (approval_id env) {..<as_draws s}"
    and "(fst (create env tool args risk reason requester s) = Inl (StoreError e) \<and>
            s' = snd (create env tool args risk reason requester s)) \<or>
         (fst (consumeOnce env tool args requester s) = Inl (StoreError e) \<and>
            s' = snd (consumeOnce env tool args requester s)) \<or>
         (fst (approve env rid scope a s) = Inl (StoreError e) \<and> s' = snd (approve env rid scope a s)) \<or>
         (fst (deny env rid a s) = Inl (StoreError e) \<and> s' = snd (deny env rid a s))"
  shows "as_requests s' = as_requests s \<and> as_session s' = as_session s"
proof -
  have inv: "approvals_inv env s" by (rule reachable_inv [OF assms(3,1,2)])
  from assms(4) have "same_memory s s'"
    by (elim disjE conjE)
      (simp_all add: create_failure consume_failure [OF inv] approve_failure [OF inv] deny_failure [OF inv])
  then show ?thesis by (simp add: same_memory_def)
qed

theorem store_failure_leaves_memory_witness:
  "let s = fold (ap_do demo_env) (take 3 demo_ops) demo_queue
   in fst (consumeOnce demo_env ''t'' (JObj []) (bare_principal ''a'' RoleAgent) s) = Inl (StoreError ''append'') \<and>
      as_requests (snd (consumeOnce demo_env ''t'' (JObj []) (bare_principal ''a'' RoleAgent) s)) = as_requests s"
proof -
  let ?s = "fold (ap_do demo_env) (take 3 demo_ops) demo_queue" and ?p = "bare_principal ''a'' RoleAgent"
  have "as_draws ?s = 1" "fst (consumeOnce demo_env ''t'' (JObj []) ?p ?s) = Inl (StoreError ''append'')" by code_simp+
  moreover have "ap_empty demo_queue" by (simp add: ap_empty_def demo_queue_def)
  ultimately show ?thesis
    using store_failure_leaves_memory [OF _ refl, of demo_queue demo_env "take 3 demo_ops" "''t''" "JObj []" LOW "[]"
        ?p "''append''" "snd (consumeOnce demo_env ''t'' (JObj []) ?p ?s)"]
    by (simp add: inj_on_def Let_def)
qed

text \<open>Approving a pending request succeeds only before its expiry and only for another principal:
  if the call returns a request, the clock reading it took was before the expiry, the approver is not
  the requester, and the stored request is the old one marked approved, with its tool, arguments,
  binding and expiry unchanged.\<close>

theorem approval_only_in_time_by_another:
  assumes "ap_empty s0" "s = fold (ap_do env) ops s0" "inj_on (approval_id env) {..<as_draws s}"
    and "map_of (as_requests s) rid = Some q" "ar_state q = SPending"
    and "fst (approve env rid scope a s) = Inr (Some r)"
  shows "ae_now env (as_reads s) < ar_expiresAt q \<and> a \<noteq> ar_requesterId q \<and>
         (\<exists>t. r = approved_by q scope a t) \<and>
         map_of (as_requests (snd (approve env rid scope a s))) rid = Some r"
proof -
  have inv: "approvals_inv env s" by (rule reachable_inv [OF assms(3,1,2)])
  have q: "ar_id q = rid" using approvals_invD(2) [OF inv map_of_SomeD [OF assms(4)]] by simp
  show ?thesis
  proof (cases rule: expire_cases [OF inv assms(4)])
    case 1
    then have "fst (approve env rid scope a s) = Inl (ApprovalExpired rid)"
      by (auto simp: approve_def assms(4) bindA_def split: prod.split)
    with assms(6) show ?thesis by simp
  next
    case 2
    with assms(6) show ?thesis by (cases "expireIfNeeded env True rid s") (auto simp: approve_def assms(4) bindA_def)
  next
    case (3 n)
    let ?s = "s\<lparr>as_reads := n\<rparr>"
    from assms(5,6) 3 have pend: "approve env rid scope a s = approve_pending env q scope a ?s" "a \<noteq> ar_requesterId q"
      by (auto simp: approve_def assms(4) bindA_def split: if_split_asm)
    have look: "map_of (as_requests ?s) (ar_id q) = Some q" using assms(4) q by simp
    show ?thesis
      by (cases rule: approve_pending_cases [OF look, of env scope a])
        (use assms(5,6) 3(1) pend q in \<open>auto simp: update_conv'\<close>)
  qed
qed

theorem approval_only_in_time_by_another_witness:
  "let s = fold (ap_do demo_env) [hd demo_ops] demo_queue
   in \<exists>r t. fst (approve demo_env ''appr_A'' ScopeOnce ''b'' s) = Inr (Some r) \<and>
        (\<exists>q. map_of (as_requests s) ''appr_A'' = Some q \<and> r = approved_by q ScopeOnce ''b'' t)"
proof -
  let ?s = "fold (ap_do demo_env) [hd demo_ops] demo_queue"
  have "as_draws ?s = 1" "map_option ar_state (map_of (as_requests ?s) ''appr_A'') = Some SPending"
    "(case fst (approve demo_env ''appr_A'' ScopeOnce ''b'' ?s) of Inr (Some r) \<Rightarrow> True | _ \<Rightarrow> False)"
    by code_simp+
  then obtain q r where qr: "map_of (as_requests ?s) ''appr_A'' = Some q" "ar_state q = SPending"
    "fst (approve demo_env ''appr_A'' ScopeOnce ''b'' ?s) = Inr (Some r)"
    by (auto split: sum.split_asm option.split_asm)
  moreover have "ap_empty demo_queue" by (simp add: ap_empty_def demo_queue_def)
  moreover have "inj_on (approval_id demo_env) {..<as_draws ?s}" using \<open>as_draws ?s = 1\<close> by (simp add: inj_on_def)
  ultimately show ?thesis
    using approval_only_in_time_by_another [OF _ refl, of demo_queue demo_env "[hd demo_ops]"] by (simp add: Let_def)
qed

text \<open>The key under which a requester's grants are matched identifies the whole execution context:
  if the hash does not collide on the two bindings and no principal is named like a hashed key, equal
  keys mean equal principal, OAuth client, project, session, capsule and task.\<close>

theorem binding_key_identifies_context:
  assumes "bindingKey env b = bindingKey env c"
    and "ae_sha256 env (binding_text env b) = ae_sha256 env (binding_text env c) \<Longrightarrow>
           binding_text env b = binding_text env c"
    and "\<not> starts_with ''binding:sha256:'' (b_principalId b)" "\<not> starts_with ''binding:sha256:'' (b_principalId c)"
  shows "b = c"
proof -
  let ?ctx = "\<lambda>b. list_ex (\<lambda>(k, v). k \<noteq> ''principalId'') (binding_object b)"
  have key: "bindingKey env x = (if ?ctx x then ''binding:sha256:'' @ ae_sha256 env (binding_text env x) else b_principalId x)" for x
    by (simp add: bindingKey_def binding_text_def)
  consider "?ctx b" "?ctx c" | "\<not> ?ctx b" "\<not> ?ctx c" | "?ctx b" "\<not> ?ctx c" | "\<not> ?ctx b" "?ctx c" by blast
  then show ?thesis
  proof cases
    case 1
    with assms(1) have "ae_sha256 env (binding_text env b) = ae_sha256 env (binding_text env c)"
      unfolding key by simp
    then show ?thesis by (intro binding_text_inj [of env] assms(2))
  next
    case 2
    with assms(1) have "b_principalId b = b_principalId c" unfolding key by simp
    with no_context [OF 2(1)] no_context [OF 2(2)] show ?thesis by metis
  next
    case 3
    with assms(1) have "b_principalId c = ''binding:sha256:'' @ ae_sha256 env (binding_text env b)" unfolding key by simp
    with assms(4) show ?thesis using starts_with_append [of "''binding:sha256:''"] by metis
  next
    case 4
    with assms(1) have "b_principalId b = ''binding:sha256:'' @ ae_sha256 env (binding_text env c)" unfolding key by simp
    with assms(3) show ?thesis using starts_with_append [of "''binding:sha256:''"] by metis
  qed
qed

definition demo_binding :: ApprovalBinding where
  "demo_binding = \<lparr>b_principalId = ''a'', b_clientId = None, b_projectId = Some ''p'', b_sessionId = None,
     b_capsuleId = None, b_taskId = None\<rparr>"

theorem binding_key_identifies_context_witness:
  "demo_binding = approvalBinding ((bare_principal ''a'' RoleAgent)\<lparr>p_projectId := Some ''p'', p_taskId := Some []\<rparr>)"
proof (rule binding_key_identifies_context [of demo_env])
  let ?c = "approvalBinding ((bare_principal ''a'' RoleAgent)\<lparr>p_projectId := Some ''p'', p_taskId := Some []\<rparr>)"
  show "bindingKey demo_env demo_binding = bindingKey demo_env ?c" by code_simp
  show "binding_text demo_env demo_binding = binding_text demo_env ?c"
    if "ae_sha256 demo_env (binding_text demo_env demo_binding) = ae_sha256 demo_env (binding_text demo_env ?c)"
    using that by (simp add: demo_env_def)
  show "\<not> starts_with ''binding:sha256:'' (b_principalId demo_binding)"
    "\<not> starts_with ''binding:sha256:'' (b_principalId ?c)" by code_simp+
qed

text \<open>The argument fingerprint identifies the arguments: for JSON arguments on whose canonical texts
  the hash does not collide, the fingerprints are equal exactly when the values are equal up to the order
  of object keys, at every depth.\<close>

theorem fingerprint_identifies_arguments:
  assumes "no_undef v" "no_undef w"
    and "ae_sha256 env (template (canonical (ae_lc env) v)) = ae_sha256 env (template (canonical (ae_lc env) w)) \<Longrightarrow>
           canonical (ae_lc env) v = canonical (ae_lc env) w"
  shows "fingerprint env v = fingerprint env w \<longleftrightarrow> sort_keys (ae_lc env) v = sort_keys (ae_lc env) w"
proof
  assume "fingerprint env v = fingerprint env w"
  then show "sort_keys (ae_lc env) v = sort_keys (ae_lc env) w"
    by (intro canonical_determines assms) (simp add: fingerprint_def)
qed (simp add: fingerprint_def canonical_eq)

theorem fingerprint_identifies_arguments_witness:
  "fingerprint demo_env (JObj [(''b'', JNum 1), (''a'', JStr ''x'')]) =
     fingerprint demo_env (JObj [(''a'', JStr ''x''), (''b'', JNum 1)]) \<and>
   fingerprint demo_env (JObj [(''a'', JNum 1)]) \<noteq> fingerprint demo_env (JObj [(''a'', JStr ''1'')])"
proof -
  have iff: "fingerprint demo_env (JObj x) = fingerprint demo_env (JObj y) \<longleftrightarrow>
      sort_keys (ae_lc demo_env) (JObj x) = sort_keys (ae_lc demo_env) (JObj y)"
    if "no_undef (JObj x)" "no_undef (JObj y)" for x y
    by (rule fingerprint_identifies_arguments [OF that]) (simp add: demo_env_def template_def)
  have s: "sort_keys (ae_lc demo_env) (JObj [(''b'', JNum 1), (''a'', JStr ''x'')]) =
      sort_keys (ae_lc demo_env) (JObj [(''a'', JStr ''x''), (''b'', JNum 1)])"
    "sort_keys (ae_lc demo_env) (JObj [(''a'', JNum 1)]) \<noteq> sort_keys (ae_lc demo_env) (JObj [(''a'', JStr ''1'')])"
    by code_simp+
  have u: "no_undef (JObj [(''b'', JNum 1), (''a'', JStr ''x'')])" "no_undef (JObj [(''a'', JStr ''x''), (''b'', JNum 1)])"
    "no_undef (JObj [(''a'', JNum 1)])" "no_undef (JObj [(''a'', JStr ''1'')])" by simp_all
  show ?thesis unfolding iff [OF u(1,2)] iff [OF u(3,4)] using s by (rule conjI)
qed

text \<open>A value of at most \<open>d\<close> nested levels, with at most 21 elements or fields on each and texts of at most
  1036 characters; the notes that count what was dropped are as long as the count.\<close>

definition dropped_note :: "string \<Rightarrow> bool" where
  "dropped_note s \<longleftrightarrow> (\<exists>n. s = ''[TRUNCATED: '' @ show_nat n @ '' items]'' \<or> s = show_nat n @ '' fields'')"

fun evidence_within :: "nat \<Rightarrow> jval \<Rightarrow> bool" where
  "evidence_within d (JStr s) = (length s \<le> 1036 \<or> dropped_note s)"
| "evidence_within d (JArr vs) = (0 < d \<and> length vs \<le> 21 \<and> list_all (evidence_within (d - 1)) vs)"
| "evidence_within d (JObj kvs) = (0 < d \<and> length kvs \<le> 21 \<and> list_all (\<lambda>(k, v). evidence_within (d - 1) v) kvs)"
| "evidence_within d v = True"

lemma alist_update_bound:
  "length (AList.update k v al) \<le> Suc (length al)" "set (AList.update k v al) \<subseteq> insert (k, v) (set al)"
  by (induction al) auto

lemma bounded_array:
  assumes "depth < 5" "\<And>x. x \<in> set (take 20 vs) \<Longrightarrow> evidence_within (4 - depth) (boundedEvidence (depth + 1) x)"
  shows "evidence_within (5 - depth) (boundedEvidence depth (JArr vs))"
  using assms by (auto simp: boundedEvidence.simps [of depth] list_all_iff dropped_note_def)

lemma bounded_object:
  assumes "depth < 5" "\<And>k x. (k, x) \<in> set (take 20 kvs) \<Longrightarrow> evidence_within (4 - depth) (boundedEvidence (depth + 1) x)"
  shows "evidence_within (5 - depth) (boundedEvidence depth (JObj kvs))"
proof -
  let ?b = "map (\<lambda>(k, child). (k, boundedEvidence (depth + 1) child)) (take 20 kvs)"
  let ?note = "JStr (show_nat (length kvs - 20) @ '' fields'')"
  have ok: "\<forall>(k, v) \<in> set ?b. evidence_within (4 - depth) v" using assms(2) by auto
  have nt: "evidence_within (4 - depth) ?note" by (auto simp: dropped_note_def)
  have "length (AList.update ''__truncated'' ?note ?b) \<le> 21"
    using alist_update_bound(1) [of "''__truncated''" ?note ?b] by simp
  moreover have "\<forall>(k, v) \<in> set (AList.update ''__truncated'' ?note ?b). evidence_within (4 - depth) v"
    using alist_update_bound(2) [of "''__truncated''" ?note ?b] ok nt by fastforce
  ultimately show ?thesis
    using ok assms(1) by (simp add: boundedEvidence.simps [of depth] list_all_iff Let_def)
qed

text \<open>The evidence kept with a request is bounded whatever the arguments are: counted from the
  arguments themselves, at most five nested levels of arrays and objects, at most 21 elements or fields
  on each, and texts of at most 1036 characters.\<close>

theorem recorded_evidence_is_bounded: "evidence_within (5 - depth) (boundedEvidence depth v)"
proof (induction depth v rule: boundedEvidence.induct)
  case (1 depth v)
  show ?case
  proof (cases "depth \<ge> 5")
    case True
    then show ?thesis by (simp add: boundedEvidence.simps [of depth])
  next
    case False
    then have d: "depth < 5" "5 - (depth + 1) = 4 - depth" by simp_all
    show ?thesis
    proof (cases v)
      case (JStr t)
      then show ?thesis using False by (simp add: boundedEvidence.simps [of depth] ellipsis_def)
    next
      case (JArr vs)
      then show ?thesis using bounded_array [OF d(1), of vs] 1(1) [OF False JArr] d(2) by simp
    next
      case (JObj kvs)
      have "evidence_within (4 - depth) (boundedEvidence (depth + 1) x)" if "(k, x) \<in> set (take 20 kvs)" for k x
        using 1(2) [OF False JObj that refl] d(2) by simp
      with JObj show ?thesis using bounded_object [OF d(1)] by simp
    qed (use False in \<open>simp_all add: boundedEvidence.simps [of depth]\<close>)
  qed
qed

end
