(* ===== verification/FF_PolicyEngine.thy ===== *)
theory FF_PolicyEngine
  imports FF_PolicyCode FF_Command FF_Approvals
begin

text \<open>
  \<^verbatim>\<open>src/policy/policy-engine.ts\<close>: the decision point that joins the command policy, the risk model,
  the policy mode, the rule files and the approval queue.  The engine's own state is its mode and the
  queue; what the constructor reads from the configuration is the record \<open>engine_config\<close>.
\<close>

datatype Decision =
    Allow risk_level
  | Deny risk_level string
  | NeedsApproval risk_level string string

datatype sandbox_mode = SandboxProcess | SandboxDocker | SandboxPodman

record sandbox_config =
  sb_mode :: sandbox_mode
  sb_requireInDanger :: "bool option"

record engine_config =
  ec_requireApproval :: "string list"
  ec_blockedCommands :: "string list"
  ec_sandbox :: "sandbox_config option"
  ec_cwd :: string
  ec_tmpdir :: string
  ec_rules :: "loaded_rule list"
  ec_approvals :: approval_env

record engine_state =
  es_mode :: policy_mode
  es_queue :: approval_state

text \<open>The default \<^verbatim>\<open>agent:unknown\<close> of a missing requester is the caller's choice of argument.\<close>

datatype requester = ByName string | ByPrincipal tool_principal

definition normalizePrincipal :: "requester \<Rightarrow> tool_principal" where
  "normalizePrincipal r = (case r of ByName s \<Rightarrow> bare_principal s RoleAgent | ByPrincipal p \<Rightarrow> p)"

definition getMode :: "engine_state \<Rightarrow> policy_mode" where
  "getMode s = es_mode s"

definition setMode :: "policy_mode \<Rightarrow> engine_state \<Rightarrow> engine_state" where
  "setMode m s = s\<lparr>es_mode := m\<rparr>"

text \<open>A call of the queue inside the engine.\<close>

definition on_queue :: "(approval_state, 'a) act \<Rightarrow> (engine_state, 'a) act" where
  "on_queue m s = (case m (es_queue s) of (r, q) \<Rightarrow> (r, s\<lparr>es_queue := q\<rparr>))"

definition commandDeny :: "engine_config \<Rightarrow> policy_mode \<Rightarrow> string \<Rightarrow> jobject \<Rightarrow> string option" where
  "commandDeny cfg mode toolName args =
     (if toolName = ''shell_exec'' \<or> toolName = ''process_start'' then
        if mode = Danger \<and>
           (case ec_sandbox cfg of None \<Rightarrow> True | Some sb \<Rightarrow> sb_requireInDanger sb \<noteq> Some False) \<and>
           (case ec_sandbox cfg of None \<Rightarrow> True | Some sb \<Rightarrow> sb_mode sb = SandboxProcess)
        then Some ''Danger command execution requires terminal.sandbox.mode docker or podman.''
        else case jget args ''command'' of
          JStr command \<Rightarrow>
            (case cc_blockedReason (classify (ec_cwd cfg) (ec_tmpdir cfg) (ec_blockedCommands cfg) command) of
               Some reason \<Rightarrow> Some (''Blocked destructive command: '' @ reason)
             | None \<Rightarrow> None)
        | _ \<Rightarrow> None
      else None)"

definition toApproval :: "engine_config \<Rightarrow> string \<Rightarrow> risk_level \<Rightarrow> jobject \<Rightarrow> string \<Rightarrow> tool_principal \<Rightarrow>
    (engine_state, Decision) act" where
  "toApproval cfg toolName risk args reason requester =
     bindA (on_queue (create (ec_approvals cfg) toolName (JObj args) risk reason requester))
       (\<lambda>req. retA (NeedsApproval risk (ar_id req) reason))"

definition rule_context_of :: "policy_mode \<Rightarrow> string \<Rightarrow> risk_level \<Rightarrow> bool \<Rightarrow> tool_principal \<Rightarrow> rule_context" where
  "rule_context_of mode toolName risk mutates p =
     \<lparr>ctx_tool = toolName, ctx_risk = risk, ctx_mutates = mutates, ctx_mode = mode, ctx_principal = p\<rparr>"

definition critical_reason :: "policy_mode \<Rightarrow> string" where
  "critical_reason mode = ''CRITICAL action blocked in '' @ mode_text mode @ '' mode.''"

definition readonly_reason :: string where
  "readonly_reason = ''Workspace is in readonly mode; mutations are blocked.''"

definition is_deny_rule :: "rule_match option \<Rightarrow> bool" where
  "is_deny_rule r \<longleftrightarrow> (case r of Some x \<Rightarrow> rm_effect x = EffDeny | None \<Rightarrow> False)"

definition is_approval_rule :: "rule_match option \<Rightarrow> bool" where
  "is_approval_rule r \<longleftrightarrow> (case r of Some x \<Rightarrow> rm_effect x = EffApproval | None \<Rightarrow> False)"

definition rule_reason_of :: "rule_match option \<Rightarrow> string" where
  "rule_reason_of r = (case r of Some x \<Rightarrow> rm_reason x | None \<Rightarrow> [])"

definition approval_reason :: "string \<Rightarrow> risk_level \<Rightarrow> rule_match option \<Rightarrow> string" where
  "approval_reason toolName risk policyRule =
     (if is_approval_rule policyRule then rule_reason_of policyRule
      else toolName @ '' ('' @ risk_text risk @ '') requires approval.'')"

text \<open>\<^verbatim>\<open>isSessionAllowed(...) || consumeOnce(...)\<close>: the grant is only consumed when no session
  allowance exists.\<close>

definition granted_now :: "engine_config \<Rightarrow> string \<Rightarrow> jobject \<Rightarrow> tool_principal \<Rightarrow> (engine_state, bool) act" where
  "granted_now cfg toolName args p s =
     (if isSessionAllowed (ec_approvals cfg) toolName p (es_queue s) then (Inr True, s)
      else on_queue (consumeOnce (ec_approvals cfg) toolName (JObj args) p) s)"

definition evaluate :: "engine_config \<Rightarrow> string \<Rightarrow> risk_level \<Rightarrow> bool \<Rightarrow> jobject \<Rightarrow> requester \<Rightarrow> bool \<Rightarrow>
    (engine_state, Decision) act" where
  "evaluate cfg toolName risk mutates args requester bypassReadonly s =
     (let p = normalizePrincipal requester; mode = es_mode s in
      case commandDeny cfg mode toolName args of
        Some reason \<Rightarrow> (Inr (Deny risk reason), s)
      | None \<Rightarrow>
        if risk = CRITICAL \<and> mode \<noteq> Danger then (Inr (Deny risk (critical_reason mode)), s)
        else if mode = Readonly \<and> mutates \<and> \<not> bypassReadonly then (Inr (Deny risk readonly_reason), s)
        else case pac_evaluate (ec_rules cfg) (rule_context_of mode toolName risk mutates p) of
          Inl e \<Rightarrow> (Inl e, s)
        | Inr policyRule \<Rightarrow>
            if is_deny_rule policyRule then (Inr (Deny risk (rule_reason_of policyRule)), s)
            else if mode = Danger then (Inr (Allow risk), s)
            else
              let needsApproval = (toolName \<in> set (ec_requireApproval cfg) \<or> RISK_ORDER risk \<ge> RISK_ORDER HIGH
                                   \<or> is_approval_rule policyRule);
                  approvalReason = approval_reason toolName risk policyRule
              in if \<not> needsApproval then (Inr (Allow risk), s)
                 else bindA (granted_now cfg toolName args p) (\<lambda>ok.
                        if ok then retA (Allow risk)
                        else toApproval cfg toolName risk args approvalReason p) s)"

datatype decision_kind = KAllow | KDeny | KApproval

record explanation =
  ex_decision :: decision_kind
  ex_risk :: risk_level
  ex_reason :: string
  ex_mode :: policy_mode
  ex_mutates :: bool
  ex_factors :: "string list"

definition danger_sandbox_text :: string where
  "danger_sandbox_text = ''Danger command execution requires''"

definition explain :: "engine_config \<Rightarrow> engine_state \<Rightarrow> string \<Rightarrow> risk_level \<Rightarrow> bool \<Rightarrow> jobject \<Rightarrow> requester \<Rightarrow>
    explanation result" where
  "explain cfg s toolName risk mutates args requester =
     (let p = normalizePrincipal requester; mode = es_mode s;
          result = (\<lambda>d reason factors.
            \<lparr>ex_decision = d, ex_risk = risk, ex_reason = reason, ex_mode = mode, ex_mutates = mutates,
             ex_factors = factors\<rparr>)
      in case commandDeny cfg mode toolName args of
           Some reason \<Rightarrow>
             Inr (result KDeny reason
               [if starts_with danger_sandbox_text reason
                then ''danger command execution requires an enforced container sandbox''
                else ''command matches a hard destructive-command deny''])
         | None \<Rightarrow>
           if risk = CRITICAL \<and> mode \<noteq> Danger then
             Inr (result KDeny (critical_reason mode) [''risk is CRITICAL'', ''mode is '' @ mode_text mode])
           else if mode = Readonly \<and> mutates then
             Inr (result KDeny readonly_reason [''mode is readonly and the tool mutates state''])
           else bindR (pac_evaluate (ec_rules cfg) (rule_context_of mode toolName risk mutates p)) (\<lambda>policyRule.
             let f0 = (case policyRule of
                   Some m \<Rightarrow> [''matched policy rule '' @ rm_ruleId m, ''policy effect is '' @ effect_text (rm_effect m)]
                 | None \<Rightarrow> []);
                 onList = toolName \<in> set (ec_requireApproval cfg);
                 highRisk = RISK_ORDER risk \<ge> RISK_ORDER HIGH;
                 f1 = f0 @ (if onList then [''tool is in requireApproval list''] else []) @
                      (if highRisk then [''risk is '' @ risk_text risk @ '' (>= HIGH)''] else [])
             in if is_deny_rule policyRule then Inr (result KDeny (rule_reason_of policyRule) f0)
                else if mode = Danger then
                  Inr (result KAllow (toolName @ '' ('' @ risk_text risk @ '') is allowed in danger mode without approval.'')
                    (f1 @ (if is_approval_rule policyRule
                           then [''policy-as-code approval is bypassed in danger mode''] else []) @
                     [''danger mode bypasses all approval requirements'']))
                else
                  let f2 = f1 @ (if \<not> (onList \<or> highRisk)
                                then [''risk is '' @ risk_text risk @ '' and allowed in '' @ mode_text mode @ '' mode''] else []);
                      needsApproval = (onList \<or> highRisk \<or> is_approval_rule policyRule);
                      reason = (if is_approval_rule policyRule then rule_reason_of policyRule
                                else if onList \<or> highRisk
                                then toolName @ '' ('' @ risk_text risk @ '') requires approval.''
                                else toolName @ '' ('' @ risk_text risk @ '') is allowed.'')
                  in if needsApproval \<and> isSessionAllowed (ec_approvals cfg) toolName p (es_queue s) then
                       Inr (result KAllow (toolName @ '' is allowed for this principal session.'')
                         (f2 @ [''a principal-bound session approval is already active'']))
                     else Inr (result (if needsApproval then KApproval else KAllow) reason f2)))"

definition enforce :: "Decision \<Rightarrow> unit result" where
  "enforce d =
     (case d of
        Allow _ \<Rightarrow> Inr ()
      | Deny _ reason \<Rightarrow> Inl (PolicyDeniedError reason)
      | NeedsApproval _ approvalId reason \<Rightarrow> Inl (ApprovalRequiredError reason approvalId))"

section \<open>Hard boundaries\<close>

text \<open>The boundaries that no approval and no mode other than the stated one lifts.\<close>

definition hard_boundary :: "engine_config \<Rightarrow> engine_state \<Rightarrow> string \<Rightarrow> risk_level \<Rightarrow> bool \<Rightarrow> jobject \<Rightarrow> requester \<Rightarrow>
    bool \<Rightarrow> bool" where
  "hard_boundary cfg s toolName risk mutates args requester bypass \<longleftrightarrow>
     commandDeny cfg (es_mode s) toolName args \<noteq> None \<or>
     (risk = CRITICAL \<and> es_mode s \<noteq> Danger) \<or>
     (es_mode s = Readonly \<and> mutates \<and> \<not> bypass) \<or>
     (\<exists>r \<in> matching (ec_rules cfg) (rule_context_of (es_mode s) toolName risk mutates (normalizePrincipal requester)).
        rule_effect r = EffDeny)"

definition needs_approval :: "engine_config \<Rightarrow> engine_state \<Rightarrow> string \<Rightarrow> risk_level \<Rightarrow> bool \<Rightarrow> requester \<Rightarrow> bool" where
  "needs_approval cfg s toolName risk mutates requester \<longleftrightarrow>
     toolName \<in> set (ec_requireApproval cfg) \<or> HIGH \<le> risk \<or>
     matching (ec_rules cfg) (rule_context_of (es_mode s) toolName risk mutates (normalizePrincipal requester)) \<noteq> {}"

definition is_deny :: "Decision \<Rightarrow> bool" where
  "is_deny d = (case d of Deny _ _ \<Rightarrow> True | _ \<Rightarrow> False)"

definition decision_risk :: "Decision \<Rightarrow> risk_level" where
  "decision_risk d = (case d of Allow r \<Rightarrow> r | Deny r _ \<Rightarrow> r | NeedsApproval r _ _ \<Rightarrow> r)"

definition kind_of :: "Decision \<Rightarrow> decision_kind" where
  "kind_of d = (case d of Allow _ \<Rightarrow> KAllow | Deny _ _ \<Rightarrow> KDeny | NeedsApproval _ _ _ \<Rightarrow> KApproval)"

section \<open>Lemmas\<close>

lemma rule_outcome:
  assumes "pac_evaluate rules ctx = Inr res"
  shows "is_deny_rule res \<longleftrightarrow> (\<exists>r \<in> matching rules ctx. rule_effect r = EffDeny)"
    and "\<not> is_deny_rule res \<Longrightarrow> is_approval_rule res \<longleftrightarrow> matching rules ctx \<noteq> {}"
proof -
  from assms show "is_deny_rule res \<longleftrightarrow> (\<exists>r \<in> matching rules ctx. rule_effect r = EffDeny)"
    by (cases rule: pac_evaluate_cases) (auto simp: is_deny_rule_def match_of_def)
  from assms show "is_approval_rule res \<longleftrightarrow> matching rules ctx \<noteq> {}" if "\<not> is_deny_rule res"
    using that by (cases rule: pac_evaluate_cases) (auto simp: is_deny_rule_def is_approval_rule_def match_of_def)
qed

lemma on_queue_eq: "on_queue m s = (fst (m (es_queue s)), s\<lparr>es_queue := snd (m (es_queue s))\<rparr>)"
  by (simp add: on_queue_def case_prod_beta)

text \<open>The decision of a call that passes the hard boundaries.\<close>

definition open_decision :: "engine_config \<Rightarrow> string \<Rightarrow> risk_level \<Rightarrow> jobject \<Rightarrow> tool_principal \<Rightarrow> rule_match option \<Rightarrow>
    (engine_state, Decision) act" where
  "open_decision cfg toolName risk args p policyRule s =
     (let needsApproval = (toolName \<in> set (ec_requireApproval cfg) \<or> RISK_ORDER risk \<ge> RISK_ORDER HIGH
                                   \<or> is_approval_rule policyRule);
                  approvalReason = approval_reason toolName risk policyRule
              in if \<not> needsApproval then (Inr (Allow risk), s)
                 else bindA (granted_now cfg toolName args p) (\<lambda>ok.
                        if ok then retA (Allow risk)
                        else toApproval cfg toolName risk args approvalReason p) s)"

lemma evaluate_cases:
  fixes cfg toolName risk mutates args requester bypass s
  defines "ctx \<equiv> rule_context_of (es_mode s) toolName risk mutates (normalizePrincipal requester)"
  obtains (denied) reason where
      "evaluate cfg toolName risk mutates args requester bypass s = (Inr (Deny risk reason), s)"
      "hard_boundary cfg s toolName risk mutates args requester bypass"
  | (failed) e where "evaluate cfg toolName risk mutates args requester bypass s = (Inl e, s)"
      "pac_evaluate (ec_rules cfg) ctx = Inl e"
  | (danger) "evaluate cfg toolName risk mutates args requester bypass s = (Inr (Allow risk), s)"
      "\<not> hard_boundary cfg s toolName risk mutates args requester bypass" "es_mode s = Danger"
  | (opened) policyRule where
      "evaluate cfg toolName risk mutates args requester bypass s =
         open_decision cfg toolName risk args (normalizePrincipal requester) policyRule s"
      "\<not> hard_boundary cfg s toolName risk mutates args requester bypass" "es_mode s \<noteq> Danger"
      "pac_evaluate (ec_rules cfg) ctx = Inr policyRule" "\<not> is_deny_rule policyRule"
proof (cases "commandDeny cfg (es_mode s) toolName args \<noteq> None \<or> (risk = CRITICAL \<and> es_mode s \<noteq> Danger) \<or>
     (es_mode s = Readonly \<and> mutates \<and> \<not> bypass)")
  case True
  then have "\<exists>reason. evaluate cfg toolName risk mutates args requester bypass s = (Inr (Deny risk reason), s)"
    by (cases "commandDeny cfg (es_mode s) toolName args"; cases "risk = CRITICAL \<and> es_mode s \<noteq> Danger")
      (auto simp: evaluate_def Let_def)
  then obtain reason where "evaluate cfg toolName risk mutates args requester bypass s = (Inr (Deny risk reason), s)" ..
  then show thesis by (rule denied) (use True in \<open>auto simp: hard_boundary_def\<close>)
next
  case False
  note no = False
  show thesis
  proof (cases "pac_evaluate (ec_rules cfg) ctx")
    case (Inl e)
    with no show thesis by (intro failed) (auto simp: evaluate_def Let_def ctx_def)
  next
    case (Inr res)
    note res = rule_outcome [OF Inr]
    show thesis
    proof (cases "is_deny_rule res")
      case True
      with no Inr res(1) show thesis
        by (intro denied [of "rule_reason_of res"]) (auto simp: evaluate_def Let_def ctx_def hard_boundary_def)
    next
      case False
      have ok: "\<not> hard_boundary cfg s toolName risk mutates args requester bypass"
        using no res(1) False by (auto simp: hard_boundary_def ctx_def)
      show thesis
      proof (cases "es_mode s = Danger")
        case True
        with no Inr False ok show thesis by (intro danger) (auto simp: evaluate_def Let_def ctx_def)
      next
        case nd: False
        with no Inr False ok show thesis
          by (intro opened [of res]) (auto simp: evaluate_def Let_def ctx_def open_decision_def)
      qed
    qed
  qed
qed

lemma create_result:
  assumes "fst (create env tool args risk reason p q) = Inr req"
  shows "ar_tool req = tool" "ar_argsFingerprint req = Some (fingerprint env args)" "ar_state req = SPending"
    "ar_requesterId req = p_id p" "ar_requesterKey req = Some (bindingKey env (approvalBinding p))"
    "ar_expiresAt req = ar_createdAt req + ae_ttl env"
    "map_of (as_requests (snd (create env tool args risk reason p q))) (ar_id req) = Some req"
proof -
  define r where "r = new_request env tool args risk reason p (ae_now env (as_reads q)) (as_draws q)"
  let ?q2 = "q\<lparr>as_reads := Suc (as_reads q), as_draws := Suc (as_draws q)\<rparr>"
  have eq: "create env tool args risk reason p q =
        bindA (append_A env r) (\<lambda>_. bindA (modifyA (put_request r)) (\<lambda>_. retA r)) ?q2"
    by (simp add: create_def Let_def bindA_def [of "now_A env"] now_A_eq r_def)
  from assms have "req = r \<and> map_of (as_requests (snd (create env tool args risk reason p q))) (ar_id r) = Some r"
    unfolding eq
    by (cases rule: append_A_cases [of env r ?q2])
      (auto simp: bindA_def modifyA_def retA_def put_request_def update_conv' split: prod.split_asm sum.split_asm prod.split sum.split)
  then show "ar_tool req = tool" "ar_argsFingerprint req = Some (fingerprint env args)" "ar_state req = SPending"
    "ar_requesterId req = p_id p" "ar_requesterKey req = Some (bindingKey env (approvalBinding p))"
    "ar_expiresAt req = ar_createdAt req + ae_ttl env"
    "map_of (as_requests (snd (create env tool args risk reason p q))) (ar_id req) = Some req"
    by (simp_all add: r_def new_request_def Let_def approvalBinding_def)
qed

text \<open>The three ways an open call ends.\<close>

lemma open_decision_cases:
  fixes cfg toolName risk args p rule s
  defines "env \<equiv> ec_approvals cfg" and "need \<equiv> (toolName \<in> set (ec_requireApproval cfg) \<or> HIGH \<le> risk \<or> is_approval_rule rule)"
  assumes ok: "fst (open_decision cfg toolName risk args p rule s) = Inr d"
  obtains (free) "d = Allow risk" "\<not> need" "snd (open_decision cfg toolName risk args p rule s) = s"
  | (session) "d = Allow risk" "need" "isSessionAllowed env toolName p (es_queue s)"
      "snd (open_decision cfg toolName risk args p rule s) = s"
  | (once) "d = Allow risk" "need" "fst (consumeOnce env toolName (JObj args) p (es_queue s)) = Inr True"
  | (ask) q req where "need" "\<not> isSessionAllowed env toolName p (es_queue s)"
      "consumeOnce env toolName (JObj args) p (es_queue s) = (Inr False, q)"
      "d = NeedsApproval risk (ar_id req) (approval_reason toolName risk rule)"
      "fst (create env toolName (JObj args) risk (approval_reason toolName risk rule) p q) = Inr req"
      "es_queue (snd (open_decision cfg toolName risk args p rule s)) =
         snd (create env toolName (JObj args) risk (approval_reason toolName risk rule) p q)"
proof (cases need)
  case False
  with ok show thesis by (intro free) (auto simp: open_decision_def need_def less_eq_risk_level_def)
next
  case True
  let ?reason = "approval_reason toolName risk rule"
  have od: "open_decision cfg toolName risk args p rule s = bindA (granted_now cfg toolName args p) (\<lambda>ok.
                        if ok then retA (Allow risk) else toApproval cfg toolName risk args ?reason p) s"
    using True by (auto simp: open_decision_def need_def less_eq_risk_level_def Let_def)
  show thesis
  proof (cases "isSessionAllowed env toolName p (es_queue s)")
    case ses: True
    with True ok show thesis
      by (intro session) (auto simp: od granted_now_def bindA_def retA_def env_def)
  next
    case ses: False
    obtain g q where g: "consumeOnce env toolName (JObj args) p (es_queue s) = (g, q)" by (cases "consumeOnce env toolName (JObj args) p (es_queue s)")
    show thesis
    proof (cases "g = Inr True")
      case one: True
      with ses True ok g show thesis
        by (intro once) (auto simp: od granted_now_def bindA_def retA_def env_def on_queue_eq)
    next
      case False
      with ok ses g have gf: "g = Inr False"
        by (cases g) (auto simp: od granted_now_def bindA_def env_def on_queue_eq)
      obtain c q' where c: "create env toolName (JObj args) risk ?reason p q = (c, q')" by (cases "create env toolName (JObj args) risk ?reason p q")
      have od2: "open_decision cfg toolName risk args p rule s =
          bindA (on_queue (create env toolName (JObj args) risk ?reason p)) (\<lambda>req. retA (NeedsApproval risk (ar_id req) ?reason)) (s\<lparr>es_queue := q\<rparr>)"
        using ses g gf by (simp add: od bindA_def [of "granted_now cfg toolName args p"] granted_now_def env_def
            on_queue_eq [of "consumeOnce e t a p" for e t a p] toApproval_def)
      from ok od2 c obtain req where "c = Inr req" by (cases c) (auto simp: bindA_def on_queue_eq)
      with od2 c ok True ses g gf show thesis
        by (intro ask [of q req]) (auto simp: bindA_def on_queue_eq retA_def)
    qed
  qed
qed

section \<open>Properties\<close>

text \<open>A concrete engine for the examples: the queue of the approval examples, one rule, an approval list.\<close>

definition demo_config :: engine_config where
  "demo_config =
     \<lparr>ec_requireApproval = [''t''], ec_blockedCommands = [''mkfs''], ec_sandbox = None, ec_cwd = ''/w'',
      ec_tmpdir = ''/tmp'', ec_rules = [demo_rule ''r2'' EffDeny [''x'']], ec_approvals = demo_env\<rparr>"

definition demo_engine :: "policy_mode \<Rightarrow> approval_op list \<Rightarrow> engine_state" where
  "demo_engine mode ops = \<lparr>es_mode = mode, es_queue = fold (ap_do demo_env) ops demo_queue\<rparr>"

lemma demo_empty: "ap_empty demo_queue"
  by (simp add: ap_empty_def demo_queue_def)



text \<open>Danger mode never gates and never touches the queue: its decisions are allow or deny, and the
  state of the engine is unchanged.\<close>

theorem danger_mode_never_asks:
  assumes "es_mode s = Danger" "fst (evaluate cfg toolName risk mutates args requester bypass s) = Inr d"
  shows "(d = Allow risk \<or> is_deny d) \<and> snd (evaluate cfg toolName risk mutates args requester bypass s) = s"
  using assms by (cases rule: evaluate_cases [of cfg toolName risk mutates args requester bypass s])
    (auto simp: is_deny_def)

theorem danger_mode_never_asks_witness:
  "snd (evaluate demo_config ''t'' CRITICAL True [] (ByName ''a'') False (demo_engine Danger [])) = demo_engine Danger []"
proof -
  have "fst (evaluate demo_config ''t'' CRITICAL True [] (ByName ''a'') False (demo_engine Danger [])) =
      Inr (Allow CRITICAL)" by code_simp
  from danger_mode_never_asks [OF _ this] show ?thesis by (simp add: demo_engine_def)
qed

text \<open>Claim C39. Outside danger mode a sensitive call runs only with a human grant: if the tool is on the
  approval list, or the risk is HIGH or above, or a rule matches, and the queue is in a reachable state,
  then an allow decision has behind it a request for the same tool and requester, approved by a principal
  other than the requester, for the session or for one call with the same argument fingerprint.\<close>

theorem sensitive_call_has_grant:
  assumes "ap_empty q0" "es_queue s = fold (ap_do (ec_approvals cfg)) ops q0"
    and "inj_on (approval_id (ec_approvals cfg)) {..<as_draws (es_queue s)}"
    and "es_mode s \<noteq> Danger" "needs_approval cfg s toolName risk mutates requester"
    and "CHR 0x00 \<notin> set toolName"
    and "fst (evaluate cfg toolName risk mutates args requester bypass s) = Inr (Allow risk')"
  shows "\<exists>r a. (ar_id r, r) \<in> set (as_requests (es_queue s)) \<and> ar_state r = SApproved \<and>
           ar_approverId r = Some a \<and> a \<noteq> ar_requesterId r \<and>
           (ar_scope r = ScopeSession \<and> (CHR 0x00 \<in> set (ar_tool r) \<or> ar_tool r = toolName \<and>
              requester_key r = bindingKey (ec_approvals cfg) (approvalBinding (normalizePrincipal requester))) \<or>
            ar_scope r = ScopeOnce \<and> ar_tool r = toolName \<and> ar_consumedAt r = None \<and>
              requester_key r = bindingKey (ec_approvals cfg) (approvalBinding (normalizePrincipal requester)) \<and>
              args_print (ec_approvals cfg) r = fingerprint (ec_approvals cfg) (JObj args))"
proof (cases rule: evaluate_cases [of cfg toolName risk mutates args requester bypass s])
  case (opened rule)
  let ?p = "normalizePrincipal requester" and ?env = "ec_approvals cfg"
  have inv: "approvals_inv ?env (es_queue s)" by (rule reachable_inv [OF assms(3,1,2)])
  have need: "toolName \<in> set (ec_requireApproval cfg) \<or> HIGH \<le> risk \<or> is_approval_rule rule"
    using assms(5) rule_outcome(2) [OF opened(4,5)] by (simp add: needs_approval_def)
  from assms(7) opened(1) have "fst (open_decision cfg toolName risk args ?p rule s) = Inr (Allow risk')" by simp
  then show ?thesis
  proof (cases rule: open_decision_cases)
    case session
    from session_approved [OF inv session(3) assms(6)] show ?thesis by blast
  next
    case once
    from consume_approved [OF inv once(3)] show ?thesis by blast
  qed (use need in auto)
qed (use assms(4,7) in auto)

theorem sensitive_call_has_grant_witness:
  "\<exists>r a. (ar_id r, r) \<in> set (as_requests (es_queue (demo_engine Safe (take 4 demo_ops)))) \<and>
     ar_approverId r = Some a \<and> a \<noteq> ar_requesterId r"
proof -
  let ?s = "demo_engine Safe (take 4 demo_ops)" and ?p = "ByPrincipal (bare_principal ''a'' RoleAgent)"
  have ok: "fst (evaluate demo_config ''t'' HIGH True [] ?p False ?s) = Inr (Allow HIGH)" by code_simp
  have "as_draws (es_queue ?s) = 1" by code_simp
  then have inj: "inj_on (approval_id (ec_approvals demo_config)) {..<as_draws (es_queue ?s)}" by (simp add: inj_on_def)
  have q: "es_queue ?s = fold (ap_do (ec_approvals demo_config)) (take 4 demo_ops) demo_queue"
    by (simp add: demo_engine_def demo_config_def)
  have "es_mode ?s \<noteq> Danger" "needs_approval demo_config ?s ''t'' HIGH True ?p" "CHR 0x00 \<notin> set ''t''"
    by (simp_all add: demo_engine_def needs_approval_def)
  from sensitive_call_has_grant [OF demo_empty q inj this ok] show ?thesis by blast
qed

text \<open>An approval decision names a request that is filed for exactly this call: pending, for this
  tool, with this requester, binding key and argument fingerprint, and with the configured lifetime.\<close>

theorem approval_decision_files_the_call:
  assumes "fst (evaluate cfg toolName risk mutates args requester bypass s) = Inr (NeedsApproval risk' i reason)"
  shows "\<exists>req. map_of (as_requests (es_queue (snd (evaluate cfg toolName risk mutates args requester bypass s)))) i = Some req \<and>
           ar_id req = i \<and> ar_state req = SPending \<and> ar_tool req = toolName \<and>
           ar_requesterId req = p_id (normalizePrincipal requester) \<and>
           ar_requesterKey req = Some (bindingKey (ec_approvals cfg) (approvalBinding (normalizePrincipal requester))) \<and>
           ar_argsFingerprint req = Some (fingerprint (ec_approvals cfg) (JObj args)) \<and>
           ar_expiresAt req = ar_createdAt req + ae_ttl (ec_approvals cfg)"
proof (cases rule: evaluate_cases [of cfg toolName risk mutates args requester bypass s])
  case (opened rule)
  with assms have "fst (open_decision cfg toolName risk args (normalizePrincipal requester) rule s) =
      Inr (NeedsApproval risk' i reason)" by simp
  then show ?thesis
  proof (cases rule: open_decision_cases)
    case (ask q req)
    from create_result [OF ask(5)] ask(4,6) opened(1) show ?thesis by simp
  qed auto
qed (use assms in auto)

theorem approval_decision_files_the_call_witness:
  "\<exists>req. map_of (as_requests (es_queue (snd (evaluate demo_config ''t'' LOW True [] (ByName ''a'') False (demo_engine Dev []))))) ''appr_A'' =
     Some req \<and> ar_state req = SPending"
proof -
  have "fst (evaluate demo_config ''t'' LOW True [] (ByName ''a'') False (demo_engine Dev [])) =
      Inr (NeedsApproval LOW ''appr_A'' ''t (LOW) requires approval.'')" by code_simp
  from approval_decision_files_the_call [OF this] show ?thesis by blast
qed

text \<open>Claim C40. The dry run agrees with the decision: without the containment bypass and when no once-grant
  matches the call, \<^verbatim>\<open>explain\<close> reports the kind of decision \<^verbatim>\<open>evaluate\<close> takes, and the same reason for a
  denial or a request.\<close>

theorem explain_agrees_with_evaluate:
  assumes "fst (evaluate cfg toolName risk mutates args requester False s) = Inr d"
    and "once_match (ec_approvals cfg) toolName (JObj args) (normalizePrincipal requester) (es_queue s) = None"
  shows "\<exists>e. explain cfg s toolName risk mutates args requester = Inr e \<and> ex_decision e = kind_of d \<and>
           (case d of Allow _ \<Rightarrow> True | Deny _ reason \<Rightarrow> ex_reason e = reason
            | NeedsApproval _ _ reason \<Rightarrow> ex_reason e = reason)"
proof (cases "commandDeny cfg (es_mode s) toolName args \<noteq> None \<or> (risk = CRITICAL \<and> es_mode s \<noteq> Danger) \<or>
     (es_mode s = Readonly \<and> mutates)")
  case True
  with assms(1) show ?thesis
    by (cases "commandDeny cfg (es_mode s) toolName args"; cases "risk = CRITICAL \<and> es_mode s \<noteq> Danger")
      (auto simp: evaluate_def explain_def Let_def kind_of_def)
next
  case False
  note no = False
  let ?p = "normalizePrincipal requester"
  show ?thesis
  proof (cases "pac_evaluate (ec_rules cfg) (rule_context_of (es_mode s) toolName risk mutates ?p)")
    case (Inl e)
    with assms(1) no show ?thesis by (auto simp: evaluate_def Let_def)
  next
    case (Inr rule)
    show ?thesis
    proof (cases "is_deny_rule rule \<or> es_mode s = Danger")
      case True
      with assms(1) no Inr show ?thesis
        by (cases "is_deny_rule rule") (auto simp: evaluate_def explain_def Let_def kind_of_def)
    next
      case False
      with assms(1) no Inr have "fst (open_decision cfg toolName risk args ?p rule s) = Inr d"
        by (auto simp: evaluate_def open_decision_def Let_def)
      then show ?thesis
        by (cases rule: open_decision_cases)
          (use no Inr False assms(2) in \<open>auto simp: explain_def Let_def kind_of_def approval_reason_def
             consumeOnce_def less_eq_risk_level_def\<close>)
    qed
  qed
qed

theorem explain_agrees_with_evaluate_witness:
  "\<exists>e. explain demo_config (demo_engine Dev []) ''t'' LOW True [] (ByName ''a'') = Inr e \<and> ex_decision e = KApproval"
proof -
  have "fst (evaluate demo_config ''t'' LOW True [] (ByName ''a'') False (demo_engine Dev [])) =
      Inr (NeedsApproval LOW ''appr_A'' ''t (LOW) requires approval.'')"
    "once_match (ec_approvals demo_config) ''t'' (JObj []) (normalizePrincipal (ByName ''a'')) (es_queue (demo_engine Dev [])) = None"
    by code_simp+
  from explain_agrees_with_evaluate [OF this] show ?thesis by (auto simp: kind_of_def)
qed

end
