(* ===== verification/FF_RateLimit.thy ===== *)
theory FF_RateLimit
  imports FF_Prelude "HOL-Library.AList"
begin

text \<open>
  \<^verbatim>\<open>src/policy/rate-limiter.ts\<close>: the sliding-window limiter with its rolling daily quota.  Times are
  integers in milliseconds; the reading of \<^verbatim>\<open>this.now()\<close> is an argument of every operation.  The
  \<^verbatim>\<open>Map\<close> of buckets is an association list in insertion order (\<^const>\<open>AList.update\<close> is
  \<^verbatim>\<open>Map.set\<close>: in place for a known key, at the end for a new one).
\<close>

record RateLimitRule =
  maxCalls :: int
  windowMs :: int
  dailyQuota :: "int option"

record RateLimitConfig =
  rl_enabled :: bool
  rl_default :: RateLimitRule
  rl_overrides :: "(string \<times> RateLimitRule) list"

record RateDecision =
  rd_allowed :: bool
  rd_reason :: "string option"
  rd_retryAfterMs :: "int option"
  rd_windowCount :: nat
  rd_dailyCount :: nat

type_synonym buckets = "(string \<times> int list) list"

definition DAY_MS :: int where
  "DAY_MS = 24 * 60 * 60 * 1000"

definition ruleFor :: "RateLimitConfig \<Rightarrow> string \<Rightarrow> RateLimitRule" where
  "ruleFor cfg tool =
     (case map_of (rl_overrides cfg) tool of Some r \<Rightarrow> r | None \<Rightarrow> rl_default cfg)"

text \<open>\<^verbatim>\<open>rule.dailyQuota ? a : b\<close> tests the number for truth: an absent quota and the quota 0 are both
  false there, while the later test \<^verbatim>\<open>rule.dailyQuota !== undefined\<close> is true for 0.\<close>

definition quota_truthy :: "RateLimitRule \<Rightarrow> bool" where
  "quota_truthy rule = (case dailyQuota rule of None \<Rightarrow> False | Some q \<Rightarrow> q \<noteq> 0)"

definition rl_horizon :: "RateLimitRule \<Rightarrow> int" where
  "rl_horizon rule = max (windowMs rule) (if quota_truthy rule then DAY_MS else 0)"

definition bucket_of :: "buckets \<Rightarrow> string \<Rightarrow> int list" where
  "bucket_of bs tool = (case map_of bs tool of Some hits \<Rightarrow> hits | None \<Rightarrow> [])"

definition prune :: "RateLimitRule \<Rightarrow> int \<Rightarrow> int list \<Rightarrow> int list" where
  "prune rule t hits = filter (\<lambda>ts. t - ts < rl_horizon rule) hits"

definition window_hits :: "RateLimitRule \<Rightarrow> int \<Rightarrow> int list \<Rightarrow> int list" where
  "window_hits rule t hits = filter (\<lambda>ts. ts \<ge> t - windowMs rule) hits"

definition day_hits :: "RateLimitRule \<Rightarrow> int \<Rightarrow> int list \<Rightarrow> int list" where
  "day_hits rule t hits = (if quota_truthy rule then filter (\<lambda>ts. ts \<ge> t - DAY_MS) hits else [])"

definition first_or :: "int list \<Rightarrow> int \<Rightarrow> int" where
  "first_or xs t = (case xs of [] \<Rightarrow> t | x # _ \<Rightarrow> x)"

text \<open>The bucket object is shared with the map when the tool has one, so the assignment
  \<^verbatim>\<open>bucket.hits = ...\<close> is seen there on every path; a fresh bucket enters the map only on the
  accepting paths.\<close>

definition store_pruned :: "buckets \<Rightarrow> string \<Rightarrow> int list \<Rightarrow> buckets" where
  "store_pruned bs tool hits =
     (case map_of bs tool of Some _ \<Rightarrow> AList.update tool hits bs | None \<Rightarrow> bs)"

definition rl_evaluate ::
    "RateLimitConfig \<Rightarrow> string \<Rightarrow> bool \<Rightarrow> int \<Rightarrow> buckets \<Rightarrow> RateDecision \<times> buckets" where
  "rl_evaluate cfg tool recordHit t bs =
     (if \<not> rl_enabled cfg then
        (\<lparr>rd_allowed = True, rd_reason = None, rd_retryAfterMs = None,
          rd_windowCount = 0, rd_dailyCount = 0\<rparr>, bs)
      else
        let rule = ruleFor cfg tool;
            hits = prune rule t (bucket_of bs tool);
            windowHits = window_hits rule t hits;
            dayHits = day_hits rule t hits;
            windowCount = length windowHits;
            dailyCount = length dayHits
        in if int windowCount \<ge> maxCalls rule then
             (\<lparr>rd_allowed = False,
               rd_reason = Some (''Rate limit: '' @ tool @ '' allows '' @ show_int (maxCalls rule) @
                                 '' calls per '' @ show_int (windowMs rule) @ ''ms.''),
               rd_retryAfterMs = Some (max 0 (first_or windowHits t + windowMs rule - t)),
               rd_windowCount = windowCount, rd_dailyCount = dailyCount\<rparr>, store_pruned bs tool hits)
           else case dailyQuota rule of
             Some q \<Rightarrow>
               if int dailyCount \<ge> q then
                 (\<lparr>rd_allowed = False,
                   rd_reason = Some (''Daily quota reached: '' @ tool @ '' allows '' @ show_int q @
                                     '' calls per 24h.''),
                   rd_retryAfterMs = Some (max 0 (first_or dayHits t + DAY_MS - t)),
                   rd_windowCount = windowCount, rd_dailyCount = dailyCount\<rparr>,
                  store_pruned bs tool hits)
               else if recordHit then
                 (\<lparr>rd_allowed = True, rd_reason = None, rd_retryAfterMs = None,
                   rd_windowCount = windowCount + 1, rd_dailyCount = dailyCount + 1\<rparr>,
                  AList.update tool (hits @ [t]) bs)
               else
                 (\<lparr>rd_allowed = True, rd_reason = None, rd_retryAfterMs = None,
                   rd_windowCount = windowCount, rd_dailyCount = dailyCount\<rparr>,
                  AList.update tool hits bs)
           | None \<Rightarrow>
               if recordHit then
                 (\<lparr>rd_allowed = True, rd_reason = None, rd_retryAfterMs = None,
                   rd_windowCount = windowCount + 1, rd_dailyCount = dailyCount + 1\<rparr>,
                  AList.update tool (hits @ [t]) bs)
               else
                 (\<lparr>rd_allowed = True, rd_reason = None, rd_retryAfterMs = None,
                   rd_windowCount = windowCount, rd_dailyCount = dailyCount\<rparr>,
                  AList.update tool hits bs))"

definition rl_check :: "RateLimitConfig \<Rightarrow> string \<Rightarrow> int \<Rightarrow> buckets \<Rightarrow> RateDecision \<times> buckets" where
  "rl_check cfg tool t bs = rl_evaluate cfg tool False t bs"

definition rl_hit :: "RateLimitConfig \<Rightarrow> string \<Rightarrow> int \<Rightarrow> buckets \<Rightarrow> RateDecision \<times> buckets" where
  "rl_hit cfg tool t bs = rl_evaluate cfg tool True t bs"

definition rl_snapshot ::
    "RateLimitConfig \<Rightarrow> int \<Rightarrow> buckets \<Rightarrow> (string \<times> nat \<times> nat \<times> RateLimitRule) list" where
  "rl_snapshot cfg t bs =
     map (\<lambda>(tool, hits).
       let rule = ruleFor cfg tool
       in (tool, length (filter (\<lambda>ts. ts \<ge> t - windowMs rule) hits),
           length (filter (\<lambda>ts. ts \<ge> t - DAY_MS) hits), rule)) bs"

text \<open>\<^verbatim>\<open>if (tool)\<close>: the empty name is false, so it clears everything like no name at all.\<close>

definition rl_reset :: "string option \<Rightarrow> buckets \<Rightarrow> buckets" where
  "rl_reset tool bs =
     (case tool of Some (c # cs) \<Rightarrow> AList.delete (c # cs) bs | _ \<Rightarrow> [])"

section \<open>Accepted calls: what the limiter must remember\<close>

text \<open>A run of the limiter against a clock that does not go back: each operation first lets
  \<open>dt\<close> milliseconds pass.  \<open>w_log\<close> is the history the limiter is judged by, every accepted call of
  each tool since the last reset that named it; the limiter itself keeps only its buckets.\<close>

datatype rl_op = OpHit nat string | OpCheck nat string | OpReset "string option"

record rl_world =
  w_buckets :: buckets
  w_clock :: int
  w_log :: "string \<Rightarrow> int list"

fun rl_step :: "RateLimitConfig \<Rightarrow> rl_op \<Rightarrow> rl_world \<Rightarrow> rl_world" where
  "rl_step cfg (OpHit dt tool) w =
     (let t = w_clock w + int dt; (d, bs) = rl_hit cfg tool t (w_buckets w)
      in w\<lparr>w_buckets := bs, w_clock := t,
           w_log := (if rd_allowed d then (w_log w)(tool := w_log w tool @ [t]) else w_log w)\<rparr>)"
| "rl_step cfg (OpCheck dt tool) w =
     (let t = w_clock w + int dt; (d, bs) = rl_check cfg tool t (w_buckets w)
      in w\<lparr>w_buckets := bs, w_clock := t\<rparr>)"
| "rl_step cfg (OpReset tool) w =
     w\<lparr>w_buckets := rl_reset tool (w_buckets w),
       w_log := (case tool of Some (c # cs) \<Rightarrow> (w_log w)(c # cs := []) | _ \<Rightarrow> (\<lambda>_. []))\<rparr>"

definition rl_fresh :: "rl_world \<Rightarrow> bool" where
  "rl_fresh w \<longleftrightarrow> w_buckets w = [] \<and> w_log w = (\<lambda>_. [])"

text \<open>The number of calls of a list that fall into the interval \<open>(a, a + len]\<close>.\<close>

definition in_span :: "int \<Rightarrow> int \<Rightarrow> int list \<Rightarrow> nat" where
  "in_span a len ts = length (filter (\<lambda>x. a < x \<and> x \<le> a + len) ts)"

text \<open>A bucket \<open>hits\<close> covers the history \<open>log\<close> at time \<open>c\<close>: from now on, whatever is young enough to
  count is in the bucket exactly as in the history.\<close>

definition covers :: "RateLimitRule \<Rightarrow> int \<Rightarrow> int list \<Rightarrow> int list \<Rightarrow> bool" where
  "covers rule c hits log \<longleftrightarrow> (\<forall>t \<ge> c. prune rule t hits = prune rule t log)"

definition within_limits :: "RateLimitRule \<Rightarrow> int list \<Rightarrow> bool" where
  "within_limits rule log \<longleftrightarrow>
     (\<forall>a. in_span a (windowMs rule) log \<le> nat (maxCalls rule) \<and>
          (\<forall>q. dailyQuota rule = Some q \<longrightarrow> in_span a DAY_MS log \<le> nat q))"

definition rl_inv :: "RateLimitConfig \<Rightarrow> rl_world \<Rightarrow> bool" where
  "rl_inv cfg w \<longleftrightarrow> (rl_enabled cfg \<longrightarrow>
     (\<forall>tool. covers (ruleFor cfg tool) (w_clock w) (bucket_of (w_buckets w) tool) (w_log w tool) \<and>
             sorted (w_log w tool) \<and> (\<forall>x \<in> set (w_log w tool). x \<le> w_clock w) \<and>
             within_limits (ruleFor cfg tool) (w_log w tool)))"

section \<open>Lemmas\<close>

lemma bucket_of_update [simp]:
  "bucket_of (AList.update k hits bs) tool = (if tool = k then hits else bucket_of bs tool)"
  by (simp add: bucket_of_def update_conv')

lemma bucket_of_store_pruned:
  "hits = prune rule t (bucket_of bs k) \<Longrightarrow>
     bucket_of (store_pruned bs k hits) tool = (if tool = k then hits else bucket_of bs tool)"
  by (auto simp: store_pruned_def bucket_of_def prune_def update_conv' split: option.splits)

lemma bucket_of_delete [simp]:
  "bucket_of (AList.delete k bs) tool = (if tool = k then [] else bucket_of bs tool)"
  by (simp add: bucket_of_def delete_conv')

lemma bucket_of_Nil [simp]: "bucket_of [] tool = []"
  by (simp add: bucket_of_def)

lemma evaluate_allowed:
  "rl_enabled cfg \<Longrightarrow>
     rd_allowed (fst (rl_evaluate cfg tool r t bs)) \<longleftrightarrow>
       (let rule = ruleFor cfg tool; hits = prune rule t (bucket_of bs tool)
        in int (length (window_hits rule t hits)) < maxCalls rule \<and>
           (\<forall>q. dailyQuota rule = Some q \<longrightarrow> int (length (day_hits rule t hits)) < q))"
  by (auto simp: rl_evaluate_def Let_def split: option.splits)

lemma evaluate_bucket:
  "rl_enabled cfg \<Longrightarrow>
     bucket_of (snd (rl_evaluate cfg tool r t bs)) tool' =
       (if tool' = tool
        then prune (ruleFor cfg tool) t (bucket_of bs tool) @
             (if r \<and> rd_allowed (fst (rl_evaluate cfg tool r t bs)) then [t] else [])
        else bucket_of bs tool')"
  by (auto simp: rl_evaluate_def Let_def bucket_of_store_pruned split: option.splits)

lemma evaluate_congruent:
  "prune (ruleFor cfg tool) t (bucket_of bs tool) = prune (ruleFor cfg tool) t (bucket_of bs' tool) \<Longrightarrow>
     fst (rl_evaluate cfg tool r t bs) = fst (rl_evaluate cfg tool r t bs')"
  by (simp add: rl_evaluate_def Let_def split: option.split)

lemma prune_prune: "c \<le> t \<Longrightarrow> prune rule t (prune rule c xs) = prune rule t xs"
  by (auto simp: prune_def intro: filter_cong)

lemma prune_Nil [simp]: "prune rule t [] = []"
  by (simp add: prune_def)

lemma prune_append [simp]: "prune rule t (xs @ ys) = prune rule t xs @ prune rule t ys"
  by (simp add: prune_def)

lemma covers_prune: "covers rule c hits log \<Longrightarrow> c \<le> t \<Longrightarrow> covers rule t (prune rule t hits) log"
  by (auto simp: covers_def prune_prune)

lemma covers_snoc: "covers rule c hits log \<Longrightarrow> covers rule c (hits @ [t]) (log @ [t])"
  by (simp add: covers_def)

lemma in_span_snoc:
  "in_span a len (log @ [t]) = in_span a len log + (if a < t \<and> t \<le> a + len then 1 else 0)"
  by (simp add: in_span_def)

text \<open>A span that ends at or after \<open>t\<close> holds no more calls than the limiter counts at time \<open>t\<close>.\<close>

lemma length_filter_mono: "(\<And>x. x \<in> set xs \<Longrightarrow> P x \<Longrightarrow> Q x) \<Longrightarrow> length (filter P xs) \<le> length (filter Q xs)"
  by (induction xs) (auto simp: le_Suc_eq)

lemma in_span_window:
  assumes "t \<le> a + windowMs rule"
  shows "in_span a (windowMs rule) log \<le> length (window_hits rule t (prune rule t log))"
  unfolding in_span_def window_hits_def prune_def filter_filter
  by (rule length_filter_mono) (use assms in \<open>auto simp: rl_horizon_def\<close>)

lemma in_span_day:
  assumes "quota_truthy rule" "t \<le> a + DAY_MS"
  shows "in_span a DAY_MS log \<le> length (day_hits rule t (prune rule t log))"
  unfolding in_span_def day_hits_def prune_def filter_filter if_P [OF assms(1)]
  by (rule length_filter_mono) (use assms in \<open>auto simp: rl_horizon_def\<close>)

lemma within_limits_snoc:
  assumes lim: "within_limits rule log"
    and win: "int (length (window_hits rule t (prune rule t log))) < maxCalls rule"
    and day: "\<And>q. dailyQuota rule = Some q \<Longrightarrow> int (length (day_hits rule t (prune rule t log))) < q"
  shows "within_limits rule (log @ [t])"
  unfolding within_limits_def
proof (intro allI conjI impI)
  fix a
  have le: "in_span a (windowMs rule) log \<le> nat (maxCalls rule)"
    using lim by (simp add: within_limits_def)
  show "in_span a (windowMs rule) (log @ [t]) \<le> nat (maxCalls rule)"
  proof (cases "t \<le> a + windowMs rule")
    case True
    from in_span_window [OF True, of log] win show ?thesis by (auto simp: in_span_snoc)
  qed (use le in \<open>simp add: in_span_snoc\<close>)
next
  fix a q assume q: "dailyQuota rule = Some q"
  have le: "in_span a DAY_MS log \<le> nat q" using lim q by (simp add: within_limits_def)
  have "quota_truthy rule" using day [OF q] q by (auto simp: quota_truthy_def day_hits_def)
  show "in_span a DAY_MS (log @ [t]) \<le> nat q"
  proof (cases "t \<le> a + DAY_MS")
    case True
    from in_span_day [OF \<open>quota_truthy rule\<close> True, of log] day [OF q] show ?thesis
      by (auto simp: in_span_snoc)
  qed (use le in \<open>simp add: in_span_snoc\<close>)
qed

lemma rl_inv_I:
  "(\<And>tool. rl_enabled cfg \<Longrightarrow>
      covers (ruleFor cfg tool) (w_clock w) (bucket_of (w_buckets w) tool) (w_log w tool) \<and>
      sorted (w_log w tool) \<and> (\<forall>x \<in> set (w_log w tool). x \<le> w_clock w) \<and>
      within_limits (ruleFor cfg tool) (w_log w tool)) \<Longrightarrow> rl_inv cfg w"
  by (simp add: rl_inv_def)

lemma covers_later: "covers rule c hits log \<Longrightarrow> c \<le> t \<Longrightarrow> covers rule t hits log"
  by (auto simp: covers_def)

lemma step_hit_inv [inv_intros]:
  assumes "rl_inv cfg w" shows "rl_inv cfg (rl_step cfg (OpHit dt k) w)"
proof (rule rl_inv_I)
  fix tool assume en: "rl_enabled cfg"
  let ?t = "w_clock w + int dt" and ?rule = "ruleFor cfg k"
  let ?d = "rl_evaluate cfg k True ?t (w_buckets w)"
  have cov: "covers (ruleFor cfg tool) ?t (bucket_of (w_buckets w) tool) (w_log w tool)"
    and old: "sorted (w_log w tool) \<and> (\<forall>x \<in> set (w_log w tool). x \<le> w_clock w)"
    and lim: "within_limits (ruleFor cfg tool) (w_log w tool)" for tool
    using assms en by (auto simp: rl_inv_def intro: covers_later)
  have eq: "prune ?rule ?t (bucket_of (w_buckets w) k) = prune ?rule ?t (w_log w k)"
    using cov [of k] by (simp add: covers_def)
  have new: "within_limits ?rule (w_log w k @ [?t])" if "rd_allowed (fst ?d)"
    using that en eq by (intro within_limits_snoc [OF lim]) (auto simp: evaluate_allowed Let_def)
  show "covers (ruleFor cfg tool) (w_clock (rl_step cfg (OpHit dt k) w))
          (bucket_of (w_buckets (rl_step cfg (OpHit dt k) w)) tool) (w_log (rl_step cfg (OpHit dt k) w) tool) \<and>
        sorted (w_log (rl_step cfg (OpHit dt k) w) tool) \<and>
        (\<forall>x \<in> set (w_log (rl_step cfg (OpHit dt k) w) tool). x \<le> w_clock (rl_step cfg (OpHit dt k) w)) \<and>
        within_limits (ruleFor cfg tool) (w_log (rl_step cfg (OpHit dt k) w) tool)"
    using cov [of tool] old [of tool] lim [of tool] new en
    by (auto simp: rl_hit_def Let_def case_prod_beta evaluate_bucket sorted_append
        intro!: covers_snoc covers_prune)
qed

lemma step_check_inv [inv_intros]:
  assumes "rl_inv cfg w" shows "rl_inv cfg (rl_step cfg (OpCheck dt k) w)"
  using assms
  by (auto simp: rl_inv_def rl_check_def Let_def case_prod_beta evaluate_bucket
      intro: covers_prune covers_later add_increasing2)

lemma covers_empty [simp]: "covers rule c [] []"
  by (simp add: covers_def)

lemma within_limits_empty [simp]: "within_limits rule []"
  by (simp add: within_limits_def in_span_def)

lemma step_reset_inv [inv_intros]:
  assumes "rl_inv cfg w" shows "rl_inv cfg (rl_step cfg (OpReset k) w)"
  using assms by (auto simp: rl_inv_def rl_reset_def split: option.split list.split)

interpretation limiter: stateful rl_fresh "rl_step cfg" "rl_inv cfg" for cfg
proof
  show "rl_fresh w \<Longrightarrow> rl_inv cfg w" for w by (simp add: rl_fresh_def rl_inv_def)
  show "rl_inv cfg w \<Longrightarrow> rl_inv cfg (rl_step cfg a w)" for a w by (cases a) (simp_all only: inv_intros)
qed

lemma reachable_limits:
  assumes "rl_enabled cfg" "rl_fresh w"
  shows "within_limits (ruleFor cfg tool) (w_log (fold (rl_step cfg) ops w) tool)"
  using limiter.inv_reachable [OF assms(2), of cfg ops] assms(1) by (simp add: rl_inv_def)

lemma reachable_prune:
  assumes "rl_enabled cfg" "rl_fresh w0" "w = fold (rl_step cfg) ops w0" "w_clock w \<le> t"
  shows "prune (ruleFor cfg tool) t (bucket_of (w_buckets w) tool) = prune (ruleFor cfg tool) t (w_log w tool)"
  using limiter.inv_reachable [OF assms(2), of cfg ops] assms by (simp add: rl_inv_def covers_def)

lemma reachable_sorted:
  assumes "rl_enabled cfg" "rl_fresh w0" "w = fold (rl_step cfg) ops w0"
  shows "sorted (w_log w tool) \<and> (\<forall>x \<in> set (w_log w tool). x \<le> w_clock w)"
  using limiter.inv_reachable [OF assms(2), of cfg ops] assms by (simp add: rl_inv_def)

lemma reachable_window_count:
  assumes en: "rl_enabled cfg" and fresh: "rl_fresh w0" and w: "w = fold (rl_step cfg) ops w0"
    and rule: "dailyQuota (ruleFor cfg tool) = None" "0 < windowMs (ruleFor cfg tool)"
  shows "length (window_hits (ruleFor cfg tool) (w_clock w)
           (prune (ruleFor cfg tool) (w_clock w) (bucket_of (w_buckets w) tool)))
         \<le> nat (maxCalls (ruleFor cfg tool))"
proof -
  let ?rule = "ruleFor cfg tool" and ?t = "w_clock w"
  have "length (window_hits ?rule ?t (prune ?rule ?t (w_log w tool))) \<le>
        in_span (?t - windowMs ?rule) (windowMs ?rule) (w_log w tool)"
    using reachable_sorted [OF en fresh w, of tool] rule
    unfolding in_span_def window_hits_def prune_def filter_filter
    by (auto intro!: length_filter_mono simp: rl_horizon_def quota_truthy_def)
  also have "\<dots> \<le> nat (maxCalls ?rule)"
    using reachable_limits [OF en fresh, of tool ops] w by (simp add: within_limits_def)
  finally show ?thesis by (simp add: reachable_prune [OF en fresh w order_refl])
qed

lemma check_window_denied:
  assumes "rl_enabled cfg" "maxCalls (ruleFor cfg tool) \<le> int (rd_windowCount d)"
    "d = fst (rl_check cfg tool t bs)" "rd_retryAfterMs d = Some r"
  shows "r = max 0 (first_or (window_hits (ruleFor cfg tool) t (prune (ruleFor cfg tool) t (bucket_of bs tool))) t
                    + windowMs (ruleFor cfg tool) - t)"
    and "rd_windowCount d = length (window_hits (ruleFor cfg tool) t (prune (ruleFor cfg tool) t (bucket_of bs tool)))"
  using assms by (auto simp: rl_check_def rl_evaluate_def Let_def split: option.split_asm if_split_asm)

section \<open>Properties\<close>

text \<open>Claim C33. Whatever hits, checks and resets a fresh limiter serves while the clock does not go
  back, the calls it accepted for a tool (since the last reset of that tool) never exceed the limits:
  at most \<open>maxCalls\<close> of them lie in any time span of \<open>windowMs\<close> milliseconds and at most
  \<open>dailyQuota\<close> in any span of a day, although the limiter forgets old calls on the way.\<close>

theorem accepted_calls_within_limits:
  assumes "rl_enabled cfg" "rl_fresh w0" "w = fold (rl_step cfg) ops w0"
  shows "in_span a (windowMs (ruleFor cfg tool)) (w_log w tool) \<le> nat (maxCalls (ruleFor cfg tool)) \<and>
         (case dailyQuota (ruleFor cfg tool) of None \<Rightarrow> True
          | Some q \<Rightarrow> in_span a DAY_MS (w_log w tool) \<le> nat q)"
  using reachable_limits [OF assms(1,2), of tool ops] assms(3)
  by (simp add: within_limits_def split: option.split)

definition demo_limits :: RateLimitConfig where
  "demo_limits =
     \<lparr>rl_enabled = True, rl_default = \<lparr>maxCalls = 3, windowMs = 30, dailyQuota = None\<rparr>,
      rl_overrides = [(''shell_exec'', \<lparr>maxCalls = 2, windowMs = 20, dailyQuota = Some 5\<rparr>)]\<rparr>"

definition demo_world :: rl_world where
  "demo_world = \<lparr>w_buckets = [], w_clock = 0, w_log = (\<lambda>_. [])\<rparr>"

theorem accepted_calls_within_limits_witness:
  "(let w = fold (rl_step demo_limits) [OpHit 5 ''shell_exec'', OpHit 5 ''shell_exec'', OpHit 5 ''shell_exec''] demo_world
    in w_log w ''shell_exec'' = [5, 10] \<and> in_span 0 20 (w_log w ''shell_exec'') \<le> 2)"
proof -
  have "rl_enabled demo_limits" "rl_fresh demo_world"
    by (simp_all add: demo_limits_def rl_fresh_def demo_world_def)
  note accepted_calls_within_limits [OF this refl, of 0 "''shell_exec''"
      "[OpHit 5 ''shell_exec'', OpHit 5 ''shell_exec'', OpHit 5 ''shell_exec'']"]
  moreover have "ruleFor demo_limits ''shell_exec'' = \<lparr>maxCalls = 2, windowMs = 20, dailyQuota = Some 5\<rparr>"
    by code_simp
  moreover have "w_log (fold (rl_step demo_limits)
      [OpHit 5 ''shell_exec'', OpHit 5 ''shell_exec'', OpHit 5 ''shell_exec''] demo_world) ''shell_exec'' = [5, 10]"
    by code_simp
  ultimately show ?thesis by (simp add: Let_def)
qed

text \<open>A check, and a hit that was refused, consume nothing: every later evaluation of any tool
  gives the decision it would have given without it.\<close>

theorem refused_call_consumes_nothing:
  assumes "t \<le> t'" "\<not> recordHit \<or> \<not> rd_allowed (fst (rl_evaluate cfg tool recordHit t bs))"
  shows "fst (rl_evaluate cfg tool' recordHit' t' (snd (rl_evaluate cfg tool recordHit t bs))) =
         fst (rl_evaluate cfg tool' recordHit' t' bs)"
proof (cases "rl_enabled cfg")
  case True
  with assms show ?thesis by (intro evaluate_congruent) (auto simp: evaluate_bucket prune_prune)
qed (simp add: rl_evaluate_def)

theorem refused_call_consumes_nothing_witness:
  "fst (rl_evaluate demo_limits ''shell_exec'' True 26
         (snd (rl_evaluate demo_limits ''shell_exec'' True 15 [(''shell_exec'', [5, 10])]))) =
   fst (rl_evaluate demo_limits ''shell_exec'' True 26 [(''shell_exec'', [5, 10])])"
proof (rule refused_call_consumes_nothing)
  show "\<not> True \<or> \<not> rd_allowed (fst (rl_evaluate demo_limits ''shell_exec'' True 15 [(''shell_exec'', [5, 10])]))"
    by code_simp
qed simp

text \<open>For a tool without a daily quota the retry hint is exact: a call refused in a reachable
  state is accepted once \<open>retryAfterMs\<close> milliseconds have passed without further calls.\<close>

theorem retry_hint_sufficient:
  assumes en: "rl_enabled cfg" and fresh: "rl_fresh w0" and w: "w = fold (rl_step cfg) ops w0"
    and rule: "dailyQuota (ruleFor cfg tool) = None" "0 < maxCalls (ruleFor cfg tool)" "0 < windowMs (ruleFor cfg tool)"
    and hint: "rd_retryAfterMs (fst (rl_check cfg tool (w_clock w) (w_buckets w))) = Some r"
  shows "rd_allowed (fst (rl_check cfg tool (w_clock w + r) (w_buckets w)))"
proof -
  let ?rule = "ruleFor cfg tool" and ?t = "w_clock w"
  define hits where "hits = window_hits ?rule ?t (prune ?rule ?t (bucket_of (w_buckets w) tool))"
  from hint en rule(1) have full: "maxCalls ?rule \<le> int (length hits)"
    and r: "r = max 0 (first_or hits ?t + windowMs ?rule - ?t)"
    by (auto simp: rl_check_def rl_evaluate_def Let_def hits_def split: if_split_asm)
  from full rule(2) obtain x xs where hits: "hits = x # xs" by (cases hits) auto
  have "x \<in> set hits" by (simp add: hits)
  then have x: "?t < x + windowMs ?rule" "x \<in> set (bucket_of (w_buckets w) tool)"
    using rule by (auto simp: hits_def window_hits_def prune_def rl_horizon_def quota_truthy_def)
  have r': "?t + r = x + windowMs ?rule" "0 \<le> r" using r x by (auto simp: hits first_or_def)
  have le: "length hits \<le> nat (maxCalls ?rule)"
    unfolding hits_def by (rule reachable_window_count [OF en fresh w rule(1,3)])
  have "window_hits ?rule (?t + r) (prune ?rule (?t + r) (bucket_of (w_buckets w) tool)) =
        filter (\<lambda>ts. ?t + r - ts < windowMs ?rule) hits"
    using r'(2) rule unfolding hits_def window_hits_def prune_def filter_filter
    by (intro filter_cong) (auto simp: rl_horizon_def quota_truthy_def)
  also have "length \<dots> < length hits"
    using r' by (simp add: hits le_imp_less_Suc)
  finally show ?thesis using le rule en by (simp add: rl_check_def evaluate_allowed Let_def)
qed

theorem retry_hint_sufficient_witness:
  "let w = fold (rl_step demo_limits) [OpHit 5 ''x'', OpHit 5 ''x'', OpHit 5 ''x''] demo_world
   in rd_retryAfterMs (fst (rl_check demo_limits ''x'' (w_clock w) (w_buckets w))) = Some 20 \<and>
      rd_allowed (fst (rl_check demo_limits ''x'' (w_clock w + 20) (w_buckets w)))"
proof -
  let ?ops = "[OpHit 5 ''x'', OpHit 5 ''x'', OpHit 5 ''x'']"
  have "rl_enabled demo_limits" "rl_fresh demo_world"
    by (simp_all add: demo_limits_def rl_fresh_def demo_world_def)
  moreover have "ruleFor demo_limits ''x'' = \<lparr>maxCalls = 3, windowMs = 30, dailyQuota = None\<rparr>"
    by code_simp
  moreover have "rd_retryAfterMs (fst (rl_check demo_limits ''x''
      (w_clock (fold (rl_step demo_limits) ?ops demo_world))
      (w_buckets (fold (rl_step demo_limits) ?ops demo_world)))) = Some 20"
    by code_simp
  ultimately show ?thesis
    using retry_hint_sufficient [OF _ _ refl, of demo_limits demo_world "''x''" ?ops 20]
    by (simp add: Let_def)
qed

text \<open>For a tool with a daily quota (and a window shorter than a day, as every override of
  the default configuration has) the retry hint is one millisecond short: the oldest call still counts
  when the hinted time has passed, so the retry is refused again.\<close>

theorem retry_hint_short_with_quota:
  assumes en: "rl_enabled cfg" and fresh: "rl_fresh w0" and w: "w = fold (rl_step cfg) ops w0"
    and rule: "quota_truthy (ruleFor cfg tool)" "0 < maxCalls (ruleFor cfg tool)"
      "0 < windowMs (ruleFor cfg tool)" "windowMs (ruleFor cfg tool) < DAY_MS"
    and d: "d = fst (rl_check cfg tool (w_clock w) (w_buckets w))"
    and full: "maxCalls (ruleFor cfg tool) \<le> int (rd_windowCount d)" and hint: "rd_retryAfterMs d = Some r"
  shows "\<not> rd_allowed (fst (rl_check cfg tool (w_clock w + r) (w_buckets w)))"
proof -
  let ?rule = "ruleFor cfg tool" and ?t = "w_clock w"
  define hits where "hits = window_hits ?rule ?t (prune ?rule ?t (bucket_of (w_buckets w) tool))"
  note den = check_window_denied [OF en full d hint, folded hits_def]
  from den(2) full rule(2) obtain x xs where hits: "hits = x # xs" by (cases hits) auto
  have log: "hits = window_hits ?rule ?t (prune ?rule ?t (w_log w tool))"
    by (simp add: hits_def reachable_prune [OF en fresh w order_refl])
  then have "sorted hits"
    using reachable_sorted [OF en fresh w, of tool] by (simp add: window_hits_def prune_def sorted_wrt_filter)
  have "x \<in> set hits" by (simp add: hits)
  then have x: "?t - windowMs ?rule \<le> x" by (simp add: hits_def window_hits_def)
  from \<open>sorted hits\<close> have least: "\<forall>y \<in> set hits. x \<le> y" by (auto simp: hits)
  have r: "?t + r = x + windowMs ?rule" "0 \<le> r" using den(1) x by (auto simp: hits first_or_def)
  have "length hits \<le> length (window_hits ?rule (?t + r) (prune ?rule (?t + r) (bucket_of (w_buckets w) tool)))"
    unfolding hits_def window_hits_def prune_def filter_filter
    using least r rule by (intro length_filter_mono)
      (auto simp: hits_def window_hits_def prune_def rl_horizon_def)
  with full den(2) en show ?thesis by (auto simp: rl_check_def evaluate_allowed Let_def)
qed

theorem retry_hint_short_with_quota_witness:
  "let w = fold (rl_step demo_limits) [OpHit 5 ''shell_exec'', OpHit 5 ''shell_exec''] demo_world
   in rd_retryAfterMs (fst (rl_check demo_limits ''shell_exec'' (w_clock w) (w_buckets w))) = Some 15 \<and>
      \<not> rd_allowed (fst (rl_check demo_limits ''shell_exec'' (w_clock w + 15) (w_buckets w)))"
proof -
  let ?ops = "[OpHit 5 ''shell_exec'', OpHit 5 ''shell_exec'']"
  let ?w = "fold (rl_step demo_limits) ?ops demo_world"
  let ?d = "fst (rl_check demo_limits ''shell_exec'' (w_clock ?w) (w_buckets ?w))"
  have "rl_enabled demo_limits" "rl_fresh demo_world"
    by (simp_all add: demo_limits_def rl_fresh_def demo_world_def)
  moreover have "ruleFor demo_limits ''shell_exec'' = \<lparr>maxCalls = 2, windowMs = 20, dailyQuota = Some 5\<rparr>"
    by code_simp
  moreover have "rd_retryAfterMs ?d = Some 15" "rd_windowCount ?d = 2" by code_simp+
  ultimately show ?thesis
    using retry_hint_short_with_quota [OF _ _ refl _ _ _ _ refl, of demo_limits demo_world "''shell_exec''" ?ops 15]
    by (simp add: Let_def quota_truthy_def DAY_MS_def)
qed

end
