(* ===== verification/FF_AuditLog.thy ===== *)
theory FF_AuditLog
  imports FF_Json FF_Risk
begin

text \<open>
  \<^verbatim>\<open>src/audit/audit-log.ts\<close> with \<^verbatim>\<open>src/audit/event-types.ts\<close>: the audit facade.  The storage port
  behind it (\<^verbatim>\<open>AuditStore\<close>) is a parameter: \<open>au_append\<close> and \<open>au_preflight\<close> say which of its
  successive calls succeed, and \<open>al_stored\<close> is what it holds; \<open>au_time\<close> gives the time stamps.
\<close>

datatype AuditEventType =
    EvToolCall | EvToolResult | EvToolReplay | EvToolError | EvPolicyDeny | EvPolicyChange | EvRateLimited
  | EvApprovalRequest | EvApprovalResolved | EvWorkspaceActivate | EvProcessEvent | EvTaskEvent | EvServerStart
  | EvDashboardAction | EvShareSession | EvAuditRepair

record AuditEvent =
  ev_ts :: string
  ev_type :: AuditEventType
  ev_tool :: "string option"
  ev_risk :: "risk_level option"
  ev_ok :: "bool option"
  ev_durationMs :: "int option"
  ev_summary :: "string option"
  ev_detail :: "jobject option"

record AuditConfig =
  ac_required :: bool
  ac_requireForHighRisk :: bool
  ac_requireForAuthenticatedHttp :: bool

definition DEFAULT_AUDIT_CONFIG :: AuditConfig where
  "DEFAULT_AUDIT_CONFIG = \<lparr>ac_required = False, ac_requireForHighRisk = True, ac_requireForAuthenticatedHttp = True\<rparr>"

record audit_port =
  au_append :: "nat \<Rightarrow> bool"
  au_preflight :: "nat \<Rightarrow> bool"
  au_time :: "nat \<Rightarrow> string"

record audit_log =
  al_buffer :: "AuditEvent list"
  al_stored :: "AuditEvent list"
  al_calls :: nat

definition maxBuffer :: nat where
  "maxBuffer = 500"

definition requiresDurability :: "AuditConfig \<Rightarrow> risk_level option \<Rightarrow> tool_principal option \<Rightarrow> bool" where
  "requiresDurability cfg risk p \<longleftrightarrow>
     ac_required cfg \<or>
     (ac_requireForHighRisk cfg \<and> (risk = Some HIGH \<or> risk = Some CRITICAL)) \<or>
     (ac_requireForAuthenticatedHttp cfg \<and>
        (case p of None \<Rightarrow> False | Some x \<Rightarrow> p_authMode x = Some AuthToken \<or> p_authMode x = Some AuthOauth))"

definition handleFailure :: "bool \<Rightarrow> (audit_log, unit) act" where
  "handleFailure required = (if required then throwA AuditUnavailable else retA ())"

definition remember :: "AuditEvent \<Rightarrow> AuditEvent list \<Rightarrow> AuditEvent list" where
  "remember e buf = (let b = buf @ [e] in if length b > maxBuffer then tl b else b)"

definition al_preflight :: "audit_port \<Rightarrow> AuditConfig \<Rightarrow> bool option \<Rightarrow> (audit_log, unit) act" where
  "al_preflight port cfg required l =
     (let req = (case required of Some b \<Rightarrow> b | None \<Rightarrow> ac_required cfg);
          l1 = l\<lparr>al_calls := Suc (al_calls l)\<rparr>
      in if au_preflight port (al_calls l) then (Inr (), l1) else handleFailure req l1)"

definition al_record :: "audit_port \<Rightarrow> AuditConfig \<Rightarrow> AuditEvent \<Rightarrow> bool option \<Rightarrow> (audit_log, AuditEvent) act" where
  "al_record port cfg event required l =
     (let req = (case required of Some b \<Rightarrow> b | None \<Rightarrow> ac_required cfg);
          full = event\<lparr>ev_ts := au_time port (al_calls l)\<rparr>;
          l1 = l\<lparr>al_calls := Suc (al_calls l)\<rparr>
      in bindA (if au_append port (al_calls l) then modifyA (\<lambda>x. x\<lparr>al_stored := al_stored x @ [full]\<rparr>)
                else handleFailure req)
           (\<lambda>_. bindA (modifyA (\<lambda>x. x\<lparr>al_buffer := remember full (al_buffer x)\<rparr>)) (\<lambda>_. retA full)) l1)"

text \<open>\<^verbatim>\<open>slice(-limit)\<close> keeps the last \<open>limit\<close> events, and everything for \<open>limit = 0\<close>.\<close>

definition slice_last :: "nat \<Rightarrow> 'a list \<Rightarrow> 'a list" where
  "slice_last n xs = (if n = 0 then xs else drop (length xs - n) xs)"

definition al_recent :: "nat \<Rightarrow> audit_log \<Rightarrow> AuditEvent list" where
  "al_recent limit l = rev (slice_last limit (al_buffer l))"

section \<open>Lemmas\<close>

lemma al_record_cases:
  obtains "au_append port (al_calls l)"
    "al_record port cfg e required l =
       (Inr (e\<lparr>ev_ts := au_time port (al_calls l)\<rparr>),
        l\<lparr>al_calls := Suc (al_calls l), al_stored := al_stored l @ [e\<lparr>ev_ts := au_time port (al_calls l)\<rparr>],
          al_buffer := remember (e\<lparr>ev_ts := au_time port (al_calls l)\<rparr>) (al_buffer l)\<rparr>)"
  | "\<not> au_append port (al_calls l)" "case required of Some b \<Rightarrow> b | None \<Rightarrow> ac_required cfg"
    "al_record port cfg e required l = (Inl AuditUnavailable, l\<lparr>al_calls := Suc (al_calls l)\<rparr>)"
  | "\<not> au_append port (al_calls l)" "\<not> (case required of Some b \<Rightarrow> b | None \<Rightarrow> ac_required cfg)"
    "al_record port cfg e required l =
       (Inr (e\<lparr>ev_ts := au_time port (al_calls l)\<rparr>),
        l\<lparr>al_calls := Suc (al_calls l),
          al_buffer := remember (e\<lparr>ev_ts := au_time port (al_calls l)\<rparr>) (al_buffer l)\<rparr>)"
  by (cases "au_append port (al_calls l)"; cases "case required of Some b \<Rightarrow> b | None \<Rightarrow> ac_required cfg")
    (simp_all add: al_record_def handleFailure_def act_defs Let_def)

lemma remember_suffix:
  assumes "length buf \<le> maxBuffer" "buf = drop (length es - maxBuffer) es"
  shows "remember e buf = drop (length (es @ [e]) - maxBuffer) (es @ [e]) \<and> length (remember e buf) \<le> maxBuffer"
proof (cases "length es < maxBuffer")
  case True
  with assms show ?thesis by (simp add: remember_def)
next
  case False
  let ?k = "length es - maxBuffer"
  have len: "length buf = maxBuffer" using assms(2) False by simp
  then have ne: "buf \<noteq> []" by (auto simp: maxBuffer_def)
  have "remember e buf = tl (buf @ [e])" using len by (simp add: remember_def)
  also have "\<dots> = drop (Suc ?k) es @ [e]" using ne by (simp add: assms(2) tl_drop drop_Suc)
  also have "\<dots> = drop (length (es @ [e]) - maxBuffer) (es @ [e])"
  proof -
    have "length (es @ [e]) - maxBuffer = Suc ?k" using False by (simp add: Suc_diff_le)
    moreover have "Suc ?k \<le> length es" using False by (simp add: maxBuffer_def)
    ultimately show ?thesis by simp
  qed
  finally show ?thesis using len by (simp add: remember_def)
qed

section \<open>Properties\<close>

text \<open>A required audit event is never silently lost: when recording it returns, it is the last event
  of the store; when the store fails the call throws and neither the store nor the memory of recent events
  has it.\<close>

theorem required_event_is_stored_or_throws:
  "(case al_record port cfg e (Some True) l of
      (Inr full, l') \<Rightarrow> al_stored l' = al_stored l @ [full] \<and> full\<lparr>ev_ts := ev_ts e\<rparr> = e
    | (Inl err, l') \<Rightarrow> err = AuditUnavailable \<and> al_stored l' = al_stored l \<and> al_buffer l' = al_buffer l)"
  by (cases rule: al_record_cases [of port l cfg e "Some True"]) simp_all

fun record_all :: "audit_port \<Rightarrow> AuditConfig \<Rightarrow> AuditEvent list \<Rightarrow> audit_log \<Rightarrow> audit_log" where
  "record_all port cfg [] l = l"
| "record_all port cfg (e # es) l = record_all port cfg es (snd (al_record port cfg e (Some False) l))"

fun stamped :: "audit_port \<Rightarrow> AuditEvent list \<Rightarrow> nat \<Rightarrow> AuditEvent list" where
  "stamped port [] n = []"
| "stamped port (e # es) n = e\<lparr>ev_ts := au_time port n\<rparr> # stamped port es (Suc n)"

lemma record_best_effort:
  "al_calls (snd (al_record port cfg e (Some False) l)) = Suc (al_calls l) \<and>
   al_buffer (snd (al_record port cfg e (Some False) l)) = remember (e\<lparr>ev_ts := au_time port (al_calls l)\<rparr>) (al_buffer l)"
  by (cases rule: al_record_cases [of port l cfg e "Some False"]) simp_all

lemma record_all_window:
  "al_buffer l = drop (length past - maxBuffer) past \<Longrightarrow> length (al_buffer l) \<le> maxBuffer \<Longrightarrow>
     al_buffer (record_all port cfg es l) =
       drop (length (past @ stamped port es (al_calls l)) - maxBuffer) (past @ stamped port es (al_calls l))"
proof (induction es arbitrary: l past)
  case (Cons e es)
  let ?l = "snd (al_record port cfg e (Some False) l)" and ?f = "e\<lparr>ev_ts := au_time port (al_calls l)\<rparr>"
  note r = record_best_effort [of port cfg e l] and w = remember_suffix [OF Cons.prems(2,1), of ?f]
  have "al_buffer ?l = drop (length (past @ [?f]) - maxBuffer) (past @ [?f])" "length (al_buffer ?l) \<le> maxBuffer"
    using r w by simp_all
  from Cons.IH [OF this] r show ?case by simp
qed simp

text \<open>The memory of recent events is a window of the recorded ones: after recording any sequence of
  events with best effort it holds the last 500 of them in order, whatever the store did.\<close>

theorem recent_events_are_the_last_recorded:
  assumes "al_buffer l = []"
  shows "al_buffer (record_all port cfg es l) =
           drop (length es - maxBuffer) (stamped port es (al_calls l))"
proof -
  have "length (stamped port es n) = length es" for n by (induction es arbitrary: n) simp_all
  with record_all_window [of l "[]" port cfg es] assms show ?thesis by simp
qed

definition demo_event :: "string \<Rightarrow> AuditEvent" where
  "demo_event t = \<lparr>ev_ts = [], ev_type = EvToolCall, ev_tool = Some t, ev_risk = None, ev_ok = None,
     ev_durationMs = None, ev_summary = None, ev_detail = None\<rparr>"

definition demo_log :: audit_log where
  "demo_log = \<lparr>al_buffer = [], al_stored = [], al_calls = 0\<rparr>"

definition demo_port :: audit_port where
  "demo_port = \<lparr>au_append = (\<lambda>j. j \<noteq> 1), au_preflight = (\<lambda>_. True), au_time = show_nat\<rparr>"

theorem recent_events_are_the_last_recorded_witness:
  "al_buffer (record_all demo_port DEFAULT_AUDIT_CONFIG [demo_event ''a'', demo_event ''b''] demo_log) =
     [(demo_event ''a'')\<lparr>ev_ts := ''0''\<rparr>, (demo_event ''b'')\<lparr>ev_ts := ''1''\<rparr>]"
proof -
  have "al_buffer demo_log = []" by (simp add: demo_log_def)
  moreover have "stamped demo_port [demo_event ''a'', demo_event ''b''] (al_calls demo_log) =
      [(demo_event ''a'')\<lparr>ev_ts := ''0''\<rparr>, (demo_event ''b'')\<lparr>ev_ts := ''1''\<rparr>]" by code_simp
  ultimately show ?thesis
    using recent_events_are_the_last_recorded [of demo_log demo_port DEFAULT_AUDIT_CONFIG "[demo_event ''a'', demo_event ''b'']"]
    by (simp add: maxBuffer_def)
qed

end
