(* ===== verification/FF_Principal.thy ===== *)
theory FF_Principal
  imports FF_Paths FF_Risk FF_Json
begin

text \<open>
  \<^verbatim>\<open>src/core/principal.ts\<close>: the principals of local and credentialed callers and the execution context
  that is added to them.  \<open>sha\<close> stands for the hexadecimal SHA-256 digest of a text and \<open>uuid\<close> for the
  text \<^verbatim>\<open>randomUUID()\<close> returns.
\<close>

definition STDIO_AGENT_PRINCIPAL :: tool_principal where
  "STDIO_AGENT_PRINCIPAL = (bare_principal ''local:stdio-agent'' RoleAgent)\<lparr>p_authMode := Some AuthStdio\<rparr>"

definition LOOPBACK_HTTP_AGENT_PRINCIPAL :: tool_principal where
  "LOOPBACK_HTTP_AGENT_PRINCIPAL = (bare_principal ''local:http-agent'' RoleAgent)\<lparr>p_authMode := Some AuthNone\<rparr>"

definition LOOPBACK_DASHBOARD_ADMIN_PRINCIPAL :: tool_principal where
  "LOOPBACK_DASHBOARD_ADMIN_PRINCIPAL = bare_principal ''local:dashboard-admin'' RoleAdmin"

definition credentialPrincipalId :: "(string \<Rightarrow> string) \<Rightarrow> string \<Rightarrow> string" where
  "credentialPrincipalId sha credential = ''credential:'' @ take 24 (sha credential)"

definition agentPrincipalFromCredential :: "(string \<Rightarrow> string) \<Rightarrow> string option \<Rightarrow> tool_principal" where
  "agentPrincipalFromCredential sha credential =
     (case truthy credential of
        Some c \<Rightarrow> (bare_principal (credentialPrincipalId sha c) RoleAgent)\<lparr>p_authMode := Some AuthToken\<rparr>
      | None \<Rightarrow> LOOPBACK_HTTP_AGENT_PRINCIPAL)"

definition adminPrincipalFromCredential :: "(string \<Rightarrow> string) \<Rightarrow> string option \<Rightarrow> tool_principal" where
  "adminPrincipalFromCredential sha credential =
     (case truthy credential of
        Some c \<Rightarrow> bare_principal (credentialPrincipalId sha c) RoleAdmin
      | None \<Rightarrow> LOOPBACK_DASHBOARD_ADMIN_PRINCIPAL)"

definition projectPrincipalId :: "file_system \<Rightarrow> (string \<Rightarrow> string) \<Rightarrow> string \<Rightarrow> string result" where
  "projectPrincipalId fs sha projectRoot =
     bindR (canonicalCandidatePath fs projectRoot) (\<lambda>root. Inr (''project:'' @ take 24 (sha root)))"

definition scopedSessionId :: "(string \<Rightarrow> string) \<Rightarrow> string \<Rightarrow> string \<Rightarrow> string option \<Rightarrow> string" where
  "scopedSessionId sha uuid principalId hint =
     (let h = (case hint of None \<Rightarrow> [] | Some t \<Rightarrow> js_trim t);
          material = the (json_text (JArr [JStr principalId, JStr (if h = [] then uuid else h)]))
      in ''session:'' @ take 24 (sha material))"

text \<open>\<^verbatim>\<open>xs?.length ? [...new Set(xs)] : d\<close>\<close>

definition uniq_or :: "string list option \<Rightarrow> string list \<Rightarrow> string list" where
  "uniq_or xs d = (case xs of None \<Rightarrow> d | Some [] \<Rightarrow> d | Some ys \<Rightarrow> uniq ys)"

definition withExecutionContext :: "file_system \<Rightarrow> (string \<Rightarrow> string) \<Rightarrow> string \<Rightarrow> tool_principal \<Rightarrow> string \<Rightarrow>
    string option \<Rightarrow> tool_principal result" where
  "withExecutionContext fs sha uuid p projectRoot sessionHint =
     bindR (case p_projectId p of Some i \<Rightarrow> Inr i | None \<Rightarrow> projectPrincipalId fs sha projectRoot) (\<lambda>project.
       Inr (p\<lparr>p_roles := Some (uniq_or (p_roles p) [role_text (p_role p)]),
              p_organizationId := Some (case p_organizationId p of Some x \<Rightarrow> x | None \<Rightarrow> ''organization:local''),
              p_teamIds := Some (uniq_or (p_teamIds p) [''team:local'']),
              p_projectId := Some project,
              p_sessionId := Some (case p_sessionId p of Some x \<Rightarrow> x
                                   | None \<Rightarrow> scopedSessionId sha uuid (p_id p) sessionHint)\<rparr>))"

section \<open>Properties\<close>

lemma uniq_or_idem: "uniq_or (Some (uniq_or xs [x])) d = uniq_or xs [x]"
proof -
  have "distinct (uniq_or xs [x])" "uniq_or xs [x] \<noteq> []"
    by (auto simp: uniq_or_def simp del: uniq.simps(2) split: option.splits list.splits)
  then show ?thesis by (cases "uniq_or xs [x]") (simp_all add: uniq_or_def uniq_distinct_id del: uniq.simps(2))
qed

text \<open>Adding the execution context never weakens the authenticated identity: identity, role,
  authentication mode, scopes, client, capsule and task are those of the caller, values already set win over
  the defaults, and adding a second context, for whatever project and session, changes nothing.\<close>

theorem context_keeps_identity:
  assumes "withExecutionContext fs sha uuid p root hint = Inr q"
  shows "p_id q = p_id p \<and> p_role q = p_role p \<and> p_authMode q = p_authMode p \<and> p_scopes q = p_scopes p \<and>
     p_oauthClientId q = p_oauthClientId p \<and> p_capsuleId q = p_capsuleId p \<and> p_taskId q = p_taskId p \<and>
     (\<forall>x. p_organizationId p = Some x \<longrightarrow> p_organizationId q = Some x) \<and>
     (\<forall>x. p_projectId p = Some x \<longrightarrow> p_projectId q = Some x) \<and>
     (\<forall>x. p_sessionId p = Some x \<longrightarrow> p_sessionId q = Some x) \<and>
     withExecutionContext fs' sha' uuid' q root' hint' = Inr q"
proof -
  from assms obtain project where
    "q = p\<lparr>p_roles := Some (uniq_or (p_roles p) [role_text (p_role p)]),
              p_organizationId := Some (case p_organizationId p of Some x \<Rightarrow> x | None \<Rightarrow> ''organization:local''),
              p_teamIds := Some (uniq_or (p_teamIds p) [''team:local'']),
              p_projectId := Some project,
              p_sessionId := Some (case p_sessionId p of Some x \<Rightarrow> x
                                   | None \<Rightarrow> scopedSessionId sha uuid (p_id p) hint)\<rparr>"
    and "p_projectId p = None \<or> p_projectId p = Some project"
    by (auto simp: withExecutionContext_def split: option.splits)
  then show ?thesis by (auto simp: withExecutionContext_def uniq_or_idem)
qed

theorem context_keeps_identity_witness:
  "\<exists>q. withExecutionContext (linked_fs ''/w'' (\<lambda>_. True) id) id ''u'' STDIO_AGENT_PRINCIPAL ''/w'' (Some ''s'') = Inr q \<and>
     p_authMode q = Some AuthStdio"
proof -
  have "\<not> isl (withExecutionContext (linked_fs ''/w'' (\<lambda>_. True) id) id ''u'' STDIO_AGENT_PRINCIPAL ''/w'' (Some ''s''))"
    by code_simp
  then obtain q where q: "withExecutionContext (linked_fs ''/w'' (\<lambda>_. True) id) id ''u'' STDIO_AGENT_PRINCIPAL ''/w'' (Some ''s'') = Inr q"
    by (cases "withExecutionContext (linked_fs ''/w'' (\<lambda>_. True) id) id ''u'' STDIO_AGENT_PRINCIPAL ''/w'' (Some ''s'')") simp_all
  from context_keeps_identity [OF this] q show ?thesis by (simp add: STDIO_AGENT_PRINCIPAL_def)
qed

end
