(* ===== verification/FF_Capsule.thy ===== *)
theory FF_Capsule
  imports FF_Principal "HOL-Library.AList"
begin

text \<open>
  \<^verbatim>\<open>src/capsule/workspace-capsule-manager.ts\<close>: workspace capsules, the leases under which a principal may
  work in a workspace, their binding to calls, their budgets and their state file.

  A time stamp is the instant it denotes, in milliseconds; \<open>cv_iso\<close> and \<open>cv_parse\<close> are \<^verbatim>\<open>toISOString\<close>
  and \<^verbatim>\<open>Date.parse\<close> (\<open>None\<close> for NaN) where the state file is written and read.  The hash, the random
  identifiers, the file system and the two callbacks on managed worktrees are fields of \<open>capsule_env\<close>;
  \<open>cv_write n\<close> says whether the n-th write of the state file succeeds.  The clock is read once per call
  and passed as \<open>now\<close>.  The state file is its JSON value; numbers are integers.  The optional identity
  fields of a stored entry, which the code does not check, are taken to be texts.
\<close>

section \<open>Data\<close>

datatype PermissionProfile = Observe | Propose | Develop | Autopilot
datatype CapsuleIsolation = IsoDirect | IsoCheckpoint | IsoWorktree
datatype CapsuleNetworkPolicy = NetNone | NetRestricted
datatype ClientCompatibilityProfile = CompatChatgpt | CompatClaude | CompatGeneric
datatype CapsuleEnforcement = EnfOptional | EnfRemote | EnfAll

text \<open>A limit that a state file leaves out is undefined, hence the options.\<close>

record CapsuleLimits =
  cl_maxCalls :: "int option"
  cl_maxMutations :: "int option"
  cl_maxFilesPerCall :: "int option"
  cl_maxCommandLength :: "int option"

record WorkspaceCapsule =
  wc_id :: string
  wc_workspaceRoot :: string
  wc_workspaceId :: string
  wc_principalId :: string
  wc_projectId :: string
  wc_sessionId :: "string option"
  wc_clientId :: "string option"
  wc_taskId :: "string option"
  wc_profile :: PermissionProfile
  wc_grantedScopes :: "string list"
  wc_createdAt :: int
  wc_expiresAt :: int
  wc_revokedAt :: "int option"
  wc_revokedBy :: "string option"
  wc_isolation :: CapsuleIsolation
  wc_networkPolicy :: CapsuleNetworkPolicy
  wc_limits :: CapsuleLimits
  wc_evidenceDestination :: string
  wc_clientCompatibility :: ClientCompatibilityProfile
  wc_calls :: int
  wc_mutations :: int
  wc_lastUsedAt :: "int option"

text \<open>The enumerations of an input arrive as texts; the checks of \<^verbatim>\<open>create\<close> turn them into values.\<close>

record CreateCapsuleInput =
  ci_workspaceRoot :: string
  ci_principalId :: string
  ci_profile :: string
  ci_ttlMs :: "int option"
  ci_sessionId :: "string option"
  ci_clientId :: "string option"
  ci_taskId :: "string option"
  ci_grantedScopes :: "string list option"
  ci_isolation :: "string option"
  ci_networkPolicy :: "string option"
  ci_limits :: CapsuleLimits
  ci_evidenceDestination :: "string option"
  ci_clientCompatibility :: "string option"

datatype CapsuleDecision =
    CapAllow "WorkspaceCapsule option"
  | CapDeny "WorkspaceCapsule option" string

record capsule_env =
  cv_fs :: file_system
  cv_allowed :: "string list"
  cv_enforcement :: CapsuleEnforcement
  cv_defaultTtl :: int
  cv_maxTtl :: int
  cv_isManagedWorktree :: "string \<Rightarrow> bool"
  cv_managedWorktreeForPath :: "string \<Rightarrow> string option"
  cv_sha :: "string \<Rightarrow> string"
  cv_uuid :: "nat \<Rightarrow> string"
  cv_iso :: "int \<Rightarrow> string"
  cv_parse :: "string \<Rightarrow> int option"
  cv_write :: "nat \<Rightarrow> bool"

record capsule_manager =
  cm_capsules :: "(string \<times> WorkspaceCapsule) list"
  cm_file :: "jval option"
  cm_draws :: nat
  cm_writes :: nat

text \<open>The three facts of \<^verbatim>\<open>PROFILE_DEFAULTS\<close>.\<close>

definition mk_limits :: "int \<Rightarrow> int \<Rightarrow> int \<Rightarrow> int \<Rightarrow> CapsuleLimits" where
  "mk_limits a b c d = \<lparr>cl_maxCalls = Some a, cl_maxMutations = Some b, cl_maxFilesPerCall = Some c,
     cl_maxCommandLength = Some d\<rparr>"

fun PROFILE_DEFAULTS :: "PermissionProfile \<Rightarrow> CapsuleIsolation \<times> CapsuleNetworkPolicy \<times> CapsuleLimits" where
  "PROFILE_DEFAULTS Observe = (IsoDirect, NetNone, mk_limits 500 0 25 0)"
| "PROFILE_DEFAULTS Propose = (IsoWorktree, NetNone, mk_limits 1500 300 50 2000)"
| "PROFILE_DEFAULTS Develop = (IsoCheckpoint, NetRestricted, mk_limits 3000 1000 100 8000)"
| "PROFILE_DEFAULTS Autopilot = (IsoWorktree, NetRestricted, mk_limits 5000 2000 150 8000)"

definition NEVER_AUTONOMOUS :: "string list" where
  "NEVER_AUTONOMOUS = [''git_push'', ''git_reset'', ''marketplace_sync'', ''marketplace_install'', ''marketplace_package'']"

definition NETWORK_COMMAND :: regex where
  "NETWORK_COMMAND =
     (let sep = RIn ('';&|'' @ space_chars);
          verb = (\<lambda>cmd subs. RSeqs [RLit cmd, RPlus RSpace, RAlts (map RLit subs)])
      in ignore_case (RSeqs [RAlt RBol sep,
           RAlts [RLit ''curl'', RLit ''wget'', RLit ''ssh'', RLit ''scp'', RLit ''rsync'',
                  verb ''npm'' [''install'', ''add'', ''publish''],
                  verb ''pnpm'' [''add'', ''install'', ''publish''],
                  verb ''yarn'' [''add'', ''install'', ''publish''],
                  verb ''pip'' [''install''],
                  verb ''git'' [''fetch'', ''pull'', ''push'']],
           RAlt sep REol]))"

definition profile_text :: "PermissionProfile \<Rightarrow> string" where
  "profile_text p = (case p of Observe \<Rightarrow> ''observe'' | Propose \<Rightarrow> ''propose'' | Develop \<Rightarrow> ''develop''
     | Autopilot \<Rightarrow> ''autopilot'')"

definition profile_of_text :: "string \<Rightarrow> PermissionProfile option" where
  "profile_of_text t = find (\<lambda>p. profile_text p = t) [Observe, Propose, Develop, Autopilot]"

definition isolation_text :: "CapsuleIsolation \<Rightarrow> string" where
  "isolation_text i = (case i of IsoDirect \<Rightarrow> ''direct'' | IsoCheckpoint \<Rightarrow> ''checkpoint'' | IsoWorktree \<Rightarrow> ''worktree'')"

definition isolation_of_text :: "string \<Rightarrow> CapsuleIsolation option" where
  "isolation_of_text t = find (\<lambda>i. isolation_text i = t) [IsoDirect, IsoCheckpoint, IsoWorktree]"

definition network_text :: "CapsuleNetworkPolicy \<Rightarrow> string" where
  "network_text n = (case n of NetNone \<Rightarrow> ''none'' | NetRestricted \<Rightarrow> ''restricted'')"

definition network_of_text :: "string \<Rightarrow> CapsuleNetworkPolicy option" where
  "network_of_text t = find (\<lambda>n. network_text n = t) [NetNone, NetRestricted]"

definition compat_text :: "ClientCompatibilityProfile \<Rightarrow> string" where
  "compat_text c = (case c of CompatChatgpt \<Rightarrow> ''chatgpt'' | CompatClaude \<Rightarrow> ''claude'' | CompatGeneric \<Rightarrow> ''generic'')"

definition compat_of_text :: "string \<Rightarrow> ClientCompatibilityProfile option" where
  "compat_of_text t = find (\<lambda>c. compat_text c = t) [CompatChatgpt, CompatClaude, CompatGeneric]"

section \<open>Helpers\<close>

definition workspaceId :: "capsule_env \<Rightarrow> string \<Rightarrow> string" where
  "workspaceId env root = ''workspace:'' @ take 24 (cv_sha env (legacyPersistedPath (cv_fs env) root))"

definition capsuleProjectId :: "capsule_env \<Rightarrow> string \<Rightarrow> string result" where
  "capsuleProjectId env root = projectPrincipalId (cv_fs env) (cv_sha env) root"

definition uniqueStrings :: "string list \<Rightarrow> string list" where
  "uniqueStrings vs = uniq (filter (\<lambda>v. v \<noteq> []) (map js_trim vs))"

definition storeDigest :: "capsule_env \<Rightarrow> jval \<Rightarrow> string" where
  "storeDigest env capsules = ''sha256:'' @ cv_sha env (template (stringify capsules))"

definition validDate :: "capsule_env \<Rightarrow> jval \<Rightarrow> int option" where
  "validDate env v = (case v of JStr s \<Rightarrow> cv_parse env s | _ \<Rightarrow> None)"

definition nonNegativeInteger :: "jval \<Rightarrow> int option" where
  "nonNegativeInteger v = (case v of JNum n \<Rightarrow> if 0 \<le> n \<and> n \<le> MAX_SAFE_INTEGER then Some n else None | _ \<Rightarrow> None)"

definition PATH_KEY :: regex where
  "PATH_KEY = ignore_case (RSeqs [RAlt RBol (RIn ''_''),
     RAlts (map RLit [''path'', ''file'', ''from'', ''to'', ''cwd'', ''root'', ''output'', ''source'', ''target'']),
     ROpt (RIn ''s''), REol])"

fun pathLikeValues :: "jval \<Rightarrow> string \<Rightarrow> string list" where
  "pathLikeValues (JStr s) key = (if re_test PATH_KEY key then [s] else [])"
| "pathLikeValues (JArr vs) key = concat (map (\<lambda>v. pathLikeValues v key) vs)"
| "pathLikeValues (JObj kvs) key = concat (map (\<lambda>(k, v). pathLikeValues v k) kvs)"
| "pathLikeValues v key = []"

text \<open>\<^verbatim>\<open>n >= limit\<close> and \<^verbatim>\<open>n > limit\<close>, false for an undefined limit.\<close>

definition reached :: "int \<Rightarrow> int option \<Rightarrow> bool" where
  "reached n limit = (case limit of None \<Rightarrow> False | Some m \<Rightarrow> n \<ge> m)"

definition exceeds :: "int \<Rightarrow> int option \<Rightarrow> bool" where
  "exceeds n limit = (case limit of None \<Rightarrow> False | Some m \<Rightarrow> n > m)"

section \<open>The state file\<close>

definition limit_entry :: "string \<Rightarrow> int option \<Rightarrow> jobject" where
  "limit_entry k x = (case x of None \<Rightarrow> [] | Some n \<Rightarrow> [(k, JNum n)])"

definition limits_json :: "CapsuleLimits \<Rightarrow> jobject" where
  "limits_json l = limit_entry ''maxCalls'' (cl_maxCalls l) @ limit_entry ''maxMutations'' (cl_maxMutations l) @
     limit_entry ''maxFilesPerCall'' (cl_maxFilesPerCall l) @ limit_entry ''maxCommandLength'' (cl_maxCommandLength l)"

definition capsule_json :: "capsule_env \<Rightarrow> WorkspaceCapsule \<Rightarrow> jobject" where
  "capsule_json env c =
     [(''id'', JStr (wc_id c)), (''workspaceRoot'', JStr (wc_workspaceRoot c)),
      (''workspaceId'', JStr (wc_workspaceId c)), (''principalId'', JStr (wc_principalId c)),
      (''projectId'', JStr (wc_projectId c))] @
     opt_entry ''sessionId'' (wc_sessionId c) @ opt_entry ''clientId'' (wc_clientId c) @
     opt_entry ''taskId'' (wc_taskId c) @
     [(''profile'', JStr (profile_text (wc_profile c))),
      (''grantedScopes'', JArr (map JStr (wc_grantedScopes c))),
      (''createdAt'', JStr (cv_iso env (wc_createdAt c))), (''expiresAt'', JStr (cv_iso env (wc_expiresAt c))),
      (''isolation'', JStr (isolation_text (wc_isolation c))),
      (''networkPolicy'', JStr (network_text (wc_networkPolicy c))),
      (''limits'', JObj (limits_json (wc_limits c))),
      (''evidenceDestination'', JStr (wc_evidenceDestination c)),
      (''clientCompatibility'', JStr (compat_text (wc_clientCompatibility c))),
      (''usage'', JObj ([(''calls'', JNum (wc_calls c)), (''mutations'', JNum (wc_mutations c))] @
         opt_entry ''lastUsedAt'' (map_option (cv_iso env) (wc_lastUsedAt c))))] @
     opt_entry ''revokedAt'' (map_option (cv_iso env) (wc_revokedAt c)) @
     opt_entry ''revokedBy'' (wc_revokedBy c)"

definition newest_first :: "WorkspaceCapsule \<Rightarrow> WorkspaceCapsule \<Rightarrow> bool" where
  "newest_first l r \<longleftrightarrow> wc_createdAt r \<le> wc_createdAt l"

definition cm_list :: "capsule_manager \<Rightarrow> WorkspaceCapsule list" where
  "cm_list m = sort_by newest_first (map snd (cm_capsules m))"

definition store_json :: "capsule_env \<Rightarrow> WorkspaceCapsule list \<Rightarrow> jval" where
  "store_json env cs =
     (let capsules = JArr (map (\<lambda>c. JObj (capsule_json env c)) cs)
      in JObj [(''version'', JNum 1), (''capsules'', capsules), (''digest'', JStr (storeDigest env capsules))])"

definition cm_persist :: "capsule_env \<Rightarrow> (capsule_manager, unit) act" where
  "cm_persist env m =
     (let m1 = m\<lparr>cm_writes := Suc (cm_writes m)\<rparr>
      in if cv_write env (cm_writes m) then (Inr (), m1\<lparr>cm_file := Some (store_json env (cm_list m))\<rparr>)
         else (Inl (PlainError ''EIO: capsules.json''), m1))"

definition assertAllowedRoot :: "capsule_env \<Rightarrow> string \<Rightarrow> unit result" where
  "assertAllowedRoot env root =
     bindR (canonicalCandidatePath (cv_fs env) root) (\<lambda>identity.
     bindR (someR (\<lambda>d. bindR (canonicalCandidatePath (cv_fs env) d) (\<lambda>dir.
              Inr (isPathWithin (fs_cwd (cv_fs env)) dir identity))) (cv_allowed env)) (\<lambda>allowed.
     guardR allowed (PlainError (''Capsule workspace is outside allowed directories: '' @ root))))"

definition assertEvidenceDestination :: "capsule_env \<Rightarrow> string \<Rightarrow> string \<Rightarrow> unit result" where
  "assertEvidenceDestination env workspaceRoot destination =
     bindR (canonicalCandidatePath (cv_fs env) workspaceRoot) (\<lambda>root.
     bindR (canonicalCandidatePath (cv_fs env) destination) (\<lambda>target.
     guardR (isPathWithin (fs_cwd (cv_fs env)) root target)
       (PlainError ''Capsule evidence destination must stay inside the workspace root.'')))"


definition CAPSULE_ID :: regex where
  "CAPSULE_ID = whole (RSeq (RLit ''caps_'') (RTimes 20 (RIn (''abcdef'' @ d09))))"

definition str_field :: "jobject \<Rightarrow> string \<Rightarrow> string \<Rightarrow> string result" where
  "str_field kvs k msg = (case jget kvs k of JStr s \<Rightarrow> Inr s | _ \<Rightarrow> Inl (PlainError msg))"

definition opt_text :: "jval \<Rightarrow> string option" where
  "opt_text v = (case v of JStr s \<Rightarrow> Some s | _ \<Rightarrow> None)"

definition enum_field :: "(string \<Rightarrow> 'a option) \<Rightarrow> jobject \<Rightarrow> string \<Rightarrow> string \<Rightarrow> 'a result" where
  "enum_field parse kvs k msg =
     (case jget kvs k of
        JStr s \<Rightarrow> (case parse s of Some v \<Rightarrow> Inr v | None \<Rightarrow> Inl (PlainError msg))
      | _ \<Rightarrow> Inl (PlainError msg))"

fun all_texts :: "jval list \<Rightarrow> string list option" where
  "all_texts [] = Some []"
| "all_texts (JStr s # vs) = map_option ((#) s) (all_texts vs)"
| "all_texts (v # vs) = None"

definition stored_scopes :: "jval \<Rightarrow> string list result" where
  "stored_scopes v =
     (case v of
        JArr vs \<Rightarrow> (case all_texts vs of Some ts \<Rightarrow> Inr (uniqueStrings ts)
                   | None \<Rightarrow> Inl (PlainError ''Capsule scopes are invalid.''))
      | _ \<Rightarrow> Inl (PlainError ''Capsule scopes are invalid.''))"

text \<open>\<^verbatim>\<open>Object.entries(capsule.limits)\<close>; an array is an object too, its limits are undefined.\<close>

definition limit_entries :: "jval \<Rightarrow> jobject result" where
  "limit_entries v =
     (case v of
        JObj kvs \<Rightarrow> Inr kvs
      | JArr vs \<Rightarrow> Inr (map (\<lambda>i. (show_nat i, vs ! i)) [0..<length vs])
      | _ \<Rightarrow> Inl (PlainError ''Capsule limits are invalid.''))"

fun check_limits :: "jobject \<Rightarrow> unit result" where
  "check_limits [] = Inr ()"
| "check_limits ((k, v) # kvs) =
     (if nonNegativeInteger v = None then Inl (PlainError (''Capsule limit '' @ k @ '' is invalid.'')) else check_limits kvs)"

definition stored_limits :: "jval \<Rightarrow> CapsuleLimits result" where
  "stored_limits v =
     bindR (limit_entries v) (\<lambda>kvs. bindR (check_limits kvs) (\<lambda>_.
       let g = (\<lambda>k. nonNegativeInteger (jget kvs k))
       in Inr \<lparr>cl_maxCalls = g ''maxCalls'', cl_maxMutations = g ''maxMutations'',
               cl_maxFilesPerCall = g ''maxFilesPerCall'', cl_maxCommandLength = g ''maxCommandLength''\<rparr>))"

definition stored_usage :: "jval \<Rightarrow> (int \<times> int \<times> jval) result" where
  "stored_usage v =
     (case v of
        JObj kvs \<Rightarrow>
          (case (nonNegativeInteger (jget kvs ''calls''), nonNegativeInteger (jget kvs ''mutations'')) of
             (Some a, Some b) \<Rightarrow> Inr (a, b, jget kvs ''lastUsedAt'')
           | _ \<Rightarrow> Inl (PlainError ''Capsule usage counters are invalid.''))
      | _ \<Rightarrow> Inl (PlainError ''Capsule usage counters are invalid.''))"

text \<open>An optional time stamp: undefined, or a valid date.\<close>

definition stored_date :: "capsule_env \<Rightarrow> jval \<Rightarrow> string \<Rightarrow> int option result" where
  "stored_date env v msg =
     (if v = JUndef then Inr None
      else case validDate env v of Some t \<Rightarrow> Inr (Some t) | None \<Rightarrow> Inl (PlainError msg))"

definition valid_times :: "capsule_env \<Rightarrow> jobject \<Rightarrow> (int \<times> int) result" where
  "valid_times env kvs =
     (case (validDate env (jget kvs ''createdAt''), validDate env (jget kvs ''expiresAt'')) of
        (Some a, Some b) \<Rightarrow>
          bindR (guardR (a < b) (PlainError ''Capsule expiry must follow creation.'')) (\<lambda>_. Inr (a, b))
      | _ \<Rightarrow> Inl (PlainError ''Capsule timestamps are invalid.''))"

definition validatePersistedCapsule :: "capsule_env \<Rightarrow> jval \<Rightarrow> WorkspaceCapsule result" where
  "validatePersistedCapsule env v =
     (case v of
        JObj kvs \<Rightarrow>
          bindR (str_field kvs ''id'' ''Capsule id is invalid.'') (\<lambda>cid.
          bindR (guardR (re_test CAPSULE_ID cid) (PlainError ''Capsule id is invalid.'')) (\<lambda>_.
          bindR (str_field kvs ''workspaceRoot'' ''Capsule workspaceRoot is invalid.'') (\<lambda>storedRoot.
          let root = legacyPersistedPath (cv_fs env) storedRoot in
          bindR (assertAllowedRoot env root) (\<lambda>_.
          bindR (guardR (jget kvs ''workspaceId'' = JStr (workspaceId env root))
                   (PlainError ''Capsule workspace identity does not match its root.'')) (\<lambda>_.
          bindR (capsuleProjectId env root) (\<lambda>project.
          bindR (guardR (jget kvs ''projectId'' = JStr project)
                   (PlainError ''Capsule project identity does not match its root.'')) (\<lambda>_.
          bindR (str_field kvs ''principalId'' ''Capsule principalId is invalid.'') (\<lambda>pid.
          bindR (guardR (js_trim pid \<noteq> []) (PlainError ''Capsule principalId is invalid.'')) (\<lambda>_.
          bindR (enum_field profile_of_text kvs ''profile'' ''Capsule profile is invalid.'') (\<lambda>profile.
          bindR (enum_field isolation_of_text kvs ''isolation'' ''Capsule isolation is invalid.'') (\<lambda>isolation.
          bindR (enum_field network_of_text kvs ''networkPolicy'' ''Capsule network policy is invalid.'') (\<lambda>network.
          bindR (enum_field compat_of_text kvs ''clientCompatibility'' ''Capsule compatibility profile is invalid.'') (\<lambda>compat.
          bindR (stored_scopes (jget kvs ''grantedScopes'')) (\<lambda>scopes.
          bindR (valid_times env kvs) (\<lambda>(created, expires).
          bindR (stored_date env (jget kvs ''revokedAt'') ''Capsule revocation timestamp is invalid.'') (\<lambda>revoked.
          bindR (stored_limits (jget kvs ''limits'')) (\<lambda>limits.
          bindR (guardR (profile = Observe \<longrightarrow> cl_maxMutations limits = Some 0)
                   (PlainError ''Observe capsule mutation limit is invalid.'')) (\<lambda>_.
          bindR (stored_usage (jget kvs ''usage'')) (\<lambda>(calls, mutations, lastUsed).
          bindR (guardR (\<not> exceeds calls (cl_maxCalls limits) \<and> \<not> exceeds mutations (cl_maxMutations limits))
                   (PlainError ''Capsule usage exceeds its persisted limits.'')) (\<lambda>_.
          bindR (stored_date env lastUsed ''Capsule last-used timestamp is invalid.'') (\<lambda>used.
          bindR (str_field kvs ''evidenceDestination'' ''Capsule evidence destination is invalid.'') (\<lambda>dest0.
          let dest = resolve (fs_cwd (cv_fs env)) [dest0] in
          bindR (assertEvidenceDestination env root dest) (\<lambda>_.
          Inr \<lparr>wc_id = cid, wc_workspaceRoot = root, wc_workspaceId = workspaceId env root, wc_principalId = pid,
               wc_projectId = project, wc_sessionId = opt_text (jget kvs ''sessionId''),
               wc_clientId = opt_text (jget kvs ''clientId''), wc_taskId = opt_text (jget kvs ''taskId''),
               wc_profile = profile, wc_grantedScopes = scopes, wc_createdAt = created, wc_expiresAt = expires,
               wc_revokedAt = revoked, wc_revokedBy = opt_text (jget kvs ''revokedBy''), wc_isolation = isolation,
               wc_networkPolicy = network, wc_limits = limits, wc_evidenceDestination = dest,
               wc_clientCompatibility = compat, wc_calls = calls, wc_mutations = mutations,
               wc_lastUsedAt = used\<rparr>)))))))))))))))))))))))
      | _ \<Rightarrow> Inl (PlainError ''Capsule store contains an invalid entry.''))"

text \<open>The loop over the stored entries; a duplicate identifier ends it.\<close>

fun load_capsules :: "capsule_env \<Rightarrow> jval list \<Rightarrow> (string \<times> WorkspaceCapsule) list \<Rightarrow>
    (string \<times> WorkspaceCapsule) list result" where
  "load_capsules env [] acc = Inr acc"
| "load_capsules env (v # vs) acc =
     bindR (validatePersistedCapsule env v) (\<lambda>c.
       if wc_id c \<in> set (map fst acc) then Inl (PlainError (''Duplicate capsule id: '' @ wc_id c))
       else load_capsules env vs (acc @ [(wc_id c, c)]))"

definition load_store :: "capsule_env \<Rightarrow> jval option \<Rightarrow> (string \<times> WorkspaceCapsule) list result" where
  "load_store env file =
     (case file of
        None \<Rightarrow> Inr []
      | Some (JObj kvs) \<Rightarrow>
          (case (jget kvs ''version'', jget kvs ''capsules'', jget kvs ''digest'') of
             (JNum n, JArr vs, JStr d) \<Rightarrow>
               if n \<noteq> 1 then Inl (PlainError ''Unsupported or invalid capsule state file.'')
               else if d \<noteq> storeDigest env (JArr vs) then Inl (PlainError ''Capsule state integrity check failed.'')
               else load_capsules env vs []
           | _ \<Rightarrow> Inl (PlainError ''Unsupported or invalid capsule state file.''))
      | Some _ \<Rightarrow> Inl (PlainError ''Unsupported or invalid capsule state file.''))"

text \<open>The constructor on the state file a previous process left; it throws when the file is rejected.\<close>

definition new_WorkspaceCapsuleManager :: "capsule_env \<Rightarrow> capsule_manager \<Rightarrow> capsule_manager result" where
  "new_WorkspaceCapsuleManager env m =
     bindR (load_store env (cm_file m)) (\<lambda>cs. Inr (m\<lparr>cm_capsules := cs\<rparr>))"

section \<open>Creation, lookup and revocation\<close>

definition trimmed :: "string option \<Rightarrow> string option" where
  "trimmed x = truthy (map_option js_trim x)"

definition or_else :: "'a option \<Rightarrow> 'a option \<Rightarrow> 'a option" where
  "or_else x d = (case x of None \<Rightarrow> d | Some _ \<Rightarrow> x)"

definition merge_limits :: "CapsuleLimits \<Rightarrow> CapsuleLimits \<Rightarrow> CapsuleLimits" where
  "merge_limits d l = \<lparr>cl_maxCalls = or_else (cl_maxCalls l) (cl_maxCalls d),
     cl_maxMutations = or_else (cl_maxMutations l) (cl_maxMutations d),
     cl_maxFilesPerCall = or_else (cl_maxFilesPerCall l) (cl_maxFilesPerCall d),
     cl_maxCommandLength = or_else (cl_maxCommandLength l) (cl_maxCommandLength d)\<rparr>"

definition negative_limit :: "CapsuleLimits \<Rightarrow> string option" where
  "negative_limit l = map_option fst (find (\<lambda>(k, v). case v of JNum n \<Rightarrow> n < 0 | _ \<Rightarrow> True) (limits_json l))"

definition parse_or :: "(string \<Rightarrow> 'a option) \<Rightarrow> string option \<Rightarrow> 'a \<Rightarrow> string \<Rightarrow> 'a result" where
  "parse_or parse t d what =
     (case t of None \<Rightarrow> Inr d
      | Some s \<Rightarrow> (case parse s of Some v \<Rightarrow> Inr v | None \<Rightarrow> Inl (PlainError (''Unknown '' @ what @ '': '' @ s))))"

definition capsule_id :: "capsule_env \<Rightarrow> nat \<Rightarrow> string" where
  "capsule_id env j = ''caps_'' @ take 20 (filter (\<lambda>c. c \<noteq> CHR ''-'') (cv_uuid env j))"

definition new_capsule :: "capsule_env \<Rightarrow> int \<Rightarrow> nat \<Rightarrow> CreateCapsuleInput \<Rightarrow> WorkspaceCapsule result" where
  "new_capsule env now draw input =
     (let root = legacyPersistedPath (cv_fs env) (ci_workspaceRoot input) in
      bindR (assertAllowedRoot env root) (\<lambda>_.
      bindR (guardR (js_trim (ci_principalId input) \<noteq> []) (PlainError ''principalId is required.'')) (\<lambda>_.
      case profile_of_text (ci_profile input) of
        None \<Rightarrow> Inl (PlainError (''Unknown permission profile: '' @ ci_profile input))
      | Some profile \<Rightarrow>
          let ttl = (case ci_ttlMs input of None \<Rightarrow> cv_defaultTtl env | Some t \<Rightarrow> t);
              (dIsolation, dNetwork, dLimits) = PROFILE_DEFAULTS profile
          in if ttl < 1000 \<or> ttl > cv_maxTtl env then
               Inl (PlainError (''ttlMs must be between 1000 and '' @ show_int (cv_maxTtl env) @ ''.''))
             else
             bindR (parse_or isolation_of_text (ci_isolation input) dIsolation ''capsule isolation'') (\<lambda>isolation.
             bindR (parse_or network_of_text (ci_networkPolicy input) dNetwork ''capsule network policy'') (\<lambda>network.
             bindR (parse_or compat_of_text (ci_clientCompatibility input) CompatGeneric
                      ''client compatibility profile'') (\<lambda>compat.
             let limits = merge_limits dLimits (ci_limits input) in
             case negative_limit limits of
               Some k \<Rightarrow> Inl (PlainError (''limits.'' @ k @ '' must be a non-negative integer.''))
             | None \<Rightarrow>
                 bindR (guardR (profile = Observe \<longrightarrow> cl_maxMutations limits = Some 0)
                          (PlainError ''Observe capsules must have maxMutations=0.'')) (\<lambda>_.
                 bindR (capsuleProjectId env root) (\<lambda>project.
                 let dest = resolve (fs_cwd (cv_fs env))
                       [root, case ci_evidenceDestination input of None \<Rightarrow> ''.folderforge/evidence'' | Some d \<Rightarrow> d] in
                 bindR (assertEvidenceDestination env root dest) (\<lambda>_.
                 Inr \<lparr>wc_id = capsule_id env draw, wc_workspaceRoot = root, wc_workspaceId = workspaceId env root,
                      wc_principalId = js_trim (ci_principalId input), wc_projectId = project,
                      wc_sessionId = trimmed (ci_sessionId input), wc_clientId = trimmed (ci_clientId input),
                      wc_taskId = trimmed (ci_taskId input), wc_profile = profile,
                      wc_grantedScopes = uniqueStrings (case ci_grantedScopes input of None \<Rightarrow> [] | Some s \<Rightarrow> s),
                      wc_createdAt = now, wc_expiresAt = now + ttl, wc_revokedAt = None, wc_revokedBy = None,
                      wc_isolation = isolation, wc_networkPolicy = network, wc_limits = limits,
                      wc_evidenceDestination = dest, wc_clientCompatibility = compat,
                      wc_calls = 0, wc_mutations = 0, wc_lastUsedAt = None\<rparr>)))))))))"

text \<open>The entry is in the map before the file is written: when the write throws, it stays there.\<close>

definition cm_put :: "WorkspaceCapsule \<Rightarrow> capsule_manager \<Rightarrow> capsule_manager" where
  "cm_put c m = m\<lparr>cm_capsules := AList.update (wc_id c) c (cm_capsules m)\<rparr>"

definition cm_create :: "capsule_env \<Rightarrow> int \<Rightarrow> CreateCapsuleInput \<Rightarrow> (capsule_manager, WorkspaceCapsule) act" where
  "cm_create env now input m =
     (case new_capsule env now (cm_draws m) input of
        Inl e \<Rightarrow> (Inl e, m)
      | Inr c \<Rightarrow> bindA (cm_persist env) (\<lambda>_. retA c) (cm_put c (m\<lparr>cm_draws := Suc (cm_draws m)\<rparr>)))"

definition cm_get :: "string \<Rightarrow> capsule_manager \<Rightarrow> WorkspaceCapsule option" where
  "cm_get cid m = map_of (cm_capsules m) cid"

definition cm_revoke :: "capsule_env \<Rightarrow> int \<Rightarrow> string \<Rightarrow> string \<Rightarrow> (capsule_manager, WorkspaceCapsule option) act" where
  "cm_revoke env now cid actorId m =
     (case map_of (cm_capsules m) cid of
        None \<Rightarrow> (Inr None, m)
      | Some c \<Rightarrow>
          if wc_revokedAt c \<noteq> None then (Inr (Some c), m)
          else let c' = c\<lparr>wc_revokedAt := Some now, wc_revokedBy := Some actorId\<rparr>
               in bindA (cm_persist env) (\<lambda>_. retA (Some c')) (cm_put c' m))"

definition cm_reserve :: "capsule_env \<Rightarrow> int \<Rightarrow> string \<Rightarrow> bool \<Rightarrow> (capsule_manager, WorkspaceCapsule) act" where
  "cm_reserve env now cid mutates m =
     (case map_of (cm_capsules m) cid of
        None \<Rightarrow> (Inl (PlainError (''Capsule not found: '' @ cid)), m)
      | Some c \<Rightarrow>
          if reached (wc_calls c) (cl_maxCalls (wc_limits c)) then (Inl (PlainError ''Capsule call budget exhausted.''), m)
          else if mutates \<and> reached (wc_mutations c) (cl_maxMutations (wc_limits c))
          then (Inl (PlainError ''Capsule mutation budget exhausted.''), m)
          else let c' = c\<lparr>wc_calls := wc_calls c + 1,
                          wc_mutations := (if mutates then wc_mutations c + 1 else wc_mutations c),
                          wc_lastUsedAt := Some now\<rparr>
               in bindA (cm_persist env) (\<lambda>_. retA c') (cm_put c' m))"

section \<open>The decision on a call\<close>

definition live :: "int \<Rightarrow> WorkspaceCapsule \<Rightarrow> bool" where
  "live now c \<longleftrightarrow> wc_revokedAt c = None \<and> wc_expiresAt c > now"

definition bound_to :: "string \<Rightarrow> tool_principal \<Rightarrow> WorkspaceCapsule \<Rightarrow> bool" where
  "bound_to project p c \<longleftrightarrow> wc_projectId c = project \<and>
     (truthy (wc_sessionId c) = None \<or> wc_sessionId c = p_sessionId p) \<and>
     (truthy (wc_clientId c) = None \<or> wc_clientId c = p_oauthClientId p)"

definition resolveBinding :: "capsule_env \<Rightarrow> int \<Rightarrow> tool_principal \<Rightarrow> string \<Rightarrow> capsule_manager \<Rightarrow> CapsuleDecision result" where
  "resolveBinding env now p projectRoot m =
     (if p_role p = RoleAdmin then Inr (CapAllow None)
      else bindR (canonicalCandidatePath (cv_fs env) projectRoot) (\<lambda>root.
      bindR (case p_projectId p of Some i \<Rightarrow> Inr i | None \<Rightarrow> capsuleProjectId env root) (\<lambda>project.
      bindR (filterR (\<lambda>c. bindR (canonicalCandidatePath (cv_fs env) (wc_workspaceRoot c)) (\<lambda>r.
               Inr (samePath (fs_cwd (cv_fs env)) r root \<and> wc_principalId c = p_id p)))
             (map snd (cm_capsules m))) (\<lambda>candidates.
      if candidates = [] then
        let remote = (p_authMode p = Some AuthToken \<or> p_authMode p = Some AuthOauth)
        in if cv_enforcement env = EnfAll \<or> (cv_enforcement env = EnfRemote \<and> remote)
           then Inr (CapDeny None ''An active Workspace Capsule is required for this principal.'')
           else Inr (CapAllow None)
      else
        let sorted = sort_by newest_first (filter (bound_to project p) candidates)
        in case or_else (find (live now) sorted) (if sorted = [] then None else Some (hd sorted)) of
             None \<Rightarrow> Inr (CapDeny None ''Workspace Capsule binding does not match this project, session, or client.'')
           | Some b \<Rightarrow>
               if wc_revokedAt b \<noteq> None then Inr (CapDeny (Some b) ''Workspace Capsule has been revoked.'')
               else if wc_expiresAt b \<le> now then Inr (CapDeny (Some b) ''Workspace Capsule has expired.'')
               else Inr (CapAllow (Some b))))))"

definition cm_matching :: "capsule_env \<Rightarrow> int \<Rightarrow> tool_principal \<Rightarrow> string \<Rightarrow> capsule_manager \<Rightarrow> WorkspaceCapsule option result" where
  "cm_matching env now p projectRoot m =
     bindR (resolveBinding env now p projectRoot m) (\<lambda>d. Inr (case d of CapAllow c \<Rightarrow> c | CapDeny _ _ \<Rightarrow> None))"

record capsule_call =
  kc_name :: string
  kc_group :: "string option"
  kc_risk :: risk_level
  kc_mutates :: bool
  kc_args :: jobject

definition broad_scope :: "bool \<Rightarrow> string" where
  "broad_scope mutates = (if mutates then ''tools:write'' else ''tools:read'')"

definition scope_granted :: "string list \<Rightarrow> capsule_call \<Rightarrow> bool" where
  "scope_granted scopes call \<longleftrightarrow> scopes = [] \<or>
     ''tool:'' @ kc_name call \<in> set scopes \<or>
     ''group:'' @ (case kc_group call of None \<Rightarrow> ''dynamic'' | Some g \<Rightarrow> g) \<in> set scopes \<or>
     broad_scope (kc_mutates call) \<in> set scopes"

text \<open>The walk over the paths a call names: the first one that leaves the capsule is the reason to deny.\<close>

fun path_escape :: "capsule_env \<Rightarrow> string \<Rightarrow> string \<Rightarrow> string list \<Rightarrow> string option result" where
  "path_escape env projectRoot capsuleRoot [] = Inr None"
| "path_escape env projectRoot capsuleRoot (v # vs) =
     (let cwd = fs_cwd (cv_fs env) in
      bindR (canonicalCandidatePath (cv_fs env) (if isAbsolute v then resolve cwd [v] else resolve cwd [projectRoot, v])) (\<lambda>target.
      if \<not> isPathWithin cwd capsuleRoot target then Inr (Some (''Call path escapes the capsule workspace: '' @ v))
      else case truthy (cv_managedWorktreeForPath env target) of
          None \<Rightarrow> path_escape env projectRoot capsuleRoot vs
        | Some managedRoot \<Rightarrow>
            bindR (canonicalCandidatePath (cv_fs env) managedRoot) (\<lambda>mr.
            if \<not> samePath cwd mr capsuleRoot then Inr (Some (''Call path enters a different managed worktree: '' @ v))
            else path_escape env projectRoot capsuleRoot vs)))"

definition commandTools :: "string list" where
  "commandTools = [''shell_exec'', ''process_start'', ''project_verify'', ''run_test'', ''run_lint'',
     ''run_typecheck'', ''run_build'', ''run_coverage'', ''pkg_run'', ''pkg_add'', ''pkg_remove'', ''format_check'',
     ''format_apply'']"

definition networkTools :: "string list" where
  "networkTools = commandTools @ [''git_fetch'', ''git_pull'', ''git_push'', ''browser_open'', ''db_connect'',
     ''plugin_install'', ''plugin_update'', ''marketplace_sync'', ''marketplace_install'', ''distributed_worker_register'']"

definition command_refusal :: "WorkspaceCapsule \<Rightarrow> capsule_call \<Rightarrow> string option" where
  "command_refusal c call =
     (if kc_name call = ''shell_exec'' \<or> kc_name call = ''process_start'' then
        let command = js_String (js_or_else (jget (kc_args call) ''command'') (JStr []))
        in if cl_maxCommandLength (wc_limits c) = Some 0 \<and> command \<noteq> [] then Some ''This capsule profile blocks commands.''
           else if exceeds (int (length command)) (cl_maxCommandLength (wc_limits c))
           then Some ''Command exceeds the capsule length limit.''
           else if wc_networkPolicy c = NetNone \<and> re_test NETWORK_COMMAND command
           then Some ''Capsule network policy blocks this command.''
           else None
      else None)"

definition cm_check :: "capsule_env \<Rightarrow> int \<Rightarrow> tool_principal \<Rightarrow> string \<Rightarrow> capsule_call \<Rightarrow> capsule_manager \<Rightarrow>
    CapsuleDecision result" where
  "cm_check env now p projectRoot call m =
     bindR (resolveBinding env now p projectRoot m) (\<lambda>binding.
     case binding of
       CapDeny c reason \<Rightarrow> Inr (CapDeny c reason)
     | CapAllow None \<Rightarrow> Inr (CapAllow None)
     | CapAllow (Some c) \<Rightarrow>
         let stop = (\<lambda>reason. Inr (CapDeny (Some c) reason)) in
         if \<not> scope_granted (wc_grantedScopes c) call then
           stop (''Capsule scope does not grant '' @ kc_name call @ '' ('' @ broad_scope (kc_mutates call) @ '').'')
         else if wc_profile c = Observe \<and> kc_mutates call then stop ''Observe profile blocks all mutations.''
         else if (wc_profile c = Propose \<or> wc_profile c = Autopilot) \<and> kc_mutates call \<and>
                 (wc_isolation c \<noteq> IsoWorktree \<or> \<not> cv_isManagedWorktree env (wc_workspaceRoot c)) then
           stop (profile_text (wc_profile c) @ '' profile permits mutations only inside a verified managed worktree.'')
         else if kc_name call \<in> set NEVER_AUTONOMOUS then
           stop (kc_name call @ '' is outside every capsule autonomous boundary.'')
         else if wc_profile c = Autopilot \<and> kc_risk call = CRITICAL then
           stop ''Autopilot capsules cannot execute CRITICAL operations.''
         else if reached (wc_calls c) (cl_maxCalls (wc_limits c)) then stop ''Capsule call budget exhausted.''
         else if kc_mutates call \<and> reached (wc_mutations c) (cl_maxMutations (wc_limits c)) then
           stop ''Capsule mutation budget exhausted.''
         else
           let referencedPaths = uniq (pathLikeValues (JObj (kc_args call)) []) in
           bindR (canonicalCandidatePath (cv_fs env) (wc_workspaceRoot c)) (\<lambda>capsuleRoot.
           bindR (path_escape env projectRoot capsuleRoot referencedPaths) (\<lambda>escape.
           case escape of
             Some reason \<Rightarrow> stop reason
           | None \<Rightarrow>
               let fileCount = int (length referencedPaths) in
               if exceeds fileCount (cl_maxFilesPerCall (wc_limits c)) then
                 stop (''Call references '' @ show_int fileCount @ '' files; capsule limit is '' @
                       show_int (the (cl_maxFilesPerCall (wc_limits c))) @ ''.'')
               else if kc_name call \<in> set commandTools then
                 stop ''Command execution is disabled in capsules until the process sandbox is active.''
               else if wc_networkPolicy c = NetNone \<and> kc_name call \<in> set networkTools then
                 stop ''Capsule network policy blocks this tool.''
               else case command_refusal c call of
                   Some reason \<Rightarrow> stop reason
                 | None \<Rightarrow> Inr (CapAllow (Some c)))))"

record capsule_counts =
  ct_total :: nat
  ct_active :: nat
  ct_expired :: nat
  ct_revoked :: nat

definition cm_describe :: "int \<Rightarrow> capsule_manager \<Rightarrow> capsule_counts" where
  "cm_describe now m =
     (let values = map snd (cm_capsules m)
      in \<lparr>ct_total = length values,
          ct_active = length (filter (live now) values),
          ct_expired = length (filter (\<lambda>c. wc_revokedAt c = None \<and> wc_expiresAt c \<le> now) values),
          ct_revoked = length (filter (\<lambda>c. wc_revokedAt c \<noteq> None) values)\<rparr>)"


section \<open>Invariant\<close>

definition budget_ok :: "int \<Rightarrow> int option \<Rightarrow> bool" where
  "budget_ok n limit \<longleftrightarrow> 0 \<le> n \<and> (case limit of None \<Rightarrow> True | Some m \<Rightarrow> n \<le> m)"

definition capsule_ok :: "WorkspaceCapsule \<Rightarrow> bool" where
  "capsule_ok c \<longleftrightarrow>
     budget_ok (wc_calls c) (cl_maxCalls (wc_limits c)) \<and> budget_ok (wc_mutations c) (cl_maxMutations (wc_limits c)) \<and>
     (wc_profile c = Observe \<longrightarrow> cl_maxMutations (wc_limits c) = Some 0) \<and>
     wc_createdAt c < wc_expiresAt c \<and> js_trim (wc_principalId c) \<noteq> [] \<and>
     uniqueStrings (wc_grantedScopes c) = wc_grantedScopes c"

definition manager_ok :: "capsule_manager \<Rightarrow> bool" where
  "manager_ok m \<longleftrightarrow> distinct (map fst (cm_capsules m)) \<and>
     (\<forall>(k, c) \<in> set (cm_capsules m). k = wc_id c \<and> capsule_ok c)"

datatype capsule_op =
    OpCreate int CreateCapsuleInput
  | OpRevoke int string string
  | OpReserve int string bool
  | OpRestart

text \<open>A restart whose state file is rejected leaves no running manager; the state stays as it was for
  whoever repairs the file.\<close>

fun cap_step :: "capsule_env \<Rightarrow> capsule_op \<Rightarrow> capsule_manager \<Rightarrow> capsule_manager" where
  "cap_step env (OpCreate now input) m = snd (cm_create env now input m)"
| "cap_step env (OpRevoke now cid actor) m = snd (cm_revoke env now cid actor m)"
| "cap_step env (OpReserve now cid mutates) m = snd (cm_reserve env now cid mutates m)"
| "cap_step env OpRestart m = (case new_WorkspaceCapsuleManager env m of Inl _ \<Rightarrow> m | Inr m' \<Rightarrow> m')"

definition cap_empty :: "capsule_manager \<Rightarrow> bool" where
  "cap_empty m \<longleftrightarrow> cm_capsules m = []"

lemma persist_frame [simp]:
  "cm_capsules (snd (cm_persist env m)) = cm_capsules m"
  "cm_draws (snd (cm_persist env m)) = cm_draws m"
  by (simp_all add: cm_persist_def Let_def)

lemma snd_bindA_ret [simp]: "snd (bindA m (\<lambda>_. retA x) s) = snd (m s)"
  by (auto simp: bindA_def retA_def split: prod.split sum.split)

lemma trim_uniqueStrings: "t \<in> set (uniqueStrings vs) \<Longrightarrow> js_trim t = t \<and> t \<noteq> []"
  by (auto simp: uniqueStrings_def)

lemma uniqueStrings_idem [simp]: "uniqueStrings (uniqueStrings vs) = uniqueStrings vs"
proof -
  have "map js_trim (uniqueStrings vs) = uniqueStrings vs"
    using trim_uniqueStrings [of _ vs] by (simp add: map_idI)
  moreover have "filter (\<lambda>v. v \<noteq> []) (uniqueStrings vs) = uniqueStrings vs"
    using trim_uniqueStrings [of _ vs] by (simp add: filter_id_conv)
  moreover have "distinct (uniqueStrings vs)" by (simp add: uniqueStrings_def)
  ultimately show ?thesis
    unfolding uniqueStrings_def [of "uniqueStrings vs"] by (simp add: uniq_distinct_id)
qed

lemma manager_okD:
  "manager_ok m \<Longrightarrow> map_of (cm_capsules m) k = Some c \<Longrightarrow> wc_id c = k \<and> capsule_ok c"
  by (auto simp: manager_ok_def dest: map_of_SomeD)

lemma put_ok [inv_intros]:
  assumes "manager_ok m" "capsule_ok c" "cm_capsules m' = AList.update (wc_id c) c (cm_capsules m)"
  shows "manager_ok m'"
proof -
  have "distinct (map fst (cm_capsules m'))" using assms by (simp add: manager_ok_def distinct_update)
  moreover have "k = wc_id d \<and> capsule_ok d" if "(k, d) \<in> set (cm_capsules m')" for k d
  proof -
    have "map_of (cm_capsules m') k = Some d" using that calculation by simp
    then have "k = wc_id c \<and> d = c \<or> map_of (cm_capsules m) k = Some d"
      using assms(3) by (auto simp: update_conv' split: if_splits)
    then show ?thesis using assms(1,2) manager_okD by blast
  qed
  ultimately show ?thesis by (auto simp: manager_ok_def)
qed


lemma stored_scopes_ok: "stored_scopes v = Inr ts \<Longrightarrow> uniqueStrings ts = ts"
  by (auto simp: stored_scopes_def split: jval.splits option.splits)

lemma valid_times_ok: "valid_times env kvs = Inr (a, b) \<Longrightarrow> a < b"
  by (auto simp: valid_times_def split: option.splits)

lemma nonNegativeInteger_ok: "nonNegativeInteger v = Some n \<Longrightarrow> 0 \<le> n"
  by (auto simp: nonNegativeInteger_def split: jval.splits if_splits)

lemma stored_usage_ok: "stored_usage v = Inr (a, b, l) \<Longrightarrow> 0 \<le> a \<and> 0 \<le> b"
  by (auto simp: stored_usage_def split: jval.splits option.splits dest: nonNegativeInteger_ok)

lemma budget_ok_stored: "0 \<le> n \<Longrightarrow> \<not> exceeds n l \<Longrightarrow> budget_ok n l"
  by (auto simp: budget_ok_def exceeds_def split: option.splits)

lemma validated_ok: "validatePersistedCapsule env v = Inr c \<Longrightarrow> capsule_ok c"
  by (cases v)
    (simp_all add: validatePersistedCapsule_def Let_def capsule_ok_def case_prod_beta, 
     auto dest: stored_scopes_ok valid_times_ok stored_usage_ok intro!: budget_ok_stored)

lemma load_capsules_ok:
  "load_capsules env vs acc = Inr cs \<Longrightarrow> distinct (map fst acc) \<Longrightarrow>
     \<forall>(k, c) \<in> set acc. k = wc_id c \<and> capsule_ok c \<Longrightarrow>
     distinct (map fst cs) \<and> (\<forall>(k, c) \<in> set cs. k = wc_id c \<and> capsule_ok c)"
proof (induction vs arbitrary: acc)
  case (Cons v vs)
  from Cons.prems(1) obtain c where c: "validatePersistedCapsule env v = Inr c"
    "wc_id c \<notin> set (map fst acc)" "load_capsules env vs (acc @ [(wc_id c, c)]) = Inr cs"
    by (auto split: if_splits)
  from validated_ok [OF c(1)] Cons.prems(2,3) c(2) show ?case by (intro Cons.IH [OF c(3)]) auto
qed auto

lemma load_store_ok:
  "load_store env file = Inr cs \<Longrightarrow> distinct (map fst cs) \<and> (\<forall>(k, c) \<in> set cs. k = wc_id c \<and> capsule_ok c)"
  by (auto simp: load_store_def split: option.splits jval.splits if_splits dest: load_capsules_ok)

lemma capsule_restart_ok [inv_intros]: "new_WorkspaceCapsuleManager env m = Inr m' \<Longrightarrow> manager_ok m'"
  using load_store_ok [of env "cm_file m"] by (auto simp: new_WorkspaceCapsuleManager_def manager_ok_def)

lemma negative_limit_None:
  "negative_limit l = None \<Longrightarrow> (\<forall>n. cl_maxCalls l = Some n \<or> cl_maxMutations l = Some n \<or>
     cl_maxFilesPerCall l = Some n \<or> cl_maxCommandLength l = Some n \<longrightarrow> 0 \<le> n)"
  by (auto simp: negative_limit_def limits_json_def limit_entry_def find_None_iff_all)
    

lemma budget_ok_zero: "(\<forall>n. l = Some n \<longrightarrow> 0 \<le> n) \<Longrightarrow> budget_ok 0 l"
  by (auto simp: budget_ok_def split: option.splits)


lemma trim_nonempty_trim: "js_trim t \<noteq> [] \<Longrightarrow> js_trim (js_trim t) \<noteq> []"
  by simp

lemma if_Inl_eq_Inr: "(if b then Inl e else X) = Inr y \<longleftrightarrow> \<not> b \<and> X = Inr y"
  by simp

lemma new_capsule_elim:
  assumes "new_capsule env now draw input = Inr c"
  obtains
    "assertAllowedRoot env (wc_workspaceRoot c) = Inr ()"
    "js_trim (wc_principalId c) \<noteq> []" "wc_createdAt c < wc_expiresAt c"
    "negative_limit (wc_limits c) = None"
    "wc_profile c = Observe \<longrightarrow> cl_maxMutations (wc_limits c) = Some 0"
    "capsuleProjectId env (wc_workspaceRoot c) = Inr (wc_projectId c)"
    "assertEvidenceDestination env (wc_workspaceRoot c) (wc_evidenceDestination c) = Inr ()"
    "wc_id c = capsule_id env draw" "wc_workspaceId c = workspaceId env (wc_workspaceRoot c)"
    "wc_workspaceRoot c = legacyPersistedPath (cv_fs env) (ci_workspaceRoot input)"
    "uniqueStrings (wc_grantedScopes c) = wc_grantedScopes c" "normal_path (wc_evidenceDestination c)"
    "wc_calls c = 0" "wc_mutations c = 0" "wc_lastUsedAt c = None" "wc_revokedAt c = None" "wc_revokedBy c = None"
    "wc_limits c = merge_limits (snd (snd (PROFILE_DEFAULTS (wc_profile c)))) (ci_limits input)"
proof (cases "profile_of_text (ci_profile input)")
  case None
  with assms show thesis by (simp add: new_capsule_def Let_def)
next
  case (Some profile)
  obtain a b l where d: "PROFILE_DEFAULTS profile = (a, b, l)" by (cases "PROFILE_DEFAULTS profile")
  show thesis
  proof (cases "negative_limit (merge_limits l (ci_limits input))")
    case None
    with assms Some d show thesis
      by (simp add: new_capsule_def Let_def if_Inl_eq_Inr) (elim exE conjE, rule that, auto)
  qed (use assms Some d in \<open>simp add: new_capsule_def Let_def if_Inl_eq_Inr\<close>)
qed

lemma new_capsule_ok: "new_capsule env now draw input = Inr c \<Longrightarrow> capsule_ok c"
  by (erule new_capsule_elim) (auto simp: capsule_ok_def intro!: budget_ok_zero dest: negative_limit_None)

lemma create_ok [inv_intros]: "manager_ok m \<Longrightarrow> manager_ok (snd (cm_create env now input m))"
  by (cases "new_capsule env now (cm_draws m) input")
    (auto simp: cm_create_def cm_put_def manager_ok_def [of "_\<lparr>cm_draws := _\<rparr>"] intro: put_ok new_capsule_ok)

lemma revoke_ok [inv_intros]: "manager_ok m \<Longrightarrow> manager_ok (snd (cm_revoke env now cid actor m))"
  by (auto simp: cm_revoke_def cm_put_def Let_def split: option.splits
      intro!: put_ok [of m "_\<lparr>wc_revokedAt := _, wc_revokedBy := _\<rparr>"] dest: manager_okD)
    (auto simp: capsule_ok_def dest!: manager_okD)

lemma reserve_ok [inv_intros]: "manager_ok m \<Longrightarrow> manager_ok (snd (cm_reserve env now cid mutates m))"
proof (cases "map_of (cm_capsules m) cid")
  case (Some c)
  assume ok: "manager_ok m"
  let ?c = "c\<lparr>wc_calls := wc_calls c + 1, wc_mutations := (if mutates then wc_mutations c + 1 else wc_mutations c),
             wc_lastUsedAt := Some now\<rparr>"
  have c: "capsule_ok c" using ok Some manager_okD by blast
  show ?thesis
  proof (cases "reached (wc_calls c) (cl_maxCalls (wc_limits c)) \<or> mutates \<and> reached (wc_mutations c) (cl_maxMutations (wc_limits c))")
    case True
    with ok Some show ?thesis by (auto simp: cm_reserve_def)
  next
    case False
    with c have "capsule_ok ?c"
      by (auto simp: capsule_ok_def reached_def budget_ok_def split: option.splits)
    with False Some ok show ?thesis
      by (auto simp: cm_reserve_def cm_put_def Let_def intro!: put_ok [of m ?c])
  qed
qed (simp add: cm_reserve_def)

interpretation capsules: stateful cap_empty "cap_step env" manager_ok for env
proof
  show "cap_empty m \<Longrightarrow> manager_ok m" for m by (simp add: cap_empty_def manager_ok_def)
  show "manager_ok m \<Longrightarrow> manager_ok (cap_step env a m)" for m a
    by (cases a) (auto intro: create_ok revoke_ok reserve_ok capsule_restart_ok split: sum.splits)
qed


section \<open>What an allowed call satisfies\<close>

lemma filterR_set: "filterR f xs = Inr ys \<Longrightarrow> y \<in> set ys \<Longrightarrow> y \<in> set xs \<and> f y = Inr True"
  by (drule filterR_InrD) auto

lemma or_else_None_iff: "or_else x d = None \<longleftrightarrow> x = None \<and> d = None"
  by (cases x) (auto simp: or_else_def)

lemma binding_allow_Some:
  assumes "resolveBinding env now p projectRoot m = Inr (CapAllow (Some c))"
  obtains root r project where "p_role p \<noteq> RoleAdmin" "c \<in> snd ` set (cm_capsules m)" "live now c"
    "wc_principalId c = p_id p" "bound_to project p c"
    "canonicalCandidatePath (cv_fs env) projectRoot = Inr root"
    "canonicalCandidatePath (cv_fs env) (wc_workspaceRoot c) = Inr r" "samePath (fs_cwd (cv_fs env)) r root"
    "p_projectId p = None \<longrightarrow> capsuleProjectId env root = Inr project" "p_projectId p \<noteq> None \<longrightarrow> p_projectId p = Some project"
proof -
  let ?own = "\<lambda>root c. bindR (canonicalCandidatePath (cv_fs env) (wc_workspaceRoot c)) (\<lambda>r.
               Inr (samePath (fs_cwd (cv_fs env)) r root \<and> wc_principalId c = p_id p))"
  have role: "p_role p \<noteq> RoleAdmin" using assms by (auto simp: resolveBinding_def)
  from assms role obtain root where root: "canonicalCandidatePath (cv_fs env) projectRoot = Inr root"
    by (auto simp: resolveBinding_def)
  with assms role obtain project where project:
    "(case p_projectId p of Some i \<Rightarrow> Inr i | None \<Rightarrow> capsuleProjectId env root) = Inr project"
    by (auto simp: resolveBinding_def)
  with assms role root obtain cands where cands: "filterR (?own root) (map snd (cm_capsules m)) = Inr cands"
    by (auto simp: resolveBinding_def)
  let ?sorted = "sort_by newest_first (filter (bound_to project p) cands)"
  from assms role root project cands obtain b where
    b: "or_else (find (live now) ?sorted) (if ?sorted = [] then None else Some (hd ?sorted)) = Some b"
      "wc_revokedAt b = None" "wc_expiresAt b > now" "c = b"
    by (auto simp: resolveBinding_def Let_def split: if_splits option.splits)
  have "b \<in> set ?sorted"
  proof (cases "find (live now) ?sorted")
    case None
    then have "?sorted \<noteq> []" "b = hd ?sorted" using b(1) by (auto simp: or_else_def simp del: sort_by_Nil_iff split: if_splits)
    then show ?thesis using hd_in_set by blast
  next
    case (Some x)
    then have "x = b" using b(1) by (simp add: or_else_def)
    with find_SomeD [OF Some] show ?thesis by blast
  qed
  then have "b \<in> set cands" "bound_to project p b" by auto
  moreover from filterR_set [OF cands this(1)] obtain r where
    "canonicalCandidatePath (cv_fs env) (wc_workspaceRoot b) = Inr r" "samePath (fs_cwd (cv_fs env)) r root"
    "wc_principalId b = p_id p" "b \<in> snd ` set (cm_capsules m)" by auto
  ultimately show thesis
    using that [where project = project and root = root and r = r] role root project b by (auto simp: live_def split: option.splits)
qed

lemma path_escape_None:
  assumes "path_escape env projectRoot capsuleRoot vs = Inr None" "v \<in> set vs"
  shows "\<exists>target. canonicalCandidatePath (cv_fs env)
           (if isAbsolute v then resolve (fs_cwd (cv_fs env)) [v] else resolve (fs_cwd (cv_fs env)) [projectRoot, v]) = Inr target \<and>
           isPathWithin (fs_cwd (cv_fs env)) capsuleRoot target"
  using assms
  by (induction vs) (auto simp: Let_def split: if_splits option.splits)

lemma resolve_absolute: "isAbsolute v \<Longrightarrow> resolve cwd [root, v] = resolve cwd [v]"
  by (cases v) (auto simp: resolve_def resolve_text_def isAbsolute_def)

lemma samePath_normal: "normal_path a \<Longrightarrow> normal_path b \<Longrightarrow> samePath cwd a b \<longleftrightarrow> a = b"
  by (metis samePath_iff resolve_normal normal_path_render)

lemma deny_unless [simp]:
  "(if b then Inr (CapDeny x r) else X) = Inr (CapAllow z) \<longleftrightarrow> \<not> b \<and> X = Inr (CapAllow z)"
  "(case o' of None \<Rightarrow> X | Some t \<Rightarrow> Inr (CapDeny x (g t))) = Inr (CapAllow z) \<longleftrightarrow> o' = None \<and> X = Inr (CapAllow z)"
  by (auto split: option.splits)

lemma check_allow_Some:
  assumes "cm_check env now p projectRoot call m = Inr (CapAllow (Some c))"
  shows "resolveBinding env now p projectRoot m = Inr (CapAllow (Some c))"
    and "scope_granted (wc_grantedScopes c) call"
    and "kc_mutates call \<Longrightarrow> wc_profile c \<noteq> Observe"
    and "kc_mutates call \<Longrightarrow> wc_profile c = Propose \<or> wc_profile c = Autopilot \<Longrightarrow>
           wc_isolation c = IsoWorktree \<and> cv_isManagedWorktree env (wc_workspaceRoot c)"
    and "kc_name call \<notin> set NEVER_AUTONOMOUS" and "kc_name call \<notin> set commandTools"
    and "wc_networkPolicy c = NetNone \<Longrightarrow> kc_name call \<notin> set networkTools"
    and "wc_profile c = Autopilot \<Longrightarrow> kc_risk call \<noteq> CRITICAL"
    and "\<not> reached (wc_calls c) (cl_maxCalls (wc_limits c))"
    and "kc_mutates call \<Longrightarrow> \<not> reached (wc_mutations c) (cl_maxMutations (wc_limits c))"
    and "\<exists>root. canonicalCandidatePath (cv_fs env) (wc_workspaceRoot c) = Inr root \<and>
           path_escape env projectRoot root (uniq (pathLikeValues (JObj (kc_args call)) [])) = Inr None"
    and "\<not> exceeds (int (length (uniq (pathLikeValues (JObj (kc_args call)) [])))) (cl_maxFilesPerCall (wc_limits c))"
proof -
  from assms obtain d where d: "resolveBinding env now p projectRoot m = Inr d"
    by (auto simp: cm_check_def)
  have "d = CapAllow (Some c)"
  proof (cases d)
    case (CapAllow o')
    with assms d show ?thesis by (cases o') (auto simp: cm_check_def Let_def simp del: pathLikeValues.simps uniq.simps)
  qed (use assms d in \<open>auto simp: cm_check_def\<close>)
  with d show "resolveBinding env now p projectRoot m = Inr (CapAllow (Some c))" by simp
  then show "scope_granted (wc_grantedScopes c) call"
    and "kc_mutates call \<Longrightarrow> wc_profile c \<noteq> Observe"
    and "kc_mutates call \<Longrightarrow> wc_profile c = Propose \<or> wc_profile c = Autopilot \<Longrightarrow>
           wc_isolation c = IsoWorktree \<and> cv_isManagedWorktree env (wc_workspaceRoot c)"
    and "kc_name call \<notin> set NEVER_AUTONOMOUS" and "kc_name call \<notin> set commandTools"
    and "wc_networkPolicy c = NetNone \<Longrightarrow> kc_name call \<notin> set networkTools"
    and "wc_profile c = Autopilot \<Longrightarrow> kc_risk call \<noteq> CRITICAL"
    and "\<not> reached (wc_calls c) (cl_maxCalls (wc_limits c))"
    and "kc_mutates call \<Longrightarrow> \<not> reached (wc_mutations c) (cl_maxMutations (wc_limits c))"
    and "\<exists>root. canonicalCandidatePath (cv_fs env) (wc_workspaceRoot c) = Inr root \<and>
           path_escape env projectRoot root (uniq (pathLikeValues (JObj (kc_args call)) [])) = Inr None"
    and "\<not> exceeds (int (length (uniq (pathLikeValues (JObj (kc_args call)) [])))) (cl_maxFilesPerCall (wc_limits c))"
    using assms by (auto simp: cm_check_def Let_def simp del: pathLikeValues.simps uniq.simps)
qed

lemma binding_allow_None:
  assumes "resolveBinding env now p projectRoot m = Inr (CapAllow None)"
  shows "p_role p = RoleAdmin \<or> cv_enforcement env = EnfOptional \<or>
     (cv_enforcement env = EnfRemote \<and> p_authMode p \<noteq> Some AuthToken \<and> p_authMode p \<noteq> Some AuthOauth)"
proof (cases "p_role p = RoleAdmin")
  case False
  with assms show ?thesis
    by (cases "cv_enforcement env") (auto simp: resolveBinding_def Let_def or_else_def split: if_splits option.splits)
qed simp

lemma check_allow_None:
  assumes "cm_check env now p projectRoot call m = Inr (CapAllow None)"
  shows "resolveBinding env now p projectRoot m = Inr (CapAllow None)"
proof -
  from assms obtain d where d: "resolveBinding env now p projectRoot m = Inr d"
    by (auto simp: cm_check_def)
  then have "d = CapAllow None"
  proof (cases d)
    case (CapAllow o')
    with assms d show ?thesis by (cases o') (auto simp: cm_check_def Let_def simp del: pathLikeValues.simps uniq.simps)
  qed (use assms d in \<open>auto simp: cm_check_def\<close>)
  with d show ?thesis by simp
qed

section \<open>Properties\<close>



definition demo_uuid :: "nat \<Rightarrow> string" where
  "demo_uuid j = replicate 20 (if j = 0 then CHR ''a'' else CHR ''b'')"

definition demo_env :: capsule_env where
  "demo_env = \<lparr>cv_fs = linked_fs ''/w'' (\<lambda>_. True) id, cv_allowed = [''/w''], cv_enforcement = EnfAll, cv_defaultTtl = 5000,
     cv_maxTtl = 10000, cv_isManagedWorktree = (\<lambda>_. False), cv_managedWorktreeForPath = (\<lambda>_. None),
     cv_sha = id, cv_uuid = demo_uuid, cv_iso = show_int,
     cv_parse = (\<lambda>s. if s = ''0'' then Some 0 else if s = ''5000'' then Some 5000 else None), cv_write = (\<lambda>_. False)\<rparr>"

definition no_limits :: CapsuleLimits where
  "no_limits = \<lparr>cl_maxCalls = None, cl_maxMutations = None, cl_maxFilesPerCall = None, cl_maxCommandLength = None\<rparr>"

definition demo_input :: "string \<Rightarrow> CreateCapsuleInput" where
  "demo_input profile = \<lparr>ci_workspaceRoot = ''/w'', ci_principalId = ''p'', ci_profile = profile, ci_ttlMs = None,
     ci_sessionId = None, ci_clientId = None, ci_taskId = None, ci_grantedScopes = None, ci_isolation = None,
     ci_networkPolicy = None, ci_limits = no_limits, ci_evidenceDestination = None, ci_clientCompatibility = None\<rparr>"

definition demo_manager :: capsule_manager where
  "demo_manager = \<lparr>cm_capsules = [], cm_file = None, cm_draws = 0, cm_writes = 0\<rparr>"

definition demo_cap :: string where
  "demo_cap = capsule_id demo_env 0"


definition demo_call :: capsule_call where
  "demo_call = \<lparr>kc_name = ''file_read'', kc_group = None, kc_risk = LOW, kc_mutates = False,
     kc_args = [(''path'', JStr ''src/a.ts'')]\<rparr>"


text \<open>Where the configuration enforces capsules, nobody but an administrator works without one: with
  enforcement for all, or for remote callers and a token or OAuth caller, an allowed call is allowed under a
  capsule of the caller that is neither revoked nor expired.\<close>

theorem enforced_caller_has_capsule:
  assumes "cm_check env now p projectRoot call m = Inr (CapAllow found)" and "p_role p \<noteq> RoleAdmin"
    and "cv_enforcement env = EnfAll \<or>
         cv_enforcement env = EnfRemote \<and> (p_authMode p = Some AuthToken \<or> p_authMode p = Some AuthOauth)"
  shows "\<exists>c. found = Some c \<and> wc_principalId c = p_id p \<and> live now c"
proof (cases found)
  case None
  from binding_allow_None [OF check_allow_None [OF assms(1) [unfolded None]]] assms(2,3) show ?thesis by auto
next
  case (Some c)
  from check_allow_Some(1) [OF assms(1) [unfolded Some]] obtain "wc_principalId c = p_id p" "live now c"
    by (rule binding_allow_Some) blast
  with Some show ?thesis by blast
qed

theorem enforced_caller_has_capsule_witness:
  "\<exists>c. cm_check demo_env 2 (bare_principal ''p'' RoleAgent) ''/w'' demo_call
       (snd (cm_create demo_env 0 (demo_input ''observe'') demo_manager)) = Inr (CapAllow (Some c)) \<and> live 2 c"
proof -
  let ?m = "snd (cm_create demo_env 0 (demo_input ''observe'') demo_manager)"
  let ?r = "cm_check demo_env 2 (bare_principal ''p'' RoleAgent) ''/w'' demo_call ?m"
  have "(case ?r of Inr (CapAllow _) \<Rightarrow> True | _ \<Rightarrow> False)" by code_simp
  then obtain found where f: "?r = Inr (CapAllow found)" by (auto split: sum.splits CapsuleDecision.splits)
  from enforced_caller_has_capsule [OF this] f show ?thesis by (auto simp: bare_principal_def demo_env_def)
qed


section \<open>The state file round trip\<close>

definition all_safe :: "CapsuleLimits \<Rightarrow> bool" where
  "all_safe l \<longleftrightarrow> (\<forall>x \<in> {cl_maxCalls l, cl_maxMutations l, cl_maxFilesPerCall l, cl_maxCommandLength l}.
     \<exists>n. x = Some n \<and> 0 \<le> n \<and> n \<le> MAX_SAFE_INTEGER)"

definition stored_ok :: "capsule_env \<Rightarrow> WorkspaceCapsule \<Rightarrow> bool" where
  "stored_ok env c \<longleftrightarrow> capsule_ok c \<and> re_test CAPSULE_ID (wc_id c) \<and>
     legacyPersistedPath (cv_fs env) (wc_workspaceRoot c) = wc_workspaceRoot c \<and>
     assertAllowedRoot env (wc_workspaceRoot c) = Inr () \<and>
     wc_workspaceId c = workspaceId env (wc_workspaceRoot c) \<and>
     capsuleProjectId env (wc_workspaceRoot c) = Inr (wc_projectId c) \<and>
     normal_path (wc_evidenceDestination c) \<and>
     assertEvidenceDestination env (wc_workspaceRoot c) (wc_evidenceDestination c) = Inr () \<and>
     all_safe (wc_limits c)"

text \<open>What the manager relies on outside its own code.\<close>

locale capsule_host =
  fixes env :: capsule_env
  assumes files: "posix_links (cv_fs env)"
    and dates: "cv_parse env (cv_iso env t) = Some t"
    and uuids: "20 \<le> length (filter (\<lambda>c. c \<noteq> CHR ''-'') (cv_uuid env j))"
      "set (cv_uuid env j) \<subseteq> set (''-abcdef0123456789'')"
begin

lemma capsule_id_valid: "re_test CAPSULE_ID (capsule_id env j)"
proof -
  let ?h = "take 20 (filter (\<lambda>c. c \<noteq> CHR ''-'') (cv_uuid env j))"
  have len: "length ?h = 20" using uuids(1) [of j] by simp
  have hex: "set ?h \<subseteq> set (''abcdef'' @ d09)" using uuids(2) [of j] by (auto simp: d09_def dest!: in_set_takeD)
  have id: "capsule_id env j = ''caps_'' @ ?h" by (simp add: capsule_id_def)
  have "matches_at (capsule_id env j) (RLit ''caps_'') 0 5"
    by (simp add: matches_RLit id starts_with_iff_prefix)
  moreover have "matches_at (capsule_id env j) (RTimes 20 (RIn (''abcdef'' @ d09))) 5 (5 + 20)"
  proof (rule matches_RTimes_RIn)
    show "5 + 20 \<le> length (capsule_id env j)" using len id by simp
    show "\<forall>k \<in> {5..<5 + 20}. capsule_id env j ! k \<in> set (''abcdef'' @ d09)"
    proof
      fix k assume k: "k \<in> {5..<5 + 20 :: nat}"
      have five: "length ''caps_'' = 5" by simp
      have "capsule_id env j ! k = ?h ! (k - 5)"
        using k nth_append [of "''caps_''" ?h k] unfolding id five by simp
      moreover have "k - 5 < length ?h" using k unfolding len by auto
      then have "?h ! (k - 5) \<in> set (''abcdef'' @ d09)" by (intro subsetD [OF hex] nth_mem)
      ultimately show "capsule_id env j ! k \<in> set (''abcdef'' @ d09)" by (simp only:)
    qed
  qed
  ultimately show ?thesis
    using len id by (auto simp: CAPSULE_ID_def re_test_whole intro: m_seq)
qed

lemma stored_date_iso:
  "stored_date env (jget kvs k) msg = Inr (case x of None \<Rightarrow> None | Some t \<Rightarrow> Some t)"
  if "jget kvs k = (case x of None \<Rightarrow> JUndef | Some t \<Rightarrow> JStr (cv_iso env t))"
  using that by (cases x) (simp_all add: stored_date_def validDate_def dates)

end


declare jget_simps [simp]

lemma profile_of_profile_text [simp]: "profile_of_text (profile_text p) = Some p"
  by (cases p) (simp_all add: profile_of_text_def profile_text_def)

lemma isolation_of_isolation_text [simp]: "isolation_of_text (isolation_text i) = Some i"
  by (cases i) (simp_all add: isolation_of_text_def isolation_text_def)

lemma network_of_network_text [simp]: "network_of_text (network_text n) = Some n"
  by (cases n) (simp_all add: network_of_text_def network_text_def)

lemma compat_of_compat_text [simp]: "compat_of_text (compat_text p) = Some p"
  by (cases p) (simp_all add: compat_of_text_def compat_text_def)

lemma all_texts_JStr [simp]: "all_texts (map JStr ts) = Some ts"
  by (induction ts) simp_all

lemma stored_limits_json: "all_safe l \<Longrightarrow> stored_limits (JObj (limits_json l)) = Inr l"
  by (auto simp: all_safe_def stored_limits_def limit_entries_def limits_json_def limit_entry_def nonNegativeInteger_def
      Let_def)

lemma budget_safe: "all_safe l \<Longrightarrow> budget_ok n (cl_maxCalls l) \<or> budget_ok n (cl_maxMutations l) \<Longrightarrow>
    nonNegativeInteger (JNum n) = Some n"
  by (auto simp: all_safe_def budget_ok_def nonNegativeInteger_def)

lemma budget_not_exceeds: "budget_ok n l \<Longrightarrow> \<not> exceeds n l"
  by (auto simp: budget_ok_def exceeds_def split: option.splits)

context capsule_host
begin

lemma validate_stored:
  assumes "stored_ok env c"
  shows "validatePersistedCapsule env (JObj (capsule_json env c)) = Inr c"
proof -
  let ?k = "capsule_json env c"
  have c: "capsule_ok c" and safe: "all_safe (wc_limits c)" using assms by (simp_all add: stored_ok_def)
  have k: "jget ?k ''id'' = JStr (wc_id c)" "jget ?k ''workspaceRoot'' = JStr (wc_workspaceRoot c)"
    "jget ?k ''workspaceId'' = JStr (wc_workspaceId c)" "jget ?k ''principalId'' = JStr (wc_principalId c)"
    "jget ?k ''projectId'' = JStr (wc_projectId c)"
    "opt_text (jget ?k ''sessionId'') = wc_sessionId c" "opt_text (jget ?k ''clientId'') = wc_clientId c"
    "opt_text (jget ?k ''taskId'') = wc_taskId c" "opt_text (jget ?k ''revokedBy'') = wc_revokedBy c"
    "jget ?k ''profile'' = JStr (profile_text (wc_profile c))"
    "jget ?k ''isolation'' = JStr (isolation_text (wc_isolation c))"
    "jget ?k ''networkPolicy'' = JStr (network_text (wc_networkPolicy c))"
    "jget ?k ''clientCompatibility'' = JStr (compat_text (wc_clientCompatibility c))"
    "jget ?k ''grantedScopes'' = JArr (map JStr (wc_grantedScopes c))"
    "jget ?k ''createdAt'' = JStr (cv_iso env (wc_createdAt c))" "jget ?k ''expiresAt'' = JStr (cv_iso env (wc_expiresAt c))"
    "jget ?k ''limits'' = JObj (limits_json (wc_limits c))"
    "jget ?k ''evidenceDestination'' = JStr (wc_evidenceDestination c)"
    "jget ?k ''usage'' = JObj ([(''calls'', JNum (wc_calls c)), (''mutations'', JNum (wc_mutations c))] @
         opt_entry ''lastUsedAt'' (map_option (cv_iso env) (wc_lastUsedAt c)))"
    "jget ?k ''revokedAt'' = (case wc_revokedAt c of None \<Rightarrow> JUndef | Some t \<Rightarrow> JStr (cv_iso env t))"
    by (simp_all add: capsule_json_def opt_text_def split: option.splits)
  have times: "valid_times env ?k = Inr (wc_createdAt c, wc_expiresAt c)"
    using c by (simp add: valid_times_def k validDate_def dates capsule_ok_def)
  have revoked: "stored_date env (jget ?k ''revokedAt'') msg = Inr (wc_revokedAt c)" for msg
    using stored_date_iso [OF k(20), of msg] by (cases "wc_revokedAt c") simp_all
  have usage: "stored_usage (jget ?k ''usage'') = Inr (wc_calls c, wc_mutations c,
      case wc_lastUsedAt c of None \<Rightarrow> JUndef | Some t \<Rightarrow> JStr (cv_iso env t))"
    using c budget_safe [OF safe]
    by (cases "wc_lastUsedAt c") (simp_all add: stored_usage_def k capsule_ok_def)
  have used: "stored_date env (case wc_lastUsedAt c of None \<Rightarrow> JUndef | Some t \<Rightarrow> JStr (cv_iso env t)) msg =
      Inr (wc_lastUsedAt c)" for msg
    by (cases "wc_lastUsedAt c") (simp_all add: stored_date_def validDate_def dates)
  have scopes: "stored_scopes (jget ?k ''grantedScopes'') = Inr (wc_grantedScopes c)"
    using c by (simp add: stored_scopes_def k capsule_ok_def)
  have limits: "stored_limits (jget ?k ''limits'') = Inr (wc_limits c)" using safe by (simp add: k stored_limits_json)
  have enums: "enum_field profile_of_text ?k ''profile'' msg = Inr (wc_profile c)"
    "enum_field isolation_of_text ?k ''isolation'' msg = Inr (wc_isolation c)"
    "enum_field network_of_text ?k ''networkPolicy'' msg = Inr (wc_networkPolicy c)"
    "enum_field compat_of_text ?k ''clientCompatibility'' msg = Inr (wc_clientCompatibility c)" for msg
    by (simp_all add: enum_field_def k)
  have texts: "str_field ?k ''id'' msg = Inr (wc_id c)" "str_field ?k ''workspaceRoot'' msg = Inr (wc_workspaceRoot c)"
    "str_field ?k ''principalId'' msg = Inr (wc_principalId c)"
    "str_field ?k ''evidenceDestination'' msg = Inr (wc_evidenceDestination c)" for msg
    by (simp_all add: str_field_def k)
  have budgets: "\<not> exceeds (wc_calls c) (cl_maxCalls (wc_limits c))" "\<not> exceeds (wc_mutations c) (cl_maxMutations (wc_limits c))"
    using c by (simp_all add: capsule_ok_def budget_not_exceeds)
  have rest: "wc_profile c = Observe \<longrightarrow> cl_maxMutations (wc_limits c) = Some 0" "js_trim (wc_principalId c) \<noteq> []"
    using c by (simp_all add: capsule_ok_def)
  show ?thesis
    using assms unfolding validatePersistedCapsule_def stored_ok_def
    by (simp add: texts enums scopes times revoked limits usage used budgets rest k(3,5,6-9) resolve_normal Let_def)
qed

end

definition file_ok :: "capsule_env \<Rightarrow> capsule_manager \<Rightarrow> bool" where
  "file_ok env m \<longleftrightarrow> cm_file m = None \<or>
     (\<exists>cs. cm_file m = Some (store_json env cs) \<and> (\<forall>c \<in> set cs. stored_ok env c) \<and> distinct (map wc_id cs))"

definition run_ok :: "capsule_env \<Rightarrow> capsule_manager \<Rightarrow> bool" where
  "run_ok env m \<longleftrightarrow> manager_ok m \<and> (\<forall>c \<in> snd ` set (cm_capsules m). stored_ok env c) \<and> file_ok env m"

context capsule_host
begin

lemma load_stored:
  "\<forall>c \<in> set cs. stored_ok env c \<Longrightarrow> distinct (map fst acc @ map wc_id cs) \<Longrightarrow>
     load_capsules env (map (\<lambda>c. JObj (capsule_json env c)) cs) acc = Inr (acc @ map (\<lambda>c. (wc_id c, c)) cs)"
  by (induction cs arbitrary: acc) (simp_all add: validate_stored)

lemma load_store_json:
  assumes "\<forall>c \<in> set cs. stored_ok env c" "distinct (map wc_id cs)"
  shows "load_store env (Some (store_json env cs)) = Inr (map (\<lambda>c. (wc_id c, c)) cs)"
  using load_stored [of cs "[]"] assms by (simp add: load_store_def store_json_def Let_def)

lemma list_distinct_ids: "manager_ok m \<Longrightarrow> distinct (map wc_id (cm_list m))"
proof -
  assume ok: "manager_ok m"
  have "map wc_id (map snd (cm_capsules m)) = map fst (cm_capsules m)"
    using ok by (auto simp: manager_ok_def)
  then have "distinct (map wc_id (map snd (cm_capsules m)))" using ok unfolding manager_ok_def by (simp only:)
  then show ?thesis
    unfolding cm_list_def by (metis distinct_map distinct_sort_by set_sort_by)
qed

lemma put_persist_run_ok:
  assumes "run_ok env m" "stored_ok env c" "cm_capsules m' = cm_capsules m" "cm_file m' = cm_file m"
  shows "run_ok env (snd (cm_persist env (cm_put c m')))"
proof -
  let ?m = "cm_put c m'"
  have "capsule_ok c" using assms(2) by (simp add: stored_ok_def)
  moreover have "manager_ok m" using assms(1) by (simp add: run_ok_def)
  ultimately have ok: "manager_ok ?m" using put_ok [of m c ?m] assms(3) by (simp add: cm_put_def)
  have st: "\<forall>d \<in> snd ` set (cm_capsules ?m). stored_ok env d"
  proof safe
    fix k d assume "(k, d) \<in> set (cm_capsules ?m)"
    then have "map_of (cm_capsules ?m) k = Some d" using ok by (simp add: manager_ok_def)
    then have "d = c \<or> map_of (cm_capsules m) k = Some d"
      using assms(3) by (auto simp: cm_put_def update_conv' split: if_splits)
    then show "stored_ok env (snd (k, d))" using assms(1,2) by (force simp: run_ok_def dest: map_of_SomeD)
  qed
  have "file_ok env (snd (cm_persist env ?m))"
  proof (cases "cv_write env (cm_writes ?m)")
    case True
    moreover have "\<forall>d \<in> set (cm_list ?m). stored_ok env d" using st by (simp add: cm_list_def)
    ultimately show ?thesis using list_distinct_ids [OF ok] by (auto simp: file_ok_def cm_persist_def Let_def)
  next
    case False
    with assms(1,4) show ?thesis by (simp add: file_ok_def run_ok_def cm_persist_def Let_def cm_put_def)
  qed
  with ok st show ?thesis by (auto simp: run_ok_def manager_ok_def)
qed

end

text \<open>The limits of an input stay below 2^53, where \<^verbatim>\<open>create\<close> and the loader agree on what an integer is.\<close>

definition safe_limit :: "int option \<Rightarrow> bool" where
  "safe_limit x \<longleftrightarrow> (\<forall>n. x = Some n \<longrightarrow> n \<le> MAX_SAFE_INTEGER)"

definition safe_op :: "capsule_op \<Rightarrow> bool" where
  "safe_op a = (case a of OpCreate _ i \<Rightarrow>
       safe_limit (cl_maxCalls (ci_limits i)) \<and> safe_limit (cl_maxMutations (ci_limits i)) \<and>
       safe_limit (cl_maxFilesPerCall (ci_limits i)) \<and> safe_limit (cl_maxCommandLength (ci_limits i))
     | _ \<Rightarrow> True)"

lemma merged_all_safe:
  assumes "safe_op (OpCreate now i)" "negative_limit (merge_limits (snd (snd (PROFILE_DEFAULTS p))) (ci_limits i)) = None"
  shows "all_safe (merge_limits (snd (snd (PROFILE_DEFAULTS p))) (ci_limits i))"
proof -
  have d: "all_safe (snd (snd (PROFILE_DEFAULTS p)))"
    by (cases p) (simp_all add: all_safe_def mk_limits_def MAX_SAFE_INTEGER_def)
  have one: "\<exists>n. or_else x y = Some n \<and> 0 \<le> n \<and> n \<le> MAX_SAFE_INTEGER"
    if "safe_limit x" "\<exists>n. y = Some n \<and> 0 \<le> n \<and> n \<le> MAX_SAFE_INTEGER" "\<forall>n. or_else x y = Some n \<longrightarrow> 0 \<le> n"
    for x y
    using that by (cases x) (auto simp: or_else_def safe_limit_def)
  note nn = negative_limit_None [OF assms(2)]
  show ?thesis
    using assms(1) d nn unfolding all_safe_def safe_op_def merge_limits_def
    by (auto intro!: one)
qed

context capsule_host
begin

lemma created_stored_ok:
  assumes "new_capsule env now j i = Inr c" "safe_op (OpCreate now i)"
  shows "stored_ok env c"
  using assms(1)
proof (rule new_capsule_elim)
  assume c: "wc_workspaceRoot c = legacyPersistedPath (cv_fs env) (ci_workspaceRoot i)" "wc_id c = capsule_id env j"
    "negative_limit (wc_limits c) = None"
    "wc_limits c = merge_limits (snd (snd (PROFILE_DEFAULTS (wc_profile c)))) (ci_limits i)"
    "assertAllowedRoot env (wc_workspaceRoot c) = Inr ()"
    "capsuleProjectId env (wc_workspaceRoot c) = Inr (wc_projectId c)"
    "assertEvidenceDestination env (wc_workspaceRoot c) (wc_evidenceDestination c) = Inr ()"
    "wc_workspaceId c = workspaceId env (wc_workspaceRoot c)" "normal_path (wc_evidenceDestination c)"
  have "legacyPersistedPath (cv_fs env) (wc_workspaceRoot c) = wc_workspaceRoot c"
    using posix_links.legacy_stable [OF files] c(1) by simp
  moreover have "all_safe (wc_limits c)" using merged_all_safe [OF assms(2)] c(3,4) by metis
  ultimately show ?thesis
    using c new_capsule_ok [OF assms(1)] capsule_id_valid [of j] unfolding stored_ok_def by metis
qed

lemma stored_ok_update:
  assumes "stored_ok env c" "capsule_ok c'" "wc_id c' = wc_id c" "wc_workspaceRoot c' = wc_workspaceRoot c"
    "wc_workspaceId c' = wc_workspaceId c" "wc_projectId c' = wc_projectId c"
    "wc_evidenceDestination c' = wc_evidenceDestination c" "wc_limits c' = wc_limits c"
  shows "stored_ok env c'"
  using assms unfolding stored_ok_def by simp

lemma run_ok_get: "run_ok env m \<Longrightarrow> map_of (cm_capsules m) k = Some c \<Longrightarrow> stored_ok env c \<and> capsule_ok c"
  by (force simp: run_ok_def stored_ok_def dest: map_of_SomeD)

lemma run_ok_step: "run_ok env m \<Longrightarrow> safe_op a \<Longrightarrow> run_ok env (cap_step env a m)"
proof (cases a)
  case (OpCreate now i)
  assume m: "run_ok env m" and a: "safe_op a"
  show ?thesis
  proof (cases "new_capsule env now (cm_draws m) i")
    case (Inr c)
    with a OpCreate have "stored_ok env c" by (auto intro: created_stored_ok)
    with m Inr OpCreate show ?thesis by (simp add: cm_create_def put_persist_run_ok)
  qed (use m OpCreate in \<open>simp add: cm_create_def\<close>)
next
  case (OpRevoke now cid actor)
  assume m: "run_ok env m"
  show ?thesis
  proof (cases "map_of (cm_capsules m) cid")
    case (Some c)
    let ?c = "c\<lparr>wc_revokedAt := Some now, wc_revokedBy := Some actor\<rparr>"
    have "capsule_ok ?c" using run_ok_get [OF m Some] by (simp add: capsule_ok_def)
    then have "stored_ok env ?c" using run_ok_get [OF m Some] by (intro stored_ok_update [of c ?c]) simp_all
    with m Some OpRevoke show ?thesis by (simp add: cm_revoke_def Let_def put_persist_run_ok)
  qed (use m OpRevoke in \<open>simp add: cm_revoke_def\<close>)
next
  case (OpReserve now cid mutates)
  assume m: "run_ok env m"
  show ?thesis
  proof (cases "map_of (cm_capsules m) cid")
    case (Some c)
    let ?c = "c\<lparr>wc_calls := wc_calls c + 1, wc_mutations := (if mutates then wc_mutations c + 1 else wc_mutations c),
             wc_lastUsedAt := Some now\<rparr>"
    show ?thesis
    proof (cases "reached (wc_calls c) (cl_maxCalls (wc_limits c)) \<or> mutates \<and> reached (wc_mutations c) (cl_maxMutations (wc_limits c))")
      case True
      with m Some OpReserve show ?thesis by (auto simp: cm_reserve_def)
    next
      case False
      then have "capsule_ok ?c" using run_ok_get [OF m Some]
        by (auto simp: capsule_ok_def reached_def budget_ok_def split: option.splits)
      then have "stored_ok env ?c" using run_ok_get [OF m Some] by (intro stored_ok_update [of c ?c]) simp_all
      with m Some OpReserve False show ?thesis by (auto simp: cm_reserve_def Let_def put_persist_run_ok)
    qed
  qed (use m OpReserve in \<open>simp add: cm_reserve_def\<close>)
next
  case OpRestart
  assume m: "run_ok env m"
  show ?thesis
  proof (cases "new_WorkspaceCapsuleManager env m")
    case (Inr m')
    then obtain cs where cs: "load_store env (cm_file m) = Inr cs" "m' = m\<lparr>cm_capsules := cs\<rparr>"
      by (auto simp: new_WorkspaceCapsuleManager_def)
    have "\<forall>c \<in> snd ` set cs. stored_ok env c"
      using m cs(1) by (auto simp: run_ok_def file_ok_def load_store_json) (auto simp: load_store_def)
    with m cs capsule_restart_ok [OF Inr] OpRestart Inr show ?thesis by (simp add: run_ok_def file_ok_def)
  qed (use m OpRestart in simp)
qed

lemma run_ok_run: "run_ok env m \<Longrightarrow> list_all safe_op ops \<Longrightarrow> run_ok env (fold (cap_step env) ops m)"
  by (induction ops arbitrary: m) (simp_all add: run_ok_step)

end


definition unary_iso :: "int \<Rightarrow> string" where
  "unary_iso t = (if t < 0 then ''-'' else []) @ replicate (nat \<bar>t\<bar>) (CHR ''I'')"

definition unary_parse :: "string \<Rightarrow> int option" where
  "unary_parse s = Some (if starts_with ''-'' s then - int (length (tl s)) else int (length s))"

definition demo_host :: capsule_env where
  "demo_host = demo_env\<lparr>cv_iso := unary_iso, cv_parse := unary_parse, cv_write := (\<lambda>n. n \<noteq> 1)\<rparr>"

interpretation demo_host: capsule_host demo_host
proof (rule capsule_host.intro)
  show "posix_links (cv_fs demo_host)" by (simp add: demo_host_def demo_env_def plain_links.posix_links_axioms)
  show "cv_parse demo_host (cv_iso demo_host t) = Some t" for t
    by (cases "nat \<bar>t\<bar>") (auto simp: demo_host_def demo_env_def unary_iso_def unary_parse_def)
  show "20 \<le> length (filter (\<lambda>c. c \<noteq> CHR ''-'') (cv_uuid demo_host j))"
    "set (cv_uuid demo_host j) \<subseteq> set ''-abcdef0123456789''" for j
    by (simp_all add: demo_host_def demo_env_def demo_uuid_def)
qed


definition revoked_in :: "string \<Rightarrow> capsule_manager \<Rightarrow> bool" where
  "revoked_in cid m \<longleftrightarrow> (\<exists>d. cm_get cid m = Some d \<and> wc_revokedAt d \<noteq> None)"

lemma revoked_in_put:
  "revoked_in cid m \<or> wc_id c = cid \<Longrightarrow> wc_id c = cid \<longrightarrow> wc_revokedAt c \<noteq> None \<Longrightarrow>
     revoked_in cid (snd (cm_persist env (cm_put c m)))"
  by (auto simp: revoked_in_def cm_get_def cm_put_def update_conv')

lemma revoked_in_revoke:
  assumes "manager_ok m" "cm_get cid m \<noteq> None"
  shows "revoked_in cid (snd (cm_revoke env t cid actor m))"
proof -
  from assms(2) obtain c where c: "map_of (cm_capsules m) cid = Some c" by (auto simp: cm_get_def)
  moreover have "wc_id c = cid" using manager_okD [OF assms(1) c] by simp
  ultimately show ?thesis
    by (cases "wc_revokedAt c = None")
      (simp_all add: cm_revoke_def Let_def revoked_in_put, simp add: revoked_in_def cm_get_def)
qed

lemma revoked_in_kept:
  assumes m: "manager_ok m" "revoked_in cid m" and a: "a \<noteq> OpRestart" "capsule_id env (cm_draws m) \<noteq> cid"
  shows "revoked_in cid (cap_step env a m)"
proof -
  have same: "wc_revokedAt c \<noteq> None" if "map_of (cm_capsules m) k = Some c" "wc_id c = cid" for k c
    using that m manager_okD [OF m(1) that(1)] by (auto simp: revoked_in_def cm_get_def)
  have draws: "revoked_in cid (m\<lparr>cm_draws := n\<rparr>)" for n using m(2) by (simp add: revoked_in_def cm_get_def)
  show ?thesis
  proof (cases a)
    case (OpCreate now i)
    then show ?thesis
    proof (cases "new_capsule env now (cm_draws m) i")
      case (Inr c)
      have "wc_id c = capsule_id env (cm_draws m)" by (rule new_capsule_elim [OF Inr])
      with OpCreate Inr a(2) draws show ?thesis by (simp add: cm_create_def revoked_in_put)
    qed (simp add: cm_create_def m)
  next
    case (OpRevoke now k actor)
    show ?thesis
    proof (cases "map_of (cm_capsules m) k")
      case (Some c)
      with OpRevoke m(2) show ?thesis by (simp add: cm_revoke_def Let_def revoked_in_put)
    qed (simp add: OpRevoke cm_revoke_def m)
  next
    case (OpReserve now k mutates)
    show ?thesis
    proof (cases "map_of (cm_capsules m) k")
      case (Some c)
      with OpReserve m(2) same [OF Some] show ?thesis by (simp add: cm_reserve_def Let_def revoked_in_put)
    qed (simp add: OpReserve cm_reserve_def m)
  qed (use a in simp)
qed

lemma cap_step_draws: "a \<noteq> OpRestart \<Longrightarrow> cm_draws m \<le> cm_draws (cap_step env a m)"
  by (cases a) (auto simp: cm_create_def cm_revoke_def cm_reserve_def cm_put_def Let_def split: sum.splits option.splits)

lemma revoked_in_run:
  "manager_ok m \<Longrightarrow> revoked_in cid m \<Longrightarrow> OpRestart \<notin> set ops \<Longrightarrow> \<forall>j \<ge> cm_draws m. capsule_id env j \<noteq> cid \<Longrightarrow>
     manager_ok (fold (cap_step env) ops m) \<and> revoked_in cid (fold (cap_step env) ops m)"
proof (induction ops arbitrary: m)
  case (Cons a ops)
  then have a: "a \<noteq> OpRestart" by auto
  have "cm_draws m \<le> cm_draws (cap_step env a m)" by (rule cap_step_draws [OF a])
  with Cons a show ?case by (simp add: capsules.inv_step revoked_in_kept)
qed simp

text \<open>Revocation is immediate: once \<^verbatim>\<open>revoke\<close> was called on a capsule, even if writing the state file
  failed, no later call of this process is allowed under it, whatever other capsules are created with other
  identifiers, revoked or used meanwhile.\<close>

theorem revoked_capsule_allows_nothing:
  assumes "manager_ok m" "cm_get cid m \<noteq> None" "OpRestart \<notin> set ops"
    and "\<forall>j \<ge> cm_draws m. capsule_id env j \<noteq> cid"
    and "cm_check env now p projectRoot call (fold (cap_step env) ops (snd (cm_revoke env t cid actor m))) = Inr (CapAllow (Some c))"
  shows "wc_id c \<noteq> cid"
proof
  assume c: "wc_id c = cid"
  let ?m = "snd (cm_revoke env t cid actor m)"
  have "cm_draws ?m = cm_draws m"
    by (auto simp: cm_revoke_def cm_put_def Let_def split: option.splits)
  with revoked_in_run [OF revoke_ok [OF assms(1)] revoked_in_revoke [OF assms(1,2)] assms(3)] assms(4)
  have run: "manager_ok (fold (cap_step env) ops ?m)" "revoked_in cid (fold (cap_step env) ops ?m)" by simp_all
  obtain k where "(k, c) \<in> set (cm_capsules (fold (cap_step env) ops ?m))" "wc_revokedAt c = None"
    by (rule binding_allow_Some [OF check_allow_Some(1) [OF assms(5)]]) (auto simp: live_def)
  moreover from this(1) have "map_of (cm_capsules (fold (cap_step env) ops ?m)) k = Some c"
    using run(1) by (simp add: manager_ok_def)
  moreover from manager_okD [OF run(1) this] c have "k = cid" by simp
  ultimately show False using run(2) by (simp add: revoked_in_def cm_get_def)
qed

theorem revoked_capsule_allows_nothing_witness:
  "\<not> (\<exists>c. wc_id c = demo_cap \<and> cm_check demo_env 2 (bare_principal ''p'' RoleAgent) ''/w'' demo_call
       (snd (cm_revoke demo_env 1 demo_cap ''a'' (snd (cm_create demo_env 0 (demo_input ''observe'') demo_manager)))) = Inr (CapAllow (Some c)))"
proof
  let ?m = "snd (cm_create demo_env 0 (demo_input ''observe'') demo_manager)"
  assume "\<exists>c. wc_id c = demo_cap \<and> cm_check demo_env 2 (bare_principal ''p'' RoleAgent) ''/w'' demo_call
       (snd (cm_revoke demo_env 1 demo_cap ''a'' ?m)) = Inr (CapAllow (Some c))"
  then obtain c where c: "wc_id c = demo_cap" "cm_check demo_env 2 (bare_principal ''p'' RoleAgent) ''/w'' demo_call
       (snd (cm_revoke demo_env 1 demo_cap ''a'' ?m)) = Inr (CapAllow (Some c))" by blast
  have "manager_ok ?m" by (rule create_ok) (simp add: manager_ok_def demo_manager_def)
  moreover have "cm_get demo_cap ?m \<noteq> None \<and> cm_draws ?m = 1" by code_simp
  moreover have "\<forall>j \<ge> 1. capsule_id demo_env j \<noteq> demo_cap" by (simp add: demo_cap_def capsule_id_def demo_env_def demo_uuid_def)
  ultimately show False
    using revoked_capsule_allows_nothing [of ?m demo_cap "[]" demo_env 2 _ _ demo_call 1 "''a''" c] c by simp
qed

end
