(* ===== verification/FF_Mission.thy ===== *)
theory FF_Mission
  imports FF_PolicyEngine
begin

text \<open>
  \<^verbatim>\<open>src/operator/mission-control.ts\<close>: the write freeze of the operator and the durable policy mode.  The
  manager owns its persisted state and drives the mode of the policy engine, which is part of its state here.
  \<open>mv_sha\<close> is the hexadecimal SHA-256 digest, \<open>mv_lc\<close> \<^verbatim>\<open>localeCompare\<close>, \<open>mv_iso\<close> and \<open>mv_parse\<close>
  \<^verbatim>\<open>toISOString\<close> and \<^verbatim>\<open>Date.parse\<close>; \<open>mv_write n\<close> says whether the n-th write of the file succeeds.  The
  file is its JSON value.
\<close>

record PersistedMissionControlState =
  pm_writeFreeze :: bool
  pm_previousPolicyMode :: "policy_mode option"
  pm_selectedPolicyMode :: "policy_mode option"
  pm_updatedAt :: int
  pm_updatedBy :: string

record MissionControlStateView =
  mw_writeFreeze :: bool
  mw_effectivePolicyMode :: policy_mode
  mw_previousPolicyMode :: "policy_mode option"
  mw_selectedPolicyMode :: "policy_mode option"
  mw_updatedAt :: "int option"
  mw_updatedBy :: "string option"
  mw_containmentActions :: "string list"

record mission_env =
  mv_sha :: "string \<Rightarrow> string"
  mv_lc :: "string \<Rightarrow> string \<Rightarrow> bool"
  mv_iso :: "int \<Rightarrow> string"
  mv_parse :: "string \<Rightarrow> int option"
  mv_write :: "nat \<Rightarrow> bool"

record mission_state =
  ms_state :: "PersistedMissionControlState option"
  ms_file :: "jval option"
  ms_engine :: engine_state
  ms_writes :: nat

definition MISSION_CONTROL_OPERATOR_ROLE :: string where
  "MISSION_CONTROL_OPERATOR_ROLE = ''folderforge:mission-control-operator''"

definition CONTAINMENT_ACTIONS :: "string list" where
  "CONTAINMENT_ACTIONS = [''workflow_pause'', ''workflow_cancel'', ''process_stop'', ''process_kill'',
     ''isolation_rollback'', ''isolation_discard'']"

definition mode_entry :: "string \<Rightarrow> policy_mode option \<Rightarrow> jobject" where
  "mode_entry k m = opt_entry k (map_option mode_text m)"

definition unsigned_json :: "mission_env \<Rightarrow> PersistedMissionControlState \<Rightarrow> jobject" where
  "unsigned_json env st =
     [(''schemaVersion'', JNum 1), (''writeFreeze'', JBool (pm_writeFreeze st))] @
     mode_entry ''previousPolicyMode'' (pm_previousPolicyMode st) @
     mode_entry ''selectedPolicyMode'' (pm_selectedPolicyMode st) @
     [(''updatedAt'', JStr (mv_iso env (pm_updatedAt st))), (''updatedBy'', JStr (pm_updatedBy st))]"

definition mission_digest :: "mission_env \<Rightarrow> jobject \<Rightarrow> string" where
  "mission_digest env unsigned = mv_sha env (template (canonical (mv_lc env) (JObj unsigned)))"

definition persisted_json :: "mission_env \<Rightarrow> PersistedMissionControlState \<Rightarrow> jval" where
  "persisted_json env st =
     JObj (unsigned_json env st @ [(''integritySha256'', JStr (mission_digest env (unsigned_json env st)))])"

definition persistState :: "mission_env \<Rightarrow> PersistedMissionControlState \<Rightarrow> (mission_state, unit) act" where
  "persistState env st s =
     (let s1 = s\<lparr>ms_writes := Suc (ms_writes s)\<rparr>
      in if mv_write env (ms_writes s) then (Inr (), s1\<lparr>ms_file := Some (persisted_json env st)\<rparr>)
         else (Inl (PlainError ''EIO: mission-control.json''), s1))"

definition mc_setMode :: "policy_mode \<Rightarrow> mission_state \<Rightarrow> mission_state" where
  "mc_setMode m s = s\<lparr>ms_engine := setMode m (ms_engine s)\<rparr>"

definition writeFreezeOn :: "mission_state \<Rightarrow> bool" where
  "writeFreezeOn s = (case ms_state s of None \<Rightarrow> False | Some st \<Rightarrow> pm_writeFreeze st)"

definition mc_describe :: "mission_state \<Rightarrow> MissionControlStateView" where
  "mc_describe s =
     \<lparr>mw_writeFreeze = writeFreezeOn s, mw_effectivePolicyMode = getMode (ms_engine s),
      mw_previousPolicyMode = Option.bind (ms_state s) pm_previousPolicyMode,
      mw_selectedPolicyMode = Option.bind (ms_state s) pm_selectedPolicyMode,
      mw_updatedAt = map_option pm_updatedAt (ms_state s), mw_updatedBy = map_option pm_updatedBy (ms_state s),
      mw_containmentActions = sort_by code_unit_le CONTAINMENT_ACTIONS\<rparr>"

definition allowsContainmentAction :: "string \<Rightarrow> tool_principal \<Rightarrow> mission_state \<Rightarrow> bool" where
  "allowsContainmentAction tool p s \<longleftrightarrow>
     writeFreezeOn s \<and> p_role p = RoleAdmin \<and>
     (case p_roles p of None \<Rightarrow> False | Some rs \<Rightarrow> MISSION_CONTROL_OPERATOR_ROLE \<in> set rs) \<and>
     tool \<in> set CONTAINMENT_ACTIONS"

text \<open>The state file is written first, then the memory and the policy mode change.\<close>

definition install :: "mission_env \<Rightarrow> PersistedMissionControlState \<Rightarrow> policy_mode \<Rightarrow> (mission_state, MissionControlStateView) act" where
  "install env st mode =
     bindA (persistState env st) (\<lambda>_.
     bindA (modifyA (\<lambda>s. mc_setMode mode (s\<lparr>ms_state := Some st\<rparr>))) (\<lambda>_.
     getsA mc_describe))"

definition setWriteFreeze :: "mission_env \<Rightarrow> int \<Rightarrow> bool \<Rightarrow> string \<Rightarrow> (mission_state, MissionControlStateView) act" where
  "setWriteFreeze env now enabled actorId s =
     (let actor = js_trim actorId in
      if actor = [] then (Inl (PlainError ''Mission Control actor id is required.''), s)
      else if enabled = writeFreezeOn s then (Inr (mc_describe s), s)
      else if enabled then
        install env \<lparr>pm_writeFreeze = True, pm_previousPolicyMode = Some (getMode (ms_engine s)),
                     pm_selectedPolicyMode = Some (getMode (ms_engine s)), pm_updatedAt = now, pm_updatedBy = actor\<rparr>
          Readonly s
      else
        let restored = (case Option.bind (ms_state s) pm_previousPolicyMode of Some m \<Rightarrow> m | None \<Rightarrow> Safe)
        in install env \<lparr>pm_writeFreeze = False, pm_previousPolicyMode = None, pm_selectedPolicyMode = Some restored,
                        pm_updatedAt = now, pm_updatedBy = actor\<rparr>
             restored s)"

text \<open>The mode arrives as a text.\<close>

definition setPolicyMode :: "mission_env \<Rightarrow> int \<Rightarrow> string \<Rightarrow> string \<Rightarrow> (mission_state, MissionControlStateView) act" where
  "setPolicyMode env now modeText actorId s =
     (let actor = js_trim actorId in
      if actor = [] then (Inl (PlainError ''Mission Control actor id is required.''), s)
      else case mode_of_text modeText of
        None \<Rightarrow> (Inl (PlainError (''Unsupported policy mode: '' @ modeText)), s)
      | Some mode \<Rightarrow>
          if writeFreezeOn s \<and> mode \<noteq> Readonly then
            (Inl (PlainError ''Mission Control write freeze is active; disable it before changing policy mode.''), s)
          else install env \<lparr>pm_writeFreeze = writeFreezeOn s,
                            pm_previousPolicyMode = Option.bind (ms_state s) pm_previousPolicyMode,
                            pm_selectedPolicyMode = Some mode, pm_updatedAt = now, pm_updatedBy = actor\<rparr> mode s)"

section \<open>Loading\<close>

definition SHA_TEXT :: regex where
  "SHA_TEXT = whole (RTimes 64 (RIn (''abcdef'' @ d09)))"

text \<open>An optional mode: undefined, or one of the four texts.\<close>

definition stored_mode :: "jval \<Rightarrow> policy_mode option option" where
  "stored_mode v = (case v of JUndef \<Rightarrow> Some None
     | JStr t \<Rightarrow> (case mode_of_text t of Some m \<Rightarrow> Some (Some m) | None \<Rightarrow> None)
     | _ \<Rightarrow> None)"

definition mission_load :: "mission_env \<Rightarrow> jval option \<Rightarrow> PersistedMissionControlState option result" where
  "mission_load env file =
     (case file of
        None \<Rightarrow> Inr None
      | Some (JObj kvs) \<Rightarrow>
          (case (jget kvs ''schemaVersion'', jget kvs ''writeFreeze'', jget kvs ''updatedAt'', jget kvs ''updatedBy'',
                 jget kvs ''integritySha256'', stored_mode (jget kvs ''previousPolicyMode''),
                 stored_mode (jget kvs ''selectedPolicyMode'')) of
             (JNum v, JBool fr, JStr at, JStr by', JStr sha, Some prev, Some sel) \<Rightarrow>
               (case mv_parse env at of
                  None \<Rightarrow> Inl (PlainError ''Mission Control state is invalid.'')
                | Some t \<Rightarrow>
                    if v \<noteq> 1 \<or> js_trim by' = [] \<or> \<not> re_test SHA_TEXT sha
                    then Inl (PlainError ''Mission Control state is invalid.'')
                    else if mission_digest env (filter (\<lambda>(k, v). k \<noteq> ''integritySha256'') kvs) \<noteq> sha
                    then Inl (PlainError ''Mission Control state integrity check failed.'')
                    else Inr (Some \<lparr>pm_writeFreeze = fr, pm_previousPolicyMode = prev, pm_selectedPolicyMode = sel,
                                    pm_updatedAt = t, pm_updatedBy = by'\<rparr>))
           | _ \<Rightarrow> Inl (PlainError ''Mission Control state is invalid.''))
      | Some _ \<Rightarrow> Inl (PlainError ''Mission Control state is invalid.''))"

text \<open>The constructor, on the engine the container has built with its configured mode.\<close>

definition new_MissionControlState :: "mission_env \<Rightarrow> engine_state \<Rightarrow> mission_state \<Rightarrow> mission_state result" where
  "new_MissionControlState env engine s =
     bindR (mission_load env (ms_file s)) (\<lambda>st.
       let s1 = s\<lparr>ms_state := st, ms_engine := engine\<rparr>
       in Inr (case st of
            None \<Rightarrow> s1
          | Some x \<Rightarrow> if pm_writeFreeze x then mc_setMode Readonly s1
                     else (case pm_selectedPolicyMode x of Some m \<Rightarrow> mc_setMode m s1 | None \<Rightarrow> s1)))"

text \<open>The handler of the tool \<^verbatim>\<open>policy_set_mode\<close> (\<^verbatim>\<open>src/tools/security-tools.ts\<close>), which changes the mode of the
  engine without passing through mission control.\<close>

definition policy_set_mode_handler :: "jobject \<Rightarrow> engine_state \<Rightarrow> (string + unit) \<times> engine_state" where
  "policy_set_mode_handler args e =
     (let t = js_String (jget args ''mode'')
      in case mode_of_text t of
           None \<Rightarrow> (Inl (''Invalid mode: '' @ t), e)
         | Some m \<Rightarrow> (Inr (), setMode m e))"


section \<open>Runs of a server under mission control\<close>

datatype mission_op =
    MFreeze int bool string
  | MSetMode int string string
  | MTool risk_level jobject tool_principal
  | MRestart engine_state

text \<open>\<open>MTool\<close> is a call of \<^verbatim>\<open>policy_set_mode\<close> that reaches its handler only when the engine allows it;
  \<open>MRestart\<close> is a new process, whose engine starts in whatever mode its configuration says.\<close>

fun mission_step :: "mission_env \<Rightarrow> engine_config \<Rightarrow> mission_op \<Rightarrow> mission_state \<Rightarrow> mission_state" where
  "mission_step env cfg (MFreeze now enabled actor) s = snd (setWriteFreeze env now enabled actor s)"
| "mission_step env cfg (MSetMode now mode actor) s = snd (setPolicyMode env now mode actor s)"
| "mission_step env cfg (MTool risk args p) s =
     (case evaluate cfg ''policy_set_mode'' risk True args (ByPrincipal p)
             (allowsContainmentAction ''policy_set_mode'' p s) (ms_engine s) of
        (Inr (Allow _), e) \<Rightarrow> s\<lparr>ms_engine := snd (policy_set_mode_handler args e)\<rparr>
      | (_, e) \<Rightarrow> s\<lparr>ms_engine := e\<rparr>)"
| "mission_step env cfg (MRestart engine) s =
     (case new_MissionControlState env engine s of Inl _ \<Rightarrow> s | Inr s' \<Rightarrow> s')"

definition mission_fresh :: "mission_state \<Rightarrow> bool" where
  "mission_fresh s \<longleftrightarrow> ms_state s = None \<and> ms_file s = None"

definition durable :: "mission_env \<Rightarrow> mission_state \<Rightarrow> bool" where
  "durable env s \<longleftrightarrow> ms_state s = None \<and> ms_file s = None \<or>
     (\<exists>st. ms_state s = Some st \<and> ms_file s = Some (persisted_json env st) \<and> js_trim (pm_updatedBy st) \<noteq> [])"

definition mission_ok :: "mission_env \<Rightarrow> mission_state \<Rightarrow> bool" where
  "mission_ok env s \<longleftrightarrow> durable env s \<and> (writeFreezeOn s \<longrightarrow> es_mode (ms_engine s) = Readonly)"

locale mission_host =
  fixes env :: mission_env
  assumes dates: "mv_parse env (mv_iso env t) = Some t"
    and sha_length: "length (mv_sha env x) = 64"
    and sha_hex: "set (mv_sha env x) \<subseteq> set (''abcdef'' @ d09)"
begin

lemma digest_text: "re_test SHA_TEXT (mission_digest env kvs)"
proof -
  have "matches_at (mission_digest env kvs) (RTimes 64 (RIn (''abcdef'' @ d09))) 0 (0 + 64)"
  proof (rule matches_RTimes_RIn)
    show "0 + 64 \<le> length (mission_digest env kvs)" by (simp add: mission_digest_def sha_length)
    show "\<forall>k \<in> {0..<0 + 64}. mission_digest env kvs ! k \<in> set (''abcdef'' @ d09)"
      by (intro ballI subsetD [OF sha_hex [of "template (canonical (mv_lc env) (JObj kvs))"]])
        (simp add: mission_digest_def sha_length)
  qed
  then show ?thesis by (simp add: SHA_TEXT_def re_test_whole mission_digest_def sha_length)
qed

lemma stored_mode_entry: "stored_mode (case m of None \<Rightarrow> JUndef | Some x \<Rightarrow> (JStr \<circ> mode_text) x) = Some m"
  by (cases m) (simp_all add: stored_mode_def mode_of_text_Some_iff [THEN iffD2])

lemma load_persisted:
  assumes "js_trim (pm_updatedBy st) \<noteq> []"
  shows "mission_load env (Some (persisted_json env st)) = Inr (Some st)"
proof -
  let ?sha = "mission_digest env (unsigned_json env st)"
  let ?k = "unsigned_json env st @ [(''integritySha256'', JStr ?sha)]"
  have k: "jget ?k ''schemaVersion'' = JNum 1" "jget ?k ''writeFreeze'' = JBool (pm_writeFreeze st)"
    "jget ?k ''updatedAt'' = JStr (mv_iso env (pm_updatedAt st))" "jget ?k ''updatedBy'' = JStr (pm_updatedBy st)"
    "jget ?k ''integritySha256'' = JStr ?sha"
    "jget ?k ''previousPolicyMode'' = (case map_option mode_text (pm_previousPolicyMode st) of None \<Rightarrow> JUndef | Some t \<Rightarrow> JStr t)"
    "jget ?k ''selectedPolicyMode'' = (case map_option mode_text (pm_selectedPolicyMode st) of None \<Rightarrow> JUndef | Some t \<Rightarrow> JStr t)"
    by (simp_all add: unsigned_json_def mode_entry_def jget_simps split: option.splits)
  have "filter (\<lambda>(k, v). k \<noteq> ''integritySha256'') ?k = unsigned_json env st"
    by (auto simp: unsigned_json_def mode_entry_def opt_entry_def split: option.splits)
  then show ?thesis
    using assms digest_text unfolding persisted_json_def mission_load_def
    by (simp add: k stored_mode_entry dates del: filter_append)
qed

lemma restart_ok:
  assumes "mission_ok env s"
  shows "\<exists>s'. new_MissionControlState env engine s = Inr s' \<and> mission_ok env s' \<and> ms_state s' = ms_state s \<and>
     (\<forall>st m. ms_state s = Some st \<and> \<not> pm_writeFreeze st \<and> pm_selectedPolicyMode st = Some m \<longrightarrow>
        es_mode (ms_engine s') = m)"
proof (cases "ms_state s")
  case None
  then have "mission_load env (ms_file s) = Inr None" using assms by (simp add: mission_ok_def durable_def mission_load_def)
  then show ?thesis
    using assms None by (simp add: new_MissionControlState_def mission_ok_def durable_def writeFreezeOn_def Let_def)
next
  case (Some st)
  then have st: "ms_file s = Some (persisted_json env st)" "js_trim (pm_updatedBy st) \<noteq> []"
    using assms by (auto simp: mission_ok_def durable_def)
  from load_persisted [OF this(2)] this Some show ?thesis
    by (simp add: new_MissionControlState_def mission_ok_def durable_def writeFreezeOn_def Let_def mc_setMode_def setMode_def
        split: option.split)
qed

end

lemma install_ok:
  assumes "mission_ok env s" "js_trim (pm_updatedBy st) \<noteq> []" "pm_writeFreeze st \<longrightarrow> mode = Readonly"
  shows "mission_ok env (snd (install env st mode s))"
  using assms
  by (auto simp: install_def persistState_def act_defs Let_def mission_ok_def durable_def writeFreezeOn_def
      mc_setMode_def setMode_def)

lemma freeze_ok: "mission_ok env s \<Longrightarrow> mission_ok env (snd (setWriteFreeze env now enabled actor s))"
  by (auto simp: setWriteFreeze_def Let_def intro!: install_ok)

lemma set_mode_ok: "mission_ok env s \<Longrightarrow> mission_ok env (snd (setPolicyMode env now mode actor s))"
  by (auto simp: setPolicyMode_def Let_def split: option.splits intro!: install_ok)

lemma evaluate_keeps_mode: "es_mode (snd (evaluate cfg tool risk mutates args r bypass s)) = es_mode s"
  by (auto simp: evaluate_def Let_def granted_now_def toApproval_def on_queue_def bindA_def retA_def
      split: option.splits sum.splits prod.splits)

lemma frozen_denies:
  assumes "es_mode e = Readonly" "\<not> bypass" "fst (evaluate cfg tool risk True args r bypass e) = Inr d"
  shows "is_deny d"
  using assms by (cases rule: evaluate_cases [of cfg tool risk True args r bypass e])
    (auto simp: is_deny_def hard_boundary_def)

lemma tool_ok: "mission_ok env s \<Longrightarrow> mission_ok env (mission_step env cfg (MTool risk args p) s)"
proof -
  assume ok: "mission_ok env s"
  let ?ev = "evaluate cfg ''policy_set_mode'' risk True args (ByPrincipal p)
     (allowsContainmentAction ''policy_set_mode'' p s) (ms_engine s)"
  obtain res e where ev: "?ev = (res, e)" by (cases ?ev)
  have mode: "es_mode e = es_mode (ms_engine s)"
    using evaluate_keeps_mode [of cfg "''policy_set_mode''" risk True args "ByPrincipal p" _ "ms_engine s"] ev by (metis snd_conv)
  have no: "\<not> allowsContainmentAction ''policy_set_mode'' p s"
    by (simp add: allowsContainmentAction_def CONTAINMENT_ACTIONS_def)
  have "is_deny d" if "writeFreezeOn s" "res = Inr d" for d
    using frozen_denies [OF _ no, of "ms_engine s" cfg "''policy_set_mode''" risk args "ByPrincipal p" d] ok ev that
    by (simp add: mission_ok_def)
  then show ?thesis
    using ok ev mode
    by (auto simp: mission_ok_def durable_def writeFreezeOn_def is_deny_def split: sum.splits Decision.splits)
qed

context mission_host
begin

lemma mission_step_ok: "mission_ok env s \<Longrightarrow> mission_ok env (mission_step env cfg a s)"
proof (cases a)
  case (MRestart engine)
  assume ok: "mission_ok env s"
  from restart_ok [OF ok, of engine] MRestart show ?thesis by auto
qed (simp_all add: freeze_ok set_mode_ok tool_ok del: mission_step.simps(3))

end

lemma fresh_ok: "mission_fresh s \<Longrightarrow> mission_ok env s"
  by (simp add: mission_ok_def durable_def mission_fresh_def writeFreezeOn_def)

sublocale mission_host \<subseteq> missions: stateful mission_fresh "mission_step env cfg" "mission_ok env" for cfg
  by unfold_locales (auto intro: fresh_ok mission_step_ok)

context mission_host
begin

lemma reachable_ok: "mission_fresh s \<Longrightarrow> mission_ok env (fold (mission_step env cfg) ops s)"
  by (rule missions.inv_reachable)

end

section \<open>Properties\<close>

text \<open>Claim C20. A write freeze holds: however the freeze was switched, the policy mode changed through mission
  control or through the tool \<^verbatim>\<open>policy_set_mode\<close>, writes failed and processes restarted with whatever
  configured mode, while the freeze is on the engine denies every mutating call, except the exact
  containment actions by an administrator with the operator role.\<close>

theorem frozen_server_rejects_mutations:
  assumes "mission_host env" "mission_fresh s0" "s = fold (mission_step env cfg) ops s0" "writeFreezeOn s"
    and "fst (evaluate cfg tool risk True args (ByPrincipal p) (allowsContainmentAction tool p s) (ms_engine s)) = Inr d"
  shows "is_deny d \<or>
     p_role p = RoleAdmin \<and> MISSION_CONTROL_OPERATOR_ROLE \<in> set (the (p_roles p)) \<and> tool \<in> set CONTAINMENT_ACTIONS"
proof -
  have "mission_ok env s" unfolding assms(3) by (rule mission_host.reachable_ok [OF assms(1,2)])
  then have "es_mode (ms_engine s) = Readonly" using assms(4) by (simp add: mission_ok_def)
  then show ?thesis
    using frozen_denies [OF _ _ assms(5)] by (cases "allowsContainmentAction tool p s")
      (auto simp: allowsContainmentAction_def split: option.splits)
qed

text \<open>Operator decisions survive a crash: in every state reached this way the next process starts, has
  the same freeze and the same selected mode, and is in readonly mode if the freeze is on and in the selected
  mode otherwise, whatever mode its configuration asks for.\<close>

theorem operator_decisions_survive_restart:
  assumes "mission_host env" "mission_fresh s0" "s = fold (mission_step env cfg) ops s0"
  shows "\<exists>s'. new_MissionControlState env engine s = Inr s' \<and> writeFreezeOn s' = writeFreezeOn s \<and>
     (writeFreezeOn s \<longrightarrow> es_mode (ms_engine s') = Readonly) \<and>
     (\<forall>st m. ms_state s = Some st \<and> \<not> pm_writeFreeze st \<and> pm_selectedPolicyMode st = Some m \<longrightarrow>
        es_mode (ms_engine s') = m)"
proof -
  have ok: "mission_ok env s" unfolding assms(3) by (rule mission_host.reachable_ok [OF assms(1,2)])
  from mission_host.restart_ok [OF assms(1) this, of engine] show ?thesis
    by (auto simp: mission_ok_def writeFreezeOn_def)
qed

definition demo_mission_env :: mission_env where
  "demo_mission_env = \<lparr>mv_sha = (\<lambda>_. replicate 64 (CHR ''a'')), mv_lc = code_unit_le,
     mv_iso = (\<lambda>t. (if t < 0 then ''-'' else []) @ replicate (nat \<bar>t\<bar>) (CHR ''I'')),
     mv_parse = (\<lambda>s. Some (if starts_with ''-'' s then - int (length (tl s)) else int (length s))),
     mv_write = (\<lambda>n. n \<noteq> 1)\<rparr>"

interpretation demo_mission: mission_host demo_mission_env
proof (rule mission_host.intro)
  show "mv_parse demo_mission_env (mv_iso demo_mission_env t) = Some t" for t
    by (cases "nat \<bar>t\<bar>") (auto simp: demo_mission_env_def)
qed (auto simp: demo_mission_env_def)

definition demo_mission :: mission_state where
  "demo_mission = \<lparr>ms_state = None, ms_file = None, ms_engine = demo_engine Dev [], ms_writes = 0\<rparr>"

theorem frozen_server_rejects_mutations_witness:
  "is_deny (Deny LOW readonly_reason) \<and>
   fst (evaluate demo_config ''t'' LOW True [] (ByPrincipal (bare_principal ''a'' RoleAgent)) False
      (ms_engine (fold (mission_step demo_mission_env demo_config) [MFreeze 1 True ''op''] demo_mission))) =
     Inr (Deny LOW readonly_reason)"
proof -
  let ?s = "fold (mission_step demo_mission_env demo_config) [MFreeze 1 True ''op''] demo_mission"
  have fresh: "mission_fresh demo_mission" by (simp add: mission_fresh_def demo_mission_def)
  have no: "writeFreezeOn ?s" "allowsContainmentAction ''t'' (bare_principal ''a'' RoleAgent) ?s = False" by code_simp+
  have ev: "fst (evaluate demo_config ''t'' LOW True [] (ByPrincipal (bare_principal ''a'' RoleAgent)) False (ms_engine ?s)) =
      Inr (Deny LOW readonly_reason)" by code_simp
  from frozen_server_rejects_mutations [OF demo_mission.mission_host_axioms fresh refl no(1), of "''t''" LOW "[]" "bare_principal ''a'' RoleAgent"] no ev
  show ?thesis by (simp add: bare_principal_def)
qed

theorem operator_decisions_survive_restart_witness:
  "\<exists>s'. new_MissionControlState demo_mission_env (demo_engine Danger [])
      (fold (mission_step demo_mission_env demo_config) [MFreeze 1 True ''op''] demo_mission) = Inr s' \<and>
     es_mode (ms_engine s') = Readonly"
proof -
  let ?s = "fold (mission_step demo_mission_env demo_config) [MFreeze 1 True ''op''] demo_mission"
  have fresh: "mission_fresh demo_mission" by (simp add: mission_fresh_def demo_mission_def)
  have "writeFreezeOn ?s" by code_simp
  with operator_decisions_survive_restart [OF demo_mission.mission_host_axioms fresh, of ?s demo_config "[MFreeze 1 True ''op'']" "demo_engine Danger []"]
  show ?thesis by blast
qed

end
