(* ===== verification/FF_Registry.thy ===== *)
theory FF_Registry
  imports FF_PolicyEngine FF_RateLimit FF_AuditLog FF_Capsule FF_Mission
begin

text \<open>
  \<^verbatim>\<open>src/tools/registry.ts\<close>, first half: the catalogue of tools, what agents see of it, and the classification
  of a call.  The second half, the governance pipeline, is in \<^verbatim>\<open>FF_Pipeline\<close>.

  A handler is arbitrary code: it returns a result or throws, and it may change the whole state \<open>'s\<close> of the
  server it runs in, so the model takes it as a function on that state.  The listeners of the catalogue are
  identified by texts, and \<open>rg_notified\<close> logs the notifications.
\<close>

section \<open>Tools\<close>

datatype ToolAudience = AudAgent | AudAdmin

record ToolAnnotations =
  an_title :: "string option"
  an_readOnlyHint :: "bool option"
  an_destructiveHint :: "bool option"
  an_idempotentHint :: "bool option"
  an_openWorldHint :: "bool option"

datatype Execution = Executed | ExecFailed | Replayed | NotStarted | OutcomeUncertain

record ToolResult =
  tr_ok :: bool
  tr_operationId :: "string option"
  tr_execution :: "Execution option"
  tr_data :: jval
  tr_error :: "string option"
  tr_diff :: "string option"
  tr_approvalId :: "string option"
  tr_content :: jval

record ToolCallClassification =
  tc_name :: string
  tc_risk :: risk_level
  tc_mutates :: bool
  tc_governanceArgs :: "jobject option"

type_synonym 's handler = "jobject \<Rightarrow> ('s, ToolResult) act"

record 's ToolDefinition =
  td_name :: string
  td_description :: string
  td_inputSchema :: jval
  td_outputSchema :: jval
  td_annotations :: "ToolAnnotations option"
  td_risk :: risk_level
  td_group :: string
  td_audience :: ToolAudience
  td_mutates :: bool
  td_classifyCall :: "(jobject \<Rightarrow> ToolCallClassification result) option"
  td_handler :: "'s handler"

text \<open>The first letter in upper case; tool names are ASCII.\<close>

definition titleCase :: "string \<Rightarrow> string" where
  "titleCase name =
     join_with '' '' (map (\<lambda>p. case p of [] \<Rightarrow> [] | c # cs \<Rightarrow> upper_char c # cs) (split_on (CHR ''_'') name))"

definition override :: "'a option \<Rightarrow> 'a \<Rightarrow> 'a option" where
  "override x d = (case x of None \<Rightarrow> Some d | Some _ \<Rightarrow> x)"

definition no_annotations :: ToolAnnotations where
  "no_annotations = \<lparr>an_title = None, an_readOnlyHint = None, an_destructiveHint = None, an_idempotentHint = None,
     an_openWorldHint = None\<rparr>"

definition deriveAnnotations :: "string \<Rightarrow> bool \<Rightarrow> risk_level \<Rightarrow> ToolAnnotations \<Rightarrow> ToolAnnotations" where
  "deriveAnnotations name mutates risk ov =
     (let destructive = (mutates \<and> RISK_ORDER risk \<ge> RISK_ORDER HIGH)
      in \<lparr>an_title = override (an_title ov) (titleCase name),
          an_readOnlyHint = override (an_readOnlyHint ov) (\<not> mutates),
          an_destructiveHint = override (an_destructiveHint ov) destructive,
          an_idempotentHint = override (an_idempotentHint ov) (\<not> mutates),
          an_openWorldHint = override (an_openWorldHint ov) False\<rparr>)"

record 's tool_spec =
  sp_name :: string
  sp_description :: string
  sp_inputSchema :: jval
  sp_group :: string
  sp_mutates :: bool
  sp_risk :: "risk_level option"
  sp_audience :: "ToolAudience option"
  sp_outputSchema :: jval
  sp_annotations :: ToolAnnotations
  sp_classifyCall :: "(jobject \<Rightarrow> ToolCallClassification result) option"
  sp_handler :: "'s handler"

definition defineTool :: "'s tool_spec \<Rightarrow> 's ToolDefinition" where
  "defineTool def =
     (let risk = (case sp_risk def of Some r \<Rightarrow> r
                  | None \<Rightarrow> (case TOOL_RISK (sp_name def) of Some r \<Rightarrow> r | None \<Rightarrow> MEDIUM))
      in \<lparr>td_name = sp_name def, td_description = sp_description def, td_inputSchema = sp_inputSchema def,
          td_outputSchema = sp_outputSchema def,
          td_annotations = Some (deriveAnnotations (sp_name def) (sp_mutates def) risk (sp_annotations def)),
          td_risk = risk, td_group = sp_group def,
          td_audience = (case sp_audience def of Some a \<Rightarrow> a | None \<Rightarrow> AudAgent),
          td_mutates = sp_mutates def, td_classifyCall = sp_classifyCall def, td_handler = sp_handler def\<rparr>)"

section \<open>The catalogue\<close>

record 's tool_registry =
  rg_tools :: "(string \<times> 's ToolDefinition) list"
  rg_activeSet :: "string list option"
  rg_listeners :: "string list"
  rg_notified :: "string list"

definition listAll :: "'s tool_registry \<Rightarrow> 's ToolDefinition list" where
  "listAll r = map snd (rg_tools r)"

definition listActive :: "'s tool_registry \<Rightarrow> 's ToolDefinition list" where
  "listActive r = (case rg_activeSet r of None \<Rightarrow> listAll r
     | Some names \<Rightarrow> filter (\<lambda>t. td_name t \<in> set names) (listAll r))"

definition listAgentActive :: "'s tool_registry \<Rightarrow> 's ToolDefinition list" where
  "listAgentActive r = filter (\<lambda>t. td_audience t = AudAgent) (listActive r)"

definition bool_entry :: "string \<Rightarrow> bool option \<Rightarrow> jobject" where
  "bool_entry k x = (case x of None \<Rightarrow> [] | Some b \<Rightarrow> [(k, JBool b)])"

definition annotations_json :: "ToolAnnotations option \<Rightarrow> jval" where
  "annotations_json a = (case a of None \<Rightarrow> JUndef
     | Some x \<Rightarrow> JObj (opt_entry ''title'' (an_title x) @ bool_entry ''readOnlyHint'' (an_readOnlyHint x) @
         bool_entry ''destructiveHint'' (an_destructiveHint x) @ bool_entry ''idempotentHint'' (an_idempotentHint x) @
         bool_entry ''openWorldHint'' (an_openWorldHint x)))"

definition surface_entry :: "'s ToolDefinition \<Rightarrow> jobject" where
  "surface_entry t = [(''name'', JStr (td_name t)), (''description'', JStr (td_description t)),
     (''inputSchema'', td_inputSchema t), (''outputSchema'', td_outputSchema t),
     (''annotations'', annotations_json (td_annotations t))]"

definition by_name :: "(string \<Rightarrow> string \<Rightarrow> bool) \<Rightarrow> 's ToolDefinition \<Rightarrow> 's ToolDefinition \<Rightarrow> bool" where
  "by_name lc a b = lc (td_name a) (td_name b)"

definition agentSurfaceSnapshot :: "(string \<Rightarrow> string \<Rightarrow> bool) \<Rightarrow> 's tool_registry \<Rightarrow> string" where
  "agentSurfaceSnapshot lc r =
     template (stringify (JArr (map (\<lambda>t. JObj (surface_entry t)) (sort_by (by_name lc) (listAgentActive r)))))"

text \<open>Every listener runs once, also after one that throws.\<close>

definition emitListChangedIfNeeded :: "(string \<Rightarrow> string \<Rightarrow> bool) \<Rightarrow> string \<Rightarrow> 's tool_registry \<Rightarrow> 's tool_registry" where
  "emitListChangedIfNeeded lc before r =
     (if before = agentSurfaceSnapshot lc r then r else r\<lparr>rg_notified := rg_notified r @ rg_listeners r\<rparr>)"

definition onListChanged :: "string \<Rightarrow> 's tool_registry \<Rightarrow> 's tool_registry" where
  "onListChanged l r = r\<lparr>rg_listeners := (if l \<in> set (rg_listeners r) then rg_listeners r else rg_listeners r @ [l])\<rparr>"

definition unsubscribe :: "string \<Rightarrow> 's tool_registry \<Rightarrow> 's tool_registry" where
  "unsubscribe l r = r\<lparr>rg_listeners := filter (\<lambda>x. x \<noteq> l) (rg_listeners r)\<rparr>"

definition set_tools :: "'s ToolDefinition list \<Rightarrow> 's tool_registry \<Rightarrow> 's tool_registry" where
  "set_tools ts r = r\<lparr>rg_tools := fold (\<lambda>t. AList.update (td_name t) t) ts (rg_tools r)\<rparr>"

definition registerAll :: "(string \<Rightarrow> string \<Rightarrow> bool) \<Rightarrow> 's ToolDefinition list \<Rightarrow> 's tool_registry \<Rightarrow> 's tool_registry" where
  "registerAll lc ts r = emitListChangedIfNeeded lc (agentSurfaceSnapshot lc r) (set_tools ts r)"

definition register :: "(string \<Rightarrow> string \<Rightarrow> bool) \<Rightarrow> 's ToolDefinition \<Rightarrow> 's tool_registry \<Rightarrow> 's tool_registry" where
  "register lc t r = emitListChangedIfNeeded lc (agentSurfaceSnapshot lc r) (set_tools [t] r)"

text \<open>\<^verbatim>\<open>Map.prototype\<close> iteration tolerates the deletion of the current entry, so the loop sees every tool once.\<close>

definition matching_names :: "('s ToolDefinition \<Rightarrow> bool) \<Rightarrow> 's tool_registry \<Rightarrow> string list" where
  "matching_names p r = map fst (filter (\<lambda>(n, t). p t) (rg_tools r))"

definition remove_tools :: "('s ToolDefinition \<Rightarrow> bool) \<Rightarrow> 's tool_registry \<Rightarrow> 's tool_registry" where
  "remove_tools p r =
     r\<lparr>rg_tools := filter (\<lambda>(n, t). \<not> p t) (rg_tools r),
       rg_activeSet := map_option (filter (\<lambda>n. n \<notin> set (matching_names p r))) (rg_activeSet r)\<rparr>"

definition unregisterWhere :: "(string \<Rightarrow> string \<Rightarrow> bool) \<Rightarrow> ('s ToolDefinition \<Rightarrow> bool) \<Rightarrow> 's tool_registry \<Rightarrow>
    string list \<times> 's tool_registry" where
  "unregisterWhere lc p r =
     (matching_names p r, emitListChangedIfNeeded lc (agentSurfaceSnapshot lc r) (remove_tools p r))"

definition add_active :: "string list \<Rightarrow> 's tool_registry \<Rightarrow> 's tool_registry" where
  "add_active names r = r\<lparr>rg_activeSet := map_option (\<lambda>s. uniq (s @ names)) (rg_activeSet r)\<rparr>"

definition replaceWhere :: "(string \<Rightarrow> string \<Rightarrow> bool) \<Rightarrow> ('s ToolDefinition \<Rightarrow> bool) \<Rightarrow> 's ToolDefinition list \<Rightarrow>
    bool option \<Rightarrow> 's tool_registry \<Rightarrow> string list \<times> 's tool_registry" where
  "replaceWhere lc p replacements activate' r =
     (let removed = matching_names p r;
          removedVisible = (\<exists>n \<in> set removed. rg_activeSet r = None \<or> n \<in> set (the (rg_activeSet r)));
          r1 = set_tools replacements (remove_tools p r);
          r2 = (if (case activate' of Some b \<Rightarrow> b | None \<Rightarrow> removedVisible)
                then add_active (map td_name replacements) r1 else r1)
      in (removed, emitListChangedIfNeeded lc (agentSurfaceSnapshot lc r) r2))"

definition activate :: "(string \<Rightarrow> string \<Rightarrow> bool) \<Rightarrow> string list \<Rightarrow> 's tool_registry \<Rightarrow> 's tool_registry" where
  "activate lc names r =
     (if rg_activeSet r = None then r
      else emitListChangedIfNeeded lc (agentSurfaceSnapshot lc r) (add_active names r))"

definition setActive :: "(string \<Rightarrow> string \<Rightarrow> bool) \<Rightarrow> string list option \<Rightarrow> 's tool_registry \<Rightarrow> 's tool_registry" where
  "setActive lc names r =
     emitListChangedIfNeeded lc (agentSurfaceSnapshot lc r) (r\<lparr>rg_activeSet := map_option uniq names\<rparr>)"

definition get_tool :: "string \<Rightarrow> 's tool_registry \<Rightarrow> 's ToolDefinition option" where
  "get_tool name r = map_of (rg_tools r) name"

section \<open>Classification of a call\<close>

text \<open>The built-in special cases; \<open>classify'\<close> is the command policy.\<close>

definition builtin_classification :: "(string \<Rightarrow> CommandClassification) \<Rightarrow> 's ToolDefinition \<Rightarrow> string \<Rightarrow> jobject \<Rightarrow>
    ToolCallClassification" where
  "builtin_classification classify' tool name args =
     (let mk = (\<lambda>risk mutates. \<lparr>tc_name = name, tc_risk = risk, tc_mutates = mutates, tc_governanceArgs = Some args\<rparr>)
      in if name = ''shell_exec'' \<and> is_string (jget args ''command'') then
           (case jget args ''command'' of
              JStr command \<Rightarrow>
                let commandRisk = cc_risk (classify' command)
                in mk (if RISK_ORDER commandRisk \<ge> RISK_ORDER HIGH then commandRisk else HIGH) (td_mutates tool)
            | _ \<Rightarrow> mk (td_risk tool) (td_mutates tool))
         else if name = ''patch_transaction'' then
           let action = js_String (js_or_else (jget args ''action'') (JStr ''preview''))
           in if action = ''preview'' \<or> action = ''status'' then mk LOW False
              else mk (if jget args ''force'' = JBool True then HIGH else MEDIUM) True
         else if name = ''project_verify'' then
           let action = (case jget args ''action'' of
                   JStr a \<Rightarrow> a
                 | _ \<Rightarrow> if jget args ''dryRun'' = JBool True then ''plan'' else ''run'')
           in if action = ''plan'' \<or> action = ''status'' \<or> action = ''list'' then mk LOW False else mk MEDIUM True
         else mk (td_risk tool) (td_mutates tool))"

definition classifyCall :: "(string \<Rightarrow> CommandClassification) \<Rightarrow> 's tool_registry \<Rightarrow> string \<Rightarrow> jobject \<Rightarrow>
    ToolCallClassification option result" where
  "classifyCall classify' r name args =
     (case get_tool name r of
        None \<Rightarrow> Inr None
      | Some tool \<Rightarrow>
          (case td_classifyCall tool of
             None \<Rightarrow> Inr (Some (builtin_classification classify' tool name args))
           | Some dyn \<Rightarrow>
               bindR (dyn args) (\<lambda>d.
                 Inr (Some (d\<lparr>tc_governanceArgs := Some (case tc_governanceArgs d of Some g \<Rightarrow> g | None \<Rightarrow> args)\<rparr>)))))"

end
