(* ===== verification/FF_Pipeline.thy ===== *)
theory FF_Pipeline
  imports FF_Registry
begin

text \<open>
  \<^verbatim>\<open>src/tools/registry.ts\<close>, second half: the governance pipeline every tool call passes, and the entry points
  \<^verbatim>\<open>call\<close>, \<^verbatim>\<open>callAgent\<close> and \<^verbatim>\<open>callDynamic\<close>.

  \<open>server_state\<close> joins the states of the components the pipeline drives: mission control with the policy
  engine and its approval queue, the audit log, the rate limiter, the capsules, and the inventory of active
  calls.  \<open>GovernanceRuntime\<close> holds what does not change during a call.  The clock and the random identifiers
  are read in sequence (\<open>sv_reads\<close>, \<open>sv_draws\<close>).  A handler runs on the whole server state, which also stands
  for the calls that are served while the pipeline awaits it.
\<close>

section \<open>State\<close>

record ActiveToolCall =
  at_id :: string
  at_tool :: string
  at_group :: string
  at_risk :: risk_level
  at_mutates :: bool
  at_principalId :: string
  at_role :: principal_role
  at_projectRoot :: string
  at_startedAt :: int
  at_argKeys :: "string list"
  at_sessionId :: "string option"
  at_clientId :: "string option"
  at_capsuleId :: "string option"
  at_taskId :: "string option"
  at_containmentAction :: bool

record server_state =
  sv_mission :: mission_state
  sv_audit :: audit_log
  sv_rate :: buckets
  sv_capsules :: capsule_manager
  sv_activeCalls :: "(string \<times> ActiveToolCall) list"
  sv_reads :: nat
  sv_draws :: nat

record GovernanceRuntime =
  gr_policy :: engine_config
  gr_auditPort :: audit_port
  gr_auditConfig :: AuditConfig
  gr_rateConfig :: RateLimitConfig
  gr_capsules :: "capsule_env option"
  gr_hasMission :: bool
  gr_projectRoot :: string
  gr_redact :: "jval \<Rightarrow> jval"
  gr_now :: "nat \<Rightarrow> int"
  gr_uuid :: "nat \<Rightarrow> string"

record ToolCallControl =
  ctl_principal :: "tool_principal option"
  ctl_operationId :: "string option"
  ctl_aborted :: bool

record descriptor =
  ds_name :: string
  ds_group :: "string option"
  ds_risk :: risk_level
  ds_mutates :: bool
  ds_handler :: "server_state handler"

section \<open>Summaries\<close>

definition SENSITIVE_ACTIVE_ARG_KEY :: regex where
  "SENSITIVE_ACTIVE_ARG_KEY = ignore_case (RAlts (map RLit
     [''secret'', ''token'', ''password'', ''authorization'', ''cookie'', ''credential''] @
     [RSeqs [RLit ''api'', ROpt RDot, RLit ''key'']]))"

definition STANDARD_KEY :: regex where
  "STANDARD_KEY = whole (RBetween 1 128 (RIn (AZ @ az @ d09 @ ''_.-'')))"

definition activeArgKey :: "string \<Rightarrow> string" where
  "activeArgKey key =
     (if re_test SENSITIVE_ACTIVE_ARG_KEY key then ''[sensitive-key]''
      else if \<not> re_test STANDARD_KEY key then ''[nonstandard-key]''
      else key)"

definition auth_text :: "auth_mode \<Rightarrow> string" where
  "auth_text a = (case a of AuthNone \<Rightarrow> ''none'' | AuthToken \<Rightarrow> ''token'' | AuthOauth \<Rightarrow> ''oauth'' | AuthStdio \<Rightarrow> ''stdio'')"

definition principalAuditDetail :: "tool_principal \<Rightarrow> jobject" where
  "principalAuditDetail p =
     [(''requesterId'', JStr (p_id p)), (''role'', JStr (role_text (p_role p))),
      (''roles'', JArr (map JStr (case p_roles p of Some rs \<Rightarrow> rs | None \<Rightarrow> [role_text (p_role p)]))),
      (''authMode'', JStr (case p_authMode p of Some a \<Rightarrow> auth_text a | None \<Rightarrow> ''none''))] @
     opt_entry ''organizationId'' (truthy (p_organizationId p)) @
     (case p_teamIds p of Some (t # ts) \<Rightarrow> [(''teamIds'', JArr (map JStr (t # ts)))] | _ \<Rightarrow> []) @
     opt_entry ''projectId'' (truthy (p_projectId p)) @ opt_entry ''sessionId'' (truthy (p_sessionId p)) @
     opt_entry ''oauthClientId'' (truthy (p_oauthClientId p)) @ opt_entry ''capsuleId'' (truthy (p_capsuleId p)) @
     opt_entry ''taskId'' (truthy (p_taskId p))"

fun boundSummaryValue :: "nat \<Rightarrow> jval \<Rightarrow> jval" where
  "boundSummaryValue 0 v = JStr ''[TRUNCATED]''"
| "boundSummaryValue (Suc n) (JStr s) = JStr (take 256 s)"
| "boundSummaryValue (Suc n) (JArr vs) = JArr (map (boundSummaryValue n) (take 4 vs))"
| "boundSummaryValue (Suc n) (JObj kvs) = JObj (map (\<lambda>(k, v). (k, boundSummaryValue n v)) (take 8 kvs))"
| "boundSummaryValue (Suc n) v = v"

text \<open>\<open>boundSummaryValue n v\<close> is the call at depth \<open>3 - n\<close>.\<close>

definition index_of :: "jval \<Rightarrow> string \<Rightarrow> jval" where
  "index_of v k = (case v of JObj kvs \<Rightarrow> jget kvs k | _ \<Rightarrow> JUndef)"

definition summarizeArgs :: "string \<Rightarrow> jobject \<Rightarrow> (jval \<Rightarrow> jval) \<Rightarrow> string" where
  "summarizeArgs name args redact =
     (if args = [] then name
      else let preview = JObj (map (\<lambda>(k, v). (k, boundSummaryValue 3 v)) (take 4 args));
               safeArgs = redact preview
           in join_with '' '' (map (\<lambda>(k, _).
                let v = index_of safeArgs k;
                    serialized = (case v of JStr s \<Rightarrow> s | _ \<Rightarrow> template (stringify v))
                in k @ ''='' @ take 60 serialized) (take 4 args)))"

definition error_message :: "ff_error \<Rightarrow> string" where
  "error_message e =
     (case e of
        PolicyDeniedError m \<Rightarrow> m
      | ApprovalRequiredError m i \<Rightarrow> m
      | PathEscapeError m \<Rightarrow> m
      | ApprovalExpired i \<Rightarrow> ''Approval '' @ i @ '' expired''
      | ApprovalSelf i \<Rightarrow> ''Approval '' @ i @ '' cannot be resolved by its requester''
      | StoreError m \<Rightarrow> m
      | RegExpSyntaxError \<Rightarrow> ''Invalid regular expression''
      | AuditUnavailable \<Rightarrow> ''Required audit storage is unavailable. Check free space, permissions, and JSONL integrity for .folderforge/audit.''
      | PlainError m \<Rightarrow> m)"

definition tool_error_text :: "ff_error \<Rightarrow> string" where
  "tool_error_text e =
     (case e of
        ApprovalRequiredError m i \<Rightarrow> ''Approval required: '' @ m @ '' (id='' @ i @ '')''
      | PolicyDeniedError m \<Rightarrow> ''Denied: '' @ m
      | _ \<Rightarrow> error_message e)"

section \<open>Steps of the pipeline\<close>

definition nowG :: "GovernanceRuntime \<Rightarrow> (server_state, int) act" where
  "nowG g s = (Inr (gr_now g (sv_reads s)), s\<lparr>sv_reads := Suc (sv_reads s)\<rparr>)"

definition short_uuid :: "GovernanceRuntime \<Rightarrow> string \<Rightarrow> nat \<Rightarrow> (server_state, string) act" where
  "short_uuid g pre n s =
     (Inr (pre @ take n (filter (\<lambda>c. c \<noteq> CHR ''-'') (gr_uuid g (sv_draws s)))), s\<lparr>sv_draws := Suc (sv_draws s)\<rparr>)"

definition operation_id :: "GovernanceRuntime \<Rightarrow> bool \<Rightarrow> ToolCallControl option \<Rightarrow> (server_state, string option) act" where
  "operation_id g mutates control =
     (if \<not> mutates then retA None
      else case Option.bind control ctl_operationId of
          Some i \<Rightarrow> retA (Some i)
        | None \<Rightarrow> bindA (short_uuid g ''op_'' 24) (\<lambda>i. retA (Some i)))"

definition finish :: "bool \<Rightarrow> string option \<Rightarrow> ToolResult \<Rightarrow> Execution \<Rightarrow> ToolResult" where
  "finish mutates opId result execution =
     (if mutates then result\<lparr>tr_operationId := opId, tr_execution := Some execution\<rparr> else result)"

definition fail_result :: "string \<Rightarrow> ToolResult" where
  "fail_result msg = \<lparr>tr_ok = False, tr_operationId = None, tr_execution = None, tr_data = JUndef, tr_error = Some msg,
     tr_diff = None, tr_approvalId = None, tr_content = JUndef\<rparr>"

definition on_audit :: "(audit_log, 'a) act \<Rightarrow> (server_state, 'a) act" where
  "on_audit m s = (case m (sv_audit s) of (r, l) \<Rightarrow> (r, s\<lparr>sv_audit := l\<rparr>))"

definition on_engine :: "(engine_state, 'a) act \<Rightarrow> (server_state, 'a) act" where
  "on_engine m s = (case m (ms_engine (sv_mission s)) of
     (r, e) \<Rightarrow> (r, s\<lparr>sv_mission := (sv_mission s)\<lparr>ms_engine := e\<rparr>\<rparr>))"

definition on_capsules :: "(capsule_manager, 'a) act \<Rightarrow> (server_state, 'a) act" where
  "on_capsules m s = (case m (sv_capsules s) of (r, c) \<Rightarrow> (r, s\<lparr>sv_capsules := c\<rparr>))"

definition rate_hit :: "GovernanceRuntime \<Rightarrow> string \<Rightarrow> (server_state, RateDecision) act" where
  "rate_hit g name = bindA (nowG g) (\<lambda>t s.
     case rl_hit (gr_rateConfig g) name t (sv_rate s) of (d, bs) \<Rightarrow> (Inr d, s\<lparr>sv_rate := bs\<rparr>))"

text \<open>What the steps of one call share.\<close>

record call_info =
  ki_name :: string
  ki_group :: "string option"
  ki_risk :: risk_level
  ki_mutates :: bool
  ki_args :: jobject
  ki_operationId :: "string option"
  ki_principal :: tool_principal
  ki_capsule :: CapsuleDecision
  ki_bypass :: bool
  ki_started :: int

definition decision_capsule :: "CapsuleDecision \<Rightarrow> WorkspaceCapsule option" where
  "decision_capsule d = (case d of CapAllow c \<Rightarrow> c | CapDeny c _ \<Rightarrow> c)"

definition approval_principal :: "tool_principal \<Rightarrow> CapsuleDecision \<Rightarrow> tool_principal" where
  "approval_principal p d =
     (case decision_capsule d of
        None \<Rightarrow> p
      | Some c \<Rightarrow> p\<lparr>p_capsuleId := Some (wc_id c),
                    p_taskId := (case truthy (wc_taskId c) of Some t \<Rightarrow> Some t | None \<Rightarrow> p_taskId p)\<rparr>)"

definition identityDetail :: "call_info \<Rightarrow> jobject" where
  "identityDetail k = principalAuditDetail (approval_principal (ki_principal k) (ki_capsule k)) @
     opt_entry ''operationId'' (truthy (ki_operationId k)) @
     (if ki_bypass k then [(''containmentAction'', JBool True)] else [])"

definition audit_required :: "GovernanceRuntime \<Rightarrow> call_info \<Rightarrow> bool" where
  "audit_required g k = requiresDurability (gr_auditConfig g) (Some (ki_risk k)) (Some (ki_principal k))"

definition recordAudit :: "GovernanceRuntime \<Rightarrow> call_info \<Rightarrow> AuditEventType \<Rightarrow> bool option \<Rightarrow> int option \<Rightarrow> string \<Rightarrow>
    jobject \<Rightarrow> (server_state, unit) act" where
  "recordAudit g k type ok duration summary detail =
     bindA (on_audit (al_record (gr_auditPort g) (gr_auditConfig g)
       \<lparr>ev_ts = [], ev_type = type, ev_tool = Some (ki_name k), ev_risk = Some (ki_risk k), ev_ok = ok,
        ev_durationMs = duration, ev_summary = Some summary, ev_detail = Some detail\<rparr>
       (Some (audit_required g k)))) (\<lambda>_. retA ())"

definition capsule_decision :: "GovernanceRuntime \<Rightarrow> tool_principal \<Rightarrow> capsule_call \<Rightarrow> (server_state, CapsuleDecision) act" where
  "capsule_decision g p call =
     (case gr_capsules g of
        None \<Rightarrow> retA (CapAllow None)
      | Some env \<Rightarrow> bindA (nowG g) (\<lambda>t s. (cm_check env t p (gr_projectRoot g) call (sv_capsules s), s)))"

definition active_call :: "GovernanceRuntime \<Rightarrow> string \<Rightarrow> call_info \<Rightarrow> ActiveToolCall" where
  "active_call g callId k =
     \<lparr>at_id = callId, at_tool = ki_name k, at_group = (case ki_group k of Some x \<Rightarrow> x | None \<Rightarrow> ''dynamic''),
      at_risk = ki_risk k, at_mutates = ki_mutates k, at_principalId = p_id (ki_principal k),
      at_role = p_role (ki_principal k), at_projectRoot = gr_projectRoot g, at_startedAt = ki_started k,
      at_argKeys = map (\<lambda>(key, _). activeArgKey key) (take 32 (ki_args k)),
      at_sessionId = truthy (p_sessionId (ki_principal k)), at_clientId = truthy (p_oauthClientId (ki_principal k)),
      at_capsuleId = map_option wc_id (decision_capsule (ki_capsule k)),
      at_taskId = truthy (p_taskId (approval_principal (ki_principal k) (ki_capsule k))),
      at_containmentAction = ki_bypass k\<rparr>"

definition ceil_div :: "int \<Rightarrow> int \<Rightarrow> int" where
  "ceil_div a b = - ((- a) div b)"

text \<open>From the first audit event to the rate limit: \<open>None\<close> lets the handler run, \<open>Some\<close> ends the call.\<close>

definition gate :: "GovernanceRuntime \<Rightarrow> call_info \<Rightarrow> (server_state, ToolResult option) act" where
  "gate g k =
     bindA (recordAudit g k EvToolCall None None (summarizeArgs (ki_name k) (ki_args k) (gr_redact g)) (identityDetail k)) (\<lambda>_.
     case ki_capsule k of
       CapDeny _ why \<Rightarrow>
         let reason = ''Workspace Capsule denied the call: '' @ why
         in bindA (recordAudit g k EvPolicyDeny None None reason (identityDetail k)) (\<lambda>_.
            retA (Some (fail_result (''Denied: '' @ reason))))
     | CapAllow _ \<Rightarrow>
         bindA (on_engine (evaluate (gr_policy g) (ki_name k) (ki_risk k) (ki_mutates k) (ki_args k)
                  (ByPrincipal (approval_principal (ki_principal k) (ki_capsule k))) (ki_bypass k))) (\<lambda>decision.
         case decision of
           Deny _ reason \<Rightarrow>
             bindA (recordAudit g k EvPolicyDeny None None reason (identityDetail k)) (\<lambda>_.
             retA (Some (fail_result (''Denied: '' @ reason))))
         | NeedsApproval _ approvalId reason \<Rightarrow>
             bindA (recordAudit g k EvApprovalRequest None None reason
                      (identityDetail k @ [(''approvalId'', JStr approvalId)])) (\<lambda>_.
             retA (Some ((fail_result (''Approval required ('' @ risk_text (ki_risk k) @
                 ''). Resolve in the dashboard admin plane. id='' @ approvalId))\<lparr>tr_approvalId := Some approvalId\<rparr>)))
         | Allow _ \<Rightarrow>
             bindA (rate_hit g (ki_name k)) (\<lambda>rl.
             if rd_allowed rl then retA None
             else let retry = (case rd_retryAfterMs rl of Some t \<Rightarrow> t | None \<Rightarrow> 0);
                      reason = (case rd_reason rl of Some r \<Rightarrow> r | None \<Rightarrow> ''rate limited'')
                  in bindA (recordAudit g k EvRateLimited None None reason
                       (identityDetail k @
                        [(''retryAfterMs'', case rd_retryAfterMs rl of Some t \<Rightarrow> JNum t | None \<Rightarrow> JUndef),
                         (''windowCount'', JNum (int (rd_windowCount rl))), (''dailyCount'', JNum (int (rd_dailyCount rl)))])) (\<lambda>_.
                     retA (Some (fail_result (template (rd_reason rl) @ '' Retry in ~'' @ show_int (ceil_div retry 1000) @ ''s.'')))))))"

text \<open>The two catch clauses; \<open>started\<close> is the value of \<^verbatim>\<open>executionStarted\<close>.\<close>

definition inner_catch :: "GovernanceRuntime \<Rightarrow> call_info \<Rightarrow> ff_error \<Rightarrow> (server_state, ToolResult) act" where
  "inner_catch g k err =
     (if err = AuditUnavailable then throwA err
      else bindA (nowG g) (\<lambda>t.
           bindA (recordAudit g k EvToolError (Some False) (Some (t - ki_started k)) (tool_error_text err) (identityDetail k)) (\<lambda>_.
           retA (finish (ki_mutates k) (ki_operationId k) (fail_result (tool_error_text err)) ExecFailed))))"

definition uncertain_text :: string where
  "uncertain_text = ''AUDIT_OUTCOME_UNCERTAIN: Tool execution completed or may have partially completed, but terminal audit evidence could not be persisted. Do not retry automatically.''"

definition outer_catch :: "call_info \<Rightarrow> bool \<Rightarrow> ToolResult result \<times> server_state \<Rightarrow> ToolResult result \<times> server_state" where
  "outer_catch k started out =
     (case out of
        (Inl err, s) \<Rightarrow>
          if err \<noteq> AuditUnavailable then (Inl err, s)
          else if started then
            (Inr (finish (ki_mutates k) (ki_operationId k) (fail_result uncertain_text) OutcomeUncertain), s)
          else (Inr (finish (ki_mutates k) (ki_operationId k)
                  (fail_result (''AUDIT_UNAVAILABLE: '' @ error_message err)) NotStarted), s)
      | (Inr res, s) \<Rightarrow> (Inr res, s))"

definition reserve_capsule :: "GovernanceRuntime \<Rightarrow> call_info \<Rightarrow> (server_state, unit) act" where
  "reserve_capsule g k =
     (case (decision_capsule (ki_capsule k), gr_capsules g) of
        (Some c, Some env) \<Rightarrow>
          bindA (nowG g) (\<lambda>t. bindA (on_capsules (cm_reserve env t (wc_id c) (ki_mutates k))) (\<lambda>_. retA ()))
      | _ \<Rightarrow> retA ())"

definition after_handler :: "GovernanceRuntime \<Rightarrow> call_info \<Rightarrow> ToolResult \<Rightarrow> (server_state, ToolResult) act" where
  "after_handler g k result =
     bindA (nowG g) (\<lambda>t.
     bindA (recordAudit g k (if tr_ok result then EvToolResult else EvToolError) (Some (tr_ok result)) (Some (t - ki_started k))
        (if tr_ok result then ''ok'' else case tr_error result of Some e \<Rightarrow> e | None \<Rightarrow> ''error'') (identityDetail k)) (\<lambda>_.
     retA (finish (ki_mutates k) (ki_operationId k) result
       (case tr_execution result of Some e \<Rightarrow> e | None \<Rightarrow> if tr_ok result then Executed else ExecFailed))))"

definition catching :: "(server_state, 'a) act \<Rightarrow> (ff_error \<Rightarrow> server_state \<Rightarrow> 'b \<times> server_state) \<Rightarrow>
    ('a \<Rightarrow> server_state \<Rightarrow> 'b \<times> server_state) \<Rightarrow> server_state \<Rightarrow> 'b \<times> server_state" where
  "catching m onError onValue s = (case m s of (Inl e, s') \<Rightarrow> onError e s' | (Inr x, s') \<Rightarrow> onValue x s')"

definition execute :: "GovernanceRuntime \<Rightarrow> call_info \<Rightarrow> server_state handler \<Rightarrow> jobject \<Rightarrow> (server_state, ToolResult) act" where
  "execute g k handler handlerArgs =
     catching (reserve_capsule g k)
       (\<lambda>e s. outer_catch k False (inner_catch g k e s))
       (\<lambda>_. catching (bindA (handler handlerArgs) (after_handler g k))
          (\<lambda>e s. outer_catch k True (inner_catch g k e s))
          (\<lambda>r s. (Inr r, s)))"

definition drop_active :: "string \<Rightarrow> ToolResult result \<times> server_state \<Rightarrow> ToolResult result \<times> server_state" where
  "drop_active callId out = (fst out, (snd out)\<lparr>sv_activeCalls := AList.delete callId (sv_activeCalls (snd out))\<rparr>)"

definition governed_run :: "GovernanceRuntime \<Rightarrow> call_info \<Rightarrow> server_state handler \<Rightarrow> jobject \<Rightarrow> (server_state, ToolResult) act" where
  "governed_run g k handler handlerArgs =
     catching (gate g k)
       (\<lambda>e s. outer_catch k False (Inl e, s))
       (\<lambda>stop s. case stop of
            Some r \<Rightarrow> (Inr (finish (ki_mutates k) (ki_operationId k) r NotStarted), s)
          | None \<Rightarrow> execute g k handler handlerArgs s)"

definition default_principal :: tool_principal where
  "default_principal = bare_principal ''agent:unknown'' RoleAgent"

definition control_principal :: "ToolCallControl option \<Rightarrow> tool_principal" where
  "control_principal control = (case Option.bind control ctl_principal of Some p \<Rightarrow> p | None \<Rightarrow> default_principal)"

definition runPipeline :: "GovernanceRuntime \<Rightarrow> descriptor \<Rightarrow> jobject \<Rightarrow> ToolCallControl option \<Rightarrow> jobject \<Rightarrow>
    (server_state, ToolResult) act" where
  "runPipeline g d governanceArgs control handlerArgs =
     bindA (nowG g) (\<lambda>started.
     bindA (operation_id g (ds_mutates d) control) (\<lambda>opId.
     let p = control_principal control in
     if (case control of Some c \<Rightarrow> ctl_aborted c | None \<Rightarrow> False) then
       retA (finish (ds_mutates d) opId (fail_result ''Tool call cancelled before execution.'') NotStarted)
     else
       bindA (capsule_decision g p \<lparr>kc_name = ds_name d, kc_group = Some (case ds_group d of Some x \<Rightarrow> x | None \<Rightarrow> ''dynamic''),
                kc_risk = ds_risk d, kc_mutates = ds_mutates d, kc_args = governanceArgs\<rparr>) (\<lambda>cap.
       bindA (getsA (\<lambda>s. gr_hasMission g \<and> allowsContainmentAction (ds_name d) (approval_principal p cap) (sv_mission s))) (\<lambda>bypass.
       bindA (case opId of Some i \<Rightarrow> retA i | None \<Rightarrow> short_uuid g ''call_'' 20) (\<lambda>callId.
       let k = \<lparr>ki_name = ds_name d, ki_group = ds_group d, ki_risk = ds_risk d, ki_mutates = ds_mutates d,
                ki_args = governanceArgs, ki_operationId = opId, ki_principal = p, ki_capsule = cap,
                ki_bypass = bypass, ki_started = started\<rparr>
       in bindA (modifyA (\<lambda>s. s\<lparr>sv_activeCalls := AList.update callId (active_call g callId k) (sv_activeCalls s)\<rparr>)) (\<lambda>_ s.
          drop_active callId (governed_run g k (ds_handler d) handlerArgs s)))))))"

section \<open>Entry points\<close>

definition callDynamic :: "GovernanceRuntime \<Rightarrow> descriptor \<Rightarrow> jobject \<Rightarrow> ToolCallControl option \<Rightarrow> (server_state, ToolResult) act" where
  "callDynamic g d rawArgs control = runPipeline g d rawArgs control rawArgs"

text \<open>The scope check of an OAuth principal: the error text, or nothing.\<close>

definition scope_error :: "tool_principal option \<Rightarrow> bool \<Rightarrow> string option" where
  "scope_error principal' mutates =
     (case principal' of
        None \<Rightarrow> None
      | Some p \<Rightarrow>
          if p_authMode p \<noteq> Some AuthOauth then None
          else let requiredScopes = (if mutates then [p_readScope p, p_writeScope p] else [p_readScope p]);
                   presentScopes = List.map_filter truthy requiredScopes
               in if length presentScopes \<noteq> length requiredScopes
                  then Some ''OAuth principal is missing scope policy context''
                  else let missing = filter (\<lambda>x. x \<notin> set (case p_scopes p of Some ss \<Rightarrow> ss | None \<Rightarrow> [])) presentScopes
                       in if missing \<noteq> []
                          then Some (''OAuth scope required before tool execution: '' @ join_with '' '' missing)
                          else None)"

definition command_classify :: "GovernanceRuntime \<Rightarrow> string \<Rightarrow> CommandClassification" where
  "command_classify g = classify (ec_cwd (gr_policy g)) (ec_tmpdir (gr_policy g)) (ec_blockedCommands (gr_policy g))"

definition call :: "GovernanceRuntime \<Rightarrow> server_state tool_registry \<Rightarrow> string \<Rightarrow> jobject \<Rightarrow> ToolCallControl option \<Rightarrow>
    (server_state, ToolResult) act" where
  "call g r name args control s =
     (case get_tool name r of
        None \<Rightarrow> (Inr (fail_result (''Unknown tool: '' @ name)), s)
      | Some tool \<Rightarrow>
          let p = Option.bind control ctl_principal in
          if td_audience tool = AudAdmin \<and> map_option p_role p \<noteq> Some RoleAdmin
          then (Inr (fail_result (''Admin-only tool: '' @ name)), s)
          else case classifyCall (command_classify g) r name args of
            Inl e \<Rightarrow> (Inl e, s)
          | Inr None \<Rightarrow> (Inr (fail_result (''Unknown tool: '' @ name)), s)
          | Inr (Some c) \<Rightarrow>
              (case scope_error p (tc_mutates c) of
                 Some msg \<Rightarrow> (Inr (fail_result msg), s)
               | None \<Rightarrow>
                   runPipeline g \<lparr>ds_name = tc_name c, ds_group = Some (td_group tool), ds_risk = tc_risk c,
                                  ds_mutates = tc_mutates c, ds_handler = td_handler tool\<rparr>
                     (case tc_governanceArgs c of Some a \<Rightarrow> a | None \<Rightarrow> args) control args s))"

definition callAgent :: "GovernanceRuntime \<Rightarrow> server_state tool_registry \<Rightarrow> string \<Rightarrow> jobject \<Rightarrow> ToolCallControl option \<Rightarrow>
    (server_state, ToolResult) act" where
  "callAgent g r name args control =
     (let p = (control_principal control)\<lparr>p_role := RoleAgent\<rparr>
      in call g r name args (Some (case control of
           Some c \<Rightarrow> c\<lparr>ctl_principal := Some p\<rparr>
         | None \<Rightarrow> \<lparr>ctl_principal = Some p, ctl_operationId = None, ctl_aborted = False\<rparr>)))"

definition listActiveCalls :: "server_state \<Rightarrow> ActiveToolCall list" where
  "listActiveCalls s = sort_by (\<lambda>l r. at_startedAt l \<le> at_startedAt r) (map snd (sv_activeCalls s))"


section \<open>Lemmas\<close>

lemma nowG_eq: "nowG g s = (Inr (gr_now g (sv_reads s)), s\<lparr>sv_reads := Suc (sv_reads s)\<rparr>)"
  by (simp add: nowG_def)

lemma recordAudit_cases:
  fixes g k ty ok du su de s
  obtains (stored) e l where
      "recordAudit g k ty ok du su de s = (Inr (), s\<lparr>sv_audit := l\<rparr>)" "al_stored l = al_stored (sv_audit s) @ [e]"
      "ev_tool e = Some (ki_name k)" "ev_type e = ty" "ev_ok e = ok" "au_append (gr_auditPort g) (al_calls (sv_audit s))"
  | (lost) l where "recordAudit g k ty ok du su de s = (Inl AuditUnavailable, s\<lparr>sv_audit := l\<rparr>)"
      "al_stored l = al_stored (sv_audit s)" "audit_required g k" "\<not> au_append (gr_auditPort g) (al_calls (sv_audit s))"
  | (unstored) l where "recordAudit g k ty ok du su de s = (Inr (), s\<lparr>sv_audit := l\<rparr>)" "\<not> audit_required g k"
  by (rule al_record_cases [of "gr_auditPort g" "sv_audit s" "gr_auditConfig g"
        "\<lparr>ev_ts = [], ev_type = ty, ev_tool = Some (ki_name k), ev_risk = Some (ki_risk k), ev_ok = ok,
          ev_durationMs = du, ev_summary = Some su, ev_detail = Some de\<rparr>" "Some (audit_required g k)"])
    (auto simp: recordAudit_def on_audit_def bindA_def retA_def)

lemma gate_None:
  assumes "gate g k s = (Inr None, s')"
  obtains c r e rl l t where "ki_capsule k = CapAllow c"
    "evaluate (gr_policy g) (ki_name k) (ki_risk k) (ki_mutates k) (ki_args k)
       (ByPrincipal (approval_principal (ki_principal k) (ki_capsule k))) (ki_bypass k) (ms_engine (sv_mission s)) = (Inr (Allow r), e)"
    "rl_hit (gr_rateConfig g) (ki_name k) t (sv_rate s) = (rl, sv_rate s')" "rd_allowed rl"
    "audit_required g k \<longrightarrow> au_append (gr_auditPort g) (al_calls (sv_audit s))"
    "sv_activeCalls s' = sv_activeCalls s"
proof -
  from assms obtain s1 where s1: "recordAudit g k EvToolCall None None (summarizeArgs (ki_name k) (ki_args k) (gr_redact g)) (identityDetail k) s = (Inr (), s1)"
    unfolding gate_def by (rule bindA_InrE) simp
  obtain l where l: "s1 = s\<lparr>sv_audit := l\<rparr>" "audit_required g k \<longrightarrow> au_append (gr_auditPort g) (al_calls (sv_audit s))"
    using s1 by (cases rule: recordAudit_cases [of g k EvToolCall None None "summarizeArgs (ki_name k) (ki_args k) (gr_redact g)" "identityDetail k" s]) auto
  show thesis
  proof (cases "ki_capsule k")
    case (CapDeny c why)
    with assms s1 show thesis
      by (auto simp: gate_def bindA_Inr Let_def retA_def elim!: bindA_InrE)
  next
    case (CapAllow c)
    let ?ev = "on_engine (evaluate (gr_policy g) (ki_name k) (ki_risk k) (ki_mutates k) (ki_args k)
                  (ByPrincipal (approval_principal (ki_principal k) (ki_capsule k))) (ki_bypass k)) s1"
    from assms s1 CapAllow obtain d s2 where ev: "?ev = (Inr d, s2)"
      by (auto simp: gate_def bindA_Inr elim!: bindA_InrE)
    show thesis
    proof (cases d)
      case (Allow r)
      from assms s1 CapAllow ev Allow obtain rl where rl: "rate_hit g (ki_name k) s2 = (Inr rl, s')" "rd_allowed rl"
        by (auto simp: gate_def bindA_Inr Let_def retA_def split: if_splits elim!: bindA_InrE)
      have "evaluate (gr_policy g) (ki_name k) (ki_risk k) (ki_mutates k) (ki_args k)
         (ByPrincipal (approval_principal (ki_principal k) (ki_capsule k))) (ki_bypass k) (ms_engine (sv_mission s)) =
         (Inr (Allow r), ms_engine (sv_mission s2))" "sv_rate s2 = sv_rate s" "sv_activeCalls s2 = sv_activeCalls s"
        using ev Allow l(1) by (auto simp: on_engine_def split: prod.splits)
      moreover obtain t where "rl_hit (gr_rateConfig g) (ki_name k) t (sv_rate s2) = (rl, sv_rate s')"
        "sv_activeCalls s' = sv_activeCalls s2"
        using rl(1) by (auto simp: rate_hit_def bindA_def nowG_def split: prod.splits)
      ultimately show thesis using that CapAllow rl(2) l(2) by metis
    next
      case (Deny r why)
      with assms s1 CapAllow ev show thesis
        by (auto simp: gate_def bindA_Inr Let_def retA_def elim!: bindA_InrE)
    next
      case (NeedsApproval r i why)
      with assms s1 CapAllow ev show thesis
        by (auto simp: gate_def bindA_Inr Let_def retA_def elim!: bindA_InrE)
    qed
  qed
qed


definition is_aborted :: "ToolCallControl option \<Rightarrow> bool" where
  "is_aborted control = (case control of Some c \<Rightarrow> ctl_aborted c | None \<Rightarrow> False)"

definition capsule_call_of :: "descriptor \<Rightarrow> jobject \<Rightarrow> capsule_call" where
  "capsule_call_of d args = \<lparr>kc_name = ds_name d, kc_group = Some (case ds_group d of Some x \<Rightarrow> x | None \<Rightarrow> ''dynamic''),
     kc_risk = ds_risk d, kc_mutates = ds_mutates d, kc_args = args\<rparr>"

text \<open>The components the pipeline drives; the clock and the random numbers are not among them.\<close>

definition same_parts :: "server_state \<Rightarrow> server_state \<Rightarrow> bool" where
  "same_parts s t \<longleftrightarrow> sv_mission t = sv_mission s \<and> sv_audit t = sv_audit s \<and> sv_rate t = sv_rate s \<and> sv_capsules t = sv_capsules s"

text \<open>How the pipeline starts: it ends before the governed part without looking at the handler, or it enters
  the governed part with the components as they were.\<close>

lemma runPipeline_cases:
  fixes g d ga control ha s
  obtains (early) r s' where "\<And>h. runPipeline g (d\<lparr>ds_handler := h\<rparr>) ga control ha s = (r, s')"
      "same_parts s s'" "sv_activeCalls s' = sv_activeCalls s"
      "\<And>res. r = Inr res \<Longrightarrow> ds_mutates d \<Longrightarrow> tr_execution res = Some NotStarted"
  | (run) callId k s1 where "\<And>h. runPipeline g (d\<lparr>ds_handler := h\<rparr>) ga control ha s = drop_active callId (governed_run g k h ha s1)"
      "ki_name k = ds_name d" "ki_risk k = ds_risk d" "ki_mutates k = ds_mutates d" "ki_args k = ga"
      "ki_principal k = control_principal control" "same_parts s s1" "\<not> is_aborted control"
      "sv_activeCalls s1 = AList.update callId (active_call g callId k) (sv_activeCalls s)"
      "case gr_capsules g of None \<Rightarrow> ki_capsule k = CapAllow None
       | Some env \<Rightarrow> \<exists>t. cm_check env t (control_principal control) (gr_projectRoot g) (capsule_call_of d ga) (sv_capsules s) = Inr (ki_capsule k)"
      "ki_bypass k \<longleftrightarrow> gr_hasMission g \<and>
         allowsContainmentAction (ds_name d) (approval_principal (control_principal control) (ki_capsule k)) (sv_mission s)"
proof -
  let ?s1 = "s\<lparr>sv_reads := Suc (sv_reads s)\<rparr>"
  obtain opId s2 where op: "operation_id g (ds_mutates d) control ?s1 = (Inr opId, s2)" "same_parts s s2" "sv_activeCalls s2 = sv_activeCalls s"
  proof -
    have "\<exists>opId s2. operation_id g (ds_mutates d) control ?s1 = (Inr opId, s2) \<and> same_parts s s2 \<and> sv_activeCalls s2 = sv_activeCalls s"
      by (cases "ds_mutates d"; cases "Option.bind control ctl_operationId")
        (auto simp: operation_id_def retA_def bindA_def short_uuid_def same_parts_def)
    then show thesis using that by blast
  qed
  have start: "runPipeline g (d\<lparr>ds_handler := h\<rparr>) ga control ha s =
      (if is_aborted control then
         retA (finish (ds_mutates d) opId (fail_result ''Tool call cancelled before execution.'') NotStarted) s2
       else
         bindA (capsule_decision g (control_principal control) (capsule_call_of d ga)) (\<lambda>cap.
         bindA (getsA (\<lambda>s. gr_hasMission g \<and> allowsContainmentAction (ds_name d) (approval_principal (control_principal control) cap) (sv_mission s))) (\<lambda>bypass.
         bindA (case opId of Some i \<Rightarrow> retA i | None \<Rightarrow> short_uuid g ''call_'' 20) (\<lambda>callId.
         let k = \<lparr>ki_name = ds_name d, ki_group = ds_group d, ki_risk = ds_risk d, ki_mutates = ds_mutates d,
                  ki_args = ga, ki_operationId = opId, ki_principal = control_principal control, ki_capsule = cap,
                  ki_bypass = bypass, ki_started = gr_now g (sv_reads s)\<rparr>
         in bindA (modifyA (\<lambda>s. s\<lparr>sv_activeCalls := AList.update callId (active_call g callId k) (sv_activeCalls s)\<rparr>)) (\<lambda>_ s.
            drop_active callId (governed_run g k h ha s))))) s2)" for h
    using op(1) by (simp add: runPipeline_def bindA_Inr [OF nowG_eq] bindA_Inr Let_def is_aborted_def capsule_call_of_def)
  show thesis
  proof (cases "is_aborted control")
    case True
    with start op(2,3) show thesis
      by (intro early [of "Inr (finish (ds_mutates d) opId (fail_result ''Tool call cancelled before execution.'') NotStarted)" s2])
        (auto simp: retA_def finish_def)
  next
    case False
    obtain s3 where s3: "same_parts s s3" "sv_activeCalls s3 = sv_activeCalls s" and
      cd: "(\<exists>e. capsule_decision g (control_principal control) (capsule_call_of d ga) s2 = (Inl e, s3)) \<or>
           (\<exists>cap. capsule_decision g (control_principal control) (capsule_call_of d ga) s2 = (Inr cap, s3) \<and>
             (case gr_capsules g of None \<Rightarrow> cap = CapAllow None
              | Some env \<Rightarrow> \<exists>t. cm_check env t (control_principal control) (gr_projectRoot g) (capsule_call_of d ga) (sv_capsules s) = Inr cap))"
    proof (cases "gr_capsules g")
      case None
      with op(2,3) show ?thesis by (intro that [of s2]) (auto simp: capsule_decision_def retA_def)
    next
      case (Some env)
      let ?t = "gr_now g (sv_reads s2)" and ?s = "s2\<lparr>sv_reads := Suc (sv_reads s2)\<rparr>"
      have "capsule_decision g (control_principal control) (capsule_call_of d ga) s2 =
          (cm_check env ?t (control_principal control) (gr_projectRoot g) (capsule_call_of d ga) (sv_capsules s), ?s)"
        using Some op(2) by (simp add: capsule_decision_def bindA_Inr [OF nowG_eq] same_parts_def)
      with Some op(2,3) show ?thesis
        by (intro that [of ?s]) (cases "cm_check env ?t (control_principal control) (gr_projectRoot g) (capsule_call_of d ga) (sv_capsules s)";
          auto simp: same_parts_def)+
    qed
    from cd show thesis
    proof (elim disjE exE conjE)
      fix e assume "capsule_decision g (control_principal control) (capsule_call_of d ga) s2 = (Inl e, s3)"
      with start False s3 show thesis by (intro early [of "Inl e" s3]) (simp_all add: bindA_Inl)
    next
      fix cap assume cap: "capsule_decision g (control_principal control) (capsule_call_of d ga) s2 = (Inr cap, s3)"
        "case gr_capsules g of None \<Rightarrow> cap = CapAllow None
         | Some env \<Rightarrow> \<exists>t. cm_check env t (control_principal control) (gr_projectRoot g) (capsule_call_of d ga) (sv_capsules s) = Inr cap"
      obtain callId s4 where id: "(case opId of Some i \<Rightarrow> retA i | None \<Rightarrow> short_uuid g ''call_'' 20) s3 = (Inr callId, s4)"
        "same_parts s s4" "sv_activeCalls s4 = sv_activeCalls s"
        using s3 by (cases opId) (auto simp: retA_def short_uuid_def same_parts_def)
      let ?b = "gr_hasMission g \<and> allowsContainmentAction (ds_name d) (approval_principal (control_principal control) cap) (sv_mission s3)"
      let ?k = "\<lparr>ki_name = ds_name d, ki_group = ds_group d, ki_risk = ds_risk d, ki_mutates = ds_mutates d,
                  ki_args = ga, ki_operationId = opId, ki_principal = control_principal control, ki_capsule = cap,
                  ki_bypass = ?b, ki_started = gr_now g (sv_reads s)\<rparr>"
      let ?s5 = "s4\<lparr>sv_activeCalls := AList.update callId (active_call g callId ?k) (sv_activeCalls s4)\<rparr>"
      have "runPipeline g (d\<lparr>ds_handler := h\<rparr>) ga control ha s = drop_active callId (governed_run g ?k h ha ?s5)" for h
        using start [of h] False cap(1) id(1) by (simp add: bindA_Inr bindA_Inr [OF getsA_def] bindA_Inr [OF modifyA_def] Let_def)
      then show thesis
        using cap(2) s3 id(2,3) False by (intro run [of callId ?k ?s5]) (cases "gr_capsules g"; simp add: same_parts_def)+
    qed
  qed
qed

lemma execute_same:
  "(\<And>s'. reserve_capsule g k s \<noteq> (Inr (), s')) \<Longrightarrow> execute g k h1 ha s = execute g k h2 ha s"
  by (cases "reserve_capsule g k s"; cases "fst (reserve_capsule g k s)") (auto simp: execute_def catching_def)

text \<open>The handler matters only when the gate lets the call through and the capsule has room.\<close>

lemma governed_run_same:
  assumes "governed_run g k h1 ha s \<noteq> governed_run g k h2 ha s"
  obtains s1 s2 where "gate g k s = (Inr None, s1)" "reserve_capsule g k s1 = (Inr (), s2)"
proof (cases "gate g k s")
  case (Pair r s1)
  with assms have r: "r = Inr None"
    by (auto simp: governed_run_def catching_def split: sum.splits option.splits)
  with Pair assms have "execute g k h1 ha s1 \<noteq> execute g k h2 ha s1" by (simp add: governed_run_def catching_def)
  with execute_same [of g k s1 h1 ha h2] obtain s2 where "reserve_capsule g k s1 = (Inr (), s2)" by blast
  with Pair r that show thesis by blast
qed

section \<open>Properties\<close>



text \<open>How a call ends once its handler was started.\<close>

lemma started_cases:
  assumes "gate g k s = (Inr None, s1)" "reserve_capsule g k s1 = (Inr (), s2)" "governed_run g k h ha s = (Inr res, s')"
  obtains (returned) r s3 where "h ha s2 = (Inr r, s3)" "after_handler g k r s3 = (Inr res, s')"
  | (failed) e s3 where "inner_catch g k e s3 = (Inr res, s')"
  | (uncertain) "res = finish (ki_mutates k) (ki_operationId k) (fail_result uncertain_text) OutcomeUncertain"
proof -
  let ?m = "bindA (h ha) (after_handler g k)"
  have run: "governed_run g k h ha s = catching ?m (\<lambda>e s. outer_catch k True (inner_catch g k e s)) (\<lambda>r s. (Inr r, s)) s2"
    using assms(1,2) by (simp add: governed_run_def execute_def catching_def)
  show thesis
  proof (cases "?m s2")
    case (Pair r s4)
    show thesis
    proof (cases r)
      case (Inr x)
      with Pair run assms(3) have "?m s2 = (Inr res, s')" by (simp add: catching_def)
      then show thesis by (rule bindA_InrE) (rule returned)
    next
      case (Inl e)
      with Pair run assms(3) have "outer_catch k True (inner_catch g k e s4) = (Inr res, s')" by (simp add: catching_def)
      then show thesis
        using failed [of e s4] uncertain
        by (cases "inner_catch g k e s4"; cases "fst (inner_catch g k e s4)") (auto simp: outer_catch_def split: if_splits)
    qed
  qed
qed

lemma finish_execution [simp]: "tr_execution (finish True opId r ex) = Some ex"
  by (simp add: finish_def)

lemma inner_catch_Inr:
  assumes "inner_catch g k e s = (Inr res, s')"
  shows "res = finish (ki_mutates k) (ki_operationId k) (fail_result (tool_error_text e)) ExecFailed"
    and "audit_required g k \<Longrightarrow> \<exists>es ev. al_stored (sv_audit s') = es @ [ev] \<and> ev_tool ev = Some (ki_name k) \<and> ev_type ev = EvToolError"
proof -
  let ?t = "gr_now g (sv_reads s)" and ?s = "s\<lparr>sv_reads := Suc (sv_reads s)\<rparr>"
  have ne: "e \<noteq> AuditUnavailable" using assms by (auto simp: inner_catch_def throwA_def)
  have *: "bindA (recordAudit g k EvToolError (Some False) (Some (?t - ki_started k)) (tool_error_text e) (identityDetail k)) (\<lambda>_.
      retA (finish (ki_mutates k) (ki_operationId k) (fail_result (tool_error_text e)) ExecFailed)) ?s = (Inr res, s')"
    using assms ne by (simp add: inner_catch_def bindA_Inr [OF nowG_eq])
  show "res = finish (ki_mutates k) (ki_operationId k) (fail_result (tool_error_text e)) ExecFailed"
    using * by (auto simp: retA_def elim!: bindA_InrE)
  show "audit_required g k \<Longrightarrow> \<exists>es ev. al_stored (sv_audit s') = es @ [ev] \<and> ev_tool ev = Some (ki_name k) \<and> ev_type ev = EvToolError"
    using * by (cases rule: recordAudit_cases [of g k EvToolError "Some False" "Some (?t - ki_started k)" "tool_error_text e" "identityDetail k" ?s])
      (auto simp: retA_def bindA_Inr bindA_Inl)
qed

lemma after_handler_Inr:
  assumes "after_handler g k r s = (Inr res, s')"
  shows "res = finish (ki_mutates k) (ki_operationId k) r
       (case tr_execution r of Some e \<Rightarrow> e | None \<Rightarrow> if tr_ok r then Executed else ExecFailed)"
    and "audit_required g k \<Longrightarrow> \<exists>es ev. al_stored (sv_audit s') = es @ [ev] \<and> ev_tool ev = Some (ki_name k) \<and>
       ev_type ev = (if tr_ok r then EvToolResult else EvToolError)"
proof -
  let ?t = "gr_now g (sv_reads s)" and ?s = "s\<lparr>sv_reads := Suc (sv_reads s)\<rparr>"
  let ?su = "if tr_ok r then ''ok'' else case tr_error r of Some e \<Rightarrow> e | None \<Rightarrow> ''error''"
  let ?ty = "if tr_ok r then EvToolResult else EvToolError"
  have *: "bindA (recordAudit g k ?ty (Some (tr_ok r)) (Some (?t - ki_started k)) ?su (identityDetail k)) (\<lambda>_.
      retA (finish (ki_mutates k) (ki_operationId k) r
       (case tr_execution r of Some e \<Rightarrow> e | None \<Rightarrow> if tr_ok r then Executed else ExecFailed))) ?s = (Inr res, s')"
    using assms by (simp only: after_handler_def bindA_Inr [OF nowG_eq])
  then show "res = finish (ki_mutates k) (ki_operationId k) r
       (case tr_execution r of Some e \<Rightarrow> e | None \<Rightarrow> if tr_ok r then Executed else ExecFailed)"
    by (auto simp: retA_def elim!: bindA_InrE)
  show "audit_required g k \<Longrightarrow> \<exists>es ev. al_stored (sv_audit s') = es @ [ev] \<and> ev_tool ev = Some (ki_name k) \<and>
       ev_type ev = ?ty"
    using * by (cases rule: recordAudit_cases [of g k ?ty "Some (tr_ok r)" "Some (?t - ki_started k)" ?su "identityDetail k" ?s])
      (auto simp: retA_def bindA_Inr bindA_Inl)
qed

text \<open>What a call that ends without its handler reports.\<close>

lemma unstarted_report:
  assumes "governed_run g k h ha s = (Inr res, s')" "\<nexists>s1 s2. gate g k s = (Inr None, s1) \<and> reserve_capsule g k s1 = (Inr (), s2)"
    and "ki_mutates k"
  shows "tr_execution res = Some NotStarted \<or>
    (\<exists>s1 s2 e. gate g k s = (Inr None, s1) \<and> reserve_capsule g k s1 = (Inl e, s2) \<and> inner_catch g k e s2 = (Inr res, s'))"
proof (cases "gate g k s")
  case (Pair r s1)
  show ?thesis
  proof (cases r)
    case (Inl e)
    with Pair assms show ?thesis by (auto simp: governed_run_def catching_def outer_catch_def finish_def split: if_splits)
  next
    case (Inr x)
    show ?thesis
    proof (cases x)
      case (Some y)
      with Inr Pair assms show ?thesis by (auto simp: governed_run_def catching_def finish_def)
    next
      case None
      with Inr Pair assms(2) obtain e s2 where e: "reserve_capsule g k s1 = (Inl e, s2)"
        by (cases "reserve_capsule g k s1"; cases "fst (reserve_capsule g k s1)") auto
      with None Inr Pair assms(1) have "outer_catch k False (inner_catch g k e s2) = (Inr res, s')"
        by (simp add: governed_run_def catching_def execute_def)
      then show ?thesis
        using e Pair Inr None assms(3)
        by (cases "inner_catch g k e s2"; cases "fst (inner_catch g k e s2)") (auto simp: outer_catch_def finish_def split: if_splits)
    qed
  qed
qed



text \<open>Claim C18. A mandatory audit trail has no gaps: if the audit is mandatory for a mutating call and the call is
  reported with any outcome other than not started or uncertain, then the last event of the audit store is
  the terminal event of this tool.\<close>

theorem reported_outcome_is_audited:
  assumes "ds_mutates d" "runPipeline g d ga control ha s = (Inr res, s')"
    and "requiresDurability (gr_auditConfig g) (Some (ds_risk d)) (Some (control_principal control))"
    and "tr_execution res \<noteq> Some NotStarted" "tr_execution res \<noteq> Some OutcomeUncertain"
  shows "\<exists>es ev. al_stored (sv_audit s') = es @ [ev] \<and> ev_tool ev = Some (ds_name d) \<and>
     (ev_type ev = EvToolResult \<or> ev_type ev = EvToolError)"
proof (cases rule: runPipeline_cases [where g = g and d = d and ga = ga and control = control and ha = ha and s = s])
  case (early r t)
  from early(1) [of "ds_handler d"] assms(2) have "r = Inr res" by simp
  from early(4) [OF this assms(1)] assms(4) show ?thesis by simp
next
  case (run callId k s1)
  have mut: "ki_mutates k" and req: "audit_required g k" using run(3-6) assms(1,3) by (simp_all add: audit_required_def)
  have "runPipeline g d ga control ha s = drop_active callId (governed_run g k (ds_handler d) ha s1)"
    using run(1) [of "ds_handler d"] by simp
  then obtain t where gov: "governed_run g k (ds_handler d) ha s1 = (Inr res, t)" and t: "sv_audit s' = sv_audit t"
    using assms(2) by (cases "governed_run g k (ds_handler d) ha s1") (auto simp: drop_active_def)
  have name: "ki_name k = ds_name d" by (rule run(2))
  have "\<exists>es ev. al_stored (sv_audit t) = es @ [ev] \<and> ev_tool ev = Some (ki_name k) \<and> (ev_type ev = EvToolResult \<or> ev_type ev = EvToolError)"
  proof (cases "\<exists>s2 s3. gate g k s1 = (Inr None, s2) \<and> reserve_capsule g k s2 = (Inr (), s3)")
    case True
    then obtain s2 s3 where ok: "gate g k s1 = (Inr None, s2)" "reserve_capsule g k s2 = (Inr (), s3)" by blast
    from ok gov show ?thesis
    proof (cases rule: started_cases)
      case (returned r s4)
      from after_handler_Inr(2) [OF returned(2) req] show ?thesis by (auto split: if_splits)
    next
      case (failed e s4)
      from inner_catch_Inr(2) [OF failed req] show ?thesis by blast
    next
      case uncertain
      with assms(5) mut show ?thesis by simp
    qed
  next
    case False
    from unstarted_report [OF gov False mut] assms(4) obtain e s2 where "inner_catch g k e s2 = (Inr res, t)" by auto
    from inner_catch_Inr(2) [OF this req] show ?thesis by blast
  qed
  then show ?thesis unfolding t name by blast
qed

text \<open>The agent plane has no administrator rights: a tool of the admin audience called through
  \<^verbatim>\<open>callAgent\<close> is refused without any effect, whatever role the caller's principal carries; and an OAuth
  caller needs the read scope, and for a mutating call also the write scope, before anything happens.\<close>

theorem call_needs_audience_and_scopes:
  assumes "get_tool name r = Some tool"
  shows "(td_audience tool = AudAdmin \<longrightarrow> callAgent g r name args control s = (Inr (fail_result (''Admin-only tool: '' @ name)), s)) \<and>
    (\<forall>p c. control = Some c \<and> ctl_principal c = Some p \<and> p_authMode p = Some AuthOauth \<longrightarrow>
       (\<exists>e. call g r name args control s = (e, s)) \<or>
       (\<exists>rs. truthy (p_readScope p) = Some rs \<and> rs \<in> set (the (p_scopes p))) \<and>
       (\<forall>cl. classifyCall (command_classify g) r name args = Inr (Some cl) \<and> tc_mutates cl \<longrightarrow>
          (\<exists>ws. truthy (p_writeScope p) = Some ws \<and> ws \<in> set (the (p_scopes p)))))"
proof (intro conjI impI allI)
  assume "td_audience tool = AudAdmin"
  then show "callAgent g r name args control s = (Inr (fail_result (''Admin-only tool: '' @ name)), s)"
    using assms by (cases control) (simp_all add: callAgent_def call_def Let_def)
next
  fix p c assume c: "control = Some c \<and> ctl_principal c = Some p \<and> p_authMode p = Some AuthOauth"
  show "(\<exists>e. call g r name args control s = (e, s)) \<or>
       (\<exists>rs. truthy (p_readScope p) = Some rs \<and> rs \<in> set (the (p_scopes p))) \<and>
       (\<forall>cl. classifyCall (command_classify g) r name args = Inr (Some cl) \<and> tc_mutates cl \<longrightarrow>
          (\<exists>ws. truthy (p_writeScope p) = Some ws \<and> ws \<in> set (the (p_scopes p))))"
  proof (cases "\<exists>cl. classifyCall (command_classify g) r name args = Inr (Some cl) \<and> scope_error (Some p) (tc_mutates cl) = None")
    case False
    then have "\<exists>e. call g r name args control s = (e, s)"
      using assms c by (auto simp: call_def Let_def split: sum.splits option.splits)
    then show ?thesis by blast
  next
    case True
    then obtain cl where cl: "classifyCall (command_classify g) r name args = Inr (Some cl)" "scope_error (Some p) (tc_mutates cl) = None" by blast
    then have "(\<exists>rs. truthy (p_readScope p) = Some rs \<and> rs \<in> set (the (p_scopes p))) \<and>
        (tc_mutates cl \<longrightarrow> (\<exists>ws. truthy (p_writeScope p) = Some ws \<and> ws \<in> set (the (p_scopes p))))"
      using c by (cases "truthy (p_readScope p)"; cases "truthy (p_writeScope p)"; cases "p_scopes p"; cases "tc_mutates cl")
        (simp_all add: scope_error_def Let_def map_filter_def split: if_splits)
    with cl(1) show ?thesis by auto
  qed
qed


text \<open>Actions that leave the inventory of active calls alone.\<close>

definition keeps_active :: "(server_state, 'a) act \<Rightarrow> bool" where
  "keeps_active m \<longleftrightarrow> (\<forall>s. sv_activeCalls (snd (m s)) = sv_activeCalls s)"

lemma keeps_active_bind: "keeps_active m \<Longrightarrow> (\<And>x. keeps_active (f x)) \<Longrightarrow> keeps_active (bindA m f)"
  by (auto simp: keeps_active_def bindA_def split: prod.split sum.split) (metis snd_conv)+

lemma keeps_active_basic: "keeps_active (retA x)" "keeps_active (throwA e)" "keeps_active (nowG g)"
  "keeps_active (on_audit a)" "keeps_active (on_engine b)" "keeps_active (on_capsules c)"
  by (auto simp: keeps_active_def retA_def throwA_def nowG_def on_audit_def on_engine_def on_capsules_def split: prod.split)

lemma keeps_active_steps: "keeps_active (recordAudit g k ty ok du su de)" "keeps_active (rate_hit g name)"
proof -
  show "keeps_active (recordAudit g k ty ok du su de)"
    unfolding recordAudit_def by (intro keeps_active_bind keeps_active_basic)
  show "keeps_active (rate_hit g name)"
    unfolding rate_hit_def by (intro keeps_active_bind keeps_active_basic) (auto simp: keeps_active_def split: prod.split)
qed

lemmas keeps_active_intros = keeps_active_bind keeps_active_basic keeps_active_steps

lemma keeps_active_gate: "keeps_active (gate g k)"
  unfolding gate_def
  by (intro keeps_active_intros; (auto split: CapsuleDecision.split Decision.split simp: Let_def intro!: keeps_active_intros)?)

lemma keeps_active_catch: "keeps_active (inner_catch g k e)"
  unfolding inner_catch_def by (auto intro!: keeps_active_intros)

lemma keeps_active_after: "keeps_active (after_handler g k r)"
  unfolding after_handler_def by (intro keeps_active_intros)

lemma keeps_active_reserve: "keeps_active (reserve_capsule g k)"
  unfolding reserve_capsule_def by (auto split: option.split intro!: keeps_active_intros)

lemma outer_catch_state: "snd (outer_catch k b out) = snd out"
  by (auto simp: outer_catch_def split: prod.split sum.split)

lemma catching_keeps:
  assumes "keeps_active m" "\<And>e s. sv_activeCalls (snd (f e s)) = sv_activeCalls s" "\<And>x s. sv_activeCalls (snd (h x s)) = sv_activeCalls s"
  shows "sv_activeCalls (snd (catching m f h s)) = sv_activeCalls s"
proof (cases "m s")
  case (Pair r s1)
  then have "sv_activeCalls s1 = sv_activeCalls s" using assms(1) by (metis keeps_active_def snd_conv)
  with Pair assms(2,3) show ?thesis by (cases r) (simp_all add: catching_def)
qed

lemma governed_run_keeps:
  assumes "\<And>a. keeps_active (h a)"
  shows "sv_activeCalls (snd (governed_run g k h ha s)) = sv_activeCalls s"
proof -
  have catch: "sv_activeCalls (snd (outer_catch k b (inner_catch g k e s))) = sv_activeCalls s" for b e s
    using keeps_active_catch by (simp add: outer_catch_state keeps_active_def)
  have ex: "sv_activeCalls (snd (execute g k h ha s)) = sv_activeCalls s" for s
    unfolding execute_def
    by (intro catching_keeps keeps_active_reserve catch keeps_active_bind keeps_active_after assms) simp
  show ?thesis
    unfolding governed_run_def
    by (intro catching_keeps keeps_active_gate) (simp_all add: outer_catch_state ex split: option.split)
qed

text \<open>The inventory of active calls does not leak: whether a call returns or throws, afterwards no call
  is listed as active that was not listed before, provided the handler leaves the inventory alone.\<close>

theorem active_calls_do_not_leak:
  assumes "\<And>a. keeps_active (ds_handler d a)"
  shows "set (map fst (sv_activeCalls (snd (runPipeline g d ga control ha s)))) \<subseteq> set (map fst (sv_activeCalls s))"
proof (cases rule: runPipeline_cases [where g = g and d = d and ga = ga and control = control and ha = ha and s = s])
  case (early r t)
  from early(1) [of "ds_handler d"] early(3) show ?thesis by simp
next
  case (run callId k s1)
  have "runPipeline g d ga control ha s = drop_active callId (governed_run g k (ds_handler d) ha s1)"
    using run(1) [of "ds_handler d"] by simp
  with governed_run_keeps [of "ds_handler d" g k ha s1] assms run(9) show ?thesis
    using dom_update [of callId "active_call g callId k" "sv_activeCalls s"] by (simp add: drop_active_def delete_keys)
qed

subsection \<open>A server to try the properties on\<close>

definition demo_result :: "bool \<Rightarrow> ToolResult" where
  "demo_result ok = \<lparr>tr_ok = ok, tr_operationId = None, tr_execution = None, tr_data = JUndef, tr_error = None,
     tr_diff = None, tr_approvalId = None, tr_content = JUndef\<rparr>"

definition demo_handler :: "bool \<Rightarrow> server_state handler" where
  "demo_handler ok args s = (Inr (demo_result ok), s)"

definition demo_runtime :: "(nat \<Rightarrow> bool) \<Rightarrow> GovernanceRuntime" where
  "demo_runtime appends = \<lparr>gr_policy = demo_config, gr_auditPort = demo_port\<lparr>au_append := appends\<rparr>,
     gr_auditConfig = \<lparr>ac_required = True, ac_requireForHighRisk = True, ac_requireForAuthenticatedHttp = True\<rparr>,
     gr_rateConfig = \<lparr>rl_enabled = True, rl_default = \<lparr>maxCalls = 2, windowMs = 10, dailyQuota = None\<rparr>, rl_overrides = []\<rparr>,
     gr_capsules = None, gr_hasMission = True, gr_projectRoot = ''/w'', gr_redact = id, gr_now = int, gr_uuid = (\<lambda>_. ''0'')\<rparr>"

definition demo_server :: server_state where
  "demo_server = \<lparr>sv_mission = demo_mission, sv_audit = demo_log, sv_rate = [], sv_capsules = demo_manager,
     sv_activeCalls = [], sv_reads = 0, sv_draws = 0\<rparr>"

definition demo_descriptor :: "bool \<Rightarrow> descriptor" where
  "demo_descriptor ok = \<lparr>ds_name = ''u'', ds_group = None, ds_risk = MEDIUM, ds_mutates = True, ds_handler = demo_handler ok\<rparr>"

definition demo_info :: call_info where
  "demo_info = \<lparr>ki_name = ''u'', ki_group = None, ki_risk = MEDIUM, ki_mutates = True, ki_args = [], ki_operationId = Some ''op_0'',
     ki_principal = default_principal, ki_capsule = CapAllow None, ki_bypass = False, ki_started = 0\<rparr>"

definition demo_entered :: "GovernanceRuntime \<Rightarrow> server_state" where
  "demo_entered g = demo_server\<lparr>sv_reads := 1, sv_draws := 1,
     sv_activeCalls := [(''op_0'', active_call g ''op_0'' demo_info)]\<rparr>"

lemma demo_enters:
  "runPipeline (demo_runtime f) ((demo_descriptor True)\<lparr>ds_handler := h\<rparr>) [] None [] demo_server =
     drop_active ''op_0'' (governed_run (demo_runtime f) demo_info h [] (demo_entered (demo_runtime f)))"
  by (simp add: runPipeline_def bindA_def nowG_def operation_id_def short_uuid_def capsule_decision_def retA_def getsA_def
      modifyA_def Let_def control_principal_def demo_runtime_def demo_descriptor_def demo_server_def demo_entered_def
      demo_info_def allowsContainmentAction_def writeFreezeOn_def demo_mission_def)

lemma demo_runs:
  "\<exists>s'. runPipeline (demo_runtime (\<lambda>_. True)) ((demo_descriptor True)\<lparr>ds_handler := demo_handler ok\<rparr>) [] None [] demo_server =
     (Inr (finish True (Some ''op_0'') (demo_result ok) (if ok then Executed else ExecFailed)), s')"
proof -
  let ?g = "demo_runtime (\<lambda>_. True)"
  have "(case fst (gate ?g demo_info (demo_entered ?g)) of Inr x \<Rightarrow> x = None | _ \<Rightarrow> False)" by code_simp
  then obtain s1 where gate: "gate ?g demo_info (demo_entered ?g) = (Inr None, s1)"
    by (cases "gate ?g demo_info (demo_entered ?g)") (auto split: sum.splits)
  have res: "reserve_capsule ?g demo_info s1 = (Inr (), s1)"
    by (simp add: reserve_capsule_def demo_info_def decision_capsule_def retA_def)
  have rec: "\<exists>l. recordAudit ?g demo_info ty oo du su de s = (Inr (), s\<lparr>sv_audit := l\<rparr>)" for ty oo du su de s
    by (cases rule: recordAudit_cases [of ?g demo_info ty oo du su de s]) (auto simp: demo_runtime_def)
  let ?s = "s1\<lparr>sv_reads := Suc (sv_reads s1)\<rparr>" and ?t = "gr_now ?g (sv_reads s1) - ki_started demo_info"
  have r: "tr_ok (demo_result ok) = ok" "tr_error (demo_result ok) = None" "tr_execution (demo_result ok) = None"
    "ki_mutates demo_info" "ki_operationId demo_info = Some ''op_0''"
    by (simp_all add: demo_result_def demo_info_def)
  obtain l where l: "recordAudit ?g demo_info (if ok then EvToolResult else EvToolError) (Some ok) (Some ?t)
      (if ok then ''ok'' else ''error'') (identityDetail demo_info) ?s = (Inr (), ?s\<lparr>sv_audit := l\<rparr>)"
    using rec by blast
  have "after_handler ?g demo_info (demo_result ok) s1 =
      (Inr (finish True (Some ''op_0'') (demo_result ok) (if ok then Executed else ExecFailed)), ?s\<lparr>sv_audit := l\<rparr>)"
    unfolding after_handler_def bindA_Inr [OF nowG_eq] r option.case bindA_def [of "recordAudit _ _ _ _ _ _ _"] l retA_def by (simp add: r)
  then have "governed_run ?g demo_info (demo_handler ok) [] (demo_entered ?g) =
      (Inr (finish True (Some ''op_0'') (demo_result ok) (if ok then Executed else ExecFailed)), ?s\<lparr>sv_audit := l\<rparr>)"
    using gate res by (simp add: governed_run_def execute_def catching_def demo_handler_def bindA_def)
  then show ?thesis by (simp add: demo_enters drop_active_def)
qed



theorem reported_outcome_is_audited_witness:
  "\<exists>res s' es ev. runPipeline (demo_runtime (\<lambda>_. True)) (demo_descriptor True) [] None [] demo_server = (Inr res, s') \<and>
     al_stored (sv_audit s') = es @ [ev] \<and> ev_tool ev = Some ''u''"
proof -
  let ?g = "demo_runtime (\<lambda>_. True)"
  obtain s' where r: "runPipeline ?g (demo_descriptor True) [] None [] demo_server =
      (Inr (finish True (Some ''op_0'') (demo_result True) Executed), s')"
    using demo_runs [of True] by (auto simp: demo_descriptor_def)
  have m: "ds_mutates (demo_descriptor True)" by (simp add: demo_descriptor_def)
  have "requiresDurability (gr_auditConfig ?g) (Some (ds_risk (demo_descriptor True))) (Some (control_principal None))"
    by (simp add: demo_runtime_def requiresDurability_def)
  from reported_outcome_is_audited [OF m r this] r show ?thesis by (auto simp: demo_descriptor_def)
qed

definition demo_tool :: "server_state ToolDefinition" where
  "demo_tool = \<lparr>td_name = ''a'', td_description = [], td_inputSchema = JUndef, td_outputSchema = JUndef, td_annotations = None,
     td_risk = LOW, td_group = ''g'', td_audience = AudAdmin, td_mutates = False, td_classifyCall = None,
     td_handler = demo_handler True\<rparr>"

definition demo_registry :: "server_state tool_registry" where
  "demo_registry = \<lparr>rg_tools = [(''a'', demo_tool)], rg_activeSet = None, rg_listeners = [], rg_notified = []\<rparr>"

theorem call_needs_audience_and_scopes_witness:
  "callAgent (demo_runtime (\<lambda>_. True)) demo_registry ''a'' [] None demo_server =
     (Inr (fail_result (''Admin-only tool: '' @ ''a'')), demo_server)"
proof -
  have "get_tool ''a'' demo_registry = Some demo_tool" by (simp add: get_tool_def demo_registry_def)
  from call_needs_audience_and_scopes [OF this] show ?thesis by (simp add: demo_tool_def)
qed

theorem active_calls_do_not_leak_witness:
  "sv_activeCalls (snd (runPipeline (demo_runtime (\<lambda>_. True)) (demo_descriptor True) [] None [] demo_server)) = []"
proof -
  have "keeps_active (ds_handler (demo_descriptor True) a)" for a
    by (simp add: keeps_active_def demo_descriptor_def demo_handler_def)
  from active_calls_do_not_leak [OF this, of "demo_runtime (\<lambda>_. True)" "[]" None "[]" demo_server]
  show ?thesis by (simp add: demo_server_def)
qed

end
