(* ===== verification/FF_Coordinator.thy ===== *)
theory FF_Coordinator
  imports FF_Json FF_Regex
begin

text \<open>
  \<^verbatim>\<open>src/distributed/coordinator.ts\<close>: the coordinator that hands jobs to remote workers under leases.

  The state is the store file, the lock file, and the working copy of the store an operation changes before it
  is saved.  Every operation that changes the store runs under the lock (\<open>withLock\<close>), loads the store, recovers
  the expired leases, works on the copy and saves it; an operation that throws saves nothing.  The objects an
  operation finds in the store are references into it: the model names them by their index in the list.

  Parameters (\<open>coord_env\<close>): the clock and the random identifiers, read in sequence; the hash; the key operations
  of \<^verbatim>\<open>node:crypto\<close> (parsing a public key, signing with the coordinator's key, verifying, sealing and opening with
  AES-GCM); base64url and \<^verbatim>\<open>JSON.parse\<close>; the artifact store; and whether the n-th write of the store file
  succeeds.  The keys exist (\<^verbatim>\<open>ensureKeys\<close> creates them before the first use).  The file holds the value that was
  saved.  A number of the store is an integer.
\<close>

section \<open>Data\<close>

datatype DistributedReplayPolicy = Idempotent | NoReplay

datatype DistributedJobState = Queued | Leased | Running | Completed | Failed | Blocked | Cancelled

datatype worker_state = WActive | WRevoked

record DistributedWorkerView =
  dw_id :: string
  dw_name :: string
  dw_capabilities :: "string list"
  dw_publicKeyFingerprint :: string
  dw_state :: worker_state
  dw_createdAt :: int
  dw_updatedAt :: int
  dw_tokenExpiresAt :: "int option"
  dw_lastSeenAt :: "int option"
  dw_revokedAt :: "int option"
  dw_revokeReason :: "string option"

record WorkerRecord = DistributedWorkerView +
  dw_publicKeyPem :: string
  dw_activeTokenId :: "string option"

record lease_view =
  ls_id :: string
  ls_workerId :: string
  ls_fencingToken :: int
  ls_issuedAt :: int
  ls_expiresAt :: int
  ls_acknowledgedAt :: "int option"
  ls_lastHeartbeatAt :: "int option"

record job_lease = lease_view +
  ls_tokenId :: string

record DistributedCompletionRecord =
  dc_evidence :: jobject
  dc_workerSignature :: string
  dc_coordinatorSignature :: string
  dc_coordinatorKeyFingerprint :: string
  dc_acceptedAt :: int

record EncryptedPayload =
  ep_algorithm :: string
  ep_iv :: string
  ep_tag :: string
  ep_ciphertext :: string

record job_base =
  dj_id :: string
  dj_idempotencyKey :: string
  dj_tool :: string
  dj_argsDigest :: string
  dj_payloadDigest :: string
  dj_inputArtifacts :: "string list"
  dj_requiredCapabilities :: "string list"
  dj_replayPolicy :: DistributedReplayPolicy
  dj_state :: DistributedJobState
  dj_attempts :: int
  dj_createdAt :: int
  dj_updatedAt :: int
  dj_completedAt :: "int option"
  dj_failure :: jval
  dj_blockedReason :: "string option"
  dj_completion :: "DistributedCompletionRecord option"

text \<open>\<open>dj_failure\<close> is a value because the summary of a worker's evidence is stored as it came.\<close>

record DistributedJobView = job_base +
  dv_lease :: "lease_view option"

record JobRecord = job_base +
  dj_encryptedPayload :: EncryptedPayload
  dj_lease :: "job_lease option"
  dj_leaseOutputArtifacts :: "string list option"

record CoordinatorStore =
  st_nextFencingToken :: int
  st_workers :: "WorkerRecord list"
  st_jobs :: "JobRecord list"

record TokenClaims =
  tk_workerId :: string
  tk_tokenId :: string
  tk_issuedAt :: int
  tk_expiresAt :: int

record coord_env =
  ce_now :: "nat \<Rightarrow> int"
  ce_uuid :: "nat \<Rightarrow> string"
  ce_lc :: "string \<Rightarrow> string \<Rightarrow> bool"
  ce_sha256 :: "string \<Rightarrow> string"
  ce_createPublicKey :: "string \<Rightarrow> (string \<times> string \<times> string) option"
  ce_publicPem :: string
  ce_sign :: "string \<Rightarrow> string"
  ce_verify :: "string \<Rightarrow> string \<Rightarrow> string \<Rightarrow> bool"
  ce_seal :: "nat \<Rightarrow> string \<Rightarrow> string \<times> string \<times> string"
  ce_open :: "string \<Rightarrow> string \<Rightarrow> string \<Rightarrow> string option"
  ce_base64url :: "string \<Rightarrow> string"
  ce_unbase64url :: "string \<Rightarrow> string"
  ce_parse :: "string \<Rightarrow> jval option"
  ce_artifactExists :: "string \<Rightarrow> bool"
  ce_maxQueuedJobs :: int
  ce_maxTokenTtlMs :: int
  ce_maxLeaseTtlMs :: int
  ce_write :: "nat \<Rightarrow> bool"

text \<open>\<open>ce_createPublicKey\<close> gives the type, the normalised PEM and the DER of a key, \<open>ce_verify\<close> the answer of a
  signature check against a PEM, false where the key or the signature cannot be read.\<close>

text \<open>What an operation works on: the working copy of the store, and how often the clock and the random source
  were read.\<close>

record work =
  co_store :: CoordinatorStore
  co_reads :: nat
  co_draws :: nat

record coordinator =
  co_file :: "CoordinatorStore option"
  co_lock :: "int option"
  co_writes :: nat
  co_work :: work

section \<open>Formats\<close>

definition hex_chars :: "char list" where
  "hex_chars = ''abcdef0123456789''"

definition ARTIFACT_ID :: regex where
  "ARTIFACT_ID = whole (RSeqs [RLit ''art_'', RTimes 64 (RIn hex_chars)])"

definition HASH :: regex where
  "HASH = whole (RTimes 64 (RIn hex_chars))"

definition CAPABILITY :: regex where
  "CAPABILITY = ignore_case (whole (RSeqs [RIn az, RBetween 0 63 (RIn (az @ d09 @ ''_.:-''))]))"

definition WORKER_ID :: regex where
  "WORKER_ID = whole (RSeqs [RLit ''wrk_'', RTimes 12 (RIn hex_chars)])"

definition JOB_ID :: regex where
  "JOB_ID = whole (RSeqs [RLit ''job_'', RTimes 16 (RIn hex_chars)])"

definition TOOL_NAME :: regex where
  "TOOL_NAME = ignore_case (whole (RSeqs [RIn az, RBetween 1 127 (RIn (az @ d09 @ ''_:-''))]))"

definition MAX_ARGS_BYTES :: nat where "MAX_ARGS_BYTES = 256000"
definition MAX_CAPABILITIES :: nat where "MAX_CAPABILITIES = 32"
definition MAX_ARTIFACTS :: nat where "MAX_ARTIFACTS = 64"
definition LOCK_STALE_MS :: int where "LOCK_STALE_MS = 30000"

definition fail :: "string \<Rightarrow> 'a result" where
  "fail msg = Inl (PlainError msg)"

definition boundedString :: "jval \<Rightarrow> string \<Rightarrow> nat \<Rightarrow> string result" where
  "boundedString v label maxLen =
     (let s = js_trim (js_String (js_or_else v (JStr []))) in
      if s = [] \<or> byte_length s > maxLen \<or> CHR 0x00 \<in> set s
      then fail (label @ '' must be a non-empty string up to '' @ show_nat maxLen @ '' bytes.'')
      else Inr s)"

definition uniqueCapabilities :: "jval \<Rightarrow> string \<Rightarrow> string list result" where
  "uniqueCapabilities v label =
     (case v of
        JArr vs \<Rightarrow>
          if length vs > MAX_CAPABILITIES then fail (label @ '' must be an array with at most 32 entries.'')
          else let r = sort_by code_unit_le (uniq (map (\<lambda>x. js_trim (js_String x)) vs))
               in if list_all (re_test CAPABILITY) r then Inr r else fail (label @ '' contains an invalid capability.'')
      | _ \<Rightarrow> fail (label @ '' must be an array with at most 32 entries.''))"

fun check_artifacts :: "(string \<Rightarrow> bool) \<Rightarrow> string \<Rightarrow> string list \<Rightarrow> unit result" where
  "check_artifacts artifactExists label [] = Inr ()"
| "check_artifacts artifactExists label (i # rest) =
     (if \<not> re_test ARTIFACT_ID i then fail (label @ '' contains an invalid artifact id: '' @ i)
      else if \<not> artifactExists i then fail (label @ '' references a missing artifact: '' @ i)
      else check_artifacts artifactExists label rest)"

definition validateArtifactIds :: "jval \<Rightarrow> (string \<Rightarrow> bool) \<Rightarrow> string \<Rightarrow> string list result" where
  "validateArtifactIds v artifactExists label =
     (case v of
        JUndef \<Rightarrow> Inr []
      | JArr vs \<Rightarrow>
          if length vs > MAX_ARTIFACTS then fail (label @ '' must contain at most 64 artifact ids.'')
          else let ids = uniq (map js_String vs)
               in bindR (check_artifacts artifactExists label ids) (\<lambda>_. Inr (sort_by code_unit_le ids))
      | _ \<Rightarrow> fail (label @ '' must contain at most 64 artifact ids.''))"

definition publicKeyDetails :: "coord_env \<Rightarrow> string \<Rightarrow> (string \<times> string) result" where
  "publicKeyDetails env pem =
     (case ce_createPublicKey env pem of
        None \<Rightarrow> fail ''Invalid public key''
      | Some (kind, normalized, der) \<Rightarrow>
          if kind \<noteq> ''ed25519'' then fail ''Worker public key must be Ed25519.''
          else Inr (normalized, ce_sha256 env der))"

definition cloneWorker :: "WorkerRecord \<Rightarrow> DistributedWorkerView" where
  "cloneWorker w = DistributedWorkerView.truncate w"

definition cloneJob :: "JobRecord \<Rightarrow> DistributedJobView" where
  "cloneJob j = job_base.extend (job_base.truncate j)
     (DistributedJobView.fields (map_option lease_view.truncate (dj_lease j)))"

definition verifyDistributedEvidence :: "coord_env \<Rightarrow> jobject \<Rightarrow> string \<Rightarrow> string \<Rightarrow> bool" where
  "verifyDistributedEvidence env evidence signature pem = ce_verify env pem (canonicalJson (ce_lc env) (JObj evidence)) signature"

definition assertWorkerId :: "string \<Rightarrow> unit result" where
  "assertWorkerId i = (if re_test WORKER_ID i then Inr () else fail ''Invalid worker id.'')"

definition assertJobId :: "string \<Rightarrow> unit result" where
  "assertJobId i = (if re_test JOB_ID i then Inr () else fail ''Invalid distributed job id.'')"

definition boundTtl :: "int \<Rightarrow> int \<Rightarrow> string \<Rightarrow> int result" where
  "boundTtl v maximum label =
     (if \<not> is_safe_integer v \<or> v < 1000 \<or> v > maximum
      then fail (label @ '' must be an integer from 1000 to '' @ show_int maximum @ ''.'') else Inr v)"

section \<open>The store and the lock\<close>

definition nowC :: "coord_env \<Rightarrow> (work, int) act" where
  "nowC env s = (Inr (ce_now env (co_reads s)), s\<lparr>co_reads := Suc (co_reads s)\<rparr>)"

definition uuidC :: "coord_env \<Rightarrow> (work, string) act" where
  "uuidC env s = (Inr (ce_uuid env (co_draws s)), s\<lparr>co_draws := Suc (co_draws s)\<rparr>)"

text \<open>\<^verbatim>\<open>randomUUID().replaceAll('-', '').slice(0, n)\<close> with a prefix.\<close>

definition short_id :: "coord_env \<Rightarrow> string \<Rightarrow> nat \<Rightarrow> (work, string) act" where
  "short_id env pre n = bindA (uuidC env) (\<lambda>u. retA (pre @ take n (filter (\<lambda>c. c \<noteq> CHR ''-'') u)))"

definition mod_store :: "(CoordinatorStore \<Rightarrow> CoordinatorStore) \<Rightarrow> (work, unit) act" where
  "mod_store f s = (Inr (), s\<lparr>co_store := f (co_store s)\<rparr>)"

definition set_job :: "nat \<Rightarrow> (JobRecord \<Rightarrow> JobRecord) \<Rightarrow> CoordinatorStore \<Rightarrow> CoordinatorStore" where
  "set_job i f st = st\<lparr>st_jobs := (st_jobs st)[i := f (st_jobs st ! i)]\<rparr>"

definition set_worker :: "nat \<Rightarrow> (WorkerRecord \<Rightarrow> WorkerRecord) \<Rightarrow> CoordinatorStore \<Rightarrow> CoordinatorStore" where
  "set_worker i f st = st\<lparr>st_workers := (st_workers st)[i := f (st_workers st ! i)]\<rparr>"

definition job_at :: "nat \<Rightarrow> (work, JobRecord) act" where
  "job_at i s = (Inr (st_jobs (co_store s) ! i), s)"

definition worker_at :: "nat \<Rightarrow> (work, WorkerRecord) act" where
  "worker_at i s = (Inr (st_workers (co_store s) ! i), s)"

definition emptyStore :: CoordinatorStore where
  "emptyStore = \<lparr>st_nextFencingToken = 0, st_workers = [], st_jobs = []\<rparr>"

definition on_work :: "(work, 'a) act \<Rightarrow> (coordinator, 'a) act" where
  "on_work m s = (case m (co_work s) of (r, w) \<Rightarrow> (r, s\<lparr>co_work := w\<rparr>))"

definition file_store :: "coordinator \<Rightarrow> CoordinatorStore" where
  "file_store s = (case co_file s of None \<Rightarrow> emptyStore | Some st \<Rightarrow> st)"

definition loadStore :: "(coordinator, unit) act" where
  "loadStore s = (Inr (), s\<lparr>co_work := (co_work s)\<lparr>co_store := file_store s\<rparr>\<rparr>)"

definition saveStore :: "coord_env \<Rightarrow> (coordinator, unit) act" where
  "saveStore env s =
     (let s' = s\<lparr>co_writes := Suc (co_writes s)\<rparr>
      in if ce_write env (co_writes s) then (Inr (), s'\<lparr>co_file := Some (co_store (co_work s))\<rparr>)
         else (Inl (StoreError ''The coordinator store could not be written.''), s'))"

definition clearLease :: "JobRecord \<Rightarrow> JobRecord" where
  "clearLease j = j\<lparr>dj_lease := None, dj_leaseOutputArtifacts := None\<rparr>"

definition in_progress :: "JobRecord \<Rightarrow> bool" where
  "in_progress j \<longleftrightarrow> dj_state j = Leased \<or> dj_state j = Running"

definition execution_may_have_started :: "JobRecord \<Rightarrow> bool" where
  "execution_may_have_started j \<longleftrightarrow> dj_state j = Running \<or>
     (case dj_lease j of None \<Rightarrow> False | Some l \<Rightarrow> (case ls_acknowledgedAt l of None \<Rightarrow> False | Some t \<Rightarrow> t \<noteq> 0))"

definition expireLease :: "int \<Rightarrow> string \<Rightarrow> JobRecord \<Rightarrow> JobRecord" where
  "expireLease now reason j =
     (if \<not> execution_may_have_started j \<or> dj_replayPolicy j = Idempotent
      then (clearLease (j\<lparr>dj_state := Queued, dj_updatedAt := now\<rparr>))\<lparr>dj_blockedReason := None\<rparr>
      else clearLease (j\<lparr>dj_state := Blocked, dj_updatedAt := now,
             dj_blockedReason := Some (reason @ '' Side-effect status is unknown and replayPolicy=no-replay.'')\<rparr>))"

definition lease_due :: "int \<Rightarrow> JobRecord \<Rightarrow> bool" where
  "lease_due now j \<longleftrightarrow> (case dj_lease j of None \<Rightarrow> False | Some l \<Rightarrow> in_progress j \<and> ls_expiresAt l \<le> now)"

definition recover_job :: "int \<Rightarrow> JobRecord \<Rightarrow> JobRecord" where
  "recover_job now j = (if lease_due now j then expireLease now ''Lease expired during coordinator recovery.'' j else j)"

definition recoverInStore :: "coord_env \<Rightarrow> (work, string list \<times> string list) act" where
  "recoverInStore env = bindA (nowC env) (\<lambda>now s.
     let st = co_store s; jobs = st_jobs st; due = filter (lease_due now) jobs;
         state_after = (\<lambda>j. dj_state (recover_job now j))
     in (Inr (map dj_id (filter (\<lambda>j. state_after j = Queued) due), map dj_id (filter (\<lambda>j. state_after j = Blocked) due)),
         s\<lparr>co_store := st\<lparr>st_jobs := map (recover_job now) jobs\<rparr>\<rparr>))"

text \<open>A lock older than \<open>LOCK_STALE_MS\<close> is removed; a lock that is still there makes the operation fail.\<close>

definition clear_stale_lock :: "coord_env \<Rightarrow> (coordinator, unit) act" where
  "clear_stale_lock env s =
     (case co_lock s of
        None \<Rightarrow> (Inr (), s)
      | Some mtime \<Rightarrow> bindA (on_work (nowC env)) (\<lambda>now s. (Inr (), if now - mtime > LOCK_STALE_MS then s\<lparr>co_lock := None\<rparr> else s)) s)"

definition withLock :: "coord_env \<Rightarrow> (coordinator, 'a) act \<Rightarrow> (coordinator, 'a) act" where
  "withLock env fn =
     bindA (clear_stale_lock env) (\<lambda>_ s.
     if co_lock s \<noteq> None then (Inl (PlainError ''Distributed coordinator is busy; retry the operation.''), s)
     else case bindA (on_work (nowC env)) (\<lambda>t. bindA (modifyA (\<lambda>s. s\<lparr>co_lock := Some t\<rparr>)) (\<lambda>_. fn)) s of
            (r, s') \<Rightarrow> (r, s'\<lparr>co_lock := None\<rparr>))"

definition readC :: "(work, 'a) act \<Rightarrow> (coordinator, 'a) act" where
  "readC fn = bindA loadStore (\<lambda>_. on_work fn)"

definition mutate :: "coord_env \<Rightarrow> (work, 'a) act \<Rightarrow> (coordinator, 'a) act" where
  "mutate env fn = withLock env
     (bindA loadStore (\<lambda>_. bindA (on_work (recoverInStore env)) (\<lambda>_. bindA (on_work fn) (\<lambda>r. bindA (saveStore env) (\<lambda>_. retA r)))))"

section \<open>Looking up and authenticating\<close>

fun index_where :: "('a \<Rightarrow> bool) \<Rightarrow> 'a list \<Rightarrow> nat option" where
  "index_where p [] = None"
| "index_where p (x # xs) = (if p x then Some 0 else map_option Suc (index_where p xs))"

definition workerC :: "jval \<Rightarrow> (work, nat) act" where
  "workerC v s = (case index_where (\<lambda>w. JStr (dw_id w) = v) (st_workers (co_store s)) of
     None \<Rightarrow> (fail (''Worker not found: '' @ js_String v), s) | Some i \<Rightarrow> (Inr i, s))"

definition jobC :: "jval \<Rightarrow> (work, nat) act" where
  "jobC v s = (case index_where (\<lambda>j. JStr (dj_id j) = v) (st_jobs (co_store s)) of
     None \<Rightarrow> (fail (''Distributed job not found: '' @ js_String v), s) | Some i \<Rightarrow> (Inr i, s))"

definition claims_json :: "TokenClaims \<Rightarrow> jval" where
  "claims_json c = JObj [(''schemaVersion'', JNum 1), (''kind'', JStr ''folderforge-worker''),
     (''workerId'', JStr (tk_workerId c)), (''tokenId'', JStr (tk_tokenId c)), (''issuedAt'', JNum (tk_issuedAt c)),
     (''expiresAt'', JNum (tk_expiresAt c))]"

definition token_text :: "coord_env \<Rightarrow> TokenClaims \<Rightarrow> string" where
  "token_text env c =
     (let body = ce_base64url env (canonicalJson (ce_lc env) (claims_json c))
      in ''ffw1.'' @ body @ ''.'' @ ce_sign env (''ffw1.'' @ body))"

definition issueTokenInStore :: "coord_env \<Rightarrow> nat \<Rightarrow> int \<Rightarrow> (work, string) act" where
  "issueTokenInStore env wi ttl =
     bindA (nowC env) (\<lambda>now.
     bindA (uuidC env) (\<lambda>tid.
     bindA (worker_at wi) (\<lambda>w.
     let c = \<lparr>tk_workerId = dw_id w, tk_tokenId = tid, tk_issuedAt = now, tk_expiresAt = now + ttl\<rparr>
     in bindA (mod_store (set_worker wi (\<lambda>w. w\<lparr>dw_activeTokenId := Some tid, dw_tokenExpiresAt := Some (now + ttl), dw_updatedAt := now\<rparr>))) (\<lambda>_.
        retA (token_text env c)))))"

definition is_safe_num :: "jval \<Rightarrow> bool" where
  "is_safe_num v = (case v of JNum n \<Rightarrow> is_safe_integer n | _ \<Rightarrow> False)"

definition num_of :: "jval \<Rightarrow> int" where
  "num_of v = (case v of JNum n \<Rightarrow> n | _ \<Rightarrow> 0)"

text \<open>The checks on the token itself, up to the lookup of the worker: the entries of its claims.\<close>

definition token_claims :: "coord_env \<Rightarrow> string \<Rightarrow> jobject result" where
  "token_claims env token =
     (case split_on (CHR ''.'') token of
        [pre, body, signature] \<Rightarrow>
          if pre \<noteq> ''ffw1'' then fail ''Invalid worker token format.''
          else if \<not> ce_verify env (ce_publicPem env) (''ffw1.'' @ body) signature then fail ''Worker token signature is invalid.''
          else (case ce_parse env (ce_unbase64url env body) of
            None \<Rightarrow> fail ''Unexpected token in JSON''
          | Some JNull \<Rightarrow> fail ''Cannot read properties of null''
          | Some (JObj c) \<Rightarrow>
              if jget c ''schemaVersion'' \<noteq> JNum 1 \<or> jget c ''kind'' \<noteq> JStr ''folderforge-worker'' then fail ''Unsupported worker token.''
              else bindR (assertWorkerId (js_String (jget c ''workerId''))) (\<lambda>_.
                   if \<not> js_truthy (jget c ''tokenId'') \<or> \<not> is_safe_num (jget c ''issuedAt'') \<or> \<not> is_safe_num (jget c ''expiresAt'')
                   then fail ''Worker token claims are invalid.'' else Inr c)
          | Some _ \<Rightarrow> fail ''Unsupported worker token.'')
      | _ \<Rightarrow> fail ''Invalid worker token format.'')"

definition authenticate :: "coord_env \<Rightarrow> string \<Rightarrow> (work, nat \<times> string) act" where
  "authenticate env token =
     bindA (liftR (token_claims env token)) (\<lambda>c.
     bindA (workerC (jget c ''workerId'')) (\<lambda>wi.
     bindA (worker_at wi) (\<lambda>w.
     if dw_state w \<noteq> WActive then throwA (PlainError ''Worker is revoked.'')
     else case dw_activeTokenId w of
       None \<Rightarrow> throwA (PlainError ''Worker token has been rotated or revoked.'')
     | Some tid \<Rightarrow>
         if jget c ''tokenId'' \<noteq> JStr tid then throwA (PlainError ''Worker token has been rotated or revoked.'')
         else bindA (nowC env) (\<lambda>now.
              if num_of (jget c ''expiresAt'') \<le> now then throwA (PlainError ''Worker token has expired.'')
              else retA (wi, tid)))))"

definition matchLease :: "coord_env \<Rightarrow> string \<Rightarrow> jval \<Rightarrow> jval \<Rightarrow> jval \<Rightarrow> (work, nat) act" where
  "matchLease env workerId jobId leaseId fencingToken =
     bindA (liftR (assertJobId (js_String jobId))) (\<lambda>_.
     bindA (jobC jobId) (\<lambda>ji.
     bindA (job_at ji) (\<lambda>j.
     case dj_lease j of
       None \<Rightarrow> throwA (PlainError ''Job has no active lease.'')
     | Some l \<Rightarrow>
         if ls_workerId l \<noteq> workerId \<or> JStr (ls_id l) \<noteq> leaseId \<or> JNum (ls_fencingToken l) \<noteq> fencingToken
         then throwA (PlainError ''Stale or mismatched lease/fencing token.'')
         else bindA (nowC env) (\<lambda>now.
              if ls_expiresAt l \<le> now then
                bindA (nowC env) (\<lambda>now2.
                bindA (mod_store (set_job ji (expireLease now2 ''Lease expired before worker operation.''))) (\<lambda>_.
                throwA (PlainError ''Lease has expired.'')))
              else retA ji))))"

text \<open>Authentication and lease check of a worker's operation: the indices of the worker and of the job.\<close>

definition leased_by :: "coord_env \<Rightarrow> string \<Rightarrow> jval \<Rightarrow> jval \<Rightarrow> jval \<Rightarrow> (work, nat \<times> nat) act" where
  "leased_by env token jobId leaseId fencingToken =
     bindA (authenticate env token) (\<lambda>(wi, tid).
     bindA (worker_at wi) (\<lambda>w.
     bindA (matchLease env (dw_id w) jobId leaseId fencingToken) (\<lambda>ji. retA (wi, ji))))"

definition seen :: "int \<Rightarrow> WorkerRecord \<Rightarrow> WorkerRecord" where
  "seen now w = w\<lparr>dw_lastSeenAt := Some now, dw_updatedAt := now\<rparr>"

section \<open>Payloads\<close>

definition encryptPayload :: "coord_env \<Rightarrow> string \<Rightarrow> (work, EncryptedPayload) act" where
  "encryptPayload env plaintext s =
     (case ce_seal env (co_draws s) plaintext of
        (iv, tag, ct) \<Rightarrow> (Inr \<lparr>ep_algorithm = ''aes-256-gcm'', ep_iv = iv, ep_tag = tag, ep_ciphertext = ct\<rparr>,
                          s\<lparr>co_draws := Suc (co_draws s)\<rparr>))"

definition decryptPayload :: "coord_env \<Rightarrow> EncryptedPayload \<Rightarrow> string result" where
  "decryptPayload env p =
     (if ep_algorithm p \<noteq> ''aes-256-gcm'' then fail ''Unsupported distributed payload encryption.''
      else case ce_open env (ep_iv p) (ep_tag p) (ep_ciphertext p) of
          None \<Rightarrow> fail ''Unsupported state or unable to authenticate data''
        | Some t \<Rightarrow> Inr t)"

definition leaseView :: "coord_env \<Rightarrow> JobRecord \<Rightarrow> (DistributedJobView \<times> jval) result" where
  "leaseView env j =
     bindR (decryptPayload env (dj_encryptedPayload j)) (\<lambda>t.
     case ce_parse env t of None \<Rightarrow> fail ''Unexpected token in JSON'' | Some p \<Rightarrow> Inr (cloneJob j, p))"

section \<open>Operations\<close>

definition coordinatorPublicKey :: "coord_env \<Rightarrow> (string \<times> string) result" where
  "coordinatorPublicKey env =
     bindR (publicKeyDetails env (ce_publicPem env)) (\<lambda>(_, fp). Inr (ce_publicPem env, fp))"

definition registerWorker :: "coord_env \<Rightarrow> jval \<Rightarrow> jval \<Rightarrow> jval \<Rightarrow> int option \<Rightarrow> (coordinator, DistributedWorkerView \<times> string) act" where
  "registerWorker env name capabilities publicKeyPem tokenTtlMs =
     bindA (liftR (boundedString name ''worker name'' 128)) (\<lambda>nm.
     bindA (liftR (uniqueCapabilities (js_or_else capabilities (JArr [])) ''capabilities'')) (\<lambda>caps.
     bindA (liftR (bindR (boundedString publicKeyPem ''worker public key'' 16384) (publicKeyDetails env))) (\<lambda>(pem, fp).
     bindA (liftR (boundTtl (case tokenTtlMs of Some t \<Rightarrow> t | None \<Rightarrow> ce_maxTokenTtlMs env) (ce_maxTokenTtlMs env) ''tokenTtlMs'')) (\<lambda>ttl.
     mutate env (
       bindA (getsA (\<lambda>s. find (\<lambda>w. dw_publicKeyFingerprint w = fp \<and> dw_state w = WActive) (st_workers (co_store s)))) (\<lambda>existing.
       case existing of
         Some w \<Rightarrow> throwA (PlainError (''An active worker already uses this public key: '' @ dw_id w))
       | None \<Rightarrow>
           bindA (nowC env) (\<lambda>now.
           bindA (short_id env ''wrk_'' 12) (\<lambda>wid.
           let w = \<lparr>dw_id = wid, dw_name = nm, dw_capabilities = caps, dw_publicKeyFingerprint = fp, dw_state = WActive,
                    dw_createdAt = now, dw_updatedAt = now, dw_tokenExpiresAt = None, dw_lastSeenAt = None,
                    dw_revokedAt = None, dw_revokeReason = None, dw_publicKeyPem = pem, dw_activeTokenId = None\<rparr>
           in bindA (getsA (\<lambda>s. length (st_workers (co_store s)))) (\<lambda>wi.
              bindA (mod_store (\<lambda>st. st\<lparr>st_workers := st_workers st @ [w]\<rparr>)) (\<lambda>_.
              bindA (issueTokenInStore env wi ttl) (\<lambda>token.
              bindA (worker_at wi) (\<lambda>w'. retA (cloneWorker w', token))))))))))))) "

definition rotateWorkerToken :: "coord_env \<Rightarrow> string \<Rightarrow> int option \<Rightarrow> (coordinator, DistributedWorkerView \<times> string) act" where
  "rotateWorkerToken env workerId ttlMs =
     bindA (liftR (assertWorkerId workerId)) (\<lambda>_.
     bindA (liftR (boundTtl (case ttlMs of Some t \<Rightarrow> t | None \<Rightarrow> ce_maxTokenTtlMs env) (ce_maxTokenTtlMs env) ''tokenTtlMs'')) (\<lambda>ttl.
     mutate env (
       bindA (workerC (JStr workerId)) (\<lambda>wi.
       bindA (worker_at wi) (\<lambda>w.
       if dw_state w \<noteq> WActive then throwA (PlainError (''Worker is revoked: '' @ workerId))
       else bindA (issueTokenInStore env wi ttl) (\<lambda>token.
            bindA (worker_at wi) (\<lambda>w'. retA (cloneWorker w', token))))))))"

definition default_arg :: "jval \<Rightarrow> string \<Rightarrow> jval" where
  "default_arg v d = (if v = JUndef then JStr d else v)"

definition held_by :: "string \<Rightarrow> JobRecord \<Rightarrow> bool" where
  "held_by workerId j \<longleftrightarrow> (case dj_lease j of None \<Rightarrow> False | Some l \<Rightarrow> ls_workerId l = workerId) \<and> in_progress j"

definition revoke_jobs :: "int \<Rightarrow> string \<Rightarrow> CoordinatorStore \<Rightarrow> CoordinatorStore" where
  "revoke_jobs now workerId st = st\<lparr>st_jobs := map (\<lambda>j.
     if held_by workerId j then expireLease now ''Worker revoked while holding lease.'' j else j) (st_jobs st)\<rparr>"

definition revokeWorker :: "coord_env \<Rightarrow> string \<Rightarrow> jval \<Rightarrow> (coordinator, DistributedWorkerView) act" where
  "revokeWorker env workerId reason =
     bindA (liftR (assertWorkerId workerId)) (\<lambda>_.
     mutate env (
       bindA (workerC (JStr workerId)) (\<lambda>wi.
       bindA (nowC env) (\<lambda>now.
       bindA (liftR (boundedString (default_arg reason ''Revoked by operator.'') ''revoke reason'' 512)) (\<lambda>why.
       bindA (mod_store (set_worker wi (\<lambda>w. w\<lparr>dw_state := WRevoked, dw_revokedAt := Some now, dw_revokeReason := Some why,
                dw_updatedAt := now, dw_activeTokenId := None, dw_tokenExpiresAt := None\<rparr>))) (\<lambda>_.
       bindA (mod_store (revoke_jobs now workerId)) (\<lambda>_.
       bindA (worker_at wi) (\<lambda>w. retA (cloneWorker w)))))))))"

definition listWorkers :: "(coordinator, DistributedWorkerView list) act" where
  "listWorkers = readC (getsA (\<lambda>s.
     sort_by (\<lambda>a b. dw_updatedAt b \<le> dw_updatedAt a) (map cloneWorker (st_workers (co_store s)))))"

definition terminal :: "DistributedJobState \<Rightarrow> bool" where
  "terminal d \<longleftrightarrow> d = Completed \<or> d = Failed \<or> d = Cancelled"

definition replay_of_text :: "string option \<Rightarrow> DistributedReplayPolicy option" where
  "replay_of_text t = (case t of None \<Rightarrow> Some NoReplay | Some r \<Rightarrow>
     if r = ''idempotent'' then Some Idempotent else if r = ''no-replay'' then Some NoReplay else None)"

definition payload_text :: "coord_env \<Rightarrow> string \<Rightarrow> jobject \<Rightarrow> string" where
  "payload_text env tool args = canonicalJson (ce_lc env) (JObj [(''tool'', JStr tool), (''args'', JObj args)])"

text \<open>The function \<^verbatim>\<open>submitJob\<close> runs under the lock, and the operation with its checks.\<close>

definition submit_in_store :: "coord_env \<Rightarrow> string \<Rightarrow> jobject \<Rightarrow> string \<Rightarrow> DistributedReplayPolicy \<Rightarrow> string list \<Rightarrow> string list \<Rightarrow>
    (work, DistributedJobView \<times> bool) act" where
  "submit_in_store env tool kvs idempotencyKey replayPolicy requiredCapabilities inputArtifacts =
     bindA (getsA (\<lambda>s. st_jobs (co_store s))) (\<lambda>jobs.
     case find (\<lambda>j. dj_idempotencyKey j = idempotencyKey) jobs of
       Some d \<Rightarrow>
         if dj_payloadDigest d \<noteq> ce_sha256 env (payload_text env tool kvs)
         then throwA (PlainError ''idempotencyKey already exists with a different payload.'')
         else retA (cloneJob d, True)
     | None \<Rightarrow>
         if int (length (filter (\<lambda>j. \<not> terminal (dj_state j)) jobs)) \<ge> ce_maxQueuedJobs env
         then throwA (PlainError (''Coordinator active-job quota reached ('' @ show_int (ce_maxQueuedJobs env) @ '').''))
         else
           bindA (nowC env) (\<lambda>now.
           bindA (short_id env ''job_'' 16) (\<lambda>jid.
           bindA (encryptPayload env (payload_text env tool kvs)) (\<lambda>enc.
           let j = \<lparr>dj_id = jid, dj_idempotencyKey = idempotencyKey, dj_tool = tool,
                    dj_argsDigest = ce_sha256 env (canonicalJson (ce_lc env) (JObj kvs)),
                    dj_payloadDigest = ce_sha256 env (payload_text env tool kvs), dj_inputArtifacts = inputArtifacts,
                    dj_requiredCapabilities = requiredCapabilities, dj_replayPolicy = replayPolicy,
                    dj_state = Queued, dj_attempts = 0, dj_createdAt = now, dj_updatedAt = now,
                    dj_completedAt = None, dj_failure = JUndef, dj_blockedReason = None, dj_completion = None,
                    dj_encryptedPayload = enc, dj_lease = None, dj_leaseOutputArtifacts = None\<rparr>
           in bindA (mod_store (\<lambda>st. st\<lparr>st_jobs := st_jobs st @ [j]\<rparr>)) (\<lambda>_. retA (cloneJob j, False))))))"

definition submitJob :: "coord_env \<Rightarrow> jval \<Rightarrow> jval \<Rightarrow> string option \<Rightarrow> string option \<Rightarrow> jval \<Rightarrow> jval \<Rightarrow>
    (coordinator, DistributedJobView \<times> bool) act" where
  "submitJob env toolArg args key replay required inputs =
     bindA (liftR (boundedString toolArg ''tool'' 128)) (\<lambda>tool.
     bindA (liftR (if re_test TOOL_NAME tool then Inr () else fail ''tool has an invalid format.'')) (\<lambda>_.
     bindA (liftR (case args of JObj kvs \<Rightarrow> Inr kvs | _ \<Rightarrow> fail ''args must be an object.'')) (\<lambda>kvs.
     bindA (liftR (if byte_length (payload_text env tool kvs) > MAX_ARGS_BYTES
                   then fail ''Distributed payload exceeds 256000 bytes.'' else Inr ())) (\<lambda>_.
     bindA (liftR (case key of
              Some (c # cs) \<Rightarrow> boundedString (JStr (c # cs)) ''idempotencyKey'' 256
            | _ \<Rightarrow> Inr (''auto:'' @ ce_sha256 env (payload_text env tool kvs)))) (\<lambda>idempotencyKey.
     bindA (liftR (case replay_of_text replay of None \<Rightarrow> fail ''Invalid replayPolicy.'' | Some p \<Rightarrow> Inr p)) (\<lambda>replayPolicy.
     bindA (liftR (uniqueCapabilities (js_or_else required (JArr [])) ''requiredCapabilities'')) (\<lambda>requiredCapabilities.
     bindA (liftR (validateArtifactIds inputs (ce_artifactExists env) ''inputArtifacts'')) (\<lambda>inputArtifacts.
     mutate env (submit_in_store env tool kvs idempotencyKey replayPolicy requiredCapabilities inputArtifacts)))))))))"

text \<open>The oldest queued job the worker is capable of (the sort is stable), and the function \<^verbatim>\<open>leaseJob\<close> runs under
  the lock.\<close>

definition pick_job :: "string list \<Rightarrow> JobRecord list \<Rightarrow> nat option" where
  "pick_job capabilities jobs =
     map_option fst (find (\<lambda>(i, j). list_all (\<lambda>c. c \<in> set capabilities) (dj_requiredCapabilities j))
       (sort_by (le_on (\<lambda>(i, j). dj_createdAt j)) (filter (\<lambda>(i, j). dj_state j = Queued) (List.enumerate 0 jobs))))"

definition new_lease :: "string \<Rightarrow> string \<Rightarrow> string \<Rightarrow> int \<Rightarrow> int \<Rightarrow> int \<Rightarrow> JobRecord \<Rightarrow> JobRecord" where
  "new_lease leaseId workerId tokenId fencing now ttl j = j\<lparr>dj_attempts := dj_attempts j + 1, dj_state := Leased, dj_updatedAt := now,
     dj_leaseOutputArtifacts := Some [],
     dj_lease := Some \<lparr>ls_id = leaseId, ls_workerId = workerId, ls_fencingToken = fencing, ls_issuedAt = now,
       ls_expiresAt = now + ttl, ls_acknowledgedAt = None, ls_lastHeartbeatAt = None, ls_tokenId = tokenId\<rparr>\<rparr>"

definition lease_in_store :: "coord_env \<Rightarrow> string \<Rightarrow> int \<Rightarrow> (work, (DistributedJobView \<times> jval) option) act" where
  "lease_in_store env token ttl =
     bindA (authenticate env token) (\<lambda>(wi, tokenId).
     bindA (nowC env) (\<lambda>now.
     bindA (mod_store (set_worker wi (seen now))) (\<lambda>_.
     bindA (worker_at wi) (\<lambda>w.
     bindA (getsA (\<lambda>s. st_jobs (co_store s))) (\<lambda>jobs.
     case index_where (held_by (dw_id w)) jobs of
       Some i \<Rightarrow> bindA (liftR (leaseView env (jobs ! i))) (\<lambda>v. retA (Some v))
     | None \<Rightarrow>
         (case pick_job (dw_capabilities w) jobs of
            None \<Rightarrow> retA None
          | Some i \<Rightarrow>
              bindA (mod_store (\<lambda>st. st\<lparr>st_nextFencingToken := st_nextFencingToken st + 1\<rparr>)) (\<lambda>_.
              bindA (short_id env ''lease_'' 16) (\<lambda>lid.
              bindA (getsA (\<lambda>s. st_nextFencingToken (co_store s))) (\<lambda>fencing.
              bindA (mod_store (set_job i (new_lease lid (dw_id w) tokenId fencing now ttl))) (\<lambda>_.
              bindA (job_at i) (\<lambda>j.
              bindA (liftR (leaseView env j)) (\<lambda>v. retA (Some v)))))))))))))"

definition leaseJob :: "coord_env \<Rightarrow> string \<Rightarrow> int option \<Rightarrow> (coordinator, (DistributedJobView \<times> jval) option) act" where
  "leaseJob env token ttlMs =
     bindA (liftR (boundTtl (case ttlMs of Some t \<Rightarrow> t | None \<Rightarrow> ce_maxLeaseTtlMs env) (ce_maxLeaseTtlMs env) ''leaseTtlMs'')) (\<lambda>ttl.
     mutate env (lease_in_store env token ttl))"

definition map_lease :: "(job_lease \<Rightarrow> job_lease) \<Rightarrow> JobRecord \<Rightarrow> JobRecord" where
  "map_lease f j = j\<lparr>dj_lease := map_option f (dj_lease j)\<rparr>"

definition state_text :: "DistributedJobState \<Rightarrow> string" where
  "state_text d = (case d of Queued \<Rightarrow> ''queued'' | Leased \<Rightarrow> ''leased'' | Running \<Rightarrow> ''running'' | Completed \<Rightarrow> ''completed''
     | Failed \<Rightarrow> ''failed'' | Blocked \<Rightarrow> ''blocked'' | Cancelled \<Rightarrow> ''cancelled'')"

definition acknowledgeJob :: "coord_env \<Rightarrow> string \<Rightarrow> jval \<Rightarrow> jval \<Rightarrow> jval \<Rightarrow> (coordinator, DistributedJobView) act" where
  "acknowledgeJob env token jobId leaseId fencingToken = mutate env (
     bindA (leased_by env token jobId leaseId fencingToken) (\<lambda>(wi, ji).
     bindA (job_at ji) (\<lambda>j.
     if dj_state j \<noteq> Leased then throwA (PlainError (''Job cannot be acknowledged from state '' @ state_text (dj_state j) @ ''.''))
     else
       bindA (nowC env) (\<lambda>now.
       bindA (mod_store (set_job ji (\<lambda>j. map_lease (\<lambda>l. l\<lparr>ls_acknowledgedAt := Some now, ls_lastHeartbeatAt := Some now\<rparr>)
                (j\<lparr>dj_state := Running, dj_updatedAt := now\<rparr>)))) (\<lambda>_.
       bindA (mod_store (set_worker wi (seen now))) (\<lambda>_.
       bindA (job_at ji) (\<lambda>j'. retA (cloneJob j'))))))))"

definition heartbeat :: "coord_env \<Rightarrow> string \<Rightarrow> jval \<Rightarrow> jval \<Rightarrow> jval \<Rightarrow> int option \<Rightarrow> (coordinator, DistributedJobView) act" where
  "heartbeat env token jobId leaseId fencingToken ttlMs =
     bindA (liftR (boundTtl (case ttlMs of Some t \<Rightarrow> t | None \<Rightarrow> ce_maxLeaseTtlMs env) (ce_maxLeaseTtlMs env) ''leaseTtlMs'')) (\<lambda>ttl.
     mutate env (
       bindA (leased_by env token jobId leaseId fencingToken) (\<lambda>(wi, ji).
       bindA (job_at ji) (\<lambda>j.
       if \<not> in_progress j then throwA (PlainError (''Job is not heartbeat-eligible: '' @ state_text (dj_state j) @ ''.''))
       else
         bindA (nowC env) (\<lambda>now.
         bindA (mod_store (set_job ji (\<lambda>j. map_lease (\<lambda>l. l\<lparr>ls_lastHeartbeatAt := Some now, ls_expiresAt := now + ttl\<rparr>)
                  (j\<lparr>dj_updatedAt := now\<rparr>)))) (\<lambda>_.
         bindA (mod_store (set_worker wi (seen now))) (\<lambda>_.
         bindA (job_at ji) (\<lambda>j'. retA (cloneJob j')))))))))"

definition check_that :: "bool \<Rightarrow> string \<Rightarrow> unit result" where
  "check_that b msg = (if b then Inr () else fail msg)"

definition check_image :: "jval \<Rightarrow> unit result" where
  "check_image v =
     (case v of
        JUndef \<Rightarrow> Inr ()
      | JStr s \<Rightarrow> check_that (re_test HASH (if starts_with ''sha256:'' s then drop 7 s else s)) ''sandboxEvidence.imageDigest must be SHA-256 hex.''
      | _ \<Rightarrow> fail ''sandbox.imageDigest.replace is not a function'')"

definition validateEvidence :: "coord_env \<Rightarrow> jval \<Rightarrow> jobject result" where
  "validateEvidence env value =
     (case value of
        JObj kvs \<Rightarrow>
          bindR (check_that (jget kvs ''schemaVersion'' = JNum 1) ''Unsupported worker evidence schemaVersion.'') (\<lambda>_.
          bindR (assertJobId (js_String (jget kvs ''jobId''))) (\<lambda>_.
          bindR (assertWorkerId (js_String (jget kvs ''workerId''))) (\<lambda>_.
          bindR (boundedString (jget kvs ''leaseId'') ''leaseId'' 128) (\<lambda>_.
          bindR (boundedString (jget kvs ''tool'') ''evidence.tool'' 128) (\<lambda>_.
          bindR (check_that (is_safe_num (jget kvs ''fencingToken'') \<and> num_of (jget kvs ''fencingToken'') \<ge> 1) ''Invalid evidence fencingToken.'') (\<lambda>_.
          bindR (check_that (re_test HASH (js_String (jget kvs ''argsDigest'')) \<and> re_test HASH (js_String (jget kvs ''resultDigest'')))
                   ''Evidence digests must be SHA-256 hex.'') (\<lambda>_.
          bindR (check_that (\<exists>b \<in> {True, False}. jget kvs ''resultOk'' = JBool b) ''Evidence resultOk must be boolean.'') (\<lambda>_.
          bindR (if jget kvs ''resultSummary'' = JUndef then Inr [] else boundedString (jget kvs ''resultSummary'') ''resultSummary'' 2000) (\<lambda>_.
          bindR (validateArtifactIds (jget kvs ''inputArtifacts'') (ce_artifactExists env) ''inputArtifacts'') (\<lambda>_.
          bindR (validateArtifactIds (jget kvs ''outputArtifacts'') (ce_artifactExists env) ''outputArtifacts'') (\<lambda>_.
          bindR (check_that (is_safe_num (jget kvs ''completedAt'') \<and> num_of (jget kvs ''completedAt'') \<ge> 1) ''Invalid evidence completedAt.'') (\<lambda>_.
          (case jget kvs ''sandboxEvidence'' of
             JObj sb \<Rightarrow>
               bindR (check_that (jget sb ''mode'' \<in> set [JStr ''process'', JStr ''docker'', JStr ''podman'', JStr ''remote''])
                        ''Worker evidence requires a valid sandbox mode.'') (\<lambda>_.
               bindR (check_that (re_test HASH (js_String (jget sb ''policyDigest''))) ''sandboxEvidence.policyDigest must be SHA-256 hex.'') (\<lambda>_.
               bindR (check_image (jget sb ''imageDigest'')) (\<lambda>_.
               (case json_copy (JObj kvs) of JObj copy \<Rightarrow> Inr copy | _ \<Rightarrow> Inr []))))
           | _ \<Rightarrow> fail ''Worker evidence requires a valid sandbox mode.'')))))))))))))
      | _ \<Rightarrow> fail ''Unsupported worker evidence schemaVersion.'')"

definition acceptance_json :: "jobject \<Rightarrow> string \<Rightarrow> int \<Rightarrow> jval" where
  "acceptance_json evidence workerSignature acceptedAt =
     JObj [(''evidence'', JObj evidence), (''workerSignature'', JStr workerSignature), (''acceptedAt'', JNum acceptedAt)]"

definition strings_json :: "string list \<Rightarrow> jval" where
  "strings_json ss = JArr (map JStr ss)"

definition CLOCK_SKEW_MS :: int where
  "CLOCK_SKEW_MS = 300000"

text \<open>The checks of \<^verbatim>\<open>completeJob\<close> between the lease check and the acceptance.\<close>

definition evidence_matches :: "coord_env \<Rightarrow> WorkerRecord \<Rightarrow> JobRecord \<Rightarrow> jobject \<Rightarrow> string \<Rightarrow> unit result" where
  "evidence_matches env w j ev workerSignature =
     (if dj_state j \<noteq> Running then fail (''Job completion requires running state; current='' @ state_text (dj_state j) @ ''.'')
      else if jget ev ''workerId'' \<noteq> JStr (dw_id w) \<or> jget ev ''tool'' \<noteq> JStr (dj_tool j) \<or> jget ev ''argsDigest'' \<noteq> JStr (dj_argsDigest j)
      then fail ''Worker evidence does not match the leased job.''
      else if canonicalJson (ce_lc env) (jget ev ''inputArtifacts'') \<noteq> canonicalJson (ce_lc env) (strings_json (dj_inputArtifacts j))
      then fail ''Worker evidence inputArtifacts do not match the job.''
      else bindR (validateArtifactIds (jget ev ''outputArtifacts'') (ce_artifactExists env) ''outputArtifacts'') (\<lambda>out.
        if canonicalJson (ce_lc env) (strings_json out) \<noteq>
           canonicalJson (ce_lc env) (strings_json (case dj_leaseOutputArtifacts j of Some xs \<Rightarrow> xs | None \<Rightarrow> []))
        then fail ''Worker evidence outputArtifacts were not uploaded by the active lease.''
        else if \<not> verifyDistributedEvidence env ev workerSignature (dw_publicKeyPem w)
        then fail ''Worker evidence signature is invalid.''
        else Inr ()))"

definition completed_job :: "coord_env \<Rightarrow> jobject \<Rightarrow> string \<Rightarrow> string \<Rightarrow> int \<Rightarrow> JobRecord \<Rightarrow> JobRecord" where
  "completed_job env ev workerSignature fp now j =
     (let ok = (jget ev ''resultOk'' = JBool True);
          j1 = j\<lparr>dj_state := (if ok then Completed else Failed), dj_updatedAt := now, dj_completedAt := Some now\<rparr>;
          j2 = (if ok then j1
                else j1\<lparr>dj_failure := js_or_else (jget ev ''resultSummary'') (JStr ''Remote worker reported a failed result.'')\<rparr>)
      in clearLease (j2\<lparr>dj_completion := Some \<lparr>dc_evidence = ev, dc_workerSignature = workerSignature,
           dc_coordinatorSignature = ce_sign env (canonicalJson (ce_lc env) (acceptance_json ev workerSignature now)),
           dc_coordinatorKeyFingerprint = fp, dc_acceptedAt = now\<rparr>\<rparr>))"

text \<open>\<^verbatim>\<open>completeJob\<close> once the lease is checked, and as a whole.\<close>

definition accept_completion :: "coord_env \<Rightarrow> jobject \<Rightarrow> string \<Rightarrow> WorkerRecord \<Rightarrow> nat \<Rightarrow> (work, DistributedJobView) act" where
  "accept_completion env ev workerSignature w ji =
     bindA (job_at ji) (\<lambda>j.
     bindA (liftR (evidence_matches env w j ev workerSignature)) (\<lambda>_.
     bindA (nowC env) (\<lambda>now.
     if \<bar>now - num_of (jget ev ''completedAt'')\<bar> > CLOCK_SKEW_MS
     then throwA (PlainError ''Worker evidence completedAt exceeds the allowed clock-skew window.'')
     else
       bindA (liftR (coordinatorPublicKey env)) (\<lambda>(_, fp).
       bindA (mod_store (set_job ji (completed_job env ev workerSignature fp now))) (\<lambda>_.
       bindA (job_at ji) (\<lambda>j'. retA (cloneJob j')))))))"

definition completeJob :: "coord_env \<Rightarrow> string \<Rightarrow> jval \<Rightarrow> string \<Rightarrow> (coordinator, DistributedJobView) act" where
  "completeJob env token value workerSignature = mutate env (
     bindA (authenticate env token) (\<lambda>(wi, tokenId).
     bindA (liftR (validateEvidence env value)) (\<lambda>ev.
     bindA (worker_at wi) (\<lambda>w.
     bindA (matchLease env (dw_id w) (jget ev ''jobId'') (jget ev ''leaseId'') (jget ev ''fencingToken'')) (\<lambda>ji.
     accept_completion env ev workerSignature w ji)))))"

definition authorizeLease :: "coord_env \<Rightarrow> string \<Rightarrow> jval \<Rightarrow> jval \<Rightarrow> jval \<Rightarrow> (coordinator, DistributedJobView) act" where
  "authorizeLease env token jobId leaseId fencingToken = readC (
     bindA (leased_by env token jobId leaseId fencingToken) (\<lambda>(wi, ji).
     bindA (job_at ji) (\<lambda>j. retA (cloneJob j))))"

definition recordOutputArtifact :: "coord_env \<Rightarrow> string \<Rightarrow> jval \<Rightarrow> jval \<Rightarrow> jval \<Rightarrow> jval \<Rightarrow> (coordinator, DistributedJobView) act" where
  "recordOutputArtifact env token jobId leaseId fencingToken artifactId = mutate env (
     bindA (leased_by env token jobId leaseId fencingToken) (\<lambda>(wi, ji).
     bindA (liftR (validateArtifactIds (JArr [artifactId]) (ce_artifactExists env) ''outputArtifacts'')) (\<lambda>validated.
     bindA (job_at ji) (\<lambda>j.
     let out = uniq ((case dj_leaseOutputArtifacts j of Some xs \<Rightarrow> xs | None \<Rightarrow> []) @ validated)
     in if length out > MAX_ARTIFACTS then throwA (PlainError ''outputArtifacts must contain at most 64 artifact ids.'')
        else
          bindA (nowC env) (\<lambda>now.
          bindA (mod_store (set_job ji (\<lambda>j. j\<lparr>dj_leaseOutputArtifacts := Some (sort_by code_unit_le out), dj_updatedAt := now\<rparr>))) (\<lambda>_.
          bindA (job_at ji) (\<lambda>j'. retA (cloneJob j'))))))))"

definition ended_job :: "DistributedJobState \<Rightarrow> string \<Rightarrow> int \<Rightarrow> JobRecord \<Rightarrow> JobRecord" where
  "ended_job d why now j =
     clearLease (j\<lparr>dj_state := d, dj_failure := JStr why, dj_updatedAt := now, dj_completedAt := Some now\<rparr>)"

definition failJob :: "coord_env \<Rightarrow> string \<Rightarrow> jval \<Rightarrow> jval \<Rightarrow> jval \<Rightarrow> jval \<Rightarrow> (coordinator, DistributedJobView) act" where
  "failJob env token jobId leaseId fencingToken reason = mutate env (
     bindA (leased_by env token jobId leaseId fencingToken) (\<lambda>(wi, ji).
     bindA (nowC env) (\<lambda>now.
     bindA (liftR (boundedString reason ''failure reason'' 2000)) (\<lambda>why.
     bindA (mod_store (set_job ji (ended_job Failed why now))) (\<lambda>_.
     bindA (job_at ji) (\<lambda>j. retA (cloneJob j)))))))"

definition cancelJob :: "coord_env \<Rightarrow> string \<Rightarrow> jval \<Rightarrow> (coordinator, DistributedJobView) act" where
  "cancelJob env jobId reason =
     bindA (liftR (assertJobId jobId)) (\<lambda>_.
     mutate env (
       bindA (jobC (JStr jobId)) (\<lambda>ji.
       bindA (job_at ji) (\<lambda>j.
       if terminal (dj_state j) then retA (cloneJob j)
       else
         bindA (nowC env) (\<lambda>now.
         bindA (liftR (boundedString (default_arg reason ''Cancelled by operator.'') ''cancel reason'' 2000)) (\<lambda>why.
         bindA (mod_store (set_job ji (ended_job Cancelled why now))) (\<lambda>_.
         bindA (job_at ji) (\<lambda>j'. retA (cloneJob j')))))))))"

definition retryBlocked :: "coord_env \<Rightarrow> string \<Rightarrow> (coordinator, DistributedJobView) act" where
  "retryBlocked env jobId =
     bindA (liftR (assertJobId jobId)) (\<lambda>_.
     mutate env (
       bindA (jobC (JStr jobId)) (\<lambda>ji.
       bindA (job_at ji) (\<lambda>j.
       if dj_state j \<noteq> Blocked then throwA (PlainError (''Job is not blocked: '' @ state_text (dj_state j)))
       else if dj_replayPolicy j \<noteq> Idempotent
       then throwA (PlainError ''Only idempotent blocked jobs may be retried automatically.'')
       else
         bindA (nowC env) (\<lambda>now.
         bindA (mod_store (set_job ji (\<lambda>j. clearLease (j\<lparr>dj_state := Queued, dj_updatedAt := now, dj_blockedReason := None\<rparr>)))) (\<lambda>_.
         bindA (job_at ji) (\<lambda>j'. retA (cloneJob j'))))))))"

definition getJob :: "string \<Rightarrow> (coordinator, DistributedJobView) act" where
  "getJob jobId =
     bindA (liftR (assertJobId jobId)) (\<lambda>_. readC (bindA (jobC (JStr jobId)) (\<lambda>ji. bindA (job_at ji) (\<lambda>j. retA (cloneJob j)))))"

definition listJobs :: "int \<Rightarrow> (coordinator, DistributedJobView list) act" where
  "listJobs limit =
     (let bounded = nat (max 1 (min 1000 limit)) in
      readC (getsA (\<lambda>s. take bounded (sort_by (\<lambda>a b. dj_updatedAt b \<le> dj_updatedAt a) (map cloneJob (st_jobs (co_store s)))))))"

definition recoverExpiredLeases :: "coord_env \<Rightarrow> (coordinator, string list \<times> string list) act" where
  "recoverExpiredLeases env = withLock env
     (bindA loadStore (\<lambda>_. bindA (on_work (recoverInStore env)) (\<lambda>r. bindA (saveStore env) (\<lambda>_. retA r))))"

record completion_check =
  cc_valid :: bool
  cc_workerValid :: bool
  cc_coordinatorValid :: bool
  cc_job :: DistributedJobView

definition verifyCompletion :: "coord_env \<Rightarrow> string \<Rightarrow> (coordinator, completion_check) act" where
  "verifyCompletion env jobId =
     bindA (liftR (assertJobId jobId)) (\<lambda>_. readC (
       bindA (jobC (JStr jobId)) (\<lambda>ji.
       bindA (job_at ji) (\<lambda>j.
       case dj_completion j of
         None \<Rightarrow> retA \<lparr>cc_valid = False, cc_workerValid = False, cc_coordinatorValid = False, cc_job = cloneJob j\<rparr>
       | Some c \<Rightarrow>
           bindA (workerC (jget (dc_evidence c) ''workerId'')) (\<lambda>wi.
           bindA (worker_at wi) (\<lambda>w.
           let workerValid = verifyDistributedEvidence env (dc_evidence c) (dc_workerSignature c) (dw_publicKeyPem w);
               coordinatorValid = ce_verify env (ce_publicPem env)
                 (canonicalJson (ce_lc env) (acceptance_json (dc_evidence c) (dc_workerSignature c) (dc_acceptedAt c)))
                 (dc_coordinatorSignature c)
           in retA \<lparr>cc_valid = workerValid \<and> coordinatorValid, cc_workerValid = workerValid,
                    cc_coordinatorValid = coordinatorValid, cc_job = cloneJob j\<rparr>))))))"

record coordinator_stats =
  sc_workersTotal :: nat
  sc_workersActive :: nat
  sc_workersRevoked :: nat
  sc_jobs :: "(string \<times> nat) list"
  sc_nextFencingToken :: int
  sc_coordinatorKeyFingerprint :: string

definition coordinator_stats_of :: "coord_env \<Rightarrow> (coordinator, coordinator_stats) act" where
  "coordinator_stats_of env = readC (
     bindA (getsA co_store) (\<lambda>st.
     bindA (liftR (coordinatorPublicKey env)) (\<lambda>(_, fp).
     retA \<lparr>sc_workersTotal = length (st_workers st),
           sc_workersActive = length (filter (\<lambda>w. dw_state w = WActive) (st_workers st)),
           sc_workersRevoked = length (filter (\<lambda>w. dw_state w = WRevoked) (st_workers st)),
           sc_jobs = map (\<lambda>d. (state_text d, length (filter (\<lambda>j. dj_state j = d) (st_jobs st))))
             [Queued, Leased, Running, Completed, Failed, Blocked, Cancelled],
           sc_nextFencingToken = st_nextFencingToken st, sc_coordinatorKeyFingerprint = fp\<rparr>)))"


section \<open>Operations as steps on the store\<close>

text \<open>The changes of the store one at a time.  An operation that succeeds makes a sequence of these steps
  (\<open>op_steps\<close>), so a property of the store is proved once per kind of change.\<close>

lemma index_where_SomeD:
  "index_where p xs = Some i \<Longrightarrow> i < length xs \<and> p (xs ! i) \<and> (\<forall>k < i. \<not> p (xs ! k))"
proof (induction xs arbitrary: i)
  case (Cons x xs)
  then show ?case by (cases "p x"; cases i) (auto simp: nth_Cons' less_Suc_eq_0_disj)
qed simp

lemma index_where_None_iff: "index_where p xs = None \<longleftrightarrow> (\<forall>x \<in> set xs. \<not> p x)"
  by (induction xs) auto

lemma index_where_update: "p y = p (xs ! i) \<Longrightarrow> index_where p (xs[i := y]) = index_where p xs"
proof (induction xs arbitrary: i)
  case (Cons x xs)
  then show ?case by (cases i) auto
qed simp

lemma index_where_append: "index_where p xs = Some i \<Longrightarrow> index_where p (xs @ ys) = Some i"
  by (induction xs arbitrary: i) (auto split: if_splits)

definition worker_index :: "CoordinatorStore \<Rightarrow> string \<Rightarrow> nat option" where
  "worker_index st wid = index_where (\<lambda>w. dw_id w = wid) (st_workers st)"

definition active_worker :: "CoordinatorStore \<Rightarrow> string \<Rightarrow> bool" where
  "active_worker st wid \<longleftrightarrow> (case worker_index st wid of None \<Rightarrow> False | Some i \<Rightarrow> dw_state (st_workers st ! i) = WActive)"

definition worker_key :: "WorkerRecord \<Rightarrow> string \<times> string \<times> string" where
  "worker_key w = (dw_id w, dw_publicKeyPem w, dw_publicKeyFingerprint w)"

definition job_key :: "JobRecord \<Rightarrow> string \<times> string \<times> string \<times> string \<times> string \<times> DistributedReplayPolicy \<times> EncryptedPayload" where
  "job_key j = (dj_id j, dj_idempotencyKey j, dj_tool j, dj_argsDigest j, dj_payloadDigest j, dj_replayPolicy j, dj_encryptedPayload j)"

text \<open>Who holds the lease of the i-th job: the lease, the worker, the fencing token.\<close>

definition lease_key :: "job_lease \<Rightarrow> string \<times> string \<times> int" where
  "lease_key l = (ls_id l, ls_workerId l, ls_fencingToken l)"

definition holder :: "CoordinatorStore \<Rightarrow> nat \<Rightarrow> (string \<times> string \<times> int) option" where
  "holder st i = (if i < length (st_jobs st) then map_option lease_key (dj_lease (st_jobs st ! i)) else None)"

definition payload_of :: "coord_env \<Rightarrow> JobRecord \<Rightarrow> bool" where
  "payload_of env j \<longleftrightarrow> (\<exists>n kvs. case ce_seal env n (payload_text env (dj_tool j) kvs) of (iv, tag, ct) \<Rightarrow>
     dj_encryptedPayload j = \<lparr>ep_algorithm = ''aes-256-gcm'', ep_iv = iv, ep_tag = tag, ep_ciphertext = ct\<rparr> \<and>
     dj_payloadDigest j = ce_sha256 env (payload_text env (dj_tool j) kvs) \<and>
     dj_argsDigest j = ce_sha256 env (canonicalJson (ce_lc env) (JObj kvs)))"

definition fresh_job :: "JobRecord \<Rightarrow> bool" where
  "fresh_job j \<longleftrightarrow> dj_state j = Queued \<and> dj_lease j = None \<and> dj_completion j = None"

inductive store_step :: "coord_env \<Rightarrow> CoordinatorStore \<Rightarrow> CoordinatorStore \<Rightarrow> bool" for env where
  Recover: "store_step env st (st\<lparr>st_jobs := map (recover_job now) (st_jobs st)\<rparr>)"
| AddWorker: "dw_state w = WActive \<Longrightarrow>
    (\<And>w'. w' \<in> set (st_workers st) \<Longrightarrow> dw_state w' = WActive \<Longrightarrow> dw_publicKeyFingerprint w' \<noteq> dw_publicKeyFingerprint w) \<Longrightarrow>
    store_step env st (st\<lparr>st_workers := st_workers st @ [w]\<rparr>)"
| TouchWorker: "i < length (st_workers st) \<Longrightarrow> (\<And>w. worker_key (f w) = worker_key w \<and> dw_state (f w) = dw_state w) \<Longrightarrow>
    store_step env st (set_worker i f st)"
| Revoke: "worker_index st wid = Some i \<Longrightarrow> (\<And>w. worker_key (f w) = worker_key w \<and> dw_state (f w) = WRevoked) \<Longrightarrow>
    store_step env st (revoke_jobs now wid (set_worker i f st))"
| AddJob: "fresh_job j \<Longrightarrow> payload_of env j \<Longrightarrow> (\<And>j'. j' \<in> set (st_jobs st) \<Longrightarrow> dj_idempotencyKey j' \<noteq> dj_idempotencyKey j) \<Longrightarrow>
    store_step env st (st\<lparr>st_jobs := st_jobs st @ [j]\<rparr>)"
| Lease: "i < length (st_jobs st) \<Longrightarrow> dj_state (st_jobs st ! i) = Queued \<Longrightarrow> active_worker st (ls_workerId l) \<Longrightarrow>
    (\<And>j. j \<in> set (st_jobs st) \<Longrightarrow> \<not> held_by (ls_workerId l) j) \<Longrightarrow>
    ls_fencingToken l = st_nextFencingToken st + 1 \<Longrightarrow> ls_acknowledgedAt l = None \<Longrightarrow>
    (\<And>j. job_key (f j) = job_key j \<and> dj_completion (f j) = dj_completion j \<and> dj_state (f j) = Leased \<and> dj_lease (f j) = Some l) \<Longrightarrow>
    store_step env st (set_job i f (st\<lparr>st_nextFencingToken := st_nextFencingToken st + 1\<rparr>))"
| Acknowledge: "i < length (st_jobs st) \<Longrightarrow> dj_state (st_jobs st ! i) = Leased \<Longrightarrow> (\<And>l. lease_key (g l) = lease_key l \<and> ls_acknowledgedAt (g l) \<noteq> None) \<Longrightarrow>
    store_step env st (set_job i (\<lambda>j. map_lease g (j\<lparr>dj_state := Running, dj_updatedAt := now\<rparr>)) st)"
| Keep: "i < length (st_jobs st) \<Longrightarrow> dj_lease (st_jobs st ! i) \<noteq> None \<Longrightarrow>
    (\<And>j. job_key (f j) = job_key j \<and> dj_state (f j) = dj_state j \<and> dj_completion (f j) = dj_completion j) \<Longrightarrow>
    (\<And>j. map_option (\<lambda>l. (lease_key l, ls_acknowledgedAt l)) (dj_lease (f j)) = map_option (\<lambda>l. (lease_key l, ls_acknowledgedAt l)) (dj_lease j)) \<Longrightarrow>
    store_step env st (set_job i f st)"
| Complete: "i < length (st_jobs st) \<Longrightarrow> dj_state (st_jobs st ! i) = Running \<Longrightarrow>
    worker_index st wid = Some wi \<Longrightarrow> jget ev ''workerId'' = JStr wid \<Longrightarrow>
    verifyDistributedEvidence env ev sig (dw_publicKeyPem (st_workers st ! wi)) \<Longrightarrow>
    store_step env st (set_job i (completed_job env ev sig fp now) st)"
| FailLease: "i < length (st_jobs st) \<Longrightarrow> dj_lease (st_jobs st ! i) \<noteq> None \<Longrightarrow>
    store_step env st (set_job i (ended_job Failed why now) st)"
| Cancel: "i < length (st_jobs st) \<Longrightarrow> \<not> terminal (dj_state (st_jobs st ! i)) \<Longrightarrow>
    store_step env st (set_job i (ended_job Cancelled why now) st)"
| Retry: "i < length (st_jobs st) \<Longrightarrow> dj_state (st_jobs st ! i) = Blocked \<Longrightarrow> dj_replayPolicy (st_jobs st ! i) = Idempotent \<Longrightarrow>
    store_step env st (set_job i (\<lambda>j. clearLease (j\<lparr>dj_state := Queued, dj_updatedAt := now, dj_blockedReason := None\<rparr>)) st)"

abbreviation steps :: "coord_env \<Rightarrow> CoordinatorStore \<Rightarrow> CoordinatorStore \<Rightarrow> bool" where
  "steps env \<equiv> (store_step env)\<^sup>*\<^sup>*"

lemmas work_defs = nowC_def uuidC_def short_id_def mod_store_def job_at_def worker_at_def workerC_def jobC_def encryptPayload_def
  fail_def act_defs

text \<open>What the steps of an operation that succeeded say, one per helper.\<close>

lemma workerC_D:
  "workerC v t = (Inr i, t1) \<Longrightarrow> t1 = t \<and> i < length (st_workers (co_store t)) \<and>
     (\<exists>wid. v = JStr wid \<and> worker_index (co_store t) wid = Some i \<and> dw_id (st_workers (co_store t) ! i) = wid)"
  by (cases v) (auto simp: workerC_def fail_def worker_index_def split: option.splits dest: index_where_SomeD)

lemma jobC_D:
  "jobC v t = (Inr i, t1) \<Longrightarrow> t1 = t \<and> i < length (st_jobs (co_store t)) \<and> v = JStr (dj_id (st_jobs (co_store t) ! i)) \<and>
     index_where (\<lambda>j. JStr (dj_id j) = v) (st_jobs (co_store t)) = Some i"
  by (auto simp: jobC_def fail_def split: option.splits dest: index_where_SomeD)

lemma nowC_D: "nowC env t = (r, t1) \<Longrightarrow> \<exists>now. r = Inr now \<and> t1 = t\<lparr>co_reads := Suc (co_reads t)\<rparr> \<and> co_store t1 = co_store t"
  by (auto simp: nowC_def)

lemma authenticate_D:
  assumes "authenticate env token t = (Inr (wi, tid), t1)"
  shows "co_store t1 = co_store t" and "wi < length (st_workers (co_store t))"
    and "worker_index (co_store t) (dw_id (st_workers (co_store t) ! wi)) = Some wi"
    and "dw_state (st_workers (co_store t) ! wi) = WActive" and "dw_activeTokenId (st_workers (co_store t) ! wi) = Some tid"
    and "\<exists>c. token_claims env token = Inr c \<and> jget c ''workerId'' = JStr (dw_id (st_workers (co_store t) ! wi)) \<and>
      jget c ''tokenId'' = JStr tid \<and> ce_now env (co_reads t) < num_of (jget c ''expiresAt'')"
  using assms
  by (auto simp: authenticate_def worker_at_def nowC_def throwA_def retA_def liftR_def not_le
      dest!: workerC_D elim!: bindA_InrE split: if_splits option.splits)

lemma matchLease_D:
  assumes "matchLease env wid jobId leaseId fencing t = (Inr ji, t1)"
  obtains l where "co_store t1 = co_store t" "ji < length (st_jobs (co_store t))" "dj_lease (st_jobs (co_store t) ! ji) = Some l"
    "ls_workerId l = wid" "leaseId = JStr (ls_id l)" "fencing = JNum (ls_fencingToken l)" "ce_now env (co_reads t) < ls_expiresAt l"
    "jobId = JStr (dj_id (st_jobs (co_store t) ! ji))"
  using assms
  by (auto simp: matchLease_def job_at_def nowC_def throwA_def retA_def liftR_def mod_store_def not_le
      dest!: jobC_D elim!: bindA_InrE split: if_splits option.splits)

text \<open>An operation changes the file only when it succeeds, and then by recovery followed by its own steps.\<close>

lemma recoverInStore_eq:
  "recoverInStore env t = (Inr (map dj_id (filter (\<lambda>j. dj_state (recover_job (ce_now env (co_reads t)) j) = Queued) (filter (lease_due (ce_now env (co_reads t))) (st_jobs (co_store t)))),
       map dj_id (filter (\<lambda>j. dj_state (recover_job (ce_now env (co_reads t)) j) = Blocked) (filter (lease_due (ce_now env (co_reads t))) (st_jobs (co_store t))))),
     t\<lparr>co_store := (co_store t)\<lparr>st_jobs := map (recover_job (ce_now env (co_reads t))) (st_jobs (co_store t))\<rparr>, co_reads := Suc (co_reads t)\<rparr>)"
  by (simp add: recoverInStore_def bindA_def nowC_def Let_def)

lemma clear_stale_lock_file: "clear_stale_lock env s = (Inr (), s') \<Longrightarrow> co_file s' = co_file s"
  by (auto simp: clear_stale_lock_def bindA_def on_work_def nowC_def split: option.splits)

lemma withLock_cases:
  obtains (ran) s1 s2 where "co_file s1 = co_file s" "fn s1 = (fst (withLock env fn s), s2)" "co_file (snd (withLock env fn s)) = co_file s2"
  | (refused) e where "fst (withLock env fn s) = Inl e" "co_file (snd (withLock env fn s)) = co_file s"
proof -
  obtain s1 where s1: "clear_stale_lock env s = (Inr (), s1)"
    by (cases "co_lock s") (auto simp: clear_stale_lock_def bindA_def on_work_def nowC_def)
  show thesis
  proof (cases "co_lock s1")
    case None
    let ?s2 = "s1\<lparr>co_work := (co_work s1)\<lparr>co_reads := Suc (co_reads (co_work s1))\<rparr>, co_lock := Some (ce_now env (co_reads (co_work s1)))\<rparr>"
    have "withLock env fn s = (case fn ?s2 of (r, s') \<Rightarrow> (r, s'\<lparr>co_lock := None\<rparr>))"
      using None s1 by (simp add: withLock_def bindA_def on_work_def nowC_def modifyA_def split: sum.split)
    then show thesis using ran [of ?s2 "snd (fn ?s2)"] clear_stale_lock_file [OF s1] by (simp add: case_prod_beta)
  next
    case (Some t)
    then show thesis using refused clear_stale_lock_file [OF s1] s1 by (simp add: withLock_def bindA_def)
  qed
qed

lemma saveStore_cases:
  obtains "saveStore env s = (Inr (), s\<lparr>co_writes := Suc (co_writes s), co_file := Some (co_store (co_work s))\<rparr>)"
  | e where "saveStore env s = (Inl e, s\<lparr>co_writes := Suc (co_writes s)\<rparr>)"
  by (cases "ce_write env (co_writes s)") (auto simp: saveStore_def Let_def)

definition recovered :: "int \<Rightarrow> CoordinatorStore \<Rightarrow> CoordinatorStore" where
  "recovered now st = st\<lparr>st_jobs := map (recover_job now) (st_jobs st)\<rparr>"

lemma mutate_cases:
  obtains (saved) t x t1 now where "co_store t = recovered now (file_store s)" "fn t = (Inr x, t1)"
      "fst (mutate env fn s) = Inr x" "co_file (snd (mutate env fn s)) = Some (co_store t1)"
  | (unchanged) e where "fst (mutate env fn s) = Inl e" "co_file (snd (mutate env fn s)) = co_file s"
proof -
  let ?m = "bindA loadStore (\<lambda>_. bindA (on_work (recoverInStore env)) (\<lambda>_. bindA (on_work fn) (\<lambda>r. bindA (saveStore env) (\<lambda>_. retA r))))"
  show thesis
  proof (cases rule: withLock_cases [of s ?m env])
    case (ran s1 s2)
    let ?t0 = "(co_work s1)\<lparr>co_store := file_store s1\<rparr>"
    let ?t = "snd (recoverInStore env ?t0)" and ?s3 = "s1\<lparr>co_work := snd (recoverInStore env ?t0)\<rparr>"
    have t: "co_store ?t = recovered (ce_now env (co_reads (co_work s1))) (file_store s)"
      using ran(1) by (simp add: recoverInStore_eq recovered_def file_store_def)
    have m: "?m s1 = bindA (on_work fn) (\<lambda>r. bindA (saveStore env) (\<lambda>_. retA r)) ?s3"
      by (simp add: bindA_def loadStore_def on_work_def recoverInStore_eq)
    show thesis
    proof (cases "fn ?t")
      case (Pair r t1)
      show thesis
      proof (cases r)
        case (Inl e)
        with Pair m ran have "fst (mutate env fn s) = Inl e" "co_file (snd (mutate env fn s)) = co_file s"
          by (auto simp: mutate_def bindA_def on_work_def)
        then show thesis by (rule unchanged)
      next
        case (Inr x)
        with Pair m have m1: "?m s1 = bindA (saveStore env) (\<lambda>_. retA x) (?s3\<lparr>co_work := t1\<rparr>)"
          by (simp add: bindA_def on_work_def)
        show thesis
        proof (cases rule: saveStore_cases [of env "?s3\<lparr>co_work := t1\<rparr>"])
          case 1
          with m1 ran t Pair Inr show thesis by (intro saved [of ?t _ x t1]) (auto simp: mutate_def bindA_def retA_def)
        next
          case (2 e)
          with m1 ran show thesis by (intro unchanged [of e]) (auto simp: mutate_def bindA_def retA_def)
        qed
      qed
    qed
  next
    case (refused e)
    then show thesis by (intro unchanged) (auto simp: mutate_def)
  qed
qed

lemma file_store_same: "co_file s' = co_file s \<Longrightarrow> file_store s' = file_store s"
  by (simp add: file_store_def)

lemma mutate_steps:
  assumes "\<And>t x t1. fn t = (Inr x, t1) \<Longrightarrow> steps env (co_store t) (co_store t1)"
  shows "steps env (file_store s) (file_store (snd (mutate env fn s)))"
proof (cases rule: mutate_cases [of s fn env])
  case (saved t x t1 now)
  have "steps env (file_store s) (co_store t)"
    unfolding saved(1) recovered_def by (rule r_into_rtranclp, rule Recover)
  also have "steps env (co_store t) (co_store t1)" by (rule assms [OF saved(2)])
  finally show ?thesis using saved(4) by (simp add: file_store_def)
next
  case (unchanged e)
  then have "file_store (snd (mutate env fn s)) = file_store s" by (intro file_store_same)
  then show ?thesis by simp
qed

lemma liftR_steps:
  assumes "\<And>x. steps env (file_store s) (file_store (snd (f x s)))"
  shows "steps env (file_store s) (file_store (snd (bindA (liftR r) f s)))"
  using assms by (cases r) (auto simp: bindA_def liftR_def)

lemma one_step: "store_step env st st' \<Longrightarrow> steps env st st'"
  by (rule r_into_rtranclp)

lemma two_steps: "store_step env st st' \<Longrightarrow> store_step env st' st'' \<Longrightarrow> steps env st st''"
  by (meson converse_rtranclp_into_rtranclp r_into_rtranclp)

lemma leased_by_D:
  assumes "leased_by env token jobId leaseId fencing t = (Inr (wi, ji), t1)"
  obtains l where "co_store t1 = co_store t" "wi < length (st_workers (co_store t))" "ji < length (st_jobs (co_store t))"
    "dj_lease (st_jobs (co_store t) ! ji) = Some l" "ls_workerId l = dw_id (st_workers (co_store t) ! wi)"
    "leaseId = JStr (ls_id l)" "fencing = JNum (ls_fencingToken l)" "jobId = JStr (dj_id (st_jobs (co_store t) ! ji))"
    "worker_index (co_store t) (ls_workerId l) = Some wi" "dw_state (st_workers (co_store t) ! wi) = WActive"
    "\<exists>n. ce_now env n < ls_expiresAt l"
    "\<exists>c n tid. token_claims env token = Inr c \<and> jget c ''tokenId'' = JStr tid \<and> ce_now env n < num_of (jget c ''expiresAt'') \<and>
       dw_activeTokenId (st_workers (co_store t) ! wi) = Some tid"
proof -
  from assms obtain tid t2 where a: "authenticate env token t = (Inr (wi, tid), t2)"
    and m: "matchLease env (dw_id (st_workers (co_store t2) ! wi)) jobId leaseId fencing t2 = (Inr ji, t1)"
    by (auto simp: leased_by_def worker_at_def retA_def elim!: bindA_InrE)
  note ad = authenticate_D [OF a]
  show thesis
    by (rule matchLease_D [OF m]) (use ad that in \<open>metis\<close>)
qed

lemma seen_key: "worker_key (seen now w) = worker_key w \<and> dw_state (seen now w) = dw_state w"
  by (simp add: seen_def worker_key_def)

lemma set_job_length [simp]: "length (st_jobs (set_job i f st)) = length (st_jobs st)"
  and set_job_workers [simp]: "st_workers (set_job i f st) = st_workers st"
  and set_worker_length [simp]: "length (st_workers (set_worker i g st)) = length (st_workers st)"
  and set_worker_jobs [simp]: "st_jobs (set_worker i g st) = st_jobs st"
  by (simp_all add: set_job_def set_worker_def)

lemma registerWorker_steps:
  "steps env (file_store s) (file_store (snd (registerWorker env nm caps pem ttl s)))"
proof -
  have new: "steps env st (set_worker (length (st_workers st)) f (st\<lparr>st_workers := st_workers st @ [w]\<rparr>))"
    if "find (\<lambda>w. dw_publicKeyFingerprint w = dw_publicKeyFingerprint w0 \<and> dw_state w = WActive) (st_workers st) = None"
      "w0 = w" "dw_state w = WActive" "\<And>w. worker_key (f w) = worker_key w \<and> dw_state (f w) = dw_state w" for st f w w0
    using that by (intro two_steps [OF AddWorker TouchWorker]) (auto simp: find_None_iff_all)
  show ?thesis
    unfolding registerWorker_def case_prod_beta
    apply (intro liftR_steps mutate_steps)
    apply (auto simp: getsA_def issueTokenInStore_def Let_def work_defs elim!: bindA_InrE split: option.splits)
    apply (rule new)
    apply (auto simp: worker_key_def)
    done
qed

lemma rotateWorkerToken_steps:
  "steps env (file_store s) (file_store (snd (rotateWorkerToken env wid ttl s)))"
  unfolding rotateWorkerToken_def
  by (intro liftR_steps mutate_steps)
    (auto simp: issueTokenInStore_def Let_def nowC_def uuidC_def mod_store_def worker_at_def throwA_def retA_def worker_key_def
      dest!: workerC_D elim!: bindA_InrE split: if_splits intro!: one_step TouchWorker)

lemma revokeWorker_steps:
  "steps env (file_store s) (file_store (snd (revokeWorker env wid reason s)))"
  unfolding revokeWorker_def
  by (intro liftR_steps mutate_steps)
    (auto simp: nowC_def mod_store_def worker_at_def liftR_def retA_def worker_key_def
      dest!: workerC_D elim!: bindA_InrE intro!: one_step Revoke)

lemma acknowledgeJob_steps:
  "steps env (file_store s) (file_store (snd (acknowledgeJob env token a b c s)))"
  unfolding acknowledgeJob_def
  by (intro mutate_steps)
    (auto simp: nowC_def mod_store_def job_at_def throwA_def retA_def seen_key lease_key_def
      elim!: bindA_InrE leased_by_D split: if_splits intro!: two_steps [OF Acknowledge TouchWorker])

lemma heartbeat_steps:
  "steps env (file_store s) (file_store (snd (heartbeat env token a b c ttl s)))"
  unfolding heartbeat_def
  by (intro liftR_steps mutate_steps)
    (auto simp: nowC_def mod_store_def job_at_def throwA_def retA_def seen_key lease_key_def map_lease_def job_key_def
        option.map_comp comp_def
      elim!: bindA_InrE leased_by_D split: if_splits intro!: two_steps [OF Keep TouchWorker])

lemma recordOutputArtifact_steps:
  "steps env (file_store s) (file_store (snd (recordOutputArtifact env token a b c d s)))"
  unfolding recordOutputArtifact_def
  by (intro mutate_steps)
    (auto simp: nowC_def mod_store_def job_at_def liftR_def throwA_def retA_def job_key_def Let_def
      elim!: bindA_InrE leased_by_D split: if_splits intro!: one_step Keep)

lemma failJob_steps: "steps env (file_store s) (file_store (snd (failJob env token a b c d s)))"
  unfolding failJob_def
  by (intro mutate_steps)
    (auto simp: nowC_def mod_store_def job_at_def liftR_def retA_def
      elim!: bindA_InrE leased_by_D intro!: one_step FailLease)

lemma cancelJob_steps: "steps env (file_store s) (file_store (snd (cancelJob env i reason s)))"
  unfolding cancelJob_def
  apply (intro liftR_steps mutate_steps)
  apply (auto simp: nowC_def mod_store_def job_at_def liftR_def throwA_def retA_def
      dest!: jobC_D elim!: bindA_InrE split: if_splits)
  apply (rule one_step, rule Cancel)
   apply assumption+
  done

lemma retryBlocked_steps: "steps env (file_store s) (file_store (snd (retryBlocked env i s)))"
  unfolding retryBlocked_def
  by (intro liftR_steps mutate_steps)
    (auto simp: nowC_def mod_store_def job_at_def throwA_def retA_def
      dest!: jobC_D elim!: bindA_InrE split: if_splits intro!: one_step Retry)

lemma pick_job_D:
  assumes "pick_job caps jobs = Some i"
  shows "i < length jobs" and "dj_state (jobs ! i) = Queued" and "set (dj_requiredCapabilities (jobs ! i)) \<subseteq> set caps"
    and "\<And>k. k < length jobs \<Longrightarrow> dj_state (jobs ! k) = Queued \<Longrightarrow> set (dj_requiredCapabilities (jobs ! k)) \<subseteq> set caps \<Longrightarrow>
      dj_createdAt (jobs ! i) \<le> dj_createdAt (jobs ! k)"
proof -
  let ?q = "filter (\<lambda>(i, j). dj_state j = Queued) (List.enumerate 0 jobs)"
  let ?le = "le_on (\<lambda>(i, j). dj_createdAt j)"
  let ?p = "\<lambda>(i, j). list_all (\<lambda>c. c \<in> set caps) (dj_requiredCapabilities j)"
  from assms obtain j where f: "find ?p (sort_by ?le ?q) = Some (i, j)"
    by (auto simp: pick_job_def)
  then obtain n where n: "n < length (sort_by ?le ?q)" "?p (sort_by ?le ?q ! n)" "(i, j) = sort_by ?le ?q ! n"
      "\<And>m. m < n \<Longrightarrow> \<not> ?p (sort_by ?le ?q ! m)"
    by (auto simp: find_Some_iff)
  have "(i, j) \<in> set (sort_by ?le ?q)" using n by (metis nth_mem)
  then have ij: "i < length jobs" "j = jobs ! i" "dj_state (jobs ! i) = Queued" by (auto simp: in_set_enumerate_eq)
  then show "i < length jobs" "dj_state (jobs ! i) = Queued" "set (dj_requiredCapabilities (jobs ! i)) \<subseteq> set caps"
    using n(2) n(3) [symmetric] by (auto simp: list_all_iff)
  fix k assume k: "k < length jobs" "dj_state (jobs ! k) = Queued" "set (dj_requiredCapabilities (jobs ! k)) \<subseteq> set caps"
  then have "(k, jobs ! k) \<in> set (sort_by ?le ?q)" by (simp add: in_set_enumerate_eq)
  then obtain m where m: "m < length (sort_by ?le ?q)" "sort_by ?le ?q ! m = (k, jobs ! k)" by (metis in_set_conv_nth)
  then have "\<not> m < n" using n(4) [of m] k(3) m(2) by (auto simp: list_all_iff)
  then consider "m = n" | "n < m" by linarith
  then show "dj_createdAt (jobs ! i) \<le> dj_createdAt (jobs ! k)"
  proof cases
    case 1
    with m(2) n(3) show ?thesis by simp
  next
    case 2
    from sorted_wrt_nth_less [OF key_order.sort_by_sorted this m(1)]
    have "?le (i, j) (k, jobs ! k)" unfolding m(2) n(3) [symmetric] .
    then show ?thesis using ij(2) by (simp add: le_on_def)
  qed
qed

lemma worker_index_set_worker:
  "(\<And>w. worker_key (f w) = worker_key w) \<Longrightarrow> worker_index (set_worker i f st) wid = worker_index st wid"
  by (auto simp: worker_index_def set_worker_def worker_key_def intro!: index_where_update)

lemma active_worker_set_worker:
  assumes "\<And>w. worker_key (f w) = worker_key w \<and> dw_state (f w) = dw_state w"
  shows "active_worker (set_worker i f st) wid = active_worker st wid"
proof (cases "worker_index st wid")
  case None
  then show ?thesis using assms by (simp add: active_worker_def worker_index_set_worker)
next
  case (Some n)
  then have "n < length (st_workers st)" using index_where_SomeD by (auto simp: worker_index_def)
  then have "dw_state (st_workers (set_worker i f st) ! n) = dw_state (st_workers st ! n)"
    using assms by (cases "i = n") (simp_all add: set_worker_def)
  with Some show ?thesis using assms by (simp add: active_worker_def worker_index_set_worker)
qed

lemma active_workerI: "worker_index st wid = Some i \<Longrightarrow> dw_state (st_workers st ! i) = WActive \<Longrightarrow> active_worker st wid"
  by (simp add: active_worker_def)

text \<open>The three ways to lease: the job already held, none, or a new lease.\<close>

lemma lease_in_store_D:
  assumes "lease_in_store env token ttl t = (Inr x, t1)"
  obtains wi tid now st where "wi < length (st_workers (co_store t))" "st = set_worker wi (seen now) (co_store t)"
    "worker_index (co_store t) (dw_id (st_workers (co_store t) ! wi)) = Some wi" "dw_state (st_workers (co_store t) ! wi) = WActive"
    "(\<exists>i v. index_where (held_by (dw_id (st_workers st ! wi))) (st_jobs st) = Some i \<and> co_store t1 = st \<and>
        leaseView env (st_jobs st ! i) = Inr v \<and> x = Some v) \<or>
     co_store t1 = st \<and> x = None \<or>
     (\<exists>i lid v. index_where (held_by (dw_id (st_workers st ! wi))) (st_jobs st) = None \<and>
        pick_job (dw_capabilities (st_workers st ! wi)) (st_jobs st) = Some i \<and>
        co_store t1 = set_job i (new_lease lid (dw_id (st_workers st ! wi)) tid (st_nextFencingToken st + 1) now ttl)
          (st\<lparr>st_nextFencingToken := st_nextFencingToken st + 1\<rparr>) \<and>
        leaseView env (st_jobs (co_store t1) ! i) = Inr v \<and> x = Some v)"
proof -
  obtain wi tid t2 where a: "authenticate env token t = (Inr (wi, tid), t2)"
    using assms by (auto simp: lease_in_store_def elim!: bindA_InrE)
  note ad = authenticate_D [OF a]
  show thesis
    by (rule that [OF ad(2) refl ad(3,4), of "ce_now env (co_reads t2)" tid])
      (use assms a ad(1) in \<open>(auto simp: lease_in_store_def bindA_Inr getsA_def nowC_def uuidC_def short_id_def mod_store_def job_at_def
        worker_at_def liftR_def retA_def elim!: bindA_InrE split: option.splits; blast)\<close>)
qed

lemma leaseJob_steps: "steps env (file_store s) (file_store (snd (leaseJob env token ttl s)))"
  unfolding leaseJob_def
proof (intro liftR_steps mutate_steps, erule lease_in_store_D, goal_cases)
  case (1 ttl' t x t1 wi tid now st)
  let ?w = "st_workers st ! wi"
  have touch: "store_step env (co_store t) st" unfolding 1(2) by (rule TouchWorker [OF 1(1)]) (rule seen_key)
  have w: "dw_id ?w = dw_id (st_workers (co_store t) ! wi)" using 1(1,2) by (simp add: set_worker_def seen_def)
  have act: "active_worker st (dw_id ?w)"
    unfolding w unfolding 1(2) active_worker_set_worker [OF seen_key] by (rule active_workerI [OF 1(3,4)])
  from 1(5) consider "co_store t1 = st"
    | i lid where "index_where (held_by (dw_id ?w)) (st_jobs st) = None" "pick_job (dw_capabilities ?w) (st_jobs st) = Some i"
      "co_store t1 = set_job i (new_lease lid (dw_id ?w) tid (st_nextFencingToken st + 1) now ttl')
          (st\<lparr>st_nextFencingToken := st_nextFencingToken st + 1\<rparr>)" by blast
  then show ?case
  proof cases
    case 1
    then show ?thesis using touch by (simp add: one_step)
  next
    case (2 i lid)
    note pk = pick_job_D [OF 2(2)]
    show ?thesis unfolding 2(3)
      by (rule two_steps [OF touch Lease [where l = "\<lparr>ls_id = lid, ls_workerId = dw_id ?w, ls_fencingToken = st_nextFencingToken st + 1,
            ls_issuedAt = now, ls_expiresAt = now + ttl', ls_acknowledgedAt = None, ls_lastHeartbeatAt = None, ls_tokenId = tid\<rparr>"]])
        (use pk act 2(1) in \<open>auto simp: job_key_def new_lease_def index_where_None_iff\<close>)
  qed
qed

lemma accept_completion_D:
  assumes "accept_completion env ev sig w ji t = (Inr x, t1)"
  obtains fp now where "co_store t1 = set_job ji (completed_job env ev sig fp now) (co_store t)"
    "evidence_matches env w (st_jobs (co_store t) ! ji) ev sig = Inr ()" "\<bar>now - num_of (jget ev ''completedAt'')\<bar> \<le> CLOCK_SKEW_MS"
  using assms
  by (auto simp: accept_completion_def nowC_def mod_store_def job_at_def liftR_def throwA_def retA_def not_less
      elim!: bindA_InrE split: if_splits)

text \<open>A completion that goes through: the worker, the evidence and the job.\<close>

lemma complete_in_store_D:
  assumes "bindA (authenticate env token) (\<lambda>(wi, tokenId).
     bindA (liftR (validateEvidence env value)) (\<lambda>ev.
     bindA (worker_at wi) (\<lambda>w.
     bindA (matchLease env (dw_id w) (jget ev ''jobId'') (jget ev ''leaseId'') (jget ev ''fencingToken'')) (\<lambda>ji.
     accept_completion env ev sig w ji)))) t = (Inr x, t1)"
  obtains wi ev ji l fp now where "validateEvidence env value = Inr ev" "wi < length (st_workers (co_store t))"
    "worker_index (co_store t) (dw_id (st_workers (co_store t) ! wi)) = Some wi" "dw_state (st_workers (co_store t) ! wi) = WActive"
    "ji < length (st_jobs (co_store t))" "dj_lease (st_jobs (co_store t) ! ji) = Some l"
    "ls_workerId l = dw_id (st_workers (co_store t) ! wi)" "jget ev ''leaseId'' = JStr (ls_id l)"
    "jget ev ''fencingToken'' = JNum (ls_fencingToken l)" "jget ev ''jobId'' = JStr (dj_id (st_jobs (co_store t) ! ji))"
    "evidence_matches env (st_workers (co_store t) ! wi) (st_jobs (co_store t) ! ji) ev sig = Inr ()"
    "\<bar>now - num_of (jget ev ''completedAt'')\<bar> \<le> CLOCK_SKEW_MS"
    "co_store t1 = set_job ji (completed_job env ev sig fp now) (co_store t)"
proof -
  from assms obtain wi tid t2 ev ji t3 where a: "authenticate env token t = (Inr (wi, tid), t2)" and ev: "validateEvidence env value = Inr ev"
    and m: "matchLease env (dw_id (st_workers (co_store t2) ! wi)) (jget ev ''jobId'') (jget ev ''leaseId'') (jget ev ''fencingToken'') t2 = (Inr ji, t3)"
    and c: "accept_completion env ev sig (st_workers (co_store t2) ! wi) ji t3 = (Inr x, t1)"
    by (auto simp: worker_at_def liftR_def elim!: bindA_InrE)
  note ad = authenticate_D [OF a]
  show thesis
    by (rule matchLease_D [OF m], rule accept_completion_D [OF c], rule that [OF ev ad(2-4)]) (use ad(1) in auto)
qed

lemma completeJob_steps: "steps env (file_store s) (file_store (snd (completeJob env token value sig s)))"
  unfolding completeJob_def
proof (rule mutate_steps, erule complete_in_store_D, goal_cases)
  case (1 t x t1 wi ev ji l fp now)
  then have "dj_state (st_jobs (co_store t) ! ji) = Running" "jget ev ''workerId'' = JStr (dw_id (st_workers (co_store t) ! wi))"
      "verifyDistributedEvidence env ev sig (dw_publicKeyPem (st_workers (co_store t) ! wi))"
    by (auto simp: evidence_matches_def fail_def split: if_splits)
  with 1 show ?case by (simp only: 1(13)) (intro one_step Complete, auto)
qed

lemma submitJob_steps: "steps env (file_store s) (file_store (snd (submitJob env tool args key replay req inputs s)))"
proof -
  have "steps env (co_store t) (co_store t1)" if "submit_in_store env tool kvs ik p caps ins t = (Inr x, t1)" for tool kvs ik p caps ins t x t1
  proof (cases "find (\<lambda>j. dj_idempotencyKey j = ik) (st_jobs (co_store t))")
    case (Some d)
    with that show ?thesis by (auto simp: submit_in_store_def getsA_def throwA_def retA_def elim!: bindA_InrE split: if_splits)
  next
    case None
    let ?n = "Suc (co_draws t)"
    obtain iv tag ct where seal: "ce_seal env ?n (payload_text env tool kvs) = (iv, tag, ct)" by (cases "ce_seal env ?n (payload_text env tool kvs)") auto
    from that None obtain j where "co_store t1 = (co_store t)\<lparr>st_jobs := st_jobs (co_store t) @ [j]\<rparr>" "fresh_job j" "dj_idempotencyKey j = ik"
        "dj_tool j = tool" "dj_encryptedPayload j = \<lparr>ep_algorithm = ''aes-256-gcm'', ep_iv = iv, ep_tag = tag, ep_ciphertext = ct\<rparr>"
        "dj_payloadDigest j = ce_sha256 env (payload_text env tool kvs)" "dj_argsDigest j = ce_sha256 env (canonicalJson (ce_lc env) (JObj kvs))"
      using seal by (auto simp: submit_in_store_def getsA_def nowC_def uuidC_def short_id_def encryptPayload_def mod_store_def throwA_def
          retA_def Let_def fresh_job_def elim!: bindA_InrE split: if_splits)
    moreover from this seal have "payload_of env j" unfolding payload_of_def by (intro exI [of _ ?n] exI [of _ kvs]) simp
    ultimately show ?thesis using None by (auto simp: find_None_iff_all intro!: one_step AddJob)
  qed
  then show ?thesis unfolding submitJob_def by (intro liftR_steps mutate_steps)
qed

lemma recoverExpiredLeases_steps: "steps env (file_store s) (file_store (snd (recoverExpiredLeases env s)))"
proof -
  let ?m = "bindA loadStore (\<lambda>_. bindA (on_work (recoverInStore env)) (\<lambda>r. bindA (saveStore env) (\<lambda>_. retA r)))"
  show ?thesis
  proof (cases rule: withLock_cases [of s ?m env])
    case (ran s1 s2)
    let ?s3 = "s1\<lparr>co_work := snd (recoverInStore env ((co_work s1)\<lparr>co_store := file_store s1\<rparr>))\<rparr>"
    have m: "snd (?m s1) = snd (saveStore env ?s3)"
      by (cases rule: saveStore_cases [of env ?s3]) (simp_all add: bindA_def loadStore_def on_work_def recoverInStore_eq retA_def)
    have "steps env (file_store s1) (file_store (snd (saveStore env ?s3)))"
    proof (cases rule: saveStore_cases [of env ?s3])
      case 1
      then show ?thesis by (simp add: file_store_def [of "s1\<lparr>co_writes := _, co_file := _, co_work := _\<rparr>"] recoverInStore_eq one_step [OF Recover] file_store_def)
    next
      case (2 e)
      then show ?thesis by (simp add: file_store_def)
    qed
    with m ran show ?thesis by (simp add: recoverExpiredLeases_def file_store_def)
  next
    case (refused e)
    then have "file_store (snd (recoverExpiredLeases env s)) = file_store s"
      by (intro file_store_same) (simp add: recoverExpiredLeases_def)
    then show ?thesis by simp
  qed
qed

section \<open>The life of a job\<close>

text \<open>The abstract machine of one job: what the states and the leases of the store mean.\<close>

datatype job_phase = PQueued | PLeased string int | PRunning string int | PBlocked | PDone DistributedJobState

inductive job_step :: "DistributedReplayPolicy \<Rightarrow> job_phase \<Rightarrow> job_phase \<Rightarrow> bool" for r where
  lease: "job_step r PQueued (PLeased w f)"
| start: "job_step r (PLeased w f) (PRunning w f)"
| release: "job_step r (PLeased w f) PQueued"
| requeue: "r = Idempotent \<Longrightarrow> job_step r (PRunning w f) PQueued"
| block: "r = NoReplay \<Longrightarrow> job_step r (PRunning w f) PBlocked"
| retry: "r = Idempotent \<Longrightarrow> job_step r PBlocked PQueued"
| finish: "d = Completed \<or> d = Failed \<Longrightarrow> job_step r (PRunning w f) (PDone d)"
| abandon: "job_step r (PLeased w f) (PDone Failed)"
| cancel: "(\<And>d. p \<noteq> PDone d) \<Longrightarrow> job_step r p (PDone Cancelled)"

inductive_cases job_stepE: "job_step r p q"

definition phase :: "JobRecord \<Rightarrow> job_phase" where
  "phase j = (let h = (case dj_lease j of Some l \<Rightarrow> (ls_workerId l, ls_fencingToken l) | None \<Rightarrow> ([], 0)) in
     case dj_state j of Queued \<Rightarrow> PQueued | Leased \<Rightarrow> PLeased (fst h) (snd h) | Running \<Rightarrow> PRunning (fst h) (snd h)
     | Blocked \<Rightarrow> PBlocked | d \<Rightarrow> PDone d)"

text \<open>A job without replay that has started running is not handed out again.\<close>

lemma no_replay_once:
  assumes "(job_step NoReplay)\<^sup>*\<^sup>* p q" "p = PRunning w f \<or> p = PBlocked \<or> (\<exists>d. p = PDone d)"
  shows "q = PRunning w f \<and> p = q \<or> q = PBlocked \<or> (\<exists>d. q = PDone d)"
  using assms
proof (induction rule: rtranclp_induct)
  case (step q q')
  then show ?case by (auto elim!: job_stepE)
qed auto

definition job_ok :: "JobRecord \<Rightarrow> bool" where
  "job_ok j \<longleftrightarrow> (dj_lease j \<noteq> None \<longleftrightarrow> in_progress j) \<and>
     (\<forall>l. dj_lease j = Some l \<longrightarrow> (ls_acknowledgedAt l \<noteq> None \<longleftrightarrow> dj_state j = Running)) \<and>
     (dj_completion j \<noteq> None \<longrightarrow> dj_state j = Completed \<or> dj_state j = Failed) \<and>
     (dj_state j = Completed \<longrightarrow> dj_completion j \<noteq> None)"

definition job_evolves :: "JobRecord \<Rightarrow> JobRecord \<Rightarrow> bool" where
  "job_evolves j j' \<longleftrightarrow> job_key j' = job_key j \<and> (job_step (dj_replayPolicy j))\<^sup>*\<^sup>* (phase j) (phase j') \<and>
     (terminal (dj_state j) \<longrightarrow> j' = j)"

lemma job_evolves_refl [simp]: "job_evolves j j"
  by (simp add: job_evolves_def)

lemma job_evolves_trans: "job_evolves j j' \<Longrightarrow> job_evolves j' j'' \<Longrightarrow> job_evolves j j''"
  by (auto simp: job_evolves_def job_key_def)

lemma job_evolvesI:
  "job_key j' = job_key j \<Longrightarrow> job_step (dj_replayPolicy j) (phase j) (phase j') \<Longrightarrow> \<not> terminal (dj_state j) \<Longrightarrow> job_evolves j j'"
  by (simp add: job_evolves_def r_into_rtranclp)

lemmas job_defs = job_ok_def in_progress_def job_key_def phase_def terminal_def Let_def

lemma expireLease_ok:
  assumes "job_ok j" "in_progress j"
  shows "job_ok (expireLease now why j) \<and> job_evolves j (expireLease now why j) \<and> dj_lease (expireLease now why j) = None"
proof -
  obtain l where l: "dj_lease j = Some l" using assms by (auto simp: job_ok_def)
  have "job_step (dj_replayPolicy j) (phase j) (phase (expireLease now why j))"
    using assms l by (cases "dj_replayPolicy j")
      (auto simp: expireLease_def clearLease_def execution_may_have_started_def job_defs intro: job_step.intros split: option.splits)
  then show ?thesis using assms
    by (intro conjI job_evolvesI) (auto simp: expireLease_def clearLease_def job_defs)
qed

lemma recover_job_ok: "job_ok j \<Longrightarrow> job_ok (recover_job now j) \<and> job_evolves j (recover_job now j) \<and>
    (dj_lease (recover_job now j) = dj_lease j \<or> dj_lease (recover_job now j) = None)"
  by (auto simp: recover_job_def lease_due_def expireLease_ok split: option.splits)

text \<open>Every step changes each job along the abstract machine.\<close>

lemma step_jobs:
  assumes "store_step env st st'" "i < length (st_jobs st)" "job_ok (st_jobs st ! i)"
  shows "i < length (st_jobs st') \<and> job_ok (st_jobs st' ! i) \<and> job_evolves (st_jobs st ! i) (st_jobs st' ! i)"
  using assms
proof (cases rule: store_step.cases)
  case (Recover now)
  with assms show ?thesis by (simp add: recover_job_ok)
next
  case (Revoke wid n f now)
  with assms show ?thesis by (auto simp: revoke_jobs_def held_by_def expireLease_ok)
next
  case (AddJob j)
  with assms show ?thesis by (simp add: nth_append)
next
  case (Lease n l f)
  let ?j = "st_jobs st ! n"
  have "job_step (dj_replayPolicy ?j) (phase ?j) (phase (f ?j))" using Lease by (auto simp: phase_def intro: job_step.lease)
  then have "job_evolves ?j (f ?j)" using Lease by (intro job_evolvesI) (auto simp: terminal_def)
  moreover have "job_ok (f ?j)" if "job_ok ?j" using that Lease by (auto simp: job_ok_def in_progress_def)
  ultimately show ?thesis using assms Lease by (cases "i = n") (simp_all add: set_job_def)
next
  case (Acknowledge n g now)
  let ?f = "\<lambda>j. map_lease g (j\<lparr>dj_state := Running, dj_updatedAt := now\<rparr>)" and ?j = "st_jobs st ! n"
  have "job_step (dj_replayPolicy ?j) (phase ?j) (phase (?f ?j))" if "job_ok ?j"
    using that Acknowledge(3,4) by (auto simp: job_defs map_lease_def lease_key_def intro: job_step.start)
  then have "job_ok (?f ?j) \<and> job_evolves ?j (?f ?j)" if "job_ok ?j"
    using that Acknowledge(3,4) by (intro conjI job_evolvesI) (auto simp: job_defs map_lease_def lease_key_def)
  then show ?thesis using assms Acknowledge by (cases "i = n") (simp_all add: set_job_def)
next
  case (Keep n f)
  let ?j = "st_jobs st ! n"
  have l: "map_option (\<lambda>l. (lease_key l, ls_acknowledgedAt l)) (dj_lease (f ?j)) = map_option (\<lambda>l. (lease_key l, ls_acknowledgedAt l)) (dj_lease ?j)"
    by (rule Keep(5))
  have "phase (f ?j) = phase ?j" using l Keep(4) [of ?j] by (cases "dj_lease ?j"; cases "dj_lease (f ?j)") (auto simp: phase_def lease_key_def)
  moreover have "job_ok (f ?j)" if "job_ok ?j" using that l Keep(4) [of ?j]
    by (cases "dj_lease ?j"; cases "dj_lease (f ?j)") (auto simp: job_ok_def in_progress_def)
  moreover have "\<not> terminal (dj_state ?j)" if "job_ok ?j" using that Keep(3) by (auto simp: job_defs)
  ultimately show ?thesis using assms Keep(1,2) Keep(4) [of ?j] by (cases "i = n") (simp_all add: set_job_def job_evolves_def)
next
  case (Complete n wid wi ev sig fp now)
  let ?j = "st_jobs st ! n" and ?f = "completed_job env ev sig fp now"
  have "job_step (dj_replayPolicy ?j) (phase ?j) (phase (?f ?j))"
    using Complete(3) by (auto simp: phase_def completed_job_def clearLease_def Let_def intro: job_step.finish)
  then have "job_ok (?f ?j) \<and> job_evolves ?j (?f ?j)"
    using Complete(3) by (intro conjI job_evolvesI) (auto simp: job_defs completed_job_def clearLease_def)
  then show ?thesis using assms Complete by (cases "i = n") (simp_all add: set_job_def)
next
  case (FailLease n why now)
  let ?j = "st_jobs st ! n" and ?f = "ended_job Failed why now"
  have "job_step (dj_replayPolicy ?j) (phase ?j) (phase (?f ?j))" if "job_ok ?j"
    using that FailLease(3) by (auto simp: job_defs ended_job_def clearLease_def intro: job_step.finish job_step.abandon)
  then have "job_ok (?f ?j) \<and> job_evolves ?j (?f ?j)" if "job_ok ?j"
    using that FailLease(3) by (intro conjI job_evolvesI) (auto simp: job_defs ended_job_def clearLease_def)
  then show ?thesis using assms FailLease by (cases "i = n") (simp_all add: set_job_def)
next
  case (Cancel n why now)
  let ?j = "st_jobs st ! n" and ?f = "ended_job Cancelled why now"
  have "phase ?j \<noteq> PDone d" for d using Cancel(3) by (cases "dj_state ?j") (auto simp: phase_def terminal_def Let_def)
  moreover have "phase (?f ?j) = PDone Cancelled" by (simp add: phase_def ended_job_def clearLease_def)
  ultimately have "job_step (dj_replayPolicy ?j) (phase ?j) (phase (?f ?j))" by (simp add: job_step.cancel)
  then have "job_ok (?f ?j) \<and> job_evolves ?j (?f ?j)" if "job_ok ?j"
    using that Cancel(3) by (intro conjI job_evolvesI) (auto simp: job_defs ended_job_def clearLease_def)
  then show ?thesis using assms Cancel by (cases "i = n") (simp_all add: set_job_def)
next
  case (Retry n now)
  let ?j = "st_jobs st ! n" and ?f = "\<lambda>j. clearLease (j\<lparr>dj_state := Queued, dj_updatedAt := now, dj_blockedReason := None\<rparr>)"
  have "job_step (dj_replayPolicy ?j) (phase ?j) (phase (?f ?j))"
    using Retry(3,4) by (auto simp: phase_def clearLease_def intro: job_step.retry)
  then have "job_ok (?f ?j) \<and> job_evolves ?j (?f ?j)" if "job_ok ?j"
    using that Retry(3) by (intro conjI job_evolvesI) (auto simp: job_defs clearLease_def)
  then show ?thesis using assms Retry by (cases "i = n") (simp_all add: set_job_def)
qed (use assms in \<open>auto simp: set_worker_def\<close>)

section \<open>The invariant of the store\<close>

definition completion_ok :: "coord_env \<Rightarrow> CoordinatorStore \<Rightarrow> DistributedCompletionRecord \<Rightarrow> bool" where
  "completion_ok env st c \<longleftrightarrow>
     (\<exists>wid wi. jget (dc_evidence c) ''workerId'' = JStr wid \<and> worker_index st wid = Some wi \<and>
        verifyDistributedEvidence env (dc_evidence c) (dc_workerSignature c) (dw_publicKeyPem (st_workers st ! wi))) \<and>
     dc_coordinatorSignature c =
       ce_sign env (canonicalJson (ce_lc env) (acceptance_json (dc_evidence c) (dc_workerSignature c) (dc_acceptedAt c)))"

definition leases_ok :: "CoordinatorStore \<Rightarrow> bool" where
  "leases_ok st \<longleftrightarrow> 0 \<le> st_nextFencingToken st \<and>
     (\<forall>i k a w f a' w' f'. holder st i = Some (a, w, f) \<longrightarrow> holder st k = Some (a', w', f') \<longrightarrow> f = f' \<or> w = w' \<longrightarrow> i = k) \<and>
     (\<forall>i a w f. holder st i = Some (a, w, f) \<longrightarrow> 0 < f \<and> f \<le> st_nextFencingToken st \<and> active_worker st w)"

definition store_ok :: "coord_env \<Rightarrow> CoordinatorStore \<Rightarrow> bool" where
  "store_ok env st \<longleftrightarrow> leases_ok st \<and> distinct (map dj_idempotencyKey (st_jobs st)) \<and>
     (\<forall>i < length (st_jobs st). job_ok (st_jobs st ! i) \<and> payload_of env (st_jobs st ! i) \<and>
        (\<forall>c. dj_completion (st_jobs st ! i) = Some c \<longrightarrow> completion_ok env st c))"

definition worker_evolves :: "WorkerRecord \<Rightarrow> WorkerRecord \<Rightarrow> bool" where
  "worker_evolves w w' \<longleftrightarrow> worker_key w' = worker_key w \<and> (dw_state w = WRevoked \<longrightarrow> dw_state w' = WRevoked)"

lemma worker_evolves_refl [simp]: "worker_evolves w w"
  by (simp add: worker_evolves_def)

lemma worker_evolves_trans: "worker_evolves w w' \<Longrightarrow> worker_evolves w' w'' \<Longrightarrow> worker_evolves w w''"
  by (simp add: worker_evolves_def)

text \<open>What a later store has of an earlier one.  The tokens up to the current one are used up: a lease with such
  a token was already there.\<close>

definition evolves :: "CoordinatorStore \<Rightarrow> CoordinatorStore \<Rightarrow> bool" where
  "evolves st st' \<longleftrightarrow>
     length (st_jobs st) \<le> length (st_jobs st') \<and>
     (\<forall>i < length (st_jobs st). job_evolves (st_jobs st ! i) (st_jobs st' ! i)) \<and>
     st_nextFencingToken st \<le> st_nextFencingToken st' \<and>
     (\<forall>i a w f. holder st' i = Some (a, w, f) \<longrightarrow> f \<le> st_nextFencingToken st \<longrightarrow> holder st i = Some (a, w, f)) \<and>
     (\<forall>wid i. worker_index st wid = Some i \<longrightarrow> worker_index st' wid = Some i \<and>
        worker_evolves (st_workers st ! i) (st_workers st' ! i))"

lemma evolves_refl: "evolves st st"
  by (simp add: evolves_def)

lemma evolves_trans: "evolves st st' \<Longrightarrow> evolves st' st'' \<Longrightarrow> evolves st st''"
  unfolding evolves_def by (auto intro: job_evolves_trans order_trans) (blast intro: worker_evolves_trans)

lemma holder_set_job:
  "holder (set_job i f st) k = (if k = i \<and> i < length (st_jobs st) then map_option lease_key (dj_lease (f (st_jobs st ! i))) else holder st k)"
  by (auto simp: holder_def set_job_def)

text \<open>Apart from handing out a lease, a step keeps or clears the holder of each job.\<close>

lemma step_holder:
  assumes "store_step env st st'"
  shows "st_nextFencingToken st' = st_nextFencingToken st \<and> (\<forall>i. holder st' i = holder st i \<or> holder st' i = None) \<or>
    st_nextFencingToken st' = st_nextFencingToken st + 1 \<and> (\<exists>i a w. active_worker st w \<and> st_workers st' = st_workers st \<and>
      (\<forall>j \<in> set (st_jobs st). \<not> held_by w j) \<and> holder st' = (holder st)(i := Some (a, w, st_nextFencingToken st + 1)))"
  using assms
proof (cases rule: store_step.cases)
  case (Recover now)
  have "dj_lease (recover_job now j) = dj_lease j \<or> dj_lease (recover_job now j) = None" for j
    by (auto simp: recover_job_def expireLease_def clearLease_def)
  then have "map_option lease_key (dj_lease (recover_job now j)) \<in> {map_option lease_key (dj_lease j), None}" for j
    by (metis insertCI option.map(1))
  then have "holder st' i = holder st i \<or> holder st' i = None" for i
    using Recover by (simp add: holder_def)
  with Recover show ?thesis by simp
next
  case (Revoke wid n f now)
  have "dj_lease (expireLease now why j) = None" for why j by (simp add: expireLease_def clearLease_def)
  with Revoke show ?thesis by (auto simp: holder_def revoke_jobs_def set_worker_def)
next
  case (AddJob j)
  then show ?thesis by (auto simp: holder_def nth_append fresh_job_def)
next
  case (Lease n l f)
  obtain a w where l: "lease_key l = (a, w, st_nextFencingToken st + 1)" "ls_workerId l = w" using Lease by (auto simp: lease_key_def)
  have "holder st' = (holder st)(n := Some (a, w, st_nextFencingToken st + 1))"
    using Lease l by (auto simp: fun_eq_iff holder_set_job) (auto simp: holder_def)
  then show ?thesis using Lease l by (intro disjI2 conjI exI [of _ n] exI [of _ a] exI [of _ w]) (auto simp: set_job_def)
next
  case (Acknowledge n g now)
  then show ?thesis
    by (auto simp: holder_set_job) (auto simp: set_job_def holder_def map_lease_def option.map_comp comp_def)
next
  case (Keep n f)
  have "map_option lease_key (dj_lease (f j)) = map_option lease_key (dj_lease j)" for j
    using arg_cong [OF Keep(5) [of j], of "map_option fst"] by (simp add: option.map_comp comp_def)
  with Keep show ?thesis by (auto simp: holder_set_job) (auto simp: set_job_def holder_def)
qed (auto simp: holder_def set_worker_def set_job_def nth_list_update completed_job_def ended_job_def clearLease_def Let_def)

lemma nth_job_in_set: "i < length (st_jobs st) \<Longrightarrow> st_jobs st ! i \<in> set (st_jobs st)"
  by simp

lemma step_workers:
  assumes "store_step env st st'" "worker_index st wid = Some i"
  shows "worker_index st' wid = Some i \<and> worker_evolves (st_workers st ! i) (st_workers st' ! i)"
proof -
  have i: "i < length (st_workers st)" using assms(2) index_where_SomeD by (auto simp: worker_index_def)
  have jobs: "worker_index st' wid = Some i \<and> worker_evolves (st_workers st ! i) (st_workers st' ! i)" if "st_workers st' = st_workers st"
    using that assms(2) by (simp add: worker_index_def)
  from assms(1) show ?thesis
  proof (cases rule: store_step.cases)
    case (AddWorker w)
    then show ?thesis using assms(2) i by (auto simp: worker_index_def nth_append index_where_append)
  next
    case (TouchWorker n f)
    have "worker_index st' wid = Some i" using TouchWorker assms(2) worker_index_set_worker [of f n st wid] by auto
    with TouchWorker i show ?thesis by (cases "n = i") (auto simp: set_worker_def worker_evolves_def)
  next
    case (Revoke w n f now)
    have "worker_index (set_worker n f st) wid = Some i" using Revoke assms(2) worker_index_set_worker [of f n st wid] by auto
    with Revoke i show ?thesis by (cases "n = i") (auto simp: set_worker_def revoke_jobs_def worker_index_def worker_evolves_def)
  qed (rule jobs, simp add: set_job_def)+
qed

lemma step_active:
  assumes "store_step env st st'" "active_worker st w" "\<And>wid n f now. st' = revoke_jobs now wid (set_worker n f st) \<Longrightarrow> w \<noteq> wid"
  shows "active_worker st' w"
proof -
  obtain i where i: "worker_index st w = Some i" "dw_state (st_workers st ! i) = WActive"
    using assms(2) by (auto simp: active_worker_def split: option.splits)
  have il: "i < length (st_workers st)" "dw_id (st_workers st ! i) = w" using i(1) index_where_SomeD by (auto simp: worker_index_def)
  have w: "worker_index st' w = Some i" using step_workers [OF assms(1) i(1)] by simp
  have "dw_state (st_workers st' ! i) = WActive"
    using assms(1)
  proof (cases rule: store_step.cases)
    case (AddWorker x)
    then show ?thesis using il i(2) by (simp add: nth_append)
  next
    case (TouchWorker n f)
    then show ?thesis using il i(2) by (cases "n = i") (auto simp: set_worker_def)
  next
    case (Revoke wid n f now)
    have "w \<noteq> wid" using assms(3) [OF Revoke(1)] .
    moreover have "dw_id (st_workers st ! n) = wid" using Revoke(2) index_where_SomeD by (auto simp: worker_index_def)
    ultimately have "n \<noteq> i" using il(2) by auto
    then show ?thesis using Revoke(1) il i(2) by (simp add: set_worker_def revoke_jobs_def)
  qed (use i(2) in \<open>simp_all add: set_job_def\<close>)
  with w show ?thesis by (simp add: active_worker_def)
qed

lemma revoke_clears:
  assumes "holder (revoke_jobs now wid (set_worker n f st)) i = Some (a, w, tok)" "\<And>i. i < length (st_jobs st) \<Longrightarrow> job_ok (st_jobs st ! i)"
  shows "w \<noteq> wid"
proof
  assume "w = wid"
  moreover from assms(1) have i: "i < length (st_jobs st)" by (auto simp: holder_def revoke_jobs_def split: if_splits)
  ultimately show False using assms(1) assms(2) [OF i]
    by (auto simp: holder_def revoke_jobs_def held_by_def lease_key_def job_ok_def expireLease_def clearLease_def split: if_splits option.splits)
qed

lemma held_iff_holder:
  assumes "job_ok (st_jobs st ! i)" "i < length (st_jobs st)"
  shows "held_by w (st_jobs st ! i) \<longleftrightarrow> (\<exists>a f. holder st i = Some (a, w, f))"
  using assms by (auto simp: held_by_def holder_def job_ok_def lease_key_def split: option.splits)

lemma step_leases:
  assumes "store_step env st st'" "leases_ok st" "\<And>i. i < length (st_jobs st) \<Longrightarrow> job_ok (st_jobs st ! i)"
  shows "leases_ok st'"
  using step_holder [OF assms(1)]
proof (elim disjE conjE exE)
  assume n: "st_nextFencingToken st' = st_nextFencingToken st" and h: "\<forall>i. holder st' i = holder st i \<or> holder st' i = None"
  have old: "holder st i = Some x" if "holder st' i = Some x" for i x using h that by (metis option.distinct(1))
  have "active_worker st' w" if "holder st' i = Some (a, w, f)" for i a w f
  proof (rule step_active [OF assms(1)])
    show "active_worker st w" using old [OF that] assms(2) by (auto simp: leases_ok_def)
    show "st' = revoke_jobs now wid (set_worker n g st) \<Longrightarrow> w \<noteq> wid" for wid n g now
      using revoke_clears [of now wid n g st i a w f] that assms(3) by blast
  qed
  with n old assms(2) show ?thesis unfolding leases_ok_def by (metis (no_types, lifting))
next
  fix n a w
  assume N: "st_nextFencingToken st' = st_nextFencingToken st + 1" and w: "active_worker st w" "st_workers st' = st_workers st"
    and free: "\<forall>j \<in> set (st_jobs st). \<not> held_by w j" and h: "holder st' = (holder st)(n := Some (a, w, st_nextFencingToken st + 1))"
  have act: "active_worker st' v = active_worker st v" for v
    unfolding active_worker_def worker_index_def w(2) by (rule refl)
  have nw: "v \<noteq> w" if "holder st i = Some (b, v, f)" for i b v f
  proof -
    have "i < length (st_jobs st)" using that by (auto simp: holder_def split: if_splits)
    then have "\<not> held_by w (st_jobs st ! i)" using free by simp
    with held_iff_holder [OF assms(3) [OF \<open>i < _\<close>] \<open>i < _\<close>] that show ?thesis by auto
  qed
  have lt: "f \<le> st_nextFencingToken st" "0 < f" "active_worker st v" if "holder st i = Some (b, v, f)" for i b v f
    using assms(2) that by (auto simp: leases_ok_def)
  show ?thesis unfolding leases_ok_def N h act
  proof (intro conjI allI impI)
    show "0 \<le> st_nextFencingToken st + 1" using assms(2) by (simp add: leases_ok_def)
    fix i k b v f b' v' f'
    assume "((holder st)(n := Some (a, w, st_nextFencingToken st + 1))) i = Some (b, v, f)"
      "((holder st)(n := Some (a, w, st_nextFencingToken st + 1))) k = Some (b', v', f')" "f = f' \<or> v = v'"
    then show "i = k" using nw lt assms(2) by (auto simp: leases_ok_def split: if_splits) (fastforce)+
  next
    fix i b v f assume "((holder st)(n := Some (a, w, st_nextFencingToken st + 1))) i = Some (b, v, f)"
    then show "0 < f" "f \<le> st_nextFencingToken st + 1" "active_worker st v"
      using lt w(1) assms(2) by (auto simp: leases_ok_def split: if_splits) fastforce+
  qed
qed

lemma step_new_job:
  assumes "store_step env st st'" "length (st_jobs st) \<le> i" "i < length (st_jobs st')"
  shows "fresh_job (st_jobs st' ! i) \<and> payload_of env (st_jobs st' ! i)"
  using assms by (cases rule: store_step.cases) (auto simp: nth_append revoke_jobs_def set_worker_def set_job_def)

lemma step_keys:
  assumes "store_step env st st'" "\<And>i. i < length (st_jobs st) \<Longrightarrow> job_ok (st_jobs st ! i)" "distinct (map dj_idempotencyKey (st_jobs st))"
  shows "distinct (map dj_idempotencyKey (st_jobs st'))"
proof -
  have same: "distinct (map dj_idempotencyKey (st_jobs st'))" if "length (st_jobs st') = length (st_jobs st)"
  proof -
    have "dj_idempotencyKey (st_jobs st' ! i) = dj_idempotencyKey (st_jobs st ! i)" if "i < length (st_jobs st)" for i
      using step_jobs [OF assms(1) that assms(2) [OF that]] by (simp add: job_evolves_def job_key_def)
    then have "map dj_idempotencyKey (st_jobs st') = map dj_idempotencyKey (st_jobs st)"
      using that by (intro nth_equalityI) simp_all
    with assms(3) show ?thesis by simp
  qed
  from assms(1) show ?thesis
  proof (cases rule: store_step.cases)
    case (AddJob j)
    then have "dj_idempotencyKey j \<notin> dj_idempotencyKey ` set (st_jobs st)" by (metis imageE)
    with AddJob(1) assms(3) show ?thesis by simp
  qed (rule same, simp add: revoke_jobs_def set_worker_def set_job_def)+
qed

lemma completion_ok_step:
  assumes "store_step env st st'" "completion_ok env st c"
  shows "completion_ok env st' c"
proof -
  from assms(2) obtain wid wi where w: "jget (dc_evidence c) ''workerId'' = JStr wid" "worker_index st wid = Some wi"
      "verifyDistributedEvidence env (dc_evidence c) (dc_workerSignature c) (dw_publicKeyPem (st_workers st ! wi))"
    by (auto simp: completion_ok_def)
  from step_workers [OF assms(1) w(2)] w assms(2) show ?thesis
    unfolding completion_ok_def by (auto simp: worker_evolves_def worker_key_def)
qed

lemma step_completion:
  assumes "store_step env st st'" "i < length (st_jobs st)" "dj_completion (st_jobs st' ! i) = Some c"
  shows "dj_completion (st_jobs st ! i) = Some c \<or> completion_ok env st c"
  using assms(1)
proof (cases rule: store_step.cases)
  case (Complete n wid wi ev sig fp now)
  then show ?thesis using assms(2,3)
    by (cases "i = n") (auto simp: set_job_def completed_job_def clearLease_def completion_ok_def Let_def split: if_splits)
next
  case (Keep n f)
  then show ?thesis using assms(2,3) by (cases "i = n") (auto simp: set_job_def)
next
  case (Lease n l f)
  then show ?thesis using assms(2,3) by (cases "i = n") (auto simp: set_job_def)
qed (use assms(2,3) in \<open>auto simp: recover_job_def expireLease_def clearLease_def set_worker_def revoke_jobs_def nth_append
      set_job_def nth_list_update map_lease_def ended_job_def split: if_splits\<close>)

lemma step_store_ok:
  assumes "store_step env st st'" "store_ok env st"
  shows "store_ok env st'"
proof -
  have ok: "job_ok (st_jobs st ! i)" "payload_of env (st_jobs st ! i)"
      "dj_completion (st_jobs st ! i) = Some c \<Longrightarrow> completion_ok env st c" if "i < length (st_jobs st)" for i c
    using assms(2) that by (auto simp: store_ok_def)
  have "job_ok (st_jobs st' ! i) \<and> payload_of env (st_jobs st' ! i) \<and>
      (\<forall>c. dj_completion (st_jobs st' ! i) = Some c \<longrightarrow> completion_ok env st' c)" if i: "i < length (st_jobs st')" for i
  proof (cases "i < length (st_jobs st)")
    case True
    have "completion_ok env st' c" if "dj_completion (st_jobs st' ! i) = Some c" for c
      using step_completion [OF assms(1) True that] ok(3) [OF True] completion_ok_step [OF assms(1)] by blast
    moreover have "payload_of env (st_jobs st' ! i)"
      using step_jobs [OF assms(1) True ok(1) [OF True]] ok(2) [OF True] by (simp add: job_evolves_def payload_of_def job_key_def)
    ultimately show ?thesis using step_jobs [OF assms(1) True ok(1) [OF True]] by blast
  next
    case False
    with step_new_job [OF assms(1) _ i] show ?thesis by (auto simp: fresh_job_def job_ok_def in_progress_def)
  qed
  moreover have "leases_ok st'" "distinct (map dj_idempotencyKey (st_jobs st'))"
    using assms(2) step_leases [OF assms(1) _ ok(1)] step_keys [OF assms(1) ok(1)] by (auto simp: store_ok_def)
  ultimately show ?thesis by (simp add: store_ok_def)
qed

lemma step_evolves:
  assumes "store_step env st st'" "store_ok env st"
  shows "evolves st st'"
proof -
  have jobs: "i < length (st_jobs st') \<and> job_evolves (st_jobs st ! i) (st_jobs st' ! i)" if "i < length (st_jobs st)" for i
    using step_jobs [OF assms(1) that] assms(2) that by (auto simp: store_ok_def)
  have "length (st_jobs st) \<le> length (st_jobs st')"
    using jobs [of "length (st_jobs st) - 1"] by (cases "st_jobs st") auto
  moreover have "st_nextFencingToken st \<le> st_nextFencingToken st'" using step_holder [OF assms(1)] by auto
  moreover have "holder st i = Some (a, w, f)" if "holder st' i = Some (a, w, f)" "f \<le> st_nextFencingToken st" for i a w f
    using step_holder [OF assms(1)] that by (auto simp: fun_upd_def split: if_splits) (metis option.distinct(1))
  ultimately show ?thesis using jobs step_workers [OF assms(1)] unfolding evolves_def by blast
qed

lemma steps_ok: "steps env st st' \<Longrightarrow> store_ok env st \<Longrightarrow> store_ok env st' \<and> evolves st st'"
proof (induction rule: rtranclp_induct)
  case (step st' st'')
  then show ?case using step_store_ok step_evolves evolves_trans by blast
qed (simp add: evolves_refl)

section \<open>Runs of the coordinator\<close>

text \<open>Every operation that may change the file; \<open>OpLock\<close> is another process that takes the lock and never
  releases it.\<close>

datatype co_op =
    OpRegister jval jval jval "int option"
  | OpRotate string "int option"
  | OpRevoke string jval
  | OpSubmit jval jval "string option" "string option" jval jval
  | OpLease string "int option"
  | OpAcknowledge string jval jval jval
  | OpHeartbeat string jval jval jval "int option"
  | OpComplete string jval string
  | OpArtifact string jval jval jval jval
  | OpFail string jval jval jval jval
  | OpCancel string jval
  | OpRetry string
  | OpRecover
  | OpLock int

fun co_do :: "coord_env \<Rightarrow> co_op \<Rightarrow> coordinator \<Rightarrow> coordinator" where
  "co_do env (OpRegister a b c d) s = snd (registerWorker env a b c d s)"
| "co_do env (OpRotate a b) s = snd (rotateWorkerToken env a b s)"
| "co_do env (OpRevoke a b) s = snd (revokeWorker env a b s)"
| "co_do env (OpSubmit a b c d e f) s = snd (submitJob env a b c d e f s)"
| "co_do env (OpLease a b) s = snd (leaseJob env a b s)"
| "co_do env (OpAcknowledge a b c d) s = snd (acknowledgeJob env a b c d s)"
| "co_do env (OpHeartbeat a b c d e) s = snd (heartbeat env a b c d e s)"
| "co_do env (OpComplete a b c) s = snd (completeJob env a b c s)"
| "co_do env (OpArtifact a b c d e) s = snd (recordOutputArtifact env a b c d e s)"
| "co_do env (OpFail a b c d e) s = snd (failJob env a b c d e s)"
| "co_do env (OpCancel a b) s = snd (cancelJob env a b s)"
| "co_do env (OpRetry a) s = snd (retryBlocked env a s)"
| "co_do env OpRecover s = snd (recoverExpiredLeases env s)"
| "co_do env (OpLock t) s = s\<lparr>co_lock := Some t\<rparr>"

lemma file_store_lock [simp]: "file_store (s\<lparr>co_lock := x\<rparr>) = file_store s"
  by (simp add: file_store_def)

lemma co_do_steps: "steps env (file_store s) (file_store (co_do env a s))"
  by (cases a) (simp_all add: registerWorker_steps rotateWorkerToken_steps revokeWorker_steps submitJob_steps leaseJob_steps
      acknowledgeJob_steps heartbeat_steps completeJob_steps recordOutputArtifact_steps failJob_steps cancelJob_steps
      retryBlocked_steps recoverExpiredLeases_steps)

definition no_store :: "coordinator \<Rightarrow> bool" where
  "no_store s \<longleftrightarrow> co_file s = None"

definition coordinator_ok :: "coord_env \<Rightarrow> coordinator \<Rightarrow> bool" where
  "coordinator_ok env s \<longleftrightarrow> store_ok env (file_store s)"

definition co_evolves :: "coordinator \<Rightarrow> coordinator \<Rightarrow> bool" where
  "co_evolves s s' \<longleftrightarrow> evolves (file_store s) (file_store s')"

lemma empty_ok: "store_ok env emptyStore"
  by (simp add: store_ok_def leases_ok_def emptyStore_def holder_def)

lemma file_store_none: "no_store s \<Longrightarrow> file_store s = emptyStore"
  by (simp add: no_store_def file_store_def)

interpretation coordinators: evolving no_store "co_do env" "coordinator_ok env" co_evolves for env
proof (rule evolving.intro)
  show "stateful no_store (co_do env) (coordinator_ok env)"
    by (rule stateful.intro) (auto simp: coordinator_ok_def file_store_none empty_ok dest: steps_ok [OF co_do_steps])
  show "evolving_axioms (co_do env) (coordinator_ok env) co_evolves"
    by (rule evolving_axioms.intro) (auto simp: co_evolves_def coordinator_ok_def evolves_refl intro: evolves_trans dest: steps_ok [OF co_do_steps])
qed

section \<open>Operations under a lease\<close>

lemma mutate_InrD:
  assumes "fst (mutate env fn s) = Inr x"
  obtains t t1 now where "co_store t = recovered now (file_store s)" "fn t = (Inr x, t1)" "file_store (snd (mutate env fn s)) = co_store t1"
  by (rule mutate_cases [of s fn env]) (use assms that in \<open>auto simp: file_store_def\<close>)

lemma liftR_InrD: "fst (bindA (liftR r) f s) = Inr x \<Longrightarrow> \<exists>y. r = Inr y \<and> fst (f y s) = Inr x"
  by (cases r) (auto simp: bindA_def liftR_def)

lemma recovered_step: "steps env st (recovered now st)"
  unfolding recovered_def by (rule r_into_rtranclp, rule Recover)

lemma holder_recovered: "holder (recovered now st) i = Some x \<Longrightarrow> holder st i = Some x"
  by (auto simp: holder_def recovered_def recover_job_def expireLease_def clearLease_def split: if_splits)

definition lease_in :: "CoordinatorStore \<Rightarrow> jval \<Rightarrow> jval \<Rightarrow> jval \<Rightarrow> bool" where
  "lease_in st jobId leaseId fencing \<longleftrightarrow> (\<exists>i a w f. holder st i = Some (a, w, f) \<and> jobId = JStr (dj_id (st_jobs st ! i)) \<and>
     leaseId = JStr a \<and> fencing = JNum f \<and> active_worker st w)"

lemma active_worker_cong: "st_workers st' = st_workers st \<Longrightarrow> active_worker st' w = active_worker st w"
proof -
  assume w: "st_workers st' = st_workers st"
  show ?thesis unfolding active_worker_def worker_index_def w by (rule refl)
qed

lemma lease_in_recovered: "lease_in (recovered now st) a b c \<Longrightarrow> lease_in st a b c"
proof -
  assume "lease_in (recovered now st) a b c"
  then obtain i x w f where h: "holder (recovered now st) i = Some (x, w, f)" "a = JStr (dj_id (st_jobs (recovered now st) ! i))"
      "b = JStr x" "c = JNum f" "active_worker (recovered now st) w" by (auto simp: lease_in_def)
  then have i: "i < length (st_jobs st)" by (auto simp: holder_def recovered_def split: if_splits)
  have "active_worker st w" using h(5) active_worker_cong [of "recovered now st" st w] by (simp add: recovered_def)
  moreover have "dj_id (st_jobs (recovered now st) ! i) = dj_id (st_jobs st ! i)"
    using i by (auto simp: recovered_def recover_job_def expireLease_def clearLease_def)
  ultimately show ?thesis using h holder_recovered [OF h(1)] by (auto simp: lease_in_def)
qed

lemma leased_by_lease_in:
  assumes "bindA (leased_by env token a b c) k t = (Inr x, t1)"
  shows "lease_in (co_store t) a b c"
proof -
  from assms obtain wi ji t2 where "leased_by env token a b c t = (Inr (wi, ji), t2)" by (auto elim!: bindA_InrE)
  then show ?thesis
    by (rule leased_by_D) (auto simp: lease_in_def holder_def lease_key_def active_worker_def intro!: exI [of _ ji])
qed

lemma mutate_lease_in: "fst (mutate env (bindA (leased_by env token a b c) k) s) = Inr x \<Longrightarrow> lease_in (file_store s) a b c"
proof (erule mutate_InrD)
  fix t t1 now assume "co_store t = recovered now (file_store s)" "bindA (leased_by env token a b c) k t = (Inr x, t1)"
  with leased_by_lease_in [of env token a b c k t x t1] show ?thesis by (simp add: lease_in_recovered)
qed

lemma acknowledge_lease_in: "fst (acknowledgeJob env token a b c s) = Inr x \<Longrightarrow> lease_in (file_store s) a b c"
  unfolding acknowledgeJob_def by (rule mutate_lease_in)

lemma heartbeat_lease_in: "fst (heartbeat env token a b c ttl s) = Inr x \<Longrightarrow> lease_in (file_store s) a b c"
  unfolding heartbeat_def by (drule liftR_InrD) (blast intro: mutate_lease_in)

lemma artifact_lease_in: "fst (recordOutputArtifact env token a b c d s) = Inr x \<Longrightarrow> lease_in (file_store s) a b c"
  unfolding recordOutputArtifact_def by (rule mutate_lease_in)

lemma fail_lease_in: "fst (failJob env token a b c d s) = Inr x \<Longrightarrow> lease_in (file_store s) a b c"
  unfolding failJob_def by (rule mutate_lease_in)

lemma authorize_lease_in: "fst (authorizeLease env token a b c s) = Inr x \<Longrightarrow> lease_in (file_store s) a b c"
proof -
  let ?t = "(co_work s)\<lparr>co_store := file_store s\<rparr>"
  assume "fst (authorizeLease env token a b c s) = Inr x"
  then obtain t1 where "bindA (leased_by env token a b c) (\<lambda>(wi, ji). bindA (job_at ji) (\<lambda>j. retA (cloneJob j))) ?t = (Inr x, t1)"
    by (auto simp: authorizeLease_def readC_def bindA_def [of loadStore] loadStore_def on_work_def split: prod.splits)
  from leased_by_lease_in [OF this] show ?thesis by simp
qed


definition authentic :: "coord_env \<Rightarrow> string \<Rightarrow> CoordinatorStore \<Rightarrow> bool" where
  "authentic env token st \<longleftrightarrow> (\<exists>c wid. token_claims env token = Inr c \<and> jget c ''workerId'' = JStr wid \<and> active_worker st wid)"

lemma authenticate_authentic:
  assumes "bindA (authenticate env token) k t = (Inr x, t1)"
  shows "authentic env token (co_store t)"
proof -
  from assms obtain wi tid t2 where a: "authenticate env token t = (Inr (wi, tid), t2)" by (auto elim!: bindA_InrE)
  from authenticate_D [OF a] show ?thesis by (auto simp: authentic_def intro: active_workerI)
qed

lemma leased_by_authentic:
  assumes "bindA (leased_by env token a b c) k t = (Inr x, t1)"
  shows "authentic env token (co_store t)"
proof -
  from assms obtain y t2 where "leased_by env token a b c t = (Inr y, t2)" by (auto elim!: bindA_InrE)
  then show ?thesis unfolding leased_by_def by (rule authenticate_authentic)
qed

lemma authentic_recovered: "authentic env token (recovered now st) = authentic env token st"
  using active_worker_cong [of "recovered now st" st] by (simp add: authentic_def recovered_def)

lemma mutate_authentic:
  assumes "fst (mutate env m s) = Inr x" "\<And>t x t1. m t = (Inr x, t1) \<Longrightarrow> authentic env token (co_store t)"
  shows "authentic env token (file_store s)"
  using assms(1)
proof (rule mutate_InrD)
  fix t t1 now assume "co_store t = recovered now (file_store s)" "m t = (Inr x, t1)"
  with assms(2) [of t x t1] show ?thesis by (simp add: authentic_recovered)
qed

text \<open>Every operation of a worker starts with the token of an active worker.\<close>

lemma worker_operations_authentic:
  "fst (leaseJob env token ttl s) = Inr x1 \<Longrightarrow> authentic env token (file_store s)"
  "fst (acknowledgeJob env token a b c s) = Inr x2 \<Longrightarrow> authentic env token (file_store s)"
  "fst (heartbeat env token a b c ttl s) = Inr x3 \<Longrightarrow> authentic env token (file_store s)"
  "fst (recordOutputArtifact env token a b c d s) = Inr x4 \<Longrightarrow> authentic env token (file_store s)"
  "fst (failJob env token a b c d s) = Inr x5 \<Longrightarrow> authentic env token (file_store s)"
  "fst (completeJob env token d sig s) = Inr x6 \<Longrightarrow> authentic env token (file_store s)"
  "fst (authorizeLease env token a b c s) = Inr x7 \<Longrightarrow> authentic env token (file_store s)"
proof -
  show "fst (leaseJob env token ttl s) = Inr x1 \<Longrightarrow> authentic env token (file_store s)"
    unfolding leaseJob_def lease_in_store_def by (drule liftR_InrD) (blast intro: mutate_authentic authenticate_authentic)
  show "fst (acknowledgeJob env token a b c s) = Inr x2 \<Longrightarrow> authentic env token (file_store s)"
    unfolding acknowledgeJob_def by (rule mutate_authentic [OF _ leased_by_authentic])
  show "fst (heartbeat env token a b c ttl s) = Inr x3 \<Longrightarrow> authentic env token (file_store s)"
    unfolding heartbeat_def by (drule liftR_InrD) (blast intro: mutate_authentic leased_by_authentic)
  show "fst (recordOutputArtifact env token a b c d s) = Inr x4 \<Longrightarrow> authentic env token (file_store s)"
    unfolding recordOutputArtifact_def by (rule mutate_authentic [OF _ leased_by_authentic])
  show "fst (failJob env token a b c d s) = Inr x5 \<Longrightarrow> authentic env token (file_store s)"
    unfolding failJob_def by (rule mutate_authentic [OF _ leased_by_authentic])
  show "fst (completeJob env token d sig s) = Inr x6 \<Longrightarrow> authentic env token (file_store s)"
    unfolding completeJob_def by (rule mutate_authentic [OF _ authenticate_authentic])
  show "fst (authorizeLease env token a b c s) = Inr x7 \<Longrightarrow> authentic env token (file_store s)"
  proof -
    let ?t = "(co_work s)\<lparr>co_store := file_store s\<rparr>"
    assume "fst (authorizeLease env token a b c s) = Inr x7"
    then obtain t1 where "bindA (leased_by env token a b c) (\<lambda>(wi, ji). bindA (job_at ji) (\<lambda>j. retA (cloneJob j))) ?t = (Inr x7, t1)"
      by (auto simp: authorizeLease_def readC_def bindA_def [of loadStore] loadStore_def on_work_def split: prod.splits)
    from leased_by_authentic [OF this] show ?thesis by simp
  qed
qed

lemma complete_lease_in:
  assumes "fst (completeJob env token value sig s) = Inr x"
  shows "\<exists>ev. validateEvidence env value = Inr ev \<and> lease_in (file_store s) (jget ev ''jobId'') (jget ev ''leaseId'') (jget ev ''fencingToken'')"
  using assms unfolding completeJob_def
proof (rule mutate_InrD)
  fix t t1 now
  assume t: "co_store t = recovered now (file_store s)" and r: "bindA (authenticate env token) (\<lambda>(wi, tokenId).
     bindA (liftR (validateEvidence env value)) (\<lambda>ev. bindA (worker_at wi) (\<lambda>w.
     bindA (matchLease env (dw_id w) (jget ev ''jobId'') (jget ev ''leaseId'') (jget ev ''fencingToken'')) (\<lambda>ji.
     accept_completion env ev sig w ji)))) t = (Inr x, t1)"
  from r show ?thesis
  proof (rule complete_in_store_D)
    fix wi ev ji l
    assume ev: "validateEvidence env value = Inr ev" and w: "worker_index (co_store t) (dw_id (st_workers (co_store t) ! wi)) = Some wi"
        "dw_state (st_workers (co_store t) ! wi) = WActive" and j: "ji < length (st_jobs (co_store t))" "dj_lease (st_jobs (co_store t) ! ji) = Some l"
        "ls_workerId l = dw_id (st_workers (co_store t) ! wi)" "jget ev ''leaseId'' = JStr (ls_id l)" "jget ev ''fencingToken'' = JNum (ls_fencingToken l)"
        "jget ev ''jobId'' = JStr (dj_id (st_jobs (co_store t) ! ji))"
    from w j have "lease_in (co_store t) (jget ev ''jobId'') (jget ev ''leaseId'') (jget ev ''fencingToken'')"
      unfolding lease_in_def by (intro exI [of _ ji]) (auto simp: holder_def lease_key_def intro: active_workerI)
    with t ev show ?thesis by (auto dest: lease_in_recovered)
  qed
qed

lemma not_Inr: "(\<And>x. r \<noteq> Inr x) \<Longrightarrow> \<exists>e. r = Inl e"
  by (cases r) auto

lemma reachable_store_ok: "no_store s0 \<Longrightarrow> coordinator_ok env (fold (co_do env) ops s0)"
  by (rule coordinators.inv_reachable)

lemma run_evolves:
  assumes "no_store s0" "s = fold (co_do env) ops s0" "s' = fold (co_do env) ops' s"
  shows "evolves (file_store s) (file_store s')" "store_ok env (file_store s)" "store_ok env (file_store s')"
  using coordinators.ev_run [OF reachable_store_ok [OF assms(1), of env ops], of ops'] reachable_store_ok [OF assms(1), of env ops]
    reachable_store_ok [OF assms(1), of env "ops @ ops'"] assms(2,3)
  by (simp_all add: co_evolves_def coordinator_ok_def)
lemma evolves_holder: "evolves st st' \<Longrightarrow> holder st' i = Some (a, w, f) \<Longrightarrow> f \<le> st_nextFencingToken st \<Longrightarrow> holder st i = Some (a, w, f)"
  by (simp add: evolves_def)

lemma store_ok_holder:
  "store_ok env st \<Longrightarrow> holder st i = Some (a, w, f) \<Longrightarrow> 0 < f \<and> f \<le> st_nextFencingToken st \<and> active_worker st w"
  by (simp add: store_ok_def leases_ok_def)

lemma revoked_after:
  assumes "fst (revokeWorker env wid reason s) = Inr v"
  shows "\<exists>i. worker_index (file_store (snd (revokeWorker env wid reason s))) wid = Some i \<and>
    dw_state (st_workers (file_store (snd (revokeWorker env wid reason s))) ! i) = WRevoked"
proof -
  let ?fn = "bindA (workerC (JStr wid)) (\<lambda>wi.
       bindA (nowC env) (\<lambda>now.
       bindA (liftR (boundedString (default_arg reason ''Revoked by operator.'') ''revoke reason'' 512)) (\<lambda>why.
       bindA (mod_store (set_worker wi (\<lambda>w. w\<lparr>dw_state := WRevoked, dw_revokedAt := Some now, dw_revokeReason := Some why,
                dw_updatedAt := now, dw_activeTokenId := None, dw_tokenExpiresAt := None\<rparr>))) (\<lambda>_.
       bindA (mod_store (revoke_jobs now wid)) (\<lambda>_.
       bindA (worker_at wi) (\<lambda>w. retA (cloneWorker w)))))))"
  obtain a where a: "assertWorkerId wid = Inr a" using assms by (auto simp: revokeWorker_def dest: liftR_InrD)
  then have eq: "revokeWorker env wid reason s = mutate env ?fn s" by (simp add: revokeWorker_def bindA_def liftR_def)
  from assms have "fst (mutate env ?fn s) = Inr v" by (simp only: eq)
  then show ?thesis unfolding eq
  proof (rule mutate_InrD)
    fix t t1 now assume r: "?fn t = (Inr v, t1)" and fs: "file_store (snd (mutate env ?fn s)) = co_store t1"
    from r obtain wi f n where w: "worker_index (co_store t) wid = Some wi" "wi < length (st_workers (co_store t))"
        and t1: "co_store t1 = revoke_jobs n wid (set_worker wi f (co_store t))"
        and f: "\<And>w. worker_key (f w) = worker_key w \<and> dw_state (f w) = WRevoked"
      by (auto simp: nowC_def mod_store_def worker_at_def liftR_def retA_def worker_key_def dest!: workerC_D elim!: bindA_InrE)
    have "worker_index (co_store t1) wid = Some wi"
      using worker_index_set_worker [of f wi "co_store t" wid] f w(1) t1 by (simp add: worker_index_def revoke_jobs_def)
    then show "\<exists>i. worker_index (file_store (snd (mutate env ?fn s))) wid = Some i \<and>
        dw_state (st_workers (file_store (snd (mutate env ?fn s))) ! i) = WRevoked"
      unfolding fs using f w(2) t1 by (intro exI [of _ wi]) (simp add: revoke_jobs_def set_worker_def)
  qed
qed

section \<open>Properties\<close>

text \<open>Claim C3. The coordinator implements the life of a job: along any run, with failing writes and locks left by
  other processes, each job keeps its identity (identifier, idempotency key, tool, digests, replay policy,
  payload), moves along the transitions of the abstract machine only, and does not change any more once it is
  completed, failed or cancelled.\<close>

theorem coordinator_refines_job_machine:
  assumes "no_store s0" "s = fold (co_do env) ops s0" "s' = fold (co_do env) ops' s" "i < length (st_jobs (file_store s))"
  shows "i < length (st_jobs (file_store s')) \<and>
    (job_step (dj_replayPolicy (st_jobs (file_store s) ! i)))\<^sup>*\<^sup>* (phase (st_jobs (file_store s) ! i)) (phase (st_jobs (file_store s') ! i)) \<and>
    job_key (st_jobs (file_store s') ! i) = job_key (st_jobs (file_store s) ! i) \<and>
    (terminal (dj_state (st_jobs (file_store s) ! i)) \<longrightarrow> st_jobs (file_store s') ! i = st_jobs (file_store s) ! i)"
  using run_evolves(1) [OF assms(1-3)] assms(4) by (auto simp: evolves_def job_evolves_def)

text \<open>Claim C4. At most once: a job submitted without permission to replay that a worker has acknowledged (it may
  have had effects) is never handed out again.  In every later state it is still running under the same
  worker and fencing token, or it is blocked for the operator, or it has ended.\<close>

theorem no_replay_job_starts_once:
  assumes "no_store s0" "s = fold (co_do env) ops s0" "s' = fold (co_do env) ops' s" "i < length (st_jobs (file_store s))"
    and "dj_replayPolicy (st_jobs (file_store s) ! i) = NoReplay" "dj_state (st_jobs (file_store s) ! i) = Running"
  shows "(dj_state (st_jobs (file_store s') ! i) = Running \<and> holder (file_store s') i = holder (file_store s) i) \<or>
    dj_state (st_jobs (file_store s') ! i) = Blocked \<or> terminal (dj_state (st_jobs (file_store s') ! i))"
proof -
  let ?j = "st_jobs (file_store s) ! i" and ?j' = "st_jobs (file_store s') ! i"
  note ev = run_evolves [OF assms(1-3)]
  have i': "i < length (st_jobs (file_store s'))" using ev(1) assms(4) by (auto simp: evolves_def)
  obtain l where l: "dj_lease ?j = Some l" using ev(2) assms(4,6) by (auto simp: store_ok_def job_ok_def in_progress_def)
  have p: "phase ?j = PRunning (ls_workerId l) (ls_fencingToken l)" using assms(6) l by (simp add: phase_def)
  have "(job_step NoReplay)\<^sup>*\<^sup>* (phase ?j) (phase ?j')" using ev(1) assms(4,5) by (auto simp: evolves_def job_evolves_def)
  from no_replay_once [OF this] p
  consider "phase ?j' = PRunning (ls_workerId l) (ls_fencingToken l)" | "phase ?j' = PBlocked" | d where "phase ?j' = PDone d" by auto
  then show ?thesis
  proof cases
    case 1
    then obtain l' where l': "dj_lease ?j' = Some l'" "dj_state ?j' = Running" "ls_fencingToken l' = ls_fencingToken l"
      using ev(3) i' by (cases "dj_lease ?j'"; cases "dj_state ?j'") (auto simp: phase_def store_ok_def job_ok_def in_progress_def)
    have "holder (file_store s') i = Some (lease_key l')" using l' i' by (simp add: holder_def)
    moreover have "ls_fencingToken l \<le> st_nextFencingToken (file_store s)"
      using store_ok_holder [OF ev(2), of i] l assms(4) by (simp add: holder_def lease_key_def)
    ultimately have "holder (file_store s) i = Some (lease_key l')"
      using evolves_holder [OF ev(1)] l'(3) by (simp add: lease_key_def)
    with \<open>holder (file_store s') i = Some (lease_key l')\<close> l'(2) show ?thesis by simp
  next
    case 2
    then show ?thesis by (cases "dj_state ?j'") (auto simp: phase_def Let_def)
  next
    case 3
    then show ?thesis by (cases "dj_state ?j'") (auto simp: phase_def terminal_def Let_def)
  qed
qed

text \<open>Claim C9. Fencing: once a token has been issued and its lease has ended, no operation under that token ever
  succeeds again, in any later state, whatever worker presents it.\<close>

theorem stale_fencing_token_is_refused:
  assumes "no_store s0" "s = fold (co_do env) ops s0" "s' = fold (co_do env) ops' s"
    and "f \<le> st_nextFencingToken (file_store s)" "\<And>i a w. holder (file_store s) i \<noteq> Some (a, w, f)"
  shows "(\<exists>e. fst (acknowledgeJob env token jobId leaseId (JNum f) s') = Inl e) \<and>
    (\<exists>e. fst (heartbeat env token jobId leaseId (JNum f) ttl s') = Inl e) \<and>
    (\<exists>e. fst (recordOutputArtifact env token jobId leaseId (JNum f) artifact s') = Inl e) \<and>
    (\<exists>e. fst (failJob env token jobId leaseId (JNum f) reason s') = Inl e) \<and>
    (\<exists>e. fst (authorizeLease env token jobId leaseId (JNum f) s') = Inl e) \<and>
    (validateEvidence env value = Inr ev \<longrightarrow> jget ev ''fencingToken'' = JNum f \<longrightarrow> (\<exists>e. fst (completeJob env token value sig s') = Inl e))"
proof -
  have no: "\<not> lease_in (file_store s') a b (JNum f)" for a b
    using evolves_holder [OF run_evolves(1) [OF assms(1-3)] _ assms(4)] assms(5) by (auto simp: lease_in_def)
  show ?thesis
    by (intro conjI impI not_Inr)
      (use no in \<open>auto dest!: acknowledge_lease_in heartbeat_lease_in artifact_lease_in fail_lease_in authorize_lease_in complete_lease_in\<close>)
qed

text \<open>A revoked worker is locked out for ever: after a successful revocation, in every later state the
  worker holds no lease, and every operation with any token issued to it is refused.\<close>

theorem revoked_worker_is_locked_out:
  assumes "no_store s0" "s = fold (co_do env) ops s0" "fst (revokeWorker env wid reason s) = Inr v"
    and "s' = fold (co_do env) ops' (snd (revokeWorker env wid reason s))"
    and "token_claims env token = Inr c" "jget c ''workerId'' = JStr wid"
  shows "(\<forall>i a f. holder (file_store s') i \<noteq> Some (a, wid, f)) \<and>
    (\<exists>e. fst (leaseJob env token ttl s') = Inl e) \<and>
    (\<exists>e. fst (acknowledgeJob env token jobId leaseId fencing s') = Inl e) \<and>
    (\<exists>e. fst (heartbeat env token jobId leaseId fencing ttl s') = Inl e) \<and>
    (\<exists>e. fst (recordOutputArtifact env token jobId leaseId fencing artifact s') = Inl e) \<and>
    (\<exists>e. fst (failJob env token jobId leaseId fencing why s') = Inl e) \<and>
    (\<exists>e. fst (completeJob env token value sig s') = Inl e) \<and>
    (\<exists>e. fst (authorizeLease env token jobId leaseId fencing s') = Inl e)"
proof -
  let ?r = "snd (revokeWorker env wid reason s)"
  have r: "?r = fold (co_do env) (ops @ [OpRevoke wid reason]) s0" using assms(2) by simp
  note ev = run_evolves [OF assms(1) r assms(4)]
  obtain i where i: "worker_index (file_store ?r) wid = Some i" "dw_state (st_workers (file_store ?r) ! i) = WRevoked"
    using revoked_after [OF assms(3)] by blast
  with ev(1) have "worker_index (file_store s') wid = Some i" "dw_state (st_workers (file_store s') ! i) = WRevoked"
    by (auto simp: evolves_def worker_evolves_def)
  then have "\<not> active_worker (file_store s') wid" by (simp add: active_worker_def)
  moreover from this have "\<not> authentic env token (file_store s')" using assms(5,6) by (auto simp: authentic_def)
  ultimately show ?thesis
    by (intro conjI not_Inr) (auto dest: worker_operations_authentic store_ok_holder [OF ev(3)])
qed

text \<open>Claim C27. In every reachable store, whatever happened: a job has a lease exactly while it is leased or
  running, no two leases have the same fencing token and no worker holds two, tokens are positive and do not
  exceed the counter, the holder of a lease is an active worker, no two jobs have the same idempotency key, and
  a completed job has its completion record.\<close>

theorem leases_are_exclusive:
  assumes "no_store s0" "st = file_store (fold (co_do env) ops s0)"
  shows "(\<forall>j \<in> set (st_jobs st). (dj_lease j \<noteq> None \<longleftrightarrow> dj_state j = Leased \<or> dj_state j = Running) \<and>
        (dj_state j = Completed \<longrightarrow> dj_completion j \<noteq> None)) \<and>
    (\<forall>i < length (st_jobs st). \<forall>k < length (st_jobs st). \<forall>l l'. dj_lease (st_jobs st ! i) = Some l \<longrightarrow> dj_lease (st_jobs st ! k) = Some l' \<longrightarrow>
        ls_fencingToken l = ls_fencingToken l' \<or> ls_workerId l = ls_workerId l' \<longrightarrow> i = k) \<and>
    (\<forall>j \<in> set (st_jobs st). \<forall>l. dj_lease j = Some l \<longrightarrow>
        0 < ls_fencingToken l \<and> ls_fencingToken l \<le> st_nextFencingToken st \<and> active_worker st (ls_workerId l)) \<and>
    distinct (map dj_idempotencyKey (st_jobs st))"
proof -
  have ok: "store_ok env st" using reachable_store_ok [OF assms(1), of env ops] assms(2) by (simp add: coordinator_ok_def)
  have jobs: "job_ok j" if "j \<in> set (st_jobs st)" for j using ok that by (auto simp: store_ok_def in_set_conv_nth)
  have h: "holder st i = Some (ls_id l, ls_workerId l, ls_fencingToken l)" if "i < length (st_jobs st)" "dj_lease (st_jobs st ! i) = Some l" for i l
    using that by (simp add: holder_def lease_key_def)
  have excl: "\<And>i k a w f a' w' f'. holder st i = Some (a, w, f) \<Longrightarrow> holder st k = Some (a', w', f') \<Longrightarrow> f = f' \<or> w = w' \<Longrightarrow> i = k"
    using ok unfolding store_ok_def leases_ok_def by blast
  show ?thesis
  proof (intro conjI)
    show "\<forall>i < length (st_jobs st). \<forall>k < length (st_jobs st). \<forall>l l'. dj_lease (st_jobs st ! i) = Some l \<longrightarrow> dj_lease (st_jobs st ! k) = Some l' \<longrightarrow>
        ls_fencingToken l = ls_fencingToken l' \<or> ls_workerId l = ls_workerId l' \<longrightarrow> i = k"
      using excl [OF h h] by blast
    show "\<forall>j \<in> set (st_jobs st). \<forall>l. dj_lease j = Some l \<longrightarrow>
        0 < ls_fencingToken l \<and> ls_fencingToken l \<le> st_nextFencingToken st \<and> active_worker st (ls_workerId l)"
      using store_ok_holder [OF ok h] by (metis in_set_conv_nth)
    show "distinct (map dj_idempotencyKey (st_jobs st))" using ok by (simp add: store_ok_def)
  qed (use jobs in \<open>auto simp: job_ok_def in_progress_def\<close>)
qed

text \<open>Claim C10. A job is completed only by the worker that holds its running lease, on evidence that names this
  worker, tool and arguments, the job's input artifacts and exactly the output artifacts uploaded under the
  lease, and that the worker's key has signed.\<close>

theorem completion_comes_from_the_lease_holder:
  assumes "fst (completeJob env token value sig s) = Inr v"
  shows "\<exists>now i ev w l. validateEvidence env value = Inr ev \<and> i < length (st_jobs (recovered now (file_store s))) \<and>
    (let j = st_jobs (recovered now (file_store s)) ! i; j' = st_jobs (file_store (snd (completeJob env token value sig s))) ! i in
       dj_state j = Running \<and> dj_lease j = Some l \<and> w \<in> set (st_workers (file_store s)) \<and> dw_state w = WActive \<and> dw_id w = ls_workerId l \<and>
       jget ev ''workerId'' = JStr (dw_id w) \<and> jget ev ''leaseId'' = JStr (ls_id l) \<and> jget ev ''fencingToken'' = JNum (ls_fencingToken l) \<and>
       jget ev ''tool'' = JStr (dj_tool j) \<and> jget ev ''argsDigest'' = JStr (dj_argsDigest j) \<and>
       canonicalJson (ce_lc env) (jget ev ''inputArtifacts'') = canonicalJson (ce_lc env) (strings_json (dj_inputArtifacts j)) \<and>
       (\<exists>out. validateArtifactIds (jget ev ''outputArtifacts'') (ce_artifactExists env) ''outputArtifacts'' = Inr out \<and>
          canonicalJson (ce_lc env) (strings_json out) =
          canonicalJson (ce_lc env) (strings_json (case dj_leaseOutputArtifacts j of Some xs \<Rightarrow> xs | None \<Rightarrow> []))) \<and>
       ce_verify env (dw_publicKeyPem w) (canonicalJson (ce_lc env) (JObj ev)) sig \<and>
       dj_state j' = (if jget ev ''resultOk'' = JBool True then Completed else Failed) \<and> dj_lease j' = None)"
proof -
  obtain t t1 now where t: "co_store t = recovered now (file_store s)"
    and r: "bindA (authenticate env token) (\<lambda>(wi, tokenId).
     bindA (liftR (validateEvidence env value)) (\<lambda>ev. bindA (worker_at wi) (\<lambda>w.
     bindA (matchLease env (dw_id w) (jget ev ''jobId'') (jget ev ''leaseId'') (jget ev ''fencingToken'')) (\<lambda>ji.
     accept_completion env ev sig w ji)))) t = (Inr v, t1)"
    and fs: "file_store (snd (completeJob env token value sig s)) = co_store t1"
    by (rule mutate_InrD [OF assms [unfolded completeJob_def], folded completeJob_def]) blast
  have ws: "st_workers (recovered now (file_store s)) = st_workers (file_store s)" by (simp add: recovered_def)
  have after: "dj_state (completed_job env ev sig fp at j) = (if jget ev ''resultOk'' = JBool True then Completed else Failed)"
    "dj_lease (completed_job env ev sig fp at j) = None" for ev fp at j
    by (simp_all add: completed_job_def clearLease_def Let_def)
  from r show ?thesis
  proof (rule complete_in_store_D, goal_cases)
    case (1 wi ev ji l fp at)
    then show ?case unfolding fs
      by (intro exI [of _ now] exI [of _ ji] exI [of _ ev] exI [of _ "st_workers (file_store s) ! wi"] exI [of _ l])
        (auto simp: t ws after set_job_def evidence_matches_def fail_def verifyDistributedEvidence_def Let_def split: if_splits)
  qed
qed

text \<open>A completed job can always be verified: in every reachable state, the record of a completed job
  passes \<^verbatim>\<open>verifyCompletion\<close>, also after its worker was revoked or its token rotated, provided that a signature
  made with the coordinator's key verifies under its public key.\<close>

theorem completed_job_verifies:
  assumes "no_store s0" "s = fold (co_do env) ops s0" "\<And>t. ce_verify env (ce_publicPem env) t (ce_sign env t)"
    and "re_test JOB_ID jobId" "index_where (\<lambda>j. dj_id j = jobId) (st_jobs (file_store s)) = Some i"
    and "dj_state (st_jobs (file_store s) ! i) = Completed"
  shows "\<exists>r. fst (verifyCompletion env jobId s) = Inr r \<and> cc_valid r \<and> cc_workerValid r \<and> cc_coordinatorValid r"
proof -
  let ?st = "file_store s"
  have ok: "store_ok env ?st" using reachable_store_ok [OF assms(1), of env ops] assms(2) by (simp add: coordinator_ok_def)
  have i: "i < length (st_jobs ?st)" using index_where_SomeD [OF assms(5)] by simp
  obtain c where c: "dj_completion (st_jobs ?st ! i) = Some c" using ok i assms(6) by (auto simp: store_ok_def job_ok_def)
  then have "completion_ok env ?st c" using ok i by (auto simp: store_ok_def)
  then obtain wid wi where w: "jget (dc_evidence c) ''workerId'' = JStr wid" "worker_index ?st wid = Some wi"
      "verifyDistributedEvidence env (dc_evidence c) (dc_workerSignature c) (dw_publicKeyPem (st_workers ?st ! wi))"
    and sig: "dc_coordinatorSignature c = ce_sign env (canonicalJson (ce_lc env) (acceptance_json (dc_evidence c) (dc_workerSignature c) (dc_acceptedAt c)))"
    by (auto simp: completion_ok_def)
  have wi: "index_where (\<lambda>w. dw_id w = wid) (st_workers ?st) = Some wi" using w(2) by (simp add: worker_index_def)
  show ?thesis
    using assms(3,4,5) c w(1,3) wi sig
    by (simp add: verifyCompletion_def assertJobId_def bindA_def liftR_def readC_def loadStore_def on_work_def jobC_def job_at_def
        workerC_def worker_at_def retA_def Let_def)
qed
lemma ignore_case_whole: "ignore_case (whole r) = whole (ignore_case r)"
  by (simp add: whole_def)

lemma ignore_case_RTimes: "ignore_case (RTimes n r) = RTimes n (ignore_case r)"
  by (induction n) simp_all

lemma ignore_case_RUpTo: "ignore_case (RUpTo n r) = RUpTo n (ignore_case r)"
  by (induction n) (simp_all add: ROpt_def)

lemma matches_RUpTo_refl [simp]: "matches_at s (RUpTo n r) i i"
  by (cases n) (simp_all add: m_empty)



lemma leaseView_digest:
  assumes "payload_of env j" "leaseView env j = Inr (v, p)"
    and "\<And>n t iv tag ct. ce_seal env n t = (iv, tag, ct) \<Longrightarrow> ce_open env iv tag ct = Some t"
    and "\<And>x q. ce_parse env (canonicalJson (ce_lc env) x) = Some q \<Longrightarrow> canonicalJson (ce_lc env) q = canonicalJson (ce_lc env) x"
  shows "v = cloneJob j \<and> ce_sha256 env (canonicalJson (ce_lc env) p) = dj_payloadDigest j"
proof -
  obtain n kvs iv tag ct where s: "ce_seal env n (payload_text env (dj_tool j) kvs) = (iv, tag, ct)"
      "dj_encryptedPayload j = \<lparr>ep_algorithm = ''aes-256-gcm'', ep_iv = iv, ep_tag = tag, ep_ciphertext = ct\<rparr>"
      "dj_payloadDigest j = ce_sha256 env (payload_text env (dj_tool j) kvs)"
  proof -
    from assms(1) obtain n kvs where c: "case ce_seal env n (payload_text env (dj_tool j) kvs) of (iv, tag, ct) \<Rightarrow>
       dj_encryptedPayload j = \<lparr>ep_algorithm = ''aes-256-gcm'', ep_iv = iv, ep_tag = tag, ep_ciphertext = ct\<rparr> \<and>
       dj_payloadDigest j = ce_sha256 env (payload_text env (dj_tool j) kvs) \<and>
       dj_argsDigest j = ce_sha256 env (canonicalJson (ce_lc env) (JObj kvs))"
      unfolding payload_of_def by (elim exE) (rule that)
    then show thesis by (cases "ce_seal env n (payload_text env (dj_tool j) kvs)") (simp add: that)
  qed
  have "decryptPayload env (dj_encryptedPayload j) = Inr (payload_text env (dj_tool j) kvs)"
    using assms(3) [OF s(1)] by (simp add: s(2) decryptPayload_def)
  with assms(2) have "v = cloneJob j" "ce_parse env (payload_text env (dj_tool j) kvs) = Some p"
    by (auto simp: leaseView_def fail_def split: option.splits)
  moreover from assms(4) [OF this(2) [unfolded payload_text_def]] s(3)
  have "ce_sha256 env (canonicalJson (ce_lc env) p) = dj_payloadDigest j" by (simp only: payload_text_def)
  ultimately show ?thesis by simp
qed

lemma leaseJob_InrE:
  assumes "fst (leaseJob env token ttl s) = Inr x"
  obtains ttl' t t1 now where "co_store t = recovered now (file_store s)" "lease_in_store env token ttl' t = (Inr x, t1)"
    "file_store (snd (leaseJob env token ttl s)) = co_store t1"
proof -
  obtain ttl' where "boundTtl (case ttl of Some t \<Rightarrow> t | None \<Rightarrow> ce_maxLeaseTtlMs env) (ce_maxLeaseTtlMs env) ''leaseTtlMs'' = Inr ttl'"
    using assms unfolding leaseJob_def by (auto dest: liftR_InrD)
  then have eq: "leaseJob env token ttl s = mutate env (lease_in_store env token ttl') s" by (simp add: leaseJob_def bindA_def liftR_def)
  show thesis by (rule mutate_InrD [OF assms [unfolded eq], folded eq]) (rule that)
qed

text \<open>A lease that is handed out is the one the worker holds, or a new one on the job that was picked.\<close>

lemma lease_in_store_SomeE:
  assumes "lease_in_store env token ttl t = (Inr (Some (v, p)), t1)"
  obtains (held) w i where "w \<in> set (st_workers (co_store t))" "dw_state w = WActive"
      "index_where (held_by (dw_id w)) (st_jobs (co_store t)) = Some i" "st_jobs (co_store t1) = st_jobs (co_store t)"
      "leaseView env (st_jobs (co_store t) ! i) = Inr (v, p)"
    | (new) w i lid tid at where "w \<in> set (st_workers (co_store t))" "dw_state w = WActive"
      "index_where (held_by (dw_id w)) (st_jobs (co_store t)) = None" "pick_job (dw_capabilities w) (st_jobs (co_store t)) = Some i"
      "st_jobs (co_store t1) ! i = new_lease lid (dw_id w) tid (st_nextFencingToken (co_store t) + 1) at ttl (st_jobs (co_store t) ! i)"
      "leaseView env (st_jobs (co_store t1) ! i) = Inr (v, p)"
  using assms
proof (rule lease_in_store_D)
  fix wi tid at st
  assume wi: "wi < length (st_workers (co_store t))" and st: "st = set_worker wi (seen at) (co_store t)"
    and act: "dw_state (st_workers (co_store t) ! wi) = WActive"
    and c: "(\<exists>i v'. index_where (held_by (dw_id (st_workers st ! wi))) (st_jobs st) = Some i \<and> co_store t1 = st \<and>
        leaseView env (st_jobs st ! i) = Inr v' \<and> Some (v, p) = Some v') \<or>
      co_store t1 = st \<and> Some (v, p) = None \<or>
      (\<exists>i lid v'. index_where (held_by (dw_id (st_workers st ! wi))) (st_jobs st) = None \<and>
        pick_job (dw_capabilities (st_workers st ! wi)) (st_jobs st) = Some i \<and>
        co_store t1 = set_job i (new_lease lid (dw_id (st_workers st ! wi)) tid (st_nextFencingToken st + 1) at ttl)
          (st\<lparr>st_nextFencingToken := st_nextFencingToken st + 1\<rparr>) \<and>
        leaseView env (st_jobs (co_store t1) ! i) = Inr v' \<and> Some (v, p) = Some v')"
  let ?w = "st_workers (co_store t) ! wi"
  have w: "?w \<in> set (st_workers (co_store t))" "dw_id (st_workers st ! wi) = dw_id ?w"
      "dw_capabilities (st_workers st ! wi) = dw_capabilities ?w"
      "st_jobs st = st_jobs (co_store t)" "st_nextFencingToken st = st_nextFencingToken (co_store t)"
    using wi by (simp_all add: st set_worker_def seen_def)
  from c show thesis unfolding w(2-5)
  proof (elim disjE exE conjE, goal_cases)
    case (1 i v')
    then show ?case using held [OF w(1) act, of i] w(4) by simp
  next
    case (3 i lid v')
    then show ?case using new [OF w(1) act, of i lid tid at] pick_job_D [of "dw_capabilities ?w" "st_jobs (co_store t)" i] w(4,5)
      by (simp add: set_job_def)
  qed simp
qed

text \<open>Claim C28. Handing out work: a worker that gets a job is active and gets back the job it already holds, or,
  holding none, the oldest queued job whose capabilities it has, under a fencing token that was never used.  The
  payload it receives is the submitted one (it has the digest recorded at submission), for a cipher that opens
  what it sealed and a parser that reads a canonical text back as the value of that text.\<close>

theorem lease_hands_out_the_oldest_eligible_job:
  assumes "no_store s0" "s = fold (co_do env) ops s0" "fst (leaseJob env token ttl s) = Inr (Some (v, p))"
    and "\<forall>n t iv tag ct. ce_seal env n t = (iv, tag, ct) \<longrightarrow> ce_open env iv tag ct = Some t"
    and "\<forall>x q. ce_parse env (canonicalJson (ce_lc env) x) = Some q \<longrightarrow> canonicalJson (ce_lc env) q = canonicalJson (ce_lc env) x"
  shows "\<exists>now i w. let st = recovered now (file_store s); j = st_jobs st ! i; j' = st_jobs (file_store (snd (leaseJob env token ttl s))) ! i in
    w \<in> set (st_workers (file_store s)) \<and> dw_state w = WActive \<and> i < length (st_jobs st) \<and> v = cloneJob j' \<and>
    ce_sha256 env (canonicalJson (ce_lc env) p) = dj_payloadDigest j \<and> held_by (dw_id w) j' \<and>
    (held_by (dw_id w) j \<or>
     (\<forall>k \<in> set (st_jobs st). \<not> held_by (dw_id w) k) \<and> dj_state j = Queued \<and> set (dj_requiredCapabilities j) \<subseteq> set (dw_capabilities w) \<and>
     (\<forall>k \<in> set (st_jobs st). dj_state k = Queued \<longrightarrow> set (dj_requiredCapabilities k) \<subseteq> set (dw_capabilities w) \<longrightarrow> dj_createdAt j \<le> dj_createdAt k) \<and>
     map_option ls_fencingToken (dj_lease j') = Some (st_nextFencingToken st + 1))"
proof -
  obtain ttl' t t1 now where t: "co_store t = recovered now (file_store s)"
    and r: "lease_in_store env token ttl' t = (Inr (Some (v, p)), t1)"
    and fs: "file_store (snd (leaseJob env token ttl s)) = co_store t1"
    by (rule leaseJob_InrE [OF assms(3)]) (rule that)
  let ?st = "recovered now (file_store s)"
  have ok: "store_ok env ?st"
    using steps_ok [OF recovered_step] reachable_store_ok [OF assms(1), of env ops] assms(2) by (simp add: coordinator_ok_def)
  have ws: "st_workers ?st = st_workers (file_store s)" by (simp add: recovered_def)
  from r show ?thesis
  proof (cases rule: lease_in_store_SomeE)
    case (held w i)
    note h = held [unfolded t]
    note i = index_where_SomeD [OF h(3)]
    have "payload_of env (st_jobs ?st ! i)" using ok i by (auto simp: store_ok_def)
    from leaseView_digest [OF this h(5) assms(4,5) [rule_format]] show ?thesis
      using h ws i fs by (intro exI [of _ now] exI [of _ i] exI [of _ w]) (simp add: Let_def)
  next
    case (new w i lid tid at)
    note n = new [unfolded t]
    note pk = pick_job_D [OF n(4)]
    have "payload_of env (st_jobs ?st ! i)" using ok pk(1) by (auto simp: store_ok_def)
    then have "payload_of env (st_jobs (co_store t1) ! i)" by (simp add: n(5) new_lease_def payload_of_def)
    from leaseView_digest [OF this n(6) assms(4,5) [rule_format]]
    have "v = cloneJob (st_jobs (co_store t1) ! i) \<and> ce_sha256 env (canonicalJson (ce_lc env) p) = dj_payloadDigest (st_jobs ?st ! i)"
      by (simp add: n(5) new_lease_def)
    moreover have "held_by (dw_id w) (st_jobs (co_store t1) ! i)"
      "map_option ls_fencingToken (dj_lease (st_jobs (co_store t1) ! i)) = Some (st_nextFencingToken ?st + 1)"
      by (simp_all add: n(5) new_lease_def held_by_def in_progress_def)
    moreover have "\<forall>k \<in> set (st_jobs ?st). dj_state k = Queued \<longrightarrow> set (dj_requiredCapabilities k) \<subseteq> set (dw_capabilities w) \<longrightarrow>
        dj_createdAt (st_jobs ?st ! i) \<le> dj_createdAt k" using pk(4) by (metis in_set_conv_nth)
    moreover have "\<forall>k \<in> set (st_jobs ?st). \<not> held_by (dw_id w) k" using n(3) by (simp add: index_where_None_iff)
    ultimately show ?thesis using n(1,2) ws pk(1-3) fs
      by (intro exI [of _ now] exI [of _ i] exI [of _ w]) (simp add: Let_def)
  qed
qed

section \<open>A concrete run\<close>

text \<open>One worker, one job: registered, submitted, leased, acknowledged, completed.\<close>

definition demo_uuid :: "nat \<Rightarrow> string" where
  "demo_uuid n = (if n = 1 then ''b'' else replicate 16 (CHR ''a''))"

text \<open>The claims of the token that the first worker gets.\<close>

definition demo_claims :: TokenClaims where
  "demo_claims = \<lparr>tk_workerId = ''wrk_aaaaaaaaaaaa'', tk_tokenId = ''b'', tk_issuedAt = 3, tk_expiresAt = 900003\<rparr>"

definition demo_payload :: string where
  "demo_payload = ''{'' @ [CHR 34] @ ''args'' @ [CHR 34] @ '':{},'' @ [CHR 34] @ ''tool'' @ [CHR 34] @ '':'' @ [CHR 34] @ ''go'' @ [CHR 34] @ ''}''"

definition demo_parse :: "string \<Rightarrow> jval option" where
  "demo_parse t = (if t = ''n'' then Some (claims_json demo_claims)
     else if t = demo_payload then Some (JObj [(''args'', JObj []), (''tool'', JStr ''go'')]) else None)"

definition demo_coord :: coord_env where
  "demo_coord = \<lparr>ce_now = int, ce_uuid = demo_uuid, ce_lc = code_unit_le, ce_sha256 = (\<lambda>t. replicate 64 (CHR ''a'')),
     ce_createPublicKey = (\<lambda>pem. Some (''ed25519'', pem, pem)), ce_publicPem = ''P'', ce_sign = (\<lambda>t. ''s''),
     ce_verify = (\<lambda>pem t sig. sig = ''s''), ce_seal = (\<lambda>n t. (''iv'', ''tag'', t)), ce_open = (\<lambda>iv tag ct. Some ct),
     ce_base64url = (\<lambda>t. ''n''), ce_unbase64url = (\<lambda>t. t), ce_parse = demo_parse,
     ce_artifactExists = (\<lambda>i. True), ce_maxQueuedJobs = 1000, ce_maxTokenTtlMs = 900000, ce_maxLeaseTtlMs = 60000,
     ce_write = (\<lambda>n. True)\<rparr>"

definition demo_start :: coordinator where
  "demo_start = \<lparr>co_file = None, co_lock = None, co_writes = 0, co_work = \<lparr>co_store = emptyStore, co_reads = 0, co_draws = 0\<rparr>\<rparr>"

definition demo_register :: co_op where
  "demo_register = OpRegister (JStr ''w'') JUndef (JStr ''K'') None"

definition demo_submit :: co_op where
  "demo_submit = OpSubmit (JStr ''go'') (JObj []) None None JUndef JUndef"

definition demo_ack :: co_op where
  "demo_ack = OpAcknowledge ''ffw1.n.s'' (JStr ''job_aaaaaaaaaaaaaaaa'') (JStr ''lease_aaaaaaaaaaaaaaaa'') (JNum 1)"

definition demo_worker :: WorkerRecord where
  "demo_worker = \<lparr>dw_id = ''wrk_aaaaaaaaaaaa'', dw_name = ''w'', dw_capabilities = [],
     dw_publicKeyFingerprint = replicate 64 (CHR ''a''), dw_state = WActive, dw_createdAt = 2, dw_updatedAt = 3,
     dw_tokenExpiresAt = Some 900003, dw_lastSeenAt = None, dw_revokedAt = None, dw_revokeReason = None,
     dw_publicKeyPem = ''K'', dw_activeTokenId = Some ''b''\<rparr>"

definition demo_store1 :: CoordinatorStore where
  "demo_store1 = \<lparr>st_nextFencingToken = 0, st_workers = [demo_worker], st_jobs = []\<rparr>"

definition demo_state :: "CoordinatorStore \<Rightarrow> nat \<Rightarrow> nat \<Rightarrow> nat \<Rightarrow> coordinator" where
  "demo_state st r d w = \<lparr>co_file = Some st, co_lock = None, co_writes = w, co_work = \<lparr>co_store = st, co_reads = r, co_draws = d\<rparr>\<rparr>"

lemma demo_token: "token_text demo_coord c = ''ffw1.n.s''"
  by (simp add: token_text_def demo_coord_def)

lemmas run_defs = mutate_def withLock_def clear_stale_lock_def loadStore_def on_work_def saveStore_def file_store_def recoverInStore_eq
  bindA_def liftR_def retA_def getsA_def modifyA_def nowC_def uuidC_def short_id_def mod_store_def job_at_def worker_at_def set_worker_def set_job_def

lemma demo_args: "boundedString (JStr ''w'') ''worker name'' 128 = Inr ''w''" "boundedString (JStr ''K'') ''worker public key'' 16384 = Inr ''K''"
  "uniqueCapabilities (JArr []) l = Inr []"
  "boundTtl 900000 900000 l' = Inr 900000" "boundTtl 60000 60000 l' = Inr 60000"
  by (code_simp, code_simp, simp_all add: uniqueCapabilities_def MAX_CAPABILITIES_def boundTtl_def is_safe_integer_def MAX_SAFE_INTEGER_def)

lemma demo_fields: "ce_now demo_coord = int" "ce_uuid demo_coord = demo_uuid" "ce_sha256 demo_coord = (\<lambda>t. replicate 64 (CHR ''a''))"
  "ce_createPublicKey demo_coord = (\<lambda>pem. Some (''ed25519'', pem, pem))" "ce_maxTokenTtlMs demo_coord = 900000" "ce_maxLeaseTtlMs demo_coord = 60000"
  "ce_maxQueuedJobs demo_coord = 1000" "ce_write demo_coord = (\<lambda>n. True)" "ce_seal demo_coord = (\<lambda>n t. (''iv'', ''tag'', t))"
  by (simp_all add: demo_coord_def)

lemma demo_ids: "''wrk_'' @ take 12 (filter (\<lambda>c. c \<noteq> CHR ''-'') (demo_uuid 0)) = ''wrk_aaaaaaaaaaaa''" "demo_uuid (Suc 0) = ''b''"
  "''job_'' @ take 16 (filter (\<lambda>c. c \<noteq> CHR ''-'') (demo_uuid 2)) = ''job_aaaaaaaaaaaaaaaa''"
  "''lease_'' @ take 16 (filter (\<lambda>c. c \<noteq> CHR ''-'') (demo_uuid 4)) = ''lease_aaaaaaaaaaaaaaaa''"
  by code_simp+

lemma demo_run1: "co_do demo_coord demo_register demo_start = demo_state demo_store1 4 2 1"
  using demo_ids(1)
  by (simp add: demo_register_def registerWorker_def demo_args demo_fields js_or_else_def publicKeyDetails_def run_defs demo_start_def emptyStore_def
      issueTokenInStore_def demo_token demo_ids(2) demo_state_def demo_store1_def demo_worker_def Let_def)


lemma demo_payload_text: "payload_text demo_coord ''go'' [] = demo_payload"
  by code_simp

lemma demo_args2: "boundedString (JStr ''go'') ''tool'' 128 = Inr ''go''" "byte_length demo_payload = 23"
  by code_simp+

lemma demo_tool: "re_test TOOL_NAME ''go''"
proof -
  have "CHR ''g'' \<in> set az" "CHR ''o'' \<in> set az" by (simp_all add: az_def)
  then show ?thesis
    by (simp add: TOOL_NAME_def ignore_case_whole re_test_whole RBetween_def ignore_case_RTimes ignore_case_RUpTo)
qed

lemma demo_formats: "re_test JOB_ID ''job_aaaaaaaaaaaaaaaa''" "re_test WORKER_ID ''wrk_aaaaaaaaaaaa''"
  by code_simp+


definition demo_job :: JobRecord where
  "demo_job = \<lparr>dj_id = ''job_aaaaaaaaaaaaaaaa'', dj_idempotencyKey = ''auto:'' @ replicate 64 (CHR ''a''), dj_tool = ''go'',
     dj_argsDigest = replicate 64 (CHR ''a''), dj_payloadDigest = replicate 64 (CHR ''a''), dj_inputArtifacts = [],
     dj_requiredCapabilities = [], dj_replayPolicy = NoReplay, dj_state = Queued, dj_attempts = 0, dj_createdAt = 6, dj_updatedAt = 6,
     dj_completedAt = None, dj_failure = JUndef, dj_blockedReason = None, dj_completion = None,
     dj_encryptedPayload = \<lparr>ep_algorithm = ''aes-256-gcm'', ep_iv = ''iv'', ep_tag = ''tag'', ep_ciphertext = demo_payload\<rparr>,
     dj_lease = None, dj_leaseOutputArtifacts = None\<rparr>"

definition demo_store2 :: CoordinatorStore where
  "demo_store2 = demo_store1\<lparr>st_jobs := [demo_job]\<rparr>"

lemma demo_run2: "co_do demo_coord demo_submit (demo_state demo_store1 4 2 1) = demo_state demo_store2 7 4 2"
  using demo_ids(3)
  by (simp add: demo_submit_def submitJob_def submit_in_store_def encryptPayload_def demo_args demo_args2 demo_fields demo_tool demo_payload_text
      js_or_else_def validateArtifactIds_def replay_of_text_def MAX_ARGS_BYTES_def run_defs demo_state_def demo_store1_def
      demo_store2_def demo_job_def Let_def)


definition demo_lease :: job_lease where
  "demo_lease = \<lparr>ls_id = ''lease_aaaaaaaaaaaaaaaa'', ls_workerId = ''wrk_aaaaaaaaaaaa'', ls_fencingToken = 1, ls_issuedAt = 10,
     ls_expiresAt = 60010, ls_acknowledgedAt = None, ls_lastHeartbeatAt = None, ls_tokenId = ''b''\<rparr>"

definition demo_leased :: JobRecord where
  "demo_leased = demo_job\<lparr>dj_attempts := 1, dj_state := Leased, dj_updatedAt := 10, dj_leaseOutputArtifacts := Some [],
     dj_lease := Some demo_lease\<rparr>"

definition demo_store3 :: CoordinatorStore where
  "demo_store3 = \<lparr>st_nextFencingToken = 1, st_workers = [seen 10 demo_worker], st_jobs = [demo_leased]\<rparr>"

definition demo_running :: JobRecord where
  "demo_running = demo_leased\<lparr>dj_state := Running, dj_updatedAt := 15,
     dj_lease := Some (demo_lease\<lparr>ls_acknowledgedAt := Some 15, ls_lastHeartbeatAt := Some 15\<rparr>)\<rparr>"

definition demo_store4 :: CoordinatorStore where
  "demo_store4 = \<lparr>st_nextFencingToken = 1, st_workers = [seen 15 demo_worker], st_jobs = [demo_running]\<rparr>"

lemma demo_claims_ok: "token_claims demo_coord ''ffw1.n.s'' =
    Inr [(''schemaVersion'', JNum 1), (''kind'', JStr ''folderforge-worker''), (''workerId'', JStr ''wrk_aaaaaaaaaaaa''),
     (''tokenId'', JStr ''b''), (''issuedAt'', JNum 3), (''expiresAt'', JNum 900003)]"
  using demo_formats(2)
  by (simp add: token_claims_def demo_coord_def demo_parse_def claims_json_def demo_claims_def assertWorkerId_def jget_simps
      js_truthy_def is_safe_num_def is_safe_integer_def MAX_SAFE_INTEGER_def)

lemma demo_parsed: "ce_parse demo_coord demo_payload = Some (JObj [(''args'', JObj []), (''tool'', JStr ''go'')])"
  "ce_open demo_coord a b c = Some c"
  by (simp_all add: demo_coord_def demo_parse_def demo_payload_def)

lemma demo_no_recovery: "dj_lease j = None \<Longrightarrow> recover_job now j = j"
  by (simp add: recover_job_def lease_due_def)

lemma demo_auth:
  "authenticate demo_coord ''ffw1.n.s'' w = (Inr (0, ''b''), w\<lparr>co_reads := Suc (co_reads w)\<rparr>)"
  if "st_workers (co_store w) = [x]" "dw_id x = ''wrk_aaaaaaaaaaaa''" "dw_state x = WActive" "dw_activeTokenId x = Some ''b''" "co_reads w < 900003"
  using that by (simp add: authenticate_def demo_claims_ok jget_simps workerC_def worker_at_def bindA_def liftR_def nowC_def num_of_def retA_def demo_fields)

lemma demo_run3: "co_do demo_coord (OpLease ''ffw1.n.s'' None) (demo_state demo_store2 7 4 2) = demo_state demo_store3 11 5 3"
  using demo_ids(4)
  by (simp add: leaseJob_def lease_in_store_def new_lease_def demo_args demo_fields demo_auth run_defs demo_state_def demo_store2_def demo_store1_def demo_store3_def
      demo_worker_def demo_job_def demo_leased_def demo_lease_def demo_no_recovery seen_def held_by_def pick_job_def leaseView_def decryptPayload_def
      demo_parsed Let_def)

lemma demo_run4: "co_do demo_coord demo_ack (demo_state demo_store3 11 5 3) = demo_state demo_store4 16 5 4"
  using demo_formats(1)
  by (simp add: demo_ack_def acknowledgeJob_def leased_by_def matchLease_def assertJobId_def jobC_def demo_fields demo_auth run_defs demo_state_def
      demo_store3_def demo_store4_def demo_worker_def demo_job_def demo_leased_def demo_running_def demo_lease_def recover_job_def lease_due_def
      in_progress_def seen_def map_lease_def Let_def)

lemma demo_reached:
  "fold (co_do demo_coord) [demo_register, demo_submit] demo_start = demo_state demo_store2 7 4 2"
  "fold (co_do demo_coord) [demo_register, demo_submit, OpLease ''ffw1.n.s'' None] demo_start = demo_state demo_store3 11 5 3"
  "fold (co_do demo_coord) [demo_register, demo_submit, OpLease ''ffw1.n.s'' None, demo_ack] demo_start = demo_state demo_store4 16 5 4"
  by (simp_all only: fold.simps comp_apply id_apply demo_run1 demo_run2 demo_run3 demo_run4)


definition demo_evidence :: jobject where
  "demo_evidence = [(''schemaVersion'', JNum 1), (''jobId'', JStr ''job_aaaaaaaaaaaaaaaa''), (''leaseId'', JStr ''lease_aaaaaaaaaaaaaaaa''),
     (''fencingToken'', JNum 1), (''workerId'', JStr ''wrk_aaaaaaaaaaaa''), (''tool'', JStr ''go''),
     (''argsDigest'', JStr (replicate 64 (CHR ''a''))), (''resultDigest'', JStr (replicate 64 (CHR ''a''))), (''resultOk'', JBool True),
     (''inputArtifacts'', JArr []), (''outputArtifacts'', JArr []), (''completedAt'', JNum 20),
     (''sandboxEvidence'', JObj [(''mode'', JStr ''process''), (''policyDigest'', JStr (replicate 64 (CHR ''a'')))])]"

definition demo_complete :: co_op where
  "demo_complete = OpComplete ''ffw1.n.s'' (JObj demo_evidence) ''s''"

lemma demo_hash: "re_test HASH (replicate 64 (CHR ''a''))"
proof -
  have "matches_at (replicate 64 (CHR ''a'')) (RTimes 64 (RIn hex_chars)) 0 (0 + 64)"
    by (rule matches_RTimes_RIn) (simp_all add: hex_chars_def)
  then show ?thesis by (simp add: HASH_def re_test_whole)
qed

lemma demo_valid: "validateEvidence demo_coord (JObj demo_evidence) = Inr demo_evidence"
proof -
  have "boundedString (JStr ''lease_aaaaaaaaaaaaaaaa'') ''leaseId'' 128 = Inr ''lease_aaaaaaaaaaaaaaaa''"
    "boundedString (JStr ''go'') ''evidence.tool'' 128 = Inr ''go''" by code_simp+
  then show ?thesis
    using demo_formats demo_hash
    by (simp add: validateEvidence_def demo_evidence_def jget_simps check_that_def assertJobId_def assertWorkerId_def is_safe_num_def
        is_safe_integer_def MAX_SAFE_INTEGER_def num_of_def validateArtifactIds_def check_image_def MAX_ARTIFACTS_def)
qed

definition demo_done :: JobRecord where
  "demo_done = completed_job demo_coord demo_evidence ''s'' (replicate 64 (CHR ''a'')) 20 demo_running"

definition demo_store5 :: CoordinatorStore where
  "demo_store5 = \<lparr>st_nextFencingToken = 1, st_workers = [seen 15 demo_worker], st_jobs = [demo_done]\<rparr>"

lemma demo_matches: "evidence_matches demo_coord (seen 15 demo_worker) demo_running demo_evidence ''s'' = Inr ()"
  by (simp add: evidence_matches_def demo_running_def demo_leased_def demo_job_def demo_evidence_def jget_simps seen_def demo_worker_def
      strings_json_def validateArtifactIds_def MAX_ARTIFACTS_def verifyDistributedEvidence_def demo_coord_def)

lemma demo_run5: "co_do demo_coord demo_complete (demo_state demo_store4 16 5 4) = demo_state demo_store5 21 5 5"
proof -
  have lease: "dj_lease demo_running = Some (demo_lease\<lparr>ls_acknowledgedAt := Some 15, ls_lastHeartbeatAt := Some 15\<rparr>)"
      "dj_id demo_running = ''job_aaaaaaaaaaaaaaaa''"
    by (simp_all add: demo_running_def demo_leased_def demo_job_def)
  have "coordinatorPublicKey demo_coord = Inr (''P'', replicate 64 (CHR ''a''))"
    by (simp add: coordinatorPublicKey_def publicKeyDetails_def demo_coord_def)
  moreover have "jget demo_evidence ''jobId'' = JStr ''job_aaaaaaaaaaaaaaaa''" "jget demo_evidence ''leaseId'' = JStr ''lease_aaaaaaaaaaaaaaaa''"
      "jget demo_evidence ''fencingToken'' = JNum 1" "jget demo_evidence ''completedAt'' = JNum 20"
    by (simp_all add: demo_evidence_def jget_simps)
  moreover have "dw_id (seen 15 demo_worker) = ''wrk_aaaaaaaaaaaa''" "dw_state (seen 15 demo_worker) = WActive"
      "dw_activeTokenId (seen 15 demo_worker) = Some ''b''" by (simp_all add: seen_def demo_worker_def)
  ultimately show ?thesis
    using demo_formats(1)
    by (simp add: demo_complete_def completeJob_def accept_completion_def matchLease_def assertJobId_def jobC_def demo_fields demo_auth run_defs
        demo_state_def demo_store4_def demo_store5_def demo_done_def demo_valid demo_matches lease recover_job_def lease_due_def demo_lease_def
        num_of_def CLOCK_SKEW_MS_def)
qed

lemma demo_run_complete:
  "fold (co_do demo_coord) [demo_register, demo_submit, OpLease ''ffw1.n.s'' None, demo_ack, demo_complete] demo_start = demo_state demo_store5 21 5 5"
  by (simp only: fold.simps comp_apply id_apply demo_run1 demo_run2 demo_run3 demo_run4 demo_run5)


lemma mutate_Inl: "fst (mutate env fn s) = Inl e \<Longrightarrow> co_file (snd (mutate env fn s)) = co_file s"
  by (rule mutate_cases [of s fn env]) auto

lemma demo_no_store: "no_store demo_start"
  by (simp add: no_store_def demo_start_def)

lemma demo_file [simp]: "file_store (demo_state st r d w) = st"
  by (simp add: file_store_def demo_state_def)

theorem coordinator_refines_job_machine_witness:
  "(job_step NoReplay)\<^sup>*\<^sup>* PQueued (PRunning ''wrk_aaaaaaaaaaaa'' 1)"
  using coordinator_refines_job_machine [OF demo_no_store demo_reached(1) [symmetric], of _ "[OpLease ''ffw1.n.s'' None, demo_ack]" 0]
  by (simp only: fold.simps comp_apply id_apply demo_run3 demo_run4 demo_file)
    (simp add: demo_store2_def demo_store4_def demo_job_def demo_running_def demo_leased_def demo_lease_def phase_def)

theorem no_replay_job_starts_once_witness:
  "dj_replayPolicy demo_running = NoReplay \<and> dj_state demo_running = Running \<and> dj_state demo_done \<noteq> Queued"
proof -
  have r: "dj_replayPolicy demo_running = NoReplay" "dj_state demo_running = Running"
    by (simp_all add: demo_running_def demo_leased_def demo_job_def)
  have "(dj_state demo_done = Running \<and> holder demo_store5 0 = holder demo_store4 0) \<or> dj_state demo_done = Blocked \<or> terminal (dj_state demo_done)"
    using no_replay_job_starts_once [OF demo_no_store demo_reached(3) [symmetric], of _ "[demo_complete]" 0] r
    by (simp only: fold.simps comp_apply id_apply demo_run5 demo_file) (simp add: demo_store4_def demo_store5_def)
  with r show ?thesis by (auto simp: terminal_def)
qed

theorem stale_fencing_token_is_refused_witness:
  "\<exists>e. fst (heartbeat demo_coord ''ffw1.n.s'' (JStr ''job_aaaaaaaaaaaaaaaa'') (JStr ''lease_aaaaaaaaaaaaaaaa'') (JNum 1) None
     (demo_state demo_store5 21 5 5)) = Inl e"
proof -
  have "holder demo_store5 i \<noteq> Some (a, w, 1)" for i a w
    by (simp add: holder_def demo_store5_def demo_done_def completed_job_def clearLease_def Let_def)
  then show ?thesis
    using stale_fencing_token_is_refused [OF demo_no_store demo_run_complete [symmetric], of _ "[]" 1]
    by (simp add: demo_store5_def)
qed

lemma demo_revoke: "\<exists>v. fst (revokeWorker demo_coord ''wrk_aaaaaaaaaaaa'' JUndef (demo_state demo_store4 16 5 4)) = Inr v"
proof -
  have "boundedString (JStr ''Revoked by operator.'') ''revoke reason'' 512 = Inr ''Revoked by operator.''" by code_simp
  then show ?thesis using demo_formats(2)
    by (simp add: revokeWorker_def assertWorkerId_def default_arg_def workerC_def demo_fields run_defs demo_state_def demo_store4_def
        seen_def demo_worker_def)
qed

theorem revoked_worker_is_locked_out_witness:
  "\<exists>e. fst (leaseJob demo_coord ''ffw1.n.s'' None (co_do demo_coord (OpRevoke ''wrk_aaaaaaaaaaaa'' JUndef) (demo_state demo_store4 16 5 4))) = Inl e"
proof -
  obtain v where v: "fst (revokeWorker demo_coord ''wrk_aaaaaaaaaaaa'' JUndef (demo_state demo_store4 16 5 4)) = Inr v"
    using demo_revoke by blast
  show ?thesis
    using revoked_worker_is_locked_out [OF demo_no_store demo_reached(3) [symmetric] v _ demo_claims_ok, of _ "[]"]
    by (simp add: jget_simps)
qed

theorem leases_are_exclusive_witness:
  "distinct (map dj_idempotencyKey (st_jobs demo_store4)) \<and> active_worker demo_store4 (ls_workerId demo_lease)"
  using leases_are_exclusive [OF demo_no_store arg_cong [OF demo_reached(3) [symmetric], of file_store]]
  by (simp add: demo_store4_def demo_running_def demo_lease_def)

lemma demo_completion: "\<exists>v. fst (completeJob demo_coord ''ffw1.n.s'' (JObj demo_evidence) ''s'' (demo_state demo_store4 16 5 4)) = Inr v"
proof (rule ccontr)
  let ?c = "completeJob demo_coord ''ffw1.n.s'' (JObj demo_evidence) ''s''"
  assume "\<not> ?thesis"
  then obtain e where "fst (?c (demo_state demo_store4 16 5 4)) = Inl e" by (metis not_Inr)
  then have "co_file (snd (?c (demo_state demo_store4 16 5 4))) = co_file (demo_state demo_store4 16 5 4)"
    unfolding completeJob_def by (rule mutate_Inl)
  moreover have "snd (?c (demo_state demo_store4 16 5 4)) = demo_state demo_store5 21 5 5" using demo_run5 by (simp add: demo_complete_def)
  ultimately have "demo_store5 = demo_store4" by (simp add: demo_state_def)
  then have "demo_done = demo_running" by (simp add: demo_store4_def demo_store5_def)
  moreover have "dj_lease demo_done = None" by (simp add: demo_done_def completed_job_def clearLease_def Let_def)
  moreover have "dj_lease demo_running \<noteq> None" by (simp add: demo_running_def)
  ultimately show False by simp
qed

theorem completion_comes_from_the_lease_holder_witness:
  "\<exists>w (l :: job_lease). w \<in> set (st_workers demo_store4) \<and> dw_id w = ls_workerId l \<and> jget demo_evidence ''leaseId'' = JStr (ls_id l) \<and>
     ce_verify demo_coord (dw_publicKeyPem w) (canonicalJson (ce_lc demo_coord) (JObj demo_evidence)) ''s''"
proof -
  obtain v where v: "fst (completeJob demo_coord ''ffw1.n.s'' (JObj demo_evidence) ''s'' (demo_state demo_store4 16 5 4)) = Inr v"
    using demo_completion by blast
  from completion_comes_from_the_lease_holder [OF v] show ?thesis
    unfolding Let_def demo_valid demo_file sum.inject
  proof (elim exE conjE, goal_cases)
    case (1 now i ev w l out)
    from 1(5,7,9,14) show ?case unfolding 1(1) by blast
  qed
qed

theorem completed_job_verifies_witness:
  "\<exists>r. fst (verifyCompletion demo_coord ''job_aaaaaaaaaaaaaaaa'' (demo_state demo_store5 21 5 5)) = Inr r \<and> cc_valid r"
proof -
  have "ce_verify demo_coord (ce_publicPem demo_coord) t (ce_sign demo_coord t)" for t by (simp add: demo_coord_def)
  moreover have "dj_id demo_done = ''job_aaaaaaaaaaaaaaaa''" "dj_state demo_done = Completed"
    by (simp_all add: demo_done_def completed_job_def clearLease_def Let_def demo_running_def demo_leased_def demo_job_def demo_evidence_def jget_simps)
  ultimately show ?thesis
    using completed_job_verifies [OF demo_no_store demo_run_complete [symmetric] _ demo_formats(1), of 0]
    by (auto simp: demo_store5_def)
qed

lemma demo_parse_canonical:
  assumes "ce_parse demo_coord (canonicalJson (ce_lc demo_coord) x) = Some q"
  shows "canonicalJson (ce_lc demo_coord) q = canonicalJson (ce_lc demo_coord) x"
proof -
  have "canonicalJson lc x \<noteq> ''n''" for lc
  proof (cases x)
    case (JNum i)
    with show_int_hd(1) [of "CHR ''n''" i "[]" "[]"] show ?thesis by simp
  qed (simp_all add: json_quote_def)
  with assms have "canonicalJson code_unit_le x = demo_payload" "q = JObj [(''args'', JObj []), (''tool'', JStr ''go'')]"
    by (simp_all add: demo_coord_def demo_parse_def split: if_splits)
  moreover have "canonicalJson code_unit_le (JObj [(''args'', JObj []), (''tool'', JStr ''go'')]) = demo_payload" by code_simp
  moreover have "ce_lc demo_coord = code_unit_le" by (simp add: demo_coord_def)
  ultimately show ?thesis by simp
qed

lemma demo_lease_result: "\<exists>y. fst (leaseJob demo_coord ''ffw1.n.s'' None (demo_state demo_store2 7 4 2)) = Inr (Some y)"
  using demo_ids(4)
  by (simp add: leaseJob_def lease_in_store_def new_lease_def demo_args demo_fields demo_auth run_defs demo_state_def demo_store2_def demo_store1_def
      demo_worker_def demo_job_def demo_no_recovery seen_def held_by_def pick_job_def leaseView_def decryptPayload_def demo_parsed Let_def)

theorem lease_hands_out_the_oldest_eligible_job_witness:
  "\<exists>v p. fst (leaseJob demo_coord ''ffw1.n.s'' None (demo_state demo_store2 7 4 2)) = Inr (Some (v, p)) \<and>
     ce_sha256 demo_coord (canonicalJson (ce_lc demo_coord) p) = replicate 64 (CHR ''a'') \<and>
     (\<exists>now i w. w \<in> set (st_workers demo_store2) \<and> i < length (st_jobs (recovered now demo_store2)))"
proof -
  obtain v p where vp: "fst (leaseJob demo_coord ''ffw1.n.s'' None (demo_state demo_store2 7 4 2)) = Inr (Some (v, p))"
    using demo_lease_result by (metis prod.exhaust)
  have seal: "\<forall>n t iv tag ct. ce_seal demo_coord n t = (iv, tag, ct) \<longrightarrow> ce_open demo_coord iv tag ct = Some t"
    by (simp add: demo_coord_def)
  have parse: "\<forall>x q. ce_parse demo_coord (canonicalJson (ce_lc demo_coord) x) = Some q \<longrightarrow>
      canonicalJson (ce_lc demo_coord) q = canonicalJson (ce_lc demo_coord) x"
    using demo_parse_canonical by blast
  from lease_hands_out_the_oldest_eligible_job [OF demo_no_store demo_reached(1) [symmetric] vp seal parse]
  have "\<exists>now i w. w \<in> set (st_workers demo_store2) \<and> i < length (st_jobs (recovered now demo_store2))"
    unfolding Let_def demo_file by blast
  with vp show ?thesis by (auto simp: demo_coord_def)
qed

end
