(* ===== verification/FF_JsonParse.thy ===== *)
theory FF_JsonParse
  imports FF_Json "HOL-Library.AList"
begin

text \<open>
  \<^verbatim>\<open>JSON.parse\<close>, as far as the values of the model reach: the numbers are integers (a text with a fraction or an
  exponent is read as malformed) and the code units of strings are below 256.  The parser takes fuel; \<open>JSON_parse\<close>
  starts with more than twice the length of the text, which is enough (\<open>p_value_fuel\<close>), and reads back what
  \<^verbatim>\<open>JSON.stringify\<close> wrote (\<open>parse_stringified\<close>).
\<close>

definition is_ws :: "char \<Rightarrow> bool" where
  "is_ws c \<longleftrightarrow> char_code c \<in> {9, 10, 13, 32}"

definition skip_ws :: "string \<Rightarrow> string" where
  "skip_ws = dropWhile is_ws"

definition hex_value :: "char \<Rightarrow> nat option" where
  "hex_value c =
     (let n = char_code c in
      if 48 \<le> n \<and> n \<le> 57 then Some (n - 48)
      else if 97 \<le> n \<and> n \<le> 102 then Some (n - 87)
      else if 65 \<le> n \<and> n \<le> 70 then Some (n - 55) else None)"

definition unescape :: "char \<Rightarrow> char option" where
  "unescape d =
     (if d = CHR 34 \<or> d = CHR 92 \<or> d = CHR ''/'' then Some d
      else if d = CHR ''b'' then Some (CHR 8) else if d = CHR ''t'' then Some (CHR 9)
      else if d = CHR ''n'' then Some (CHR 10) else if d = CHR ''f'' then Some (CHR 12)
      else if d = CHR ''r'' then Some (CHR 13) else None)"

definition hex4 :: "char \<Rightarrow> char \<Rightarrow> char \<Rightarrow> char \<Rightarrow> char option" where
  "hex4 a b c d =
     (case (hex_value a, hex_value b, hex_value c, hex_value d) of
        (Some w, Some x, Some y, Some z) \<Rightarrow>
          let n = 4096 * w + 256 * x + 16 * y + z in if n < 256 then Some (char_of n) else None
      | _ \<Rightarrow> None)"

definition prepend :: "'a \<Rightarrow> ('a list \<times> string) option \<Rightarrow> ('a list \<times> string) option" where
  "prepend c x = map_option (\<lambda>(s, r). (c # s, r)) x"

text \<open>The characters of a string up to its closing quote.\<close>

fun p_chars :: "string \<Rightarrow> (string \<times> string) option" where
  "p_chars [] = None"
| "p_chars (c # cs) =
     (if c = CHR 34 then Some ([], cs)
      else if c = CHR 92 then
        (case cs of
           [] \<Rightarrow> None
         | d # ds \<Rightarrow>
             if d = CHR ''u'' then
               (case ds of
                  e # f # g # h # rest \<Rightarrow> (case hex4 e f g h of None \<Rightarrow> None | Some x \<Rightarrow> prepend x (p_chars rest))
                | _ \<Rightarrow> None)
             else (case unescape d of None \<Rightarrow> None | Some x \<Rightarrow> prepend x (p_chars ds)))
      else if char_code c < 32 then None
      else prepend c (p_chars cs))"

definition digits_value :: "string \<Rightarrow> nat" where
  "digits_value ds = foldl (\<lambda>n c. 10 * n + (char_code c - 48)) 0 ds"

definition p_number :: "string \<Rightarrow> (jval \<times> string) option" where
  "p_number s =
     (let neg = (s \<noteq> [] \<and> hd s = CHR ''-''); t = (if neg then tl s else s);
          ds = takeWhile is_digit t; r = dropWhile is_digit t; n = int (digits_value ds)
      in if ds = [] \<or> (hd ds = CHR ''0'' \<and> 1 < length ds) \<or> (r \<noteq> [] \<and> hd r \<in> {CHR ''.'', CHR ''e'', CHR ''E''}) then None
         else Some (JNum (if neg then - n else n), r))"

text \<open>A key that occurs again overwrites the value at its first position.\<close>

definition object_entries :: "jobject \<Rightarrow> jobject" where
  "object_entries kvs = foldl (\<lambda>m (k, v). AList.update k v m) [] kvs"

fun p_value :: "nat \<Rightarrow> string \<Rightarrow> (jval \<times> string) option"
and p_elems :: "nat \<Rightarrow> string \<Rightarrow> (jval list \<times> string) option"
and p_members :: "nat \<Rightarrow> string \<Rightarrow> (jobject \<times> string) option" where
  "p_value 0 s = None"
| "p_value (Suc n) s =
     (case skip_ws s of
        [] \<Rightarrow> None
      | c # cs \<Rightarrow>
          if c = CHR 34 then map_option (\<lambda>(t, r). (JStr t, r)) (p_chars cs)
          else if c = CHR ''['' then
            (if starts_with '']'' (skip_ws cs) then Some (JArr [], tl (skip_ws cs))
             else map_option (\<lambda>(vs, r). (JArr vs, r)) (p_elems n cs))
          else if c = CHR ''{'' then
            (if starts_with ''}'' (skip_ws cs) then Some (JObj [], tl (skip_ws cs))
             else map_option (\<lambda>(kvs, r). (JObj (object_entries kvs), r)) (p_members n cs))
          else if starts_with ''null'' (c # cs) then Some (JNull, drop 4 (c # cs))
          else if starts_with ''true'' (c # cs) then Some (JBool True, drop 4 (c # cs))
          else if starts_with ''false'' (c # cs) then Some (JBool False, drop 5 (c # cs))
          else p_number (c # cs))"
| "p_elems 0 s = None"
| "p_elems (Suc n) s =
     (case p_value n s of
        None \<Rightarrow> None
      | Some (v, r) \<Rightarrow>
          (case skip_ws r of
             [] \<Rightarrow> None
           | c # r' \<Rightarrow> if c = CHR '']'' then Some ([v], r') else if c = CHR '','' then prepend v (p_elems n r') else None))"
| "p_members 0 s = None"
| "p_members (Suc n) s =
     (if \<not> starts_with [CHR 34] (skip_ws s) then None
      else case p_chars (tl (skip_ws s)) of
        None \<Rightarrow> None
      | Some (k, r) \<Rightarrow>
          if \<not> starts_with '':'' (skip_ws r) then None
          else case p_value n (tl (skip_ws r)) of
            None \<Rightarrow> None
          | Some (v, r2) \<Rightarrow>
              (case skip_ws r2 of
                 [] \<Rightarrow> None
               | c # r3 \<Rightarrow> if c = CHR ''}'' then Some ([(k, v)], r3)
                   else if c = CHR '','' then prepend (k, v) (p_members n r3) else None))"

definition JSON_parse :: "string \<Rightarrow> jval option" where
  "JSON_parse s = (case p_value (2 * length s + 1) s of Some (v, r) \<Rightarrow> if skip_ws r = [] then Some v else None | None \<Rightarrow> None)"

section \<open>The fuel is enough\<close>

lemma length_skip_ws: "length (skip_ws s) \<le> length s"
  by (simp add: skip_ws_def length_dropWhile_le)

lemma prepend_Some: "prepend c x = Some (t, r) \<longleftrightarrow> (\<exists>s. x = Some (s, r) \<and> t = c # s)"
  by (cases x) (auto simp: prepend_def)

lemma p_chars_shorter: "p_chars s = Some (t, r) \<Longrightarrow> length r < length s"
proof (induction "length s" arbitrary: s t r rule: less_induct)
  case less
  have IH: "p_chars u = Some (t', r) \<Longrightarrow> length u < length s \<Longrightarrow> length r < length s" for u t'
    using less(1) [of u t' r] by simp
  show ?case
  proof (cases s)
    case (Cons c cs)
    from less(2) show ?thesis unfolding Cons p_chars.simps
      by (auto simp: prepend_Some split: if_splits list.splits option.splits dest!: IH simp: Cons)
  qed (use less(2) in simp)
qed

lemma p_number_shorter: "p_number s = Some (v, r) \<Longrightarrow> length r < length s"
proof -
  assume p: "p_number s = Some (v, r)"
  define t where "t = (if s \<noteq> [] \<and> hd s = CHR ''-'' then tl s else s)"
  from p have r: "r = dropWhile is_digit t" and ne: "takeWhile is_digit t \<noteq> []"
    by (auto simp: p_number_def t_def Let_def split: if_splits)
  have "length t = length (takeWhile is_digit t) + length r" by (simp add: r flip: length_append)
  moreover have "length t \<le> length s" by (simp add: t_def)
  ultimately show ?thesis using ne by (cases "takeWhile is_digit t") simp_all
qed

lemma tl_shorter: "starts_with [c] s \<Longrightarrow> length (tl s) < length s"
  by (cases s) simp_all

lemma parser_shorter:
  "p_value n s = Some (v, r) \<Longrightarrow> length r < length s"
  "p_elems n s = Some (vs, r) \<Longrightarrow> length r < length s"
  "p_members n s = Some (kvs, r) \<Longrightarrow> length r < length s"
proof (induction n s and n s and n s arbitrary: v r and vs r and kvs r rule: p_value_p_elems_p_members.induct)
  case (2 n s)
  show ?case
  proof (cases "skip_ws s")
    case (Cons c cs)
    have le: "length (c # cs) \<le> length s" using length_skip_ws [of s] Cons by simp
    have "length r < length (c # cs)"
      using 2 Cons length_skip_ws [of cs]
      by (fastforce split: if_splits dest: p_chars_shorter p_number_shorter tl_shorter simp del: length_Cons starts_with.simps)
    with le show ?thesis by simp
  qed (use 2 in simp)
next
  case (4 n s)
  from 4(3) obtain v1 r1 where v: "p_value n s = Some (v1, r1)" by (auto split: option.splits)
  from 4(1) [OF v] have "length r1 < length s" .
  then have le: "length (skip_ws r1) < length s" using length_skip_ws [of r1] by simp
  show ?case
  proof (cases "skip_ws r1")
    case (Cons c r2)
    then show ?thesis using 4(2) [OF v refl Cons] 4(3) v le by (auto simp: prepend_Some split: if_splits)
  qed (use 4(3) v in simp)
next
  case (6 n s)
  from 6(3) obtain k r1 v1 r2 where s: "starts_with [CHR 34] (skip_ws s)" and k: "p_chars (tl (skip_ws s)) = Some (k, r1)"
    and c: "starts_with '':'' (skip_ws r1)" and v: "p_value n (tl (skip_ws r1)) = Some (v1, r2)"
    by (auto split: option.splits if_splits)
  have "length (tl (skip_ws s)) < length s" using tl_shorter [OF s] length_skip_ws [of s] by simp
  moreover have "length r1 < length (tl (skip_ws s))" using p_chars_shorter [OF k] .
  moreover have "length (tl (skip_ws r1)) < length r1" using tl_shorter [OF c] length_skip_ws [of r1] by simp
  moreover have "length r2 < length (tl (skip_ws r1))" using 6(1) s k c v by simp
  ultimately have le: "length (skip_ws r2) < length s" using length_skip_ws [of r2] by linarith
  show ?case
  proof (cases "skip_ws r2")
    case (Cons d r3)
    have rec: "length r < length r3" if "p_members n r3 = Some (t, r)" "d = CHR '',''" for t
      using 6(2) s k c v Cons that by simp
    show ?thesis using 6(3) s k c v le Cons by (auto simp: prepend_Some split: if_splits dest: rec)
  qed (use 6(3) s k c v in simp)
qed simp_all


lemma more_fuel:
  "(\<forall>s. 2 * length s < n \<longrightarrow> p_value (Suc n) s = p_value n s) \<and>
   (\<forall>s. 2 * length s + 1 < n \<longrightarrow> p_elems (Suc n) s = p_elems n s) \<and>
   (\<forall>s. 2 * length s + 1 < n \<longrightarrow> p_members (Suc n) s = p_members n s)"
proof (induction n)
  case (Suc n)
  have v: "2 * length s < n \<Longrightarrow> p_value (Suc n) s = p_value n s"
    and e: "2 * length s + 1 < n \<Longrightarrow> p_elems (Suc n) s = p_elems n s"
    and m: "2 * length s + 1 < n \<Longrightarrow> p_members (Suc n) s = p_members n s" for s
    using Suc by blast+
  show ?case
  proof (intro conjI allI impI)
    fix s :: string assume l: "2 * length s < Suc n"
    show "p_value (Suc (Suc n)) s = p_value (Suc n) s"
    proof (cases "skip_ws s")
      case (Cons c cs)
      then have "2 * length cs + 1 < n" using length_skip_ws [of s] l by simp
      from e [OF this] m [OF this] Cons show ?thesis by (simp del: p_elems.simps p_members.simps)
    qed simp
  next
    fix s :: string assume l: "2 * length s + 1 < Suc n"
    have pv: "p_value (Suc n) s = p_value n s" using v l by simp
    have pe: "p_elems (Suc n) r' = p_elems n r'" if "p_value n s = Some (w, r)" "skip_ws r = c # r'" for w r c r'
      using e [of r'] l parser_shorter(1) [OF that(1)] length_skip_ws [of r] that(2) by simp
    show "p_elems (Suc (Suc n)) s = p_elems (Suc n) s"
      unfolding p_elems.simps(2) [of "Suc n" s] p_elems.simps(2) [of n s] pv
      by (auto simp del: p_elems.simps p_value.simps simp: pe split: option.split list.split)
  next
    fix s :: string assume l: "2 * length s + 1 < Suc n"
    have pv: "p_value (Suc n) (tl (skip_ws r)) = p_value n (tl (skip_ws r))"
      if "starts_with [CHR 34] (skip_ws s)" "p_chars (tl (skip_ws s)) = Some (k, r)" for k r
      using v [of "tl (skip_ws r)"] l p_chars_shorter [OF that(2)] tl_shorter [OF that(1)] length_skip_ws [of r] length_skip_ws [of s] by simp
    have pm: "p_members (Suc n) r3 = p_members n r3"
      if "starts_with [CHR 34] (skip_ws s)" "p_chars (tl (skip_ws s)) = Some (k, r)"
        "p_value n (tl (skip_ws r)) = Some (w, r2)" "skip_ws r2 = c # r3" for k r w r2 c r3
      using m [of r3] l p_chars_shorter [OF that(2)] tl_shorter [OF that(1)] length_skip_ws [of r] length_skip_ws [of s]
        parser_shorter(1) [OF that(3)] length_skip_ws [of r2] that(4) by simp
    show "p_members (Suc (Suc n)) s = p_members (Suc n) s"
      unfolding p_members.simps(2) [of "Suc n" s] p_members.simps(2) [of n s]
      by (auto simp del: p_members.simps p_value.simps starts_with.simps simp: pv pm split: option.split list.split)
  qed
qed simp

text \<open>With more fuel than twice the length the result no longer depends on it.\<close>

lemma p_value_fuel: "2 * length s < n \<Longrightarrow> p_value n s = p_value (2 * length s + 1) s"
proof (induction n)
  case (Suc n)
  show ?case
  proof (cases "2 * length s < n")
    case True
    with more_fuel [of n] have "p_value (Suc n) s = p_value n s" by blast
    with Suc True show ?thesis by simp
  next
    case False
    with Suc have "n = 2 * length s" by simp
    then show ?thesis by simp
  qed
qed simp

section \<open>Reading back what was written\<close>

fun wf_json :: "jval \<Rightarrow> bool" where
  "wf_json (JArr vs) = list_all wf_json vs"
| "wf_json (JObj kvs) = (distinct (map fst kvs) \<and> list_all (\<lambda>(k, v). wf_json v) kvs)"
| "wf_json v = True"

lemma hex_value_digit: "n < 16 \<Longrightarrow> hex_value (hex_digit n) = Some n"
proof -
  have "\<forall>n \<in> set [0..<16]. hex_value (hex_digit n) = Some n" by code_simp
  then show "n < 16 \<Longrightarrow> hex_value (hex_digit n) = Some n" by auto
qed

lemma hex_digit_mod: "hex_digit (n mod 16) = hex_digit n"
  by (simp add: hex_digit_def)

lemma p_chars_escape: "p_chars (json_escape c @ x) = prepend c (p_chars x)"
proof -
  have hex: "hex4 (CHR ''0'') (CHR ''0'') (hex_digit (char_code c div 16)) (hex_digit (char_code c)) = Some c" if "char_code c < 32"
  proof -
    have "hex_value (CHR ''0'') = Some 0" by code_simp
    moreover have "hex_value (hex_digit (char_code c div 16)) = Some (char_code c div 16)" using that by (intro hex_value_digit) simp
    moreover have "hex_value (hex_digit (char_code c)) = Some (char_code c mod 16)"
      using hex_value_digit [of "char_code c mod 16"] by (simp add: hex_digit_mod)
    moreover have "16 * (char_code c div 16) + char_code c mod 16 = char_code c" by simp
    ultimately show ?thesis using that by (simp add: hex4_def Let_def) (simp add: char_code_def)
  qed
  show ?thesis
    using hex by (auto simp: json_escape_def unescape_def)
qed

lemma p_chars_quote: "p_chars (concat (map json_escape s) @ CHR 34 # x) = Some (s, x)"
  by (induction s) (simp_all add: p_chars_escape prepend_def)

lemma char_code_of: "n < 256 \<Longrightarrow> char_code (char_of n) = n"
  by (simp add: char_code_def)

lemma digits_value_snoc: "digits_value (ds @ [c]) = 10 * digits_value ds + (char_code c - 48)"
  by (simp add: digits_value_def)

lemma digits_value_show: "digits_value (show_nat n) = n"
proof (induction n rule: show_nat.induct)
  case (1 n)
  show ?case
  proof (cases "n < 10")
    case True
    then show ?thesis by (subst show_nat.simps) (simp add: digits_value_def char_code_of)
  next
    case False
    then have "digits_value (show_nat n) = 10 * (n div 10) + n mod 10"
      using 1 by (subst show_nat.simps) (simp add: digits_value_snoc char_code_of)
    then show ?thesis by simp
  qed
qed

lemma show_nat_no_zero: "hd (show_nat n) = CHR ''0'' \<Longrightarrow> length (show_nat n) = 1"
proof (induction n rule: show_nat.induct)
  case (1 n)
  show ?case
  proof (cases "n < 10")
    case False
    then have s: "show_nat n = show_nat (n div 10) @ [char_of (48 + n mod 10)]" by (subst show_nat.simps) simp
    with 1(2) have z: "hd (show_nat (n div 10)) = CHR ''0''" by simp
    with 1(1) [OF False] have "length (show_nat (n div 10)) = 1" by simp
    with z have "show_nat (n div 10) = ''0''" by (cases "show_nat (n div 10)") simp_all
    then have "n div 10 = digits_value ''0''" using digits_value_show [of "n div 10"] by simp
    moreover have "digits_value ''0'' = 0" by code_simp
    ultimately show ?thesis using False by simp
  qed (subst show_nat.simps, simp)
qed

lemma takeWhile_digits:
  assumes "delim x"
  shows "takeWhile is_digit (show_nat n @ x) = show_nat n" "dropWhile is_digit (show_nat n @ x) = x"
proof -
  have "\<forall>c \<in> set (show_nat n). is_digit c" by (rule show_nat_digits)
  moreover have "takeWhile is_digit x = []" using assms by (rule delim_not_digit)
  moreover from this have "dropWhile is_digit x = x" by (metis append_Nil takeWhile_dropWhile_id)
  ultimately show "takeWhile is_digit (show_nat n @ x) = show_nat n" "dropWhile is_digit (show_nat n @ x) = x"
    by (simp_all add: takeWhile_append2 dropWhile_append2)
qed

lemma p_number_show:
  assumes "delim x"
  shows "p_number (show_int i @ x) = Some (JNum i, x)"
proof -
  have stop: "\<not> (x \<noteq> [] \<and> hd x \<in> {CHR ''.'', CHR ''e'', CHR ''E''})" using assms by (auto simp: delim_def)
  have zero: "\<not> (hd (show_nat n) = CHR ''0'' \<and> 1 < length (show_nat n))" for n using show_nat_no_zero [of n] by auto
  show ?thesis
  proof (cases "i < 0")
    case True
    then show ?thesis using stop zero
      by (simp add: p_number_def show_int_def takeWhile_digits [OF assms] digits_value_show Let_def del: dropWhile_eq_Nil_conv takeWhile_eq_Nil_iff)
  next
    case False
    then show ?thesis using stop zero show_nat_hd [of "nat i"]
      by (simp add: p_number_def show_int_def takeWhile_digits [OF assms] digits_value_show Let_def hd_append del: dropWhile_eq_Nil_conv takeWhile_eq_Nil_iff)
  qed
qed

definition readable :: "jval \<Rightarrow> bool" where
  "readable v \<longleftrightarrow> (\<forall>x n. delim x \<longrightarrow> 2 * length (join_elem (json_text v) @ x) < n \<longrightarrow>
     p_value n (join_elem (json_text v) @ x) = Some (v, x))"

lemma skip_ws_Cons: "\<not> is_ws c \<Longrightarrow> skip_ws (c # s) = c # s"
  by (simp add: skip_ws_def)

lemma delim_skip: "x \<noteq> [] \<Longrightarrow> delim x \<Longrightarrow> skip_ws x = x"
  by (cases x) (auto simp: delim_def skip_ws_def is_ws_def char_code_def)

lemma not_ws: "\<not> is_ws (CHR '','')" "\<not> is_ws (CHR '']'')" "\<not> is_ws (CHR ''}'')" "\<not> is_ws (CHR '':'')" "\<not> is_ws (CHR 34)"
  "\<not> is_ws (CHR ''['')" "\<not> is_ws (CHR ''{'')"
  by code_simp+

lemma elements_readable:
  assumes "\<forall>v \<in> set vs. readable v" "vs \<noteq> []"
    and "2 * length (join_with '','' (map (\<lambda>v. join_elem (json_text v)) vs) @ CHR '']'' # x) + 1 < n"
  shows "p_elems n (join_with '','' (map (\<lambda>v. join_elem (json_text v)) vs) @ CHR '']'' # x) = Some (vs, x)"
  using assms
proof (induction vs arbitrary: n)
  case (Cons v vs)
  obtain m where n: "n = Suc m" using Cons.prems(3) by (cases n) simp_all
  let ?rest = "(if vs = [] then [] else '','' @ join_with '','' (map (\<lambda>v. join_elem (json_text v)) vs)) @ CHR '']'' # x"
  have eq: "join_with '','' (map (\<lambda>v. join_elem (json_text v)) (v # vs)) @ CHR '']'' # x = join_elem (json_text v) @ ?rest"
    by (simp add: join_Cons_eq)
  have "readable v" using Cons.prems(1) by simp
  moreover have "delim ?rest" by simp
  moreover have "2 * length (join_elem (json_text v) @ ?rest) < m" using Cons.prems(3) unfolding eq n by simp
  ultimately have v: "p_value m (join_elem (json_text v) @ ?rest) = Some (v, ?rest)" by (simp add: readable_def)
  show ?case
  proof (cases "vs = []")
    case True
    with v show ?thesis unfolding eq n by (simp add: skip_ws_Cons not_ws)
  next
    case False
    have "2 * length (join_with '','' (map (\<lambda>v. join_elem (json_text v)) vs) @ CHR '']'' # x) + 1 < m"
      using Cons.prems(3) False unfolding eq n by simp
    with Cons.IH [of m] Cons.prems(1) False v show ?thesis unfolding eq n
      by (simp add: skip_ws_Cons not_ws prepend_def)
  qed
qed simp

lemma entries_readable:
  assumes "\<forall>(k, v) \<in> set kvs. readable v \<and> json_text v \<noteq> None" "kvs \<noteq> []"
    and "2 * length (join_with '','' (map (\<lambda>(k, v). json_quote k @ '':'' @ template (json_text v)) kvs) @ CHR ''}'' # x) + 1 < n"
  shows "p_members n (join_with '','' (map (\<lambda>(k, v). json_quote k @ '':'' @ template (json_text v)) kvs) @ CHR ''}'' # x) = Some (kvs, x)"
  using assms
proof (induction kvs arbitrary: n)
  case (Cons kv kvs)
  obtain k v where kv: "kv = (k, v)" by (cases kv)
  obtain m where n: "n = Suc m" using Cons.prems(3) by (cases n) simp_all
  let ?rest = "(if kvs = [] then [] else '','' @ join_with '','' (map (\<lambda>(k, v). json_quote k @ '':'' @ template (json_text v)) kvs)) @ CHR ''}'' # x"
  have tmp: "template (json_text v) = join_elem (json_text v)" using Cons.prems(1) kv by (auto simp: template_def join_elem_def split: option.split)
  have eq: "join_with '','' (map (\<lambda>(k, v). json_quote k @ '':'' @ template (json_text v)) (kv # kvs)) @ CHR ''}'' # x =
      CHR 34 # concat (map json_escape k) @ CHR 34 # CHR '':'' # join_elem (json_text v) @ ?rest"
    by (simp add: join_Cons_eq kv json_quote_def tmp)
  have key: "p_chars (concat (map json_escape k) @ CHR 34 # CHR '':'' # join_elem (json_text v) @ ?rest) =
      Some (k, CHR '':'' # join_elem (json_text v) @ ?rest)" by (rule p_chars_quote)
  have "readable v" using Cons.prems(1) kv by simp
  moreover have "delim ?rest" by simp
  moreover have "2 * length (join_elem (json_text v) @ ?rest) < m" using Cons.prems(3) unfolding eq n by simp
  ultimately have v: "p_value m (join_elem (json_text v) @ ?rest) = Some (v, ?rest)" by (simp add: readable_def)
  show ?case
  proof (cases "kvs = []")
    case True
    with v key show ?thesis unfolding eq n by (simp add: skip_ws_Cons not_ws kv)
  next
    case False
    have "2 * length (join_with '','' (map (\<lambda>(k, v). json_quote k @ '':'' @ template (json_text v)) kvs) @ CHR ''}'' # x) + 1 < m"
      using Cons.prems(3) False unfolding eq n by simp
    with Cons.IH [of m] Cons.prems(1) False v key show ?thesis unfolding eq n
      by (simp add: skip_ws_Cons not_ws prepend_def kv)
  qed
qed simp

lemma update_new: "k \<notin> set (map fst m) \<Longrightarrow> AList.update k v m = m @ [(k, v)]"
  by (induction m) auto

lemma object_entries_distinct: "distinct (map fst kvs) \<Longrightarrow> object_entries kvs = kvs"
proof -
  have "distinct (map fst (m @ kvs)) \<Longrightarrow> foldl (\<lambda>m (k, v). AList.update k v m) m kvs = m @ kvs" for m
  proof (induction kvs arbitrary: m)
    case (Cons kv kvs)
    obtain k v where kv: "kv = (k, v)" by (cases kv)
    with Cons.prems have "k \<notin> set (map fst m)" by auto
    with Cons kv show ?case by (simp add: update_new)
  qed simp
  from this [of "[]"] show "distinct (map fst kvs) \<Longrightarrow> object_entries kvs = kvs" by (simp add: object_entries_def)
qed

lemma readableI:
  assumes "\<And>x n. delim x \<Longrightarrow> 2 * length (join_elem (json_text v) @ x) < Suc n \<Longrightarrow> p_value (Suc n) (join_elem (json_text v) @ x) = Some (v, x)"
  shows "readable v"
  unfolding readable_def
proof (intro allI impI)
  fix x n assume "delim x" "2 * length (join_elem (json_text v) @ x) < n"
  then show "p_value n (join_elem (json_text v) @ x) = Some (v, x)" using assms [of x "n - 1"] by (cases n) simp_all
qed

lemma number_head:
  assumes "show_int i @ x = c # cs"
  shows "\<not> is_ws c" "c \<notin> {CHR 34, CHR ''['', CHR ''{'', CHR ''n'', CHR ''t'', CHR ''f''}"
proof -
  obtain d ds where d: "show_int i = d # ds" "d = CHR ''-'' \<or> is_digit d" using show_int_Cons by blast
  with assms have c: "c = CHR ''-'' \<or> is_digit c" by simp
  have "\<not> is_ws (CHR ''-'')" by code_simp
  moreover have "\<not> is_ws c" if "is_digit c" using that by (auto simp: is_ws_def is_digit_def)
  ultimately show "\<not> is_ws c" using c by auto
  show "c \<notin> {CHR 34, CHR ''['', CHR ''{'', CHR ''n'', CHR ''t'', CHR ''f''}"
    using c by (auto simp: is_digit_def char_code_def)
qed

lemma text_head:
  assumes "no_undef v"
  shows "\<exists>c cs. json_text v = Some (c # cs) \<and> c \<noteq> CHR '']'' \<and> c \<noteq> CHR ''}'' \<and> \<not> is_ws c"
proof (cases v)
  case (JNum i)
  obtain c cs where c: "show_int i = c # cs" "c = CHR ''-'' \<or> is_digit c" using show_int_Cons by blast
  have "\<not> is_ws c" using number_head(1) [of i "[]" c cs] c by simp
  then show ?thesis using c JNum by (auto simp: is_digit_def char_code_def)
next
  case (JStr s)
  then show ?thesis using not_ws by (simp add: json_quote_def)
qed (use assms not_ws in \<open>auto simp: is_ws_def char_code_def\<close>)

lemma join_head: "xs \<noteq> [] \<Longrightarrow> hd xs = c # cs \<Longrightarrow> \<exists>r. join_with sep xs @ y = c # r"
  by (cases "(sep, xs)" rule: join_with.cases) auto

lemma text_readable: "no_undef v \<Longrightarrow> wf_json v \<Longrightarrow> readable v"
proof (induction v)
  case JNull
  show ?case by (rule readableI) (simp add: join_elem_def skip_ws_def is_ws_def char_code_def)
next
  case (JBool b)
  show ?case by (rule readableI) (cases b; simp add: join_elem_def skip_ws_def is_ws_def char_code_def)
next
  case (JNum i)
  show ?case
  proof (rule readableI)
    fix x :: string and n assume x: "delim x"
    obtain c cs where c: "show_int i @ x = c # cs" using show_int_Cons [of i] by auto
    note h = number_head [OF c]
    show "p_value (Suc n) (join_elem (json_text (JNum i)) @ x) = Some (JNum i, x)"
      using p_number_show [OF x, of i] h by (auto simp: join_elem_def c skip_ws_Cons)
  qed
next
  case (JStr s)
  show ?case by (rule readableI) (simp add: join_elem_def json_quote_def skip_ws_Cons not_ws p_chars_quote)
next
  case (JArr vs)
  show ?case
  proof (rule readableI)
    fix x :: string and n assume x: "delim x" and n: "2 * length (join_elem (json_text (JArr vs)) @ x) < Suc n"
    let ?ts = "map (\<lambda>v. join_elem (json_text v)) vs"
    let ?body = "join_with '','' ?ts @ CHR '']'' # x"
    have all: "\<forall>v \<in> set vs. readable v" using JArr by (simp add: list_all_iff)
    show "p_value (Suc n) (join_elem (json_text (JArr vs)) @ x) = Some (JArr vs, x)"
    proof (cases "vs = []")
      case True
      then show ?thesis by (simp add: join_elem_def skip_ws_Cons not_ws)
    next
      case False
      then obtain w ws where vs: "vs = w # ws" by (cases vs) simp_all
      with JArr.prems have "no_undef w" by simp
      then obtain c cs where c: "json_text w = Some (c # cs)" "c \<noteq> CHR '']''" "\<not> is_ws c" using text_head by blast
      have "\<exists>r. ?body = c # r" by (rule join_head [where cs = cs]) (simp_all add: vs c join_elem_def)
      then have "skip_ws ?body = ?body" "\<not> starts_with '']'' ?body" using c by (auto simp: skip_ws_Cons)
      moreover have "p_elems n ?body = Some (vs, x)"
        by (rule elements_readable [OF all False]) (use n in \<open>simp add: join_elem_def\<close>)
      ultimately show ?thesis by (simp add: join_elem_def skip_ws_Cons not_ws)
    qed
  qed
next
  case (JObj kvs)
  show ?case
  proof (rule readableI)
    fix x :: string and n assume x: "delim x" and n: "2 * length (join_elem (json_text (JObj kvs)) @ x) < Suc n"
    let ?body = "join_with '','' (map (\<lambda>(k, v). json_quote k @ '':'' @ template (json_text v)) kvs) @ CHR ''}'' # x"
    have all: "\<forall>(k, v) \<in> set kvs. readable v \<and> json_text v \<noteq> None"
    proof (clarify, intro conjI)
      fix k v assume kv: "(k, v) \<in> set kvs"
      with JObj.prems have v: "no_undef v" "wf_json v" by (auto simp: list_all_iff)
      show "readable v" by (rule JObj.IH [OF kv _ v]) simp
      show "json_text v \<noteq> None" using json_text_defined [OF v(1)] by auto
    qed
    show "p_value (Suc n) (join_elem (json_text (JObj kvs)) @ x) = Some (JObj kvs, x)"
    proof (cases "kvs = []")
      case True
      then show ?thesis by (simp add: join_elem_def skip_ws_Cons not_ws)
    next
      case False
      then obtain k v ws where kvs: "kvs = (k, v) # ws" by (cases kvs) auto
      have "\<exists>r. ?body = CHR 34 # r"
        by (rule join_head [where cs = "concat (map json_escape k) @ [CHR 34] @ '':'' @ template (json_text v)"]) (simp_all add: kvs json_quote_def)
      then have "skip_ws ?body = ?body" "\<not> starts_with ''}'' ?body" using not_ws by (auto simp: skip_ws_Cons)
      moreover have "p_members n ?body = Some (kvs, x)"
        by (rule entries_readable [OF all False]) (use n in \<open>simp add: join_elem_def\<close>)
      ultimately show ?thesis using JObj.prems(2) by (simp add: join_elem_def skip_ws_Cons not_ws object_entries_distinct)
    qed
  qed
qed simp

theorem parse_stringified: "no_undef v \<Longrightarrow> wf_json v \<Longrightarrow> JSON_parse (join_elem (stringify v)) = Some v"
proof -
  assume v: "no_undef v" "wf_json v"
  then have "p_value (2 * length (join_elem (json_text v)) + 1) (join_elem (json_text v) @ []) = Some (v, [])"
    using text_readable [OF v, unfolded readable_def, rule_format, of "[]"] by (simp del: p_value.simps)
  then show ?thesis using v by (simp add: JSON_parse_def stringify_no_undef skip_ws_def del: p_value.simps)
qed

end
