(* ===== verification/FF_AuditChain.thy ===== *)
theory FF_AuditChain
  imports FF_JsonParse
begin

text \<open>
  \<^verbatim>\<open>src/evidence/audit-chain.ts\<close>: the hash chain of audit records, its envelopes and its verification.

  A record of the chain is the object that a line of the file parses to (\<^typ>\<open>jobject\<close>).  Parameters: the hash,
  \<^verbatim>\<open>localeCompare\<close>, the signer and the check of a signature, which answers false where the key or the bytes cannot
  be read.  The message texts of the report are left out.
\<close>

section \<open>Envelopes\<close>

record audit_env =
  ae_lc :: "string \<Rightarrow> string \<Rightarrow> bool"
  ae_sha256 :: "string \<Rightarrow> string"
  ae_signer :: "(string \<times> (string \<Rightarrow> string)) option"

text \<open>The canonical text of this module writes an undefined entry as null.\<close>

fun audit_canonical :: "(string \<Rightarrow> string \<Rightarrow> bool) \<Rightarrow> jval \<Rightarrow> string" where
  "audit_canonical lc (JArr vs) = ''['' @ join_with '','' (map (audit_canonical lc) vs) @ '']''"
| "audit_canonical lc (JObj kvs) =
     ''{'' @ join_with '',''
       (map (\<lambda>(k, t). json_quote k @ '':'' @ t)
         (sort_by (entry_le lc) (map (\<lambda>(k, v). (k, audit_canonical lc v)) kvs))) @ ''}''"
| "audit_canonical lc v = (case stringify_atom v of None \<Rightarrow> ''null'' | Some s \<Rightarrow> s)"

definition hash_input :: "jval \<Rightarrow> jval \<Rightarrow> jval \<Rightarrow> jval \<Rightarrow> jobject" where
  "hash_input seqno previousHash event source =
     [(''schemaVersion'', JNum 2), (''sequence'', seqno), (''previousHash'', previousHash), (''event'', event), (''source'', source)]"

definition auditHashPayload :: "audit_env \<Rightarrow> jval \<Rightarrow> jval \<Rightarrow> jval \<Rightarrow> jval \<Rightarrow> string" where
  "auditHashPayload env seqno previousHash event source = audit_canonical (ae_lc env) (JObj (hash_input seqno previousHash event source))"

definition computeAuditRecordHash :: "audit_env \<Rightarrow> jval \<Rightarrow> jval \<Rightarrow> jval \<Rightarrow> jval \<Rightarrow> string" where
  "computeAuditRecordHash env seqno previousHash event source =
     ''sha256:'' @ ae_sha256 env (auditHashPayload env seqno previousHash event source)"

definition native_source :: jval where
  "native_source = JObj [(''kind'', JStr ''native-v2'')]"

definition createAuditEnvelope :: "audit_env \<Rightarrow> jobject \<Rightarrow> int \<Rightarrow> jval \<Rightarrow> jval \<Rightarrow> jobject result" where
  "createAuditEnvelope env event seqno previousHash source =
     (if \<not> is_safe_integer seqno \<or> seqno < 1 then Inl (PlainError ''Audit sequence must be a positive safe integer.'')
      else let recordHash = computeAuditRecordHash env (JNum seqno) previousHash (JObj event) source
           in Inr (hash_input (JNum seqno) previousHash (JObj event) source @ [(''recordHash'', JStr recordHash)] @
                (case ae_signer env of
                   None \<Rightarrow> []
                 | Some (keyId, sign) \<Rightarrow>
                     [(''signature'', JObj [(''algorithm'', JStr ''ed25519''), (''keyId'', JStr keyId), (''value'', JStr (sign recordHash))])])))"

section \<open>Verification\<close>

datatype issue_code =
    InvalidJson | InvalidSchema | InvalidSequence | InvalidPreviousHash | InvalidRecordHash | UnknownSigner | InvalidSignature

record AuditVerificationIssue =
  vi_line :: nat
  vi_code :: issue_code

record AuditVerificationReport =
  ar_ok :: bool
  ar_records :: nat
  ar_headHash :: jval
  ar_signedRecords :: nat
  ar_verifiedSignatures :: nat
  ar_unverifiedSignatures :: nat
  ar_issues :: "AuditVerificationIssue list"

text \<open>The public keys by key id, and the signature check on a key, the record hash and the signature value.\<close>

record verification_options =
  vo_publicKeys :: "(string \<times> string) list"
  vo_verify :: "string \<Rightarrow> jval \<Rightarrow> jval \<Rightarrow> bool"

definition no_keys :: verification_options where
  "no_keys = \<lparr>vo_publicKeys = [], vo_verify = (\<lambda>k h v. False)\<rparr>"

text \<open>The state of the loop over the lines.  The expected sequence is \<open>None\<close> where the program has NaN.\<close>

record chain_scan =
  sn_issues :: "AuditVerificationIssue list"
  sn_envelopes :: "jobject list"
  sn_expected :: "jval option"
  sn_previous :: jval
  sn_signed :: nat
  sn_verified :: nat
  sn_unverified :: nat

text \<open>\<^verbatim>\<open>===\<close> of two values read from different places: objects and arrays are never the same.\<close>

definition js_same :: "jval \<Rightarrow> jval \<Rightarrow> bool" where
  "js_same v w \<longleftrightarrow> v = w \<and> (case v of JArr _ \<Rightarrow> False | JObj _ \<Rightarrow> False | _ \<Rightarrow> True)"

text \<open>\<^verbatim>\<open>v + 1\<close>, \<open>None\<close> for NaN.\<close>

definition js_plus_one :: "jval \<Rightarrow> jval option" where
  "js_plus_one v =
     (case v of
        JUndef \<Rightarrow> None
      | JNull \<Rightarrow> Some (JNum 1)
      | JBool b \<Rightarrow> Some (JNum (if b then 2 else 1))
      | JNum n \<Rightarrow> Some (JNum (n + 1))
      | _ \<Rightarrow> Some (JStr (js_String v @ ''1'')))"

text \<open>\<^verbatim>\<open>raw.split(/\r?\n/)\<close>.\<close>

definition strip_cr :: "string \<Rightarrow> string" where
  "strip_cr l = (if l \<noteq> [] \<and> last l = CHR 13 then butlast l else l)"

definition audit_lines :: "string \<Rightarrow> string list" where
  "audit_lines raw = (let ls = split_on (CHR 10) raw in map strip_cr (butlast ls) @ [last ls])"

definition schema_ok :: "jobject \<Rightarrow> bool" where
  "schema_ok kvs \<longleftrightarrow> jget kvs ''schemaVersion'' = JNum 2 \<and>
     (case jget kvs ''event'' of JObj e \<Rightarrow> is_string (jget e ''ts'') \<and> is_string (jget e ''type'') | _ \<Rightarrow> False) \<and>
     (case jget kvs ''source'' of
        JObj src \<Rightarrow> jget src ''kind'' = JStr ''native-v2'' \<or> jget src ''kind'' = JStr ''legacy-v1-import''
      | _ \<Rightarrow> False)"

definition issue :: "nat \<Rightarrow> bool \<Rightarrow> issue_code \<Rightarrow> AuditVerificationIssue list" where
  "issue n bad code = (if bad then [\<lparr>vi_line = n, vi_code = code\<rparr>] else [])"

definition envelope_hash :: "audit_env \<Rightarrow> jobject \<Rightarrow> string" where
  "envelope_hash env e = computeAuditRecordHash env (jget e ''sequence'') (jget e ''previousHash'') (jget e ''event'') (jget e ''source'')"

text \<open>The signature of a record: whether there is one, the key for it, and whether it is good.\<close>

definition signer_key :: "verification_options \<Rightarrow> jval \<Rightarrow> string option" where
  "signer_key opts sg = (case sg of JObj s \<Rightarrow> (case jget s ''keyId'' of JStr k \<Rightarrow> map_of (vo_publicKeys opts) k | _ \<Rightarrow> None) | _ \<Rightarrow> None)"

definition signature_good :: "verification_options \<Rightarrow> jobject \<Rightarrow> string \<Rightarrow> bool" where
  "signature_good opts e key =
     vo_verify opts key (jget e ''recordHash'') (case jget e ''signature'' of JObj s \<Rightarrow> jget s ''value'' | _ \<Rightarrow> JUndef)"

definition scan_signature :: "verification_options \<Rightarrow> nat \<Rightarrow> jobject \<Rightarrow> chain_scan \<Rightarrow> chain_scan" where
  "scan_signature opts n e st =
     (if \<not> js_truthy (jget e ''signature'') then st
      else let st1 = st\<lparr>sn_signed := Suc (sn_signed st)\<rparr> in
        case signer_key opts (jget e ''signature'') of
          None \<Rightarrow> st1\<lparr>sn_unverified := Suc (sn_unverified st), sn_issues := sn_issues st @ issue n True UnknownSigner\<rparr>
        | Some key \<Rightarrow>
            if signature_good opts e key then st1\<lparr>sn_verified := Suc (sn_verified st)\<rparr>
            else st1\<lparr>sn_issues := sn_issues st @ issue n True InvalidSignature\<rparr>)"

definition scan_envelope :: "audit_env \<Rightarrow> verification_options \<Rightarrow> nat \<Rightarrow> jobject \<Rightarrow> chain_scan \<Rightarrow> chain_scan" where
  "scan_envelope env opts n e st =
     (let st1 = st\<lparr>sn_envelopes := sn_envelopes st @ [e],
            sn_issues := sn_issues st @
              issue n (case sn_expected st of None \<Rightarrow> True | Some x \<Rightarrow> \<not> js_same (jget e ''sequence'') x) InvalidSequence @
              issue n (\<not> js_same (jget e ''previousHash'') (sn_previous st)) InvalidPreviousHash @
              issue n (jget e ''recordHash'' \<noteq> JStr (envelope_hash env e)) InvalidRecordHash\<rparr>
      in (scan_signature opts n e st1)\<lparr>sn_expected := js_plus_one (jget e ''sequence''), sn_previous := jget e ''recordHash''\<rparr>)"

text \<open>One line.  A line that parses to null makes the loop throw.\<close>

definition scan_line :: "audit_env \<Rightarrow> verification_options \<Rightarrow> nat \<times> string \<Rightarrow> chain_scan \<Rightarrow> chain_scan result" where
  "scan_line env opts nl st =
     (case nl of (n, line) \<Rightarrow>
        if line = [] then Inr st
        else case JSON_parse line of
          None \<Rightarrow> Inr (st\<lparr>sn_issues := sn_issues st @ issue n True InvalidJson\<rparr>)
        | Some JNull \<Rightarrow> Inl (PlainError ''Cannot read properties of null'')
        | Some (JObj e) \<Rightarrow>
            if schema_ok e then Inr (scan_envelope env opts n e st)
            else Inr (st\<lparr>sn_issues := sn_issues st @ issue n True InvalidSchema\<rparr>)
        | Some _ \<Rightarrow> Inr (st\<lparr>sn_issues := sn_issues st @ issue n True InvalidSchema\<rparr>))"

fun scan_lines :: "audit_env \<Rightarrow> verification_options \<Rightarrow> (nat \<times> string) list \<Rightarrow> chain_scan \<Rightarrow> chain_scan result" where
  "scan_lines env opts [] st = Inr st"
| "scan_lines env opts (l # ls) st = bindR (scan_line env opts l st) (scan_lines env opts ls)"

definition start_scan :: "string \<Rightarrow> chain_scan" where
  "start_scan raw = \<lparr>sn_issues = issue (max 1 (length (audit_lines raw))) (raw \<noteq> [] \<and> last raw \<noteq> CHR 10) InvalidJson,
     sn_envelopes = [], sn_expected = Some (JNum 1), sn_previous = JNull, sn_signed = 0, sn_verified = 0, sn_unverified = 0\<rparr>"

definition hard_issues :: "AuditVerificationIssue list \<Rightarrow> AuditVerificationIssue list" where
  "hard_issues is = filter (\<lambda>i. vi_code i \<noteq> UnknownSigner) is"

definition parseAuditChain :: "audit_env \<Rightarrow> verification_options \<Rightarrow> string \<Rightarrow> (jobject list \<times> AuditVerificationReport) result" where
  "parseAuditChain env opts raw =
     bindR (scan_lines env opts (List.enumerate 1 (audit_lines raw)) (start_scan raw)) (\<lambda>st.
       Inr (sn_envelopes st,
         \<lparr>ar_ok = (hard_issues (sn_issues st) = []), ar_records = length (sn_envelopes st),
          ar_headHash = (if sn_envelopes st = [] then JNull else js_or_else (jget (last (sn_envelopes st)) ''recordHash'') JNull),
          ar_signedRecords = sn_signed st, ar_verifiedSignatures = sn_verified st, ar_unverifiedSignatures = sn_unverified st,
          ar_issues = sn_issues st\<rparr>))"

definition verifyAuditChain :: "audit_env \<Rightarrow> verification_options \<Rightarrow> string \<Rightarrow> AuditVerificationReport result" where
  "verifyAuditChain env opts raw = bindR (parseAuditChain env opts raw) (\<lambda>(es, rep). Inr rep)"


section \<open>What a verified chain is\<close>

definition record_ok :: "audit_env \<Rightarrow> int \<Rightarrow> jval \<Rightarrow> jobject \<Rightarrow> bool" where
  "record_ok env n prev e \<longleftrightarrow> schema_ok e \<and> jget e ''sequence'' = JNum n \<and> jget e ''previousHash'' = prev \<and>
     jget e ''recordHash'' = JStr (envelope_hash env e)"

fun chain_ok :: "audit_env \<Rightarrow> int \<Rightarrow> jval \<Rightarrow> jobject list \<Rightarrow> bool" where
  "chain_ok env n prev [] = True"
| "chain_ok env n prev (e # es) = (record_ok env n prev e \<and> chain_ok env (n + 1) (jget e ''recordHash'') es)"

definition head_hash :: "jval \<Rightarrow> jobject list \<Rightarrow> jval" where
  "head_hash prev es = (if es = [] then prev else jget (last es) ''recordHash'')"

lemma chain_ok_append:
  "chain_ok env n prev (es @ fs) \<longleftrightarrow> chain_ok env n prev es \<and> chain_ok env (n + int (length es)) (head_hash prev es) fs"
  by (induction es arbitrary: n prev) (auto simp: head_hash_def algebra_simps)

definition signature_ok :: "verification_options \<Rightarrow> jobject \<Rightarrow> bool" where
  "signature_ok opts e \<longleftrightarrow> (js_truthy (jget e ''signature'') \<longrightarrow>
     (case signer_key opts (jget e ''signature'') of None \<Rightarrow> True | Some k \<Rightarrow> signature_good opts e k))"

definition hash_value :: "jval \<Rightarrow> bool" where
  "hash_value v \<longleftrightarrow> v = JNull \<or> (\<exists>h. v = JStr h)"

lemma hard_issues_append [simp]: "hard_issues (a @ b) = hard_issues a @ hard_issues b"
  by (simp add: hard_issues_def)

lemma hard_issues_Nil [simp]: "hard_issues [] = []"
  by (simp add: hard_issues_def)

lemma hard_issue [simp]: "hard_issues (issue n b c) = (if b \<and> c \<noteq> UnknownSigner then [\<lparr>vi_line = n, vi_code = c\<rparr>] else [])"
  by (simp add: hard_issues_def issue_def)

lemma js_same_atom: "js_same v JNull = (v = JNull)" "js_same v (JStr s) = (v = JStr s)" "js_same v (JNum n) = (v = JNum n)"
  by (auto simp: js_same_def)

lemma js_same_hash: "hash_value w \<Longrightarrow> js_same v w = (v = w)"
  by (auto simp: hash_value_def js_same_atom)

lemma scan_signature_fields [simp]:
  "sn_envelopes (scan_signature opts n e st) = sn_envelopes st" "sn_expected (scan_signature opts n e st) = sn_expected st"
  "sn_previous (scan_signature opts n e st) = sn_previous st"
  by (auto simp: scan_signature_def Let_def split: option.split)

lemma scan_signature_hard: "hard_issues (sn_issues (scan_signature opts n e st)) = [] \<longleftrightarrow> hard_issues (sn_issues st) = [] \<and> signature_ok opts e"
  by (auto simp: scan_signature_def signature_ok_def Let_def split: option.split)

text \<open>A line adds no hard issue exactly when it is empty or holds the next record of the chain.\<close>

lemma scan_envelope_hard:
  assumes "sn_expected st = Some (JNum k)" "hash_value (sn_previous st)" "schema_ok e"
  shows "hard_issues (sn_issues (scan_envelope env opts n e st)) = [] \<longleftrightarrow>
     hard_issues (sn_issues st) = [] \<and> record_ok env k (sn_previous st) e \<and> signature_ok opts e"
  using assms by (auto simp: scan_envelope_def Let_def scan_signature_hard record_ok_def js_same_atom js_same_hash)

lemma scan_line_keeps: "scan_line env opts l st = Inr st' \<Longrightarrow> hard_issues (sn_issues st') = [] \<Longrightarrow> hard_issues (sn_issues st) = []"
  by (auto simp: scan_line_def scan_envelope_def Let_def scan_signature_hard split: prod.splits if_splits option.splits jval.splits)

lemma scan_lines_keep: "scan_lines env opts ls st = Inr st' \<Longrightarrow> hard_issues (sn_issues st') = [] \<Longrightarrow> hard_issues (sn_issues st) = []"
proof (induction ls arbitrary: st)
  case (Cons l ls)
  then obtain st1 where "scan_line env opts l st = Inr st1" "scan_lines env opts ls st1 = Inr st'" by auto
  with Cons scan_line_keeps show ?case by blast
qed simp

lemma scan_lines_D:
  assumes "scan_lines env opts ls st = Inr st'" "hard_issues (sn_issues st') = []" "sn_expected st = Some (JNum k)" "hash_value (sn_previous st)"
  shows "\<exists>es. sn_envelopes st' = sn_envelopes st @ es \<and> map JSON_parse (filter (\<lambda>l. l \<noteq> []) (map snd ls)) = map (\<lambda>e. Some (JObj e)) es \<and>
    chain_ok env k (sn_previous st) es \<and> (\<forall>e \<in> set es. signature_ok opts e)"
  using assms
proof (induction ls arbitrary: st k)
  case (Cons l ls)
  obtain n line where l: "l = (n, line)" by (cases l)
  from Cons.prems(1) obtain st1 where s1: "scan_line env opts l st = Inr st1" "scan_lines env opts ls st1 = Inr st'" by auto
  have h: "hard_issues (sn_issues st1) = []" using scan_lines_keep [OF s1(2) Cons.prems(2)] .
  show ?case
  proof (cases "line = []")
    case True
    with s1 l have "st1 = st" by (simp add: scan_line_def)
    with Cons.IH [OF s1(2) Cons.prems(2)] Cons.prems(3,4) True l show ?thesis by simp
  next
    case False
    with s1(1) l h obtain e where e: "JSON_parse line = Some (JObj e)" "schema_ok e" "st1 = scan_envelope env opts n e st"
      by (auto simp: scan_line_def split: option.splits jval.splits if_splits)
    with h scan_envelope_hard [OF Cons.prems(3,4) e(2)] have r: "record_ok env k (sn_previous st) e" "signature_ok opts e" by auto
    have st1: "sn_expected st1 = Some (JNum (k + 1))" "sn_previous st1 = jget e ''recordHash''" "sn_envelopes st1 = sn_envelopes st @ [e]"
      using r(1) by (simp_all add: e(3) scan_envelope_def Let_def record_ok_def js_plus_one_def)
    have "hash_value (sn_previous st1)" using r(1) st1(2) by (simp add: record_ok_def hash_value_def)
    from Cons.IH [OF s1(2) Cons.prems(2) st1(1) this] obtain es where
      "sn_envelopes st' = sn_envelopes st1 @ es" "map JSON_parse (filter (\<lambda>l. l \<noteq> []) (map snd ls)) = map (\<lambda>e. Some (JObj e)) es"
      "chain_ok env (k + 1) (sn_previous st1) es" "\<forall>e \<in> set es. signature_ok opts e" by blast
    then show ?thesis using st1 r e(1) l False by (intro exI [of _ "e # es"]) simp
  qed
qed simp

lemma scan_lines_I:
  assumes "map JSON_parse (filter (\<lambda>l. l \<noteq> []) (map snd ls)) = map (\<lambda>e. Some (JObj e)) es" "chain_ok env k (sn_previous st) es"
    "\<forall>e \<in> set es. signature_ok opts e" "hard_issues (sn_issues st) = []" "sn_expected st = Some (JNum k)" "hash_value (sn_previous st)"
  shows "\<exists>st'. scan_lines env opts ls st = Inr st' \<and> hard_issues (sn_issues st') = [] \<and> sn_envelopes st' = sn_envelopes st @ es"
  using assms
proof (induction ls arbitrary: st k es)
  case (Cons l ls)
  obtain n line where l: "l = (n, line)" by (cases l)
  show ?case
  proof (cases "line = []")
    case True
    with Cons l show ?thesis by (simp add: scan_line_def)
  next
    case False
    with Cons.prems(1) l obtain e fs where es: "es = e # fs" and e: "JSON_parse line = Some (JObj e)"
      and fs: "map JSON_parse (filter (\<lambda>l. l \<noteq> []) (map snd ls)) = map (\<lambda>e. Some (JObj e)) fs" by (cases es) auto
    from Cons.prems(2) es have r: "record_ok env k (sn_previous st) e" "chain_ok env (k + 1) (jget e ''recordHash'') fs" by simp_all
    let ?st1 = "scan_envelope env opts n e st"
    have st1: "sn_expected ?st1 = Some (JNum (k + 1))" "sn_previous ?st1 = jget e ''recordHash''" "sn_envelopes ?st1 = sn_envelopes st @ [e]"
      using r(1) by (simp_all add: scan_envelope_def Let_def record_ok_def js_plus_one_def)
    have "hard_issues (sn_issues ?st1) = []"
      using scan_envelope_hard [OF Cons.prems(5,6)] r(1) Cons.prems(3,4) es by (simp add: record_ok_def)
    moreover have "hash_value (sn_previous ?st1)" using r(1) st1(2) by (simp add: record_ok_def hash_value_def)
    ultimately have "\<exists>st'. scan_lines env opts ls ?st1 = Inr st' \<and> hard_issues (sn_issues st') = [] \<and> sn_envelopes st' = sn_envelopes ?st1 @ fs"
      using Cons.IH [OF fs, of "k + 1" ?st1] r(2) Cons.prems(3) es st1 by simp
    moreover have "scan_line env opts l st = Inr ?st1" using e r(1) False l by (simp add: scan_line_def record_ok_def)
    ultimately show ?thesis using st1(3) es by auto
  qed
qed simp

definition line_ended :: "string \<Rightarrow> bool" where
  "line_ended raw \<longleftrightarrow> raw = [] \<or> last raw = CHR 10"

definition records_in :: "string \<Rightarrow> jobject list \<Rightarrow> bool" where
  "records_in raw es \<longleftrightarrow> map JSON_parse (filter (\<lambda>l. l \<noteq> []) (audit_lines raw)) = map (\<lambda>e. Some (JObj e)) es"

lemma start_scan_fields [simp]:
  "sn_expected (start_scan raw) = Some (JNum 1)" "sn_previous (start_scan raw) = JNull" "sn_envelopes (start_scan raw) = []"
  "hard_issues (sn_issues (start_scan raw)) = [] \<longleftrightarrow> line_ended raw"
  by (auto simp: start_scan_def line_ended_def)

text \<open>Verification accepts exactly the texts whose lines are the records of an unbroken chain.\<close>

lemma parse_okD:
  assumes "parseAuditChain env opts raw = Inr (es, rep)" "ar_ok rep"
  shows "line_ended raw \<and> records_in raw es \<and> chain_ok env 1 JNull es \<and> (\<forall>e \<in> set es. signature_ok opts e) \<and>
    ar_records rep = length es \<and> ar_headHash rep = head_hash JNull es"
proof -
  from assms(1) obtain st where s: "scan_lines env opts (List.enumerate 1 (audit_lines raw)) (start_scan raw) = Inr st"
    and es: "es = sn_envelopes st" and ok: "ar_ok rep = (hard_issues (sn_issues st) = [])" and n: "ar_records rep = length es"
    and hd: "ar_headHash rep = (if es = [] then JNull else js_or_else (jget (last es) ''recordHash'') JNull)"
    by (auto simp: parseAuditChain_def)
  from ok assms(2) have h: "hard_issues (sn_issues st) = []" by simp
  have hv: "hash_value JNull" by (simp add: hash_value_def)
  from scan_lines_D [OF s h, of 1] es hv have c: "records_in raw es" "chain_ok env 1 JNull es" "\<forall>e \<in> set es. signature_ok opts e"
    by (auto simp: records_in_def)
  have "ar_headHash rep = head_hash JNull es"
  proof (cases es rule: rev_cases)
    case (snoc fs e)
    with c(2) have "\<exists>h. jget e ''recordHash'' = JStr h" by (auto simp: chain_ok_append record_ok_def)
    with snoc hd show ?thesis by (auto simp: head_hash_def js_or_else_def)
  qed (use hd in \<open>simp add: head_hash_def\<close>)
  with c n scan_lines_keep [OF s h] show ?thesis by simp
qed

lemma parse_okI:
  assumes "line_ended raw" "records_in raw es" "chain_ok env 1 JNull es" "\<forall>e \<in> set es. signature_ok opts e"
  shows "\<exists>rep. parseAuditChain env opts raw = Inr (es, rep) \<and> ar_ok rep"
proof -
  have "\<exists>st'. scan_lines env opts (List.enumerate 1 (audit_lines raw)) (start_scan raw) = Inr st' \<and>
      hard_issues (sn_issues st') = [] \<and> sn_envelopes st' = sn_envelopes (start_scan raw) @ es"
    by (rule scan_lines_I [of _ _ _ 1]) (use assms in \<open>simp_all add: records_in_def hash_value_def\<close>)
  then show ?thesis by (auto simp: parseAuditChain_def simp del: One_nat_def bindR_eq_Inr_iff)
qed


section \<open>The text of a chain\<close>

lemma escape_printable: "c \<in> set (json_escape d) \<Longrightarrow> 32 \<le> char_code c"
proof -
  have hex: "32 \<le> char_code (hex_digit n)" for n
  proof -
    have "\<forall>n \<in> set [0..<16]. 32 \<le> char_code (hex_digit n)" by code_simp
    then show ?thesis using hex_digit_mod [of n] by (metis atLeast0LessThan lessThan_iff mod_less_divisor set_upt zero_less_numeral)
  qed
  have lit: "32 \<le> char_code (CHR 34)" "32 \<le> char_code (CHR 92)" "32 \<le> char_code (CHR ''b'')" "32 \<le> char_code (CHR ''t'')"
    "32 \<le> char_code (CHR ''n'')" "32 \<le> char_code (CHR ''f'')" "32 \<le> char_code (CHR ''r'')" "32 \<le> char_code (CHR ''u'')"
    "32 \<le> char_code (CHR ''0'')" by (simp_all add: char_code_def)
  show "c \<in> set (json_escape d) \<Longrightarrow> 32 \<le> char_code c"
    using hex lit by (auto simp: json_escape_def split: if_splits)
qed

lemma quote_printable: "c \<in> set (json_quote s) \<Longrightarrow> 32 \<le> char_code c"
  using escape_printable by (auto simp: json_quote_def char_code_def)

lemma join_set: "c \<in> set (join_with sep xs) \<Longrightarrow> c \<in> set sep \<or> (\<exists>x \<in> set xs. c \<in> set x)"
  by (induction sep xs rule: join_with.induct) auto

lemma text_printable: "no_undef v \<Longrightarrow> c \<in> set (join_elem (json_text v)) \<Longrightarrow> 32 \<le> char_code c"
proof (induction v)
  case (JNum i)
  then have "c = CHR ''-'' \<or> is_digit c"
    using show_nat_digits by (auto simp: join_elem_def show_int_def split: if_splits)
  then show ?case by (auto simp: is_digit_def char_code_def)
next
  case (JStr s)
  then show ?case using quote_printable by (simp add: join_elem_def)
next
  case (JArr vs)
  then have "c = CHR ''['' \<or> c = CHR '']'' \<or> c \<in> set (join_with '','' (map (\<lambda>v. join_elem (json_text v)) vs))"
    by (auto simp: join_elem_def)
  with join_set [of c "'',''"] have "c \<in> set ''[],'' \<or> (\<exists>v \<in> set vs. c \<in> set (join_elem (json_text v)))" by fastforce
  with JArr show ?case by (auto simp: char_code_def list_all_iff)
next
  case (JObj kvs)
  then have "c = CHR ''{'' \<or> c = CHR ''}'' \<or> c \<in> set (join_with '','' (map (\<lambda>(k, v). json_quote k @ '':'' @ template (json_text v)) kvs))"
    by (auto simp: join_elem_def)
  with join_set [of c "'',''"] have "c \<in> set ''{},:'' \<or> (\<exists>(k, v) \<in> set kvs. c \<in> set (json_quote k) \<or> c \<in> set (template (json_text v)))" by fastforce
  moreover have "32 \<le> char_code c" if kv: "(k, v) \<in> set kvs" "c \<in> set (template (json_text v))" for k v
  proof -
    have v: "no_undef v" using JObj.prems(1) kv(1) by (auto simp: list_all_iff)
    then have "template (json_text v) = join_elem (json_text v)" using json_text_defined [OF v] by (auto simp: template_def join_elem_def)
    then show ?thesis using JObj.IH [OF kv(1) _ v] kv(2) by simp
  qed
  ultimately show ?case using quote_printable by (auto simp: char_code_def)
qed (auto simp: join_elem_def char_code_def split: if_splits)

text \<open>The line of a record, and the text of a list of records.\<close>

definition record_line :: "jobject \<Rightarrow> string" where
  "record_line e = join_elem (stringify (JObj e)) @ [CHR 10]"

definition text_of :: "jobject list \<Rightarrow> string" where
  "text_of es = concat (map record_line es)"

definition plain_record :: "jobject \<Rightarrow> bool" where
  "plain_record e \<longleftrightarrow> no_undef (JObj e) \<and> wf_json (JObj e)"

lemma text_of_simps [simp]: "text_of [] = []" "text_of (e # es) = record_line e @ text_of es" "text_of (es @ fs) = text_of es @ text_of fs"
  by (simp_all add: text_of_def)

lemma record_text:
  assumes "plain_record e"
  shows "CHR 10 \<notin> set (join_elem (stringify (JObj e)))" "strip_cr (join_elem (stringify (JObj e))) = join_elem (stringify (JObj e))"
    "join_elem (stringify (JObj e)) \<noteq> []"
proof -
  have p: "32 \<le> char_code c" if "c \<in> set (join_elem (stringify (JObj e)))" for c
    using text_printable [of "JObj e" c] that assms by (simp add: plain_record_def stringify_no_undef del: stringify.simps)
  have ten: "\<not> 32 \<le> char_code (CHR 10)" "\<not> 32 \<le> char_code (CHR 13)" by (simp_all add: char_code_def)
  show "CHR 10 \<notin> set (join_elem (stringify (JObj e)))" using p ten by blast
  show "strip_cr (join_elem (stringify (JObj e))) = join_elem (stringify (JObj e))"
    using p ten by (metis last_in_set strip_cr_def)
  show "join_elem (stringify (JObj e)) \<noteq> []" by (simp add: join_elem_def)
qed

lemma audit_lines_Cons: "CHR 10 \<notin> set l \<Longrightarrow> audit_lines (l @ CHR 10 # s) = strip_cr l # audit_lines s"
  by (simp add: audit_lines_def split_on_append_sep Let_def)

lemma audit_lines_text:
  assumes "\<forall>e \<in> set es. plain_record e" "CHR 10 \<notin> set rest"
  shows "audit_lines (text_of es @ rest) = map (\<lambda>e. join_elem (stringify (JObj e))) es @ [rest]"
  using assms(1)
proof (induction es)
  case Nil
  then show ?case using assms(2) by (simp add: audit_lines_def split_on_single)
next
  case (Cons e es)
  then show ?case using record_text [of e] by (simp add: record_line_def audit_lines_Cons del: stringify.simps)
qed

lemma records_in_text: "\<forall>e \<in> set es. plain_record e \<Longrightarrow> records_in (text_of es) es"
proof -
  assume p: "\<forall>e \<in> set es. plain_record e"
  then have "filter (\<lambda>l. l \<noteq> []) (audit_lines (text_of es @ [])) = map (\<lambda>e. join_elem (stringify (JObj e))) es"
    using record_text(3) by (subst audit_lines_text) (auto simp del: stringify.simps intro!: filter_True)
  moreover have "JSON_parse (join_elem (stringify (JObj e))) = Some (JObj e)" if "e \<in> set es" for e
    using p that parse_stringified [of "JObj e"] by (simp add: plain_record_def del: stringify.simps)
  ultimately show ?thesis by (simp add: records_in_def del: stringify.simps)
qed

lemma line_ended_text: "line_ended (text_of es)"
  by (cases es rule: rev_cases) (simp_all add: line_ended_def record_line_def)

lemma records_in_unique: "records_in raw es \<Longrightarrow> records_in raw fs \<Longrightarrow> es = fs"
proof -
  have "inj (\<lambda>e. Some (JObj e))" by (simp add: inj_def)
  then show "records_in raw es \<Longrightarrow> records_in raw fs \<Longrightarrow> es = fs" by (simp add: records_in_def)
qed

section \<open>What the head hash says\<close>

lemma p_results_no_undef:
  "p_value n s = Some (v, r) \<Longrightarrow> no_undef v"
  "p_elems n s = Some (vs, r) \<Longrightarrow> list_all no_undef vs"
  "p_members n s = Some (kvs, r) \<Longrightarrow> \<forall>(k, v) \<in> set kvs. no_undef v"
proof (induction n s and n s and n s arbitrary: v r and vs r and kvs r rule: p_value_p_elems_p_members.induct)
  case (2 n s)
  have entries: "\<forall>(k, v) \<in> set (object_entries kvs). no_undef v" if "\<forall>(k, v) \<in> set kvs. no_undef v" for kvs :: jobject
  proof -
    have "\<forall>(k, v) \<in> set kvs. no_undef v \<Longrightarrow> \<forall>(k, v) \<in> set m. no_undef v \<Longrightarrow>
        \<forall>(k, v) \<in> set (foldl (\<lambda>m (k, v). AList.update k v m) m kvs). no_undef v" for m
    proof (induction kvs arbitrary: m)
      case (Cons kv kvs)
      obtain k v where kv: "kv = (k, v)" by (cases kv)
      have "\<forall>(k, v) \<in> set (AList.update k v m). no_undef v" using Cons.prems kv by (induction m) auto
      with Cons kv show ?case by simp
    qed simp
    from this [of "[]"] that show ?thesis by (simp add: object_entries_def)
  qed
  show ?case
  proof (cases "skip_ws s")
    case (Cons c cs)
    have num: "no_undef w" if "p_number t = Some (w, x)" for t w x
      using that by (auto simp: p_number_def Let_def split: if_splits)
    have el: "list_all no_undef vs" if "p_elems n cs = Some (vs, r)" "c = CHR ''[''" "\<not> starts_with '']'' (skip_ws cs)" for vs r
      using 2(1) Cons that by simp
    have me: "\<forall>(k, v) \<in> set kvs. no_undef v" if "p_members n cs = Some (kvs, r)" "c = CHR ''{''" "\<not> starts_with ''}'' (skip_ws cs)" for kvs r
      using 2(2) Cons that by simp
    consider (arr) "c = CHR ''[''" | (obj) "c = CHR ''{''" | (other) "c \<noteq> CHR ''[''" "c \<noteq> CHR ''{''" by blast
    then show ?thesis
    proof cases
      case arr
      with 2(3) Cons show ?thesis by (cases "starts_with '']'' (skip_ws cs)") (auto dest: el)
    next
      case obj
      show ?thesis
      proof (cases "starts_with ''}'' (skip_ws cs)")
        case False
        with obj 2(3) Cons obtain kvs where "p_members n cs = Some (kvs, r)" "v = JObj (object_entries kvs)" by auto
        with me [OF this(1) obj False] entries [of kvs] show ?thesis by (simp add: list_all_iff)
      qed (use obj 2(3) Cons in auto)
    next
      case other
      with 2(3) Cons show ?thesis by (auto split: if_splits simp del: starts_with.simps drop_Suc_Cons dest: num)
    qed
  qed (use 2 in simp)
next
  case (4 n s)
  from 4(3) obtain w r1 where w: "p_value n s = Some (w, r1)" by (auto split: option.splits)
  show ?case
  proof (cases "skip_ws r1")
    case (Cons c r2)
    then show ?thesis using 4(1) [OF w] 4(2) [OF w refl Cons] 4(3) w by (auto simp: prepend_Some split: if_splits)
  qed (use 4(3) w in simp)
next
  case (6 n s)
  from 6(3) obtain k r1 w r2 where s: "starts_with [CHR 34] (skip_ws s)" and k: "p_chars (tl (skip_ws s)) = Some (k, r1)"
    and c: "starts_with '':'' (skip_ws r1)" and w: "p_value n (tl (skip_ws r1)) = Some (w, r2)"
    by (auto split: option.splits if_splits)
  have nw: "no_undef w" using 6(1) s k c w by simp
  show ?case
  proof (cases "skip_ws r2")
    case (Cons d r3)
    have rec: "\<forall>(k, v) \<in> set t. no_undef v" if "p_members n r3 = Some (t, r)" "d = CHR '',''" for t
      using 6(2) s k c w Cons that by simp
    show ?thesis using 6(3) s k c w nw Cons by (auto simp: prepend_Some split: if_splits dest!: rec)
  qed (use 6(3) s k c w in simp)
qed simp_all

lemma JSON_parse_no_undef: "JSON_parse s = Some v \<Longrightarrow> no_undef v"
  using p_results_no_undef(1) by (auto simp: JSON_parse_def simp del: p_value.simps split: option.splits if_splits)

lemma audit_canonical_eq: "no_undef v \<Longrightarrow> canonical lc v = Some (audit_canonical lc v)"
proof (induction v)
  case (JArr vs)
  then have "map (\<lambda>v. join_elem (canonical lc v)) vs = map (audit_canonical lc) vs"
    by (auto simp: list_all_iff join_elem_def)
  then show ?case by (simp only: canonical.simps audit_canonical.simps)
next
  case (JObj kvs)
  have "map (\<lambda>(k, v). (k, template (canonical lc v))) kvs = map (\<lambda>(k, v). (k, audit_canonical lc v)) kvs"
  proof (rule map_cong [OF refl])
    fix x assume x: "x \<in> set kvs"
    obtain k v where kv: "x = (k, v)" by (cases x)
    have "canonical lc v = Some (audit_canonical lc v)"
      by (rule JObj.IH [of "(k, v)"]) (use x kv JObj.prems in \<open>auto simp: list_all_iff\<close>)
    then show "(case x of (k, v) \<Rightarrow> (k, template (canonical lc v))) = (case x of (k, v) \<Rightarrow> (k, audit_canonical lc v))"
      by (simp add: kv template_def)
  qed
  then show ?case by (simp only: canonical.simps audit_canonical.simps)
qed simp_all

lemma hash_input_determines:
  assumes "audit_canonical lc (JObj (hash_input a b c d)) = audit_canonical lc (JObj (hash_input a' b' c' d'))"
    and "no_undef (JObj (hash_input a b c d))" "no_undef (JObj (hash_input a' b' c' d'))"
  shows "sort_keys lc a = sort_keys lc a' \<and> sort_keys lc b = sort_keys lc b' \<and> sort_keys lc c = sort_keys lc c' \<and> sort_keys lc d = sort_keys lc d'"
proof -
  let ?f = "\<lambda>kvs. map (\<lambda>(k, v). (k, sort_keys lc v)) kvs"
  have "sort_keys lc (JObj (hash_input a b c d)) = sort_keys lc (JObj (hash_input a' b' c' d'))"
    by (rule canonical_determines) (use assms audit_canonical_eq in \<open>simp_all del: audit_canonical.simps canonical.simps\<close>)
  then have "sort_by (entry_le lc) (?f (hash_input a b c d)) = sort_by (entry_le lc) (?f (hash_input a' b' c' d'))" by simp
  from arg_cong [OF this, of set] have "set (?f (hash_input a b c d)) = set (?f (hash_input a' b' c' d'))" by simp
  moreover have "distinct (map fst (?f (hash_input a b c d)))" "distinct (map fst (?f (hash_input a' b' c' d')))"
    by (simp_all add: hash_input_def)
  ultimately have m: "map_of (?f (hash_input a b c d)) = map_of (?f (hash_input a' b' c' d'))" using map_of_inject_set by blast
  show ?thesis
    using fun_cong [OF m, of "''sequence''"] fun_cong [OF m, of "''previousHash''"] fun_cong [OF m, of "''event''"] fun_cong [OF m, of "''source''"]
    by (simp add: hash_input_def)
qed

lemma jget_no_undef: "no_undef (JObj e) \<Longrightarrow> jget e k \<noteq> JUndef \<Longrightarrow> no_undef (jget e k)"
  by (auto simp: jget_def list_all_iff split: option.splits dest!: map_of_SomeD)

text \<open>What a record says: its place in the chain and its content, up to the order of keys.\<close>

definition record_content :: "audit_env \<Rightarrow> jobject \<Rightarrow> jval \<times> jval \<times> jval \<times> jval \<times> jval" where
  "record_content env e = (jget e ''sequence'', jget e ''previousHash'', sort_keys (ae_lc env) (jget e ''event''),
     sort_keys (ae_lc env) (jget e ''source''), jget e ''recordHash'')"

definition payload_of_record :: "audit_env \<Rightarrow> jobject \<Rightarrow> string" where
  "payload_of_record env e = auditHashPayload env (jget e ''sequence'') (jget e ''previousHash'') (jget e ''event'') (jget e ''source'')"

lemma same_payload_same_content:
  assumes "record_ok env n p e" "record_ok env m q f" "hash_value p" "hash_value q" "no_undef (JObj e)" "no_undef (JObj f)"
    and "payload_of_record env e = payload_of_record env f" "jget e ''recordHash'' = jget f ''recordHash''"
  shows "record_content env e = record_content env f" "p = q" "n = m"
proof -
  have nu: "no_undef (JObj (hash_input (jget g ''sequence'') (jget g ''previousHash'') (jget g ''event'') (jget g ''source'')))"
    if "record_ok env k r g" "hash_value r" "no_undef (JObj g)" for k r g
  proof -
    have "jget g ''sequence'' \<noteq> JUndef" "jget g ''previousHash'' \<noteq> JUndef" "jget g ''event'' \<noteq> JUndef" "jget g ''source'' \<noteq> JUndef"
      using that by (auto simp: record_ok_def schema_ok_def hash_value_def)
    from this [THEN jget_no_undef [OF that(3)]] show ?thesis by (simp add: hash_input_def)
  qed
  have c: "sort_keys (ae_lc env) (jget e k) = sort_keys (ae_lc env) (jget f k)" if "k \<in> {''sequence'', ''previousHash'', ''event'', ''source''}" for k
    using hash_input_determines [OF assms(7) [unfolded payload_of_record_def auditHashPayload_def] nu [OF assms(1,3,5)] nu [OF assms(2,4,6)]] that by auto
  have "JNum n = JNum m" using c [of "''sequence''"] assms(1,2) by (simp add: record_ok_def)
  then show n: "n = m" by simp
  show p: "p = q" using c [of "''previousHash''"] assms(1-4) by (auto simp: record_ok_def hash_value_def)
  show "record_content env e = record_content env f"
    using c n p assms(1,2,8) by (simp add: record_content_def record_ok_def)
qed

lemma chain_ok_hash_value: "chain_ok env n p es \<Longrightarrow> hash_value p \<Longrightarrow> hash_value (head_hash p es)"
  by (induction es rule: rev_induct) (auto simp: head_hash_def chain_ok_append record_ok_def hash_value_def)

lemma same_head_same_chain:
  assumes "chain_ok env 1 JNull es" "chain_ok env 1 JNull fs" "\<forall>e \<in> set es \<union> set fs. no_undef (JObj e)"
    and "\<forall>e \<in> set es. \<forall>f \<in> set fs. ae_sha256 env (payload_of_record env e) = ae_sha256 env (payload_of_record env f) \<longrightarrow>
      payload_of_record env e = payload_of_record env f"
    and "head_hash JNull es = head_hash JNull fs"
  shows "map (record_content env) es = map (record_content env) fs"
  using assms
proof (induction es arbitrary: fs rule: rev_induct)
  case Nil
  then show ?case by (cases fs rule: rev_cases) (auto simp: head_hash_def chain_ok_append record_ok_def)
next
  case (snoc e es)
  have null: "hash_value JNull" by (simp add: hash_value_def)
  from snoc.prems(1) have es: "chain_ok env 1 JNull es" and e: "record_ok env (1 + int (length es)) (head_hash JNull es) e"
    by (simp_all add: chain_ok_append)
  show ?case
  proof (cases fs rule: rev_cases)
    case Nil
    with snoc.prems(5) e show ?thesis by (simp add: head_hash_def record_ok_def)
  next
    case (snoc gs f)
    from snoc snoc.prems(2) have gs: "chain_ok env 1 JNull gs" and f: "record_ok env (1 + int (length gs)) (head_hash JNull gs) f"
      by (simp_all add: chain_ok_append)
    have h: "jget e ''recordHash'' = jget f ''recordHash''" using snoc.prems(5) snoc by (simp add: head_hash_def)
    then have "ae_sha256 env (payload_of_record env e) = ae_sha256 env (payload_of_record env f)"
      using e f by (simp add: record_ok_def envelope_hash_def computeAuditRecordHash_def payload_of_record_def)
    then have "payload_of_record env e = payload_of_record env f" using snoc.prems(4) snoc by simp
    note same = same_payload_same_content [OF e f chain_ok_hash_value [OF es null] chain_ok_hash_value [OF gs null] _ _ this h]
    have "record_content env e = record_content env f" "head_hash JNull es = head_hash JNull gs"
      using same snoc.prems(3) snoc by simp_all
    moreover have "map (record_content env) es = map (record_content env) gs"
      by (rule snoc.IH [OF es gs]) (use snoc.prems(3,4) snoc calculation in auto)
    ultimately show ?thesis using snoc by simp
  qed
qed

section \<open>Tamper evidence\<close>

text \<open>Claim C7. The head hash commits to the whole history: two texts that verify and report the same head hash hold
  the same records, one by one and in the same order (sequence number, previous hash, event and source, up to the
  order of keys), unless the hash collides on two of their records.  So no record of a verified chain can be
  changed, dropped, added or moved without changing the head hash.\<close>

theorem head_hash_commits_to_history:
  assumes "parseAuditChain env opts raw1 = Inr (es1, rep1)" "ar_ok rep1" "parseAuditChain env opts raw2 = Inr (es2, rep2)" "ar_ok rep2"
    and "ar_headHash rep1 = ar_headHash rep2"
    and "\<forall>e \<in> set es1. \<forall>f \<in> set es2. ae_sha256 env (payload_of_record env e) = ae_sha256 env (payload_of_record env f) \<longrightarrow>
      payload_of_record env e = payload_of_record env f"
  shows "map (record_content env) es1 = map (record_content env) es2"
proof -
  note p1 = parse_okD [OF assms(1,2)] and p2 = parse_okD [OF assms(3,4)]
  have nu: "no_undef (JObj e)" if "records_in raw es" "e \<in> set es" for raw es e
  proof -
    have "Some (JObj e) \<in> set (map JSON_parse (filter (\<lambda>l. l \<noteq> []) (audit_lines raw)))"
      using that unfolding records_in_def by simp
    then obtain l where "JSON_parse l = Some (JObj e)" by force
    then show ?thesis by (rule JSON_parse_no_undef)
  qed
  show ?thesis
    by (rule same_head_same_chain) (use p1 p2 nu assms(5,6) in auto)
qed

definition demo_audit :: audit_env where
  "demo_audit = \<lparr>ae_lc = code_unit_le, ae_sha256 = (\<lambda>s. show_nat (length s)), ae_signer = None\<rparr>"

definition demo_audit_event :: "string \<Rightarrow> jobject" where
  "demo_audit_event s = [(''ts'', JStr ''t''), (''type'', JStr ''tool_call''), (''summary'', JStr s)]"

definition demo_record :: jobject where
  "demo_record = hash_input (JNum 1) JNull (JObj (demo_audit_event ''a'')) native_source @ [(''recordHash'', JStr ''sha256:134'')]"

definition demo_record' :: jobject where
  "demo_record' = (''recordHash'', JStr ''sha256:134'') # hash_input (JNum 1) JNull (JObj (rev (demo_audit_event ''a''))) native_source"

lemma demo_records: "record_ok demo_audit 1 JNull demo_record" "plain_record demo_record"
  "record_ok demo_audit 1 JNull demo_record'" "plain_record demo_record'"
  by code_simp+

theorem head_hash_commits_to_history_witness:
  "text_of [demo_record] \<noteq> text_of [demo_record'] \<and> map (record_content demo_audit) [demo_record] = map (record_content demo_audit) [demo_record']"
proof -
  have sig: "signature_ok no_keys e" for e
    by (auto simp: signature_ok_def signer_key_def no_keys_def split: option.split jval.split)
  have good: "\<exists>rep. parseAuditChain demo_audit no_keys (text_of [e]) = Inr ([e], rep) \<and> ar_ok rep \<and> ar_headHash rep = jget e ''recordHash''"
    if "record_ok demo_audit 1 JNull e" "plain_record e" for e
  proof -
    have "\<forall>x \<in> set [e]. plain_record x" "chain_ok demo_audit 1 JNull [e]" "\<forall>x \<in> set [e]. signature_ok no_keys x" using that sig by simp_all
    from parse_okI [OF line_ended_text records_in_text [OF this(1)] this(2,3)] obtain rep where
      r: "parseAuditChain demo_audit no_keys (text_of [e]) = Inr ([e], rep)" "ar_ok rep" by blast
    with parse_okD [OF r] show ?thesis by (auto simp: head_hash_def)
  qed
  obtain r1 where r1: "parseAuditChain demo_audit no_keys (text_of [demo_record]) = Inr ([demo_record], r1)" "ar_ok r1"
    "ar_headHash r1 = jget demo_record ''recordHash''" using good [OF demo_records(1,2)] by blast
  obtain r2 where r2: "parseAuditChain demo_audit no_keys (text_of [demo_record']) = Inr ([demo_record'], r2)" "ar_ok r2"
    "ar_headHash r2 = jget demo_record' ''recordHash''" using good [OF demo_records(3,4)] by blast
  have "jget demo_record ''recordHash'' = jget demo_record' ''recordHash''" "payload_of_record demo_audit demo_record = payload_of_record demo_audit demo_record'"
    "text_of [demo_record] \<noteq> text_of [demo_record']" by code_simp+
  with head_hash_commits_to_history [OF r1(1,2) r2(1,2)] r1(3) r2(3) show ?thesis by simp
qed

end
