(* ===== verification/FF_AuditStore.thy ===== *)
theory FF_AuditStore
  imports FF_AuditChain
begin

text \<open>
  \<^verbatim>\<open>src/evidence/file-audit-store.ts\<close>: the file that holds the audit chain, written by any number of processes.

  The state is the live file with its modification time, the files rotated aside, the quarantined torn tails and,
  per process, the cached tail.  \<open>file_env\<close> decides what the environment does: how many characters of a write reach
  the file before it fails or its process dies, whether a repair gets through, the modification times, and the
  time stamps in the names of rotated and quarantined files.  Appends are atomic with respect to each other: they
  run under the writer lock, whose acquisition is left out, as are file modes and log lines.  The name of a rotated
  file starts with a digit or a sign after \<^verbatim>\<open>audit.v2.\<close>, that of a quarantined tail with a letter, so the two kinds
  of files are kept apart.
\<close>

section \<open>State\<close>

record tail_cache =
  tc_sequence :: int
  tc_recordHash :: jval
  tc_size :: nat
  tc_mtime :: int

record audit_files =
  af_live :: "(string \<times> int) option"
  af_archives :: "(string \<times> string) list"
  af_quarantine :: "(string \<times> string) list"
  af_caches :: "nat \<Rightarrow> tail_cache option"
  af_mods :: nat
  af_writes :: nat
  af_rotations :: nat
  af_repairs :: nat

text \<open>What becomes of a write: it is done, or it stops after some characters, by an error or with the process.\<close>

datatype write_outcome = Written | Interrupted nat bool

datatype repair_outcome = Repaired | QuarantineFailed | RewriteFailed | FailedAfterRename

record file_env =
  fe_audit :: audit_env
  fe_maxFileBytes :: nat
  fe_mtime :: "nat \<Rightarrow> int"
  fe_rotated :: "nat \<Rightarrow> string"
  fe_torn :: "nat \<Rightarrow> string"
  fe_ts :: "nat \<Rightarrow> string"
  fe_write :: "nat \<Rightarrow> write_outcome"
  fe_repair :: "nat \<Rightarrow> repair_outcome"
  fe_rename :: "nat \<Rightarrow> bool"

definition put_live :: "file_env \<Rightarrow> string \<Rightarrow> audit_files \<Rightarrow> audit_files" where
  "put_live env text st = st\<lparr>af_live := Some (text, fe_mtime env (af_mods st)), af_mods := Suc (af_mods st)\<rparr>"

definition drop_cache :: "nat \<Rightarrow> audit_files \<Rightarrow> audit_files" where
  "drop_cache p st = st\<lparr>af_caches := (af_caches st)(p := None)\<rparr>"

definition integrity_error :: ff_error where
  "integrity_error = PlainError ''Audit chain integrity failed.''"

section \<open>Operations\<close>

text \<open>The text up to and including the last newline.\<close>

definition complete_part :: "string \<Rightarrow> string" where
  "complete_part raw = rev (dropWhile (\<lambda>c. c \<noteq> CHR 10) (rev raw))"

definition repair_event :: "string \<Rightarrow> string \<Rightarrow> nat \<Rightarrow> jval \<Rightarrow> jobject" where
  "repair_event ts quarantine tornBytes resumedFrom =
     [(''ts'', JStr ts), (''type'', JStr ''audit_repair''),
      (''summary'', JStr (''Quarantined a torn audit tail ('' @ show_nat tornBytes @
         '' bytes) left by an interrupted write; the chain resumes from the last complete record.'')),
      (''detail'', JObj [(''quarantine'', JStr quarantine), (''tornBytes'', JNum (int tornBytes)), (''resumedFromHash'', resumedFrom)])]"

definition repairTornTail :: "file_env \<Rightarrow> nat \<Rightarrow> (audit_files, bool) act" where
  "repairTornTail env p st =
     (case af_live st of
        None \<Rightarrow> (Inr False, st)
      | Some (raw, _) \<Rightarrow>
          if raw = [] \<or> last raw = CHR 10 then (Inr False, st)
          else
            let prefix = complete_part raw; torn = drop (length prefix) raw in
            case parseAuditChain (fe_audit env) no_keys prefix of
              Inl e \<Rightarrow> (Inl e, st)
            | Inr (es, report) \<Rightarrow>
                if \<not> ar_ok report then (Inr False, st)
                else
                  let k = af_repairs st; name = ''audit.v2.torn-'' @ fe_torn env k @ ''.jsonl''; st1 = st\<lparr>af_repairs := Suc k\<rparr> in
                  if fe_repair env k = QuarantineFailed then (Inl (StoreError ''The torn tail could not be quarantined.''), st1)
                  else
                    let st2 = st1\<lparr>af_quarantine := AList.update (fe_torn env k) torn (af_quarantine st1)\<rparr> in
                    case createAuditEnvelope (fe_audit env) (repair_event (fe_ts env k) name (byte_length torn) (ar_headHash report))
                           (int (ar_records report) + 1) (ar_headHash report) native_source of
                      Inl e \<Rightarrow> (Inl e, st2)
                    | Inr marker \<Rightarrow>
                        if fe_repair env k = RewriteFailed then (Inl (StoreError ''The repaired chain could not be written.''), st2)
                        else
                          let st3 = put_live env (prefix @ record_line marker) st2 in
                          if fe_repair env k = FailedAfterRename then (Inl (StoreError ''The repaired chain could not be protected.''), st3)
                          else (Inr True, drop_cache p st3))"

definition rotateIfOversized :: "file_env \<Rightarrow> nat \<Rightarrow> (audit_files, unit) act" where
  "rotateIfOversized env p st =
     (case af_live st of
        None \<Rightarrow> (Inr (), st)
      | Some (raw, _) \<Rightarrow>
          if byte_length raw \<le> fe_maxFileBytes env then (Inr (), st)
          else
            let k = af_rotations st; st1 = st\<lparr>af_rotations := Suc k\<rparr> in
            if \<not> fe_rename env k then (Inl (StoreError ''The audit chain could not be rotated.''), st1)
            else (Inr (), drop_cache p (st1\<lparr>af_live := None, af_archives := AList.update (fe_rotated env k) raw (af_archives st1)\<rparr>)))"

definition record_sequence :: "jobject \<Rightarrow> int" where
  "record_sequence e = (case jget e ''sequence'' of JNum n \<Rightarrow> n | _ \<Rightarrow> 0)"

definition tail_of :: "jobject list \<Rightarrow> nat \<Rightarrow> int \<Rightarrow> tail_cache" where
  "tail_of es sz mtime =
     \<lparr>tc_sequence = (if es = [] then 0 else record_sequence (last es)),
      tc_recordHash = (if es = [] then JNull else js_or_else (jget (last es) ''recordHash'') JNull),
      tc_size = sz, tc_mtime = mtime\<rparr>"

definition cache_hit :: "nat \<Rightarrow> string \<Rightarrow> int \<Rightarrow> audit_files \<Rightarrow> tail_cache option" where
  "cache_hit p raw mtime st =
     (case af_caches st p of
        None \<Rightarrow> None
      | Some t \<Rightarrow> if tc_size t = byte_length raw \<and> tc_mtime t = mtime then Some t else None)"

definition readTailForAppend :: "file_env \<Rightarrow> nat \<Rightarrow> (audit_files, int \<times> jval) act" where
  "readTailForAppend env p st =
     (case af_live st of
        None \<Rightarrow> (Inr (0, JNull), drop_cache p st)
      | Some (raw, mtime) \<Rightarrow>
          (case cache_hit p raw mtime st of
             Some t \<Rightarrow> (Inr (tc_sequence t, tc_recordHash t), st)
           | None \<Rightarrow>
               (case parseAuditChain (fe_audit env) no_keys raw of
                  Inl e \<Rightarrow> (Inl e, st)
                | Inr (es, report) \<Rightarrow>
                    if \<not> ar_ok report then (Inl integrity_error, st)
                    else let t = tail_of es (byte_length raw) mtime
                         in (Inr (tc_sequence t, tc_recordHash t), st\<lparr>af_caches := (af_caches st)(p := Some t)\<rparr>))))"

definition live_text :: "audit_files \<Rightarrow> string" where
  "live_text st = (case af_live st of None \<Rightarrow> [] | Some (raw, _) \<Rightarrow> raw)"

text \<open>Appending the line, with or without \<^verbatim>\<open>fsync\<close>: a write that stops early leaves what it wrote.\<close>

definition write_line :: "file_env \<Rightarrow> nat \<Rightarrow> string \<Rightarrow> (audit_files, unit) act" where
  "write_line env p line st =
     (let k = af_writes st; st1 = st\<lparr>af_writes := Suc k\<rparr> in
      case fe_write env k of
        Written \<Rightarrow> (Inr (), put_live env (live_text st @ line) st1)
      | Interrupted n died \<Rightarrow>
          let st2 = (if n = 0 then st1 else put_live env (live_text st @ take n line) st1)
          in (Inl (StoreError ''The audit record could not be written.''), if died then drop_cache p st2 else st2))"

definition remember_tail :: "nat \<Rightarrow> jobject \<Rightarrow> (audit_files, unit) act" where
  "remember_tail p e st =
     (case af_live st of
        None \<Rightarrow> (Inr (), st)
      | Some (raw, mtime) \<Rightarrow>
          (Inr (), st\<lparr>af_caches := (af_caches st)(p := Some \<lparr>tc_sequence = record_sequence e, tc_recordHash = jget e ''recordHash'',
             tc_size = byte_length raw, tc_mtime = mtime\<rparr>)\<rparr>))"

definition append_S :: "file_env \<Rightarrow> nat \<Rightarrow> jobject \<Rightarrow> (audit_files, jobject) act" where
  "append_S env p event =
     bindA (repairTornTail env p) (\<lambda>_.
     bindA (rotateIfOversized env p) (\<lambda>_.
     bindA (readTailForAppend env p) (\<lambda>(seqno, hash).
     bindA (liftR (createAuditEnvelope (fe_audit env) event (seqno + 1) hash native_source)) (\<lambda>e.
     bindA (write_line env p (record_line e)) (\<lambda>_.
     bindA (remember_tail p e) (\<lambda>_. retA e))))))"

definition verify_store :: "file_env \<Rightarrow> audit_files \<Rightarrow> AuditVerificationReport result" where
  "verify_store env st = verifyAuditChain (fe_audit env) no_keys (live_text st)"

definition store_preflight :: "file_env \<Rightarrow> nat \<Rightarrow> (audit_files, unit) act" where
  "store_preflight env p =
     bindA (repairTornTail env p) (\<lambda>_.
     bindA (modifyA (\<lambda>st. if af_live st = None then put_live env [] st else st)) (\<lambda>_ st.
       (case verify_store env st of
          Inl e \<Rightarrow> (Inl e, st)
        | Inr report \<Rightarrow> if ar_ok report then (Inr (), st) else (Inl integrity_error, st))))"

text \<open>The calls of the processes, and the end of a process, which loses its cache.\<close>

datatype audit_op = AuAppend nat jobject | AuPreflight nat | AuExit nat

fun au_do :: "file_env \<Rightarrow> audit_op \<Rightarrow> audit_files \<Rightarrow> audit_files" where
  "au_do env (AuAppend p event) st = snd (append_S env p event st)"
| "au_do env (AuPreflight p) st = snd (store_preflight env p st)"
| "au_do env (AuExit p) st = drop_cache p st"

definition no_files :: audit_files where
  "no_files = \<lparr>af_live = None, af_archives = [], af_quarantine = [], af_caches = (\<lambda>_. None), af_mods = 0, af_writes = 0,
     af_rotations = 0, af_repairs = 0\<rparr>"


section \<open>The invariant of the files\<close>

definition good_chain :: "audit_env \<Rightarrow> jobject list \<Rightarrow> bool" where
  "good_chain env es \<longleftrightarrow> (\<forall>e \<in> set es. plain_record e) \<and> chain_ok env 1 JNull es"

text \<open>Complete records, and possibly the beginning of one more.\<close>

definition intact :: "audit_env \<Rightarrow> string \<Rightarrow> bool" where
  "intact env raw \<longleftrightarrow> (\<exists>es torn. raw = text_of es @ torn \<and> CHR 10 \<notin> set torn \<and> good_chain env es)"

definition clean :: "file_env \<Rightarrow> audit_files \<Rightarrow> jobject list \<Rightarrow> bool" where
  "clean env st es \<longleftrightarrow> live_text st = text_of es \<and> good_chain (fe_audit env) es"

definition cache_ok :: "file_env \<Rightarrow> audit_files \<Rightarrow> tail_cache \<Rightarrow> bool" where
  "cache_ok env st t \<longleftrightarrow> (\<exists>k < af_mods st. tc_mtime t = fe_mtime env k) \<and>
     (\<forall>raw. af_live st = Some (raw, tc_mtime t) \<longrightarrow>
       (\<exists>es. clean env st es \<and> tc_sequence t = int (length es) \<and> tc_recordHash t = head_hash JNull es))"

definition files_ok :: "file_env \<Rightarrow> audit_files \<Rightarrow> bool" where
  "files_ok env st \<longleftrightarrow>
     (\<forall>raw mt. af_live st = Some (raw, mt) \<longrightarrow> intact (fe_audit env) raw \<and> (\<exists>k < af_mods st. mt = fe_mtime env k)) \<and>
     (\<forall>raw \<in> set (map snd (af_archives st)). \<exists>es. raw = text_of es \<and> good_chain (fe_audit env) es) \<and>
     fst ` set (af_archives st) \<subseteq> fe_rotated env ` {..<af_rotations st} \<and>
     (\<forall>p t. af_caches st p = Some t \<longrightarrow> cache_ok env st t)"

text \<open>A record is stored when its line is a complete line of the live or of a rotated file.\<close>

definition complete_lines :: "string \<Rightarrow> string set" where
  "complete_lines raw = set (butlast (split_on (CHR 10) raw))"

definition stored :: "audit_files \<Rightarrow> jobject \<Rightarrow> bool" where
  "stored st e \<longleftrightarrow> (\<exists>raw \<in> insert (live_text st) (set (map snd (af_archives st))). join_elem (stringify (JObj e)) \<in> complete_lines raw)"

definition keeps_records :: "audit_files \<Rightarrow> audit_files \<Rightarrow> bool" where
  "keeps_records st st' \<longleftrightarrow> (\<forall>e. stored st e \<longrightarrow> stored st' e)"

definition file_env_ok :: "file_env \<Rightarrow> bool" where
  "file_env_ok env \<longleftrightarrow> inj (fe_mtime env) \<and> inj (fe_rotated env)"

lemma keeps_refl [simp]: "keeps_records st st"
  by (simp add: keeps_records_def)

lemma keeps_trans: "keeps_records a b \<Longrightarrow> keeps_records b c \<Longrightarrow> keeps_records a c"
  by (simp add: keeps_records_def)

lemma good_chain_Nil [simp]: "good_chain env []"
  by (simp add: good_chain_def)

lemma good_chain_snoc: "good_chain env es \<Longrightarrow> plain_record e \<Longrightarrow> record_ok env (1 + int (length es)) (head_hash JNull es) e \<Longrightarrow> good_chain env (es @ [e])"
  by (simp add: good_chain_def chain_ok_append)

lemma good_chain_hash: "good_chain env es \<Longrightarrow> hash_value (head_hash JNull es)"
  using chain_ok_hash_value [of env 1 JNull es] by (simp add: good_chain_def hash_value_def)

lemma complete_lines_append: "complete_lines a \<subseteq> complete_lines (a @ b)"
proof -
  have "prefix (butlast (split_on (CHR 10) a)) (butlast (split_on (CHR 10) (a @ b)))"
  proof (induction a)
    case (Cons x a)
    then show ?case by (cases "split_on (CHR 10) a"; cases "split_on (CHR 10) (a @ b)") (auto split: if_splits)
  qed simp
  then show ?thesis unfolding complete_lines_def by (rule set_mono_prefix)
qed

lemma complete_lines_text:
  assumes "\<forall>e \<in> set es. plain_record e" "CHR 10 \<notin> set torn"
  shows "complete_lines (text_of es @ torn) = (\<lambda>e. join_elem (stringify (JObj e))) ` set es"
proof -
  have "split_on (CHR 10) (text_of es @ torn) = map (\<lambda>e. join_elem (stringify (JObj e))) es @ [torn]"
    using assms(1)
  proof (induction es)
    case (Cons e es)
    then show ?case using record_text(1) [of e] by (simp add: record_line_def split_on_append_sep del: stringify.simps)
  qed (simp add: split_on_single assms(2))
  then show ?thesis by (simp add: complete_lines_def del: stringify.simps)
qed

lemma complete_part_text: "CHR 10 \<notin> set torn \<Longrightarrow> complete_part (text_of es @ torn) = text_of es"
proof -
  assume "CHR 10 \<notin> set torn"
  then have "dropWhile (\<lambda>c. c \<noteq> CHR 10) (rev torn @ rev (text_of es)) = dropWhile (\<lambda>c. c \<noteq> CHR 10) (rev (text_of es))"
    by (intro dropWhile_append2) auto
  also have "\<dots> = rev (text_of es)" by (cases es rule: rev_cases) (simp_all add: record_line_def)
  finally show ?thesis by (simp add: complete_part_def)
qed

lemma signature_no_keys: "signature_ok no_keys e"
  by (auto simp: signature_ok_def signer_key_def no_keys_def split: option.split jval.split)

lemma parse_text:
  assumes "good_chain env es"
  shows "\<exists>rep. parseAuditChain env no_keys (text_of es) = Inr (es, rep) \<and> ar_ok rep \<and> ar_records rep = length es \<and> ar_headHash rep = head_hash JNull es"
proof -
  obtain rep where r: "parseAuditChain env no_keys (text_of es) = Inr (es, rep)" "ar_ok rep"
    using parse_okI [OF line_ended_text records_in_text, of es env no_keys] assms signature_no_keys by (auto simp: good_chain_def)
  with parse_okD [OF r] show ?thesis by auto
qed

definition good_event :: "jobject \<Rightarrow> bool" where
  "good_event ev \<longleftrightarrow> plain_record ev \<and> is_string (jget ev ''ts'') \<and> is_string (jget ev ''type'')"

lemma created_record:
  assumes "createAuditEnvelope env ev n prev native_source = Inr e" "good_event ev" "hash_value prev"
  shows "plain_record e \<and> record_ok env n prev e \<and> jget e ''event'' = JObj ev \<and> record_sequence e = n"
proof -
  have pv: "no_undef prev" "wf_json prev" using assms(3) by (auto simp: hash_value_def)
  have "plain_record e"
    using assms(1,2) pv by (auto simp: createAuditEnvelope_def plain_record_def good_event_def hash_input_def native_source_def Let_def
        split: if_splits option.splits prod.splits)
  moreover have f: "jget e ''schemaVersion'' = JNum 2" "jget e ''sequence'' = JNum n" "jget e ''previousHash'' = prev" "jget e ''event'' = JObj ev"
    "jget e ''source'' = native_source" "jget e ''recordHash'' = JStr (computeAuditRecordHash env (JNum n) prev (JObj ev) native_source)"
    using assms(1) by (auto simp: createAuditEnvelope_def hash_input_def jget_simps Let_def split: if_splits)
  moreover have "schema_ok e"
    using f assms(2) by (simp add: schema_ok_def good_event_def native_source_def jget_simps)
  ultimately show ?thesis by (simp add: record_ok_def envelope_hash_def record_sequence_def)
qed


section \<open>Every step keeps the invariant and the stored records\<close>

lemma files_ok_writes [simp]: "files_ok env (st\<lparr>af_writes := k\<rparr>) = files_ok env st"
  by (simp add: files_ok_def cache_ok_def clean_def live_text_def)

lemma files_ok_repairs [simp]: "files_ok env (st\<lparr>af_repairs := k\<rparr>) = files_ok env st"
  by (simp add: files_ok_def cache_ok_def clean_def live_text_def)

lemma files_ok_quarantine [simp]: "files_ok env (st\<lparr>af_quarantine := q\<rparr>) = files_ok env st"
  by (simp add: files_ok_def cache_ok_def clean_def live_text_def)

lemma stored_fields [simp]:
  "stored (st\<lparr>af_writes := k\<rparr>) = stored st" "stored (st\<lparr>af_repairs := k\<rparr>) = stored st" "stored (st\<lparr>af_quarantine := q\<rparr>) = stored st"
  "stored (st\<lparr>af_rotations := k\<rparr>) = stored st" "stored (drop_cache p st) = stored st" "stored (st\<lparr>af_caches := c\<rparr>) = stored st"
  by (simp_all add: stored_def live_text_def drop_cache_def fun_eq_iff)

lemma live_text_fields [simp]:
  "live_text (st\<lparr>af_writes := k\<rparr>) = live_text st" "live_text (st\<lparr>af_repairs := k\<rparr>) = live_text st"
  "live_text (st\<lparr>af_quarantine := q\<rparr>) = live_text st" "live_text (drop_cache p st) = live_text st"
  "live_text (st\<lparr>af_caches := c\<rparr>) = live_text st" "live_text (put_live env t st) = t"
  by (simp_all add: live_text_def drop_cache_def put_live_def)

lemma keeps_fields [simp]:
  "keeps_records st (st'\<lparr>af_writes := k\<rparr>) = keeps_records st st'" "keeps_records st (st'\<lparr>af_repairs := k\<rparr>) = keeps_records st st'"
  "keeps_records st (st'\<lparr>af_quarantine := q\<rparr>) = keeps_records st st'" "keeps_records st (drop_cache p st') = keeps_records st st'"
  "keeps_records st (st'\<lparr>af_caches := c\<rparr>) = keeps_records st st'"
  by (simp_all add: keeps_records_def)

lemma drop_cache_ok: "files_ok env st \<Longrightarrow> files_ok env (drop_cache p st)"
  by (auto simp: files_ok_def drop_cache_def cache_ok_def clean_def live_text_def)

lemma live_intact: "files_ok env st \<Longrightarrow> intact (fe_audit env) (live_text st)"
proof -
  have "intact (fe_audit env) []" by (auto simp: intact_def intro!: exI [of _ "[]"])
  then show "files_ok env st \<Longrightarrow> intact (fe_audit env) (live_text st)" by (auto simp: files_ok_def live_text_def split: option.splits)
qed

text \<open>A new text in the live file: the modification time is new, so no cached tail matches it.\<close>

lemma put_live_ok:
  assumes "files_ok env st" "file_env_ok env" "intact (fe_audit env) text"
  shows "files_ok env (put_live env text st)"
proof -
  have new: "fe_mtime env (af_mods st) \<noteq> fe_mtime env k" if "k < af_mods st" for k
    using assms(2) that by (auto simp: file_env_ok_def dest: injD)
  have "cache_ok env (put_live env text st) t" if "cache_ok env st t" for t
  proof -
    from that obtain k where k: "k < af_mods st" "tc_mtime t = fe_mtime env k" by (auto simp: cache_ok_def)
    with new [OF k(1)] show ?thesis by (auto simp: cache_ok_def put_live_def intro: less_SucI)
  qed
  with assms(1,3) show ?thesis by (auto simp: files_ok_def put_live_def)
qed

lemma put_live_keeps: "complete_lines (live_text st) \<subseteq> complete_lines text \<Longrightarrow> keeps_records st (put_live env text st)"
  by (auto simp: keeps_records_def stored_def put_live_def live_text_def)

lemma cached_tail_ok:
  assumes "files_ok env st" "af_live st = Some (raw, mt)" "clean env st es"
    and "tc_sequence t = int (length es)" "tc_recordHash t = head_hash JNull es" "tc_mtime t = mt"
  shows "files_ok env (st\<lparr>af_caches := (af_caches st)(p := Some t)\<rparr>)"
proof -
  have "cache_ok env st t" using assms by (auto simp: cache_ok_def files_ok_def)
  then have "cache_ok env (st\<lparr>af_caches := (af_caches st)(p := Some t)\<rparr>) u" if "u = t \<or> cache_ok env st u" for u
    using that by (auto simp: cache_ok_def clean_def)
  with assms(1) show ?thesis by (auto simp: files_ok_def split: if_splits)
qed

lemma clean_intact: "clean env st es \<Longrightarrow> af_live st = Some (raw, mt) \<Longrightarrow> raw = text_of es"
  by (simp add: clean_def live_text_def)

text \<open>After the repair the file ends with a complete record.\<close>

lemma repair_ok:
  assumes "files_ok env st" "file_env_ok env" "repairTornTail env p st = (r, st')"
  shows "files_ok env st' \<and> keeps_records st st' \<and> (\<forall>b. r = Inr b \<longrightarrow> (\<exists>es. clean env st' es))"
proof (cases "af_live st = None \<or> live_text st = [] \<or> last (live_text st) = CHR 10")
  case True
  with assms(3) have st': "st' = st" by (auto simp: repairTornTail_def live_text_def split: option.splits)
  from live_intact [OF assms(1)] obtain es torn where t: "live_text st = text_of es @ torn" "CHR 10 \<notin> set torn" "good_chain (fe_audit env) es"
    by (auto simp: intact_def)
  have "torn = []"
  proof (rule ccontr)
    assume ne: "torn \<noteq> []"
    then have "last (live_text st) = last torn" "live_text st \<noteq> []" by (simp_all add: t)
    then show False using True ne t(2) by (metis last_in_set live_text_def option.case(1))
  qed
  with t have "clean env st es" by (simp add: clean_def)
  with assms(1) st' show ?thesis by auto
next
  case False
  then obtain raw mt where raw: "af_live st = Some (raw, mt)" "live_text st = raw" "raw \<noteq> []" "last raw \<noteq> CHR 10"
    by (auto simp: live_text_def split: option.splits)
  from live_intact [OF assms(1)] raw(2) obtain es torn where t: "raw = text_of es @ torn" "CHR 10 \<notin> set torn" "good_chain (fe_audit env) es"
    by (auto simp: intact_def)
  obtain rep where rep: "parseAuditChain (fe_audit env) no_keys (text_of es) = Inr (es, rep)" "ar_ok rep" "ar_records rep = length es"
      "ar_headHash rep = head_hash JNull es" using parse_text [OF t(3)] by blast
  let ?k = "af_repairs st"
  let ?name = "''audit.v2.torn-'' @ fe_torn env ?k @ ''.jsonl''"
  let ?ev = "repair_event (fe_ts env ?k) ?name (byte_length torn) (head_hash JNull es)"
  let ?st2 = "st\<lparr>af_repairs := Suc ?k, af_quarantine := AList.update (fe_torn env ?k) torn (af_quarantine st)\<rparr>"
  have hv: "hash_value (head_hash JNull es)" using good_chain_hash [OF t(3)] .
  then have ev: "good_event ?ev" by (auto simp: good_event_def plain_record_def repair_event_def jget_simps hash_value_def)
  show ?thesis
  proof (cases "createAuditEnvelope (fe_audit env) ?ev (int (length es) + 1) (head_hash JNull es) native_source")
    case (Inl x)
    with assms(1,3) raw t rep show ?thesis
      by (auto simp: repairTornTail_def complete_part_text Let_def split: if_splits)
  next
    case (Inr m)
    note m = created_record [OF Inr ev hv]
    have chain: "good_chain (fe_audit env) (es @ [m])" using good_chain_snoc [OF t(3), of m] m by (simp add: add.commute)
    let ?text = "text_of es @ record_line m"
    have int: "intact (fe_audit env) ?text" unfolding intact_def by (rule exI [of _ "es @ [m]"], rule exI [of _ "[]"]) (simp add: chain)
    have ok3: "files_ok env (put_live env ?text ?st2)" by (rule put_live_ok) (use assms(1,2) int in simp_all)
    have "complete_lines (live_text ?st2) \<subseteq> complete_lines ?text"
      using complete_lines_text [of es torn] complete_lines_text [of es "[]"] t raw(2) complete_lines_append [of "text_of es" "record_line m"]
      by (auto simp: good_chain_def)
    from put_live_keeps [OF this, of env] have k3: "keeps_records st (put_live env ?text ?st2)" by (simp add: keeps_records_def)
    have cl: "clean env (drop_cache p (put_live env ?text ?st2)) (es @ [m])" using chain by (simp add: clean_def)
    show ?thesis
      using assms(1,3) raw t rep Inr ok3 k3 drop_cache_ok [OF ok3, of p] cl
      by (auto simp: repairTornTail_def complete_part_text Let_def split: if_splits)
  qed
qed

lemma rotate_ok:
  assumes "files_ok env st" "file_env_ok env" "clean env st es" "rotateIfOversized env p st = (r, st')"
  shows "files_ok env st' \<and> keeps_records st st' \<and> (\<forall>u. r = Inr u \<longrightarrow> (\<exists>es. clean env st' es))"
proof (cases "af_live st")
  case None
  with assms show ?thesis by (auto simp: rotateIfOversized_def)
next
  case (Some l)
  then obtain raw mt where raw: "af_live st = Some (raw, mt)" by (cases l) auto
  let ?k = "af_rotations st"
  let ?st1 = "st\<lparr>af_rotations := Suc ?k\<rparr>"
  let ?st2 = "?st1\<lparr>af_live := None, af_archives := AList.update (fe_rotated env ?k) raw (af_archives ?st1)\<rparr>"
  have ok1: "files_ok env ?st1" using assms(1) by (auto simp: files_ok_def cache_ok_def clean_def live_text_def less_Suc_eq)
  have new: "fe_rotated env ?k \<notin> fst ` set (af_archives st)"
    using assms(1,2) by (auto simp: files_ok_def file_env_ok_def dest: injD)
  then have upd: "AList.update (fe_rotated env ?k) x (af_archives st) = af_archives st @ [(fe_rotated env ?k, x)]" for x
    using update_new by simp
  have content: "raw = text_of es" "good_chain (fe_audit env) es" using assms(3) raw by (simp_all add: clean_def live_text_def)
  have "cache_ok env ?st2 t" if "cache_ok env st t" for t using that by (auto simp: cache_ok_def)
  then have ok2: "files_ok env ?st2" using assms(1) content by (auto simp: files_ok_def upd less_Suc_eq)
  have k2: "keeps_records st ?st2" using raw by (auto simp: keeps_records_def stored_def live_text_def upd)
  have "clean env (drop_cache p ?st2) []" by (simp add: clean_def drop_cache_def live_text_def)
  with assms ok1 ok2 k2 drop_cache_ok [OF ok2, of p] raw show ?thesis
    by (auto simp: rotateIfOversized_def Let_def keeps_records_def split: if_splits)
qed

lemma tail_ok:
  assumes "files_ok env st" "clean env st es" "readTailForAppend env p st = (r, st')"
  shows "r = Inr (int (length es), head_hash JNull es) \<and> files_ok env st' \<and> stored st' = stored st \<and> clean env st' es \<and>
    af_live st' = af_live st \<and> af_writes st' = af_writes st"
proof (cases "af_live st")
  case None
  then have es: "es = []" using assms(2) by (cases es) (auto simp: clean_def live_text_def record_line_def)
  with assms None drop_cache_ok [OF assms(1), of p] show ?thesis
    by (auto simp: readTailForAppend_def head_hash_def clean_def) (simp_all add: drop_cache_def)
next
  case (Some l)
  then obtain raw mt where raw: "af_live st = Some (raw, mt)" by (cases l) auto
  have content: "raw = text_of es" "good_chain (fe_audit env) es" using assms(2) raw by (simp_all add: clean_def live_text_def)
  show ?thesis
  proof (cases "cache_hit p raw mt st")
    case (Some t)
    then have t: "af_caches st p = Some t" "tc_mtime t = mt" by (auto simp: cache_hit_def split: option.splits if_splits)
    from assms(1) t(1) have "cache_ok env st t" by (simp add: files_ok_def)
    then obtain fs where fs: "clean env st fs" "tc_sequence t = int (length fs)" "tc_recordHash t = head_hash JNull fs"
      using raw t(2) by (auto simp: cache_ok_def)
    have "fs = es" using fs(1) assms(2) records_in_text [of fs] records_in_text [of es] records_in_unique
      by (auto simp: clean_def good_chain_def)
    with fs assms raw Some show ?thesis by (auto simp: readTailForAppend_def)
  next
    case None
    obtain rep where rep: "parseAuditChain (fe_audit env) no_keys raw = Inr (es, rep)" "ar_ok rep" using parse_text [OF content(2)] content(1) by blast
    let ?t = "tail_of es (byte_length raw) mt"
    have t: "tc_sequence ?t = int (length es)" "tc_recordHash ?t = head_hash JNull es" "tc_mtime ?t = mt"
    proof -
      have "record_sequence (last es) = int (length es) \<and> (\<exists>h. jget (last es) ''recordHash'' = JStr h)" if "es \<noteq> []"
        using that content(2) by (cases es rule: rev_cases) (auto simp: good_chain_def chain_ok_append record_ok_def record_sequence_def)
      then show "tc_sequence ?t = int (length es)" "tc_recordHash ?t = head_hash JNull es" "tc_mtime ?t = mt"
        by (cases "es = []"; auto simp: tail_of_def head_hash_def js_or_else_def)+
    qed
    from cached_tail_ok [OF assms(1) raw assms(2) t] have "files_ok env (st\<lparr>af_caches := (af_caches st)(p := Some ?t)\<rparr>)" .
    with assms raw None rep t show ?thesis by (auto simp: readTailForAppend_def Let_def clean_def)
  qed
qed

text \<open>What an interrupted write leaves.\<close>

lemma partial_line:
  assumes "good_chain env es" "good_chain env (es @ [e])"
  shows "intact env (text_of es @ take n (record_line e))"
proof (cases "n \<le> length (join_elem (stringify (JObj e)))")
  case True
  then have "take n (record_line e) = take n (join_elem (stringify (JObj e)))" by (simp add: record_line_def del: stringify.simps)
  moreover have "CHR 10 \<notin> set (take n (join_elem (stringify (JObj e))))"
    using record_text(1) [of e] assms(2) by (auto simp: good_chain_def dest: in_set_takeD simp del: stringify.simps)
  ultimately show ?thesis using assms(1) by (auto simp: intact_def simp del: stringify.simps)
next
  case False
  then have "take n (record_line e) = record_line e" by (simp add: record_line_def del: stringify.simps)
  then have "text_of es @ take n (record_line e) = text_of (es @ [e]) @ []" by simp
  then show ?thesis using assms(2) unfolding intact_def by (intro exI [of _ "es @ [e]"] exI [of _ "[]"]) simp
qed

lemma write_ok:
  assumes "files_ok env st" "file_env_ok env" "clean env st es" "good_chain (fe_audit env) (es @ [e])"
    and "write_line env p (record_line e) st = (r, st')"
  shows "files_ok env st' \<and> keeps_records st st' \<and> (\<forall>u. r = Inr u \<longrightarrow> clean env st' (es @ [e]) \<and> af_live st' \<noteq> None)"
proof -
  let ?st1 = "st\<lparr>af_writes := Suc (af_writes st)\<rparr>"
  have c: "live_text st = text_of es" "good_chain (fe_audit env) es" using assms(3) by (simp_all add: clean_def)
  have put: "files_ok env (put_live env (live_text st @ take n (record_line e)) ?st1)" for n
    by (rule put_live_ok) (use assms(1,2) partial_line [OF c(2) assms(4)] c(1) in simp_all)
  have keep: "keeps_records st (put_live env (live_text st @ x) ?st1)" for x
    using put_live_keeps [of ?st1 "live_text st @ x" env] complete_lines_append [of "live_text st" x] by (simp add: keeps_records_def)
  show ?thesis
  proof (cases "fe_write env (af_writes st)")
    case Written
    have "files_ok env (put_live env (live_text st @ record_line e) ?st1)" using put [of "length (record_line e)"] by simp
    with assms(4,5) Written keep c show ?thesis by (auto simp: write_line_def Let_def clean_def put_live_def live_text_def)
  next
    case (Interrupted n died)
    let ?st2 = "if n = 0 then ?st1 else put_live env (live_text st @ take n (record_line e)) ?st1"
    have "files_ok env ?st2 \<and> keeps_records st ?st2" using put [of n] keep assms(1) by simp
    moreover have "r = Inl (StoreError ''The audit record could not be written.'')" "st' = (if died then drop_cache p ?st2 else ?st2)"
      using assms(5) Interrupted by (simp_all add: write_line_def Let_def)
    ultimately show ?thesis using drop_cache_ok [of env ?st2 p] by (cases died) auto
  qed
qed

lemma remember_ok:
  assumes "files_ok env st" "clean env st (es @ [e])" "remember_tail p e st = (r, st')"
  shows "r = Inr () \<and> files_ok env st' \<and> stored st' = stored st \<and> clean env st' (es @ [e])"
proof (cases "af_live st")
  case None
  with assms show ?thesis by (simp add: remember_tail_def)
next
  case (Some l)
  then obtain raw mt where raw: "af_live st = Some (raw, mt)" by (cases l) auto
  have r: "record_ok (fe_audit env) (1 + int (length es)) (head_hash JNull es) e"
    using assms(2) by (simp add: clean_def good_chain_def chain_ok_append)
  let ?t = "\<lparr>tc_sequence = record_sequence e, tc_recordHash = jget e ''recordHash'', tc_size = byte_length raw, tc_mtime = mt\<rparr>"
  have "files_ok env (st\<lparr>af_caches := (af_caches st)(p := Some ?t)\<rparr>)"
    by (rule cached_tail_ok [OF assms(1) raw assms(2)]) (use r in \<open>simp_all add: record_ok_def record_sequence_def head_hash_def\<close>)
  with assms raw show ?thesis by (auto simp: remember_tail_def clean_def)
qed

lemma append_ok:
  assumes "files_ok env st" "file_env_ok env" "good_event ev" "append_S env p ev st = (r, st')"
  shows "files_ok env st' \<and> keeps_records st st' \<and>
    (\<forall>e. r = Inr e \<longrightarrow> jget e ''event'' = JObj ev \<and> (\<exists>es. clean env st' (es @ [e])))"
proof -
  obtain r1 s1 where a1: "repairTornTail env p st = (r1, s1)" by (cases "repairTornTail env p st") auto
  note k1 = repair_ok [OF assms(1,2) a1]
  show ?thesis
  proof (cases r1)
    case (Inl x)
    with k1 a1 assms(4) show ?thesis by (auto simp: append_S_def bindA_def)
  next
    case (Inr b)
    with k1 obtain es1 where c1: "files_ok env s1" "keeps_records st s1" "clean env s1 es1" by auto
    obtain r2 s2 where a2: "rotateIfOversized env p s1 = (r2, s2)" by (cases "rotateIfOversized env p s1") auto
    note k2 = rotate_ok [OF c1(1) assms(2) c1(3) a2]
    show ?thesis
    proof (cases r2)
      case (Inl x)
      with k2 a1 a2 c1 Inr assms(4) keeps_trans show ?thesis by (auto simp: append_S_def bindA_def)
    next
      case (Inr u)
      with k2 obtain es where c2: "files_ok env s2" "keeps_records s1 s2" "clean env s2 es" by auto
      obtain r3 s3 where a3: "readTailForAppend env p s2 = (r3, s3)" by (cases "readTailForAppend env p s2") auto
      note k3 = tail_ok [OF c2(1,3) a3]
      have keep3: "keeps_records st s3" using c1(2) c2(2) k3 by (simp add: keeps_records_def)
      have good: "good_chain (fe_audit env) es" using c2(3) by (simp add: clean_def)
      note hv = good_chain_hash [OF good]
      show ?thesis
      proof (cases "createAuditEnvelope (fe_audit env) ev (int (length es) + 1) (head_hash JNull es) native_source")
        case (Inl x)
        with k3 keep3 a1 a2 a3 \<open>r1 = Inr b\<close> Inr assms(4) show ?thesis by (auto simp: append_S_def bindA_def liftR_def)
      next
        case e: (Inr e)
        note m = created_record [OF e assms(3) hv]
        have chain: "good_chain (fe_audit env) (es @ [e])" using good_chain_snoc [OF good, of e] m by (simp add: add.commute)
        obtain r4 s4 where a4: "write_line env p (record_line e) s3 = (r4, s4)" by (cases "write_line env p (record_line e) s3") auto
        note k4 = write_ok [OF conjunct1 [OF conjunct2 [OF k3]] assms(2) _ chain a4]
        have keep4: "files_ok env s4" "keeps_records st s4" using k4 k3 keeps_trans [OF keep3, of s4] by auto
        show ?thesis
        proof (cases r4)
          case (Inl x)
          with keep4 k3 a1 a2 a3 a4 e \<open>r1 = Inr b\<close> Inr assms(4) show ?thesis by (auto simp: append_S_def bindA_def liftR_def)
        next
          case r4: (Inr u4)
          with k4 k3 have c4: "clean env s4 (es @ [e])" by auto
          obtain r5 s5 where a5: "remember_tail p e s4 = (r5, s5)" by (cases "remember_tail p e s4") auto
          from remember_ok [OF keep4(1) c4 a5] m keep4 k3 a1 a2 a3 a4 a5 e r4 \<open>r1 = Inr b\<close> Inr assms(4) show ?thesis
            by (auto simp: append_S_def bindA_def liftR_def retA_def keeps_records_def)
        qed
      qed
    qed
  qed
qed

lemma preflight_ok:
  assumes "files_ok env st" "file_env_ok env" "store_preflight env p st = (r, st')"
  shows "files_ok env st' \<and> keeps_records st st'"
proof -
  obtain r1 s1 where a1: "repairTornTail env p st = (r1, s1)" by (cases "repairTornTail env p st") auto
  note k1 = repair_ok [OF assms(1,2) a1]
  let ?s2 = "if af_live s1 = None then put_live env [] s1 else s1"
  have "intact (fe_audit env) []" by (auto simp: intact_def intro!: exI [of _ "[]"])
  then have "files_ok env ?s2" using k1 put_live_ok [of env s1 "[]"] assms(2) by simp
  moreover have "keeps_records s1 ?s2" using put_live_keeps [of s1 "[]" env] by (auto simp: live_text_def)
  moreover have "st' = s1 \<or> st' = ?s2"
    using assms(3) a1 by (cases r1) (auto simp: store_preflight_def bindA_def modifyA_def split: sum.splits if_splits)
  ultimately show ?thesis using k1 keeps_trans by auto
qed

fun good_op :: "audit_op \<Rightarrow> bool" where
  "good_op (AuAppend p ev) = good_event ev"
| "good_op op = True"

lemma au_do_ok:
  assumes "files_ok env st" "file_env_ok env" "good_op op"
  shows "files_ok env (au_do env op st) \<and> keeps_records st (au_do env op st)"
proof (cases op)
  case (AuAppend p ev)
  obtain r st' where "append_S env p ev st = (r, st')" by (cases "append_S env p ev st") auto
  with append_ok [OF assms(1,2)] assms(3) AuAppend show ?thesis by simp
next
  case (AuPreflight p)
  obtain r st' where "store_preflight env p st = (r, st')" by (cases "store_preflight env p st") auto
  with preflight_ok [OF assms(1,2)] AuPreflight show ?thesis by simp
next
  case (AuExit p)
  with drop_cache_ok [OF assms(1)] show ?thesis by simp
qed

lemma run_ok:
  "file_env_ok env \<Longrightarrow> \<forall>op \<in> set ops. good_op op \<Longrightarrow> files_ok env st \<Longrightarrow>
     files_ok env (fold (au_do env) ops st) \<and> keeps_records st (fold (au_do env) ops st)"
proof (induction ops arbitrary: st)
  case (Cons op ops)
  have s: "files_ok env (au_do env op st)" "keeps_records st (au_do env op st)" using au_do_ok [of env st op] Cons.prems by auto
  from Cons.IH [OF Cons.prems(1) _ s(1)] Cons.prems(2) s(2) keeps_trans show ?case by auto
qed simp

lemma no_files_ok: "files_ok env no_files"
  by (simp add: files_ok_def no_files_def)


section \<open>Properties\<close>




text \<open>Beyond the size budget the file is rotated before it is looked at: an append on a damaged file succeeds and
  starts a new chain.\<close>

theorem oversized_chain_is_rotated_unverified:
  assumes "af_live st = Some (raw, mt)" "raw \<noteq> []" "last raw = CHR 10" "fe_maxFileBytes env < byte_length raw"
    and "fe_rename env (af_rotations st)" "fe_write env (af_writes st) = Written"
  shows "\<exists>e st'. append_S env p ev st = (Inr e, st') \<and> jget e ''sequence'' = JNum 1 \<and> live_text st' = record_line e"
proof -
  let ?st2 = "drop_cache p (st\<lparr>af_rotations := Suc (af_rotations st), af_live := None,
      af_archives := AList.update (fe_rotated env (af_rotations st)) raw (af_archives st)\<rparr>)"
  have 1: "repairTornTail env p st = (Inr False, st)" using assms(1-3) by (simp add: repairTornTail_def)
  have 2: "rotateIfOversized env p st = (Inr (), ?st2)" using assms(1,4,5) by (simp add: rotateIfOversized_def Let_def)
  have 3: "readTailForAppend env p ?st2 = (Inr (0, JNull), ?st2)" by (simp add: readTailForAppend_def drop_cache_def)
  obtain e where e: "createAuditEnvelope (fe_audit env) ev 1 JNull native_source = Inr e" "jget e ''sequence'' = JNum 1"
    by (auto simp: createAuditEnvelope_def is_safe_integer_def MAX_SAFE_INTEGER_def Let_def hash_input_def jget_simps)
  obtain st3 where 4: "write_line env p (record_line e) ?st2 = (Inr (), st3)" "live_text st3 = record_line e"
    using assms(6) by (simp add: write_line_def Let_def drop_cache_def) (simp add: live_text_def put_live_def)
  obtain st4 where 5: "remember_tail p e st3 = (Inr (), st4)" "live_text st4 = live_text st3"
    by (cases "af_live st3") (auto simp: remember_tail_def)
  show ?thesis using 1 2 3 e 4 5 by (simp add: append_S_def bindA_def liftR_def retA_def)
qed

lemma repair_keeps_writes: "af_writes (snd (repairTornTail env p st)) = af_writes st"
  by (auto simp: repairTornTail_def put_live_def drop_cache_def Let_def split: option.split prod.split sum.split)

lemma rotate_keeps_writes: "af_writes (snd (rotateIfOversized env p st)) = af_writes st"
  by (auto simp: rotateIfOversized_def drop_cache_def Let_def split: option.split prod.split)

lemma repair_total:
  assumes "files_ok env st" "\<And>k. fe_repair env k = Repaired" "int (length (live_text st)) < 9007199254740989"
  shows "\<exists>b. fst (repairTornTail env p st) = Inr b"
proof (cases "live_text st = [] \<or> last (live_text st) = CHR 10")
  case True
  then show ?thesis by (auto simp: repairTornTail_def live_text_def split: option.split)
next
  case False
  from live_intact [OF assms(1)] obtain es torn where t: "live_text st = text_of es @ torn" "CHR 10 \<notin> set torn" "good_chain (fe_audit env) es"
    by (auto simp: intact_def)
  have "length es \<le> length (text_of es)" by (induction es) (auto simp: record_line_def)
  then have "int (length es) + 1 \<le> MAX_SAFE_INTEGER" using assms(3) t(1) by (simp add: MAX_SAFE_INTEGER_def)
  with parse_text [OF t(3)] t False assms(2) show ?thesis
    by (auto simp: repairTornTail_def live_text_def Let_def complete_part_text createAuditEnvelope_def is_safe_integer_def split: option.splits)
qed


section \<open>A concrete run\<close>

text \<open>Process 0 appends a record; process 1 dies after ten characters of its own; process 0 appends again: the torn
  tail is quarantined, and the marker and the new record follow the first one.\<close>

definition demo_files_env :: file_env where
  "demo_files_env = \<lparr>fe_audit = demo_audit, fe_maxFileBytes = 100000, fe_mtime = int, fe_rotated = show_nat, fe_torn = show_nat,
     fe_ts = (\<lambda>k. ''t''), fe_write = (\<lambda>k. if k = 1 then Interrupted 10 True else Written), fe_repair = (\<lambda>k. Repaired), fe_rename = (\<lambda>k. True)\<rparr>"

lemma demo_files_env_ok: "file_env_ok demo_files_env"
  by (simp add: file_env_ok_def demo_files_env_def inj_def show_nat_inj)

lemma demo_good: "good_event (demo_audit_event s)"
  by (simp add: good_event_def plain_record_def demo_audit_event_def jget_simps)

lemma demo_append:
  "append_S demo_files_env 0 (demo_audit_event ''a'') no_files =
     (Inr demo_record, (put_live demo_files_env (record_line demo_record) (no_files\<lparr>af_writes := 1\<rparr>))\<lparr>af_caches := (\<lambda>_. None)(0 := Some
       \<lparr>tc_sequence = 1, tc_recordHash = JStr ''sha256:134'', tc_size = byte_length (record_line demo_record), tc_mtime = 0\<rparr>)\<rparr>)"
proof -
  have e: "createAuditEnvelope demo_audit (demo_audit_event ''a'') 1 JNull native_source = Inr demo_record" by code_simp
  have f: "record_sequence demo_record = 1" "jget demo_record ''recordHash'' = JStr ''sha256:134''" by code_simp+
  show ?thesis
    by (simp add: append_S_def bindA_def liftR_def retA_def repairTornTail_def rotateIfOversized_def readTailForAppend_def no_files_def
        drop_cache_def write_line_def remember_tail_def live_text_def put_live_def demo_files_env_def e f)
qed




text \<open>A file with one line that is not a record.\<close>

definition demo_damaged :: audit_files where
  "demo_damaged = put_live demo_files_env ''x\<newline>'' no_files"


text \<open>An undefined entry in the detail of an event is hashed as null and written as nothing, so the stored record
  does not verify.\<close>

theorem undefined_detail_breaks_the_chain:
  "(case createAuditEnvelope demo_audit (demo_audit_event ''a'' @ [(''detail'', JObj [(''binding'', JUndef)])]) 1 JNull native_source of
      Inl err \<Rightarrow> False
    | Inr e \<Rightarrow> (case verifyAuditChain demo_audit no_keys (record_line e) of Inl err \<Rightarrow> False | Inr rep \<Rightarrow> \<not> ar_ok rep))"
  by code_simp

end
