(* ===== verification/FF_WorkflowDef.thy ===== *)
theory FF_WorkflowDef
  imports FF_JsonParse
begin

text \<open>
  \<^verbatim>\<open>src/workflows/workflow-manager.ts\<close>, the definitions of workflows: \<^verbatim>\<open>validateWorkflowDefinition\<close>, which an
  untrusted value must pass before it is stored, with its search for dependency cycles.

  A definition stays the JSON value it came as; its fields are read with \<open>jprop\<close>.  Ids are compared by value
  (a one-element array, whose text may also pass the id pattern, would be compared by reference).
  The set of available tools is the parameter \<open>available\<close>.
\<close>

section \<open>Limits\<close>

definition MAX_STEPS :: nat where "MAX_STEPS = 50"
definition MAX_DEFINITION_BYTES :: nat where "MAX_DEFINITION_BYTES = 256000"
definition MAX_STEP_ARGS_BYTES :: nat where "MAX_STEP_ARGS_BYTES = 64000"

text \<open>\<^verbatim>\<open>/^[a-z][a-z0-9_-]{0,62}$/i\<close>\<close>

definition id_pattern :: "string \<Rightarrow> bool" where
  "id_pattern s = (case s of [] \<Rightarrow> False
     | c # cs \<Rightarrow> (is_lower c \<or> is_upper c) \<and> length cs \<le> 62 \<and> list_all (\<lambda>d. is_word d \<or> d = CHR ''-'') cs)"

section \<open>Roles\<close>

fun check_tools :: "string list \<Rightarrow> string \<Rightarrow> jval list \<Rightarrow> unit result" where
  "check_tools available name [] = Inr ()"
| "check_tools available name (t # ts) =
     (case t of
        JStr tool \<Rightarrow>
          if starts_with ''workflow_'' tool then throws (''Role '' @ name @ '' contains an invalid or recursive tool: '' @ tool)
          else if tool \<notin> set available then throws (''Role '' @ name @ '' references unknown tool: '' @ tool)
          else check_tools available name ts
      | _ \<Rightarrow> throws (''Role '' @ name @ '' contains an invalid or recursive tool: '' @ js_String t))"

fun check_roles :: "string list \<Rightarrow> jobject \<Rightarrow> unit result" where
  "check_roles available [] = Inr ()"
| "check_roles available ((name, role) # rest) =
     (if \<not> id_pattern name then throws (''Invalid workflow role: '' @ name)
      else case jprop role ''allowedTools'' of
        JArr (t # ts) \<Rightarrow> bindR (check_tools available name (t # ts)) (\<lambda>_. check_roles available rest)
      | _ \<Rightarrow> throws (''Role '' @ name @ '' must declare allowedTools.''))"

section \<open>Steps\<close>

definition step_id :: "jval \<Rightarrow> jval" where
  "step_id step = jprop step ''id''"

definition role_tools :: "jval \<Rightarrow> string \<Rightarrow> jval list" where
  "role_tools d role = jitems (jprop (jprop (jprop d ''roles'') role) ''allowedTools'')"

definition check_step :: "jval \<Rightarrow> string list \<Rightarrow> jval list \<Rightarrow> jval \<Rightarrow> unit result" where
  "check_step d available ids step =
     (let i = step_id step; n = js_String i in
      bindR (guardR (case step of JObj _ \<Rightarrow> True | JArr _ \<Rightarrow> True | _ \<Rightarrow> False)
        (PlainError ''Each workflow step must be an object.'')) (\<lambda>_.
      bindR (guardR (id_pattern n) (PlainError (''Invalid workflow step id: '' @ n))) (\<lambda>_.
      bindR (guardR (i \<notin> set ids) (PlainError (''Duplicate workflow step id: '' @ n))) (\<lambda>_.
      case jprop step ''role'' of
        JStr role \<Rightarrow>
          bindR (guardR (role \<in> fst ` set (jentries (jprop d ''roles'')))
            (PlainError (''Step '' @ n @ '' references unknown role: '' @ role))) (\<lambda>_.
          case jprop step ''tool'' of
            JStr tool \<Rightarrow>
              bindR (guardR (tool \<in> set available \<and> \<not> starts_with ''workflow_'' tool)
                (PlainError (''Step '' @ n @ '' references unknown or recursive tool: '' @ tool))) (\<lambda>_.
              bindR (guardR (JStr tool \<in> set (role_tools d role))
                (PlainError (''Role '' @ role @ '' is not allowed to call '' @ tool @ '' (step '' @ n @ '').''))) (\<lambda>_.
              bindR (guardR (json_bytes (js_or_else (jprop step ''args'') (JObj [])) \<le> MAX_STEP_ARGS_BYTES)
                (PlainError (''Step '' @ n @ '' args exceed 64000 bytes.''))) (\<lambda>_.
              guardR (js_truthy (jprop step ''expect'') \<longrightarrow> is_string (jprop (jprop step ''expect'') ''path''))
                (PlainError (''Step '' @ n @ '' expectation requires a path.'')))))
          | v \<Rightarrow> throws (''Step '' @ n @ '' references unknown or recursive tool: '' @ js_String v))
      | v \<Rightarrow> throws (''Step '' @ n @ '' references unknown role: '' @ js_String v)))))"

text \<open>The ids in the order of the steps.\<close>

fun check_steps :: "jval \<Rightarrow> string list \<Rightarrow> jval list \<Rightarrow> jval list \<Rightarrow> jval list result" where
  "check_steps d available ids [] = Inr ids"
| "check_steps d available ids (step # rest) =
     bindR (check_step d available ids step) (\<lambda>_. check_steps d available (ids @ [step_id step]) rest)"

section \<open>Dependencies\<close>

text \<open>\<^verbatim>\<open>step.dependsOn ?? []\<close> as the loop \<^verbatim>\<open>for (const dep of deps)\<close> sees it: a text is iterated by its characters,
  a value that is not iterable throws.\<close>

definition dep_items :: "jval \<Rightarrow> jval list result" where
  "dep_items step =
     (case jprop step ''dependsOn'' of
        JUndef \<Rightarrow> Inr [] | JNull \<Rightarrow> Inr [] | JArr deps \<Rightarrow> Inr deps
      | JStr s \<Rightarrow> Inr (map (\<lambda>c. JStr [c]) s)
      | _ \<Rightarrow> throws ''deps is not iterable'')"

fun check_deps :: "jval list \<Rightarrow> jval \<Rightarrow> jval list \<Rightarrow> unit result" where
  "check_deps ids i [] = Inr ()"
| "check_deps ids i (dep # deps) =
     (if dep \<notin> set ids then throws (''Step '' @ js_String i @ '' depends on unknown step: '' @ js_String dep)
      else if dep = i then throws (''Step '' @ js_String i @ '' cannot depend on itself.'')
      else check_deps ids i deps)"

type_synonym dep_graph = "(jval \<times> jval list) list"

fun step_graph :: "jval list \<Rightarrow> jval list \<Rightarrow> dep_graph result" where
  "step_graph ids [] = Inr []"
| "step_graph ids (step # rest) =
     bindR (dep_items step) (\<lambda>deps.
     bindR (check_deps ids (step_id step) deps) (\<lambda>_.
     bindR (step_graph ids rest) (\<lambda>g. Inr ((step_id step, deps) # g))))"

definition succs :: "dep_graph \<Rightarrow> jval \<Rightarrow> jval list" where
  "succs g i = (case map_of g i of None \<Rightarrow> [] | Some deps \<Rightarrow> deps)"

text \<open>\<^verbatim>\<open>for (const id of ids) visit(id)\<close>: \<open>visiting\<close> is the path to the nodes of the list, \<open>visited\<close> the nodes that
  are finished, the last first.  The recursion ends because a node is added to the path only once.\<close>

lemma succs_no_key: "x \<notin> fst ` set g \<Longrightarrow> succs g x = []"
  by (simp add: succs_def map_of_eq_None_iff [symmetric])

function visit_all :: "dep_graph \<Rightarrow> jval list \<Rightarrow> jval list \<Rightarrow> jval list \<Rightarrow> jval list result" where
  "visit_all g visiting [] visited = Inr visited"
| "visit_all g visiting (i # rest) visited =
     (if i \<in> set visiting then throws (''Workflow dependency cycle detected at '' @ js_String i @ ''.'')
      else if i \<in> set visited then visit_all g visiting rest visited
      else bindR (visit_all g (i # visiting) (succs g i) visited) (\<lambda>visited'.
           visit_all g visiting rest (i # visited')))"
  by pat_completeness auto

termination
proof (relation "measures [\<lambda>(g, vg, xs, vd). card (fst ` set g - set vg), \<lambda>(g, vg, xs, vd). length xs]", goal_cases)
  case (3 g vg i rest vd)
  show ?case
  proof (cases "i \<in> fst ` set g")
    case True
    then have "fst ` set g - set (i # vg) \<subset> fst ` set g - set vg" using 3 by auto
    then have "card (fst ` set g - set (i # vg)) < card (fst ` set g - set vg)"
      by (intro psubset_card_mono) auto
    then show ?thesis by simp
  next
    case False
    then have "fst ` set g - set (i # vg) = fst ` set g - set vg" by auto
    with False show ?thesis by (simp add: succs_no_key)
  qed
qed auto

section \<open>Validation\<close>

definition validateWorkflowDefinition :: "jval \<Rightarrow> string list \<Rightarrow> jval result" where
  "validateWorkflowDefinition d available =
     (case d of
        JObj _ \<Rightarrow>
          bindR (guardR (case jprop d ''name'' of JStr s \<Rightarrow> js_trim s \<noteq> [] | _ \<Rightarrow> False)
            (PlainError ''definition.name is required.'')) (\<lambda>_.
          bindR (guardR (is_object (jprop d ''roles'')) (PlainError ''definition.roles must be an object.'')) (\<lambda>_.
          bindR (guardR (case jprop d ''steps'' of JArr ss \<Rightarrow> 1 \<le> length ss \<and> length ss \<le> MAX_STEPS | _ \<Rightarrow> False)
            (PlainError ''definition.steps must contain 1-50 steps.'')) (\<lambda>_.
          bindR (guardR (json_bytes d \<le> MAX_DEFINITION_BYTES)
            (PlainError ''Workflow definition exceeds 256000 bytes.'')) (\<lambda>_.
          bindR (check_roles available (jentries (jprop d ''roles''))) (\<lambda>_.
          bindR (check_steps d available [] (jitems (jprop d ''steps''))) (\<lambda>ids.
          bindR (step_graph ids (jitems (jprop d ''steps''))) (\<lambda>g.
          bindR (visit_all g [] ids []) (\<lambda>_.
          Inr (json_copy d)))))))))
      | _ \<Rightarrow> throws ''definition must be an object.'')"


section \<open>The search decides acyclicity\<close>

definition dep_edges :: "dep_graph \<Rightarrow> (jval \<times> jval) set" where
  "dep_edges g = {(a, b). b \<in> set (succs g a)}"

text \<open>A list in which every node comes before its dependencies, which are in the list.\<close>

fun dependencies_last :: "dep_graph \<Rightarrow> jval list \<Rightarrow> bool" where
  "dependencies_last g [] = True"
| "dependencies_last g (i # rest) \<longleftrightarrow> i \<notin> set rest \<and> set (succs g i) \<subseteq> set rest \<and> dependencies_last g rest"

lemma visit_all_orders:
  "visit_all g vg xs vd = Inr vd' \<Longrightarrow> dependencies_last g vd \<Longrightarrow>
     dependencies_last g vd' \<and> set vd \<subseteq> set vd' \<and> set xs \<subseteq> set vd' \<and> set vd' \<inter> set vg \<subseteq> set vd"
proof (induction g vg xs vd arbitrary: vd' rule: visit_all.induct)
  case (2 g vg i rest vd)
  have nvg: "i \<notin> set vg" using 2(4) by (auto simp: throws_def split: if_splits)
  show ?case
  proof (cases "i \<in> set vd")
    case True
    with 2(4) nvg have "visit_all g vg rest vd = Inr vd'" by simp
    from 2(1) [OF nvg True this 2(5)] True show ?thesis by auto
  next
    case False
    with 2(4) nvg obtain w where w: "visit_all g (i # vg) (succs g i) vd = Inr w"
      "visit_all g vg rest (i # w) = Inr vd'" by auto
    from 2(2) [OF nvg False w(1) 2(5)] have IH: "dependencies_last g w" "set vd \<subseteq> set w" "set (succs g i) \<subseteq> set w"
      "set w \<inter> set (i # vg) \<subseteq> set vd" by blast+
    then have "dependencies_last g (i # w)" using False by auto
    from 2(3) [OF nvg False w(2) this] w(1) IH nvg show ?thesis by auto
  qed
qed auto

lemma dependencies_last_closed:
  assumes "(a, b) \<in> (dep_edges g)\<^sup>+" "dependencies_last g xs" "a \<in> set xs"
  shows "b \<in> set xs"
proof -
  have step: "y \<in> set xs" if "(x, y) \<in> dep_edges g" "x \<in> set xs" for x y
    using that assms(2) by (induction xs) (auto simp: dep_edges_def)
  show ?thesis using assms(1,3) by (induction rule: trancl.induct) (auto dest: step)
qed

lemma dependencies_last_acyclic:
  "dependencies_last g xs \<Longrightarrow> x \<in> set xs \<Longrightarrow> (x, x) \<notin> (dep_edges g)\<^sup>+"
proof (induction xs)
  case (Cons i rest)
  show ?case
  proof (cases "x \<in> set rest")
    case False
    then have x: "x = i" using Cons.prems by simp
    show ?thesis
    proof
      assume "(x, x) \<in> (dep_edges g)\<^sup>+"
      then obtain y where y: "(x, y) \<in> dep_edges g" "y = x \<or> (y, x) \<in> (dep_edges g)\<^sup>+"
        by (metis converse_tranclE)
      then have "y \<in> set rest" using Cons.prems x by (auto simp: dep_edges_def)
      with y(2) dependencies_last_closed [of y x g rest] Cons.prems False show False by auto
    qed
  qed (use Cons in auto)
qed simp

lemma visit_all_error_is_cycle:
  assumes "visit_all g vg xs vd = Inl e"
    and "\<And>v x. v \<in> set vg \<Longrightarrow> x \<in> set xs \<Longrightarrow> (v, x) \<in> (dep_edges g)\<^sup>+"
  shows "\<exists>x. (x, x) \<in> (dep_edges g)\<^sup>+"
  using assms
proof (induction g vg xs vd rule: visit_all.induct)
  case (2 g vg i rest vd)
  show ?case
  proof (cases "i \<in> set vg")
    case True
    with 2(5) [of i i] show ?thesis by auto
  next
    case nvg: False
    have rest: "(v, x) \<in> (dep_edges g)\<^sup>+" if "v \<in> set vg" "x \<in> set rest" for v x
      using 2(5) [of v x] that by simp
    show ?thesis
    proof (cases "i \<in> set vd")
      case True
      with 2(4) nvg have "visit_all g vg rest vd = Inl e" by simp
      from 2(1) [OF nvg True this] rest show ?thesis by blast
    next
      case False
      show ?thesis
      proof (cases "visit_all g (i # vg) (succs g i) vd")
        case (Inl e')
        have "(v, x) \<in> (dep_edges g)\<^sup>+" if "v \<in> set (i # vg)" "x \<in> set (succs g i)" for v x
        proof -
          have "(i, x) \<in> dep_edges g" using that by (simp add: dep_edges_def)
          with that 2(5) [of v i] show ?thesis by (auto intro: trancl_into_trancl)
        qed
        moreover have "e' = e" using 2(4) nvg False Inl by simp
        ultimately show ?thesis using 2(2) [OF nvg False] Inl by blast
      next
        case (Inr w)
        then have "visit_all g vg rest (i # w) = Inl e" using 2(4) nvg False by simp
        from 2(3) [OF nvg False this] rest show ?thesis by blast
      qed
    qed
  qed
qed simp

text \<open>From the empty path, over all the nodes of a graph, the search succeeds exactly when the graph is acyclic.\<close>

lemma visit_all_decides:
  assumes "fst ` set g \<subseteq> set ids"
  shows "(\<exists>vd. visit_all g [] ids [] = Inr vd) \<longleftrightarrow> acyclic (dep_edges g)"
proof
  assume "\<exists>vd. visit_all g [] ids [] = Inr vd"
  then obtain vd where vd: "visit_all g [] ids [] = Inr vd" ..
  then have o: "dependencies_last g vd" "set ids \<subseteq> set vd" using visit_all_orders [OF vd] by simp_all
  show "acyclic (dep_edges g)" unfolding acyclic_def
  proof (rule allI, rule notI)
    fix x assume c: "(x, x) \<in> (dep_edges g)\<^sup>+"
    then obtain y where "(x, y) \<in> dep_edges g" by (meson tranclD)
    then have "x \<in> fst ` set g" using succs_no_key [of x g] by (force simp: dep_edges_def)
    with assms o(2) have "x \<in> set vd" by blast
    with dependencies_last_acyclic [OF o(1)] c show False by blast
  qed
next
  assume a: "acyclic (dep_edges g)"
  show "\<exists>vd. visit_all g [] ids [] = Inr vd"
  proof (cases "visit_all g [] ids []")
    case (Inl e)
    with visit_all_error_is_cycle [OF Inl] a show ?thesis by (simp add: acyclic_def)
  qed simp
qed


section \<open>What a valid definition is\<close>

definition role_ok :: "string list \<Rightarrow> string \<Rightarrow> jval \<Rightarrow> bool" where
  "role_ok available name role \<longleftrightarrow> id_pattern name \<and>
     (\<exists>ts. jprop role ''allowedTools'' = JArr ts \<and> ts \<noteq> [] \<and>
        (\<forall>t \<in> set ts. \<exists>tool. t = JStr tool \<and> tool \<in> set available \<and> \<not> starts_with ''workflow_'' tool))"

definition step_ok :: "jval \<Rightarrow> string list \<Rightarrow> jval \<Rightarrow> bool" where
  "step_ok d available step \<longleftrightarrow>
     (is_object step \<or> (\<exists>vs. step = JArr vs)) \<and> id_pattern (js_String (step_id step)) \<and>
     (\<exists>role tool. jprop step ''role'' = JStr role \<and> jprop step ''tool'' = JStr tool \<and>
        role \<in> fst ` set (jentries (jprop d ''roles'')) \<and> JStr tool \<in> set (role_tools d role) \<and>
        tool \<in> set available \<and> \<not> starts_with ''workflow_'' tool) \<and>
     json_bytes (js_or_else (jprop step ''args'') (JObj [])) \<le> 64000 \<and>
     (js_truthy (jprop step ''expect'') \<longrightarrow> is_string (jprop (jprop step ''expect'') ''path''))"

text \<open>The dependency relation of a list of steps: from a step to a step it waits for.\<close>

definition waits_for :: "jval list \<Rightarrow> (jval \<times> jval) set" where
  "waits_for steps = {(step_id s, b) | s b. s \<in> set steps \<and> (\<exists>deps. dep_items s = Inr deps \<and> b \<in> set deps)}"

definition valid_definition :: "string list \<Rightarrow> jval \<Rightarrow> bool" where
  "valid_definition available d \<longleftrightarrow>
     (\<exists>name roles steps. is_object d \<and> jprop d ''name'' = JStr name \<and> js_trim name \<noteq> [] \<and>
        jprop d ''roles'' = JObj roles \<and> jprop d ''steps'' = JArr steps \<and>
        1 \<le> length steps \<and> length steps \<le> 50 \<and> json_bytes d \<le> 256000 \<and>
        (\<forall>(n, r) \<in> set roles. role_ok available n r) \<and>
        (\<forall>s \<in> set steps. step_ok d available s) \<and> distinct (map step_id steps) \<and>
        (\<forall>s \<in> set steps. \<exists>deps. dep_items s = Inr deps \<and> set deps \<subseteq> step_id ` set steps) \<and>
        acyclic (waits_for steps))"

lemma check_tools_ok:
  "check_tools available n ts = Inr () \<longleftrightarrow>
     (\<forall>t \<in> set ts. \<exists>tool. t = JStr tool \<and> tool \<in> set available \<and> \<not> starts_with ''workflow_'' tool)"
  by (induction ts) (auto simp: throws_def split: jval.splits)

lemma check_roles_ok:
  "check_roles available rs = Inr () \<longleftrightarrow> (\<forall>(n, r) \<in> set rs. role_ok available n r)"
proof (induction available rs rule: check_roles.induct)
  case (2 available name role rest)
  have ok: "role_ok available name role \<longleftrightarrow> id_pattern name \<and>
     (\<exists>ts. jprop role ''allowedTools'' = JArr ts \<and> ts \<noteq> [] \<and> check_tools available name ts = Inr ())"
    unfolding role_ok_def check_tools_ok ..
  show ?case
  proof (cases "\<exists>t ts. jprop role ''allowedTools'' = JArr (t # ts)")
    case True
    then obtain t ts where v: "jprop role ''allowedTools'' = JArr (t # ts)" by blast
    with 2 show ?thesis by (simp add: ok throws_def del: check_tools.simps)
  next
    case False
    then have "\<not> role_ok available name role" unfolding ok by (metis list.exhaust)
    moreover have "check_roles available ((name, role) # rest) \<noteq> Inr ()"
      using False by (auto simp: throws_def split: jval.splits list.splits)
    ultimately show ?thesis by simp
  qed
qed simp

lemma check_step_ok: "check_step d available ids s = Inr () \<longleftrightarrow> step_ok d available s \<and> step_id s \<notin> set ids"
proof (cases "\<exists>role tool. jprop s ''role'' = JStr role \<and> jprop s ''tool'' = JStr tool")
  case True
  then obtain role tool where rt: "jprop s ''role'' = JStr role" "jprop s ''tool'' = JStr tool" by blast
  have kind: "(case s of JObj _ \<Rightarrow> True | JArr _ \<Rightarrow> True | _ \<Rightarrow> False) \<longleftrightarrow> is_object s \<or> (\<exists>vs. s = JArr vs)"
    by (cases s) simp_all
  show ?thesis unfolding check_step_def step_ok_def Let_def kind
    by (simp add: rt MAX_STEP_ARGS_BYTES_def) argo
next
  case False
  then have "\<not> step_ok d available s" by (auto simp: step_ok_def)
  moreover have "check_step d available ids s \<noteq> Inr ()"
    using False by (auto simp: check_step_def throws_def Let_def split: jval.splits)
  ultimately show ?thesis by simp
qed

lemma check_steps_ok:
  "distinct ids \<Longrightarrow> check_steps d available ids ss = Inr ids' \<longleftrightarrow>
     (\<forall>s \<in> set ss. step_ok d available s) \<and> distinct (ids @ map step_id ss) \<and> ids' = ids @ map step_id ss"
proof (induction ss arbitrary: ids)
  case (Cons s ss)
  show ?case
  proof (cases "step_id s \<in> set ids")
    case True
    then have "check_step d available ids s \<noteq> Inr ()" by (simp add: check_step_ok)
    with True show ?thesis by auto
  next
    case False
    then have d: "distinct (ids @ [step_id s])" using Cons.prems by simp
    show ?thesis using False by (auto simp: check_step_ok Cons.IH [OF d])
  qed
qed auto

lemma check_deps_ok: "check_deps ids i deps = Inr () \<longleftrightarrow> set deps \<subseteq> set ids \<and> i \<notin> set deps"
  by (induction deps) (auto simp: throws_def)

lemma step_graph_ok:
  "step_graph ids ss = Inr g \<longleftrightarrow>
     list_all2 (\<lambda>s e. \<exists>deps. dep_items s = Inr deps \<and> set deps \<subseteq> set ids \<and> step_id s \<notin> set deps \<and> e = (step_id s, deps)) ss g"
  by (induction ss arbitrary: g) (auto simp: check_deps_ok list_all2_Cons1)

lemma step_graph_edges:
  assumes "list_all2 (\<lambda>s e. \<exists>deps. dep_items s = Inr deps \<and> set deps \<subseteq> set ids \<and> step_id s \<notin> set deps \<and> e = (step_id s, deps)) ss g"
    and "distinct (map step_id ss)"
  shows "dep_edges g = waits_for ss" "fst ` set g = step_id ` set ss"
proof -
  have keys: "map fst g = map step_id ss"
    using assms(1) by (induction rule: list_all2_induct) auto
  then show "fst ` set g = step_id ` set ss" by (metis list.set_map)
  have mem: "(i, deps) \<in> set g \<longleftrightarrow> (\<exists>s \<in> set ss. i = step_id s \<and> dep_items s = Inr deps)" for i deps
    using assms(1) by (induction rule: list_all2_induct) auto
  have d: "distinct (map fst g)" using keys assms(2) by simp
  have "b \<in> set (succs g a) \<longleftrightarrow> (\<exists>deps. (a, deps) \<in> set g \<and> b \<in> set deps)" for a b
    by (cases "map_of g a") (simp_all add: succs_def map_of_eq_Some_iff [OF d, symmetric])
  then have "(a, b) \<in> dep_edges g \<longleftrightarrow> (a, b) \<in> waits_for ss" for a b
    by (simp add: dep_edges_def waits_for_def mem) blast
  then show "dep_edges g = waits_for ss" by auto
qed

lemma no_self_wait: "acyclic (waits_for ss) \<Longrightarrow> s \<in> set ss \<Longrightarrow> dep_items s = Inr deps \<Longrightarrow> step_id s \<notin> set deps"
  unfolding acyclic_def waits_for_def by blast

lemma graph_search_ok:
  assumes "distinct (map step_id ss)"
  shows "(\<exists>g vd. step_graph (map step_id ss) ss = Inr g \<and> visit_all g [] (map step_id ss) [] = Inr vd) \<longleftrightarrow>
     (\<forall>s \<in> set ss. \<exists>deps. dep_items s = Inr deps \<and> set deps \<subseteq> step_id ` set ss) \<and> acyclic (waits_for ss)"
    (is "?L \<longleftrightarrow> ?R")
proof
  assume ?L
  then obtain g vd where g: "step_graph (map step_id ss) ss = Inr g" and vd: "visit_all g [] (map step_id ss) [] = Inr vd"
    by blast
  note rel = g [unfolded step_graph_ok]
  have "acyclic (dep_edges g)"
    using visit_all_decides [of g "map step_id ss"] step_graph_edges(2) [OF rel assms] vd by auto
  moreover have "\<forall>s \<in> set ss. \<exists>deps. dep_items s = Inr deps \<and> set deps \<subseteq> step_id ` set ss"
    using rel by (auto simp: list_all2_conv_all_nth in_set_conv_nth) metis
  ultimately show ?R using step_graph_edges(1) [OF rel assms] by simp
next
  assume R: ?R
  have "list_all2 (\<lambda>s e. \<exists>deps. dep_items s = Inr deps \<and> set deps \<subseteq> set (map step_id ss) \<and> step_id s \<notin> set deps \<and> e = (step_id s, deps)) ts
      (map (\<lambda>s. (step_id s, case dep_items s of Inr deps \<Rightarrow> deps)) ts)" if "set ts \<subseteq> set ss" for ts
    using that R no_self_wait by (induction ts) fastforce+
  then obtain g where g: "step_graph (map step_id ss) ss = Inr g" unfolding step_graph_ok by blast
  note rel = g [unfolded step_graph_ok]
  have "\<exists>vd. visit_all g [] (map step_id ss) [] = Inr vd"
    using visit_all_decides [of g "map step_id ss"] step_graph_edges [OF rel assms] R by auto
  with g show ?L by blast
qed

lemma validate_iff:
  "validateWorkflowDefinition d available = Inr d' \<longleftrightarrow> valid_definition available d \<and> d' = json_copy d"
proof (cases "\<exists>name roles steps. is_object d \<and> jprop d ''name'' = JStr name \<and> jprop d ''roles'' = JObj roles \<and>
    jprop d ''steps'' = JArr steps")
  case True
  then obtain kvs name roles steps where d: "d = JObj kvs" and f: "jprop d ''name'' = JStr name"
    "jprop d ''roles'' = JObj roles" "jprop d ''steps'' = JArr steps"
    by (cases d) auto
  have steps: "check_steps d available [] steps = Inr ids \<longleftrightarrow>
      (\<forall>s \<in> set steps. step_ok d available s) \<and> distinct (map step_id steps) \<and> ids = map step_id steps" for ids
    using check_steps_ok [of "[]"] by simp
  have "validateWorkflowDefinition d available = Inr d' \<longleftrightarrow>
      js_trim name \<noteq> [] \<and> 1 \<le> length steps \<and> length steps \<le> 50 \<and> json_bytes d \<le> 256000 \<and>
      (\<forall>(n, r) \<in> set roles. role_ok available n r) \<and> (\<forall>s \<in> set steps. step_ok d available s) \<and>
      distinct (map step_id steps) \<and>
      (\<exists>g vd. step_graph (map step_id steps) steps = Inr g \<and> visit_all g [] (map step_id steps) [] = Inr vd) \<and>
      d' = json_copy d"
    unfolding validateWorkflowDefinition_def d jval.case
    unfolding d [symmetric] f
    by (simp add: check_roles_ok steps jitems_def jentries_def MAX_STEPS_def MAX_DEFINITION_BYTES_def del: visit_all.simps) blast
  also have "\<dots> \<longleftrightarrow> valid_definition available d \<and> d' = json_copy d"
    using graph_search_ok [of steps] f d by (auto simp: valid_definition_def)
  finally show ?thesis .
next
  case False
  then have "\<not> valid_definition available d" by (auto simp: valid_definition_def)
  moreover have "validateWorkflowDefinition d available \<noteq> Inr d'"
    using False by (auto simp: validateWorkflowDefinition_def throws_def guardR_def split: jval.splits if_splits elim: is_object.elims)
  ultimately show ?thesis by simp
qed


end
