(* ===== verification/FF_WorkflowManager.thy ===== *)
theory FF_WorkflowManager
  imports FF_WorkflowDef FF_Registry "HOL-Library.Word"
begin

text \<open>
  \<^verbatim>\<open>src/workflows/workflow-manager.ts\<close>, the runs: their records, the evidence and references of steps, and the
  operations of \<^verbatim>\<open>WorkflowManager\<close> on the run files.

  A run file holds the run that \<^verbatim>\<open>save\<close> wrote (\<^verbatim>\<open>JSON.stringify\<close> and \<^verbatim>\<open>JSON.parse\<close> of a run are the identity
  here); \<open>wv_files\<close> lists the files of the directory.  An operation reads the clock and the random source in
  sequence, and the n-th write of a file succeeds or throws as \<open>wv_write\<close> says.  An operation runs from the lock
  to the unlock without interruption; the lock file, which makes a second process fail with \<^verbatim>\<open>Workflow is busy\<close>,
  and the import of files of schema 1 are left out.  An absent field of the code is \<open>None\<close> or \<open>JUndef\<close>.
\<close>

unbundle bit_operations_syntax

section \<open>Data\<close>

datatype WorkflowState = WfCreated | WfRunning | WfPaused | WfCompleted | WfFailed | WfCancelled

datatype WorkflowStepState = StPending | StRunning | StAwaiting | StSucceeded | StFailed | StSkipped

record WorkflowOwnerBinding =
  wo_principalId :: string
  wo_projectId :: "string option"
  wo_clientId :: "string option"
  wo_createdSessionId :: "string option"
  wo_createdCapsuleId :: "string option"

record WorkflowTaskMetadata =
  wt_objective :: string
  wt_acceptanceCriteria :: "string list"
  wt_isolationId :: "string option"
  wt_knownLimitations :: "string list"

text \<open>The partial metadata of a caller.\<close>

record metadata_input =
  mi_objective :: "string option"
  mi_acceptanceCriteria :: "string list option"
  mi_isolationId :: "string option"
  mi_knownLimitations :: "string list option"

record WorkflowHandoff =
  wh_targetPrincipalId :: string
  wh_tokenSha256 :: string
  wh_createdAt :: int
  wh_expiresAt :: int

record WorkflowProofPackRef =
  pp_id :: string
  pp_manifestSha256 :: string
  pp_createdAt :: string

text \<open>The ids, roles and tools of steps are the values of the definition; \<open>sr_resolvedArgs\<close> and \<open>sr_evidence\<close> are
  \<open>JUndef\<close> when absent.\<close>

record WorkflowStepRun =
  sr_id :: jval
  sr_role :: jval
  sr_tool :: jval
  sr_state :: WorkflowStepState
  sr_attempts :: int
  sr_startedAt :: "int option"
  sr_completedAt :: "int option"
  sr_approvalId :: "string option"
  sr_resolvedArgs :: jval
  sr_evidence :: jval
  sr_note :: "string option"

record WorkflowRun =
  wr_id :: string
  wr_revision :: int
  wr_integritySha256 :: string
  wr_definition :: jval
  wr_definitionHash :: string
  wr_projectRoot :: string
  wr_owner :: WorkflowOwnerBinding
  wr_task :: WorkflowTaskMetadata
  wr_handoff :: "WorkflowHandoff option"
  wr_proofPacks :: "WorkflowProofPackRef list"
  wr_state :: WorkflowState
  wr_createdAt :: int
  wr_updatedAt :: int
  wr_startedAt :: "int option"
  wr_completedAt :: "int option"
  wr_currentStepId :: jval
  wr_pauseReason :: "string option"
  wr_failure :: "string option"
  wr_steps :: "WorkflowStepRun list"

record wf_env =
  wv_lc :: "string \<Rightarrow> string \<Rightarrow> bool"
  wv_sha256 :: "string \<Rightarrow> string"
  wv_now :: "nat \<Rightarrow> int"
  wv_uuid :: "nat \<Rightarrow> string"
  wv_write :: "nat \<Rightarrow> bool"
  wv_projectRoot :: string

record wf_store =
  wv_files :: "(string \<times> WorkflowRun) list"
  wv_reads :: nat
  wv_draws :: nat
  wv_writes :: nat

section \<open>JSON of a run\<close>

definition wf_state_text :: "WorkflowState \<Rightarrow> string" where
  "wf_state_text s = (case s of WfCreated \<Rightarrow> ''created'' | WfRunning \<Rightarrow> ''running'' | WfPaused \<Rightarrow> ''paused''
     | WfCompleted \<Rightarrow> ''completed'' | WfFailed \<Rightarrow> ''failed'' | WfCancelled \<Rightarrow> ''cancelled'')"

definition step_state_text :: "WorkflowStepState \<Rightarrow> string" where
  "step_state_text s = (case s of StPending \<Rightarrow> ''pending'' | StRunning \<Rightarrow> ''running'' | StAwaiting \<Rightarrow> ''awaiting_approval''
     | StSucceeded \<Rightarrow> ''succeeded'' | StFailed \<Rightarrow> ''failed'' | StSkipped \<Rightarrow> ''skipped'')"

definition num_entry :: "string \<Rightarrow> int option \<Rightarrow> jobject" where
  "num_entry k x = (case x of None \<Rightarrow> [] | Some n \<Rightarrow> [(k, JNum n)])"

definition val_entry :: "string \<Rightarrow> jval \<Rightarrow> jobject" where
  "val_entry k v = (if v = JUndef then [] else [(k, v)])"

definition owner_json :: "WorkflowOwnerBinding \<Rightarrow> jval" where
  "owner_json ow = JObj ((''principalId'', JStr (wo_principalId ow)) # opt_entry ''projectId'' (wo_projectId ow) @
     opt_entry ''clientId'' (wo_clientId ow) @ opt_entry ''createdSessionId'' (wo_createdSessionId ow) @
     opt_entry ''createdCapsuleId'' (wo_createdCapsuleId ow))"

definition task_json :: "WorkflowTaskMetadata \<Rightarrow> jval" where
  "task_json t = JObj ([(''objective'', JStr (wt_objective t)),
     (''acceptanceCriteria'', JArr (map JStr (wt_acceptanceCriteria t)))] @ opt_entry ''isolationId'' (wt_isolationId t) @
     [(''knownLimitations'', JArr (map JStr (wt_knownLimitations t)))])"

definition handoff_json :: "WorkflowHandoff \<Rightarrow> jobject" where
  "handoff_json h = [(''targetPrincipalId'', JStr (wh_targetPrincipalId h)), (''createdAt'', JNum (wh_createdAt h)),
     (''expiresAt'', JNum (wh_expiresAt h))]"

definition proof_json :: "WorkflowProofPackRef \<Rightarrow> jval" where
  "proof_json p = JObj [(''id'', JStr (pp_id p)), (''manifestSha256'', JStr (pp_manifestSha256 p)),
     (''createdAt'', JStr (pp_createdAt p))]"

definition step_json :: "WorkflowStepRun \<Rightarrow> jval" where
  "step_json s = JObj (val_entry ''id'' (sr_id s) @ val_entry ''role'' (sr_role s) @ val_entry ''tool'' (sr_tool s) @
     [(''state'', JStr (step_state_text (sr_state s))), (''attempts'', JNum (sr_attempts s))] @
     num_entry ''startedAt'' (sr_startedAt s) @ num_entry ''completedAt'' (sr_completedAt s) @
     opt_entry ''approvalId'' (sr_approvalId s) @ val_entry ''resolvedArgs'' (sr_resolvedArgs s) @
     val_entry ''evidence'' (sr_evidence s) @ opt_entry ''note'' (sr_note s))"

text \<open>The run without its integrity digest.\<close>

definition run_json :: "WorkflowRun \<Rightarrow> jval" where
  "run_json r = JObj ([(''schemaVersion'', JNum 2), (''id'', JStr (wr_id r)), (''revision'', JNum (wr_revision r)),
     (''definition'', wr_definition r), (''definitionHash'', JStr (wr_definitionHash r)),
     (''projectRoot'', JStr (wr_projectRoot r)), (''owner'', owner_json (wr_owner r)), (''task'', task_json (wr_task r))] @
     (case wr_handoff r of None \<Rightarrow> [] | Some h \<Rightarrow> [(''handoff'', JObj (handoff_json h @ [(''tokenSha256'', JStr (wh_tokenSha256 h))]))]) @
     [(''proofPacks'', JArr (map proof_json (wr_proofPacks r))), (''state'', JStr (wf_state_text (wr_state r))),
      (''createdAt'', JNum (wr_createdAt r)), (''updatedAt'', JNum (wr_updatedAt r))] @
     num_entry ''startedAt'' (wr_startedAt r) @ num_entry ''completedAt'' (wr_completedAt r) @
     val_entry ''currentStepId'' (wr_currentStepId r) @ opt_entry ''pauseReason'' (wr_pauseReason r) @
     opt_entry ''failure'' (wr_failure r) @ [(''steps'', JArr (map step_json (wr_steps r)))])"

text \<open>\<^verbatim>\<open>stable\<close> serialises as \<^verbatim>\<open>canonical\<close> of the approval queue does.\<close>

definition stable :: "wf_env \<Rightarrow> jval \<Rightarrow> string option" where
  "stable env v = canonical (wv_lc env) v"

definition runIntegrity :: "wf_env \<Rightarrow> WorkflowRun \<Rightarrow> string" where
  "runIntegrity env r = wv_sha256 env (template (stable env (run_json r)))"

definition tokenHash :: "wf_env \<Rightarrow> string \<Rightarrow> string" where
  "tokenHash env token = wv_sha256 env token"

text \<open>FNV-1a on 32 bits.\<close>

definition fnv_step :: "32 word \<Rightarrow> char \<Rightarrow> 32 word" where
  "fnv_step h c = (h XOR of_nat (char_code c)) * 16777619"

definition simpleHash :: "string \<Rightarrow> string" where
  "simpleHash s = (let h = foldl fnv_step 2166136261 s
     in ''fnv1a_'' @ map (\<lambda>k. hex_digit (unat h div 16 ^ k)) [7, 6, 5, 4, 3, 2, 1, 0])"

section \<open>Owners and tasks\<close>

definition ownerBinding :: "tool_principal \<Rightarrow> WorkflowOwnerBinding" where
  "ownerBinding p = \<lparr>wo_principalId = p_id p, wo_projectId = truthy (p_projectId p), wo_clientId = truthy (p_oauthClientId p),
     wo_createdSessionId = truthy (p_sessionId p), wo_createdCapsuleId = truthy (p_capsuleId p)\<rparr>"

definition ownerMatches :: "WorkflowOwnerBinding \<Rightarrow> tool_principal \<Rightarrow> bool" where
  "ownerMatches ow p \<longleftrightarrow> p_role p = RoleAdmin \<or>
     (wo_principalId ow = p_id p \<and>
      (truthy (wo_projectId ow) \<noteq> None \<longrightarrow> wo_projectId ow = p_projectId p) \<and>
      (truthy (wo_clientId ow) \<noteq> None \<longrightarrow> wo_clientId ow = p_oauthClientId p))"

definition trimmed_set :: "string list option \<Rightarrow> string list" where
  "trimmed_set xs = uniq (filter (\<lambda>s. s \<noteq> []) (map js_trim (case xs of None \<Rightarrow> [] | Some ys \<Rightarrow> ys)))"

definition taskMetadata :: "jval \<Rightarrow> metadata_input \<Rightarrow> WorkflowTaskMetadata result" where
  "taskMetadata d m =
     (let objective = js_trim (case mi_objective m of Some s \<Rightarrow> s
            | None \<Rightarrow> js_String (js_or_else (jprop d ''description'') (jprop d ''name'')));
          criteria = trimmed_set (mi_acceptanceCriteria m);
          limitations = trimmed_set (mi_knownLimitations m)
      in if objective = [] then throws ''workflow objective is required.''
         else if length criteria > 50 then throws ''acceptanceCriteria exceeds 50 items.''
         else if length limitations > 50 then throws ''knownLimitations exceeds 50 items.''
         else Inr \<lparr>wt_objective = take 8000 objective, wt_acceptanceCriteria = map (take 2000) criteria,
                wt_isolationId = truthy (mi_isolationId m), wt_knownLimitations = map (take 2000) limitations\<rparr>)"


section \<open>Paths, evidence and references\<close>

text \<open>The fields of a value; the names every JavaScript object inherits are not fields of these values.\<close>

fun get_segments :: "jval \<Rightarrow> string list \<Rightarrow> jval" where
  "get_segments v [] = v"
| "get_segments (JArr vs) (k # ks) =
     get_segments (if list_all is_digit k \<and> k \<noteq> [] then (if digits_value k < length vs then vs ! digits_value k else JUndef)
                   else if k = ''length'' then JNum (int (length vs)) else JUndef) ks"
| "get_segments (JObj kvs) (k # ks) = get_segments (jget kvs k) ks"
| "get_segments v (k # ks) = JUndef"

definition getPath :: "jval \<Rightarrow> string \<Rightarrow> jval" where
  "getPath v path = get_segments v (filter (\<lambda>s. s \<noteq> []) (split_on (CHR ''.'') path))"

definition MAX_EVIDENCE_BYTES :: nat where "MAX_EVIDENCE_BYTES = 64000"
definition MAX_TEXT_CONTENT :: nat where "MAX_TEXT_CONTENT = 8000"

definition sanitizeJson :: "jval \<Rightarrow> (string \<Rightarrow> string) \<Rightarrow> jval \<times> bool" where
  "sanitizeJson v redact =
     (if v = JUndef then (JUndef, False)
      else let redacted = redact (template (stringify v))
           in if byte_length redacted \<le> MAX_EVIDENCE_BYTES
              then (case JSON_parse redacted of Some w \<Rightarrow> (w, False) | None \<Rightarrow> (JStr redacted, False))
              else (JObj [(''truncated'', JBool True), (''originalBytes'', JNum (int (byte_length redacted))),
                      (''preview'', JStr (take MAX_EVIDENCE_BYTES redacted))], True))"

text \<open>\<^verbatim>\<open>...(b.k ? {k: b.k} : {})\<close>\<close>

definition truthy_entry :: "jval \<Rightarrow> string \<Rightarrow> jobject" where
  "truthy_entry b k = (if js_truthy (jprop b k) then [(k, jprop b k)] else [])"

definition clipped :: "(string \<Rightarrow> string) \<Rightarrow> string \<Rightarrow> jval" where
  "clipped redact s = JStr (take MAX_TEXT_CONTENT (redact s))"

definition block_evidence :: "(string \<Rightarrow> string) \<Rightarrow> jval \<Rightarrow> jval" where
  "block_evidence redact b =
     (if jprop b ''kind'' = JStr ''text'' then
        JObj [(''kind'', JStr ''text''), (''text'', clipped redact (js_String (jprop b ''text'')))]
      else if jprop b ''kind'' = JStr ''image'' then
        JObj [(''kind'', JStr ''image''), (''mimeType'', jprop b ''mimeType''),
          (''bytesApprox'', JNum (int (length (js_String (jprop b ''data'')) * 3 div 4)))]
      else if jprop b ''kind'' = JStr ''resource'' then
        JObj ([(''kind'', JStr ''resource''), (''uri'', jprop b ''uri'')] @ truthy_entry b ''title'' @
          truthy_entry b ''mimeType'' @ [(''text'', clipped redact (js_String (jprop b ''text'')))])
      else JObj ([(''kind'', JStr ''resource_link''), (''uri'', jprop b ''uri'')] @ truthy_entry b ''name'' @
          truthy_entry b ''title'' @ truthy_entry b ''description'' @ truthy_entry b ''mimeType''))"

definition contentEvidence :: "jval \<Rightarrow> (string \<Rightarrow> string) \<Rightarrow> jobject" where
  "contentEvidence content redact =
     (case content of JArr (b # bs) \<Rightarrow> [(''content'', JArr (map (block_evidence redact) (b # bs)))] | _ \<Rightarrow> [])"

definition clipped_entry :: "(string \<Rightarrow> string) \<Rightarrow> string \<Rightarrow> string option \<Rightarrow> jobject" where
  "clipped_entry redact k x = (case truthy x of None \<Rightarrow> [] | Some s \<Rightarrow> [(k, clipped redact s)])"

definition workflowEvidence :: "ToolResult \<Rightarrow> (string \<Rightarrow> string) \<Rightarrow> jval" where
  "workflowEvidence r redact =
     (let (v, truncated) = sanitizeJson (tr_data r) redact
      in JObj ([(''ok'', JBool (tr_ok r))] @ val_entry ''data'' v @ clipped_entry redact ''error'' (tr_error r) @
           clipped_entry redact ''diff'' (tr_diff r) @ opt_entry ''approvalId'' (truthy (tr_approvalId r)) @
           contentEvidence (tr_content r) redact @ (if truncated then [(''truncated'', JBool True)] else [])))"

fun resolve_value :: "WorkflowStepRun list \<Rightarrow> jval \<Rightarrow> jval result"
  and resolve_items :: "WorkflowStepRun list \<Rightarrow> jval list \<Rightarrow> jval list result"
  and resolve_entries :: "WorkflowStepRun list \<Rightarrow> jobject \<Rightarrow> jobject result" where
  "resolve_value steps (JArr vs) = bindR (resolve_items steps vs) (\<lambda>ws. Inr (JArr ws))"
| "resolve_value steps (JObj kvs) =
     (case jget kvs ''$step'' of
        JStr ref \<Rightarrow>
          let path = js_String (js_or_else (jget kvs ''path'') (JStr ''data''))
          in case find (\<lambda>s. sr_id s = JStr ref) steps of
            None \<Rightarrow> throws (''Workflow reference step has no evidence: '' @ ref)
          | Some s \<Rightarrow>
              if sr_evidence s = JUndef then throws (''Workflow reference step has no evidence: '' @ ref)
              else if getPath (sr_evidence s) path = JUndef then throws (''Workflow reference not found: '' @ ref @ ''.'' @ path)
              else Inr (getPath (sr_evidence s) path)
      | _ \<Rightarrow> bindR (resolve_entries steps kvs) (\<lambda>kws. Inr (JObj kws)))"
| "resolve_value steps v = Inr v"
| "resolve_items steps [] = Inr []"
| "resolve_items steps (v # vs) = bindR (resolve_value steps v) (\<lambda>w. bindR (resolve_items steps vs) (\<lambda>ws. Inr (w # ws)))"
| "resolve_entries steps [] = Inr []"
| "resolve_entries steps ((k, v) # kvs) =
     bindR (resolve_value steps v) (\<lambda>w. bindR (resolve_entries steps kvs) (\<lambda>kws. Inr ((k, w) # kws)))"

definition resolveWorkflowValue :: "jval \<Rightarrow> WorkflowRun \<Rightarrow> jval result" where
  "resolveWorkflowValue v run = resolve_value (wr_steps run) v"

text \<open>\<open>None\<close> for a passed check, otherwise the reason.\<close>

definition checkWorkflowExpectation :: "wf_env \<Rightarrow> jval \<Rightarrow> jval \<Rightarrow> string option" where
  "checkWorkflowExpectation env expectation evidence =
     (if \<not> js_truthy expectation then None
      else let path = js_String (jprop expectation ''path''); actual = getPath evidence path; present = JBool (actual \<noteq> JUndef)
      in if jprop expectation ''exists'' \<noteq> JUndef \<and> jprop expectation ''exists'' \<noteq> present
         then Some (''Expectation '' @ path @ '' exists='' @ js_String (jprop expectation ''exists'') @ ''; actual='' @
                js_String present @ ''.'')
         else if ''equals'' \<in> fst ` set (jentries expectation) \<and> stable env actual \<noteq> stable env (jprop expectation ''equals'')
         then Some (''Expectation '' @ path @ ''='' @ template (stable env (jprop expectation ''equals'')) @ ''; actual='' @
                template (stable env actual) @ ''.'')
         else None)"


section \<open>The run files\<close>

definition nowW :: "wf_env \<Rightarrow> (wf_store, int) act" where
  "nowW env s = (Inr (wv_now env (wv_reads s)), s\<lparr>wv_reads := Suc (wv_reads s)\<rparr>)"

definition uuidW :: "wf_env \<Rightarrow> (wf_store, string) act" where
  "uuidW env s = (Inr (wv_uuid env (wv_draws s)), s\<lparr>wv_draws := Suc (wv_draws s)\<rparr>)"

definition no_dashes :: "string \<Rightarrow> string" where
  "no_dashes u = filter (\<lambda>c. c \<noteq> CHR ''-'') u"

text \<open>\<^verbatim>\<open>/^wf_[a-z0-9]+$/i\<close>\<close>

definition run_id_ok :: "string \<Rightarrow> bool" where
  "run_id_ok i \<longleftrightarrow> to_lower (take 3 i) = ''wf_'' \<and> drop 3 i \<noteq> [] \<and>
     list_all (\<lambda>c. is_lower c \<or> is_upper c \<or> is_digit c) (drop 3 i)"

definition hex64 :: "string \<Rightarrow> bool" where
  "hex64 s \<longleftrightarrow> length s = 64 \<and> list_all (\<lambda>c. is_digit c \<or> c \<in> set ''abcdef'') s"

definition normalizeRun :: "wf_env \<Rightarrow> WorkflowRun \<Rightarrow> string \<Rightarrow> WorkflowRun result" where
  "normalizeRun env run i =
     (if wr_id run \<noteq> i then throws (''Invalid workflow run file: '' @ i)
      else if wo_principalId (wr_owner run) = [] \<or> wt_objective (wr_task run) = [] \<or>
        \<not> is_safe_integer (wr_revision run) \<or> wr_revision run < 1 \<or> \<not> hex64 (wr_integritySha256 run)
      then throws (''Invalid workflow run file: '' @ i)
      else if runIntegrity env run \<noteq> wr_integritySha256 run then throws (''Workflow state integrity check failed: '' @ i)
      else Inr run)"

definition put_file :: "string \<Rightarrow> WorkflowRun \<Rightarrow> (string \<times> WorkflowRun) list \<Rightarrow> (string \<times> WorkflowRun) list" where
  "put_file = AList.update"

definition signed :: "wf_env \<Rightarrow> WorkflowRun \<Rightarrow> WorkflowRun" where
  "signed env r = r\<lparr>wr_integritySha256 := runIntegrity env r\<rparr>"

definition check_revision :: "wf_env \<Rightarrow> WorkflowRun \<Rightarrow> wf_store \<Rightarrow> unit result" where
  "check_revision env run s =
     (case map_of (wv_files s) (wr_id run) of
        None \<Rightarrow> Inr ()
      | Some raw \<Rightarrow> bindR (normalizeRun env raw (wr_id run)) (\<lambda>current.
          guardR (wr_revision current = wr_revision run) (PlainError (''Workflow state changed concurrently: expected revision '' @
            show_int (wr_revision run) @ '', current '' @ show_int (wr_revision current) @ ''.''))))"

definition write_run :: "wf_env \<Rightarrow> WorkflowRun \<Rightarrow> (wf_store, WorkflowRun) act" where
  "write_run env run s =
     (let s' = s\<lparr>wv_writes := Suc (wv_writes s)\<rparr>
      in if wv_write env (wv_writes s) then (Inr run, s'\<lparr>wv_files := put_file (wr_id run) run (wv_files s)\<rparr>)
         else (Inl (StoreError ''The workflow file could not be written.''), s'))"

text \<open>The value is the run as it is saved, which is also what the caller holds afterwards.\<close>

definition save :: "wf_env \<Rightarrow> WorkflowRun \<Rightarrow> (wf_store, WorkflowRun) act" where
  "save env run =
     (if wr_projectRoot run \<noteq> wv_projectRoot env then throwA (PlainError ''Workflow project root mismatch.'')
      else bindA (\<lambda>s. (check_revision env run s, s)) (\<lambda>_.
        bindA (nowW env) (\<lambda>now.
        write_run env (signed env (run\<lparr>wr_updatedAt := now, wr_revision := wr_revision run + 1\<rparr>)))))"

definition get_run :: "wf_env \<Rightarrow> string \<Rightarrow> tool_principal option \<Rightarrow> (wf_store, WorkflowRun) act" where
  "get_run env i who s =
     ((if \<not> run_id_ok i then throws ''Invalid workflow run id.''
       else case map_of (wv_files s) i of
         None \<Rightarrow> throws (''Workflow run not found: '' @ i)
       | Some raw \<Rightarrow> bindR (normalizeRun env raw i) (\<lambda>run.
           case who of
             None \<Rightarrow> Inr run
           | Some p \<Rightarrow> if ownerMatches (wr_owner run) p then Inr run
               else throws (''Workflow access denied for principal '' @ p_id p @ ''.''))), s)"

definition new_step :: "jval \<Rightarrow> WorkflowStepRun" where
  "new_step step = \<lparr>sr_id = step_id step, sr_role = jprop step ''role'', sr_tool = jprop step ''tool'', sr_state = StPending,
     sr_attempts = 0, sr_startedAt = None, sr_completedAt = None, sr_approvalId = None, sr_resolvedArgs = JUndef,
     sr_evidence = JUndef, sr_note = None\<rparr>"

definition create_run :: "wf_env \<Rightarrow> jval \<Rightarrow> tool_principal \<Rightarrow> metadata_input \<Rightarrow> (wf_store, WorkflowRun) act" where
  "create_run env d p m =
     bindA (nowW env) (\<lambda>now.
     bindA (uuidW env) (\<lambda>u.
     bindA (liftR (taskMetadata d m)) (\<lambda>task.
     save env \<lparr>wr_id = ''wf_'' @ take 12 (no_dashes u), wr_revision = 0, wr_integritySha256 = [], wr_definition = d,
       wr_definitionHash = simpleHash (template (stable env d)), wr_projectRoot = wv_projectRoot env,
       wr_owner = ownerBinding p, wr_task = task, wr_handoff = None, wr_proofPacks = [], wr_state = WfCreated,
       wr_createdAt = now, wr_updatedAt = now, wr_startedAt = None, wr_completedAt = None, wr_currentStepId = JUndef,
       wr_pauseReason = None, wr_failure = None, wr_steps = map new_step (jitems (jprop d ''steps''))\<rparr>)))"

section \<open>Operations\<close>

definition wf_terminal :: "WorkflowState \<Rightarrow> bool" where
  "wf_terminal s \<longleftrightarrow> s = WfCompleted \<or> s = WfFailed \<or> s = WfCancelled"

definition withRunLock :: "string \<Rightarrow> (wf_store, 'a) act \<Rightarrow> (wf_store, 'a) act" where
  "withRunLock i operation = (if run_id_ok i then operation else throwA (PlainError ''Invalid workflow run id.''))"

definition cancel_run :: "wf_env \<Rightarrow> string \<Rightarrow> tool_principal option \<Rightarrow> (wf_store, WorkflowRun) act" where
  "cancel_run env i p = withRunLock i (bindA (get_run env i p) (\<lambda>run.
     if wf_terminal (wr_state run) then retA run
     else bindA (nowW env) (\<lambda>now.
       save env (run\<lparr>wr_state := WfCancelled, wr_completedAt := Some now, wr_pauseReason := Some ''Cancelled by operator.''\<rparr>))))"

definition pause_run :: "wf_env \<Rightarrow> string \<Rightarrow> tool_principal \<Rightarrow> string option \<Rightarrow> (wf_store, WorkflowRun) act" where
  "pause_run env i p reason = withRunLock i (bindA (get_run env i (Some p)) (\<lambda>run.
     if wf_terminal (wr_state run) then throwA (PlainError (''Workflow '' @ i @ '' is terminal ('' @ wf_state_text (wr_state run) @ '').''))
     else let t = take 2000 (js_trim (case reason of None \<Rightarrow> ''Paused by operator.'' | Some r \<Rightarrow> r))
          in save env (run\<lparr>wr_state := WfPaused, wr_pauseReason := Some (if t = [] then ''Paused by operator.'' else t)\<rparr>)))"

definition invalidate_approval :: "WorkflowStepRun \<Rightarrow> WorkflowStepRun" where
  "invalidate_approval s = (if sr_state s = StAwaiting
     then s\<lparr>sr_state := StPending, sr_note := Some ''Previous approval invalidated by workflow handoff.'', sr_approvalId := None\<rparr>
     else s)"

definition handoff_run :: "wf_env \<Rightarrow> string \<Rightarrow> tool_principal \<Rightarrow> string \<Rightarrow> int \<Rightarrow> (wf_store, WorkflowRun \<times> string) act" where
  "handoff_run env i p targetId ttl = withRunLock i (bindA (get_run env i (Some p)) (\<lambda>run.
     let target = js_trim targetId in
     if wr_state run \<noteq> WfCreated \<and> wr_state run \<noteq> WfPaused
     then throwA (PlainError ''Workflow handoff requires created or paused state.'')
     else if list_ex (\<lambda>s. sr_state s = StRunning) (wr_steps run)
     then throwA (PlainError ''Workflow handoff waits for the current running step to checkpoint.'')
     else if target = [] \<or> target = wo_principalId (wr_owner run)
     then throwA (PlainError ''Handoff target must be a different principal.'')
     else if \<not> is_safe_integer ttl \<or> ttl < 1000 \<or> ttl > 86400000
     then throwA (PlainError ''handoff ttlMs must be between 1000 and 86400000.'')
     else bindA (uuidW env) (\<lambda>u1.
          bindA (uuidW env) (\<lambda>u2.
          let token = ''wf_claim_'' @ no_dashes u1 @ no_dashes u2 in
          bindA (nowW env) (\<lambda>now.
          bindA (save env (run\<lparr>wr_steps := map invalidate_approval (wr_steps run),
              wr_handoff := Some \<lparr>wh_targetPrincipalId = target, wh_tokenSha256 = tokenHash env token, wh_createdAt = now,
                wh_expiresAt = now + ttl\<rparr>\<rparr>)) (\<lambda>run'.
          retA (run', token)))))))"

definition claim_run :: "wf_env \<Rightarrow> string \<Rightarrow> string \<Rightarrow> tool_principal \<Rightarrow> (wf_store, WorkflowRun) act" where
  "claim_run env i token p = withRunLock i (bindA (get_run env i None) (\<lambda>run.
     case wr_handoff run of
       None \<Rightarrow> throwA (PlainError ''Workflow has no pending handoff.'')
     | Some h \<Rightarrow>
         bindA (nowW env) (\<lambda>now.
         if wh_expiresAt h \<le> now
         then bindA (save env (run\<lparr>wr_handoff := None\<rparr>)) (\<lambda>_. throwA (PlainError ''Workflow handoff has expired.''))
         else if wh_targetPrincipalId h \<noteq> p_id p then throwA (PlainError ''Workflow handoff target mismatch.'')
         else if tokenHash env token \<noteq> wh_tokenSha256 h then throwA (PlainError ''Workflow handoff token is invalid.'')
         else save env (run\<lparr>wr_owner := ownerBinding p, wr_handoff := None\<rparr>))))"

definition add_proof_pack :: "wf_env \<Rightarrow> string \<Rightarrow> WorkflowProofPackRef \<Rightarrow> tool_principal option \<Rightarrow> (wf_store, WorkflowRun) act" where
  "add_proof_pack env i ref p = withRunLock i (bindA (get_run env i p) (\<lambda>run.
     save env (if list_ex (\<lambda>x. pp_id x = pp_id ref) (wr_proofPacks run) then run
               else run\<lparr>wr_proofPacks := wr_proofPacks run @ [ref]\<rparr>)))"

definition remove_proof_pack :: "wf_env \<Rightarrow> string \<Rightarrow> string \<Rightarrow> tool_principal option \<Rightarrow> (wf_store, WorkflowRun) act" where
  "remove_proof_pack env i packId p = withRunLock i (bindA (get_run env i p) (\<lambda>run.
     save env (run\<lparr>wr_proofPacks := filter (\<lambda>x. pp_id x \<noteq> packId) (wr_proofPacks run)\<rparr>)))"

text \<open>\<^verbatim>\<open>Object.assign(target, source)\<close>: what the source has replaces the target's, what it lacks stays.\<close>

definition opt_or :: "'a option \<Rightarrow> 'a option \<Rightarrow> 'a option" where
  "opt_or x y = (case x of None \<Rightarrow> y | Some v \<Rightarrow> Some v)"

definition assign_step :: "WorkflowStepRun \<Rightarrow> WorkflowStepRun \<Rightarrow> WorkflowStepRun" where
  "assign_step source target =
     \<lparr>sr_id = sr_id source, sr_role = sr_role source, sr_tool = sr_tool source, sr_state = sr_state source,
      sr_attempts = sr_attempts source, sr_startedAt = opt_or (sr_startedAt source) (sr_startedAt target),
      sr_completedAt = opt_or (sr_completedAt source) (sr_completedAt target),
      sr_approvalId = opt_or (sr_approvalId source) (sr_approvalId target),
      sr_resolvedArgs = (if sr_resolvedArgs source = JUndef then sr_resolvedArgs target else sr_resolvedArgs source),
      sr_evidence = (if sr_evidence source = JUndef then sr_evidence target else sr_evidence source),
      sr_note = opt_or (sr_note source) (sr_note target)\<rparr>"

definition set_step :: "jval \<Rightarrow> (WorkflowStepRun \<Rightarrow> WorkflowStepRun) \<Rightarrow> WorkflowRun \<Rightarrow> WorkflowRun" where
  "set_step i f run = run\<lparr>wr_steps := update_first (\<lambda>s. sr_id s = i) f (wr_steps run)\<rparr>"

definition find_step :: "jval \<Rightarrow> WorkflowRun \<Rightarrow> WorkflowStepRun option" where
  "find_step i run = find (\<lambda>s. sr_id s = i) (wr_steps run)"

definition merge_step :: "WorkflowRun \<Rightarrow> WorkflowRun \<Rightarrow> WorkflowRun" where
  "merge_step candidate current =
     (let i = wr_currentStepId candidate in
      if \<not> js_truthy i then current
      else case (find_step i candidate, find_step i current) of
        (Some source, Some target) \<Rightarrow>
          if sr_attempts source < sr_attempts target then current
          else if sr_state source = StRunning \<and> sr_evidence source = JUndef
          then (set_step i (\<lambda>t. t\<lparr>sr_state := StPending, sr_startedAt := None\<rparr>) current)\<lparr>wr_currentStepId := JUndef\<rparr>
          else (set_step i (assign_step source) current)\<lparr>wr_currentStepId := i\<rparr>
      | _ \<Rightarrow> current)"

definition checkpoint :: "wf_env \<Rightarrow> WorkflowRun \<Rightarrow> tool_principal \<Rightarrow> (wf_store, WorkflowRun) act" where
  "checkpoint env candidate p = withRunLock (wr_id candidate) (bindA (get_run env (wr_id candidate) (Some p)) (\<lambda>current.
     if wr_revision current = wr_revision candidate then save env candidate
     else if wr_state current \<noteq> WfPaused \<and> wr_state current \<noteq> WfCancelled
     then throwA (PlainError (''Workflow state changed concurrently at revision '' @ show_int (wr_revision current) @
            ''; refusing stale checkpoint.''))
     else save env (merge_step candidate current)))"

section \<open>Views\<close>

definition truthy_num :: "int option \<Rightarrow> int option" where
  "truthy_num x = (if x = Some 0 then None else x)"

definition view :: "WorkflowRun \<Rightarrow> jobject" where
  "view r = [(''id'', JStr (wr_id r)), (''name'', jprop (wr_definition r) ''name'')] @
     truthy_entry (wr_definition r) ''description'' @
     [(''definitionHash'', JStr (wr_definitionHash r)), (''projectRoot'', JStr (wr_projectRoot r)),
      (''owner'', owner_json (wr_owner r)), (''task'', task_json (wr_task r))] @
     (case wr_handoff r of None \<Rightarrow> [] | Some h \<Rightarrow> [(''handoff'', JObj (handoff_json h))]) @
     [(''proofPacks'', JArr (map proof_json (wr_proofPacks r))), (''state'', JStr (wf_state_text (wr_state r))),
      (''createdAt'', JNum (wr_createdAt r)), (''updatedAt'', JNum (wr_updatedAt r))] @
     num_entry ''startedAt'' (truthy_num (wr_startedAt r)) @ num_entry ''completedAt'' (truthy_num (wr_completedAt r)) @
     truthy_entry (JObj [(''currentStepId'', wr_currentStepId r)]) ''currentStepId'' @
     opt_entry ''pauseReason'' (truthy (wr_pauseReason r)) @ opt_entry ''failure'' (truthy (wr_failure r)) @
     [(''roles'', jprop (wr_definition r) ''roles''), (''steps'', JArr (map step_json (wr_steps r)))]"

definition count_state :: "WorkflowRun \<Rightarrow> WorkflowStepState \<Rightarrow> string \<times> jval" where
  "count_state r st = (step_state_text st, JNum (int (length (filter (\<lambda>s. sr_state s = st) (wr_steps r)))))"

definition report :: "wf_env \<Rightarrow> WorkflowRun \<Rightarrow> (wf_store, jobject) act" where
  "report env r =
     bindA (case wr_completedAt r of Some t \<Rightarrow> retA t | None \<Rightarrow> nowW env) (\<lambda>until.
     retA (view r @ [(''summary'', JObj
       [(''totalSteps'', JNum (int (length (wr_steps r)))),
        (''counts'', JObj (map (count_state r) [StPending, StRunning, StAwaiting, StSucceeded, StFailed, StSkipped])),
        (''durationMs'', JNum (until - (case wr_startedAt r of Some t \<Rightarrow> t | None \<Rightarrow> wr_createdAt r))),
        (''resumable'', JBool (wr_state r = WfPaused)), (''successful'', JBool (wr_state r = WfCompleted))])]))"

definition list_runs :: "wf_env \<Rightarrow> tool_principal option \<Rightarrow> int \<Rightarrow> wf_store \<Rightarrow> jobject list" where
  "list_runs env p limit s =
     map view (take (nat (min 200 (max 1 limit)))
       (sort_by (\<lambda>a b. wr_updatedAt b \<le> wr_updatedAt a)
         (concat (map (\<lambda>(i, _). case fst (get_run env i p s) of Inl _ \<Rightarrow> [] | Inr run \<Rightarrow> [run])
           (filter (\<lambda>(i, _). run_id_ok i) (wv_files s))))))"


section \<open>What the operations do to the files\<close>

lemma map_of_put_file: "map_of (put_file i r f) = (map_of f)(i \<mapsto> r)"
  by (simp add: put_file_def update_conv')

text \<open>\<open>r'\<close> is \<open>r\<close> as \<^verbatim>\<open>save\<close> leaves it.\<close>

definition saved_as :: "WorkflowRun \<Rightarrow> WorkflowRun \<Rightarrow> bool" where
  "saved_as r r' \<longleftrightarrow> (\<exists>now h. r' = r\<lparr>wr_updatedAt := now, wr_revision := wr_revision r + 1, wr_integritySha256 := h\<rparr>)"

lemma saved_as_fields [simp]:
  assumes "saved_as r r'"
  shows "wr_id r' = wr_id r" "wr_definition r' = wr_definition r" "wr_revision r' = wr_revision r + 1"
    "wr_steps r' = wr_steps r" "wr_state r' = wr_state r" "wr_owner r' = wr_owner r" "wr_handoff r' = wr_handoff r"
    "wr_currentStepId r' = wr_currentStepId r" "wr_failure r' = wr_failure r" "wr_projectRoot r' = wr_projectRoot r"
  using assms by (auto simp: saved_as_def)

lemma normalizeRun_InrD: "normalizeRun env raw i = Inr x \<Longrightarrow> x = raw"
  by (simp add: normalizeRun_def throws_def split: if_splits)

lemma save_cases:
  assumes "save env run s = (res, s')"
  obtains (thrown) e where "res = Inl e" "wv_files s' = wv_files s"
  | (saved) run' where "res = Inr run'" "saved_as run run'" "wr_integritySha256 run' = runIntegrity env run'"
      "wv_files s' = put_file (wr_id run) run' (wv_files s)" "wr_projectRoot run = wv_projectRoot env"
      "\<And>raw. map_of (wv_files s) (wr_id run) = Some raw \<Longrightarrow> wr_revision raw = wr_revision run \<and> normalizeRun env raw (wr_id run) = Inr raw"
proof (cases "wr_projectRoot run = wv_projectRoot env \<and> check_revision env run s = Inr ()")
  case False
  then have "\<exists>e. res = Inl e \<and> s' = s"
    using assms by (cases "check_revision env run s") (auto simp: save_def act_defs split: if_splits)
  then show ?thesis using thrown by blast
next
  case True
  define r where "r = signed env (run\<lparr>wr_updatedAt := wv_now env (wv_reads s), wr_revision := wr_revision run + 1\<rparr>)"
  have "write_run env r (s\<lparr>wv_reads := Suc (wv_reads s)\<rparr>) = (res, s')"
    using assms True by (simp add: save_def act_defs nowW_def r_def)
  moreover have "wr_id r = wr_id run" by (simp add: r_def signed_def)
  ultimately consider (bad) e where "res = Inl e" "wv_files s' = wv_files s"
    | (good) "res = Inr r" "wv_files s' = put_file (wr_id run) r (wv_files s)"
    by (auto simp: write_run_def Let_def split: if_splits)
  then show ?thesis
  proof cases
    case bad
    then show ?thesis by (rule thrown)
  next
    case good
    have "saved_as run r" unfolding saved_as_def r_def signed_def by (intro exI, rule refl)
    moreover have "wr_integritySha256 r = runIntegrity env r"
      by (simp add: r_def signed_def runIntegrity_def run_json_def)
    moreover have "wr_revision raw = wr_revision run \<and> normalizeRun env raw (wr_id run) = Inr raw"
      if "map_of (wv_files s) (wr_id run) = Some raw" for raw
    proof -
      have "wr_revision raw = wr_revision run \<and> normalizeRun env raw (wr_id run) = Inr raw"
        if "bindR (normalizeRun env raw (wr_id run)) (\<lambda>current. guardR (wr_revision current = wr_revision run) (e current)) = Inr ()"
        for e :: "WorkflowRun \<Rightarrow> ff_error"
      proof (cases "normalizeRun env raw (wr_id run)")
        case (Inr x)
        then show ?thesis using that normalizeRun_InrD [OF Inr] by simp
      qed (use that in simp)
      moreover have "check_revision env run s = Inr ()" using True by blast
      ultimately show ?thesis unfolding check_revision_def that option.case .
    qed
    ultimately show ?thesis using saved good True by blast
  qed
qed

lemma get_run_state [simp]: "snd (get_run env i who s) = s"
  by (simp add: get_run_def)

lemma get_run_InrD:
  assumes "get_run env i who s = (Inr run, s')"
  shows "s' = s" "map_of (wv_files s) i = Some run" "wr_id run = i" "run_id_ok i" "normalizeRun env run i = Inr run"
    "\<And>p. who = Some p \<Longrightarrow> ownerMatches (wr_owner run) p"
  using assms by (auto simp: get_run_def normalizeRun_def throws_def split: if_splits option.splits)

lemma get_run_InlD: "get_run env i who s = (Inl e, s') \<Longrightarrow> s' = s"
  by (simp add: get_run_def)

lemma bind_get_cases:
  assumes "bindA (get_run env i who) f s = (res, s')"
  obtains (thrown) e where "res = Inl e" "s' = s"
  | (found) run where "get_run env i who s = (Inr run, s)" "f run s = (res, s')"
proof (cases "get_run env i who s")
  case (Pair x t)
  then have "t = s" using get_run_state [of env i who s] by simp
  with Pair assms thrown found show ?thesis by (cases x) (auto simp: bindA_def)
qed

text \<open>A save, alone or after reads of the clock, changes no other file.\<close>

lemma checkpoint_cases:
  assumes "checkpoint env c p s = (res, s')"
  obtains (thrown) e where "res = Inl e" "wv_files s' = wv_files s"
  | (matched) cur run' where "map_of (wv_files s) (wr_id c) = Some cur" "wr_revision cur = wr_revision c"
      "res = Inr run'" "saved_as c run'" "map_of (wv_files s') = (map_of (wv_files s))(wr_id c \<mapsto> run')"
      "ownerMatches (wr_owner cur) p"
  | (merged) cur run' where "map_of (wv_files s) (wr_id c) = Some cur" "wr_revision cur \<noteq> wr_revision c"
      "wr_state cur = WfPaused \<or> wr_state cur = WfCancelled" "wr_id cur = wr_id c"
      "res = Inr run'" "saved_as (merge_step c cur) run'"
      "map_of (wv_files s') = (map_of (wv_files s))(wr_id c \<mapsto> run')" "ownerMatches (wr_owner cur) p"
proof (cases "run_id_ok (wr_id c)")
  case False
  with assms thrown show ?thesis by (auto simp: checkpoint_def withRunLock_def throwA_def)
next
  case True
  then have "bindA (get_run env (wr_id c) (Some p)) (\<lambda>current.
     if wr_revision current = wr_revision c then save env c
     else if wr_state current \<noteq> WfPaused \<and> wr_state current \<noteq> WfCancelled
     then throwA (PlainError (''Workflow state changed concurrently at revision '' @ show_int (wr_revision current) @
            ''; refusing stale checkpoint.''))
     else save env (merge_step c current)) s = (res, s')"
    using assms by (simp add: checkpoint_def withRunLock_def)
  then show ?thesis
  proof (cases rule: bind_get_cases)
    case (thrown e)
    with that(1) show ?thesis by simp
  next
    case (found cur)
    note cur = get_run_InrD [OF found(1)]
    have merge_id: "wr_id (merge_step c cur) = wr_id cur"
      by (simp add: merge_step_def set_step_def Let_def split: option.splits)
    show ?thesis
    proof (cases "wr_revision cur = wr_revision c")
      case True
      with found(2) have "save env c s = (res, s')" by simp
      then show ?thesis
      proof (cases rule: save_cases)
        case (thrown e)
        then show ?thesis by (rule that(1))
      next
        case (saved run')
        show ?thesis
          by (rule that(2)) (use saved True cur(2) cur(6) [OF refl] in \<open>simp_all add: map_of_put_file\<close>)
      qed
    next
      case False
      show ?thesis
      proof (cases "wr_state cur = WfPaused \<or> wr_state cur = WfCancelled")
        case True
        with False found(2) have "save env (merge_step c cur) s = (res, s')" by auto
        then show ?thesis
        proof (cases rule: save_cases)
          case (thrown e)
          then show ?thesis by (rule that(1))
        next
          case (saved run')
          show ?thesis
            by (rule that(3)) (use saved True False cur(2,3) cur(6) [OF refl] merge_id in \<open>simp_all add: map_of_put_file\<close>)
        qed
      next
        case stopped: False
        with False found(2) have "\<exists>e. res = Inl e \<and> s' = s" by (auto simp: throwA_def)
        then show ?thesis using that(1) by blast
      qed
    qed
  qed
qed

end
