(* ===== verification/FF_WorkflowExec.thy ===== *)
theory FF_WorkflowExec
  imports FF_WorkflowManager FF_Approvals
begin

text \<open>
  \<^verbatim>\<open>src/tools/workflow-tools.ts\<close>: the tools that create and run workflows, and \<^verbatim>\<open>executeWorkflow\<close>, which takes a run
  from step to step.

  Between two awaits nothing else runs in the process, so the executor is a sequence of segments: \<open>begin_execution\<close>
  goes from the start to the first tool call, \<open>finish_call\<close> from the result of a call to the next call.
  A segment ends by returning or by calling a tool (\<open>outcome\<close>); while the call runs, the executor keeps its copy of
  the run, and every other operation may change the file.  \<open>wf_exec\<close> interleaves any number of executors with the
  other operations.  A call that throws, or a process that dies, leaves the executor unfinished.

  Parameters (\<open>exec_ctx\<close>): the redaction of secrets, the number of secrets a text seems to hold, the isolations that
  exist.  The state of an approval, whether the client has aborted, the tools that are available and the results of
  tool calls are inputs.
\<close>

record exec_ctx =
  xc_redact :: "string \<Rightarrow> string"
  xc_scan :: "string \<Rightarrow> nat"
  xc_isolation :: "string \<Rightarrow> bool"

text \<open>What a segment ends with: the answer \<open>Returned ok error run\<close> (the run is reported), or the call of the tool of
  step \<open>i\<close> of the run with arguments.\<close>

datatype outcome = Returned bool "string option" WorkflowRun | Calling WorkflowRun jval jobject

definition redactedArgs :: "exec_ctx \<Rightarrow> jobject \<Rightarrow> jval" where
  "redactedArgs ctx args =
     (case JSON_parse (xc_redact ctx (template (stringify (JObj args)))) of Some v \<Rightarrow> v | None \<Rightarrow> JObj [(''redacted'', JBool True)])"

definition definition_step :: "WorkflowRun \<Rightarrow> jval \<Rightarrow> jval result" where
  "definition_step run i =
     (case find (\<lambda>d. step_id d = i) (jitems (jprop (wr_definition run) ''steps'')) of
        None \<Rightarrow> throws (''Workflow definition step missing: '' @ js_String i)
      | Some d \<Rightarrow> Inr d)"

text \<open>\<^verbatim>\<open>def.dependsOn ?? []\<close>, on which \<^verbatim>\<open>find\<close> and \<^verbatim>\<open>every\<close> are called.\<close>

definition exec_deps :: "jval \<Rightarrow> jval list result" where
  "exec_deps d = (case jprop d ''dependsOn'' of JUndef \<Rightarrow> Inr [] | JNull \<Rightarrow> Inr [] | JArr deps \<Rightarrow> Inr deps
     | _ \<Rightarrow> throws ''deps.find is not a function'')"

definition dep_in :: "WorkflowStepState set \<Rightarrow> WorkflowRun \<Rightarrow> jval \<Rightarrow> bool" where
  "dep_in states run i = (case find_step i run of None \<Rightarrow> False | Some s \<Rightarrow> sr_state s \<in> states)"

definition failure_text :: "WorkflowRun \<Rightarrow> string" where
  "failure_text run = (case wr_failure run of None \<Rightarrow> ''Workflow failed.'' | Some t \<Rightarrow> t)"

section \<open>One round of the loop\<close>

definition mark_skip :: "wf_env \<Rightarrow> jval \<Rightarrow> WorkflowRun \<Rightarrow> (wf_store, WorkflowRun) act" where
  "mark_skip env i run =
     bindA (liftR (bindR (definition_step run i) exec_deps)) (\<lambda>deps.
     case find (dep_in {StFailed, StSkipped} run) deps of
       None \<Rightarrow> retA run
     | Some failedDep \<Rightarrow>
         if \<not> js_truthy failedDep then retA run
         else bindA (nowW env) (\<lambda>now. retA
           (set_step i (\<lambda>s. s\<lparr>sr_state := StSkipped, sr_completedAt := Some now,
              sr_note := Some (''Skipped because dependency '' @ js_String failedDep @ '' did not succeed.'')\<rparr>) run)))"

fun mark_skips :: "wf_env \<Rightarrow> jval list \<Rightarrow> WorkflowRun \<Rightarrow> (wf_store, WorkflowRun) act" where
  "mark_skips env [] run = retA run"
| "mark_skips env (i # rest) run = bindA (mark_skip env i run) (mark_skips env rest)"

fun next_step :: "WorkflowRun \<Rightarrow> WorkflowStepRun list \<Rightarrow> WorkflowStepRun option result" where
  "next_step run [] = Inr None"
| "next_step run (s # rest) =
     (if sr_state s \<noteq> StPending then next_step run rest
      else bindR (bindR (definition_step run (sr_id s)) exec_deps) (\<lambda>deps.
           if list_all (dep_in {StSucceeded} run) deps then Inr (Some s) else next_step run rest))"

definition unfinished :: "WorkflowStepRun \<Rightarrow> bool" where
  "unfinished s \<longleftrightarrow> sr_state s = StPending \<or> sr_state s = StRunning \<or> sr_state s = StAwaiting"

text \<open>A run that has nothing left to do.\<close>

definition finish_run :: "wf_env \<Rightarrow> tool_principal \<Rightarrow> WorkflowRun \<Rightarrow> (wf_store, outcome) act" where
  "finish_run env p run =
     (let failed = find (\<lambda>s. sr_state s = StFailed) (wr_steps run) in
      bindA (nowW env) (\<lambda>now.
      bindA (checkpoint env (run\<lparr>wr_state := (if failed = None then WfCompleted else WfFailed),
          wr_failure := (case failed of None \<Rightarrow> None | Some s \<Rightarrow> truthy (sr_note s)), wr_completedAt := Some now,
          wr_currentStepId := JUndef\<rparr>) p) (\<lambda>run.
      retA (if failed = None then Returned True None run else Returned False (Some (failure_text run)) run))))"

text \<open>A run that fails with a message.\<close>

definition fail_run :: "wf_env \<Rightarrow> tool_principal \<Rightarrow> string \<Rightarrow> WorkflowRun \<Rightarrow> (wf_store, outcome) act" where
  "fail_run env p msg run =
     bindA (nowW env) (\<lambda>now.
     bindA (checkpoint env (run\<lparr>wr_state := WfFailed, wr_failure := Some msg, wr_completedAt := Some now\<rparr>) p) (\<lambda>run.
     retA (Returned False (Some (failure_text run)) run)))"

definition step_args :: "jval \<Rightarrow> WorkflowRun \<Rightarrow> jobject result" where
  "step_args d run =
     bindR (resolveWorkflowValue (js_or_else (jprop d ''args'') (JObj [])) run) (\<lambda>v.
       case v of JObj kvs \<Rightarrow> Inr kvs | _ \<Rightarrow> throws (''Resolved args for '' @ js_String (step_id d) @ '' are not an object.''))"

definition plain_message :: "ff_error \<Rightarrow> string" where
  "plain_message e = (case e of PlainError msg \<Rightarrow> msg | _ \<Rightarrow> [])"

text \<open>Step \<open>i\<close> is marked running and the tool called, unless the checkpoint finds the run stopped.\<close>

definition launch :: "wf_env \<Rightarrow> exec_ctx \<Rightarrow> tool_principal \<Rightarrow> jval \<Rightarrow> jobject \<Rightarrow> WorkflowRun \<Rightarrow> (wf_store, outcome) act" where
  "launch env ctx p i args run =
     bindA (nowW env) (\<lambda>now.
     bindA (checkpoint env ((set_step i (\<lambda>s. s\<lparr>sr_state := StRunning, sr_attempts := sr_attempts s + 1,
         sr_startedAt := Some now, sr_resolvedArgs := redactedArgs ctx args\<rparr>) run)\<lparr>wr_currentStepId := i\<rparr>) p) (\<lambda>run.
     if wr_state run = WfPaused then retA (Returned True None run)
     else if wr_state run = WfCancelled then retA (Returned False (Some (''Workflow '' @ wr_id run @ '' was cancelled.'')) run)
     else retA (Calling run i args)))"

definition plan :: "wf_env \<Rightarrow> exec_ctx \<Rightarrow> tool_principal \<Rightarrow> WorkflowRun \<Rightarrow> (wf_store, outcome) act" where
  "plan env ctx p run =
     bindA (mark_skips env (map sr_id (filter (\<lambda>s. sr_state s = StPending) (wr_steps run))) run) (\<lambda>run.
     if \<not> list_ex unfinished (wr_steps run) then finish_run env p run
     else bindA (liftR (next_step run (wr_steps run))) (\<lambda>ns.
       case ns of
         None \<Rightarrow> fail_run env p ''Workflow cannot make progress; dependencies are unresolved.'' run
       | Some s \<Rightarrow>
           bindA (liftR (definition_step run (sr_id s))) (\<lambda>d.
           case step_args d run of
             Inl e \<Rightarrow>
               bindA (nowW env) (\<lambda>now. fail_run env p (plain_message e)
                 (set_step (sr_id s) (\<lambda>s. s\<lparr>sr_state := StFailed, sr_completedAt := Some now, sr_note := Some (plain_message e)\<rparr>) run))
           | Inr args \<Rightarrow> launch env ctx p (sr_id s) args run)))"

text \<open>The loop from its head, where \<open>run\<close> is the executor's copy.\<close>

definition iterate :: "wf_env \<Rightarrow> exec_ctx \<Rightarrow> tool_principal \<Rightarrow> bool \<Rightarrow> WorkflowRun \<Rightarrow> (wf_store, outcome) act" where
  "iterate env ctx p aborted run =
     (if aborted then
        bindA (checkpoint env (run\<lparr>wr_state := WfPaused,
          wr_pauseReason := Some ''Execution cancelled by client; resume will continue from the next unfinished step.''\<rparr>) p) (\<lambda>run.
        retA (Returned True None run))
      else bindA (get_run env (wr_id run) (Some p)) (\<lambda>persisted.
        if wr_state persisted = WfCancelled
        then retA (Returned False (Some (''Workflow '' @ wr_id run @ '' was cancelled.'')) persisted)
        else if wr_state persisted = WfPaused then retA (Returned True None persisted)
        else plan env ctx p run))"

section \<open>The segments of the executor\<close>

definition set_waiting :: "(WorkflowStepRun \<Rightarrow> WorkflowStepRun) \<Rightarrow> WorkflowRun \<Rightarrow> WorkflowRun" where
  "set_waiting f run = run\<lparr>wr_steps := update_first (\<lambda>s. sr_state s = StAwaiting) f (wr_steps run)\<rparr>"

text \<open>The run is set running and saved before the loop.\<close>

definition enter_loop :: "wf_env \<Rightarrow> exec_ctx \<Rightarrow> tool_principal \<Rightarrow> bool \<Rightarrow> WorkflowRun \<Rightarrow> (wf_store, outcome) act" where
  "enter_loop env ctx p aborted run =
     bindA (case wr_startedAt run of Some t \<Rightarrow> retA t | None \<Rightarrow> nowW env) (\<lambda>t.
     bindA (checkpoint env (run\<lparr>wr_state := WfRunning, wr_startedAt := Some t\<rparr>) p) (\<lambda>run.
     iterate env ctx p aborted run))"

definition deny_waiting :: "wf_env \<Rightarrow> tool_principal \<Rightarrow> string \<Rightarrow> WorkflowRun \<Rightarrow> (wf_store, outcome) act" where
  "deny_waiting env p msg run =
     bindA (nowW env) (\<lambda>now. fail_run env p msg
       (set_waiting (\<lambda>s. s\<lparr>sr_state := StFailed, sr_completedAt := Some now, sr_note := Some msg\<rparr>) run))"

definition begin_execution :: "wf_env \<Rightarrow> exec_ctx \<Rightarrow> tool_principal \<Rightarrow> (string \<Rightarrow> ApprovalState option) \<Rightarrow> bool \<Rightarrow> WorkflowRun \<Rightarrow>
    (wf_store, outcome) act" where
  "begin_execution env ctx p approvals aborted run =
     (if wr_state run = WfCompleted then retA (Returned True None run)
      else if wr_state run = WfCancelled \<or> wr_state run = WfFailed
      then retA (Returned False (Some (''Workflow '' @ wr_id run @ '' is '' @ wf_state_text (wr_state run) @ ''.'')) run)
      else case find (\<lambda>s. sr_state s = StAwaiting) (wr_steps run) of
        None \<Rightarrow> enter_loop env ctx p aborted run
      | Some w \<Rightarrow>
          (case (case truthy (sr_approvalId w) of None \<Rightarrow> None | Some a \<Rightarrow> approvals a) of
             Some SApproved \<Rightarrow>
               enter_loop env ctx p aborted ((set_waiting (\<lambda>s. s\<lparr>sr_state := StPending, sr_approvalId := None\<rparr>) run)\<lparr>wr_pauseReason := None\<rparr>)
           | Some SDenied \<Rightarrow> deny_waiting env p ''Approval denied.'' run
           | Some SExpired \<Rightarrow> deny_waiting env p ''Approval expired.'' run
           | _ \<Rightarrow>
               bindA (checkpoint env (run\<lparr>wr_state := WfPaused, wr_pauseReason :=
                 Some (''Awaiting approval '' @ template (sr_approvalId w) @ '' for '' @ js_String (sr_tool w) @ ''.'')\<rparr>) p) (\<lambda>run.
               retA (Returned True None run))))"

text \<open>The result of the call arrives; \<open>run\<close> is the copy from before the call.  The definition of the step was read then.\<close>

definition finish_call :: "wf_env \<Rightarrow> exec_ctx \<Rightarrow> tool_principal \<Rightarrow> bool \<Rightarrow> WorkflowRun \<Rightarrow> jval \<Rightarrow> ToolResult \<Rightarrow> (wf_store, outcome) act" where
  "finish_call env ctx p aborted run i result =
     bindA (liftR (definition_step run i)) (\<lambda>d.
     bindA (nowW env) (\<lambda>now.
     let evidence = workflowEvidence result (xc_redact ctx);
         upd = (\<lambda>f. set_step i (\<lambda>s. f (s\<lparr>sr_evidence := evidence, sr_completedAt := Some now\<rparr>)) run);
         tool = js_String (jprop d ''tool'')
     in case truthy (tr_approvalId result) of
          Some a \<Rightarrow>
            bindA (checkpoint env ((upd (\<lambda>s. s\<lparr>sr_state := StAwaiting, sr_approvalId := Some a, sr_note :=
                Some (case tr_error result of None \<Rightarrow> ''Approval required.'' | Some t \<Rightarrow> t)\<rparr>))
              \<lparr>wr_state := WfPaused, wr_pauseReason := Some (''Awaiting approval '' @ a @ '' for '' @ tool @ ''.'')\<rparr>) p) (\<lambda>run.
            retA (Returned True None run))
        | None \<Rightarrow>
            (let unmet = checkWorkflowExpectation env (jprop d ''expect'') evidence in
             if tr_ok result \<and> unmet = None then
               bindA (checkpoint env (upd (\<lambda>s. s\<lparr>sr_state := StSucceeded, sr_note := None\<rparr>)) p) (\<lambda>run.
               iterate env ctx p aborted run)
             else
               let msg = (case unmet of Some t \<Rightarrow> t | None \<Rightarrow> (case tr_error result of Some t \<Rightarrow> t | None \<Rightarrow> tool @ '' failed.'')) in
               bindA (checkpoint env (upd (\<lambda>s. s\<lparr>sr_state := StFailed, sr_note := Some msg\<rparr>)) p) (\<lambda>run.
               if js_truthy (jprop d ''continueOnError'') then iterate env ctx p aborted run
               else fail_run env p msg run))))"

section \<open>The tools\<close>

text \<open>The handlers throw nothing: they return \<open>fail(error)\<close> with the message of a thrown error, except for errors of the
  executor after its start, whose promise is returned without being awaited.  Both are an \<open>Inl\<close> here.\<close>

definition string_list :: "jval \<Rightarrow> string list option" where
  "string_list v = (case v of JArr vs \<Rightarrow> Some (map js_String vs) | _ \<Rightarrow> None)"

definition string_opt :: "jval \<Rightarrow> string option" where
  "string_opt v = (case v of JStr s \<Rightarrow> Some s | _ \<Rightarrow> None)"

definition workflow_create :: "wf_env \<Rightarrow> exec_ctx \<Rightarrow> string list \<Rightarrow> jobject \<Rightarrow> tool_principal \<Rightarrow> (wf_store, WorkflowRun) act" where
  "workflow_create env ctx available args p =
     (let findings = xc_scan ctx (template (stringify (js_or_else (jget args ''definition'') (JObj []))));
          isolationId = string_opt (jget args ''isolationId'')
      in if findings \<noteq> 0 then throwA (PlainError (''Workflow definition contains '' @ show_nat findings @ '' possible secret(s); use governed env/file references instead.''))
         else bindA (liftR (validateWorkflowDefinition (jget args ''definition'') available)) (\<lambda>d.
         if truthy isolationId \<noteq> None \<and> \<not> xc_isolation ctx (the isolationId)
         then throwA (PlainError (''Unknown isolation: '' @ the isolationId))
         else create_run env d p \<lparr>mi_objective = string_opt (jget args ''objective''),
                mi_acceptanceCriteria = string_list (jget args ''acceptanceCriteria''), mi_isolationId = truthy isolationId,
                mi_knownLimitations = string_list (jget args ''knownLimitations'')\<rparr>))"

definition workflow_run :: "wf_env \<Rightarrow> exec_ctx \<Rightarrow> (string \<Rightarrow> ApprovalState option) \<Rightarrow> bool \<Rightarrow> jobject \<Rightarrow> tool_principal \<Rightarrow>
    (wf_store, outcome) act" where
  "workflow_run env ctx approvals aborted args p =
     bindA (get_run env (js_String (js_or_else (js_or_else (jget args ''id'') (jget args ''workflowId'')) (JStr []))) (Some p)) (\<lambda>run.
     if wr_state run \<noteq> WfCreated
     then retA (Returned False (Some (''workflow_run requires created state; current='' @ wf_state_text (wr_state run) @
            ''. Use workflow_resume for paused runs.'')) run)
     else begin_execution env ctx p approvals aborted run)"

definition workflow_resume :: "wf_env \<Rightarrow> exec_ctx \<Rightarrow> (string \<Rightarrow> ApprovalState option) \<Rightarrow> bool \<Rightarrow> jobject \<Rightarrow> tool_principal \<Rightarrow>
    (wf_store, outcome) act" where
  "workflow_resume env ctx approvals aborted args p =
     bindA (get_run env (js_String (js_or_else (jget args ''id'') (JStr []))) (Some p)) (\<lambda>run.
     if wr_state run \<noteq> WfPaused
     then retA (Returned False (Some (''workflow_resume requires paused state; current='' @ wf_state_text (wr_state run) @ ''.'')) run)
     else begin_execution env ctx p approvals aborted run)"

section \<open>Interleaving\<close>

text \<open>An executor that waits for its call, with its copy of the run.\<close>

record wf_thread =
  th_principal :: tool_principal
  th_run :: WorkflowRun
  th_step :: jval

text \<open>The calls the executors made and the results they received, the last first; a call has the run as it was saved
  before it.\<close>

datatype wf_event = EvCall WorkflowRun jval jobject | EvResult string jval ToolResult

record wf_system =
  sy_store :: wf_store
  sy_threads :: "wf_thread option list"
  sy_log :: "wf_event list"

datatype wf_input =
    InCreate "string list" jobject tool_principal
  | InRun "string \<Rightarrow> ApprovalState option" bool jobject tool_principal
  | InResume "string \<Rightarrow> ApprovalState option" bool jobject tool_principal
  | InResult nat ToolResult bool
  | InCancel string tool_principal
  | InPause string tool_principal "string option"
  | InHandoff string tool_principal string int
  | InClaim string string tool_principal
  | InAddProof string WorkflowProofPackRef tool_principal
  | InRemoveProof string string tool_principal

definition on_store :: "(wf_store, 'a) act \<Rightarrow> wf_system \<Rightarrow> wf_system" where
  "on_store m sys = sys\<lparr>sy_store := snd (m (sy_store sys))\<rparr>"

definition run_segment :: "tool_principal \<Rightarrow> (wf_store, outcome) act \<Rightarrow> wf_system \<Rightarrow> wf_system" where
  "run_segment p m sys =
     (case m (sy_store sys) of
        (Inr (Calling run i args), s) \<Rightarrow>
          sys\<lparr>sy_store := s, sy_threads := sy_threads sys @ [Some \<lparr>th_principal = p, th_run = run, th_step = i\<rparr>],
              sy_log := EvCall run i args # sy_log sys\<rparr>
      | (_, s) \<Rightarrow> sys\<lparr>sy_store := s\<rparr>)"

fun wf_exec :: "wf_env \<Rightarrow> exec_ctx \<Rightarrow> wf_input \<Rightarrow> wf_system \<Rightarrow> wf_system" where
  "wf_exec env ctx (InCreate available args p) = on_store (workflow_create env ctx available args p)"
| "wf_exec env ctx (InRun approvals aborted args p) = run_segment p (workflow_run env ctx approvals aborted args p)"
| "wf_exec env ctx (InResume approvals aborted args p) = run_segment p (workflow_resume env ctx approvals aborted args p)"
| "wf_exec env ctx (InResult k result aborted) = (\<lambda>sys.
     if k < length (sy_threads sys)
     then (case sy_threads sys ! k of
             None \<Rightarrow> sys
           | Some t \<Rightarrow> run_segment (th_principal t)
               (finish_call env ctx (th_principal t) aborted (th_run t) (th_step t) result)
               (sys\<lparr>sy_threads := (sy_threads sys)[k := None],
                    sy_log := EvResult (wr_id (th_run t)) (th_step t) result # sy_log sys\<rparr>))
     else sys)"
| "wf_exec env ctx (InCancel i p) = on_store (cancel_run env i (Some p))"
| "wf_exec env ctx (InPause i p reason) = on_store (pause_run env i p reason)"
| "wf_exec env ctx (InHandoff i p target ttl) = on_store (handoff_run env i p target ttl)"
| "wf_exec env ctx (InClaim i token p) = on_store (claim_run env i token p)"
| "wf_exec env ctx (InAddProof i ref p) = on_store (add_proof_pack env i ref (Some p))"
| "wf_exec env ctx (InRemoveProof i packId p) = on_store (remove_proof_pack env i packId (Some p))"

definition new_system :: wf_system where
  "new_system = \<lparr>sy_store = \<lparr>wv_files = [], wv_reads = 0, wv_draws = 0, wv_writes = 0\<rparr>, sy_threads = [], sy_log = []\<rparr>"

definition wf_runs :: "wf_env \<Rightarrow> exec_ctx \<Rightarrow> wf_input list \<Rightarrow> wf_system" where
  "wf_runs env ctx inputs = foldl (\<lambda>sys x. wf_exec env ctx x sys) new_system inputs"

end
