(* ===== verification/FF_WorkflowSegments.thy ===== *)
theory FF_WorkflowSegments
  imports FF_WorkflowExec
begin

text \<open>
  What the workflow executor guarantees for every interleaving of executors, operators and failing writes: the runs on
  disk stay well formed, tools are called only as the definition allows and after the dependencies, a step is not
  replayed, an undisturbed execution ends, a completed run has done all its steps.

  The proofs follow how a segment changes its run: \<open>quiet\<close> moves of steps that call nothing, the launch of one step
  (\<open>launched\<close>) and the result of one (\<open>settled\<close>).
\<close>

section \<open>Well-formed runs\<close>

text \<open>The definition of a run is valid, and its steps are those of the definition.\<close>

definition def_steps :: "WorkflowRun \<Rightarrow> jval list" where
  "def_steps r = jitems (jprop (wr_definition r) ''steps'')"

definition step_key :: "WorkflowStepRun \<Rightarrow> jval \<times> jval \<times> jval" where
  "step_key s = (sr_id s, sr_role s, sr_tool s)"

definition run_wf :: "WorkflowRun \<Rightarrow> bool" where
  "run_wf r \<longleftrightarrow> (\<exists>available. valid_definition available (wr_definition r)) \<and>
     map step_key (wr_steps r) = map (\<lambda>d. (step_id d, jprop d ''role'', jprop d ''tool'')) (def_steps r)"

lemma run_wf_ids: "run_wf r \<Longrightarrow> map sr_id (wr_steps r) = map step_id (def_steps r)"
proof -
  assume "run_wf r"
  then have "map fst (map step_key (wr_steps r)) = map fst (map (\<lambda>d. (step_id d, jprop d ''role'', jprop d ''tool'')) (def_steps r))"
    by (simp add: run_wf_def)
  then show ?thesis by (simp add: comp_def step_key_def)
qed

lemma run_wf_distinct: "run_wf r \<Longrightarrow> distinct (map sr_id (wr_steps r))"
  using run_wf_ids [of r] by (auto simp: run_wf_def valid_definition_def def_steps_def jitems_def)

lemma definition_step_iff: "definition_step r i = Inr d \<longleftrightarrow> find (\<lambda>d. step_id d = i) (def_steps r) = Some d"
  by (auto simp: definition_step_def def_steps_def throws_def split: option.splits)

lemma find_step_Some: "find_step i r = Some s \<Longrightarrow> s \<in> set (wr_steps r) \<and> sr_id s = i"
  by (auto simp: find_step_def dest: find_SomeD)

lemma find_step_in: "run_wf r \<Longrightarrow> s \<in> set (wr_steps r) \<Longrightarrow> find_step (sr_id s) r = Some s"
  unfolding find_step_def by (rule find_key_unique [OF run_wf_distinct])

section \<open>Moves of steps\<close>

definition quiet :: "WorkflowStepRun \<Rightarrow> WorkflowStepRun \<Rightarrow> bool" where
  "quiet s s' \<longleftrightarrow> step_key s' = step_key s \<and> sr_attempts s' = sr_attempts s \<and>
     (sr_state s' = sr_state s \<or> sr_state s = StPending \<and> sr_state s' \<in> {StSkipped, StFailed} \<or>
      sr_state s = StAwaiting \<and> sr_state s' \<in> {StPending, StSkipped, StFailed})"

definition run_quiet :: "WorkflowRun \<Rightarrow> WorkflowRun \<Rightarrow> bool" where
  "run_quiet r r' \<longleftrightarrow> wr_id r' = wr_id r \<and> wr_definition r' = wr_definition r \<and> list_all2 quiet (wr_steps r) (wr_steps r')"

lemma quiet_refl [simp]: "quiet s s"
  by (simp add: quiet_def)

lemma quiet_trans: "quiet a b \<Longrightarrow> quiet b c \<Longrightarrow> quiet a c"
  by (auto simp: quiet_def)

lemma run_quiet_same: "wr_id r' = wr_id r \<Longrightarrow> wr_definition r' = wr_definition r \<Longrightarrow> wr_steps r' = wr_steps r \<Longrightarrow> run_quiet r r'"
  by (simp add: run_quiet_def list_all2_refl)

lemma run_quiet_refl [simp]: "run_quiet r r"
  by (simp add: run_quiet_same)

lemma run_quiet_trans: "run_quiet a b \<Longrightarrow> run_quiet b c \<Longrightarrow> run_quiet a c"
  unfolding run_quiet_def by (auto intro: list_all2_trans [of quiet quiet quiet] quiet_trans)

lemma update_first_all2: "(\<And>s. p s \<Longrightarrow> s \<in> set ss \<Longrightarrow> P s (f s)) \<Longrightarrow> (\<And>s. P s s) \<Longrightarrow> list_all2 P ss (update_first p f ss)"
  by (induction ss) (auto simp: list_all2_refl)

lemma run_wf_cong:
  "wr_definition r' = wr_definition r \<Longrightarrow> map step_key (wr_steps r') = map step_key (wr_steps r) \<Longrightarrow> run_wf r' = run_wf r"
  by (simp add: run_wf_def def_steps_def)

lemma keys_all2: "list_all2 P ss ts \<Longrightarrow> (\<And>s t. P s t \<Longrightarrow> step_key t = step_key s) \<Longrightarrow> map step_key ts = map step_key ss"
  by (induction rule: list_all2_induct) auto

lemma run_quiet_wf: "run_quiet r r' \<Longrightarrow> run_wf r' = run_wf r"
  by (rule run_wf_cong) (auto simp: run_quiet_def quiet_def dest!: keys_all2)

text \<open>Looking up a step in two runs that correspond step by step.\<close>

lemma find_all2:
  assumes "list_all2 P ss ts" "\<And>s t. P s t \<Longrightarrow> k t = k s"
  shows "rel_option P (find (\<lambda>s. k s = i) ss) (find (\<lambda>s. k s = i) ts)"
  using assms(1) by (induction rule: list_all2_induct) (auto simp: assms(2))

lemma run_quiet_find:
  assumes "run_quiet r r'"
  shows "rel_option quiet (find_step i r) (find_step i r')"
  unfolding find_step_def
  by (rule find_all2) (use assms in \<open>auto simp: run_quiet_def quiet_def step_key_def\<close>)

lemma find_update_first_key:
  assumes "\<And>s. k (f s) = k s"
  shows "find (\<lambda>s. k s = j) (update_first (\<lambda>s. k s = i) f ss) =
     (if j = i then map_option f (find (\<lambda>s. k s = i) ss) else find (\<lambda>s. k s = j) ss)"
  by (induction ss) (auto simp: assms)

lemma find_step_set_step:
  assumes "\<And>s. sr_id (f s) = sr_id s"
  shows "find_step j (set_step i f r) = (if j = i then map_option f (find_step i r) else find_step j r)"
  by (simp add: find_step_def set_step_def find_update_first_key [of sr_id, OF assms])

section \<open>Skipped steps and completed runs\<close>

definition skips_ok :: "WorkflowRun \<Rightarrow> bool" where
  "skips_ok r \<longleftrightarrow> (\<forall>s \<in> set (wr_steps r). sr_state s = StSkipped \<longrightarrow>
     (\<exists>d deps. definition_step r (sr_id s) = Inr d \<and> exec_deps d = Inr deps \<and>
        list_ex (dep_in {StFailed, StSkipped} r) deps))"

definition done_ok :: "WorkflowRun \<Rightarrow> bool" where
  "done_ok r \<longleftrightarrow> (wr_state r = WfCompleted \<longrightarrow> (\<forall>s \<in> set (wr_steps r). sr_state s \<in> {StSucceeded, StSkipped}))"

definition wf_ok :: "WorkflowRun \<Rightarrow> bool" where
  "wf_ok r \<longleftrightarrow> run_wf r \<and> skips_ok r \<and> done_ok r"

lemma definition_step_cong: "wr_definition r' = wr_definition r \<Longrightarrow> definition_step r' i = definition_step r i"
  by (simp add: definition_step_def)

text \<open>Steps that correspond and keep their final failures: a skipped step keeps its reason.\<close>

lemma skips_ok_move:
  assumes "skips_ok r" "wr_definition r' = wr_definition r" "list_all2 P (wr_steps r) (wr_steps r')"
    and P: "\<And>s t. P s t \<Longrightarrow> sr_id t = sr_id s \<and> (sr_state s \<in> {StFailed, StSkipped} \<longrightarrow> sr_state t \<in> {StFailed, StSkipped})"
    and new: "\<And>s t. P s t \<Longrightarrow> s \<in> set (wr_steps r) \<Longrightarrow> t \<in> set (wr_steps r') \<Longrightarrow> sr_state t = StSkipped \<Longrightarrow> sr_state s \<noteq> StSkipped \<Longrightarrow>
      \<exists>d deps. definition_step r (sr_id s) = Inr d \<and> exec_deps d = Inr deps \<and> list_ex (dep_in {StFailed, StSkipped} r) deps"
  shows "skips_ok r'"
  unfolding skips_ok_def
proof (intro ballI impI)
  fix t assume t: "t \<in> set (wr_steps r')" "sr_state t = StSkipped"
  obtain s where s: "s \<in> set (wr_steps r)" "P s t"
    using assms(3) t(1) by (metis list_all2_conv_all_nth in_set_conv_nth)
  have dep: "dep_in {StFailed, StSkipped} r j \<Longrightarrow> dep_in {StFailed, StSkipped} r' j" for j
  proof -
    have "rel_option P (find_step j r) (find_step j r')"
      unfolding find_step_def by (rule find_all2 [OF assms(3)]) (use P in blast)
    then show "dep_in {StFailed, StSkipped} r j \<Longrightarrow> dep_in {StFailed, StSkipped} r' j"
      using P by (auto simp: dep_in_def rel_option_iff split: option.splits)
  qed
  have "\<exists>d deps. definition_step r (sr_id s) = Inr d \<and> exec_deps d = Inr deps \<and> list_ex (dep_in {StFailed, StSkipped} r) deps"
  proof (cases "sr_state s = StSkipped")
    case True
    with assms(1) s(1) show ?thesis by (auto simp: skips_ok_def)
  next
    case False
    show ?thesis by (rule new [OF s(2,1) t False])
  qed
  then show "\<exists>d deps. definition_step r' (sr_id t) = Inr d \<and> exec_deps d = Inr deps \<and> list_ex (dep_in {StFailed, StSkipped} r') deps"
    using P [OF s(2)] dep definition_step_cong [OF assms(2)] by (fastforce simp: list_ex_iff)
qed


section \<open>What a segment does to its run\<close>

text \<open>The call of step \<open>i\<close> is due in the run \<open>r\<close> that was saved before it.\<close>

definition call_due :: "WorkflowRun \<Rightarrow> jval \<Rightarrow> jobject \<Rightarrow> bool" where
  "call_due r i args \<longleftrightarrow> (\<exists>d deps. definition_step r i = Inr d \<and> exec_deps d = Inr deps \<and>
     list_all (dep_in {StSucceeded} r) deps \<and> step_args d r = Inr args)"

definition launch_move :: "jval \<Rightarrow> WorkflowStepRun \<Rightarrow> WorkflowStepRun \<Rightarrow> bool" where
  "launch_move i s t \<longleftrightarrow> (if sr_id s = i
     then step_key t = step_key s \<and> sr_state s \<in> {StPending, StAwaiting} \<and> sr_state t = StRunning \<and> sr_attempts t = sr_attempts s + 1
     else quiet s t)"

definition launched :: "WorkflowRun \<Rightarrow> jval \<Rightarrow> jobject \<Rightarrow> WorkflowRun \<Rightarrow> bool" where
  "launched run i args r' \<longleftrightarrow> wr_id r' = wr_id run \<and> wr_definition r' = wr_definition run \<and> wr_state r' = WfRunning \<and>
     wr_currentStepId r' = i \<and> wr_revision run < wr_revision r' \<and> list_all2 (launch_move i) (wr_steps run) (wr_steps r') \<and>
     find_step i r' \<noteq> None \<and> call_due r' i args"

text \<open>\<open>run\<close> is the run on disk when the segment starts, \<open>r'\<close> when it ends.\<close>

definition seg_post :: "WorkflowRun \<Rightarrow> wf_store \<Rightarrow> outcome result \<times> wf_store \<Rightarrow> bool" where
  "seg_post run s x \<longleftrightarrow> (\<exists>r'. map_of (wv_files (snd x)) = (map_of (wv_files s))(wr_id run \<mapsto> r') \<and> wf_ok r' \<and>
     (r' = run \<or> wr_revision run < wr_revision r') \<and>
     (case fst x of Inr (Calling R i args) \<Rightarrow> R = r' \<and> launched run i args r' | _ \<Rightarrow> run_quiet run r'))"

lemma quiet_then_launch: "quiet s t \<Longrightarrow> launch_move i t u \<Longrightarrow> launch_move i s u"
  by (auto simp: launch_move_def quiet_def step_key_def split: if_splits)

lemma launched_after_quiet:
  "run_quiet run r1 \<Longrightarrow> wr_revision run \<le> wr_revision r1 \<Longrightarrow> launched r1 i args r' \<Longrightarrow> launched run i args r'"
proof -
  assume a: "run_quiet run r1" "wr_revision run \<le> wr_revision r1" "launched r1 i args r'"
  then have q: "list_all2 quiet (wr_steps run) (wr_steps r1)" and l: "list_all2 (launch_move i) (wr_steps r1) (wr_steps r')"
    by (simp_all add: launched_def run_quiet_def)
  have "list_all2 (launch_move i) (wr_steps run) (wr_steps r')"
    by (rule list_all2_trans [OF _ q l]) (rule quiet_then_launch)
  with a show "launched run i args r'" by (auto simp: launched_def run_quiet_def)
qed

lemma seg_post_stay:
  assumes "map_of (wv_files s) (wr_id run) = Some run" "wf_ok run" "wv_files s' = wv_files s"
    and "\<And>R i args. res \<noteq> Inr (Calling R i args)"
  shows "seg_post run s (res, s')"
proof -
  have "(case res of Inr (Calling R i args) \<Rightarrow> R = run \<and> launched run i args run | _ \<Rightarrow> run_quiet run run)"
    using assms(4) by (auto split: sum.split outcome.split)
  moreover have "map_of (wv_files s') = (map_of (wv_files s))(wr_id run \<mapsto> run)"
    using assms(1,3) by (simp add: fun_upd_idem)
  ultimately show ?thesis unfolding seg_post_def using assms(2) by fastforce
qed

lemma seg_post_trans:
  assumes "map_of (wv_files s1) = (map_of (wv_files s))(wr_id run \<mapsto> r1)" "run_quiet run r1"
    "wr_revision run < wr_revision r1" "seg_post r1 s1 x"
  shows "seg_post run s x"
proof -
  have i: "wr_id r1 = wr_id run" using assms(2) by (simp add: run_quiet_def)
  obtain r' where r': "map_of (wv_files (snd x)) = (map_of (wv_files s1))(wr_id r1 \<mapsto> r')" "wf_ok r'"
    "r' = r1 \<or> wr_revision r1 < wr_revision r'"
    "case fst x of Inr (Calling R i args) \<Rightarrow> R = r' \<and> launched r1 i args r' | _ \<Rightarrow> run_quiet r1 r'"
    using assms(4) by (auto simp: seg_post_def)
  have "case fst x of Inr (Calling R i args) \<Rightarrow> R = r' \<and> launched run i args r' | _ \<Rightarrow> run_quiet run r'"
    using r'(4) launched_after_quiet [OF assms(2)] run_quiet_trans [OF assms(2)] assms(3)
    by (auto split: sum.splits outcome.splits)
  moreover have "map_of (wv_files (snd x)) = (map_of (wv_files s))(wr_id run \<mapsto> r')"
    using r'(1) assms(1) i by simp
  moreover have "wr_revision run < wr_revision r'" using assms(3) r'(3) by auto
  ultimately show ?thesis using r'(2) unfolding seg_post_def by blast
qed

lemma seg_post_reads [simp]: "seg_post run (s\<lparr>wv_reads := n\<rparr>) x = seg_post run s x"
  by (simp add: seg_post_def)

lemma bind_nowW [simp]: "bindA (nowW env) f s = f (wv_now env (wv_reads s)) (s\<lparr>wv_reads := Suc (wv_reads s)\<rparr>)"
  by (simp add: bindA_def nowW_def)

lemma bind_retA [simp]: "bindA (retA x) f s = f x s"
  by (simp add: act_defs)

text \<open>What an executor may hold in memory before it saves: quiet moves away from the file.\<close>

definition derived :: "WorkflowRun \<Rightarrow> WorkflowRun \<Rightarrow> bool" where
  "derived run c \<longleftrightarrow> wr_revision c = wr_revision run \<and> run_quiet run c \<and> skips_ok c"

lemma checkpoint_derived:
  assumes "bindA (checkpoint env c p) f s = (res, s')"
    and "map_of (wv_files s) (wr_id run) = Some run" "wf_ok run" "derived run c" "done_ok c"
    and "\<And>r1 s1. saved_as c r1 \<Longrightarrow> map_of (wv_files s1) (wr_id r1) = Some r1 \<Longrightarrow> wf_ok r1 \<Longrightarrow> f r1 s1 = (res, s') \<Longrightarrow>
      seg_post r1 s1 (res, s')"
  shows "seg_post run s (res, s')"
proof -
  have i: "wr_id c = wr_id run" and q: "run_quiet run c" using assms(4) by (simp_all add: derived_def run_quiet_def)
  obtain x s1 where x: "checkpoint env c p s = (x, s1)" by (cases "checkpoint env c p s")
  from x show ?thesis
  proof (cases rule: checkpoint_cases)
    case (thrown e)
    with assms(1) x have "res = Inl e" "s' = s1" by (simp_all add: bindA_def)
    then show ?thesis using seg_post_stay [OF assms(2,3) thrown(2)] by simp
  next
    case (matched cur r1)
    have f: "f r1 s1 = (res, s')" using assms(1) x matched(3) by (simp add: bindA_def)
    have same: "wr_steps r1 = wr_steps c" "wr_definition r1 = wr_definition c" "wr_state r1 = wr_state c" "wr_id r1 = wr_id c"
      using matched(4) by simp_all
    have ok: "wf_ok r1"
    proof -
      have "run_wf r1 = run_wf c" by (rule run_wf_cong) (simp_all add: same)
      moreover have "run_wf c" using run_quiet_wf [OF q] assms(3) by (simp add: wf_ok_def)
      moreover have "skips_ok r1"
        by (rule skips_ok_move [of c r1 "(=)"]) (use assms(4) same in \<open>auto simp: derived_def list.rel_eq\<close>)
      ultimately show ?thesis using assms(5) same by (simp add: wf_ok_def done_ok_def)
    qed
    have "run_quiet run r1"
      by (rule run_quiet_trans [OF q run_quiet_same]) (simp_all add: same)
    moreover have "wr_revision run < wr_revision r1" using matched(4) assms(4) by (simp add: derived_def)
    moreover have "map_of (wv_files s1) (wr_id r1) = Some r1" using matched(5) same i by simp
    ultimately show ?thesis
      using seg_post_trans [OF _ _ _ assms(6) [OF matched(4) _ ok f]] matched(5) i by simp
  next
    case (merged cur r1)
    with assms(2,4) i show ?thesis by (simp add: derived_def)
  qed
qed


section \<open>One round\<close>

lemma set_step_fields [simp]:
  "wr_id (set_step i f r) = wr_id r" "wr_definition (set_step i f r) = wr_definition r" "wr_state (set_step i f r) = wr_state r"
  "wr_revision (set_step i f r) = wr_revision r"
  by (simp_all add: set_step_def)

lemma set_step_all2:
  assumes "run_wf r" "find_step i r = Some s0" "P s0 (f s0)" "\<And>s. sr_id s \<noteq> i \<Longrightarrow> P s s"
  shows "list_all2 P (wr_steps r) (wr_steps (set_step i f r))"
proof -
  have "list_all2 P ss (update_first (\<lambda>s. sr_id s = i) f ss)"
    if "distinct (map sr_id ss)" "find (\<lambda>s. sr_id s = i) ss = Some s0" for ss
    using that
  proof (induction ss)
    case (Cons s ss)
    have keep: "list_all2 P ts ts" if "i \<notin> sr_id ` set ts" for ts
      using that assms(4) by (induction ts) auto
    show ?case
    proof (cases "sr_id s = i")
      case True
      with Cons.prems keep [of ss] assms(3) show ?thesis by auto
    next
      case False
      then show ?thesis using Cons assms(4) by auto
    qed
  qed simp
  then show ?thesis using run_wf_distinct [OF assms(1)] assms(2) by (simp add: set_step_def find_step_def)
qed

lemma set_step_quiet:
  assumes "run_wf r" "find_step i r = Some s0" "quiet s0 (f s0)"
  shows "run_quiet r (set_step i f r)"
  using set_step_all2 [of r i s0 quiet f] assms by (simp add: run_quiet_def)

lemma bind_liftR: "bindA (liftR x) f s = (case x of Inl e \<Rightarrow> (Inl e, s) | Inr v \<Rightarrow> f v s)"
  by (simp add: act_defs)

lemma mark_skip_spec:
  assumes "mark_skip env i run s = (Inr c, s')" "run_wf run" "skips_ok run"
    and "find_step i run = Some x" "sr_state x = StPending"
  shows "run_quiet run c \<and> skips_ok c \<and> wr_revision c = wr_revision run \<and> wr_state c = wr_state run \<and>
    (\<forall>j. j \<noteq> i \<longrightarrow> find_step j c = find_step j run)"
proof -
  obtain d deps where d: "definition_step run i = Inr d" "exec_deps d = Inr deps"
    using assms(1) by (auto simp: mark_skip_def bind_liftR split: sum.splits)
  consider (same) "c = run"
    | (skip) j now msg where "find (dep_in {StFailed, StSkipped} run) deps = Some j"
        "c = set_step i (\<lambda>s. s\<lparr>sr_state := StSkipped, sr_completedAt := Some now, sr_note := msg\<rparr>) run"
    using assms(1) d by (auto simp: mark_skip_def bind_liftR retA_def split: option.splits if_splits)
  then show ?thesis
  proof cases
    case same
    with assms(3) show ?thesis by simp
  next
    case skip
    let ?P = "\<lambda>s t. s = t \<or> sr_id s = i \<and> sr_state s = StPending \<and> quiet s t"
    have q: "run_quiet run c"
      unfolding skip(2) by (rule set_step_quiet [OF assms(2,4)]) (simp add: quiet_def step_key_def assms(5))
    have all: "list_all2 ?P (wr_steps run) (wr_steps c)"
      unfolding skip(2) by (rule set_step_all2 [OF assms(2,4)])
        (use find_step_Some [OF assms(4)] assms(5) in \<open>auto simp: quiet_def step_key_def\<close>)
    have "skips_ok c"
    proof (rule skips_ok_move [OF assms(3) _ all])
      show "wr_definition c = wr_definition run" by (simp add: skip(2))
      show "sr_id t = sr_id s \<and> (sr_state s \<in> {StFailed, StSkipped} \<longrightarrow> sr_state t \<in> {StFailed, StSkipped})" if "?P s t" for s t
        using that by (auto simp: quiet_def step_key_def)
      show "\<exists>d deps. definition_step run (sr_id s) = Inr d \<and> exec_deps d = Inr deps \<and> list_ex (dep_in {StFailed, StSkipped} run) deps"
        if "?P s t" "sr_state t = StSkipped" "sr_state s \<noteq> StSkipped" for s t
      proof -
        have "sr_id s = i" using that by auto
        moreover have "list_ex (dep_in {StFailed, StSkipped} run) deps"
          using find_SomeD [OF skip(1)] by (auto simp: list_ex_iff)
        ultimately show ?thesis using d by blast
      qed
    qed
    with q show ?thesis by (simp add: skip(2) find_step_set_step)
  qed
qed

lemma mark_skip_files: "wv_files (snd (mark_skip env i run s)) = wv_files s"
  by (auto simp: mark_skip_def bind_liftR retA_def split: sum.splits option.splits)

lemma mark_skips_spec:
  assumes "mark_skips env ids run s = (res, s')" "run_wf run" "skips_ok run" "distinct ids"
    and "\<And>i. i \<in> set ids \<Longrightarrow> \<exists>x. find_step i run = Some x \<and> sr_state x = StPending"
  shows "wv_files s' = wv_files s \<and>
    (case res of Inl e \<Rightarrow> True
     | Inr c \<Rightarrow> run_quiet run c \<and> skips_ok c \<and> wr_revision c = wr_revision run \<and> wr_state c = wr_state run)"
  using assms
proof (induction ids arbitrary: run s)
  case (Cons i rest)
  obtain r s1 where m: "mark_skip env i run s = (r, s1)" by (cases "mark_skip env i run s")
  then have f: "wv_files s1 = wv_files s" using mark_skip_files [of env i run s] by simp
  show ?case
  proof (cases r)
    case (Inl e)
    with Cons.prems(1) m f show ?thesis by (auto simp: bindA_def)
  next
    case (Inr c)
    obtain x where x: "find_step i run = Some x" "sr_state x = StPending" using Cons.prems(5) [of i] by auto
    note spec = mark_skip_spec [OF m [unfolded Inr] Cons.prems(2,3) x]
    have "mark_skips env rest c s1 = (res, s')" using Cons.prems(1) m Inr by (simp add: bindA_def)
    moreover have "run_wf c" using spec run_quiet_wf Cons.prems(2) by blast
    moreover have "\<exists>x. find_step j c = Some x \<and> sr_state x = StPending" if "j \<in> set rest" for j
      using spec Cons.prems(4,5) that by (metis distinct.simps(2) list.set_intros(2))
    ultimately have "wv_files s' = wv_files s1 \<and>
      (case res of Inl e \<Rightarrow> True
       | Inr c' \<Rightarrow> run_quiet c c' \<and> skips_ok c' \<and> wr_revision c' = wr_revision c \<and> wr_state c' = wr_state c)"
      using Cons.IH spec Cons.prems(4) by simp
    with f spec show ?thesis by (auto split: sum.splits intro: run_quiet_trans)
  qed
qed (auto simp: act_defs)

lemma next_step_spec:
  "next_step run ss = Inr (Some s) \<Longrightarrow> s \<in> set ss \<and> sr_state s = StPending \<and>
     (\<exists>d deps. definition_step run (sr_id s) = Inr d \<and> exec_deps d = Inr deps \<and> list_all (dep_in {StSucceeded} run) deps)"
  by (induction ss) (auto split: if_splits)


section \<open>References and arguments\<close>

definition reference_view :: "WorkflowStepRun \<Rightarrow> jval \<times> jval" where
  "reference_view s = (sr_id s, sr_evidence s)"

lemma find_same_view:
  "map reference_view ss = map reference_view ts \<Longrightarrow>
     map_option reference_view (find (\<lambda>s. sr_id s = i) ss) = map_option reference_view (find (\<lambda>s. sr_id s = i) ts)"
proof (induction ss arbitrary: ts)
  case (Cons s ss)
  then obtain t ts' where t: "ts = t # ts'" "reference_view t = reference_view s" by (cases ts) auto
  then have "sr_id t = sr_id s" by (simp add: reference_view_def)
  with Cons t show ?case by simp
qed simp

lemma resolve_object_cong:
  assumes "map reference_view ss = map reference_view ts"
    and "\<And>v. jget kvs ''$step'' = v \<Longrightarrow> \<not> is_string v \<Longrightarrow> resolve_entries ss kvs = resolve_entries ts kvs"
  shows "resolve_value ss (JObj kvs) = resolve_value ts (JObj kvs)"
proof (cases "jget kvs ''$step''")
  case (JStr ref)
  note same = find_same_view [OF assms(1), of "JStr ref"]
  show ?thesis
  proof (cases "find (\<lambda>s. sr_id s = JStr ref) ss")
    case None
    with same have "find (\<lambda>s. sr_id s = JStr ref) ts = None" by simp
    with None JStr show ?thesis by simp
  next
    case (Some s)
    with same obtain t where "find (\<lambda>s. sr_id s = JStr ref) ts = Some t" "reference_view s = reference_view t"
      by (cases "find (\<lambda>s. sr_id s = JStr ref) ts") simp_all
    with Some JStr show ?thesis by (simp add: reference_view_def Let_def)
  qed
qed (use assms(2) in simp_all)

lemma resolve_cong:
  assumes "map reference_view ss = map reference_view ts"
  shows "resolve_value ss v = resolve_value ts v" "resolve_items ss vs = resolve_items ts vs"
    "resolve_entries ss kvs = resolve_entries ts kvs"
  using assms
proof (induction ss v and ss vs and ss kvs rule: resolve_value_resolve_items_resolve_entries.induct)
  case (2 steps kvs)
  show ?case
  proof (rule resolve_object_cong [OF 2(7)])
    fix v
    assume v: "jget kvs ''$step'' = v" "\<not> is_string v"
    show "resolve_entries steps kvs = resolve_entries ts kvs"
    proof (cases v)
      case JUndef show ?thesis by (rule 2(1) [OF v(1) [unfolded JUndef] 2(7)])
    next
      case JNull show ?thesis by (rule 2(2) [OF v(1) [unfolded JNull] 2(7)])
    next
      case (JBool x) show ?thesis by (rule 2(3) [OF v(1) [unfolded JBool] 2(7)])
    next
      case (JNum x) show ?thesis by (rule 2(4) [OF v(1) [unfolded JNum] 2(7)])
    next
      case (JArr x) show ?thesis by (rule 2(5) [OF v(1) [unfolded JArr] 2(7)])
    next
      case (JObj x) show ?thesis by (rule 2(6) [OF v(1) [unfolded JObj] 2(7)])
    qed (use v in simp)
  qed
qed simp_all

lemma step_args_cong:
  "map reference_view (wr_steps r') = map reference_view (wr_steps r) \<Longrightarrow> step_args d r' = step_args d r"
  using resolve_cong(1) [of "wr_steps r'" "wr_steps r"] by (simp add: step_args_def resolveWorkflowValue_def)

section \<open>The outcomes of a round\<close>

lemma post_cases: "(\<And>res s'. m s = (res, s') \<Longrightarrow> seg_post run s (res, s')) \<Longrightarrow> seg_post run s (m s)"
  by (cases "m s") simp

lemma dep_in_cong: "wr_steps r' = wr_steps r \<Longrightarrow> dep_in states r' = dep_in states r"
  by (simp add: dep_in_def find_step_def fun_eq_iff)

lemma derived_cong:
  "wr_id c' = wr_id c \<Longrightarrow> wr_definition c' = wr_definition c \<Longrightarrow> wr_steps c' = wr_steps c \<Longrightarrow> wr_revision c' = wr_revision c \<Longrightarrow>
     derived run c' = derived run c"
  using dep_in_cong [of c' c "{StFailed, StSkipped}"] definition_step_cong [of c' c]
  by (simp add: derived_def run_quiet_def skips_ok_def)

lemma checkpoint_return:
  assumes "map_of (wv_files s) (wr_id run) = Some run" "wf_ok run" "derived run c" "done_ok c"
    and "\<And>r R i args. g r \<noteq> Inr (Calling R i args)"
  shows "seg_post run s (bindA (checkpoint env c p) (\<lambda>r s. (g r, s)) s)"
proof (rule post_cases)
  fix res s'
  assume "bindA (checkpoint env c p) (\<lambda>r s. (g r, s)) s = (res, s')"
  then show "seg_post run s (res, s')"
  proof (rule checkpoint_derived [OF _ assms(1-4)])
    fix r1 s1
    assume r1: "map_of (wv_files s1) (wr_id r1) = Some r1" "wf_ok r1" "(g r1, s1) = (res, s')"
    show "seg_post r1 s1 (res, s')"
      by (rule seg_post_stay [OF r1(1,2)]) (use r1(3) assms(5) in auto)
  qed
qed

lemma retA_pair: "(\<lambda>r. retA (f r)) = (\<lambda>r s. (Inr (f r), s))"
  by (simp add: retA_def fun_eq_iff)

lemma fail_run_post:
  assumes "map_of (wv_files s) (wr_id run) = Some run" "wf_ok run" "derived run c"
  shows "seg_post run s (fail_run env p msg c s)"
proof -
  define c' where "c' = c\<lparr>wr_state := WfFailed, wr_failure := Some msg, wr_completedAt := Some (wv_now env (wv_reads s))\<rparr>"
  define s1 where "s1 = s\<lparr>wv_reads := Suc (wv_reads s)\<rparr>"
  have "derived run c'" "done_ok c'"
    using assms(3) derived_cong [of c' c run] by (simp_all add: c'_def done_ok_def)
  then have "seg_post run s1 (bindA (checkpoint env c' p) (\<lambda>r s. (Inr (Returned False (Some (failure_text r)) r), s)) s1)"
    by (intro checkpoint_return) (use assms(1,2) in \<open>simp_all add: s1_def\<close>)
  moreover have "fail_run env p msg c s = bindA (checkpoint env c' p) (\<lambda>r s. (Inr (Returned False (Some (failure_text r)) r), s)) s1"
    by (simp add: fail_run_def c'_def s1_def retA_def [abs_def])
  ultimately show ?thesis by (simp add: s1_def)
qed

lemma finish_run_post:
  assumes "map_of (wv_files s) (wr_id run) = Some run" "wf_ok run" "derived run c" "\<not> list_ex unfinished (wr_steps c)"
  shows "seg_post run s (finish_run env p c s)"
proof -
  define failed where "failed = find (\<lambda>s. sr_state s = StFailed) (wr_steps c)"
  define c' where "c' = c\<lparr>wr_state := (if failed = None then WfCompleted else WfFailed),
          wr_failure := (case failed of None \<Rightarrow> None | Some s \<Rightarrow> truthy (sr_note s)),
          wr_completedAt := Some (wv_now env (wv_reads s)), wr_currentStepId := JUndef\<rparr>"
  define s1 where "s1 = s\<lparr>wv_reads := Suc (wv_reads s)\<rparr>"
  define g where "g r = (Inr (if failed = None then Returned True None r else Returned False (Some (failure_text r)) r) :: outcome result)"
    for r :: WorkflowRun
  have "derived run c'"
    using assms(3) derived_cong [of c' c run] by (simp add: c'_def)
  moreover have "done_ok c'"
  proof -
    have "sr_state x \<in> {StSucceeded, StSkipped}" if "failed = None" "x \<in> set (wr_steps c)" for x
      using that assms(4) by (cases "sr_state x") (auto simp: failed_def find_None_iff_all list_ex_iff unfinished_def)
    then show ?thesis by (auto simp: done_ok_def c'_def)
  qed
  ultimately have "seg_post run s1 (bindA (checkpoint env c' p) (\<lambda>r s. (g r, s)) s1)"
    by (intro checkpoint_return) (use assms(1,2) in \<open>simp_all add: s1_def g_def\<close>)
  moreover have "finish_run env p c s = bindA (checkpoint env c' p) (\<lambda>r s. (g r, s)) s1"
    by (simp add: finish_run_def c'_def s1_def g_def failed_def Let_def retA_def [abs_def])
  ultimately show ?thesis by (simp add: s1_def)
qed


text \<open>The launch of a pending step whose dependencies have succeeded.\<close>

definition start_step :: "int \<Rightarrow> jval \<Rightarrow> WorkflowStepRun \<Rightarrow> WorkflowStepRun" where
  "start_step now v s = s\<lparr>sr_state := StRunning, sr_attempts := sr_attempts s + 1, sr_startedAt := Some now, sr_resolvedArgs := v\<rparr>"

lemma start_step_simps [simp]:
  "sr_id (start_step now v s) = sr_id s" "step_key (start_step now v s) = step_key s"
  "sr_state (start_step now v s) = StRunning" "sr_attempts (start_step now v s) = sr_attempts s + 1"
  "reference_view (start_step now v s) = reference_view s"
  by (simp_all add: start_step_def step_key_def reference_view_def)

lemma started_run:
  assumes "run_wf c" "skips_ok c" "find_step i c = Some x" "sr_state x = StPending" "wr_state c = WfRunning"
    and due: "definition_step c i = Inr d" "exec_deps d = Inr deps" "list_all (dep_in {StSucceeded} c) deps" "step_args d c = Inr args"
    and r1: "wr_definition r1 = wr_definition c" "wr_state r1 = WfRunning" "wr_steps r1 = wr_steps (set_step i (start_step now v) c)"
  shows "wf_ok r1" "list_all2 (launch_move i) (wr_steps c) (wr_steps r1)" "find_step i r1 \<noteq> None" "call_due r1 i args"
proof -
  have all: "list_all2 (\<lambda>s t. s = t \<or> sr_id s = i \<and> sr_state s = StPending \<and> t = start_step now v s) (wr_steps c) (wr_steps r1)"
    unfolding r1(3) by (rule set_step_all2 [OF assms(1,3)]) (use find_step_Some [OF assms(3)] assms(4) in auto)
  have keys: "map step_key (wr_steps r1) = map step_key (wr_steps c)"
    by (rule keys_all2 [OF all]) auto
  have "skips_ok r1" by (rule skips_ok_move [OF assms(2) r1(1) all]) auto
  moreover have "run_wf r1" using run_wf_cong [OF r1(1) keys] assms(1) by simp
  ultimately show "wf_ok r1" using r1(2) by (simp add: wf_ok_def done_ok_def)
  have find: "find_step j r1 = (if j = i then map_option (start_step now v) (find_step i c) else find_step j c)" for j
    using find_step_set_step [of "start_step now v" j i c] r1(3) by (simp add: find_step_def)
  show "find_step i r1 \<noteq> None" using find assms(3) by simp
  have "dep_in {StSucceeded} r1 j" if "dep_in {StSucceeded} c j" for j
    using that find [of j] assms(3,4) by (auto simp: dep_in_def split: option.splits)
  then have "list_all (dep_in {StSucceeded} r1) deps" using due(3) by (auto simp: list_all_iff)
  moreover have "map reference_view (wr_steps r1) = map reference_view (wr_steps c)"
    using all by (induction rule: list_all2_induct) auto
  ultimately show "call_due r1 i args"
    using due step_args_cong [of r1 c d] definition_step_cong [OF r1(1)] by (auto simp: call_due_def)
  have "list_all2 (launch_move i) (wr_steps c) (wr_steps (set_step i (start_step now v) c))"
    by (rule set_step_all2 [OF assms(1,3)]) (use find_step_Some [OF assms(3)] assms(4) in \<open>auto simp: launch_move_def\<close>)
  then show "list_all2 (launch_move i) (wr_steps c) (wr_steps r1)" by (simp add: r1(3))
qed

lemma launch_post:
  assumes "map_of (wv_files s) (wr_id run) = Some run" "wf_ok run" "derived run c" "wr_state c = WfRunning"
    and "find_step i c = Some x" "sr_state x = StPending"
    and due: "definition_step c i = Inr d" "exec_deps d = Inr deps" "list_all (dep_in {StSucceeded} c) deps" "step_args d c = Inr args"
  shows "seg_post run s (launch env ctx p i args c s)"
proof (rule post_cases)
  fix res s'
  assume l: "launch env ctx p i args c s = (res, s')"
  define now v where "now = wv_now env (wv_reads s)" and "v = redactedArgs ctx args"
  define c' where "c' = (set_step i (start_step now v) c)\<lparr>wr_currentStepId := i\<rparr>"
  define s1 where "s1 = s\<lparr>wv_reads := Suc (wv_reads s)\<rparr>"
  have c: "wr_id c = wr_id run" "wr_revision c = wr_revision run" "run_quiet run c" "skips_ok c"
    using assms(3) by (simp_all add: derived_def run_quiet_def)
  have c': "wr_id c' = wr_id run" "wr_revision c' = wr_revision run" "wr_state c' = WfRunning"
    using c assms(4) by (simp_all add: c'_def)
  obtain y s2 where y: "checkpoint env c' p s1 = (y, s2)" by (cases "checkpoint env c' p s1")
  have "bindA (checkpoint env c' p) (\<lambda>run.
     if wr_state run = WfPaused then retA (Returned True None run)
     else if wr_state run = WfCancelled then retA (Returned False (Some (''Workflow '' @ wr_id run @ '' was cancelled.'')) run)
     else retA (Calling run i args)) s1 = (res, s')"
    using l unfolding launch_def bind_nowW c'_def s1_def now_def v_def start_step_def [abs_def] .
  then have l': "(case y of Inl e \<Rightarrow> (Inl e, s2) | Inr r \<Rightarrow> (if wr_state r = WfPaused then retA (Returned True None r)
     else if wr_state r = WfCancelled then retA (Returned False (Some (''Workflow '' @ wr_id r @ '' was cancelled.'')) r)
     else retA (Calling r i args)) s2) = (res, s')"
    by (simp add: bindA_def y split: sum.splits)
  from y show "seg_post run s (res, s')"
  proof (cases rule: checkpoint_cases)
    case (thrown e)
    with l' have "res = Inl e" "wv_files s' = wv_files s" by (simp_all add: s1_def)
    then show ?thesis using seg_post_stay [OF assms(1,2)] by simp
  next
    case (matched cur r1)
    have res: "res = Inr (Calling r1 i args)" "s' = s2"
      using l' matched(3,4) c'(3) by (auto simp: retA_def)
    have wf: "run_wf c" using run_quiet_wf [OF c(3)] assms(2) by (simp add: wf_ok_def)
    have same: "wr_id r1 = wr_id run" "wr_revision run < wr_revision r1" "wr_currentStepId r1 = i"
      and r1: "wr_definition r1 = wr_definition c" "wr_state r1 = WfRunning" "wr_steps r1 = wr_steps (set_step i (start_step now v) c)"
      using matched(4) c c' by (simp_all add: c'_def)
    note st = started_run [OF wf c(4) assms(5,6,4) due r1]
    have "launched c i args r1"
      using st same c r1 by (simp add: launched_def)
    then have "launched run i args r1" using launched_after_quiet [OF c(3)] c(2) by simp
    moreover have "map_of (wv_files s2) = (map_of (wv_files s))(wr_id run \<mapsto> r1)"
      using matched(5) c'(1) by (simp add: s1_def)
    ultimately show ?thesis unfolding seg_post_def using res st(1) same(2) by auto
  next
    case (merged cur r1)
    with assms(1) c' show ?thesis by (simp add: s1_def)
  qed
qed


lemma seg_post_files: "wv_files s1 = wv_files s \<Longrightarrow> seg_post run s1 x \<Longrightarrow> seg_post run s x"
  by (simp add: seg_post_def)

lemma seg_post_thrown:
  "map_of (wv_files s) (wr_id run) = Some run \<Longrightarrow> wf_ok run \<Longrightarrow> wv_files s' = wv_files s \<Longrightarrow> seg_post run s (Inl e, s')"
  by (rule seg_post_stay) simp_all

lemma derived_wf: "wf_ok run \<Longrightarrow> derived run c \<Longrightarrow> run_wf c"
  using run_quiet_wf by (auto simp: derived_def wf_ok_def)

text \<open>A quiet move of one step in memory.\<close>

lemma derived_set:
  assumes "derived run c" "run_wf c" "find_step i c = Some x" "quiet x (f x)" "sr_state x \<in> {StPending, StAwaiting}"
    "sr_state (f x) \<noteq> StSkipped"
  shows "derived run (set_step i f c)"
proof -
  have q: "run_quiet c (set_step i f c)"
    by (rule set_step_quiet [where f = f, OF assms(2-4)])
  have all: "list_all2 (\<lambda>s t. s = t \<or> s = x \<and> t = f x) (wr_steps c) (wr_steps (set_step i f c))"
    by (rule set_step_all2 [OF assms(2,3)]) auto
  have "skips_ok (set_step i f c)"
    by (rule skips_ok_move [OF _ _ all]) (use assms in \<open>auto simp: derived_def quiet_def step_key_def\<close>)
  with assms(1) q show ?thesis unfolding derived_def by (auto intro: run_quiet_trans)
qed

lemma plan_post:
  assumes "map_of (wv_files s) (wr_id run) = Some run" "wf_ok run" "wr_state run = WfRunning"
  shows "seg_post run s (plan env ctx p run s)"
proof -
  define ids where "ids = map sr_id (filter (\<lambda>s. sr_state s = StPending) (wr_steps run))"
  have wf: "run_wf run" and sk: "skips_ok run" using assms(2) by (simp_all add: wf_ok_def)
  have dist: "distinct ids"
    using run_wf_distinct [OF wf] unfolding ids_def distinct_map by (auto intro: inj_on_subset)
  have pend: "\<exists>x. find_step i run = Some x \<and> sr_state x = StPending" if "i \<in> set ids" for i
    using that find_step_in [OF wf] by (auto simp: ids_def)
  obtain m s1 where m: "mark_skips env ids run s = (m, s1)" by (cases "mark_skips env ids run s")
  note spec = mark_skips_spec [OF m wf sk dist pend]
  show ?thesis
  proof (cases m)
    case (Inl e)
    then have "plan env ctx p run s = (Inl e, s1)" using m by (simp add: plan_def bindA_def ids_def)
    with seg_post_thrown [OF assms(1,2)] spec show ?thesis by simp
  next
    case (Inr c)
    have der: "derived run c" and st: "wr_state c = WfRunning" and files: "wv_files s1 = wv_files s"
      using spec Inr assms(3) by (simp_all add: derived_def)
    have syn: "map_of (wv_files s1) (wr_id run) = Some run" using assms(1) files by simp
    have wfc: "run_wf c" by (rule derived_wf [OF assms(2) der])
    have "seg_post run s1 (plan env ctx p run s)"
    proof (cases "list_ex unfinished (wr_steps c)")
      case False
      then have "plan env ctx p run s = finish_run env p c s1" using m Inr by (simp add: plan_def bindA_def ids_def)
      then show ?thesis using finish_run_post [OF syn assms(2) der False] by simp
    next
      case True
      note unf = this
      show ?thesis
      proof (cases "next_step c (wr_steps c)")
        case (Inl e)
        then have "plan env ctx p run s = (Inl e, s1)" using m Inr unf by (simp add: plan_def bindA_def liftR_def ids_def)
        with seg_post_thrown [OF syn assms(2)] show ?thesis by simp
      next
        case ns: (Inr o')
        show ?thesis
        proof (cases o')
          case None
          then have "plan env ctx p run s = fail_run env p ''Workflow cannot make progress; dependencies are unresolved.'' c s1"
            using m Inr unf ns by (simp add: plan_def bindA_def liftR_def ids_def)
          then show ?thesis using fail_run_post [OF syn assms(2) der] by simp
        next
          case (Some x)
          note x = next_step_spec [OF ns [unfolded Some]]
          have fx: "find_step (sr_id x) c = Some x" using find_step_in [OF wfc] x by simp
          obtain d deps where d: "definition_step c (sr_id x) = Inr d" "exec_deps d = Inr deps" "list_all (dep_in {StSucceeded} c) deps"
            using x by auto
          show ?thesis
          proof (cases "step_args d c")
            case (Inl e)
            define s2 where "s2 = s1\<lparr>wv_reads := Suc (wv_reads s1)\<rparr>"
            define c' where "c' = set_step (sr_id x) (\<lambda>s. s\<lparr>sr_state := StFailed, sr_completedAt := Some (wv_now env (wv_reads s1)),
                sr_note := Some (plain_message e)\<rparr>) c"
            have "plan env ctx p run s = fail_run env p (plain_message e) c' s2"
              using m Inr unf ns Some d Inl unfolding plan_def ids_def [symmetric] by (simp add: bindA_def liftR_def nowW_def s2_def c'_def)
            moreover have "derived run c'"
              unfolding c'_def by (rule derived_set [OF der wfc fx]) (use x in \<open>auto simp: quiet_def step_key_def\<close>)
            then have "seg_post run s2 (fail_run env p (plain_message e) c' s2)"
              by (intro fail_run_post) (use syn assms(2) in \<open>simp_all add: s2_def\<close>)
            ultimately show ?thesis by (simp add: s2_def)
          next
            case (Inr args)
            have "plan env ctx p run s = launch env ctx p (sr_id x) args c s1"
              using m \<open>m = Inr c\<close> unf ns Some d Inr unfolding plan_def ids_def [symmetric] by (simp add: bindA_def liftR_def)
            then show ?thesis using launch_post [OF syn assms(2) der st fx _ d Inr] x by simp
          qed
        qed
      qed
    qed
    then show ?thesis using seg_post_files [OF files] by simp
  qed
qed

lemma iterate_post:
  assumes "map_of (wv_files s) (wr_id run) = Some run" "wf_ok run"
    and "wr_state run \<in> {WfRunning, WfPaused, WfCancelled}"
  shows "seg_post run s (iterate env ctx p aborted run s)"
proof (cases aborted)
  case True
  define c where "c = run\<lparr>wr_state := WfPaused,
    wr_pauseReason := Some ''Execution cancelled by client; resume will continue from the next unfinished step.''\<rparr>"
  have "derived run run" using assms(2) by (simp add: derived_def wf_ok_def)
  then have "derived run c" using derived_cong [of c run run] by (simp add: c_def)
  moreover have "done_ok c" by (simp add: done_ok_def c_def)
  ultimately have "seg_post run s (bindA (checkpoint env c p) (\<lambda>r s. (Inr (Returned True None r), s)) s)"
    by (intro checkpoint_return assms(1,2)) simp_all
  with True show ?thesis by (simp add: iterate_def c_def retA_def [abs_def])
next
  case False
  obtain g s1 where g: "get_run env (wr_id run) (Some p) s = (g, s1)" by (cases "get_run env (wr_id run) (Some p) s")
  then have [simp]: "s1 = s" using get_run_state [of env "wr_id run" "Some p" s] by simp
  show ?thesis
  proof (cases g)
    case (Inl e)
    with g False show ?thesis using seg_post_thrown [OF assms(1,2)] by (simp add: iterate_def bindA_def)
  next
    case (Inr r)
    then have "r = run" using get_run_InrD(2) [OF g [unfolded Inr]] assms(1) by simp
    then have "iterate env ctx p aborted run s =
        (if wr_state run = WfCancelled then retA (Returned False (Some (''Workflow '' @ wr_id run @ '' was cancelled.'')) run)
         else if wr_state run = WfPaused then retA (Returned True None run) else plan env ctx p run) s"
      using g Inr False by (simp add: iterate_def bindA_def)
    moreover have "seg_post run s (Inr (Returned b e run), s)" for b e
      by (rule seg_post_stay [OF assms(1,2)]) simp_all
    ultimately show ?thesis using plan_post [OF assms(1,2)] assms(3) by (auto simp: retA_def)
  qed
qed

lemma enter_loop_post:
  assumes "map_of (wv_files s) (wr_id run) = Some run" "wf_ok run" "derived run c"
  shows "seg_post run s (enter_loop env ctx p aborted c s)"
proof -
  have "\<exists>t s1. (case wr_startedAt c of Some t \<Rightarrow> retA t | None \<Rightarrow> nowW env) s = (Inr t, s1) \<and> wv_files s1 = wv_files s"
    by (cases "wr_startedAt c") (simp_all add: retA_def nowW_def)
  then obtain t s1 where t: "(case wr_startedAt c of Some t \<Rightarrow> retA t | None \<Rightarrow> nowW env) s = (Inr t, s1)" and
    f: "wv_files s1 = wv_files s" by blast
  define c' where "c' = c\<lparr>wr_state := WfRunning, wr_startedAt := Some t\<rparr>"
  have "derived run c'" using assms(3) derived_cong [of c' c run] by (simp add: c'_def)
  have "seg_post run s1 (bindA (checkpoint env c' p) (iterate env ctx p aborted) s1)"
  proof (rule post_cases)
    fix res s'
    assume "bindA (checkpoint env c' p) (iterate env ctx p aborted) s1 = (res, s')"
    then show "seg_post run s1 (res, s')"
    proof (rule checkpoint_derived)
      fix r1 s2
      assume r1: "saved_as c' r1" "map_of (wv_files s2) (wr_id r1) = Some r1" "wf_ok r1"
        "iterate env ctx p aborted r1 s2 = (res, s')"
      then show "seg_post r1 s2 (res, s')"
        using iterate_post [OF r1(2,3), of env ctx p aborted] by (simp add: c'_def)
    qed (use assms(1,2) f \<open>derived run c'\<close> in \<open>simp_all add: done_ok_def c'_def\<close>)
  qed
  moreover have "enter_loop env ctx p aborted c s = bindA (checkpoint env c' p) (iterate env ctx p aborted) s1"
    unfolding enter_loop_def c'_def
    by (rule bindA_Inr [where m = "case wr_startedAt c of Some t \<Rightarrow> retA t | None \<Rightarrow> nowW env", OF t])
  ultimately show ?thesis using seg_post_files [OF f] by simp
qed


section \<open>The start of an execution\<close>

lemma set_waiting_eq:
  assumes "run_wf run" "find (\<lambda>s. sr_state s = StAwaiting) (wr_steps run) = Some w"
  shows "set_waiting f run = set_step (sr_id w) f run"
proof -
  have "update_first (\<lambda>s. sr_state s = StAwaiting) f ss = update_first (\<lambda>s. sr_id s = sr_id w) f ss"
    if "distinct (map sr_id ss)" "find (\<lambda>s. sr_state s = StAwaiting) ss = Some w" for ss
    using that by (induction ss) (auto split: if_splits dest: find_SomeD)
  then show ?thesis using run_wf_distinct [OF assms(1)] assms(2) by (simp add: set_waiting_def set_step_def)
qed

lemma begin_execution_post:
  assumes "map_of (wv_files s) (wr_id run) = Some run" "wf_ok run"
  shows "seg_post run s (begin_execution env ctx p approvals aborted run s)"
proof -
  have stay: "seg_post run s (retA (Returned b e run) s)" for b e
    unfolding retA_def by (rule seg_post_stay [OF assms]) simp_all
  have wf: "run_wf run" and der: "derived run run" using assms(2) by (simp_all add: wf_ok_def derived_def)
  show ?thesis
  proof (cases "wr_state run = WfCompleted \<or> wr_state run = WfCancelled \<or> wr_state run = WfFailed")
    case True
    with stay show ?thesis by (auto simp: begin_execution_def)
  next
    case waits: False
    show ?thesis
    proof (cases "find (\<lambda>s. sr_state s = StAwaiting) (wr_steps run)")
      case None
      with waits have "begin_execution env ctx p approvals aborted run = enter_loop env ctx p aborted run"
        by (simp add: begin_execution_def)
      with enter_loop_post [OF assms der] show ?thesis by simp
    next
      case (Some w)
      note w = find_SomeD [OF Some]
      have fw: "find_step (sr_id w) run = Some w" using find_step_in [OF wf] w by simp
      define a where "a = (case truthy (sr_approvalId w) of None \<Rightarrow> None | Some a \<Rightarrow> approvals a)"
      have deny: "seg_post run s (deny_waiting env p msg run s)" for msg
      proof -
        define s1 where "s1 = s\<lparr>wv_reads := Suc (wv_reads s)\<rparr>"
        define c where "c = set_step (sr_id w) (\<lambda>x. x\<lparr>sr_state := StFailed, sr_completedAt := Some (wv_now env (wv_reads s)), sr_note := Some msg\<rparr>) run"
        have "derived run c"
          unfolding c_def by (rule derived_set [OF der wf fw]) (use w in \<open>auto simp: quiet_def step_key_def\<close>)
        then have "seg_post run s1 (fail_run env p msg c s1)"
          by (intro fail_run_post) (use assms in \<open>simp_all add: s1_def\<close>)
        then show ?thesis by (simp add: deny_waiting_def set_waiting_eq [OF wf Some] c_def s1_def)
      qed
      have pause: "seg_post run s (bindA (checkpoint env (run\<lparr>wr_state := WfPaused, wr_pauseReason := t\<rparr>) p) (\<lambda>run. retA (Returned True None run)) s)" for t
      proof -
        define c where "c = run\<lparr>wr_state := WfPaused, wr_pauseReason := t\<rparr>"
        have "derived run c" "done_ok c" using der derived_cong [of c run run] by (simp_all add: c_def done_ok_def)
        then have "seg_post run s (bindA (checkpoint env c p) (\<lambda>r s. (Inr (Returned True None r), s)) s)"
          by (intro checkpoint_return assms) simp_all
        then show ?thesis by (simp add: c_def retA_def [abs_def])
      qed
      define c where "c = (set_step (sr_id w) (\<lambda>s. s\<lparr>sr_state := StPending, sr_approvalId := None\<rparr>) run)\<lparr>wr_pauseReason := None\<rparr>"
      have "derived run (set_step (sr_id w) (\<lambda>s. s\<lparr>sr_state := StPending, sr_approvalId := None\<rparr>) run)"
        by (rule derived_set [OF der wf fw]) (use w in \<open>auto simp: quiet_def step_key_def\<close>)
      then have "derived run c"
        using derived_cong [of c "set_step (sr_id w) (\<lambda>s. s\<lparr>sr_state := StPending, sr_approvalId := None\<rparr>) run" run] by (simp add: c_def)
      then have "seg_post run s (enter_loop env ctx p aborted c s)" by (rule enter_loop_post [OF assms])
      moreover have "begin_execution env ctx p approvals aborted run =
          (case a of Some SApproved \<Rightarrow> enter_loop env ctx p aborted c
           | Some SDenied \<Rightarrow> deny_waiting env p ''Approval denied.'' run
           | Some SExpired \<Rightarrow> deny_waiting env p ''Approval expired.'' run
           | _ \<Rightarrow>
               bindA (checkpoint env (run\<lparr>wr_state := WfPaused, wr_pauseReason :=
                 Some (''Awaiting approval '' @ template (sr_approvalId w) @ '' for '' @ js_String (sr_tool w) @ ''.'')\<rparr>) p) (\<lambda>run.
               retA (Returned True None run)))"
        unfolding begin_execution_def a_def c_def set_waiting_eq [OF wf Some] using waits Some by simp
      ultimately show ?thesis using deny pause by (auto split: option.split ApprovalState.split)
    qed
  qed
qed

section \<open>The result of a call\<close>

text \<open>\<open>a\<close> is the attempt that was called, \<open>ap\<close> says whether the result asks for an approval.\<close>

definition attempt_of :: "WorkflowRun \<Rightarrow> jval \<Rightarrow> int" where
  "attempt_of R i = (case find_step i R of None \<Rightarrow> 0 | Some x \<Rightarrow> sr_attempts x)"

definition settle_move :: "jval \<Rightarrow> int \<Rightarrow> bool \<Rightarrow> WorkflowStepRun \<Rightarrow> WorkflowStepRun \<Rightarrow> bool" where
  "settle_move i a ap s t \<longleftrightarrow> s = t \<or> sr_id s = i \<and> step_key t = step_key s \<and> sr_attempts s = a \<and> sr_attempts t = a \<and>
     sr_state s = StRunning \<and> sr_state t \<in> (if ap then {StAwaiting} else {StSucceeded, StFailed})"

definition settled :: "WorkflowRun \<Rightarrow> jval \<Rightarrow> int \<Rightarrow> bool \<Rightarrow> WorkflowRun \<Rightarrow> bool" where
  "settled r i a ap r1 \<longleftrightarrow> wr_id r1 = wr_id r \<and> wr_definition r1 = wr_definition r \<and> wr_revision r < wr_revision r1 \<and>
     list_all2 (settle_move i a ap) (wr_steps r) (wr_steps r1)"

text \<open>The copy \<open>R\<close> of an executor that waits for step \<open>i\<close>, and the run \<open>r\<close> on disk.\<close>

definition waits_on :: "WorkflowRun \<Rightarrow> WorkflowRun \<Rightarrow> jval \<Rightarrow> bool" where
  "waits_on r R i \<longleftrightarrow> wr_id R = wr_id r \<and> wr_definition R = wr_definition r \<and> wr_revision R \<le> wr_revision r \<and>
     (wr_revision R = wr_revision r \<longrightarrow> R = r) \<and> wf_ok R \<and> wr_state R = WfRunning \<and> wr_currentStepId R = i \<and>
     (\<exists>x y. find_step i R = Some x \<and> sr_state x = StRunning \<and> find_step i r = Some y \<and> sr_attempts x \<le> sr_attempts y \<and>
        (sr_attempts x = sr_attempts y \<longrightarrow> sr_state y = StRunning))"

text \<open>The result of the call is recorded first, if at all; then the segment goes on from there.\<close>

definition finish_post :: "WorkflowRun \<Rightarrow> jval \<Rightarrow> int \<Rightarrow> bool \<Rightarrow> wf_store \<Rightarrow> outcome result \<times> wf_store \<Rightarrow> bool" where
  "finish_post r i a ap s x \<longleftrightarrow>
     (map_of (wv_files (snd x)) = map_of (wv_files s) \<and> (\<forall>R j args. fst x \<noteq> Inr (Calling R j args))) \<or>
     (\<exists>r1 s1. map_of (wv_files s1) = (map_of (wv_files s))(wr_id r \<mapsto> r1) \<and> settled r i a ap r1 \<and> wf_ok r1 \<and> seg_post r1 s1 x)"

lemma same_keys:
  assumes "run_wf r" "run_wf R" "wr_definition R = wr_definition r" "find_step i R = Some x" "find_step i r = Some y"
  shows "step_key x = step_key y"
proof -
  have "map step_key (wr_steps R) = map step_key (wr_steps r)"
    using assms(1-3) by (simp add: run_wf_def def_steps_def)
  then have "list_all2 (\<lambda>s t. step_key t = step_key s) (wr_steps R) (wr_steps r)"
    by (metis (mono_tags, lifting) list_all2_conv_all_nth length_map nth_map)
  from find_all2 [OF this, of sr_id i] assms(4,5) show ?thesis
    by (auto simp: find_step_def step_key_def)
qed


lemma settled_ok:
  assumes "run_wf r" "skips_ok r" "wr_definition r1 = wr_definition r"
    and all: "list_all2 (settle_move i a ap) (wr_steps r) (wr_steps r1)" and "wr_state r1 \<noteq> WfCompleted"
  shows "wf_ok r1"
proof -
  have "map step_key (wr_steps r1) = map step_key (wr_steps r)"
    by (rule keys_all2 [OF all]) (auto simp: settle_move_def)
  then have "run_wf r1" using run_wf_cong [OF assms(3)] assms(1) by simp
  moreover have "skips_ok r1"
    by (rule skips_ok_move [OF assms(2,3) all]) (auto simp: settle_move_def step_key_def split: if_splits)
  ultimately show ?thesis using assms(5) by (simp add: wf_ok_def done_ok_def)
qed

text \<open>The merge into a run that was stopped meanwhile, when the step is still the one that was called.\<close>

lemma merge_settles:
  assumes "waits_on r R i" "wf_ok r" "wr_definition c = wr_definition R" "wr_currentStepId c = i"
    and steps: "wr_steps c = wr_steps (set_step i f R)"
    and f: "\<And>s. step_key (f s) = step_key s" "\<And>s. sr_attempts (f s) = sr_attempts s"
      "\<And>s. sr_state (f s) \<in> (if ap then {StAwaiting} else {StSucceeded, StFailed})"
  shows "wr_id (merge_step c r) = wr_id r \<and> wr_definition (merge_step c r) = wr_definition r \<and>
    wr_revision (merge_step c r) = wr_revision r \<and> wr_state (merge_step c r) = wr_state r \<and>
    list_all2 (settle_move i (attempt_of R i) ap) (wr_steps r) (wr_steps (merge_step c r))"
proof -
  obtain x y where x: "find_step i R = Some x" "sr_state x = StRunning" and y: "find_step i r = Some y"
    "sr_attempts x \<le> sr_attempts y" "sr_attempts x = sr_attempts y \<longrightarrow> sr_state y = StRunning"
    using assms(1) by (auto simp: waits_on_def)
  have wf: "run_wf r" "run_wf R" and df: "wr_definition R = wr_definition r"
    using assms(1,2) by (simp_all add: waits_on_def wf_ok_def)
  have idf: "sr_id (f s) = sr_id s" for s using f(1) [of s] by (simp add: step_key_def)
  have src: "find_step i c = Some (f x)"
    using find_step_set_step [of f i i R, OF idf] x(1) steps by (simp add: find_step_def)
  have nrun: "sr_state (f x) \<noteq> StRunning" using f(3) [of x] by (auto split: if_splits)
  have same: "list_all2 (settle_move i (attempt_of R i) ap) (wr_steps r) (wr_steps r)"
    by (rule list_all2_refl) (simp add: settle_move_def)
  have key: "step_key (assign_step (f x) y) = step_key y"
    using same_keys [OF wf df x(1) y(1)] f(1) [of x] by (simp add: assign_step_def step_key_def)
  have "list_all2 (settle_move i (attempt_of R i) ap) (wr_steps r) (wr_steps (set_step i (assign_step (f x)) r))"
    if "\<not> sr_attempts x < sr_attempts y"
  proof (rule set_step_all2 [OF wf(1) y(1)])
    have "sr_attempts x = sr_attempts y" using that y(2) by simp
    moreover have "sr_state (assign_step (f x) y) = sr_state (f x)" "sr_attempts (assign_step (f x) y) = sr_attempts x"
      by (simp_all add: assign_step_def f(2))
    ultimately show "settle_move i (attempt_of R i) ap y (assign_step (f x) y)"
      using key y f(3) [of x] find_step_Some [OF y(1)] x(1) by (simp add: settle_move_def attempt_of_def)
  qed (simp add: settle_move_def)
  then show ?thesis
    using same src y(1) nrun assms(4) by (auto simp: merge_step_def Let_def f(2))
qed

lemma record_result:
  assumes w: "waits_on r R i" and r: "wf_ok r" "map_of (wv_files s) (wr_id r) = Some r"
    and c: "wr_id c = wr_id R" "wr_revision c = wr_revision R" "wr_definition c = wr_definition R" "wr_currentStepId c = i"
      "wr_state c \<in> {WfRunning, WfPaused}" "wr_steps c = wr_steps (set_step i f R)"
    and f: "\<And>s. step_key (f s) = step_key s" "\<And>s. sr_attempts (f s) = sr_attempts s"
      "\<And>s. sr_state (f s) \<in> (if ap then {StAwaiting} else {StSucceeded, StFailed})"
    and run: "bindA (checkpoint env c p) g s = (res, s')"
    and g: "\<And>r1 s1. map_of (wv_files s1) (wr_id r1) = Some r1 \<Longrightarrow> wf_ok r1 \<Longrightarrow> wr_state r1 \<in> {WfRunning, WfPaused, WfCancelled} \<Longrightarrow>
      seg_post r1 s1 (g r1 s1)"
  shows "finish_post r i (attempt_of R i) ap s (res, s')"
proof -
  have idr: "wr_id c = wr_id r" using w c(1) by (simp add: waits_on_def)
  have go: "finish_post r i (attempt_of R i) ap s (res, s')"
    if "settled r i (attempt_of R i) ap r1" "wf_ok r1" "wr_state r1 \<in> {WfRunning, WfPaused, WfCancelled}" "g r1 s1 = (res, s')"
      "map_of (wv_files s1) = (map_of (wv_files s))(wr_id r \<mapsto> r1)" for r1 s1
  proof -
    have "wr_id r1 = wr_id r" using that(1) by (simp add: settled_def)
    then have "seg_post r1 s1 (res, s')" using g [of s1 r1] that by simp
    with that show ?thesis unfolding finish_post_def by blast
  qed
  obtain x s1 where x: "checkpoint env c p s = (x, s1)" by (cases "checkpoint env c p s")
  from x show ?thesis
  proof (cases rule: checkpoint_cases)
    case (thrown e)
    with run x have "res = Inl e" "s' = s1" by (simp_all add: bindA_def)
    with thrown show ?thesis by (simp add: finish_post_def)
  next
    case (matched cur r1)
    have gr: "g r1 s1 = (res, s')" using run x matched(3) by (simp add: bindA_def)
    have "R = r" using w matched(1,2) r(2) c(2) idr by (simp add: waits_on_def)
    have wf: "run_wf r" using r(1) by (simp add: wf_ok_def)
    obtain y where y: "find_step i r = Some y" "sr_state y = StRunning"
      using w \<open>R = r\<close> by (auto simp: waits_on_def)
    have "list_all2 (settle_move i (attempt_of R i) ap) (wr_steps r) (wr_steps (set_step i f r))"
      by (rule set_step_all2 [OF wf y(1)])
        (use y f \<open>R = r\<close> find_step_Some [OF y(1)] in \<open>simp_all add: settle_move_def attempt_of_def\<close>)
    then have all: "list_all2 (settle_move i (attempt_of R i) ap) (wr_steps r) (wr_steps r1)"
      using matched(4) c(6) \<open>R = r\<close> by simp
    have same: "wr_definition r1 = wr_definition r" "wr_id r1 = wr_id r" "wr_revision r < wr_revision r1" "wr_state r1 = wr_state c"
      using matched(4) c idr \<open>R = r\<close> by simp_all
    have "wf_ok r1" by (rule settled_ok [OF wf _ same(1) all]) (use r(1) same(4) c(5) in \<open>auto simp: wf_ok_def\<close>)
    moreover have "settled r i (attempt_of R i) ap r1" using same all by (simp add: settled_def)
    ultimately show ?thesis using go gr matched(5) idr same(4) c(5) by auto
  next
    case (merged cur r1)
    have gr: "g r1 s1 = (res, s')" using run x merged(5) by (simp add: bindA_def)
    have "cur = r" using merged(1) r(2) idr by simp
    note m = merge_settles [OF w r(1) c(3,4,6) f]
    have same: "wr_definition r1 = wr_definition r" "wr_id r1 = wr_id r" "wr_revision r < wr_revision r1" "wr_state r1 = wr_state r"
      and all: "list_all2 (settle_move i (attempt_of R i) ap) (wr_steps r) (wr_steps r1)"
      using merged(6) m \<open>cur = r\<close> by simp_all
    have "wf_ok r1"
      by (rule settled_ok [OF _ _ same(1) all]) (use r(1) same(4) merged(3) \<open>cur = r\<close> in \<open>auto simp: wf_ok_def\<close>)
    moreover have "settled r i (attempt_of R i) ap r1" using same all by (simp add: settled_def)
    ultimately show ?thesis using go gr merged(3,7) idr same(4) \<open>cur = r\<close> by auto
  qed
qed

lemma finish_post_files: "wv_files s1 = wv_files s \<Longrightarrow> finish_post r i a ap s1 x \<Longrightarrow> finish_post r i a ap s x"
  by (simp add: finish_post_def)

lemma finish_call_post:
  assumes "waits_on r R i" "wf_ok r" "map_of (wv_files s) (wr_id r) = Some r"
  shows "finish_post r i (attempt_of R i) (truthy (tr_approvalId result) \<noteq> None) s (finish_call env ctx p aborted R i result s)"
proof (cases "definition_step R i")
  case (Inl e)
  then show ?thesis by (simp add: finish_call_def bind_liftR finish_post_def)
next
  case (Inr d)
  define now evidence tool unmet where "now = wv_now env (wv_reads s)" and "evidence = workflowEvidence result (xc_redact ctx)"
    and "tool = js_String (jprop d ''tool'')" and "unmet = checkWorkflowExpectation env (jprop d ''expect'') evidence"
  define msg where "msg = (case unmet of Some t \<Rightarrow> t | None \<Rightarrow> (case tr_error result of Some t \<Rightarrow> t | None \<Rightarrow> tool @ '' failed.''))"
  define s1 where "s1 = s\<lparr>wv_reads := Suc (wv_reads s)\<rparr>"
  define upd where "upd f = set_step i (\<lambda>s. f (s\<lparr>sr_evidence := evidence, sr_completedAt := Some now\<rparr>)) R"
    for f :: "WorkflowStepRun \<Rightarrow> WorkflowStepRun"
  have cur: "wr_currentStepId R = i" "wr_state R = WfRunning" using assms(1) by (simp_all add: waits_on_def)
  have syn: "map_of (wv_files s1) (wr_id r) = Some r" using assms(3) by (simp add: s1_def)
  have eq: "finish_call env ctx p aborted R i result s =
     (case truthy (tr_approvalId result) of
        Some a \<Rightarrow>
          bindA (checkpoint env ((upd (\<lambda>s. s\<lparr>sr_state := StAwaiting, sr_approvalId := Some a, sr_note :=
              Some (case tr_error result of None \<Rightarrow> ''Approval required.'' | Some t \<Rightarrow> t)\<rparr>))
            \<lparr>wr_state := WfPaused, wr_pauseReason := Some (''Awaiting approval '' @ a @ '' for '' @ tool @ ''.'')\<rparr>) p) (\<lambda>run.
          retA (Returned True None run))
      | None \<Rightarrow>
          if tr_ok result \<and> unmet = None then
            bindA (checkpoint env (upd (\<lambda>s. s\<lparr>sr_state := StSucceeded, sr_note := None\<rparr>)) p) (iterate env ctx p aborted)
          else bindA (checkpoint env (upd (\<lambda>s. s\<lparr>sr_state := StFailed, sr_note := Some msg\<rparr>)) p) (\<lambda>run.
               if js_truthy (jprop d ''continueOnError'') then iterate env ctx p aborted run else fail_run env p msg run)) s1"
    unfolding finish_call_def bind_liftR Inr sum.case bind_nowW Let_def s1_def now_def evidence_def tool_def unmet_def msg_def upd_def ..
  have "finish_post r i (attempt_of R i) (truthy (tr_approvalId result) \<noteq> None) s1 (finish_call env ctx p aborted R i result s)"
  proof (cases "truthy (tr_approvalId result)")
    case (Some a)
    let ?f = "\<lambda>s. s\<lparr>sr_evidence := evidence, sr_completedAt := Some now, sr_state := StAwaiting, sr_approvalId := Some a, sr_note :=
              Some (case tr_error result of None \<Rightarrow> ''Approval required.'' | Some t \<Rightarrow> t)\<rparr>"
    let ?c = "(set_step i ?f R)\<lparr>wr_state := WfPaused, wr_pauseReason := Some (''Awaiting approval '' @ a @ '' for '' @ tool @ ''.'')\<rparr>"
    obtain res s' where run: "bindA (checkpoint env ?c p) (\<lambda>run. retA (Returned True None run)) s1 = (res, s')"
      by (cases "bindA (checkpoint env ?c p) (\<lambda>run. retA (Returned True None run)) s1")
    have "finish_post r i (attempt_of R i) True s1 (res, s')"
      by (rule record_result [OF assms(1,2) syn _ _ _ _ _ _ _ _ _ run, where f = ?f])
        (simp_all add: cur set_step_def step_key_def retA_def seg_post_stay)
    moreover have "finish_call env ctx p aborted R i result s = (res, s')"
      using run Some by (simp add: eq upd_def)
    ultimately show ?thesis using Some by simp
  next
    case None
    show ?thesis
    proof (cases "tr_ok result \<and> unmet = None")
      case True
      let ?f = "\<lambda>s. s\<lparr>sr_evidence := evidence, sr_completedAt := Some now, sr_state := StSucceeded, sr_note := None\<rparr>"
      obtain res s' where run: "bindA (checkpoint env (set_step i ?f R) p) (iterate env ctx p aborted) s1 = (res, s')"
        by (cases "bindA (checkpoint env (set_step i ?f R) p) (iterate env ctx p aborted) s1")
      have "finish_post r i (attempt_of R i) False s1 (res, s')"
        by (rule record_result [OF assms(1,2) syn _ _ _ _ _ _ _ _ _ run, where f = ?f])
          (simp_all add: cur set_step_def step_key_def iterate_post)
      moreover have "finish_call env ctx p aborted R i result s = (res, s')"
        using run None True by (simp add: eq upd_def)
      ultimately show ?thesis using None by simp
    next
      case False
      let ?f = "\<lambda>s. s\<lparr>sr_evidence := evidence, sr_completedAt := Some now, sr_state := StFailed, sr_note := Some msg\<rparr>"
      let ?g = "\<lambda>run. if js_truthy (jprop d ''continueOnError'') then iterate env ctx p aborted run else fail_run env p msg run"
      obtain res s' where run: "bindA (checkpoint env (set_step i ?f R) p) ?g s1 = (res, s')"
        by (cases "bindA (checkpoint env (set_step i ?f R) p) ?g s1")
      have "finish_post r i (attempt_of R i) False s1 (res, s')"
        by (rule record_result [OF assms(1,2) syn _ _ _ _ _ _ _ _ _ run, where f = ?f])
          (simp_all add: cur set_step_def step_key_def iterate_post fail_run_post derived_def wf_ok_def)
      moreover have "finish_call env ctx p aborted R i result s = (res, s')"
        using run None False unfolding eq upd_def by auto
      ultimately show ?thesis using None by simp
    qed
  qed
  then show ?thesis by (rule finish_post_files [rotated]) (simp add: s1_def)
qed

end
