(* ===== verification/FF_WorkflowDemo.thy ===== *)
theory FF_WorkflowDemo
  imports FF_WorkflowSegments
begin

text \<open>
  A run of a workflow with two steps, the second waiting for the first, evaluated step by step: the workflow is created,
  run, and both calls succeed.  It shows that the hypotheses of the properties about workflows can hold.
\<close>

definition wfx_env :: wf_env where
  "wfx_env = \<lparr>wv_lc = code_unit_le, wv_sha256 = (\<lambda>_. replicate 64 (CHR ''a'')), wv_now = (\<lambda>n. 1000 + int n),
     wv_uuid = (\<lambda>_. ''abcdef-0123456''), wv_write = (\<lambda>_. True), wv_projectRoot = ''/p''\<rparr>"

definition wfx_ctx :: exec_ctx where
  "wfx_ctx = \<lparr>xc_redact = (\<lambda>t. t), xc_scan = (\<lambda>_. 0), xc_isolation = (\<lambda>_. False)\<rparr>"

definition wfx_steps :: "jval list" where
  "wfx_steps = [JObj [(''id'', JStr ''a''), (''role'', JStr ''e''), (''tool'', JStr ''t'')],
     JObj [(''id'', JStr ''b''), (''role'', JStr ''e''), (''tool'', JStr ''t''), (''dependsOn'', JArr [JStr ''a''])]]"

definition wfx_definition :: jval where
  "wfx_definition = JObj [(''name'', JStr ''w''),
     (''roles'', JObj [(''e'', JObj [(''allowedTools'', JArr [JStr ''t''])])]),
     (''steps'', JArr wfx_steps)]"

definition wfx_user :: tool_principal where
  "wfx_user = bare_principal ''u'' RoleAgent"

definition wfx_ok :: ToolResult where
  "wfx_ok = \<lparr>tr_ok = True, tr_operationId = None, tr_execution = None, tr_data = JUndef, tr_error = None, tr_diff = None,
     tr_approvalId = None, tr_content = JUndef\<rparr>"

definition wfx_id :: string where
  "wfx_id = ''wf_abcdef012345''"

definition wfx_inputs :: "wf_input list" where
  "wfx_inputs = [InCreate [''t''] [(''definition'', wfx_definition)] wfx_user,
     InRun (\<lambda>_. None) False [(''id'', JStr wfx_id)] wfx_user, InResult 0 wfx_ok False, InResult 1 wfx_ok False]"

lemma esc: "json_escape c = [c]" if "c \<in> set ''abcdefghijklmnopqrstuvwxyzABCDEFGHIJKLMNOPQRSTUVWXYZ_0123456789-''"
  using that by (auto simp: json_escape_def char_code_def)

lemma wfx_fields:
  "jprop wfx_definition ''name'' = JStr ''w''" "jprop wfx_definition ''description'' = JUndef"
  "jprop wfx_definition ''roles'' = JObj [(''e'', JObj [(''allowedTools'', JArr [JStr ''t''])])]"
  "jprop wfx_definition ''steps'' = JArr wfx_steps"
  by (simp_all add: wfx_definition_def jprop_def jget_def)

lemma wfx_copy: "json_copy wfx_definition = wfx_definition" "no_undef wfx_definition"
  by (simp_all add: wfx_definition_def wfx_steps_def)

lemma wfx_bytes: "json_bytes wfx_definition \<le> 256000"
  by (simp add: wfx_definition_def wfx_steps_def json_bytes_def byte_length_def template_def char_code_def json_quote_def esc)

lemma wfx_validates: "validateWorkflowDefinition wfx_definition [''t''] = Inr wfx_definition"
proof -
  have w: "js_trim ''w'' = ''w''" by (simp add: js_trim_def is_space_def char_code_def)
  have d: "(case wfx_definition of JObj _ \<Rightarrow> x | _ \<Rightarrow> y) = x" for x y :: "jval result" by (simp add: wfx_definition_def)
  have l: "length wfx_steps = 2" by (simp add: wfx_steps_def)
  have roles: "check_roles [''t''] [(''e'', JObj [(''allowedTools'', JArr [JStr ''t''])])] = Inr ()"
    by (simp add: jprop_def jget_def id_pattern_def is_lower_def is_upper_def char_code_def)
  have steps: "check_steps wfx_definition [''t''] [] wfx_steps = Inr [JStr ''a'', JStr ''b'']"
    by (simp add: wfx_steps_def check_step_def Let_def step_id_def role_tools_def wfx_fields jprop_def [of "JObj _"] jget_def jitems_def jentries_def
       id_pattern_def is_lower_def is_upper_def char_code_def js_or_else_def json_bytes_def template_def byte_length_def MAX_STEP_ARGS_BYTES_def js_truthy_def)
  have graph: "step_graph [JStr ''a'', JStr ''b''] wfx_steps = Inr [(JStr ''a'', []), (JStr ''b'', [JStr ''a''])]"
    by (simp add: wfx_steps_def dep_items_def step_id_def jprop_def jget_def)
  have visit: "visit_all [(JStr ''a'', []), (JStr ''b'', [JStr ''a''])] [] [JStr ''a'', JStr ''b''] [] = Inr [JStr ''b'', JStr ''a'']"
    by (simp add: succs_def)
  show ?thesis
    unfolding validateWorkflowDefinition_def d wfx_fields
    by (simp add: w l roles steps graph visit wfx_bytes wfx_copy MAX_STEPS_def MAX_DEFINITION_BYTES_def jitems_def [of "JArr _"] jentries_def
      del: check_roles.simps check_steps.simps visit_all.simps step_graph.simps)
qed

definition wfx_step :: "string \<Rightarrow> WorkflowStepRun" where
  "wfx_step i = \<lparr>sr_id = JStr i, sr_role = JStr ''e'', sr_tool = JStr ''t'', sr_state = StPending,
     sr_attempts = 0, sr_startedAt = None, sr_completedAt = None, sr_approvalId = None, sr_resolvedArgs = JUndef,
     sr_evidence = JUndef, sr_note = None\<rparr>"

definition wfx_run :: "int \<Rightarrow> WorkflowState \<Rightarrow> int \<Rightarrow> int option \<Rightarrow> int option \<Rightarrow> jval \<Rightarrow> WorkflowStepRun list \<Rightarrow> WorkflowRun" where
  "wfx_run revn st upd started completed cur steps = \<lparr>wr_id = wfx_id, wr_revision = revn, wr_integritySha256 = replicate 64 (CHR ''a''),
     wr_definition = wfx_definition, wr_definitionHash = simpleHash (template (stable wfx_env wfx_definition)), wr_projectRoot = ''/p'',
     wr_owner = ownerBinding wfx_user, wr_task = \<lparr>wt_objective = ''w'', wt_acceptanceCriteria = [], wt_isolationId = None, wt_knownLimitations = []\<rparr>,
     wr_handoff = None, wr_proofPacks = [], wr_state = st, wr_createdAt = 1000, wr_updatedAt = upd, wr_startedAt = started,
     wr_completedAt = completed, wr_currentStepId = cur, wr_pauseReason = None, wr_failure = None, wr_steps = steps\<rparr>"

definition wfx_sys :: "WorkflowRun \<Rightarrow> nat \<Rightarrow> nat \<Rightarrow> wf_thread option list \<Rightarrow> wf_event list \<Rightarrow> wf_system" where
  "wfx_sys r reads writes T L = \<lparr>sy_store = \<lparr>wv_files = [(wfx_id, r)], wv_reads = reads, wv_draws = 1, wv_writes = writes\<rparr>,
     sy_threads = T, sy_log = L\<rparr>"

lemma wfx_integrity: "runIntegrity wfx_env r = replicate 64 (CHR ''a'')"
  by (simp add: runIntegrity_def wfx_env_def)

lemma wfx_1: "wf_exec wfx_env wfx_ctx (InCreate [''t''] [(''definition'', wfx_definition)] wfx_user) new_system =
   wfx_sys (wfx_run 1 WfCreated 1001 None None JUndef [wfx_step ''a'', wfx_step ''b'']) 2 1 [] []"
proof -
  have task: "taskMetadata wfx_definition \<lparr>mi_objective = None, mi_acceptanceCriteria = None, mi_isolationId = None, mi_knownLimitations = None\<rparr> =
    Inr \<lparr>wt_objective = ''w'', wt_acceptanceCriteria = [], wt_isolationId = None, wt_knownLimitations = []\<rparr>"
    by (simp add: taskMetadata_def wfx_fields js_or_else_def js_trim_def is_space_def char_code_def trimmed_set_def truthy_def)
  have env: "wv_projectRoot wfx_env = ''/p''" "wv_now wfx_env n = 1000 + int n" "wv_uuid wfx_env n = ''abcdef-0123456''" "wv_write wfx_env n"
    "xc_scan wfx_ctx t = 0" for n t
    by (simp_all add: wfx_env_def wfx_ctx_def)
  have step: "new_step (JObj [(''id'', JStr ''a''), (''role'', JStr ''e''), (''tool'', JStr ''t'')]) = wfx_step ''a''"
    "new_step (JObj [(''id'', JStr ''b''), (''role'', JStr ''e''), (''tool'', JStr ''t''), (''dependsOn'', JArr [JStr ''a''])]) = wfx_step ''b''"
    by (simp_all add: new_step_def wfx_step_def step_id_def jprop_def jget_def)
  show ?thesis
    by (simp add: on_store_def workflow_create_def jget_def env wfx_validates string_opt_def string_list_def truthy_def create_run_def
        uuidW_def bindA_def nowW_def liftR_def task wfx_fields step save_def check_revision_def write_run_def signed_def wfx_integrity
        put_file_def new_system_def wfx_steps_def jitems_def wfx_sys_def wfx_run_def wfx_id_def no_dashes_def Let_def del: stringify.simps)
qed

definition wfx_store :: "WorkflowRun \<Rightarrow> nat \<Rightarrow> nat \<Rightarrow> wf_store" where
  "wfx_store r reads writes = \<lparr>wv_files = [(wfx_id, r)], wv_reads = reads, wv_draws = 1, wv_writes = writes\<rparr>"

lemma wfx_store_simps [simp]: "wv_reads (wfx_store r k w) = k" "(wfx_store r k w)\<lparr>wv_reads := k'\<rparr> = wfx_store r k' w"
  by (simp_all add: wfx_store_def)

lemma wfx_env_simps [simp]: "wv_projectRoot wfx_env = ''/p''" "wv_now wfx_env n = 1000 + int n" "wv_write wfx_env n"
  by (simp_all add: wfx_env_def)

lemma wfx_run_simps [simp]:
  "wr_id (wfx_run n st u sa ca cs ss) = wfx_id" "wr_revision (wfx_run n st u sa ca cs ss) = n" "wr_state (wfx_run n st u sa ca cs ss) = st"
  "wr_startedAt (wfx_run n st u sa ca cs ss) = sa" "wr_steps (wfx_run n st u sa ca cs ss) = ss" "wr_definition (wfx_run n st u sa ca cs ss) = wfx_definition"
  "(wfx_run n st u sa ca cs ss)\<lparr>wr_state := st'\<rparr> = wfx_run n st' u sa ca cs ss"
  "(wfx_run n st u sa ca cs ss)\<lparr>wr_startedAt := sa'\<rparr> = wfx_run n st u sa' ca cs ss"
  "(wfx_run n st u sa ca cs ss)\<lparr>wr_completedAt := ca'\<rparr> = wfx_run n st u sa ca' cs ss"
  "(wfx_run n st u sa ca cs ss)\<lparr>wr_currentStepId := cs'\<rparr> = wfx_run n st u sa ca cs' ss"
  "(wfx_run n st u sa ca cs ss)\<lparr>wr_failure := None\<rparr> = wfx_run n st u sa ca cs ss"
  "set_step i f (wfx_run n st u sa ca cs ss) = wfx_run n st u sa ca cs (update_first (\<lambda>s. sr_id s = i) f ss)"
  "find_step i (wfx_run n st u sa ca cs ss) = find (\<lambda>s. sr_id s = i) ss"
  by (simp_all add: wfx_run_def set_step_def find_step_def)

lemma wfx_id_ok: "run_id_ok wfx_id"
  by (simp add: run_id_ok_def wfx_id_def is_lower_def is_upper_def is_digit_def char_code_def to_lower_def lower_char_def)

lemma wfx_get:
  assumes "1 \<le> n" "n < 100"
  shows "get_run wfx_env wfx_id (Some wfx_user) (wfx_store (wfx_run n st u sa ca cs ss) k w) =
    (Inr (wfx_run n st u sa ca cs ss), wfx_store (wfx_run n st u sa ca cs ss) k w)"
    "normalizeRun wfx_env (wfx_run n st u sa ca cs ss) wfx_id = Inr (wfx_run n st u sa ca cs ss)"
proof -
  have "hex64 (replicate 64 (CHR ''a''))" by (simp add: hex64_def list_all_iff)
  then show norm: "normalizeRun wfx_env (wfx_run n st u sa ca cs ss) wfx_id = Inr (wfx_run n st u sa ca cs ss)"
    using assms by (simp add: normalizeRun_def wfx_integrity)
      (simp add: wfx_run_def is_safe_integer_def MAX_SAFE_INTEGER_def ownerBinding_def wfx_user_def bare_principal_def)
  show "get_run wfx_env wfx_id (Some wfx_user) (wfx_store (wfx_run n st u sa ca cs ss) k w) =
    (Inr (wfx_run n st u sa ca cs ss), wfx_store (wfx_run n st u sa ca cs ss) k w)"
    using norm by (simp add: get_run_def wfx_id_ok wfx_store_def)
      (simp add: wfx_run_def ownerMatches_def ownerBinding_def wfx_user_def bare_principal_def truthy_def)
qed

lemma wfx_checkpoint:
  assumes "1 \<le> n" "n < 100"
  shows "checkpoint wfx_env (wfx_run n st' u sa' ca' cs' ss') wfx_user (wfx_store (wfx_run n st u sa ca cs ss) k w) =
    (Inr (wfx_run (n + 1) st' (1000 + int k) sa' ca' cs' ss'),
     wfx_store (wfx_run (n + 1) st' (1000 + int k) sa' ca' cs' ss') (Suc k) (Suc w))"
proof -
  have p: "wr_projectRoot (wfx_run n st' u sa' ca' cs' ss') = ''/p''" by (simp add: wfx_run_def)
  have "save wfx_env (wfx_run n st' u sa' ca' cs' ss') (wfx_store (wfx_run n st u sa ca cs ss) k w) =
    (Inr (wfx_run (n + 1) st' (1000 + int k) sa' ca' cs' ss'),
     wfx_store (wfx_run (n + 1) st' (1000 + int k) sa' ca' cs' ss') (Suc k) (Suc w))"
    unfolding save_def
    by (simp add: p check_revision_def wfx_store_def wfx_get [OF assms] bindA_def [of "\<lambda>s. (_ s, s)"])
       (simp add: wfx_run_def write_run_def signed_def wfx_integrity put_file_def Let_def)
  then show ?thesis
    by (simp add: checkpoint_def withRunLock_def wfx_id_ok bindA_def [of "get_run _ _ _"] wfx_get [OF assms])
qed

lemma wfx_definition_steps:
  assumes "wr_definition r = wfx_definition"
  shows "definition_step r (JStr ''a'') = Inr (wfx_steps ! 0)" "definition_step r (JStr ''b'') = Inr (wfx_steps ! 1)"
proof -
  have "jitems (jprop (wr_definition r) ''steps'') = wfx_steps" by (simp add: assms wfx_fields jitems_def)
  then show "definition_step r (JStr ''a'') = Inr (wfx_steps ! 0)" "definition_step r (JStr ''b'') = Inr (wfx_steps ! 1)"
    by (simp_all add: definition_step_def) (simp_all add: wfx_steps_def step_id_def jprop_def jget_def)
qed

lemma wfx_step_fields:
  "exec_deps (wfx_steps ! 0) = Inr []" "exec_deps (wfx_steps ! Suc 0) = Inr [JStr ''a'']"
  "step_args (wfx_steps ! 0) r = Inr []" "step_args (wfx_steps ! Suc 0) r = Inr []"
  "jprop (wfx_steps ! 0) ''expect'' = JUndef" "jprop (wfx_steps ! Suc 0) ''expect'' = JUndef"
  by (simp_all add: wfx_steps_def jprop_def jget_def exec_deps_def step_args_def resolveWorkflowValue_def js_or_else_def)

lemma wfx_step_simps [simp]: "sr_id (wfx_step i) = JStr i" "sr_state (wfx_step i) = StPending"
  by (simp_all add: wfx_step_def)

lemma wfx_no_skip:
  assumes "wr_definition r = wfx_definition" "i = JStr ''a'' \<or> i = JStr ''b'' \<and> \<not> dep_in {StFailed, StSkipped} r (JStr ''a'')"
  shows "mark_skip wfx_env i r s = (Inr r, s)"
  using assms(2) by (auto simp: mark_skip_def wfx_definition_steps [OF assms(1)] wfx_step_fields bindA_def liftR_def retA_def)
definition wfx_start :: "nat \<Rightarrow> WorkflowStepRun \<Rightarrow> WorkflowStepRun" where
  "wfx_start k = start_step (1000 + int k) (redactedArgs wfx_ctx [])"

lemma wfx_launch:
  assumes "1 \<le> n" "n < 100"
  shows "launch wfx_env wfx_ctx wfx_user i [] (wfx_run n WfRunning u sa ca cs ss) (wfx_store (wfx_run n WfRunning u sa ca cs ss) k w) =
    (let R = wfx_run (n + 1) WfRunning (1001 + int k) sa ca i (update_first (\<lambda>s. sr_id s = i) (wfx_start k) ss)
     in (Inr (Calling R i []), wfx_store R (k + 2) (Suc w)))"
proof -
  have fold: "(\<lambda>s. s\<lparr>sr_state := StRunning, sr_attempts := sr_attempts s + 1, sr_startedAt := Some (1000 + int k),
      sr_resolvedArgs := redactedArgs wfx_ctx []\<rparr>) = wfx_start k"
    by (simp add: fun_eq_iff wfx_start_def start_step_def)
  show ?thesis
    using wfx_checkpoint [OF assms, of WfRunning u sa ca i "update_first (\<lambda>s. sr_id s = i) (wfx_start k) ss" WfRunning sa ca cs ss "Suc k" w]
    by (simp add: launch_def bind_nowW Let_def fold) (simp add: bindA_def retA_def fold)
qed

lemma wfx_plan_a:
  assumes "1 \<le> n" "n < 100"
  shows "plan wfx_env wfx_ctx wfx_user (wfx_run n WfRunning u sa ca cs [wfx_step ''a'', wfx_step ''b'']) s =
    launch wfx_env wfx_ctx wfx_user (JStr ''a'') [] (wfx_run n WfRunning u sa ca cs [wfx_step ''a'', wfx_step ''b'']) s"
proof -
  let ?r = "wfx_run n WfRunning u sa ca cs [wfx_step ''a'', wfx_step ''b'']"
  have skips: "mark_skips wfx_env [JStr ''a'', JStr ''b''] ?r s = (Inr ?r, s)" for s
    by (simp add: bindA_def wfx_no_skip dep_in_def retA_def)
  have ns: "next_step ?r [wfx_step ''a'', wfx_step ''b''] = Inr (Some (wfx_step ''a''))"
    by (simp add: wfx_definition_steps wfx_step_fields)
  show ?thesis unfolding plan_def
    by (simp add: bindA_Inr [OF skips] unfinished_def ns bind_liftR wfx_definition_steps wfx_step_fields del: mark_skips.simps next_step.simps)
qed

lemma wfx_plan_b:
  assumes "1 \<le> n" "n < 100" "sr_id x = JStr ''a''" "sr_state x = StSucceeded"
  shows "plan wfx_env wfx_ctx wfx_user (wfx_run n WfRunning u sa ca cs [x, wfx_step ''b'']) s =
    launch wfx_env wfx_ctx wfx_user (JStr ''b'') [] (wfx_run n WfRunning u sa ca cs [x, wfx_step ''b'']) s"
proof -
  let ?r = "wfx_run n WfRunning u sa ca cs [x, wfx_step ''b'']"
  have skips: "mark_skips wfx_env [JStr ''b''] ?r s = (Inr ?r, s)" for s
    by (simp add: assms bindA_def wfx_no_skip dep_in_def retA_def)
  have ns: "next_step ?r [x, wfx_step ''b''] = Inr (Some (wfx_step ''b''))"
    by (simp add: assms wfx_definition_steps wfx_step_fields dep_in_def)
  show ?thesis unfolding plan_def
    by (simp add: assms bindA_Inr [OF skips] unfinished_def ns bind_liftR wfx_definition_steps wfx_step_fields del: mark_skips.simps next_step.simps)
qed

lemma wfx_plan_end:
  assumes "1 \<le> n" "n < 100" "sr_state x = StSucceeded" "sr_state y = StSucceeded"
  shows "plan wfx_env wfx_ctx wfx_user (wfx_run n WfRunning u sa ca cs [x, y]) (wfx_store (wfx_run n WfRunning u sa ca cs [x, y]) k w) =
    (let R = wfx_run (n + 1) WfCompleted (1001 + int k) sa (Some (1000 + int k)) JUndef [x, y]
     in (Inr (Returned True None R), wfx_store R (k + 2) (Suc w)))"
  using wfx_checkpoint [OF assms(1,2), of WfCompleted u sa "Some (1000 + int k)" JUndef "[x, y]" WfRunning sa ca cs "[x, y]" "Suc k" w] assms(3,4)
  by (simp add: plan_def bindA_Inr [where m = "retA _"] retA_def unfinished_def finish_run_def Let_def bind_nowW)
    (simp add: bindA_def retA_def)

lemma wfx_bind_get:
  assumes "1 \<le> n" "n < 100"
  shows "bindA (get_run wfx_env wfx_id (Some wfx_user)) f (wfx_store (wfx_run n st u sa ca cs ss) k w) =
    f (wfx_run n st u sa ca cs ss) (wfx_store (wfx_run n st u sa ca cs ss) k w)"
  using wfx_get(1) [OF assms] by (simp add: bindA_def)

definition wfx_done :: "nat \<Rightarrow> WorkflowStepRun \<Rightarrow> WorkflowStepRun" where
  "wfx_done k s = s\<lparr>sr_evidence := workflowEvidence wfx_ok (xc_redact wfx_ctx), sr_completedAt := Some (1000 + int k),
     sr_state := StSucceeded, sr_note := None\<rparr>"

lemma wfx_moved_simps [simp]: "sr_id (wfx_start k x) = sr_id x" "sr_state (wfx_start k x) = StRunning"
  "sr_id (wfx_done k x) = sr_id x" "sr_state (wfx_done k x) = StSucceeded"
  by (simp_all add: wfx_start_def start_step_def wfx_done_def)

lemma wfx_finish:
  assumes "1 \<le> n" "n < 99" "i = JStr ''a'' \<or> i = JStr ''b''"
  shows "finish_call wfx_env wfx_ctx wfx_user False (wfx_run n WfRunning u sa ca cs ss) i wfx_ok
      (wfx_store (wfx_run n WfRunning u sa ca cs ss) k w) =
    (let R = wfx_run (n + 1) WfRunning (1001 + int k) sa ca cs (update_first (\<lambda>s. sr_id s = i) (wfx_done k) ss)
     in plan wfx_env wfx_ctx wfx_user R (wfx_store R (k + 2) (Suc w)))"
proof -
  let ?r = "wfx_run n WfRunning u sa ca cs ss"
  let ?R = "wfx_run (n + 1) WfRunning (1001 + int k) sa ca cs (update_first (\<lambda>s. sr_id s = i) (wfx_done k) ss)"
  have n: "1 \<le> n" "n < 100" "1 \<le> n + 1" "n + 1 < 100" using assms by simp_all
  obtain d where d: "definition_step ?r i = Inr d" "jprop d ''expect'' = JUndef"
    using assms(3) by (auto simp: wfx_definition_steps wfx_step_fields)
  have ok: "truthy (tr_approvalId wfx_ok) = None" "tr_ok wfx_ok" by (simp_all add: wfx_ok_def truthy_def)
  have unmet: "checkWorkflowExpectation wfx_env JUndef v = None" for v by (simp add: checkWorkflowExpectation_def js_truthy_def)
  have fold: "(\<lambda>s. s\<lparr>sr_evidence := workflowEvidence wfx_ok (xc_redact wfx_ctx), sr_completedAt := Some (1000 + int k),
     sr_state := StSucceeded, sr_note := None\<rparr>) = wfx_done k"
    by (simp add: fun_eq_iff wfx_done_def)
  have "finish_call wfx_env wfx_ctx wfx_user False ?r i wfx_ok (wfx_store ?r k w) =
    iterate wfx_env wfx_ctx wfx_user False ?R (wfx_store ?R (k + 2) (Suc w))"
    using wfx_checkpoint [OF n(1,2), of WfRunning u sa ca cs "update_first (\<lambda>s. sr_id s = i) (wfx_done k) ss" WfRunning sa ca cs ss "Suc k" w]
    unfolding finish_call_def bind_liftR d sum.case bind_nowW Let_def ok option.case
    by (simp add: d unmet ok) (simp add: fold bindA_def)
  also have "\<dots> = plan wfx_env wfx_ctx wfx_user ?R (wfx_store ?R (k + 2) (Suc w))"
    unfolding iterate_def using n by (simp add: wfx_bind_get)
  finally show ?thesis by (simp add: Let_def)
qed

lemma wfx_begin:
  assumes "list_all (\<lambda>s. sr_state s \<noteq> StAwaiting) ss"
  shows "workflow_run wfx_env wfx_ctx approvals False [(''id'', JStr wfx_id)] wfx_user
      (wfx_store (wfx_run 1 WfCreated 1001 None None JUndef ss) 2 1) =
    (let R = wfx_run 2 WfRunning 1003 (Some 1002) None JUndef ss in plan wfx_env wfx_ctx wfx_user R (wfx_store R 4 2))"
proof -
  let ?r = "wfx_run 1 WfCreated 1001 None None JUndef ss" and ?R = "wfx_run 2 WfRunning 1003 (Some 1002) None JUndef ss"
  have arg: "js_String (js_or_else (js_or_else (jget [(''id'', JStr wfx_id)] ''id'') (jget [(''id'', JStr wfx_id)] ''workflowId'')) (JStr [])) = wfx_id"
    by (simp add: jget_def js_or_else_def)
  have none: "find (\<lambda>s. sr_state s = StAwaiting) ss = None" using assms by (simp add: find_None_iff list_all_iff)
  have "workflow_run wfx_env wfx_ctx approvals False [(''id'', JStr wfx_id)] wfx_user (wfx_store ?r 2 1) =
    enter_loop wfx_env wfx_ctx wfx_user False ?r (wfx_store ?r 2 1)"
    unfolding workflow_run_def arg by (simp add: wfx_bind_get begin_execution_def none)
  also have "\<dots> = iterate wfx_env wfx_ctx wfx_user False ?R (wfx_store ?R 4 2)"
    using wfx_checkpoint [of 1 WfRunning 1001 "Some 1002" None JUndef ss WfCreated None None JUndef ss 3 1]
    by (simp add: enter_loop_def bind_nowW del: One_nat_def) (simp add: bindA_def del: One_nat_def)
  also have "\<dots> = plan wfx_env wfx_ctx wfx_user ?R (wfx_store ?R 4 2)"
    unfolding iterate_def by (simp add: wfx_bind_get)
  finally show ?thesis by (simp add: Let_def)
qed

definition wfx_a :: "nat \<Rightarrow> WorkflowStepRun" where
  "wfx_a n = (if n = 0 then wfx_start 4 (wfx_step ''a'') else wfx_done 6 (wfx_start 4 (wfx_step ''a'')))"

definition wfx_b :: "nat \<Rightarrow> WorkflowStepRun" where
  "wfx_b n = (if n = 0 then wfx_start 8 (wfx_step ''b'') else wfx_done 10 (wfx_start 8 (wfx_step ''b'')))"

lemma wfx_ab [simp]: "sr_id (wfx_a n) = JStr ''a''" "sr_state (wfx_a 0) = StRunning" "sr_state (wfx_a (Suc n)) = StSucceeded"
  "sr_id (wfx_b n) = JStr ''b''" "sr_state (wfx_b 0) = StRunning" "sr_state (wfx_b (Suc n)) = StSucceeded"
  by (simp_all add: wfx_a_def wfx_b_def)

definition wfx_R :: "nat \<Rightarrow> WorkflowRun" where
  "wfx_R n = (if n = 0 then wfx_run 1 WfCreated 1001 None None JUndef [wfx_step ''a'', wfx_step ''b'']
     else if n = 1 then wfx_run 3 WfRunning 1005 (Some 1002) None (JStr ''a'') [wfx_a 0, wfx_step ''b'']
     else if n = 2 then wfx_run 5 WfRunning 1009 (Some 1002) None (JStr ''b'') [wfx_a 1, wfx_b 0]
     else wfx_run 7 WfCompleted 1013 (Some 1002) (Some 1012) JUndef [wfx_a 1, wfx_b 1])"

definition wfx_thread :: "WorkflowRun \<Rightarrow> string \<Rightarrow> wf_thread" where
  "wfx_thread r i = \<lparr>th_principal = wfx_user, th_run = r, th_step = JStr i\<rparr>"

lemma wfx_2: "wf_exec wfx_env wfx_ctx (InRun approvals False [(''id'', JStr wfx_id)] wfx_user) (wfx_sys (wfx_R 0) 2 1 [] []) =
   wfx_sys (wfx_R 1) 6 3 [Some (wfx_thread (wfx_R 1) ''a'')] [EvCall (wfx_R 1) (JStr ''a'') []]"
proof -
  have "workflow_run wfx_env wfx_ctx approvals False [(''id'', JStr wfx_id)] wfx_user (wfx_store (wfx_R 0) 2 1) =
    (Inr (Calling (wfx_R 1) (JStr ''a'') []), wfx_store (wfx_R 1) 6 3)"
    by (simp add: wfx_begin wfx_plan_a wfx_launch wfx_R_def wfx_a_def del: One_nat_def) (simp add: Let_def)
  then show ?thesis by (simp add: run_segment_def wfx_sys_def wfx_store_def wfx_thread_def)
qed

lemma wfx_3: "wf_exec wfx_env wfx_ctx (InResult 0 wfx_ok False)
     (wfx_sys (wfx_R 1) 6 3 [Some (wfx_thread (wfx_R 1) ''a'')] [EvCall (wfx_R 1) (JStr ''a'') []]) =
   wfx_sys (wfx_R 2) 10 5 [None, Some (wfx_thread (wfx_R 2) ''b'')]
     [EvCall (wfx_R 2) (JStr ''b'') [], EvResult wfx_id (JStr ''a'') wfx_ok, EvCall (wfx_R 1) (JStr ''a'') []]"
proof -
  have "finish_call wfx_env wfx_ctx wfx_user False (wfx_R 1) (JStr ''a'') wfx_ok (wfx_store (wfx_R 1) 6 3) =
    (Inr (Calling (wfx_R 2) (JStr ''b'') []), wfx_store (wfx_R 2) 10 5)"
    by (simp add: wfx_finish wfx_plan_b wfx_launch wfx_R_def) (simp add: wfx_a_def wfx_b_def Let_def)
  moreover have "wr_id (wfx_R 1) = wfx_id" by (simp add: wfx_R_def)
  ultimately show ?thesis by (simp add: run_segment_def wfx_sys_def wfx_store_def wfx_thread_def)
qed

lemma wfx_4: "wf_exec wfx_env wfx_ctx (InResult 1 wfx_ok False)
     (wfx_sys (wfx_R 2) 10 5 [None, Some (wfx_thread (wfx_R 2) ''b'')] L) =
   wfx_sys (wfx_R 3) 14 7 [None, None] (EvResult wfx_id (JStr ''b'') wfx_ok # L)"
proof -
  have "finish_call wfx_env wfx_ctx wfx_user False (wfx_R 2) (JStr ''b'') wfx_ok (wfx_store (wfx_R 2) 10 5) =
    (Inr (Returned True None (wfx_R 3)), wfx_store (wfx_R 3) 14 7)"
    by (simp add: wfx_finish wfx_plan_end wfx_R_def) (simp add: wfx_b_def Let_def)
  moreover have "wr_id (wfx_R 2) = wfx_id" by (simp add: wfx_R_def)
  ultimately show ?thesis by (simp add: run_segment_def wfx_sys_def wfx_store_def wfx_thread_def)
qed

lemma wfx_runs:
  "wf_runs wfx_env wfx_ctx [] = new_system"
  "wf_runs wfx_env wfx_ctx (take 1 wfx_inputs) = wfx_sys (wfx_R 0) 2 1 [] []"
  "wf_runs wfx_env wfx_ctx (take 2 wfx_inputs) =
    wfx_sys (wfx_R 1) 6 3 [Some (wfx_thread (wfx_R 1) ''a'')] [EvCall (wfx_R 1) (JStr ''a'') []]"
  "wf_runs wfx_env wfx_ctx (take 3 wfx_inputs) = wfx_sys (wfx_R 2) 10 5 [None, Some (wfx_thread (wfx_R 2) ''b'')]
     [EvCall (wfx_R 2) (JStr ''b'') [], EvResult wfx_id (JStr ''a'') wfx_ok, EvCall (wfx_R 1) (JStr ''a'') []]"
  "wf_runs wfx_env wfx_ctx wfx_inputs = wfx_sys (wfx_R 3) 14 7 [None, None]
     [EvResult wfx_id (JStr ''b'') wfx_ok, EvCall (wfx_R 2) (JStr ''b'') [], EvResult wfx_id (JStr ''a'') wfx_ok,
      EvCall (wfx_R 1) (JStr ''a'') []]"
proof -
  have 0: "wfx_run 1 WfCreated 1001 None None JUndef [wfx_step ''a'', wfx_step ''b''] = wfx_R 0" by (simp add: wfx_R_def)
  note steps = wfx_1 [unfolded 0] wfx_2 wfx_3 wfx_4
  show "wf_runs wfx_env wfx_ctx [] = new_system"
    "wf_runs wfx_env wfx_ctx (take 1 wfx_inputs) = wfx_sys (wfx_R 0) 2 1 [] []"
    "wf_runs wfx_env wfx_ctx (take 2 wfx_inputs) =
      wfx_sys (wfx_R 1) 6 3 [Some (wfx_thread (wfx_R 1) ''a'')] [EvCall (wfx_R 1) (JStr ''a'') []]"
    "wf_runs wfx_env wfx_ctx (take 3 wfx_inputs) = wfx_sys (wfx_R 2) 10 5 [None, Some (wfx_thread (wfx_R 2) ''b'')]
       [EvCall (wfx_R 2) (JStr ''b'') [], EvResult wfx_id (JStr ''a'') wfx_ok, EvCall (wfx_R 1) (JStr ''a'') []]"
    "wf_runs wfx_env wfx_ctx wfx_inputs = wfx_sys (wfx_R 3) 14 7 [None, None]
       [EvResult wfx_id (JStr ''b'') wfx_ok, EvCall (wfx_R 2) (JStr ''b'') [], EvResult wfx_id (JStr ''a'') wfx_ok,
        EvCall (wfx_R 1) (JStr ''a'') []]"
    by (simp_all add: wf_runs_def wfx_inputs_def steps [unfolded One_nat_def] del: wf_exec.simps)
qed

lemma wfx_files: "map_of (wv_files (wfx_store r k w)) wfx_id = Some r"
  "sy_store (wfx_sys r k w T L) = wfx_store r k w" "sy_log (wfx_sys r k w T L) = L"
  by (simp_all add: wfx_sys_def wfx_store_def)

section \<open>A handoff that is claimed\<close>

definition wfx_heir :: tool_principal where
  "wfx_heir = bare_principal ''v'' RoleAgent"

definition wfx_offered :: WorkflowRun where
  "wfx_offered = (wfx_run 1 WfCreated 1001 None None JUndef [wfx_step ''a'', wfx_step ''b''])\<lparr>wr_handoff :=
     Some \<lparr>wh_targetPrincipalId = ''v'', wh_tokenSha256 = replicate 64 (CHR ''a''), wh_createdAt = 1000, wh_expiresAt = 9000\<rparr>\<rparr>"

definition wfx_claimed :: WorkflowRun where
  "wfx_claimed = wfx_offered\<lparr>wr_owner := ownerBinding wfx_heir, wr_handoff := None, wr_updatedAt := 1003, wr_revision := 2\<rparr>"

lemma wfx_claim: "claim_run wfx_env wfx_id ''token'' wfx_heir (wfx_store wfx_offered 2 1) = (Inr wfx_claimed, wfx_store wfx_claimed 4 2)"
proof -
  have "hex64 (replicate 64 (CHR ''a''))" by (simp add: hex64_def list_all_iff)
  then have norm: "normalizeRun wfx_env wfx_offered wfx_id = Inr wfx_offered"
    by (simp add: normalizeRun_def wfx_integrity)
      (simp add: wfx_offered_def wfx_run_def is_safe_integer_def MAX_SAFE_INTEGER_def ownerBinding_def wfx_user_def bare_principal_def)
  have get: "bindA (get_run wfx_env wfx_id None) f (wfx_store wfx_offered 2 1) = f wfx_offered (wfx_store wfx_offered 2 1)" for f
    using norm by (simp add: bindA_def get_run_def wfx_id_ok wfx_store_def)
  have h: "wr_handoff wfx_offered = Some \<lparr>wh_targetPrincipalId = ''v'', wh_tokenSha256 = replicate 64 (CHR ''a''),
      wh_createdAt = 1000, wh_expiresAt = 9000\<rparr>"
    by (simp add: wfx_offered_def)
  have token: "tokenHash wfx_env t = replicate 64 (CHR ''a'')" for t by (simp add: tokenHash_def wfx_env_def)
  have "claim_run wfx_env wfx_id ''token'' wfx_heir (wfx_store wfx_offered 2 1) =
    save wfx_env (wfx_offered\<lparr>wr_owner := ownerBinding wfx_heir, wr_handoff := None\<rparr>) (wfx_store wfx_offered 3 1)"
    unfolding claim_run_def withRunLock_def
    by (simp add: wfx_id_ok get h bind_nowW token del: One_nat_def) (simp add: wfx_heir_def bare_principal_def)
  also have "\<dots> = (Inr wfx_claimed, wfx_store wfx_claimed 4 2)"
    unfolding save_def
    by (simp add: check_revision_def wfx_store_def bindA_def [of "\<lambda>s. (_ s, s)"] norm)
      (simp add: wfx_claimed_def wfx_offered_def wfx_run_def check_revision_def write_run_def signed_def wfx_integrity put_file_def Let_def norm)
  finally show ?thesis .
qed
end
