(* ===== verification/FF_Workflow.thy ===== *)
theory FF_Workflow
  imports FF_WorkflowDemo
begin

text \<open>
  What the workflow tools guarantee over every interleaving of executors, operators and failing writes
  (\<open>wf_runs\<close>): the runs on disk stay well formed, a tool is called only as the definition allows and after the
  dependencies of its step, a step is not replayed, an undisturbed execution ends, a completed run has done all its
  steps.  The invariant is \<open>sys_inv\<close>.
\<close>

section \<open>The operations of the manager\<close>

definition runs_ok :: "wf_store \<Rightarrow> bool" where
  "runs_ok s \<longleftrightarrow> (\<forall>i r. map_of (wv_files s) i = Some r \<longrightarrow> wr_id r = i \<and> wf_ok r)"

text \<open>An operation leaves the files, or makes a quiet move of one run.\<close>

definition store_move :: "wf_store \<Rightarrow> wf_store \<Rightarrow> bool" where
  "store_move s s' \<longleftrightarrow> map_of (wv_files s') = map_of (wv_files s) \<or>
     (\<exists>r r'. map_of (wv_files s) (wr_id r) = Some r \<and> map_of (wv_files s') = (map_of (wv_files s))(wr_id r \<mapsto> r') \<and>
        run_quiet r r' \<and> wr_revision r < wr_revision r' \<and> wf_ok r')"

lemma store_move_refl [simp]: "wv_files s' = wv_files s \<Longrightarrow> store_move s s'"
  by (simp add: store_move_def)

lemma store_move_files: "wv_files t = wv_files s \<Longrightarrow> store_move t s' = store_move s s'"
  by (simp add: store_move_def)

lemma store_move_files': "wv_files t = wv_files s' \<Longrightarrow> store_move s t = store_move s s'"
  by (simp add: store_move_def)

lemma saved_quiet_ok:
  assumes "saved_as c r'" "wf_ok r" "derived r c" "done_ok c"
  shows "run_quiet r r' \<and> wr_revision r < wr_revision r' \<and> wf_ok r'"
proof -
  have same: "wr_id r' = wr_id c" "wr_definition r' = wr_definition c" "wr_steps r' = wr_steps c" "wr_state r' = wr_state c"
    using assms(1) by simp_all
  have "run_wf r' = run_wf c" by (rule run_wf_cong) (simp_all add: same)
  moreover have "skips_ok r'"
    by (rule skips_ok_move [of c r' "(=)"]) (use assms(3) same in \<open>auto simp: derived_def list.rel_eq\<close>)
  moreover have "run_quiet r r'"
    using assms(3) run_quiet_trans [OF _ run_quiet_same [OF same(1-3)], of r] by (simp add: derived_def)
  ultimately show ?thesis
    using derived_wf [OF assms(2,3)] assms(1,3,4) same by (simp add: wf_ok_def done_ok_def derived_def)
qed

lemma save_move:
  assumes "map_of (wv_files s) (wr_id r) = Some r" "wf_ok r" "derived r c" "done_ok c"
  shows "store_move s (snd (save env c s))"
proof -
  obtain res s' where x: "save env c s = (res, s')" by (cases "save env c s")
  from x show ?thesis
  proof (cases rule: save_cases)
    case (saved c')
    have "wr_id c = wr_id r" using assms(3) by (simp add: derived_def run_quiet_def)
    with saved saved_quiet_ok [OF saved(2) assms(2-4)] assms(1) x show ?thesis
      unfolding store_move_def by (auto simp: map_of_put_file)
  qed (simp add: x)
qed

lemma bindA_last_move:
  assumes "store_move s (snd (m s))" "\<And>x t. wv_files (snd (f x t)) = wv_files t"
  shows "store_move s (snd (bindA m f s))"
proof -
  obtain res s' where x: "m s = (res, s')" by (cases "m s")
  show ?thesis
  proof (cases res)
    case (Inr y)
    then have "bindA m f s = f y s'" using x by (simp add: bindA_def)
    then show ?thesis
      using assms(1) x store_move_files' [of "snd (f y s')" s' s, OF assms(2)] by simp
  next
    case (Inl e)
    then show ?thesis using assms(1) x by (simp add: bindA_def)
  qed
qed

lemma with_run:
  assumes "runs_ok s" "\<And>run. map_of (wv_files s) (wr_id run) = Some run \<Longrightarrow> wf_ok run \<Longrightarrow> wr_id run = i \<Longrightarrow> store_move s (snd (f run s))"
  shows "store_move s (snd (withRunLock i (bindA (get_run env i who) f) s))"
proof (cases "run_id_ok i")
  case True
  obtain res s' where x: "bindA (get_run env i who) f s = (res, s')" by (cases "bindA (get_run env i who) f s")
  then show ?thesis
  proof (cases rule: bind_get_cases)
    case (found run)
    have run: "map_of (wv_files s) i = Some run" "wr_id run = i" using get_run_InrD [OF found(1)] by simp_all
    with assms(1) have "wf_ok run" by (auto simp: runs_ok_def)
    then have "store_move s (snd (f run s))" using assms(2) run by simp
    with x found(2) True show ?thesis by (simp add: withRunLock_def)
  qed (use x True in \<open>simp add: withRunLock_def\<close>)
qed (simp add: withRunLock_def throwA_def)

lemma derived_same:
  "wf_ok r \<Longrightarrow> wr_id c = wr_id r \<Longrightarrow> wr_definition c = wr_definition r \<Longrightarrow> wr_steps c = wr_steps r \<Longrightarrow> wr_revision c = wr_revision r \<Longrightarrow>
     derived r c"
  using derived_cong [of c r r] by (simp add: derived_def wf_ok_def)

lemma cancel_move: "runs_ok s \<Longrightarrow> store_move s (snd (cancel_run env i who s))"
  unfolding cancel_run_def
proof (rule with_run)
  fix run
  assume r: "map_of (wv_files s) (wr_id run) = Some run" "wf_ok run"
  define c where "c = run\<lparr>wr_state := WfCancelled, wr_completedAt := Some (wv_now env (wv_reads s)),
    wr_pauseReason := Some ''Cancelled by operator.''\<rparr>"
  define s1 where "s1 = s\<lparr>wv_reads := Suc (wv_reads s)\<rparr>"
  have "store_move s1 (snd (save env c s1))"
    by (rule save_move [of _ run]) (use r in \<open>simp_all add: s1_def c_def derived_same done_ok_def\<close>)
  then show "store_move s (snd ((if wf_terminal (wr_state run) then retA run
     else bindA (nowW env) (\<lambda>now.
       save env (run\<lparr>wr_state := WfCancelled, wr_completedAt := Some now, wr_pauseReason := Some ''Cancelled by operator.''\<rparr>))) s))"
    using store_move_files [of s1 s] by (simp add: retA_def c_def s1_def)
qed

lemma pause_move: "runs_ok s \<Longrightarrow> store_move s (snd (pause_run env i p reason s))"
  unfolding pause_run_def
proof (rule with_run)
  fix run
  assume r: "map_of (wv_files s) (wr_id run) = Some run" "wf_ok run"
  have "store_move s (snd (save env (run\<lparr>wr_state := WfPaused, wr_pauseReason := t\<rparr>) s))" for t
    by (rule save_move [of _ run]) (use r in \<open>simp_all add: derived_same done_ok_def\<close>)
  then show "store_move s (snd ((if wf_terminal (wr_state run) then throwA (PlainError (''Workflow '' @ i @ '' is terminal ('' @ wf_state_text (wr_state run) @ '').''))
     else let t = take 2000 (js_trim (case reason of None \<Rightarrow> ''Paused by operator.'' | Some r \<Rightarrow> r))
          in save env (run\<lparr>wr_state := WfPaused, wr_pauseReason := Some (if t = [] then ''Paused by operator.'' else t)\<rparr>)) s))"
    by (simp add: throwA_def Let_def)
qed

lemma proof_pack_moves:
  assumes "runs_ok s"
  shows "store_move s (snd (add_proof_pack env i ref who s))" "store_move s (snd (remove_proof_pack env i packId who s))"
proof -
  have "store_move s (snd (save env (run\<lparr>wr_proofPacks := ps\<rparr>) s))"
    if "map_of (wv_files s) (wr_id run) = Some run" "wf_ok run" for run ps
    by (rule save_move [of _ run]) (use that in \<open>simp_all add: derived_same done_ok_def wf_ok_def\<close>)
  note save = this
  show "store_move s (snd (remove_proof_pack env i packId who s))"
    unfolding remove_proof_pack_def by (rule with_run [OF assms]) (rule save)
  show "store_move s (snd (add_proof_pack env i ref who s))"
    unfolding add_proof_pack_def
  proof (rule with_run [OF assms])
    fix run
    assume r: "map_of (wv_files s) (wr_id run) = Some run" "wf_ok run"
    show "store_move s (snd (save env (if list_ex (\<lambda>x. pp_id x = pp_id ref) (wr_proofPacks run) then run
               else run\<lparr>wr_proofPacks := wr_proofPacks run @ [ref]\<rparr>) s))"
      using save [OF r, of "wr_proofPacks run"] save [OF r] by simp
  qed
qed

lemma claim_move: "runs_ok s \<Longrightarrow> store_move s (snd (claim_run env i token p s))"
  unfolding claim_run_def
proof (rule with_run)
  fix run
  assume r: "map_of (wv_files s) (wr_id run) = Some run" "wf_ok run"
  define s1 where "s1 = s\<lparr>wv_reads := Suc (wv_reads s)\<rparr>"
  have drop: "store_move s1 (snd (save env (run\<lparr>wr_handoff := None\<rparr>) s1))"
    by (rule save_move [of _ run]) (use r in \<open>simp_all add: s1_def derived_same done_ok_def wf_ok_def\<close>)
  have take: "store_move s1 (snd (save env (run\<lparr>wr_owner := w, wr_handoff := None\<rparr>) s1))" for w
    by (rule save_move [of _ run]) (use r in \<open>simp_all add: s1_def derived_same done_ok_def wf_ok_def\<close>)
  have "store_move s1 (snd (bindA (save env (run\<lparr>wr_handoff := None\<rparr>)) (\<lambda>_. throwA (PlainError msg)) s1))" for msg
    by (rule bindA_last_move [where m = "save env (run\<lparr>wr_handoff := None\<rparr>)", OF drop]) (simp add: throwA_def)
  with take show "store_move s (snd ((case wr_handoff run of
       None \<Rightarrow> throwA (PlainError ''Workflow has no pending handoff.'')
     | Some h \<Rightarrow>
         bindA (nowW env) (\<lambda>now.
         if wh_expiresAt h \<le> now
         then bindA (save env (run\<lparr>wr_handoff := None\<rparr>)) (\<lambda>_. throwA (PlainError ''Workflow handoff has expired.''))
         else if wh_targetPrincipalId h \<noteq> p_id p then throwA (PlainError ''Workflow handoff target mismatch.'')
         else if tokenHash env token \<noteq> wh_tokenSha256 h then throwA (PlainError ''Workflow handoff token is invalid.'')
         else save env (run\<lparr>wr_owner := ownerBinding p, wr_handoff := None\<rparr>))) s))"
    using store_move_files [of s1 s] by (auto simp: s1_def throwA_def split: option.split)
qed

lemma handoff_move: "runs_ok s \<Longrightarrow> store_move s (snd (handoff_run env i p target ttl s))"
  unfolding handoff_run_def
proof (rule with_run)
  fix run
  assume r: "map_of (wv_files s) (wr_id run) = Some run" "wf_ok run"
  have inv: "quiet x (invalidate_approval x)" "sr_state (invalidate_approval x) = StSkipped \<longleftrightarrow> sr_state x = StSkipped"
    "sr_state x = StFailed \<Longrightarrow> sr_state (invalidate_approval x) = StFailed" for x
    by (auto simp: invalidate_approval_def quiet_def step_key_def)
  have der: "derived run (run\<lparr>wr_steps := map invalidate_approval (wr_steps run), wr_handoff := h\<rparr>)" (is "derived run ?c") for h
  proof -
    have all: "list_all2 (\<lambda>x y. y = invalidate_approval x) (wr_steps run) (wr_steps ?c)"
      by (simp add: list_all2_conv_all_nth)
    have "list_all2 quiet (wr_steps run) (wr_steps ?c)"
      using all by (rule list_all2_mono) (simp add: inv)
    moreover have "skips_ok ?c"
      by (rule skips_ok_move [OF _ _ all]) (use r(2) inv in \<open>auto simp: wf_ok_def quiet_def step_key_def\<close>)
    ultimately show ?thesis by (simp add: derived_def run_quiet_def)
  qed
  have done_after: "done_ok (run\<lparr>wr_steps := map invalidate_approval (wr_steps run), wr_handoff := h\<rparr>)"
    if "wr_state run = WfCreated \<or> wr_state run = WfPaused" for h
    using that by (auto simp: done_ok_def)
  let ?save = "\<lambda>u1 u2 t. bindA (save env (run\<lparr>wr_steps := map invalidate_approval (wr_steps run),
      wr_handoff := Some \<lparr>wh_targetPrincipalId = js_trim target, wh_tokenSha256 = tokenHash env (''wf_claim_'' @ no_dashes u1 @ no_dashes u2),
        wh_createdAt = t, wh_expiresAt = t + ttl\<rparr>\<rparr>)) (\<lambda>run'. retA (run', ''wf_claim_'' @ no_dashes u1 @ no_dashes u2))"
  have save: "store_move s (snd (?save u1 u2 t s1))"
    if "wr_state run = WfCreated \<or> wr_state run = WfPaused" "wv_files s1 = wv_files s" for u1 u2 t s1
  proof -
    have "store_move s1 (snd (?save u1 u2 t s1))"
      by (rule bindA_last_move [where m = "save env _"], rule save_move [of _ run])
        (use r der done_after that in \<open>simp_all add: retA_def\<close>)
    then show ?thesis using store_move_files [OF that(2)] by simp
  qed
  show "store_move s (snd ((let t = js_trim target in
     if wr_state run \<noteq> WfCreated \<and> wr_state run \<noteq> WfPaused
     then throwA (PlainError ''Workflow handoff requires created or paused state.'')
     else if list_ex (\<lambda>s. sr_state s = StRunning) (wr_steps run)
     then throwA (PlainError ''Workflow handoff waits for the current running step to checkpoint.'')
     else if t = [] \<or> t = wo_principalId (wr_owner run)
     then throwA (PlainError ''Handoff target must be a different principal.'')
     else if \<not> is_safe_integer ttl \<or> ttl < 1000 \<or> ttl > 86400000
     then throwA (PlainError ''handoff ttlMs must be between 1000 and 86400000.'')
     else bindA (uuidW env) (\<lambda>u1.
          bindA (uuidW env) (\<lambda>u2.
          let token = ''wf_claim_'' @ no_dashes u1 @ no_dashes u2 in
          bindA (nowW env) (\<lambda>now.
          bindA (save env (run\<lparr>wr_steps := map invalidate_approval (wr_steps run),
              wr_handoff := Some \<lparr>wh_targetPrincipalId = t, wh_tokenSha256 = tokenHash env token, wh_createdAt = now,
                wh_expiresAt = now + ttl\<rparr>\<rparr>)) (\<lambda>run'.
          retA (run', token)))))) s))"
  proof (cases "wr_state run = WfCreated \<or> wr_state run = WfPaused")
    case True
    have u: "bindA (uuidW env) f t = f (wv_uuid env (wv_draws t)) (t\<lparr>wv_draws := Suc (wv_draws t)\<rparr>)" for f :: "string \<Rightarrow> (wf_store, WorkflowRun \<times> string) act" and t
      by (simp add: bindA_def uuidW_def)
    show ?thesis unfolding Let_def u bind_nowW
      by (cases "list_ex (\<lambda>s. sr_state s = StRunning) (wr_steps run)"; cases "js_trim target = [] \<or> js_trim target = wo_principalId (wr_owner run)";
          cases "\<not> is_safe_integer ttl \<or> ttl < 1000 \<or> ttl > 86400000")
        (use True save [OF True] in \<open>simp_all add: throwA_def\<close>)
  qed (simp add: throwA_def)
qed

text \<open>A new run.\<close>

definition store_new :: "wf_store \<Rightarrow> wf_store \<Rightarrow> bool" where
  "store_new s s' \<longleftrightarrow> map_of (wv_files s') = map_of (wv_files s) \<or>
     (\<exists>r. map_of (wv_files s) (wr_id r) = None \<and> map_of (wv_files s') = (map_of (wv_files s))(wr_id r \<mapsto> r) \<and> wf_ok r \<and>
        (\<forall>x \<in> set (wr_steps r). sr_state x = StPending))"

lemma json_copy_id: "no_undef v \<Longrightarrow> json_copy v = v"
proof (induction v rule: json_copy.induct)
  case (1 vs)
  then have "JUndef \<notin> set vs" by (auto simp: list_all_iff)
  with 1 show ?case by (auto simp: list_all_iff intro!: map_idI)
next
  case (2 kvs)
  have "filter (\<lambda>(k, v). v \<noteq> JUndef) kvs = kvs"
    using 2(2) by (auto simp: list_all_iff intro!: filter_True)
  moreover have "json_copy b = b" if "(a, b) \<in> set kvs" for a b
  proof -
    have "no_undef b" using 2(2) that by (auto simp: list_all_iff)
    moreover from this have "b \<noteq> JUndef" by auto
    ultimately show ?thesis using 2(1) [of "(a, b)" a b] that by simp
  qed
  then have "map (\<lambda>(k, v). (k, json_copy v)) kvs = kvs"
    by (intro map_idI) auto
  with calculation show ?case by simp
qed auto

lemma no_undef_jget: "no_undef (JObj kvs) \<Longrightarrow> jget kvs k = JUndef \<or> no_undef (jget kvs k)"
  by (auto simp: jget_def list_all_iff split: option.split dest: map_of_SomeD)

lemma create_run_new:
  assumes "valid_definition available d"
  shows "store_new s (snd (create_run env d p m s))"
proof (cases "taskMetadata d m")
  case (Inl e)
  then show ?thesis by (simp add: create_run_def bindA_def nowW_def uuidW_def liftR_def store_new_def)
next
  case (Inr task)
  define s1 where "s1 = s\<lparr>wv_reads := Suc (wv_reads s), wv_draws := Suc (wv_draws s)\<rparr>"
  define c where "c = \<lparr>wr_id = ''wf_'' @ take 12 (no_dashes (wv_uuid env (wv_draws s))), wr_revision = 0, wr_integritySha256 = [], wr_definition = d,
       wr_definitionHash = simpleHash (template (stable env d)), wr_projectRoot = wv_projectRoot env,
       wr_owner = ownerBinding p, wr_task = task, wr_handoff = None, wr_proofPacks = [], wr_state = WfCreated,
       wr_createdAt = wv_now env (wv_reads s), wr_updatedAt = wv_now env (wv_reads s), wr_startedAt = None, wr_completedAt = None, wr_currentStepId = JUndef,
       wr_pauseReason = None, wr_failure = None, wr_steps = map new_step (jitems (jprop d ''steps''))\<rparr>"
  obtain res s' where x: "save env c s1 = (res, s')" by (cases "save env c s1")
  have eq: "create_run env d p m s = (res, s')"
    using x Inr unfolding create_run_def c_def s1_def by (simp add: bindA_def nowW_def uuidW_def liftR_def)
  from x show ?thesis
  proof (cases rule: save_cases)
    case (thrown e)
    then show ?thesis by (simp add: eq store_new_def s1_def)
  next
    case (saved r)
    have c: "wr_id c = wr_id r" "wr_definition r = d" "wr_steps r = map new_step (jitems (jprop d ''steps''))" "wr_state r = WfCreated"
      "wr_revision c = 0"
      using saved(2) by (simp_all add: c_def)
    have fresh: "map_of (wv_files s) (wr_id r) = None"
    proof (cases "map_of (wv_files s) (wr_id r)")
      case (Some raw)
      then have "map_of (wv_files s1) (wr_id c) = Some raw" by (simp add: s1_def c(1))
      from saved(6) [OF this] c(5) have "wr_revision raw = 0" "normalizeRun env raw (wr_id c) = Inr raw" by simp_all
      then show ?thesis by (simp add: normalizeRun_def throws_def split: if_splits)
    qed
    have "run_wf r"
      using assms c by (auto simp: run_wf_def def_steps_def new_step_def step_key_def comp_def)
    moreover have pend: "sr_state x = StPending" if "x \<in> set (wr_steps r)" for x
      using that c(3) by (auto simp: new_step_def)
    ultimately have "wf_ok r" using c(4) by (auto simp: wf_ok_def skips_ok_def done_ok_def)
    then show ?thesis
      using saved(4) fresh pend c(1) unfolding store_new_def eq by (auto simp: map_of_put_file s1_def)
  qed
qed

lemma workflow_create_new:
  assumes "no_undef (JObj args)"
  shows "store_new s (snd (workflow_create env ctx available args p s))"
proof -
  have same: "store_new s (snd (throwA e s))" for e by (simp add: throwA_def store_new_def)
  show ?thesis
  proof (cases "validateWorkflowDefinition (jget args ''definition'') available")
    case (Inl e)
    then show ?thesis by (auto simp: workflow_create_def bind_liftR Let_def store_new_def throwA_def)
  next
    case (Inr d)
    then have v: "valid_definition available (jget args ''definition'')" "d = json_copy (jget args ''definition'')"
      using validate_iff by blast+
    then have "jget args ''definition'' \<noteq> JUndef" by (auto simp: valid_definition_def)
    then have "d = jget args ''definition''" using json_copy_id no_undef_jget [OF assms] v(2) by metis
    with v create_run_new [of available d] same Inr show ?thesis
      by (auto simp: workflow_create_def bind_liftR Let_def)
  qed
qed

section \<open>The invariant of the system\<close>

text \<open>How often step \<open>j\<close> of run \<open>i\<close> was called, and how often its calls answered with a request for approval.\<close>

fun calls_of :: "wf_event list \<Rightarrow> string \<Rightarrow> jval \<Rightarrow> nat" where
  "calls_of [] i j = 0"
| "calls_of (EvCall R k args # L) i j = (if wr_id R = i \<and> k = j then 1 else 0) + calls_of L i j"
| "calls_of (EvResult i' k result # L) i j = calls_of L i j"

fun approvals_of :: "wf_event list \<Rightarrow> string \<Rightarrow> jval \<Rightarrow> nat" where
  "approvals_of [] i j = 0"
| "approvals_of (EvCall R k args # L) i j = approvals_of L i j"
| "approvals_of (EvResult i' k result # L) i j =
     (if i' = i \<and> k = j \<and> truthy (tr_approvalId result) \<noteq> None then 1 else 0) + approvals_of L i j"

text \<open>A step that is running or has ended may have spent one call more than it was asked approvals.\<close>

definition spent :: "WorkflowStepState \<Rightarrow> nat" where
  "spent st = (if st \<in> {StPending, StAwaiting, StSkipped} then 0 else 1)"

definition waits :: "wf_thread option list \<Rightarrow> nat \<Rightarrow> wf_thread \<Rightarrow> bool" where
  "waits T k t \<longleftrightarrow> k < length T \<and> T ! k = Some t"

definition calls_ok :: "(string \<Rightarrow> WorkflowRun option) \<Rightarrow> wf_event list \<Rightarrow> bool" where
  "calls_ok F L \<longleftrightarrow> (\<forall>i r s. F i = Some r \<longrightarrow> s \<in> set (wr_steps r) \<longrightarrow>
     calls_of L i (sr_id s) \<le> approvals_of L i (sr_id s) + spent (sr_state s))"

definition log_ok :: "(string \<Rightarrow> WorkflowRun option) \<Rightarrow> wf_event list \<Rightarrow> bool" where
  "log_ok F L \<longleftrightarrow> (\<forall>R i args. EvCall R i args \<in> set L \<longrightarrow> F (wr_id R) \<noteq> None \<and> run_wf R \<and> call_due R i args)"

definition threads_ok :: "(string \<Rightarrow> WorkflowRun option) \<Rightarrow> wf_thread option list \<Rightarrow> bool" where
  "threads_ok F T \<longleftrightarrow>
     (\<forall>k t. waits T k t \<longrightarrow> (\<exists>r. F (wr_id (th_run t)) = Some r \<and> waits_on r (th_run t) (th_step t))) \<and>
     (\<forall>k l t u. waits T k t \<longrightarrow> waits T l u \<longrightarrow> k \<noteq> l \<longrightarrow> wr_id (th_run t) = wr_id (th_run u) \<longrightarrow> th_step t = th_step u \<longrightarrow>
        attempt_of (th_run t) (th_step t) \<noteq> attempt_of (th_run u) (th_step u))"

definition inv :: "(string \<Rightarrow> WorkflowRun option) \<Rightarrow> wf_thread option list \<Rightarrow> wf_event list \<Rightarrow> bool" where
  "inv F T L \<longleftrightarrow> (\<forall>i r. F i = Some r \<longrightarrow> wr_id r = i \<and> wf_ok r) \<and> threads_ok F T \<and> calls_ok F L \<and> log_ok F L"

lemma invD:
  assumes "inv F T L"
  shows "threads_ok F T" "calls_ok F L" "log_ok F L" "F i = Some r \<Longrightarrow> wr_id r = i" "F i = Some r \<Longrightarrow> wf_ok r"
  using assms unfolding inv_def by blast+

lemma budgetD: "calls_ok F L \<Longrightarrow> F i = Some r \<Longrightarrow> s \<in> set (wr_steps r) \<Longrightarrow>
     calls_of L i (sr_id s) \<le> approvals_of L i (sr_id s) + spent (sr_state s)"
  unfolding calls_ok_def by blast

lemma inv_update: "threads_ok (F(i \<mapsto> r)) T \<Longrightarrow> calls_ok (F(i \<mapsto> r)) L \<Longrightarrow> log_ok (F(i \<mapsto> r)) L \<Longrightarrow> inv F T' L' \<Longrightarrow>
     wr_id r = i \<Longrightarrow> wf_ok r \<Longrightarrow> inv (F(i \<mapsto> r)) T L"
  unfolding inv_def by auto

text \<open>How a move of one run on disk shows to the executors that wait: \<open>quiet\<close> and \<open>launch\<close> leave the attempt they
  wait for running, or overtake it.\<close>

definition overtakes :: "jval \<Rightarrow> WorkflowRun \<Rightarrow> WorkflowRun \<Rightarrow> bool" where
  "overtakes j r r' \<longleftrightarrow> (\<forall>y. find_step j r = Some y \<longrightarrow> (\<exists>y'. find_step j r' = Some y' \<and> sr_attempts y \<le> sr_attempts y' \<and>
     (sr_attempts y' = sr_attempts y \<longrightarrow> sr_state y = StRunning \<longrightarrow> sr_state y' = StRunning)))"

lemma waits_on_move:
  assumes "waits_on r R j" "wr_id r' = wr_id r" "wr_definition r' = wr_definition r" "wr_revision r < wr_revision r'" "overtakes j r r'"
  shows "waits_on r' R j"
proof -
  obtain x y where x: "find_step j R = Some x" "sr_state x = StRunning" and y: "find_step j r = Some y"
    "sr_attempts x \<le> sr_attempts y" "sr_attempts x = sr_attempts y \<longrightarrow> sr_state y = StRunning"
    using assms(1) by (auto simp: waits_on_def)
  then obtain y' where y': "find_step j r' = Some y'" "sr_attempts y \<le> sr_attempts y'"
    "sr_attempts y' = sr_attempts y \<longrightarrow> sr_state y = StRunning \<longrightarrow> sr_state y' = StRunning"
    using assms(5) by (auto simp: overtakes_def)
  have "sr_attempts x \<le> sr_attempts y'" "sr_attempts x = sr_attempts y' \<longrightarrow> sr_state y' = StRunning"
    using y y' by auto
  with assms x y' show ?thesis by (simp add: waits_on_def)
qed

lemma find_step_all2:
  assumes "list_all2 P (wr_steps r) (wr_steps r')" "\<And>s t. P s t \<Longrightarrow> sr_id t = sr_id s" "find_step j r = Some y"
  shows "\<exists>y'. find_step j r' = Some y' \<and> P y y'"
  using find_all2 [OF assms(1), of sr_id j] assms(2,3) by (auto simp: find_step_def rel_option_iff split: option.splits)

lemma quiet_overtakes: "run_quiet r r' \<Longrightarrow> overtakes j r r'"
  unfolding overtakes_def
proof (intro allI impI)
  fix y assume "run_quiet r r'" "find_step j r = Some y"
  then obtain y' where "find_step j r' = Some y'" "quiet y y'"
    using find_step_all2 [of quiet r r' j y] by (auto simp: run_quiet_def quiet_def step_key_def)
  then show "\<exists>y'. find_step j r' = Some y' \<and> sr_attempts y \<le> sr_attempts y' \<and>
     (sr_attempts y' = sr_attempts y \<longrightarrow> sr_state y = StRunning \<longrightarrow> sr_state y' = StRunning)"
    by (auto simp: quiet_def)
qed

lemma launch_overtakes: "launched r i args r' \<Longrightarrow> overtakes j r r'"
  unfolding overtakes_def
proof (intro allI impI)
  fix y assume a: "launched r i args r'" "find_step j r = Some y"
  have "\<And>s t. launch_move i s t \<Longrightarrow> sr_id t = sr_id s"
    by (auto simp: launch_move_def quiet_def step_key_def split: if_splits)
  then obtain y' where "find_step j r' = Some y'" "launch_move i y y'"
    using a find_step_all2 [of "launch_move i" r r' j y] by (auto simp: launched_def)
  then show "\<exists>y'. find_step j r' = Some y' \<and> sr_attempts y \<le> sr_attempts y' \<and>
     (sr_attempts y' = sr_attempts y \<longrightarrow> sr_state y = StRunning \<longrightarrow> sr_state y' = StRunning)"
    by (auto simp: launch_move_def quiet_def split: if_splits)
qed

lemma settle_waits:
  assumes w: "waits_on r R j" and set: "settled r i a ap r'" and other: "j = i \<Longrightarrow> attempt_of R i \<noteq> a"
  shows "waits_on r' R j"
proof -
  obtain x y where x: "find_step j R = Some x" "sr_state x = StRunning" and y: "find_step j r = Some y"
    "sr_attempts x \<le> sr_attempts y" "sr_attempts x = sr_attempts y \<longrightarrow> sr_state y = StRunning"
    using w by (auto simp: waits_on_def)
  have key: "\<And>s t. settle_move i a ap s t \<Longrightarrow> sr_id t = sr_id s" by (auto simp: settle_move_def step_key_def)
  obtain y' where y': "find_step j r' = Some y'" "settle_move i a ap y y'"
    using set find_step_all2 [OF _ key y(1)] by (auto simp: settled_def)
  have "sr_attempts x \<le> sr_attempts y' \<and> (sr_attempts x = sr_attempts y' \<longrightarrow> sr_state y' = StRunning)"
  proof (cases "y' = y")
    case False
    then have "sr_id y = i" "sr_attempts y = a" "sr_attempts y' = a" using y'(2) by (auto simp: settle_move_def)
    moreover from this have "sr_attempts x \<noteq> a" using other find_step_Some [OF y(1)] x(1) by (simp add: attempt_of_def)
    ultimately show ?thesis using y(2) by simp
  qed (use y in simp)
  with w set x y' show ?thesis by (simp add: waits_on_def settled_def)
qed

lemma threads_move:
  assumes "threads_ok F T" "F (wr_id r) = Some r"
    and "\<And>k t. waits T k t \<Longrightarrow> wr_id (th_run t) = wr_id r \<Longrightarrow> waits_on r (th_run t) (th_step t) \<Longrightarrow> waits_on r' (th_run t) (th_step t)"
  shows "threads_ok (F(wr_id r \<mapsto> r')) T"
proof -
  have "\<exists>q. (F(wr_id r \<mapsto> r')) (wr_id (th_run t)) = Some q \<and> waits_on q (th_run t) (th_step t)" if "waits T k t" for k t
  proof (cases "wr_id (th_run t) = wr_id r")
    case True
    obtain q where "F (wr_id (th_run t)) = Some q" "waits_on q (th_run t) (th_step t)"
      using assms(1) \<open>waits T k t\<close> unfolding threads_ok_def by blast
    then have "waits_on r (th_run t) (th_step t)" using True assms(2) by simp
    from assms(3) [OF \<open>waits T k t\<close> True this] True show ?thesis by simp
  next
    case False
    then show ?thesis using assms(1) \<open>waits T k t\<close> unfolding threads_ok_def by auto
  qed
  then show ?thesis using assms(1) unfolding threads_ok_def by blast
qed

lemma inv_quiet:
  assumes "inv F T L" "F (wr_id r) = Some r" "run_quiet r r'" "wr_revision r < wr_revision r'" "wf_ok r'"
  shows "inv (F(wr_id r \<mapsto> r')) T L"
proof -
  have ids: "wr_id r' = wr_id r" "wr_definition r' = wr_definition r" using assms(3) by (simp_all add: run_quiet_def)
  have "threads_ok (F(wr_id r \<mapsto> r')) T"
    by (rule threads_move [where F = F and r = r and r' = r', OF invD(1) [OF assms(1)] assms(2)])
      (rule waits_on_move [OF _ ids assms(4) quiet_overtakes [OF assms(3)]])
  moreover have "calls_ok (F(wr_id r \<mapsto> r')) L"
    unfolding calls_ok_def
  proof (intro allI impI)
    fix i q s'
    assume q: "(F(wr_id r \<mapsto> r')) i = Some q" "s' \<in> set (wr_steps q)"
    show "calls_of L i (sr_id s') \<le> approvals_of L i (sr_id s') + spent (sr_state s')"
    proof (cases "i = wr_id r")
      case True
      then have "s' \<in> set (wr_steps r')" using q by simp
      then obtain s where s: "s \<in> set (wr_steps r)" "quiet s s'"
        using assms(3) unfolding run_quiet_def by (metis list_all2_conv_all_nth in_set_conv_nth)
      have "calls_of L i (sr_id s) \<le> approvals_of L i (sr_id s) + spent (sr_state s)"
        using budgetD [OF invD(2) [OF assms(1)] assms(2) s(1)] True by simp
      moreover have "spent (sr_state s) \<le> spent (sr_state s')" "sr_id s' = sr_id s"
        using s(2) by (auto simp: quiet_def step_key_def spent_def)
      ultimately show ?thesis by simp
    next
      case False
      with q budgetD [OF invD(2) [OF assms(1)], of i q s'] show ?thesis by simp
    qed
  qed
  moreover have "log_ok (F(wr_id r \<mapsto> r')) L" using invD(3) [OF assms(1)] by (auto simp: log_ok_def)
  ultimately show ?thesis by (rule inv_update [OF _ _ _ assms(1) ids(1) assms(5)])
qed

lemma waits_append: "waits (T @ [x]) k t \<longleftrightarrow> waits T k t \<or> k = length T \<and> x = Some t"
  by (auto simp: waits_def nth_append less_Suc_eq)

lemma threadsD: "threads_ok F T \<Longrightarrow> waits T k t \<Longrightarrow> \<exists>r. F (wr_id (th_run t)) = Some r \<and> waits_on r (th_run t) (th_step t)"
  unfolding threads_ok_def by (drule conjunct1) simp

lemma threads_distinct:
  "threads_ok F T \<Longrightarrow> waits T k t \<Longrightarrow> waits T l u \<Longrightarrow> k \<noteq> l \<Longrightarrow> wr_id (th_run t) = wr_id (th_run u) \<Longrightarrow> th_step t = th_step u \<Longrightarrow>
     attempt_of (th_run t) (th_step t) \<noteq> attempt_of (th_run u) (th_step u)"
  unfolding threads_ok_def by (drule conjunct2) simp

lemma threads_append:
  assumes "threads_ok F T" "F (wr_id R) = Some r" "waits_on r R i"
    and "\<And>k u. waits T k u \<Longrightarrow> wr_id (th_run u) = wr_id R \<Longrightarrow> th_step u = i \<Longrightarrow> attempt_of (th_run u) i < attempt_of R i"
  shows "threads_ok F (T @ [Some \<lparr>th_principal = p, th_run = R, th_step = i\<rparr>])"
  unfolding threads_ok_def waits_append
proof (rule conjI; intro allI impI)
  fix k t
  assume "waits T k t \<or> k = length T \<and> Some \<lparr>th_principal = p, th_run = R, th_step = i\<rparr> = Some t"
  then show "\<exists>r. F (wr_id (th_run t)) = Some r \<and> waits_on r (th_run t) (th_step t)"
  proof
    assume "waits T k t"
    then show ?thesis by (rule threadsD [OF assms(1)])
  next
    assume "k = length T \<and> Some \<lparr>th_principal = p, th_run = R, th_step = i\<rparr> = Some t"
    then show ?thesis using assms(2,3) by (intro exI [of _ r]) auto
  qed
next
  fix k l t u
  assume t: "waits T k t \<or> k = length T \<and> Some \<lparr>th_principal = p, th_run = R, th_step = i\<rparr> = Some t"
    and u: "waits T l u \<or> l = length T \<and> Some \<lparr>th_principal = p, th_run = R, th_step = i\<rparr> = Some u"
    and kl: "k \<noteq> l" "wr_id (th_run t) = wr_id (th_run u)" "th_step t = th_step u"
  show "attempt_of (th_run t) (th_step t) \<noteq> attempt_of (th_run u) (th_step u)"
  proof (cases "waits T k t \<and> waits T l u")
    case True
    then show ?thesis using threads_distinct [OF assms(1) _ _ kl] by blast
  next
    case False
    let ?n = "\<lparr>th_principal = p, th_run = R, th_step = i\<rparr>"
    consider (left) "waits T k t" "u = ?n" | (right) "waits T l u" "t = ?n"
      using False t u kl(1) by blast
    then show ?thesis
    proof cases
      case left
      then have "attempt_of (th_run t) i < attempt_of R i" using assms(4) [of k t] kl(2,3) by simp
      with left kl(3) show ?thesis by simp
    next
      case right
      then have "attempt_of (th_run u) i < attempt_of R i" using assms(4) [of l u] kl(2,3) by simp
      with right kl(3) show ?thesis by simp
    qed
  qed
qed

lemma attempt_bound: "waits_on r R j \<Longrightarrow> find_step j r = Some y \<Longrightarrow> attempt_of R j \<le> sr_attempts y"
  by (auto simp: waits_on_def attempt_of_def)

lemma inv_launch:
  assumes "inv F T L" "F (wr_id r) = Some r" "launched r i args r'" "wf_ok r'"
  shows "inv (F(wr_id r \<mapsto> r')) (T @ [Some \<lparr>th_principal = p, th_run = r', th_step = i\<rparr>]) (EvCall r' i args # L)"
proof -
  have ids: "wr_id r' = wr_id r" "wr_definition r' = wr_definition r" "wr_revision r < wr_revision r'"
    and all: "list_all2 (launch_move i) (wr_steps r) (wr_steps r')" and due: "call_due r' i args"
    and cur: "wr_state r' = WfRunning" "wr_currentStepId r' = i"
    using assms(3) by (simp_all add: launched_def)
  have key: "\<And>s t. launch_move i s t \<Longrightarrow> sr_id t = sr_id s"
    by (auto simp: launch_move_def quiet_def step_key_def split: if_splits)
  obtain t where t: "find_step i r' = Some t" using assms(3) by (auto simp: launched_def)
  obtain y where y: "find_step i r = Some y" "launch_move i y t"
  proof -
    have "rel_option (launch_move i) (find_step i r) (find_step i r')"
      unfolding find_step_def by (rule find_all2 [OF all key])
    with t that show ?thesis by (auto simp: rel_option_iff split: option.splits)
  qed
  have ty: "sr_state t = StRunning" "sr_attempts t = sr_attempts y + 1"
    using y find_step_Some [OF y(1)] by (simp_all add: launch_move_def)
  have old: "threads_ok (F(wr_id r \<mapsto> r')) T"
    by (rule threads_move [where F = F and r = r and r' = r', OF invD(1) [OF assms(1)] assms(2)])
      (rule waits_on_move [OF _ ids launch_overtakes [OF assms(3)]])
  have newest: "attempt_of (th_run u) i < attempt_of r' i"
    if "waits T k u" "wr_id (th_run u) = wr_id r'" "th_step u = i" for k u
  proof -
    obtain q where "F (wr_id (th_run u)) = Some q" "waits_on q (th_run u) (th_step u)"
      using threadsD [OF invD(1) [OF assms(1)] \<open>waits T k u\<close>] by blast
    then have "waits_on r (th_run u) i" using that ids assms(2) by simp
    from attempt_bound [OF this y(1)] show ?thesis using t ty by (simp add: attempt_of_def)
  qed
  have self: "waits_on r' r' i"
    using assms(4) t ty cur by (simp add: waits_on_def)
  have "threads_ok (F(wr_id r \<mapsto> r')) (T @ [Some \<lparr>th_principal = p, th_run = r', th_step = i\<rparr>])"
    by (rule threads_append [OF old _ self]) (use newest ids in simp_all)
  moreover have "calls_ok (F(wr_id r \<mapsto> r')) (EvCall r' i args # L)"
    unfolding calls_ok_def
  proof (intro allI impI)
    fix k q s'
    assume q: "(F(wr_id r \<mapsto> r')) k = Some q" "s' \<in> set (wr_steps q)"
    show "calls_of (EvCall r' i args # L) k (sr_id s') \<le> approvals_of (EvCall r' i args # L) k (sr_id s') + spent (sr_state s')"
    proof (cases "k = wr_id r")
      case True
      then have "s' \<in> set (wr_steps r')" using q by simp
      then obtain s where s: "s \<in> set (wr_steps r)" "launch_move i s s'"
        using all by (metis list_all2_conv_all_nth in_set_conv_nth)
      have "calls_of L k (sr_id s) \<le> approvals_of L k (sr_id s) + spent (sr_state s)"
        using budgetD [OF invD(2) [OF assms(1)] assms(2) s(1)] True by simp
      then show ?thesis using s(2) True ids
        by (auto simp: launch_move_def quiet_def step_key_def spent_def split: if_splits)
    next
      case False
      with q budgetD [OF invD(2) [OF assms(1)], of k q s'] ids show ?thesis by simp
    qed
  qed
  moreover have "log_ok (F(wr_id r \<mapsto> r')) (EvCall r' i args # L)"
    using invD(3) [OF assms(1)] assms(4) due ids by (auto simp: log_ok_def wf_ok_def)
  ultimately show ?thesis by (rule inv_update [OF _ _ _ assms(1) ids(1) assms(4)])
qed

text \<open>An executor whose result has arrived waits no longer.\<close>

lemma waits_drop: "waits (T[k := None]) l u \<longleftrightarrow> waits T l u \<and> l \<noteq> k"
  by (cases "l = k") (auto simp: waits_def)

lemma threads_drop: "threads_ok F T \<Longrightarrow> threads_ok F (T[k := None])"
  unfolding threads_ok_def waits_drop by blast

lemma budget_mono:
  assumes "calls_ok F L" "\<And>i j. calls_of L' i j = calls_of L i j" "\<And>i j. approvals_of L i j \<le> approvals_of L' i j"
  shows "calls_ok F L'"
  unfolding calls_ok_def
proof (intro allI impI)
  fix i r s assume "F i = Some r" "s \<in> set (wr_steps r)"
  from budgetD [OF assms(1) this] assms(3) [of i "sr_id s"] assms(2) [of i "sr_id s"]
  show "calls_of L' i (sr_id s) \<le> approvals_of L' i (sr_id s) + spent (sr_state s)" by simp
qed

lemma inv_result:
  assumes "inv F T L"
  shows "inv F (T[k := None]) (EvResult i j result # L)"
proof -
  have "calls_ok F (EvResult i j result # L)" by (rule budget_mono [OF invD(2) [OF assms]]) simp_all
  moreover have "log_ok F (EvResult i j result # L)" using invD(3) [OF assms] by (simp add: log_ok_def)
  ultimately show ?thesis using assms threads_drop [OF invD(1) [OF assms]] unfolding inv_def by blast
qed

lemma inv_settle:
  assumes "inv F T L" "waits T k t" "F (wr_id r) = Some r" "wr_id (th_run t) = wr_id r" "wf_ok r'"
    and set: "settled r (th_step t) (attempt_of (th_run t) (th_step t)) (truthy (tr_approvalId result) \<noteq> None) r'"
  shows "inv (F(wr_id r \<mapsto> r')) (T[k := None]) (EvResult (wr_id r) (th_step t) result # L)"
proof -
  let ?i = "th_step t" and ?a = "attempt_of (th_run t) (th_step t)" and ?ap = "truthy (tr_approvalId result) \<noteq> None"
  have ids: "wr_id r' = wr_id r" "wr_definition r' = wr_definition r" "wr_revision r < wr_revision r'"
    and all: "list_all2 (settle_move ?i ?a ?ap) (wr_steps r) (wr_steps r')"
    using set by (simp_all add: settled_def)
  have waits: "waits_on r (th_run u) (th_step u)" if "waits T l u" "wr_id (th_run u) = wr_id r" for l u
    using threadsD [OF invD(1) [OF assms(1)] that(1)] that(2) assms(3) by simp
  have "threads_ok (F(wr_id r \<mapsto> r')) (T[k := None])"
  proof (rule threads_move [where F = F and r = r and r' = r', OF threads_drop [OF invD(1) [OF assms(1)]] assms(3)])
    fix l u
    assume u: "waits (T[k := None]) l u" "wr_id (th_run u) = wr_id r" "waits_on r (th_run u) (th_step u)"
    have lu: "waits T l u" "l \<noteq> k" using u(1) by (simp_all add: waits_drop)
    show "waits_on r' (th_run u) (th_step u)"
      by (rule settle_waits [OF u(3) set])
        (use threads_distinct [OF invD(1) [OF assms(1)] lu(1) assms(2) lu(2)] u(2) assms(4) in simp)
  qed
  moreover have "calls_ok (F(wr_id r \<mapsto> r')) (EvResult (wr_id r) ?i result # L)"
    unfolding calls_ok_def
  proof (intro allI impI)
    fix n q s'
    assume q: "(F(wr_id r \<mapsto> r')) n = Some q" "s' \<in> set (wr_steps q)"
    show "calls_of (EvResult (wr_id r) ?i result # L) n (sr_id s') \<le>
        approvals_of (EvResult (wr_id r) ?i result # L) n (sr_id s') + spent (sr_state s')"
    proof (cases "n = wr_id r")
      case True
      then have "s' \<in> set (wr_steps r')" using q by simp
      then obtain s where s: "s \<in> set (wr_steps r)" "settle_move ?i ?a ?ap s s'"
        using all by (metis list_all2_conv_all_nth in_set_conv_nth)
      have b: "calls_of L n (sr_id s) \<le> approvals_of L n (sr_id s) + spent (sr_state s)"
        using budgetD [OF invD(2) [OF assms(1)] assms(3) s(1)] True by simp
      consider (same) "s' = s"
        | (waits) "sr_id s' = sr_id s" "sr_id s = ?i" "sr_state s = StRunning" ?ap "sr_state s' = StAwaiting"
        | (ends) "sr_id s' = sr_id s" "sr_state s = StRunning" "sr_state s' = StSucceeded \<or> sr_state s' = StFailed"
        using s(2) unfolding settle_move_def step_key_def by (cases ?ap) auto
      then show ?thesis
      proof cases
        case same
        then show ?thesis using b by simp
      next
        case waits
        then obtain a where "truthy (tr_approvalId result) = Some a" by blast
        with waits show ?thesis
          using b True by (simp add: spent_def)
      next
        case ends
        then have "spent (sr_state s') = spent (sr_state s)" by (auto simp: spent_def)
        with ends b show ?thesis by simp
      qed
    next
      case False
      with q budgetD [OF invD(2) [OF assms(1)], of n q s'] show ?thesis by simp
    qed
  qed
  moreover have "log_ok (F(wr_id r \<mapsto> r')) (EvResult (wr_id r) ?i result # L)"
    using invD(3) [OF assms(1)] by (auto simp: log_ok_def)
  ultimately show ?thesis by (rule inv_update [OF _ _ _ assms(1) ids(1) assms(5)])
qed

lemma inv_new:
  assumes "inv F T L" "F (wr_id r) = None" "wf_ok r" "\<forall>x \<in> set (wr_steps r). sr_state x = StPending"
  shows "inv (F(wr_id r \<mapsto> r)) T L"
proof -
  have none: "calls_of L (wr_id r) j = 0" for j
  proof -
    have "calls_of L' (wr_id r) j = 0" if "\<forall>R i args. EvCall R i args \<in> set L' \<longrightarrow> wr_id R \<noteq> wr_id r" for L'
      using that by (induction L' "wr_id r" j rule: calls_of.induct) auto
    moreover have "wr_id R \<noteq> wr_id r" if "EvCall R i args \<in> set L" for R i args
      using that invD(3) [OF assms(1)] assms(2) unfolding log_ok_def by metis
    ultimately show ?thesis by blast
  qed
  have "threads_ok (F(wr_id r \<mapsto> r)) T"
  proof -
    have "\<exists>q. (F(wr_id r \<mapsto> r)) (wr_id (th_run t)) = Some q \<and> waits_on q (th_run t) (th_step t)" if "waits T k t" for k t
      using threadsD [OF invD(1) [OF assms(1)] that] assms(2) by auto
    then show ?thesis using invD(1) [OF assms(1)] unfolding threads_ok_def by blast
  qed
  moreover have "calls_ok (F(wr_id r \<mapsto> r)) L"
    unfolding calls_ok_def
  proof (intro allI impI)
    fix i q s
    assume "(F(wr_id r \<mapsto> r)) i = Some q" "s \<in> set (wr_steps q)"
    then show "calls_of L i (sr_id s) \<le> approvals_of L i (sr_id s) + spent (sr_state s)"
      using none budgetD [OF invD(2) [OF assms(1)], of i q s] by (cases "i = wr_id r") simp_all
  qed
  moreover have "log_ok (F(wr_id r \<mapsto> r)) L" using invD(3) [OF assms(1)] by (auto simp: log_ok_def)
  ultimately show ?thesis by (rule inv_update [OF _ _ _ assms(1) refl assms(3)])
qed

section \<open>The moves of the system\<close>

text \<open>What every input comes down to, on the runs by id, the executors that wait, and the log.\<close>

type_synonym wf_abs = "(string \<Rightarrow> WorkflowRun option) \<times> wf_thread option list \<times> wf_event list"

inductive wf_move :: "wf_abs \<Rightarrow> wf_abs \<Rightarrow> bool" where
  mv_quiet: "F (wr_id r) = Some r \<Longrightarrow> run_quiet r r' \<Longrightarrow> wr_revision r < wr_revision r' \<Longrightarrow> wf_ok r' \<Longrightarrow>
     wf_move (F, T, L) (F(wr_id r \<mapsto> r'), T, L)"
| mv_new: "F (wr_id r) = None \<Longrightarrow> wf_ok r \<Longrightarrow> \<forall>x \<in> set (wr_steps r). sr_state x = StPending \<Longrightarrow>
     wf_move (F, T, L) (F(wr_id r \<mapsto> r), T, L)"
| mv_launch: "F (wr_id r) = Some r \<Longrightarrow> launched r i args r' \<Longrightarrow> wf_ok r' \<Longrightarrow>
     wf_move (F, T, L) (F(wr_id r \<mapsto> r'), T @ [Some \<lparr>th_principal = p, th_run = r', th_step = i\<rparr>], EvCall r' i args # L)"
| mv_settle: "waits T k t \<Longrightarrow> F (wr_id r) = Some r \<Longrightarrow> wr_id (th_run t) = wr_id r \<Longrightarrow> wf_ok r' \<Longrightarrow>
     settled r (th_step t) (attempt_of (th_run t) (th_step t)) (truthy (tr_approvalId result) \<noteq> None) r' \<Longrightarrow>
     wf_move (F, T, L) (F(wr_id r \<mapsto> r'), T[k := None], EvResult (wr_id r) (th_step t) result # L)"
| mv_drop: "wf_move (F, T, L) (F, T[k := None], EvResult i j result # L)"

lemma wf_move_inv:
  assumes "wf_move a b" "inv (fst a) (fst (snd a)) (snd (snd a))"
  shows "inv (fst b) (fst (snd b)) (snd (snd b))"
  using assms
proof (induction rule: wf_move.induct)
  case (mv_quiet F r r' T L)
  then show ?case unfolding fst_conv snd_conv by (intro inv_quiet)
next
  case (mv_new F r T L)
  then show ?case unfolding fst_conv snd_conv by (intro inv_new)
next
  case (mv_launch F r i args r' T L p)
  then show ?case unfolding fst_conv snd_conv by (intro inv_launch)
next
  case (mv_settle T k t F r r' result L)
  then show ?case unfolding fst_conv snd_conv by (intro inv_settle)
next
  case (mv_drop F T L k i j result)
  then show ?case unfolding fst_conv snd_conv by (intro inv_result)
qed

definition files_of :: "wf_system \<Rightarrow> string \<Rightarrow> WorkflowRun option" where
  "files_of sys = map_of (wv_files (sy_store sys))"

definition abs_of :: "wf_system \<Rightarrow> wf_abs" where
  "abs_of sys = (files_of sys, sy_threads sys, sy_log sys)"

definition sys_inv :: "wf_system \<Rightarrow> bool" where
  "sys_inv sys \<longleftrightarrow> inv (files_of sys) (sy_threads sys) (sy_log sys)"

lemma moves_inv:
  assumes "wf_move\<^sup>*\<^sup>* (abs_of sys) (abs_of sys')" "sys_inv sys"
  shows "sys_inv sys'"
proof -
  have "inv (fst b) (fst (snd b)) (snd (snd b))" if "wf_move\<^sup>*\<^sup>* a b" "inv (fst a) (fst (snd a)) (snd (snd a))" for a b
    using that by (induction rule: rtranclp_induct) (simp_all add: wf_move_inv)
  from this [OF assms(1)] assms(2) show ?thesis by (simp add: sys_inv_def abs_of_def)
qed

lemma sys_inv_files: "sys_inv sys \<Longrightarrow> runs_ok (sy_store sys)"
  unfolding sys_inv_def runs_ok_def files_of_def using invD(4,5) by blast

lemma store_moves:
  assumes "store_move (sy_store sys) s' \<or> store_new (sy_store sys) s'"
  shows "wf_move\<^sup>*\<^sup>* (abs_of sys) (abs_of (sys\<lparr>sy_store := s'\<rparr>))"
proof -
  let ?F = "map_of (wv_files (sy_store sys))"
  consider (same) "map_of (wv_files s') = ?F"
    | (quiet) r r' where "?F (wr_id r) = Some r" "map_of (wv_files s') = ?F(wr_id r \<mapsto> r')" "run_quiet r r'"
        "wr_revision r < wr_revision r'" "wf_ok r'"
    | (fresh) r where "?F (wr_id r) = None" "map_of (wv_files s') = ?F(wr_id r \<mapsto> r)" "wf_ok r"
        "\<forall>x \<in> set (wr_steps r). sr_state x = StPending"
    using assms unfolding store_move_def store_new_def by blast
  then show ?thesis
  proof cases
    case same
    then show ?thesis by (simp add: abs_of_def files_of_def)
  next
    case quiet
    from mv_quiet [where F = ?F, OF quiet(1,3-5)] quiet(2) show ?thesis by (simp add: abs_of_def files_of_def r_into_rtranclp)
  next
    case fresh
    from mv_new [where F = ?F, OF fresh(1,3,4)] fresh(2) show ?thesis by (simp add: abs_of_def files_of_def r_into_rtranclp)
  qed
qed

text \<open>The end of a segment, seen from the system.\<close>

definition apply_outcome :: "tool_principal \<Rightarrow> outcome result \<times> wf_store \<Rightarrow> wf_system \<Rightarrow> wf_system" where
  "apply_outcome p x sys =
     (case x of
        (Inr (Calling run i args), s) \<Rightarrow>
          sys\<lparr>sy_store := s, sy_threads := sy_threads sys @ [Some \<lparr>th_principal = p, th_run = run, th_step = i\<rparr>],
              sy_log := EvCall run i args # sy_log sys\<rparr>
      | (_, s) \<Rightarrow> sys\<lparr>sy_store := s\<rparr>)"

lemma run_segment_apply: "run_segment p m sys = apply_outcome p (m (sy_store sys)) sys"
  by (simp add: run_segment_def apply_outcome_def)

lemma seg_moves:
  assumes "map_of (wv_files s) (wr_id r) = Some r" "seg_post r s x"
  shows "wf_move\<^sup>*\<^sup>* (map_of (wv_files s), sy_threads sys, sy_log sys) (abs_of (apply_outcome p x sys))"
proof -
  obtain res s' where x: "x = (res, s')" by (cases x)
  obtain r' where r': "map_of (wv_files s') = (map_of (wv_files s))(wr_id r \<mapsto> r')" "wf_ok r'" "r' = r \<or> wr_revision r < wr_revision r'"
    "case res of Inr (Calling R i args) \<Rightarrow> R = r' \<and> launched r i args r' | _ \<Rightarrow> run_quiet r r'"
    using assms(2) x by (auto simp: seg_post_def)
  show ?thesis
  proof (cases "\<exists>R i args. res = Inr (Calling R i args)")
    case True
    then obtain R i args where res: "res = Inr (Calling R i args)" by blast
    with r'(4) have l: "R = r'" "launched r i args r'" by simp_all
    from mv_launch [where F = "map_of (wv_files s)", OF assms(1) l(2) r'(2)] show ?thesis
      by (simp add: apply_outcome_def x res abs_of_def files_of_def r'(1) l(1) r_into_rtranclp)
  next
    case False
    then have q: "run_quiet r r'" and ap: "apply_outcome p x sys = sys\<lparr>sy_store := s'\<rparr>"
      using r'(4) x by (auto simp: apply_outcome_def split: sum.splits outcome.splits)
    show ?thesis
    proof (cases "r' = r")
      case True
      then show ?thesis using assms(1) r'(1) by (simp add: ap abs_of_def files_of_def fun_upd_idem)
    next
      case False
      with r'(3) mv_quiet [where F = "map_of (wv_files s)", OF assms(1) q _ r'(2)] show ?thesis
        by (simp add: ap abs_of_def files_of_def r'(1) r_into_rtranclp)
    qed
  qed
qed

lemma tool_segment_moves:
  assumes "runs_ok (sy_store sys)"
    and "\<And>run. map_of (wv_files (sy_store sys)) (wr_id run) = Some run \<Longrightarrow> wf_ok run \<Longrightarrow>
      seg_post run (sy_store sys) (f run (sy_store sys))"
  shows "wf_move\<^sup>*\<^sup>* (abs_of sys) (abs_of (run_segment p (bindA (get_run env i who) f) sys))"
proof -
  let ?s = "sy_store sys"
  obtain res s' where x: "bindA (get_run env i who) f ?s = (res, s')" by (cases "bindA (get_run env i who) f ?s")
  then show ?thesis
  proof (cases rule: bind_get_cases)
    case (thrown e)
    then show ?thesis by (simp add: run_segment_apply x apply_outcome_def abs_of_def files_of_def)
  next
    case (found run)
    have run: "map_of (wv_files ?s) (wr_id run) = Some run" using get_run_InrD [OF found(1)] by simp
    then have "wf_ok run" using assms(1) by (auto simp: runs_ok_def)
    from seg_moves [OF run assms(2) [OF run this]] x found(2) show ?thesis
      by (simp add: run_segment_apply abs_of_def files_of_def)
  qed
qed

lemma returned_post:
  assumes "map_of (wv_files s) (wr_id run) = Some run" "wf_ok run"
  shows "seg_post run s (retA (Returned b e run) s)"
  unfolding retA_def by (rule seg_post_stay [OF assms]) simp_all

lemma finish_moves:
  assumes "sys_inv sys" "waits (sy_threads sys) k t"
  shows "wf_move\<^sup>*\<^sup>* (abs_of sys) (abs_of (run_segment (th_principal t)
     (finish_call env ctx (th_principal t) aborted (th_run t) (th_step t) result)
     (sys\<lparr>sy_threads := (sy_threads sys)[k := None], sy_log := EvResult (wr_id (th_run t)) (th_step t) result # sy_log sys\<rparr>)))"
    (is "wf_move\<^sup>*\<^sup>* _ (abs_of (run_segment ?p ?m ?sys))")
proof -
  let ?F = "map_of (wv_files (sy_store sys))" and ?x = "?m (sy_store sys)"
  have inv: "inv ?F (sy_threads sys) (sy_log sys)" using assms(1) by (simp add: sys_inv_def files_of_def)
  obtain r where r: "?F (wr_id (th_run t)) = Some r" "waits_on r (th_run t) (th_step t)"
    using threadsD [OF invD(1) [OF inv] assms(2)] by blast
  then have rid: "wr_id (th_run t) = wr_id r" by (simp add: waits_on_def)
  have rr: "?F (wr_id r) = Some r" and ok: "wf_ok r" using r(1) rid invD(5) [OF inv r(1)] by simp_all
  have eq: "run_segment ?p ?m ?sys = apply_outcome ?p ?x ?sys" by (simp add: run_segment_apply)
  from finish_call_post [OF r(2) ok rr, of result env ctx ?p aborted] consider
    (kept) "map_of (wv_files (snd ?x)) = ?F" "\<forall>R j args. fst ?x \<noteq> Inr (Calling R j args)"
  | (settled) r1 s1 where "map_of (wv_files s1) = ?F(wr_id r \<mapsto> r1)"
      "settled r (th_step t) (attempt_of (th_run t) (th_step t)) (truthy (tr_approvalId result) \<noteq> None) r1" "wf_ok r1" "seg_post r1 s1 ?x"
    unfolding finish_post_def by blast
  then show ?thesis
  proof cases
    case kept
    have "apply_outcome ?p ?x ?sys = ?sys\<lparr>sy_store := snd ?x\<rparr>"
      using kept(2) by (cases ?x) (auto simp: apply_outcome_def split: sum.splits outcome.splits)
    then show ?thesis using mv_drop [of ?F "sy_threads sys" "sy_log sys" k] kept(1)
      by (simp add: eq abs_of_def files_of_def r_into_rtranclp)
  next
    case settled
    have "wr_id r1 = wr_id r" using settled(2) by (simp add: settled_def)
    then have "map_of (wv_files s1) (wr_id r1) = Some r1" using settled(1) by simp
    from seg_moves [OF this settled(4), of ?sys ?p] have
      "wf_move\<^sup>*\<^sup>* (map_of (wv_files s1), sy_threads ?sys, sy_log ?sys) (abs_of (run_segment ?p ?m ?sys))" unfolding eq .
    moreover have "wf_move (abs_of sys) (map_of (wv_files s1), sy_threads ?sys, sy_log ?sys)"
      using mv_settle [where F = ?F and L = "sy_log sys", OF assms(2) rr rid settled(3,2)] settled(1) rid by (simp add: abs_of_def files_of_def)
    ultimately show ?thesis by (rule converse_rtranclp_into_rtranclp [rotated])
  qed
qed

text \<open>Inputs come as JSON, which has no \<^verbatim>\<open>undefined\<close>.\<close>

fun json_input :: "wf_input \<Rightarrow> bool" where
  "json_input (InCreate available args p) = no_undef (JObj args)"
| "json_input x = True"

lemma wf_exec_moves:
  assumes "sys_inv sys" "json_input x"
  shows "wf_move\<^sup>*\<^sup>* (abs_of sys) (abs_of (wf_exec env ctx x sys))"
proof (cases x)
  case (InCreate available args p)
  with assms store_moves workflow_create_new show ?thesis by (simp add: on_store_def)
next
  case (InRun approvals aborted args p)
  show ?thesis unfolding InRun wf_exec.simps workflow_run_def
    by (rule tool_segment_moves [OF sys_inv_files [OF assms(1)]]) (simp add: returned_post begin_execution_post)
next
  case (InResume approvals aborted args p)
  show ?thesis unfolding InResume wf_exec.simps workflow_resume_def
    by (rule tool_segment_moves [OF sys_inv_files [OF assms(1)]]) (simp add: returned_post begin_execution_post)
next
  case (InResult k result aborted)
  show ?thesis
  proof (cases "k < length (sy_threads sys)")
    case True
    show ?thesis
    proof (cases "sy_threads sys ! k")
      case (Some t)
      with True have "waits (sy_threads sys) k t" by (simp add: waits_def)
      from finish_moves [OF assms(1) this] show ?thesis using True Some InResult by simp
    qed (use True InResult in simp)
  qed (use InResult in simp)
qed (use store_moves sys_inv_files [OF assms(1)] cancel_move pause_move handoff_move claim_move proof_pack_moves in
  \<open>simp_all add: on_store_def\<close>)

lemma wf_exec_inv: "sys_inv sys \<Longrightarrow> json_input x \<Longrightarrow> sys_inv (wf_exec env ctx x sys)"
  by (rule moves_inv [OF wf_exec_moves])

lemma sys_inv_new: "sys_inv new_system"
  by (simp add: sys_inv_def files_of_def new_system_def inv_def threads_ok_def calls_ok_def log_ok_def waits_def)

lemma wf_runs_snoc: "wf_runs env ctx (xs @ [x]) = wf_exec env ctx x (wf_runs env ctx xs)"
  by (simp add: wf_runs_def)

lemma wf_runs_inv: "list_all json_input xs \<Longrightarrow> sys_inv (wf_runs env ctx xs)"
proof (induction xs rule: rev_induct)
  case Nil
  then show ?case by (simp add: wf_runs_def sys_inv_new)
qed (simp add: wf_runs_snoc wf_exec_inv)

text \<open>What a step that has succeeded keeps.\<close>

definition success_kept :: "string \<Rightarrow> jval \<Rightarrow> wf_abs \<Rightarrow> wf_abs \<Rightarrow> bool" where
  "success_kept i j a b \<longleftrightarrow> (\<forall>r x. fst a i = Some r \<longrightarrow> find_step j r = Some x \<longrightarrow> sr_state x = StSucceeded \<longrightarrow>
     (\<exists>r' x'. fst b i = Some r' \<and> find_step j r' = Some x' \<and> sr_state x' = StSucceeded \<and>
        calls_of (snd (snd b)) i j = calls_of (snd (snd a)) i j))"

lemma success_kept_trans: "success_kept i j a b \<Longrightarrow> success_kept i j b c \<Longrightarrow> success_kept i j a c"
  unfolding success_kept_def by metis

lemma success_in_run:
  assumes "list_all2 P (wr_steps r) (wr_steps r')" "\<And>s t. P s t \<Longrightarrow> sr_id t = sr_id s"
    "\<And>s t. P s t \<Longrightarrow> sr_state s = StSucceeded \<Longrightarrow> sr_state t = StSucceeded" "F (wr_id r) = Some r"
    and "\<And>x. find_step j r = Some x \<Longrightarrow> sr_state x = StSucceeded \<Longrightarrow> calls_of L' (wr_id r) j = calls_of L (wr_id r) j"
    "\<And>i'. i' \<noteq> wr_id r \<Longrightarrow> calls_of L' i' j = calls_of L i' j"
  shows "success_kept i j (F, T, L) (F(wr_id r \<mapsto> r'), T', L')"
  unfolding success_kept_def
proof (intro allI impI)
  fix q x
  assume q: "fst (F, T, L) i = Some q" "find_step j q = Some x" "sr_state x = StSucceeded"
  show "\<exists>r'' x'. fst (F(wr_id r \<mapsto> r'), T', L') i = Some r'' \<and> find_step j r'' = Some x' \<and> sr_state x' = StSucceeded \<and>
        calls_of (snd (snd (F(wr_id r \<mapsto> r'), T', L'))) i j = calls_of (snd (snd (F, T, L))) i j"
  proof (cases "i = wr_id r")
    case True
    then have "q = r" using q(1) assms(4) by simp
    with q(2) obtain y where "find_step j r' = Some y" "P x y" using find_step_all2 [OF assms(1,2)] by blast
    then show ?thesis using True q \<open>q = r\<close> assms(3,5) by auto
  next
    case False
    then show ?thesis using q assms(6) by auto
  qed
qed

lemma wf_move_keeps_success: "wf_move a b \<Longrightarrow> success_kept i j a b"
proof (induction rule: wf_move.induct)
  case (mv_quiet F r r' T L)
  show ?case
    by (rule success_in_run [where P = quiet and F = F and r = r, OF _ _ _ mv_quiet(1)])
      (use mv_quiet(2) in \<open>auto simp: run_quiet_def quiet_def step_key_def\<close>)
next
  case (mv_new F r T L)
  then show ?case by (auto simp: success_kept_def)
next
  case (mv_launch F r k args r' T L p)
  have l: "list_all2 (launch_move k) (wr_steps r) (wr_steps r')" "wr_id r' = wr_id r" using mv_launch(2) by (simp_all add: launched_def)
  have key: "launch_move k s t \<Longrightarrow> sr_id t = sr_id s" for s t
    by (auto simp: launch_move_def quiet_def step_key_def split: if_splits)
  show ?case
  proof (rule success_in_run [where P = "launch_move k" and F = F and r = r, OF l(1) _ _ mv_launch(1)])
    show "calls_of (EvCall r' k args # L) (wr_id r) j = calls_of L (wr_id r) j"
      if x: "find_step j r = Some x" "sr_state x = StSucceeded" for x
    proof -
      obtain y where "launch_move k x y" using find_step_all2 [OF l(1) key x(1)] by blast
      then have "k \<noteq> j" using x(2) find_step_Some [OF x(1)] by (auto simp: launch_move_def split: if_splits)
      then show ?thesis by simp
    qed
    show "sr_id t = sr_id s" if "launch_move k s t" for s t by (rule key [OF that])
    show "sr_state t = StSucceeded" if "launch_move k s t" "sr_state s = StSucceeded" for s t
      using that by (auto simp: launch_move_def quiet_def split: if_splits)
    show "calls_of (EvCall r' k args # L) i' j = calls_of L i' j" if "i' \<noteq> wr_id r" for i'
      using that l(2) by simp
  qed
next
  case (mv_settle T k t F r r' result L)
  show ?case
    by (rule success_in_run [where P = "settle_move (th_step t) (attempt_of (th_run t) (th_step t)) (truthy (tr_approvalId result) \<noteq> None)"
        and F = F and r = r, OF _ _ _ mv_settle(2)])
      (use mv_settle(5) in \<open>auto simp: settled_def settle_move_def step_key_def\<close>)
next
  case (mv_drop F T L k i' j' result)
  then show ?case by (simp add: success_kept_def)
qed

lemma wf_runs_keep_success:
  assumes "list_all json_input (xs @ ys)"
  shows "success_kept i j (abs_of (wf_runs env ctx xs)) (abs_of (wf_runs env ctx (xs @ ys)))"
  using assms
proof (induction ys rule: rev_induct)
  case Nil
  then show ?case by (simp add: success_kept_def)
next
  case (snoc y ys)
  have step: "success_kept i j a b" if "wf_move\<^sup>*\<^sup>* a b" for a b
    using that by (induction rule: rtranclp_induct) (auto simp: success_kept_def [of i j a a] intro: success_kept_trans wf_move_keeps_success)
  have "sys_inv (wf_runs env ctx (xs @ ys))" using snoc.prems by (intro wf_runs_inv) simp
  from step [OF wf_exec_moves [OF this, of y env ctx]] snoc show ?case
    by (simp add: wf_runs_snoc [of env ctx "xs @ ys", simplified]) (blast intro: success_kept_trans)
qed

section \<open>Properties\<close>

lemma stored_run_ok:
  assumes "list_all json_input xs" "files_of (wf_runs env ctx xs) i = Some r"
  shows "wr_id r = i" "wf_ok r"
  using wf_runs_inv [OF assms(1), of env ctx] assms(2) invD(4,5) unfolding sys_inv_def by blast+

lemma stored_definition_steps:
  "run_wf r \<Longrightarrow> \<exists>available. valid_definition available (wr_definition r) \<and> jprop (wr_definition r) ''steps'' = JArr (def_steps r)"
  by (auto simp: run_wf_def valid_definition_def def_steps_def jitems_def)

lemma valid_steps:
  assumes "run_wf r" "d \<in> set (def_steps r)"
  obtains available where "valid_definition available (wr_definition r)" "step_ok (wr_definition r) available d"
proof -
  obtain available where v: "valid_definition available (wr_definition r)" "jprop (wr_definition r) ''steps'' = JArr (def_steps r)"
    using stored_definition_steps [OF assms(1)] by blast
  then have "\<forall>x \<in> set (def_steps r). step_ok (wr_definition r) available x" by (auto simp: valid_definition_def)
  with v assms(2) that show ?thesis by blast
qed

lemma wfx_json: "list_all json_input wfx_inputs" and wfx_json_take: "list_all json_input (take n wfx_inputs)"
proof -
  show all: "list_all json_input wfx_inputs" by (simp add: wfx_inputs_def wfx_copy)
  show "list_all json_input (take n wfx_inputs)"
    using all by (metis append_take_drop_id list_all_append)
qed

lemma wfx_stored:
  "files_of (wf_runs wfx_env wfx_ctx (take 1 wfx_inputs)) wfx_id = Some (wfx_R 0)"
  "files_of (wf_runs wfx_env wfx_ctx (take 3 wfx_inputs)) wfx_id = Some (wfx_R 2)"
  "files_of (wf_runs wfx_env wfx_ctx wfx_inputs) wfx_id = Some (wfx_R 3)"
  by (simp_all only: wfx_runs files_of_def wfx_files)

text \<open>Claim C24. Stored runs are well typed. After any interleaving of workflow operations, the run stored under an id has this id, its
  definition satisfies the specification of valid definitions, its steps are those of the definition, in order, with their
  ids, roles and tools, and role and tool are strings.\<close>

theorem stored_runs_are_well_typed:
  assumes "list_all json_input xs" "files_of (wf_runs env ctx xs) i = Some r"
  shows "wr_id r = i \<and> (\<exists>available. valid_definition available (wr_definition r)) \<and>
    map (\<lambda>s. (sr_id s, sr_role s, sr_tool s)) (wr_steps r) =
      map (\<lambda>d. (step_id d, jprop d ''role'', jprop d ''tool'')) (jitems (jprop (wr_definition r) ''steps'')) \<and>
    (\<forall>s \<in> set (wr_steps r). \<exists>role tool. sr_role s = JStr role \<and> sr_tool s = JStr tool)"
proof -
  have wf: "run_wf r" using stored_run_ok [OF assms] by (simp add: wf_ok_def)
  then have keys: "map step_key (wr_steps r) = map (\<lambda>d. (step_id d, jprop d ''role'', jprop d ''tool'')) (def_steps r)"
    by (simp add: run_wf_def)
  have "\<exists>role tool. sr_role s = JStr role \<and> sr_tool s = JStr tool" if "s \<in> set (wr_steps r)" for s
  proof -
    have "step_key s \<in> set (map step_key (wr_steps r))" using that by simp
    then obtain d where d: "d \<in> set (def_steps r)" "step_key s = (step_id d, jprop d ''role'', jprop d ''tool'')"
      unfolding keys by auto
    obtain available where "step_ok (wr_definition r) available d" using valid_steps [OF wf d(1)] .
    then show ?thesis using d(2) by (auto simp: step_ok_def step_key_def)
  qed
  then show ?thesis using stored_run_ok [OF assms] wf keys unfolding step_key_def [abs_def]
    by (auto simp: run_wf_def def_steps_def)
qed

theorem stored_runs_are_well_typed_witness:
  "(\<exists>available. valid_definition available (wr_definition (wfx_R 3))) \<and>
   map (\<lambda>s. (sr_id s, sr_role s, sr_tool s)) (wr_steps (wfx_R 3)) =
     map (\<lambda>d. (step_id d, jprop d ''role'', jprop d ''tool'')) (jitems (jprop (wr_definition (wfx_R 3)) ''steps''))"
  using stored_runs_are_well_typed [of wfx_inputs wfx_env wfx_ctx wfx_id "wfx_R 3", OF wfx_json wfx_stored(3)] by blast



text \<open>Claim C5. Steps are not replayed. The tool of a step is called at most once more than its calls asked for an approval, and not
  even that while the step is pending, waiting for an approval or skipped: whatever is cancelled, paused, resumed, handed over,
  or interleaved, and whichever writes fail, an executor never repeats a call that was not answered by a request for approval.\<close>

theorem steps_are_not_replayed:
  assumes "list_all json_input xs" "files_of (wf_runs env ctx xs) i = Some r" "s \<in> set (wr_steps r)"
  shows "calls_of (sy_log (wf_runs env ctx xs)) i (sr_id s) \<le> approvals_of (sy_log (wf_runs env ctx xs)) i (sr_id s) +
    (if sr_state s \<in> {StPending, StAwaiting, StSkipped} then 0 else 1)"
  using budgetD [OF invD(2) [OF wf_runs_inv [OF assms(1), of env ctx, unfolded sys_inv_def]] assms(2,3)]
  by (simp add: spent_def)

theorem steps_are_not_replayed_witness:
  "calls_of (sy_log (wf_runs wfx_env wfx_ctx wfx_inputs)) wfx_id (JStr ''b'') = 1 \<and>
   calls_of (sy_log (wf_runs wfx_env wfx_ctx wfx_inputs)) wfx_id (JStr ''b'') \<le>
     approvals_of (sy_log (wf_runs wfx_env wfx_ctx wfx_inputs)) wfx_id (JStr ''b'') + 1"
proof -
  have "wfx_b 1 \<in> set (wr_steps (wfx_R 3))" by (simp add: wfx_R_def)
  from steps_are_not_replayed [OF wfx_json wfx_stored(3) this] show ?thesis
    by (simp add: wfx_runs wfx_files) (simp add: wfx_R_def)
qed

lemma exec_deps_items: "exec_deps d = Inr deps \<Longrightarrow> dep_items d = Inr deps"
  by (auto simp: exec_deps_def dep_items_def throws_def split: jval.splits)

lemma waits_for_finite: "valid_definition available d \<Longrightarrow> jprop d ''steps'' = JArr ss \<Longrightarrow> finite (waits_for ss) \<and> acyclic (waits_for ss)"
proof -
  assume "valid_definition available d" "jprop d ''steps'' = JArr ss"
  then have a: "\<forall>s \<in> set ss. \<exists>deps. dep_items s = Inr deps \<and> set deps \<subseteq> step_id ` set ss" "acyclic (waits_for ss)"
    by (auto simp: valid_definition_def)
  then have "waits_for ss \<subseteq> step_id ` set ss \<times> step_id ` set ss"
    by (fastforce simp: waits_for_def)
  then have "finite (waits_for ss)" by (rule finite_subset) simp
  with a show ?thesis by blast
qed

text \<open>Claim C13. A completed run has done every step: no step of a run stored as completed failed, was skipped, or is
  still to do. The executor only looks for a failed step; that none is skipped follows from the acyclic dependencies.\<close>

theorem completed_run_did_every_step:
  assumes "list_all json_input xs" "files_of (wf_runs env ctx xs) i = Some r" "wr_state r = WfCompleted"
  shows "\<forall>s \<in> set (wr_steps r). sr_state s = StSucceeded"
proof (rule ccontr)
  have ok: "run_wf r" "skips_ok r" "done_ok r" using stored_run_ok(2) [OF assms(1,2)] by (simp_all add: wf_ok_def)
  define A where "A = sr_id ` {s \<in> set (wr_steps r). sr_state s = StSkipped}"
  assume "\<not> ?thesis"
  then obtain x where "x \<in> set (wr_steps r)" "sr_state x \<noteq> StSucceeded" by blast
  then have "sr_id x \<in> A" using ok(3) assms(3) by (auto simp: done_ok_def A_def)
  obtain available where "valid_definition available (wr_definition r)" "jprop (wr_definition r) ''steps'' = JArr (def_steps r)"
    using stored_definition_steps [OF ok(1)] by blast
  then have "wf ((waits_for (def_steps r))\<inverse>)" using waits_for_finite finite_acyclic_wf_converse by blast
  with \<open>sr_id x \<in> A\<close> obtain a where a: "a \<in> A" "\<And>b. (b, a) \<in> (waits_for (def_steps r))\<inverse> \<Longrightarrow> b \<notin> A"
    using wfE_min by metis
  then obtain s where s: "s \<in> set (wr_steps r)" "sr_state s = StSkipped" "a = sr_id s" by (auto simp: A_def)
  with ok(2) obtain d deps j where d: "definition_step r a = Inr d" "exec_deps d = Inr deps" "j \<in> set deps" "dep_in {StFailed, StSkipped} r j"
    by (auto simp: skips_ok_def list_ex_iff)
  then obtain t where t: "find_step j r = Some t" "sr_state t \<in> {StFailed, StSkipped}" by (auto simp: dep_in_def split: option.splits)
  note t' = find_step_Some [OF t(1)]
  then have "sr_state t = StSkipped" using t(2) ok(3) assms(3) by (auto simp: done_ok_def)
  then have "j \<in> A" using t' by (auto simp: A_def)
  moreover have "d \<in> set (def_steps r)" "step_id d = a" using d(1) by (auto simp: definition_step_iff dest: find_SomeD)
  then have "(a, j) \<in> waits_for (def_steps r)" using d(2,3) exec_deps_items by (auto simp: waits_for_def)
  ultimately show False using a(2) by blast
qed

theorem completed_run_did_every_step_witness:
  "wr_state (wfx_R 3) = WfCompleted \<and> sr_state (wfx_b 1) = StSucceeded"
proof -
  have r: "wr_state (wfx_R 3) = WfCompleted" "wfx_b 1 \<in> set (wr_steps (wfx_R 3))" by (simp_all add: wfx_R_def)
  from completed_run_did_every_step [OF wfx_json wfx_stored(3) r(1)] r show ?thesis by blast
qed

section \<open>An undisturbed execution ends\<close>

text \<open>The executor alone: \<open>answer\<close> gives the results of the calls, \<open>aborted\<close> whether the client has aborted when a
  result arrives.  The fuel counts the calls.\<close>

fun drive :: "wf_env \<Rightarrow> exec_ctx \<Rightarrow> tool_principal \<Rightarrow> (WorkflowRun \<Rightarrow> jval \<Rightarrow> jobject \<Rightarrow> ToolResult) \<Rightarrow> (WorkflowRun \<Rightarrow> bool) \<Rightarrow> nat \<Rightarrow>
    outcome result \<times> wf_store \<Rightarrow> (outcome result \<times> wf_store) option" where
  "drive env ctx p answer aborted n (Inr (Calling R i args), s) =
     (case n of 0 \<Rightarrow> None
      | Suc m \<Rightarrow> drive env ctx p answer aborted m (finish_call env ctx p (aborted R) R i (answer R i args) s))"
| "drive env ctx p answer aborted n x = Some x"

definition open_steps :: "WorkflowRun \<Rightarrow> nat" where
  "open_steps r = length (filter (\<lambda>s. sr_state s \<in> {StPending, StAwaiting}) (wr_steps r))"

lemma filter_all2_le:
  "list_all2 P ss ts \<Longrightarrow> (\<And>s t. P s t \<Longrightarrow> Q t \<Longrightarrow> Q s) \<Longrightarrow> length (filter Q ts) \<le> length (filter Q ss)"
  by (induction rule: list_all2_induct) (auto intro: le_SucI)

lemma filter_all2_less:
  assumes "list_all2 P ss ts" "\<And>s t. P s t \<Longrightarrow> Q t \<Longrightarrow> Q s" "t \<in> set ts" "\<And>s. P s t \<Longrightarrow> Q s \<and> \<not> Q t"
  shows "length (filter Q ts) < length (filter Q ss)"
  using assms(1,3)
proof (induction rule: list_all2_induct)
  case (Cons s ss t' ts)
  show ?case
  proof (cases "t' = t")
    case True
    have "length (filter Q ts) \<le> length (filter Q ss)" by (rule filter_all2_le [OF Cons.hyps(2)]) (rule assms(2))
    with True Cons.hyps(1) assms(4) show ?thesis by auto
  next
    case False
    with Cons have "length (filter Q ts) < length (filter Q ss)" by simp
    then show ?thesis using assms(2) [OF Cons.hyps(1)] by auto
  qed
qed simp

lemma launched_step:
  assumes "launched r i args r'"
  obtains t where "find_step i r' = Some t" "sr_state t = StRunning"
proof -
  have key: "\<And>s t. launch_move i s t \<Longrightarrow> sr_id t = sr_id s"
    by (auto simp: launch_move_def quiet_def step_key_def split: if_splits)
  have all: "list_all2 (launch_move i) (wr_steps r) (wr_steps r')" using assms by (simp add: launched_def)
  obtain t where t: "find_step i r' = Some t" using assms by (auto simp: launched_def)
  have "rel_option (launch_move i) (find_step i r) (find_step i r')"
    unfolding find_step_def by (rule find_all2 [OF all key])
  then obtain y where "find_step i r = Some y" "launch_move i y t" using t by (auto simp: rel_option_iff split: option.splits)
  then have "sr_state t = StRunning" using find_step_Some [of i r y] by (simp add: launch_move_def)
  with t that show ?thesis by blast
qed

lemma launched_waits: "launched r i args r' \<Longrightarrow> wf_ok r' \<Longrightarrow> waits_on r' r' i"
proof -
  assume a: "launched r i args r'" "wf_ok r'"
  obtain t where "find_step i r' = Some t" "sr_state t = StRunning" using launched_step [OF a(1)] .
  then show "waits_on r' r' i" using a by (simp add: waits_on_def launched_def)
qed

lemma launched_open:
  assumes "launched r i args r'"
  shows "open_steps r' < open_steps r"
proof -
  obtain t where t: "find_step i r' = Some t" "sr_state t = StRunning" using launched_step [OF assms] .
  show ?thesis unfolding open_steps_def
  proof (rule filter_all2_less [where P = "launch_move i"])
    show "list_all2 (launch_move i) (wr_steps r) (wr_steps r')" using assms by (simp add: launched_def)
    show "t \<in> set (wr_steps r')" using find_step_Some [OF t(1)] by simp
    show "sr_state s \<in> {StPending, StAwaiting}" if "launch_move i s u" "sr_state u \<in> {StPending, StAwaiting}" for s u
      using that by (auto simp: launch_move_def quiet_def split: if_splits)
    show "sr_state s \<in> {StPending, StAwaiting} \<and> sr_state t \<notin> {StPending, StAwaiting}" if "launch_move i s t" for s
      using that t find_step_Some [OF t(1)] by (auto simp: launch_move_def quiet_def step_key_def split: if_splits)
  qed
qed

lemma settled_open: "settled r i a False r1 \<Longrightarrow> open_steps r1 \<le> open_steps r"
  unfolding open_steps_def settled_def by (rule filter_all2_le [where P = "settle_move i a False"]) (auto simp: settle_move_def)

lemma approval_ends_segment:
  assumes "truthy (tr_approvalId result) = Some a"
  shows "fst (finish_call env ctx p aborted R i result s) \<noteq> Inr (Calling R' j args)"
proof (cases "definition_step R i")
  case (Inl e)
  then show ?thesis by (simp add: finish_call_def bind_liftR)
next
  case (Inr d)
  have ret: "fst (bindA m (\<lambda>run. retA (Returned True None run)) s) \<noteq> Inr (Calling R' j args)" for m :: "(wf_store, WorkflowRun) act" and s
    by (cases "m s") (auto simp: bindA_def retA_def split: sum.splits)
  show ?thesis unfolding finish_call_def bind_liftR Inr sum.case bind_nowW Let_def assms option.case by (rule ret)
qed

lemma seg_calling:
  assumes "seg_post r s (Inr (Calling R i args), s')"
  shows "map_of (wv_files s') (wr_id R) = Some R" "wf_ok R" "waits_on R R i" "open_steps R < open_steps r"
proof -
  from assms have l: "launched r i args R" "wf_ok R" "map_of (wv_files s') = (map_of (wv_files s))(wr_id r \<mapsto> R)"
    by (auto simp: seg_post_def)
  then show "map_of (wv_files s') (wr_id R) = Some R" by (simp add: launched_def)
  show "wf_ok R" "waits_on R R i" "open_steps R < open_steps r"
    using l launched_waits launched_open by blast+
qed

lemma drive_ends:
  assumes "map_of (wv_files s) (wr_id R) = Some R" "wf_ok R" "waits_on R R i" "open_steps R < n"
  shows "drive env ctx p answer aborted n (Inr (Calling R i args), s) \<noteq> None"
  using assms
proof (induction n arbitrary: R i args s)
  case 0
  have False using 0(4) by simp
  then show ?case ..
next
  case (Suc n)
  define x where "x = finish_call env ctx p (aborted R) R i (answer R i args) s"
  have d: "drive env ctx p answer aborted (Suc n) (Inr (Calling R i args), s) = drive env ctx p answer aborted n x"
    by (simp add: x_def)
  show ?case
  proof (cases "\<exists>R' j args'. fst x = Inr (Calling R' j args')")
    case False
    then have "drive env ctx p answer aborted n x = Some x"
      by (cases "(env, ctx, p, answer, aborted, n, x)" rule: drive.cases) auto
    then show ?thesis unfolding d by simp
  next
    case True
    then obtain R' j args' s' where x: "x = (Inr (Calling R' j args'), s')" by (cases x) auto
    have none: "truthy (tr_approvalId (answer R i args)) = None"
      using approval_ends_segment [of "answer R i args" _ env ctx p "aborted R" R i s R' j args'] x unfolding x_def
      by (cases "truthy (tr_approvalId (answer R i args))") auto
    have "finish_post R i (attempt_of R i) (truthy (tr_approvalId (answer R i args)) \<noteq> None) s x"
      unfolding x_def by (rule finish_call_post [OF Suc.prems(3,2,1)])
    then obtain r1 s1 where r1: "settled R i (attempt_of R i) False r1" "seg_post r1 s1 x"
      unfolding finish_post_def none by (auto simp: x)
    note c = seg_calling [OF r1(2) [unfolded x]]
    have "open_steps R' < n" using c(4) settled_open [OF r1(1)] Suc.prems(4) by simp
    from Suc.IH [OF c(1-3) this] show ?thesis unfolding d x .
  qed
qed

text \<open>Claim C12. An undisturbed execution ends. Started on any stored run, with any answers to the calls, the executor
  returns, or fails with an error, after at most as many calls as the run has steps: the loop of \<^verbatim>\<open>executeWorkflow\<close> terminates.\<close>

theorem undisturbed_execution_ends:
  assumes "list_all json_input xs" "sy_store (wf_runs env ctx xs) = s" "map_of (wv_files s) i = Some run"
  shows "\<exists>res s'. drive env ctx p answer aborted (length (wr_steps run)) (begin_execution env ctx p approvals ab run s) = Some (res, s') \<and>
    (\<forall>R j args. res \<noteq> Inr (Calling R j args))"
proof -
  have "files_of (wf_runs env ctx xs) i = Some run" using assms(2,3) by (simp add: files_of_def)
  from stored_run_ok [OF assms(1) this] assms(3) have run: "map_of (wv_files s) (wr_id run) = Some run" "wf_ok run" by simp_all
  define n where "n = length (wr_steps run)"
  obtain res s' where x: "begin_execution env ctx p approvals ab run s = (res, s')" by (cases "begin_execution env ctx p approvals ab run s")
  have post: "seg_post run s (res, s')" using begin_execution_post [OF run] x by metis
  have "drive env ctx p answer aborted n (res, s') \<noteq> None"
  proof (cases "\<exists>R j args. res = Inr (Calling R j args)")
    case True
    then obtain R j args where res: "res = Inr (Calling R j args)" by blast
    note c = seg_calling [OF post [unfolded res]]
    have "open_steps run \<le> n" by (simp add: open_steps_def n_def)
    then show ?thesis unfolding res by (intro drive_ends c(1-3)) (use c(4) in simp)
  next
    case False
    then show ?thesis
      by (cases "(env, ctx, p, answer, aborted, n, (res, s'))" rule: drive.cases) auto
  qed
  moreover have "\<forall>R j args. fst y \<noteq> Inr (Calling R j args)" if "drive env ctx p answer aborted n x = Some y" for n x y
    using that by (induction env ctx p answer aborted n x rule: drive.induct) (auto split: nat.splits)
  ultimately show ?thesis unfolding x n_def by (metis fst_conv not_None_eq surj_pair)
qed

theorem undisturbed_execution_ends_witness:
  "\<exists>res s'. drive wfx_env wfx_ctx wfx_user (\<lambda>_ _ _. wfx_ok) (\<lambda>_. False) 2
     (begin_execution wfx_env wfx_ctx wfx_user (\<lambda>_. None) False (wfx_R 0) (wfx_store (wfx_R 0) 2 1)) = Some (res, s')"
proof -
  have s: "sy_store (wf_runs wfx_env wfx_ctx (take 1 wfx_inputs)) = wfx_store (wfx_R 0) 2 1"
    by (simp only: wfx_runs wfx_files)
  have f: "map_of (wv_files (wfx_store (wfx_R 0) 2 1)) wfx_id = Some (wfx_R 0)" by (simp add: wfx_store_def)
  have l: "length (wr_steps (wfx_R 0)) = 2" by (simp add: wfx_R_def)
  show ?thesis using undisturbed_execution_ends [OF wfx_json_take s f, unfolded l] by blast
qed

text \<open>Claim C23. A succeeded step is final. Once a step of a stored run has succeeded, it stays succeeded through every later
  operation, and its tool is never called for it again.\<close>

theorem succeeded_step_is_final:
  assumes "list_all json_input (xs @ ys)" "files_of (wf_runs env ctx xs) i = Some r" "find_step j r = Some s" "sr_state s = StSucceeded"
  shows "\<exists>r' s'. files_of (wf_runs env ctx (xs @ ys)) i = Some r' \<and> find_step j r' = Some s' \<and> sr_state s' = StSucceeded \<and>
    calls_of (sy_log (wf_runs env ctx (xs @ ys))) i j = calls_of (sy_log (wf_runs env ctx xs)) i j"
  using wf_runs_keep_success [OF assms(1), of i j env ctx] assms(2-4) by (simp add: success_kept_def abs_of_def)

theorem succeeded_step_is_final_witness:
  "\<exists>r' s'. files_of (wf_runs wfx_env wfx_ctx wfx_inputs) wfx_id = Some r' \<and> find_step (JStr ''a'') r' = Some s' \<and>
     sr_state s' = StSucceeded"
proof -
  have app: "take 3 wfx_inputs @ drop 3 wfx_inputs = wfx_inputs" by simp
  have f: "find_step (JStr ''a'') (wfx_R 2) = Some (wfx_a 1)" "sr_state (wfx_a 1) = StSucceeded" by (simp_all add: wfx_R_def)
  show ?thesis
    using succeeded_step_is_final [of "take 3 wfx_inputs" "drop 3 wfx_inputs", unfolded app, OF wfx_json wfx_stored(2) f] by blast
qed

section \<open>Handoffs\<close>

lemma claim_run_cases:
  assumes "claim_run env i token p s = (Inr r', s')"
  obtains r h where "map_of (wv_files s) i = Some r" "wr_id r = i" "wr_handoff r = Some h" "wv_now env (wv_reads s) < wh_expiresAt h"
    "wh_targetPrincipalId h = p_id p" "tokenHash env token = wh_tokenSha256 h"
    "save env (r\<lparr>wr_owner := ownerBinding p, wr_handoff := None\<rparr>) (s\<lparr>wv_reads := Suc (wv_reads s)\<rparr>) = (Inr r', s')"
proof -
  have "run_id_ok i" using assms by (auto simp: claim_run_def withRunLock_def throwA_def split: if_splits)
  then have run: "bindA (get_run env i None) (\<lambda>run.
     case wr_handoff run of
       None \<Rightarrow> throwA (PlainError ''Workflow has no pending handoff.'')
     | Some h \<Rightarrow>
         bindA (nowW env) (\<lambda>now.
         if wh_expiresAt h \<le> now
         then bindA (save env (run\<lparr>wr_handoff := None\<rparr>)) (\<lambda>_. throwA (PlainError ''Workflow handoff has expired.''))
         else if wh_targetPrincipalId h \<noteq> p_id p then throwA (PlainError ''Workflow handoff target mismatch.'')
         else if tokenHash env token \<noteq> wh_tokenSha256 h then throwA (PlainError ''Workflow handoff token is invalid.'')
         else save env (run\<lparr>wr_owner := ownerBinding p, wr_handoff := None\<rparr>))) s = (Inr r', s')"
    using assms by (simp add: claim_run_def withRunLock_def)
  have never: "fst (bindA m (\<lambda>_. throwA e) t) \<noteq> Inr x" for m :: "(wf_store, WorkflowRun) act" and e t and x :: WorkflowRun
    by (cases "m t") (auto simp: bindA_def throwA_def split: sum.splits)
  from run show ?thesis
  proof (cases rule: bind_get_cases)
    case (found r)
    show ?thesis
    proof (cases "wr_handoff r")
      case (Some h)
      let ?s1 = "s\<lparr>wv_reads := Suc (wv_reads s)\<rparr>"
      have "\<not> wh_expiresAt h \<le> wv_now env (wv_reads s)"
        using found(2) Some never [of "save env (r\<lparr>wr_handoff := None\<rparr>)" "PlainError ''Workflow handoff has expired.''" ?s1 r']
        by auto
      with found(2) Some have "wh_targetPrincipalId h = p_id p" "tokenHash env token = wh_tokenSha256 h"
        "save env (r\<lparr>wr_owner := ownerBinding p, wr_handoff := None\<rparr>) ?s1 = (Inr r', s')"
        by (auto simp: throwA_def split: if_splits)
      with that [OF _ _ Some] get_run_InrD(2,3) [OF found(1)] \<open>\<not> wh_expiresAt h \<le> wv_now env (wv_reads s)\<close>
      show ?thesis by simp
    qed (use found in \<open>simp add: throwA_def\<close>)
  qed simp
qed

text \<open>Claim C25. A handoff is claimed once, by its target. A claim succeeds only on a stored run whose handoff has not expired, for the
  principal it names and with the token whose hash it keeps; then the claimant owns the run, the token is spent, whoever
  presents it, and every other principal that is no admin, the former owner included, can no longer read the run.\<close>

theorem handoff_is_claimed_once_by_its_target:
  assumes "claim_run env i token p s = (Inr r', s')"
  shows "(\<exists>r h. map_of (wv_files s) i = Some r \<and> wr_handoff r = Some h \<and> wv_now env (wv_reads s) < wh_expiresAt h \<and>
      wh_targetPrincipalId h = p_id p \<and> tokenHash env token = wh_tokenSha256 h) \<and>
    map_of (wv_files s') i = Some r' \<and> wr_owner r' = ownerBinding p \<and>
    (\<forall>token' q x s''. claim_run env i token' q s' \<noteq> (Inr x, s'')) \<and>
    (\<forall>q x s''. p_role q \<noteq> RoleAdmin \<longrightarrow> p_id q \<noteq> p_id p \<longrightarrow> get_run env i (Some q) s' \<noteq> (Inr x, s''))"
proof -
  obtain r h where r: "map_of (wv_files s) i = Some r" "wr_id r = i" "wr_handoff r = Some h" "wv_now env (wv_reads s) < wh_expiresAt h"
    "wh_targetPrincipalId h = p_id p" "tokenHash env token = wh_tokenSha256 h"
    and save: "save env (r\<lparr>wr_owner := ownerBinding p, wr_handoff := None\<rparr>) (s\<lparr>wv_reads := Suc (wv_reads s)\<rparr>) = (Inr r', s')"
    using claim_run_cases [OF assms] .
  from save have "map_of (wv_files s') i = Some r' \<and> wr_owner r' = ownerBinding p \<and> wr_handoff r' = None"
  proof (cases rule: save_cases)
    case (saved run')
    then show ?thesis using r(2) by (simp add: map_of_put_file)
  qed simp
  then have stored: "map_of (wv_files s') i = Some r'" "wr_owner r' = ownerBinding p" "wr_handoff r' = None" by simp_all
  have "claim_run env i token' q s' \<noteq> (Inr x, s'')" for token' q x s''
  proof
    assume "claim_run env i token' q s' = (Inr x, s'')"
    then show False by (rule claim_run_cases) (use stored in simp)
  qed
  moreover have "get_run env i (Some q) s' \<noteq> (Inr x, s'')" if "p_role q \<noteq> RoleAdmin" "p_id q \<noteq> p_id p" for q x s''
  proof
    assume g: "get_run env i (Some q) s' = (Inr x, s'')"
    then have "x = r'" "ownerMatches (wr_owner x) q" using get_run_InrD(2,6) [OF g] stored(1) by auto
    then show False using that stored(2) by (simp add: ownerMatches_def ownerBinding_def)
  qed
  ultimately show ?thesis using r stored by blast
qed

theorem handoff_is_claimed_once_by_its_target_witness:
  "wr_owner wfx_claimed = ownerBinding wfx_heir \<and>
   (\<forall>x s''. claim_run wfx_env wfx_id ''token'' wfx_heir (wfx_store wfx_claimed 4 2) \<noteq> (Inr x, s'')) \<and>
   (\<forall>x s''. get_run wfx_env wfx_id (Some wfx_user) (wfx_store wfx_claimed 4 2) \<noteq> (Inr x, s''))"
proof -
  have q: "p_role wfx_user \<noteq> RoleAdmin" "p_id wfx_user \<noteq> p_id wfx_heir" by (simp_all add: wfx_user_def wfx_heir_def bare_principal_def)
  from handoff_is_claimed_once_by_its_target [OF wfx_claim] q show ?thesis by blast
qed

end
