(* ===== verification/FF_Diff.thy ===== *)
theory FF_Diff
  imports FF_Prelude
begin

text \<open>
  \<^verbatim>\<open>src/tools/diff-util.ts\<close> and \<^verbatim>\<open>boundedDiff\<close> of \<^verbatim>\<open>src/tools/agent-tools.ts\<close>: the line diff that previews show.

  \<open>diff_table\<close> is the table of longest common subsequences, filled from the last row and column; \<open>diff_walk\<close> walks it
  from the first line.  The lemmas show that the table holds what \<open>lcs\<close>, the reference definition, defines, that both
  texts can be read off the diff, and that no diff keeps more lines.
\<close>

section \<open>The diff\<close>

text \<open>Row \<open>i\<close> of the table, for the line \<open>x = a[i]\<close>, from row \<open>i + 1\<close>; it has one entry more than \<open>b\<close> has lines.\<close>

fun diff_row :: "string \<Rightarrow> string list \<Rightarrow> nat list \<Rightarrow> nat list" where
  "diff_row x [] below = [0]"
| "diff_row x (y # ys) below =
     (let row = diff_row x ys (tl below)
      in (if x = y then below ! 1 + 1 else max (below ! 0) (row ! 0)) # row)"

fun diff_table :: "string list \<Rightarrow> string list \<Rightarrow> nat list list" where
  "diff_table [] b = [replicate (length b + 1) 0]"
| "diff_table (x # xs) b = (let t = diff_table xs b in diff_row x b (t ! 0) # t)"

function diff_walk :: "nat list list \<Rightarrow> string list \<Rightarrow> string list \<Rightarrow> nat \<Rightarrow> nat \<Rightarrow> string list" where
  "diff_walk dp a b i j =
     (if i < length a \<and> j < length b then
        (if a ! i = b ! j then (''  '' @ a ! i) # diff_walk dp a b (i + 1) (j + 1)
         else if dp ! i ! (j + 1) \<le> dp ! (i + 1) ! j then (''- '' @ a ! i) # diff_walk dp a b (i + 1) j
         else (''+ '' @ b ! j) # diff_walk dp a b i (j + 1))
      else map (\<lambda>x. ''- '' @ x) (drop i a) @ map (\<lambda>y. ''+ '' @ y) (drop j b))"
  by pat_completeness auto
termination
  by (relation "measure (\<lambda>(dp, a, b, i, j). (length a - i) + (length b - j))") auto

declare diff_walk.simps [simp del]

definition newline :: string where
  "newline = [CHR 0x0A]"

definition diff_lines :: "string \<Rightarrow> string \<Rightarrow> string list" where
  "diff_lines before after =
     (let a = split_on (CHR 0x0A) before; b = split_on (CHR 0x0A) after in diff_walk (diff_table a b) a b 0 0)"

definition simpleDiff :: "string \<Rightarrow> string \<Rightarrow> string \<Rightarrow> string" where
  "simpleDiff before after label =
     (if before = after then ''--- '' @ label @ newline @ ''(no changes)''
      else let lines = (''--- '' @ label @ '' (before)'') # (''+++ '' @ label @ '' (after)'') # diff_lines before after
           in if length lines > 400
              then join_with newline (take 400 lines) @ newline @ ''... ('' @ show_nat (length lines - 400) @ '' more lines)''
              else join_with newline lines)"

definition boundedDiff :: "string \<Rightarrow> string \<Rightarrow> string \<Rightarrow> string" where
  "boundedDiff before after path =
     (let beforeLines = length (split_on (CHR 0x0A) before); afterLines = length (split_on (CHR 0x0A) after)
      in if beforeLines > 1200 \<or> afterLines > 1200
         then join_with newline
           [''--- '' @ path @ '' (before)'', ''+++ '' @ path @ '' (after)'', ''@@ large-file summary @@'',
            ''before: '' @ show_nat (byte_length before) @ '' bytes / '' @ show_nat beforeLines @ '' lines'',
            ''after: '' @ show_nat (byte_length after) @ '' bytes / '' @ show_nat afterLines @ '' lines'',
            ''Detailed line diff omitted to keep the transaction preview bounded.'']
         else simpleDiff before after path)"

section \<open>Longest common subsequences\<close>

fun lcs :: "'a list \<Rightarrow> 'a list \<Rightarrow> nat" where
  "lcs [] ys = 0"
| "lcs xs [] = 0"
| "lcs (x # xs) (y # ys) = (if x = y then lcs xs ys + 1 else max (lcs xs (y # ys)) (lcs (x # xs) ys))"

lemma lcs_Nil2 [simp]: "lcs xs [] = 0"
  by (cases xs) simp_all

lemma subseq_bound: "subseq c xs \<Longrightarrow> subseq c ys \<Longrightarrow> length c \<le> lcs xs ys"
proof (induction xs ys arbitrary: c rule: lcs.induct)
  case (3 x xs y ys)
  show ?case
  proof (cases c)
    case (Cons z zs)
    show ?thesis
    proof (cases "x = y")
      case True
      have "subseq zs xs" "subseq zs ys"
        using 3(4,5) Cons by (auto simp: subseq_Cons2_iff split: if_splits dest: subseq_Cons')
      with 3(1) [OF True] True Cons show ?thesis by simp
    next
      case False
      then have "subseq c xs \<or> subseq c ys"
        using 3(4,5) Cons by (auto simp: subseq_Cons2_iff split: if_splits)
      then show ?thesis using 3(2,3) [OF False, of c] 3(4,5) False by (auto simp: le_max_iff_disj)
    qed
  qed simp
qed simp_all

lemma diff_row_lcs:
  "(\<And>j. j \<le> length ys \<Longrightarrow> below ! j = lcs xs (drop j ys)) \<Longrightarrow> length below = length ys + 1 \<Longrightarrow>
    length (diff_row x ys below) = length ys + 1 \<and> (\<forall>j \<le> length ys. diff_row x ys below ! j = lcs (x # xs) (drop j ys))"
proof (induction ys arbitrary: below)
  case (Cons y ys)
  obtain n ns where b: "below = n # ns" using Cons.prems(2) by (cases below) auto
  have ns: "\<And>j. j \<le> length ys \<Longrightarrow> ns ! j = lcs xs (drop j ys)" "length ns = length ys + 1"
    using Cons.prems(1) [of "Suc _"] Cons.prems(2) b by auto
  note IH = Cons.IH [OF ns]
  have 0: "n = lcs xs (y # ys)" "ns ! 0 = lcs xs ys" using Cons.prems(1) [of 0] ns(1) [of 0] b by simp_all
  have "diff_row x (y # ys) below ! j = lcs (x # xs) (drop j (y # ys))" if "j \<le> Suc (length ys)" for j
    using IH 0 b that by (cases j) (auto simp: Let_def)
  then show ?case using IH b by (simp add: Let_def)
qed simp

lemma diff_table_lcs:
  "length (diff_table a b) = length a + 1 \<and>
   (\<forall>i \<le> length a. length (diff_table a b ! i) = length b + 1 \<and> (\<forall>j \<le> length b. diff_table a b ! i ! j = lcs (drop i a) (drop j b)))"
proof (induction a)
  case Nil
  show ?case by simp (metis le_imp_less_Suc nth_replicate replicate_Suc)
next
  case (Cons x a)
  let ?t = "diff_table a b"
  have row: "length (diff_row x b (?t ! 0)) = length b + 1 \<and> (\<forall>j \<le> length b. diff_row x b (?t ! 0) ! j = lcs (x # a) (drop j b))"
    by (rule diff_row_lcs) (use Cons in auto)
  have "diff_table (x # a) b ! i = (case i of 0 \<Rightarrow> diff_row x b (?t ! 0) | Suc k \<Rightarrow> ?t ! k)" for i
    by (simp add: Let_def split: nat.split)
  then show ?case using Cons row by (auto simp: Let_def split: nat.split)
qed

section \<open>Reading the diff\<close>

definition old_lines :: "string list \<Rightarrow> string list" where
  "old_lines ls = map (drop 2) (filter (\<lambda>l. hd l \<noteq> CHR ''+'') ls)"

definition new_lines :: "string list \<Rightarrow> string list" where
  "new_lines ls = map (drop 2) (filter (\<lambda>l. hd l \<noteq> CHR ''-'') ls)"

definition kept_lines :: "string list \<Rightarrow> nat" where
  "kept_lines ls = length (filter (\<lambda>l. hd l = CHR '' '') ls)"

lemmas reading_defs = old_lines_def new_lines_def kept_lines_def

lemma reading_simps [simp]:
  "old_lines [] = []" "new_lines [] = []" "kept_lines [] = 0"
  "old_lines ((''  '' @ x) # ls) = x # old_lines ls" "new_lines ((''  '' @ x) # ls) = x # new_lines ls"
  "kept_lines ((''  '' @ x) # ls) = Suc (kept_lines ls)"
  "old_lines ((''- '' @ x) # ls) = x # old_lines ls" "new_lines ((''- '' @ x) # ls) = new_lines ls"
  "kept_lines ((''- '' @ x) # ls) = kept_lines ls"
  "old_lines ((''+ '' @ x) # ls) = old_lines ls" "new_lines ((''+ '' @ x) # ls) = x # new_lines ls"
  "kept_lines ((''+ '' @ x) # ls) = kept_lines ls"
  by (simp_all add: reading_defs)

lemma reading_rest:
  "old_lines (map (\<lambda>x. ''- '' @ x) xs @ map (\<lambda>y. ''+ '' @ y) ys) = xs"
  "new_lines (map (\<lambda>x. ''- '' @ x) xs @ map (\<lambda>y. ''+ '' @ y) ys) = ys"
  "kept_lines (map (\<lambda>x. ''- '' @ x) xs @ map (\<lambda>y. ''+ '' @ y) ys) = 0"
  by (simp_all add: reading_defs filter_map comp_def)

lemma diff_walk_reads:
  "i \<le> length a \<Longrightarrow> j \<le> length b \<Longrightarrow>
    old_lines (diff_walk dp a b i j) = drop i a \<and> new_lines (diff_walk dp a b i j) = drop j b"
proof (induction dp a b i j rule: diff_walk.induct)
  case (1 dp a b i j)
  show ?case
  proof (cases "i < length a \<and> j < length b")
    case True
    then have d: "drop i a = a ! i # drop (i + 1) a" "drop j b = b ! j # drop (j + 1) b" by (simp_all add: Cons_nth_drop_Suc)
    show ?thesis using 1 True d unfolding diff_walk.simps [of dp a b i j] by (auto simp del: append.simps)
  qed (use 1 in \<open>auto simp: diff_walk.simps [of dp a b i j] reading_rest\<close>)
qed

lemma diff_walk_keeps:
  assumes "dp = diff_table a b"
  shows "i \<le> length a \<Longrightarrow> j \<le> length b \<Longrightarrow> kept_lines (diff_walk dp a b i j) = lcs (drop i a) (drop j b)"
  using assms
proof (induction dp a b i j rule: diff_walk.induct)
  case (1 dp a b i j)
  show ?case
  proof (cases "i < length a \<and> j < length b")
    case True
    then have d: "drop i a = a ! i # drop (i + 1) a" "drop j b = b ! j # drop (j + 1) b" by (simp_all add: Cons_nth_drop_Suc)
    have t: "dp ! i ! (j + 1) = lcs (drop i a) (drop (j + 1) b)" "dp ! (i + 1) ! j = lcs (drop (i + 1) a) (drop j b)"
      using diff_table_lcs [of a b] True "1.prems"(3) by auto
    show ?thesis
      using 1 True t unfolding diff_walk.simps [of dp a b i j] d
      by (auto simp del: append.simps simp: d [symmetric] max_def)
  next
    case False
    then have "drop i a = [] \<or> drop j b = []" by auto
    then have "lcs (drop i a) (drop j b) = 0" by auto
    with False show ?thesis unfolding diff_walk.simps [of dp a b i j] by (auto simp: reading_rest)
  qed
qed

lemma diff_walk_no_newline:
  "\<forall>x \<in> set a \<union> set b. CHR 0x0A \<notin> set x \<Longrightarrow> l \<in> set (diff_walk dp a b i j) \<Longrightarrow> CHR 0x0A \<notin> set l"
proof (induction dp a b i j rule: diff_walk.induct)
  case (1 dp a b i j)
  show ?case using 1 unfolding diff_walk.simps [of dp a b i j]
    by (auto split: if_splits dest: in_set_dropD nth_mem)
qed

lemma diff_lines_read:
  "old_lines (diff_lines before after) = split_on (CHR 0x0A) before"
  "new_lines (diff_lines before after) = split_on (CHR 0x0A) after"
  "kept_lines (diff_lines before after) = lcs (split_on (CHR 0x0A) before) (split_on (CHR 0x0A) after)"
  using diff_walk_reads [of 0 _ 0] diff_walk_keeps [OF refl, of 0 _ 0] by (auto simp: diff_lines_def Let_def)

lemma diff_lines_no_newline: "l \<in> set (diff_lines before after) \<Longrightarrow> CHR 0x0A \<notin> set l"
  unfolding diff_lines_def Let_def by (rule diff_walk_no_newline) (use split_on_no_sep in auto)

lemma simpleDiff_body:
  assumes "before \<noteq> after" "CHR 0x0A \<notin> set label" "length (diff_lines before after) \<le> 398"
  shows "drop 2 (split_on (CHR 0x0A) (simpleDiff before after label)) = diff_lines before after"
proof -
  let ?ls = "(''--- '' @ label @ '' (before)'') # (''+++ '' @ label @ '' (after)'') # diff_lines before after"
  have "split_on (CHR 0x0A) (join_with [CHR 0x0A] ?ls) = ?ls"
    by (rule split_join) (use assms(2) diff_lines_no_newline in auto)
  then show ?thesis using assms(1,3) by (simp add: simpleDiff_def newline_def)
qed

text \<open>Claim C37. The diff of two texts has both in it: of a diff that was not cut at 400 lines, after its two header lines, the
  lines that are not marked as added are the old text and those that are not marked as removed are the new text, up to
  their marks.\<close>

theorem diff_has_both_texts:
  assumes "before \<noteq> after" "CHR 0x0A \<notin> set label" "length (diff_lines before after) \<le> 398"
  shows "join_with newline (old_lines (drop 2 (split_on (CHR 0x0A) (simpleDiff before after label)))) = before \<and>
    join_with newline (new_lines (drop 2 (split_on (CHR 0x0A) (simpleDiff before after label)))) = after"
  unfolding simpleDiff_body [OF assms] by (simp add: diff_lines_read newline_def join_split_on)

theorem diff_has_both_texts_witness:
  "join_with newline (old_lines (drop 2 (split_on (CHR 0x0A) (simpleDiff ''a'' ''b'' ''f'')))) = ''a''"
proof -
  have "length (diff_lines ''a'' ''b'') \<le> 398"
    by (simp add: diff_lines_def Let_def diff_walk.simps)
  then show ?thesis using diff_has_both_texts [of "''a''" "''b''" "''f''"] by simp
qed



end
