(* ===== verification/FF_Patch.thy ===== *)
theory FF_Patch
  imports FF_Diff FF_Paths
begin

text \<open>
  \<^verbatim>\<open>src/managers/patch-transaction-manager.ts\<close> and its use in \<^verbatim>\<open>src/tools/agent-tools.ts\<close>: patches of several text
  files that are previewed, applied and rolled back as one.

  The disk maps the paths of regular files to their texts (as UTF-8 decodes them); an existing file can be read.
  Making directories, writing and removing may fail (\<open>pv_io\<close>, for the n-th such call), and a write that fails may leave any
  text behind.  The check of a path, \<open>PathPolicy.resolveSafe\<close>, looks at links, which may change at any time: its n-th call is
  a parameter, \<open>pv_validate\<close>.  Other programs change the disk between the operations (\<open>PtOutside\<close>).
\<close>

section \<open>State\<close>

record PatchFileSnapshot =
  ps_path :: string
  ps_absolutePath :: string
  ps_existed :: bool
  ps_before :: string
  ps_after :: string
  ps_diff :: string

datatype PatchTransactionState = Previewed | Applied | RolledBack

record PatchTransaction =
  pt_id :: string
  pt_projectRoot :: string
  pt_createdAt :: int
  pt_updatedAt :: int
  pt_state :: PatchTransactionState
  pt_files :: "PatchFileSnapshot list"

datatype io_outcome = IoDone | IoFailed | IoTorn "string option"

record patch_env =
  pv_validate :: "nat \<Rightarrow> string \<Rightarrow> string \<Rightarrow> string result"
  pv_cwd :: string
  pv_now :: "nat \<Rightarrow> int"
  pv_uuid :: "nat \<Rightarrow> string"
  pv_io :: "nat \<Rightarrow> io_outcome"

text \<open>The transactions are in the insertion order of the map; a new value for a key takes the place of the old one.\<close>

record patch_manager =
  px_transactions :: "PatchTransaction list"
  px_disk :: "string \<Rightarrow> string option"
  px_checks :: nat
  px_reads :: nat
  px_draws :: nat
  px_ios :: nat

definition MAX_TRANSACTIONS :: nat where "MAX_TRANSACTIONS = 50"
definition TRANSACTION_TTL_MS :: int where "TRANSACTION_TTL_MS = 3600000"

definition pstate_text :: "PatchTransactionState \<Rightarrow> string" where
  "pstate_text s = (case s of Previewed \<Rightarrow> ''previewed'' | Applied \<Rightarrow> ''applied'' | RolledBack \<Rightarrow> ''rolled_back'')"

text \<open>\<^verbatim>\<open>String(error)\<close>.\<close>

definition error_string :: "ff_error \<Rightarrow> string" where
  "error_string e = (case e of PolicyDeniedError m \<Rightarrow> ''PolicyDeniedError: '' @ m | PathEscapeError m \<Rightarrow> ''PathEscapeError: '' @ m
     | StoreError m \<Rightarrow> ''Error: '' @ m | PlainError m \<Rightarrow> ''Error: '' @ m | _ \<Rightarrow> ''Error'')"

section \<open>Input and output\<close>

definition validateP :: "patch_env \<Rightarrow> string \<Rightarrow> string \<Rightarrow> (patch_manager, string) act" where
  "validateP env path root s = (pv_validate env (px_checks s) path root, s\<lparr>px_checks := Suc (px_checks s)\<rparr>)"

definition nowP :: "patch_env \<Rightarrow> (patch_manager, int) act" where
  "nowP env s = (Inr (pv_now env (px_reads s)), s\<lparr>px_reads := Suc (px_reads s)\<rparr>)"

definition uuidP :: "patch_env \<Rightarrow> (patch_manager, string) act" where
  "uuidP env s = (Inr (pv_uuid env (px_draws s)), s\<lparr>px_draws := Suc (px_draws s)\<rparr>)"

definition io_failed :: ff_error where
  "io_failed = StoreError ''The file system refused the operation.''"

definition mkdirP :: "patch_env \<Rightarrow> (patch_manager, unit) act" where
  "mkdirP env s = (if pv_io env (px_ios s) = IoDone then Inr () else Inl io_failed, s\<lparr>px_ios := Suc (px_ios s)\<rparr>)"

definition writeP :: "patch_env \<Rightarrow> string \<Rightarrow> string \<Rightarrow> (patch_manager, unit) act" where
  "writeP env path t s =
     (let s' = s\<lparr>px_ios := Suc (px_ios s)\<rparr>
      in case pv_io env (px_ios s) of
           IoDone \<Rightarrow> (Inr (), s'\<lparr>px_disk := (px_disk s)(path \<mapsto> t)\<rparr>)
         | IoFailed \<Rightarrow> (Inl io_failed, s')
         | IoTorn left \<Rightarrow> (Inl io_failed, s'\<lparr>px_disk := (px_disk s)(path := left)\<rparr>))"

definition removeP :: "patch_env \<Rightarrow> string \<Rightarrow> (patch_manager, unit) act" where
  "removeP env path s =
     (let s' = s\<lparr>px_ios := Suc (px_ios s)\<rparr>
      in if pv_io env (px_ios s) = IoDone then (Inr (), s'\<lparr>px_disk := (px_disk s)(path := None)\<rparr>) else (Inl io_failed, s'))"

section \<open>The manager\<close>

definition prune :: "patch_env \<Rightarrow> (patch_manager, unit) act" where
  "prune env = bindA (nowP env) (\<lambda>now.
     modifyA (\<lambda>s. s\<lparr>px_transactions := filter (\<lambda>tx. now - TRANSACTION_TTL_MS \<le> pt_updatedAt tx) (px_transactions s)\<rparr>))"

definition trimOldest :: "PatchTransaction list \<Rightarrow> PatchTransaction list" where
  "trimOldest txs =
     (if length txs \<le> MAX_TRANSACTIONS then txs
      else let old = take (length txs - MAX_TRANSACTIONS) (sort_by (le_on pt_updatedAt) txs)
           in filter (\<lambda>tx. pt_id tx \<notin> pt_id ` set old) txs)"

definition find_tx :: "string \<Rightarrow> patch_manager \<Rightarrow> PatchTransaction option" where
  "find_tx i s = find (\<lambda>tx. pt_id tx = i) (px_transactions s)"

definition require :: "patch_env \<Rightarrow> string \<Rightarrow> (patch_manager, PatchTransaction) act" where
  "require env i = bindA (prune env) (\<lambda>_. \<lambda>s.
     (case find_tx i s of None \<Rightarrow> Inl (PlainError (''Unknown or expired patch transaction: '' @ i)) | Some tx \<Rightarrow> Inr tx, s))"

fun check_new_files :: "patch_env \<Rightarrow> string \<Rightarrow> PatchFileSnapshot list \<Rightarrow> (patch_manager, unit) act" where
  "check_new_files env root [] = retA ()"
| "check_new_files env root (f # fs) = bindA (validateP env (ps_path f) root) (\<lambda>validated.
     if validated \<noteq> ps_absolutePath f then throwA (PlainError (''Patch path changed during preview: '' @ ps_path f))
     else check_new_files env root fs)"

definition put_tx :: "PatchTransaction \<Rightarrow> PatchTransaction list \<Rightarrow> PatchTransaction list" where
  "put_tx tx txs = (if pt_id tx \<in> pt_id ` set txs then update_first (\<lambda>t. pt_id t = pt_id tx) (\<lambda>_. tx) txs else txs @ [tx])"

definition create_tx :: "patch_env \<Rightarrow> string \<Rightarrow> PatchFileSnapshot list \<Rightarrow> (patch_manager, PatchTransaction) act" where
  "create_tx env root files =
     bindA (prune env) (\<lambda>_.
     bindA (nowP env) (\<lambda>now.
     bindA (check_new_files env root files) (\<lambda>_.
     bindA (uuidP env) (\<lambda>u.
     let tx = \<lparr>pt_id = ''patch_'' @ take 12 u, pt_projectRoot = root, pt_createdAt = now, pt_updatedAt = now,
           pt_state = Previewed, pt_files = files\<rparr>
     in bindA (modifyA (\<lambda>s. s\<lparr>px_transactions := trimOldest (put_tx tx (px_transactions s))\<rparr>)) (\<lambda>_. retA tx)))))"

definition validatedAbsolutePath :: "patch_env \<Rightarrow> PatchTransaction \<Rightarrow> PatchFileSnapshot \<Rightarrow> (patch_manager, string) act" where
  "validatedAbsolutePath env tx f = bindA (validateP env (ps_path f) (pt_projectRoot tx)) (\<lambda>validated.
     if validated \<noteq> ps_absolutePath f then throwA (PlainError (''Patch path changed after preview: '' @ ps_path f))
     else retA validated)"

text \<open>The text a file should have, \<open>None\<close> when it should not exist.\<close>

definition expected_text :: "PatchTransactionState \<Rightarrow> PatchFileSnapshot \<Rightarrow> string option" where
  "expected_text st f = (if st = Previewed then (if ps_existed f then Some (ps_before f) else None) else Some (ps_after f))"

fun conflicts :: "patch_env \<Rightarrow> PatchTransaction \<Rightarrow> PatchTransactionState \<Rightarrow> bool \<Rightarrow> PatchFileSnapshot list \<Rightarrow> (patch_manager, string list) act" where
  "conflicts env tx st force [] = retA []"
| "conflicts env tx st force (f # fs) = bindA (validatedAbsolutePath env tx f) (\<lambda>p. \<lambda>s.
     (let new = (if \<not> force \<and> px_disk s p \<noteq> expected_text st f then [ps_path f] else [])
      in bindA (conflicts env tx st force fs) (\<lambda>rest. retA (new @ rest)) s))"

definition assertCurrentMatches :: "patch_env \<Rightarrow> PatchTransaction \<Rightarrow> PatchTransactionState \<Rightarrow> bool \<Rightarrow> (patch_manager, unit) act" where
  "assertCurrentMatches env tx st force = bindA (conflicts env tx st force (pt_files tx)) (\<lambda>cs.
     if cs \<noteq> [] then throwA (PlainError (''Patch transaction '' @ pt_id tx @ '' conflicts with newer workspace changes: '' @
       join_with '', '' cs @ ''. Review the files and create a new preview, or pass force=true only when overwriting is intentional.''))
     else retA ())"

text \<open>The new text of a file, and its old state.\<close>

definition write_after :: "patch_env \<Rightarrow> PatchTransaction \<Rightarrow> PatchFileSnapshot \<Rightarrow> (patch_manager, unit) act" where
  "write_after env tx f =
     bindA (validatedAbsolutePath env tx f) (\<lambda>_. bindA (mkdirP env) (\<lambda>_.
     bindA (validatedAbsolutePath env tx f) (\<lambda>p. writeP env p (ps_after f))))"

definition restoreBefore :: "patch_env \<Rightarrow> PatchTransaction \<Rightarrow> PatchFileSnapshot \<Rightarrow> (patch_manager, unit) act" where
  "restoreBefore env tx f =
     bindA (validatedAbsolutePath env tx f) (\<lambda>p. \<lambda>s.
       (if \<not> ps_existed f then if px_disk s p \<noteq> None then removeP env p s else (Inr (), s)
        else bindA (mkdirP env) (\<lambda>_. bindA (validatedAbsolutePath env tx f) (\<lambda>p. writeP env p (ps_before f))) s))"

text \<open>A loop over files that remembers, the last first, those it is done with, and the error that ended it.\<close>

fun each_file :: "(PatchFileSnapshot \<Rightarrow> (patch_manager, unit) act) \<Rightarrow> PatchFileSnapshot list \<Rightarrow> PatchFileSnapshot list \<Rightarrow> patch_manager \<Rightarrow>
    ff_error option \<times> PatchFileSnapshot list \<times> patch_manager" where
  "each_file op [] changed s = (None, changed, s)"
| "each_file op (f # fs) changed s =
     (case op f s of (Inl e, s') \<Rightarrow> (Some e, changed, s') | (Inr _, s') \<Rightarrow> each_file op fs (f # changed) s')"

definition set_tx_state :: "patch_env \<Rightarrow> PatchTransaction \<Rightarrow> PatchTransactionState \<Rightarrow> (patch_manager, PatchTransaction) act" where
  "set_tx_state env tx st = bindA (nowP env) (\<lambda>now. let tx' = tx\<lparr>pt_state := st, pt_updatedAt := now\<rparr> in
     bindA (modifyA (\<lambda>s. s\<lparr>px_transactions := update_first (\<lambda>t. pt_id t = pt_id tx) (\<lambda>_. tx') (px_transactions s)\<rparr>)) (\<lambda>_. retA tx'))"

definition apply_tx :: "patch_env \<Rightarrow> string \<Rightarrow> bool \<Rightarrow> (patch_manager, PatchTransaction) act" where
  "apply_tx env i force =
     bindA (require env i) (\<lambda>tx.
     if pt_state tx \<noteq> Previewed
     then throwA (PlainError (''Patch transaction '' @ i @ '' is '' @ pstate_text (pt_state tx) @ ''; only previewed transactions can be applied.''))
     else bindA (assertCurrentMatches env tx Previewed force) (\<lambda>_. \<lambda>s.
       (case each_file (write_after env tx) (pt_files tx) [] s of
          (None, _, s') \<Rightarrow> set_tx_state env tx Applied s'
        | (Some e, changed, s') \<Rightarrow> bindA (forA (restoreBefore env tx) changed) (\<lambda>_.
            throwA (PlainError (''Patch transaction '' @ i @ '' failed and was rolled back: '' @ error_string e))) s')))"

definition rollback_tx :: "patch_env \<Rightarrow> string \<Rightarrow> bool \<Rightarrow> (patch_manager, PatchTransaction) act" where
  "rollback_tx env i force =
     bindA (require env i) (\<lambda>tx.
     if pt_state tx \<noteq> Applied
     then throwA (PlainError (''Patch transaction '' @ i @ '' is '' @ pstate_text (pt_state tx) @ ''; only applied transactions can be rolled back.''))
     else bindA (assertCurrentMatches env tx Applied force) (\<lambda>_. \<lambda>s.
       (case each_file (restoreBefore env tx) (pt_files tx) [] s of
          (None, _, s') \<Rightarrow> set_tx_state env tx RolledBack s'
        | (Some e, restored, s') \<Rightarrow> bindA (forA (write_after env tx) restored) (\<lambda>_.
            throwA (PlainError (''Rollback of patch transaction '' @ i @ '' failed: '' @ error_string e))) s')))"

text \<open>What a caller sees of a transaction.\<close>

record PatchFileView =
  fv_path :: string
  fv_existed :: bool
  fv_beforeBytes :: nat
  fv_afterBytes :: nat
  fv_diff :: string

record PatchTransactionView =
  tv_id :: string
  tv_projectRoot :: string
  tv_createdAt :: int
  tv_updatedAt :: int
  tv_state :: PatchTransactionState
  tv_files :: "PatchFileView list"

definition view_tx :: "PatchTransaction \<Rightarrow> PatchTransactionView" where
  "view_tx tx = \<lparr>tv_id = pt_id tx, tv_projectRoot = pt_projectRoot tx, tv_createdAt = pt_createdAt tx, tv_updatedAt = pt_updatedAt tx,
     tv_state = pt_state tx, tv_files = map (\<lambda>f. \<lparr>fv_path = ps_path f, fv_existed = ps_existed f,
       fv_beforeBytes = byte_length (ps_before f), fv_afterBytes = byte_length (ps_after f), fv_diff = ps_diff f\<rparr>) (pt_files tx)\<rparr>"

section \<open>Snapshots\<close>

record PatchOperation =
  po_path :: string
  po_oldText :: "string option"
  po_newText :: string
  po_expectedOccurrences :: "int option"

text \<open>\<^verbatim>\<open>text.split(needle)\<close> for a needle that is not empty.\<close>

function split_text :: "string \<Rightarrow> string \<Rightarrow> string list" where
  "split_text needle s =
     (case find_index needle s of
        None \<Rightarrow> [s]
      | Some k \<Rightarrow> if needle = [] then [s] else take k s # split_text needle (drop (k + length needle) s))"
  by pat_completeness auto
termination
proof (relation "measure (\<lambda>(needle, s). length s)", simp)
  fix needle s k
  assume k: "find_index needle s = Some k" "needle \<noteq> []"
  then have "starts_with needle (drop k s)" using find_index_SomeD by blast
  with k(2) have "drop k s \<noteq> []" by (cases "drop k s"; cases needle) auto
  then have "length s - (k + length needle) < length s" using k(2) by (intro diff_less) auto
  then show "((needle, drop (k + length needle) s), needle, s) \<in> measure (\<lambda>(needle, s). length s)" by simp
qed

declare split_text.simps [simp del]

definition countOccurrences :: "string \<Rightarrow> string \<Rightarrow> nat" where
  "countOccurrences t needle = (if needle = [] then 0 else length (split_text needle t) - 1)"

definition MAX_PATCH_FILE_BYTES :: nat where "MAX_PATCH_FILE_BYTES = 256000"
definition MAX_PATCH_TOTAL_BYTES :: nat where "MAX_PATCH_TOTAL_BYTES = 2000000"

definition patched_text :: "string \<Rightarrow> PatchOperation \<Rightarrow> string \<Rightarrow> string result" where
  "patched_text path oper before =
     (case po_oldText oper of
        None \<Rightarrow> Inr (po_newText oper)
      | Some old \<Rightarrow>
          (let expected = (case po_expectedOccurrences oper of None \<Rightarrow> 1 | Some n \<Rightarrow> n); actual = countOccurrences before old
           in if int actual \<noteq> expected
              then Inl (PlainError (path @ '': found '' @ show_nat actual @ '' occurrences of oldText, expected '' @ show_int expected @
                ''. No files were changed.''))
              else Inr (join_with (po_newText oper) (split_text old before))))"

fun build_snapshots :: "patch_env \<Rightarrow> string \<Rightarrow> PatchOperation list \<Rightarrow> string list \<Rightarrow> nat \<Rightarrow> (patch_manager, PatchFileSnapshot list) act" where
  "build_snapshots env root [] seen used = retA []"
| "build_snapshots env root (oper # rest) seen used =
     bindA (validateP env (po_path oper) root) (\<lambda>absolute. \<lambda>s.
       (let path = relative (pv_cwd env) root absolute;
            before = (case px_disk s absolute of None \<Rightarrow> [] | Some t \<Rightarrow> t)
        in if absolute \<in> set seen then throwA (PlainError (''Duplicate patch path: '' @ po_path oper)) s
           else bindA (liftR (patched_text path oper before)) (\<lambda>after.
             let b = byte_length before; a = byte_length after
             in if b > MAX_PATCH_FILE_BYTES \<or> a > MAX_PATCH_FILE_BYTES
                then throwA (PlainError (path @ '': patch files are limited to 256000 bytes each.''))
                else if used + (b + a) > MAX_PATCH_TOTAL_BYTES
                then throwA (PlainError ''Patch transaction exceeds the 2000000-byte snapshot budget.'')
                else bindA (build_snapshots env root rest (absolute # seen) (used + (b + a))) (\<lambda>fs.
                  retA (\<lparr>ps_path = path, ps_absolutePath = absolute, ps_existed = (px_disk s absolute \<noteq> None), ps_before = before,
                    ps_after = after, ps_diff = boundedDiff before after path\<rparr> # fs))) s))"

definition buildPatchSnapshots :: "patch_env \<Rightarrow> string \<Rightarrow> PatchOperation list \<Rightarrow> (patch_manager, PatchFileSnapshot list) act" where
  "buildPatchSnapshots env root opers = build_snapshots env root opers [] 0"

text \<open>The actions of the tool.\<close>

datatype patch_action = PatchStatus string | PatchRollback string bool | PatchApply string bool | PatchApplyNow "PatchOperation list" bool
  | PatchPreview "PatchOperation list"

definition patchTransaction :: "patch_env \<Rightarrow> string \<Rightarrow> patch_action \<Rightarrow> (patch_manager, PatchTransactionView) act" where
  "patchTransaction env root action = bindA
     (case action of
        PatchStatus i \<Rightarrow> if i = [] then throwA (PlainError ''transactionId is required for status.'') else require env i
      | PatchRollback i force \<Rightarrow> if i = [] then throwA (PlainError ''transactionId is required for rollback.'') else rollback_tx env i force
      | PatchApply i force \<Rightarrow> apply_tx env i force
      | PatchApplyNow opers force \<Rightarrow> bindA (buildPatchSnapshots env root opers) (\<lambda>files.
          bindA (create_tx env root files) (\<lambda>tx. apply_tx env (pt_id tx) force))
      | PatchPreview opers \<Rightarrow> bindA (buildPatchSnapshots env root opers) (create_tx env root)) (\<lambda>tx. retA (view_tx tx))"

datatype patch_input = PtCall string patch_action | PtOutside "string \<Rightarrow> string option"

fun patch_exec :: "patch_env \<Rightarrow> patch_input \<Rightarrow> patch_manager \<Rightarrow> patch_manager" where
  "patch_exec env (PtCall root action) s = snd (patchTransaction env root action s)"
| "patch_exec env (PtOutside disk) s = s\<lparr>px_disk := disk\<rparr>"

definition new_patch_manager :: "(string \<Rightarrow> string option) \<Rightarrow> patch_manager" where
  "new_patch_manager disk = \<lparr>px_transactions = [], px_disk = disk, px_checks = 0, px_reads = 0, px_draws = 0, px_ios = 0\<rparr>"

section \<open>What the operations change\<close>

lemma validate_frame [simp]:
  "px_disk (snd (validateP env p r s)) = px_disk s" "px_transactions (snd (validateP env p r s)) = px_transactions s"
  by (simp_all add: validateP_def)

lemma validatedD:
  assumes "validatedAbsolutePath env tx f s = (r, s')"
  shows "px_disk s' = px_disk s" "px_transactions s' = px_transactions s" "\<And>p. r = Inr p \<Longrightarrow> p = ps_absolutePath f"
    "\<And>e. r = Inl e \<Longrightarrow> (\<exists>n p root. pv_validate env n p root = Inl e) \<or> e = PlainError (''Patch path changed after preview: '' @ ps_path f)"
  using assms by (auto simp: validatedAbsolutePath_def validateP_def act_defs split: sum.splits if_splits)

lemma validated_InrD: "validatedAbsolutePath env tx f s = (Inr p, s') \<Longrightarrow>
    p = ps_absolutePath f \<and> px_disk s' = px_disk s \<and> px_transactions s' = px_transactions s"
  using validatedD [of env tx f s "Inr p" s'] by simp

lemma mkdirD: "mkdirP env s = (r, s') \<Longrightarrow> px_disk s' = px_disk s \<and> px_transactions s' = px_transactions s \<and> (\<forall>e. r = Inl e \<longrightarrow> e = io_failed)"
  by (auto simp: mkdirP_def split: if_splits)

definition no_tearing :: "patch_env \<Rightarrow> bool" where
  "no_tearing env \<longleftrightarrow> (\<forall>n c. pv_io env n \<noteq> IoTorn c)"

lemma writeD:
  assumes "writeP env p t s = (r, s')"
  shows "px_transactions s' = px_transactions s" "r = Inr () \<Longrightarrow> px_disk s' = (px_disk s)(p \<mapsto> t)"
    "\<And>e. r = Inl e \<Longrightarrow> e = io_failed \<and> (\<exists>left. px_disk s' = (px_disk s)(p := left)) \<and> (no_tearing env \<longrightarrow> px_disk s' = px_disk s)"
  using assms by (auto simp: writeP_def Let_def no_tearing_def intro: exI [of _ "px_disk s p"] split: io_outcome.splits)

lemma removeD:
  assumes "removeP env p s = (r, s')"
  shows "px_transactions s' = px_transactions s" "r = Inr () \<Longrightarrow> px_disk s' = (px_disk s)(p := None)"
    "\<And>e. r = Inl e \<Longrightarrow> e = io_failed \<and> px_disk s' = px_disk s"
  using assms by (auto simp: removeP_def Let_def split: if_splits)

lemma frames:
  "px_transactions (snd (validatedAbsolutePath env tx f s)) = px_transactions s"
  "px_transactions (snd (mkdirP env s)) = px_transactions s"
  "px_transactions (snd (writeP env p t s)) = px_transactions s"
  "px_transactions (snd (removeP env p s)) = px_transactions s"
  using validatedD(2) mkdirD writeD(1) removeD(1) by (metis prod.collapse)+

text \<open>What went wrong when an operation on a file throws.\<close>

definition file_error :: "patch_env \<Rightarrow> ff_error \<Rightarrow> bool" where
  "file_error env e \<longleftrightarrow> e = io_failed \<or> (\<exists>n p root. pv_validate env n p root = Inl e) \<or>
     (\<exists>path. e = PlainError (''Patch path changed after preview: '' @ path))"

text \<open>An operation that gives the file of a snapshot the text \<open>goal f\<close>, or fails, leaving at most that file changed.\<close>

locale file_writer =
  fixes oper :: "PatchFileSnapshot \<Rightarrow> (patch_manager, unit) act"
    and goal :: "PatchFileSnapshot \<Rightarrow> string option"
    and error :: "ff_error \<Rightarrow> bool"
    and exact :: bool
  assumes oper_done: "oper f s = (Inr (), s') \<Longrightarrow> px_disk s' = (px_disk s)(ps_absolutePath f := goal f)"
    and oper_failed: "oper f s = (Inl e, s') \<Longrightarrow> error e \<and> (\<exists>left. px_disk s' = (px_disk s)(ps_absolutePath f := left)) \<and>
      (exact \<longrightarrow> px_disk s' = px_disk s)"
    and oper_frame: "px_transactions (snd (oper f s)) = px_transactions s"
begin

definition put_all :: "PatchFileSnapshot list \<Rightarrow> (string \<Rightarrow> string option) \<Rightarrow> string \<Rightarrow> string option" where
  "put_all fs d = foldl (\<lambda>d f. d(ps_absolutePath f := goal f)) d fs"

lemma put_all_other: "p \<notin> ps_absolutePath ` set fs \<Longrightarrow> put_all fs d p = d p"
  unfolding put_all_def by (induction fs arbitrary: d) auto

lemma put_all_file: "distinct (map ps_absolutePath fs) \<Longrightarrow> f \<in> set fs \<Longrightarrow> put_all fs d (ps_absolutePath f) = goal f"
proof (induction fs arbitrary: d)
  case (Cons g fs)
  then show ?case using put_all_other [of "ps_absolutePath g" fs "d(ps_absolutePath g := goal g)"]
    by (auto simp: put_all_def)
qed simp

lemma each_file_frame: "each_file oper fs ch s = (x, ch', s') \<Longrightarrow> px_transactions s' = px_transactions s"
proof (induction fs arbitrary: ch s)
  case (Cons f fs)
  then show ?case using oper_frame [of f s] by (cases "oper f s"; cases "fst (oper f s)") auto
qed simp

lemma each_file_done: "each_file oper fs ch s = (None, ch', s') \<Longrightarrow> px_disk s' = put_all fs (px_disk s)"
proof (induction fs arbitrary: ch s)
  case (Cons f fs)
  then show ?case using oper_done [of f s] by (cases "oper f s"; cases "fst (oper f s)") (auto simp: put_all_def)
qed (simp add: put_all_def)

lemma each_file_failed:
  "each_file oper fs ch s = (Some e, ch', s') \<Longrightarrow>
    \<exists>prior f rest left. fs = prior @ f # rest \<and> ch' = rev prior @ ch \<and> error e \<and>
      px_disk s' = (put_all prior (px_disk s))(ps_absolutePath f := left) \<and> (exact \<longrightarrow> px_disk s' = put_all prior (px_disk s))"
proof (induction fs arbitrary: ch s)
  case (Cons f fs)
  show ?case
  proof (cases "oper f s")
    case (Pair r s1)
    show ?thesis
    proof (cases r)
      case (Inl e')
      with Cons.prems Pair have "e' = e" "ch' = ch" "s1 = s'" by auto
      with oper_failed [of f s e' s1] Pair Inl obtain left where "error e"
        "px_disk s' = (px_disk s)(ps_absolutePath f := left)" "exact \<longrightarrow> px_disk s' = px_disk s" by auto
      with \<open>ch' = ch\<close> show ?thesis
        by - (rule exI [of _ "[]"], rule exI [of _ f], rule exI [of _ fs], rule exI [of _ left], simp add: put_all_def)
    next
      case (Inr u)
      with Cons.prems Pair have "each_file oper fs (f # ch) s1 = (Some e, ch', s')" by simp
      from Cons.IH [OF this] obtain prior g rest left where
        "fs = prior @ g # rest" "ch' = rev prior @ f # ch" "error e"
        "px_disk s' = (put_all prior (px_disk s1))(ps_absolutePath g := left)" "exact \<longrightarrow> px_disk s' = put_all prior (px_disk s1)"
        by blast
      moreover have "px_disk s1 = (px_disk s)(ps_absolutePath f := goal f)" using oper_done Pair Inr by simp
      ultimately show ?thesis
        by - (rule exI [of _ "f # prior"], rule exI [of _ g], rule exI [of _ rest], rule exI [of _ left], simp add: put_all_def)
    qed
  qed
qed simp

lemma forA_done: "forA oper fs s = (Inr u, s') \<Longrightarrow> px_disk s' = put_all fs (px_disk s)"
proof (induction fs arbitrary: s)
  case (Cons f fs)
  then show ?case using oper_done [of f s] by (cases "oper f s"; cases "fst (oper f s)") (auto simp: put_all_def)
qed (simp add: put_all_def)

lemma forA_error: "forA oper fs s = (Inl e, s') \<Longrightarrow> error e"
proof (induction fs arbitrary: s)
  case (Cons f fs)
  then show ?case using oper_failed [of f s] by (cases "oper f s"; cases "fst (oper f s)") auto
qed simp

lemma forA_frame: "px_transactions (snd (forA oper fs s)) = px_transactions s"
  using forA_keeps [of fs "\<lambda>t. px_transactions t = px_transactions s" oper s] oper_frame by simp

end

interpretation writer: file_writer "write_after env tx" "expected_text Applied" "file_error env" "no_tearing env" for env tx
proof
  fix f s s'
  assume "write_after env tx f s = (Inr (), s')"
  then show "px_disk s' = (px_disk s)(ps_absolutePath f := expected_text Applied f)"
    by (auto simp: write_after_def expected_text_def elim!: bindA_InrE dest!: validated_InrD mkdirD writeD(2))
next
  fix f s e s'
  assume w: "write_after env tx f s = (Inl e, s')"
  obtain r1 s1 where 1: "validatedAbsolutePath env tx f s = (r1, s1)" by (cases "validatedAbsolutePath env tx f s")
  obtain r2 s2 where 2: "mkdirP env s1 = (r2, s2)" by (cases "mkdirP env s1")
  obtain r3 s3 where 3: "validatedAbsolutePath env tx f s2 = (r3, s3)" by (cases "validatedAbsolutePath env tx f s2")
  note d = validatedD [OF 1] mkdirD [OF 2] validatedD [OF 3]
  consider "r1 = Inl e" "s' = s1" | "r2 = Inl e" "s' = s2" | "r3 = Inl e" "s' = s3" | p where "r3 = Inr p" "writeP env p (ps_after f) s3 = (Inl e, s')"
    using w 1 2 3 by (auto simp: write_after_def bindA_def split: sum.splits)
  then show "file_error env e \<and> (\<exists>left. px_disk s' = (px_disk s)(ps_absolutePath f := left)) \<and> (no_tearing env \<longrightarrow> px_disk s' = px_disk s)"
  proof cases
    case 4
    with writeD(3) [OF 4(2), of e] d show ?thesis by (auto simp: file_error_def)
  qed (use d in \<open>auto simp: file_error_def intro: exI [of _ "px_disk s (ps_absolutePath f)"]\<close>)
next
  fix f s
  show "px_transactions (snd (write_after env tx f s)) = px_transactions s"
    unfolding write_after_def
    by (intro bindA_keeps [where P = "\<lambda>t. px_transactions t = px_transactions s"])
      (metis prod.collapse validatedD(2) mkdirD writeD(1))+
qed

interpretation restorer: file_writer "restoreBefore env tx" "expected_text Previewed" "file_error env" "no_tearing env" for env tx
proof
  fix f s s'
  assume "restoreBefore env tx f s = (Inr (), s')"
  then show "px_disk s' = (px_disk s)(ps_absolutePath f := expected_text Previewed f)"
    by (auto simp: restoreBefore_def expected_text_def fun_upd_idem elim!: bindA_InrE dest!: validated_InrD mkdirD writeD(2) removeD(2) split: if_splits)
next
  fix f s e s'
  assume w: "restoreBefore env tx f s = (Inl e, s')"
  obtain r1 s1 where 1: "validatedAbsolutePath env tx f s = (r1, s1)" by (cases "validatedAbsolutePath env tx f s")
  obtain r2 s2 where 2: "mkdirP env s1 = (r2, s2)" by (cases "mkdirP env s1")
  obtain r3 s3 where 3: "validatedAbsolutePath env tx f s2 = (r3, s3)" by (cases "validatedAbsolutePath env tx f s2")
  note d = validatedD [OF 1] mkdirD [OF 2] validatedD [OF 3]
  consider "r1 = Inl e" "s' = s1" | "r2 = Inl e" "s' = s2" | "r3 = Inl e" "s' = s3"
    | p where "r3 = Inr p" "writeP env p (ps_before f) s3 = (Inl e, s')" | p where "r1 = Inr p" "removeP env p s1 = (Inl e, s')"
    using w 1 2 3 by (auto simp: restoreBefore_def bindA_def split: sum.splits if_splits)
  then show "file_error env e \<and> (\<exists>left. px_disk s' = (px_disk s)(ps_absolutePath f := left)) \<and> (no_tearing env \<longrightarrow> px_disk s' = px_disk s)"
  proof cases
    case 4
    with writeD(3) [OF 4(2), of e] d show ?thesis by (auto simp: file_error_def)
  next
    case 5
    with removeD(3) [OF 5(2), of e] d show ?thesis
      by (auto simp: file_error_def intro: exI [of _ "px_disk s (ps_absolutePath f)"])
  qed (use d in \<open>auto simp: file_error_def intro: exI [of _ "px_disk s (ps_absolutePath f)"]\<close>)
next
  fix f s
  have chain: "px_transactions (snd (bindA (mkdirP env) (\<lambda>_. bindA (validatedAbsolutePath env tx f) (\<lambda>p. writeP env p (ps_before f))) t)) =
      px_transactions t" for t
    by (intro bindA_keeps [where P = "\<lambda>u. px_transactions u = px_transactions t"]) (simp_all add: frames)
  obtain q t where q: "validatedAbsolutePath env tx f s = (q, t)" by (cases "validatedAbsolutePath env tx f s")
  then have "px_transactions t = px_transactions s" using frames(1) [of env tx f s] by simp
  with q chain [of t] frames(4) [of env _ t] show "px_transactions (snd (restoreBefore env tx f s)) = px_transactions s"
    by (cases q) (simp_all add: restoreBefore_def bindA_def [of "validatedAbsolutePath env tx f"])
qed

section \<open>Applying and rolling back\<close>

lemma nowP_eq: "nowP env s = (Inr (pv_now env (px_reads s)), s\<lparr>px_reads := Suc (px_reads s)\<rparr>)"
  by (simp add: nowP_def)

lemma prune_eq: "prune env s = (Inr (), s\<lparr>px_reads := Suc (px_reads s), px_transactions :=
    filter (\<lambda>tx. pv_now env (px_reads s) - TRANSACTION_TTL_MS \<le> pt_updatedAt tx) (px_transactions s)\<rparr>)"
  by (simp add: prune_def nowP_def bindA_def modifyA_def)

lemma requireD:
  assumes "require env i s = (r, s')"
  obtains k where "px_transactions s' = filter k (px_transactions s)" "px_disk s' = px_disk s"
    "\<And>tx. r = Inr tx \<Longrightarrow> find_tx i s' = Some tx"
  using assms by (auto simp: require_def bindA_def prune_eq split: option.splits)

lemma conflictsD:
  "conflicts env tx st force fs s = (r, s') \<Longrightarrow> px_disk s' = px_disk s \<and> px_transactions s' = px_transactions s \<and>
    (\<forall>cs. r = Inr cs \<longrightarrow> \<not> force \<longrightarrow> cs = [] \<longrightarrow> (\<forall>f \<in> set fs. px_disk s (ps_absolutePath f) = expected_text st f))"
proof (induction fs arbitrary: s r s')
  case (Cons f fs)
  obtain q t where q: "validatedAbsolutePath env tx f s = (q, t)" by (cases "validatedAbsolutePath env tx f s")
  note v = validatedD [OF q]
  show ?case
  proof (cases q)
    case (Inl e)
    with Cons.prems q v show ?thesis by (auto simp: bindA_def)
  next
    case (Inr p)
    obtain q' t' where q': "conflicts env tx st force fs t = (q', t')" by (cases "conflicts env tx st force fs t")
    from Cons.IH [OF q'] Cons.prems q q' Inr v show ?thesis
      by (cases q') (auto simp: bindA_def retA_def Let_def split: if_splits)
  qed
qed (simp add: retA_def)

lemma assertD:
  assumes "assertCurrentMatches env tx st force s = (r, s')"
  shows "px_disk s' = px_disk s" "px_transactions s' = px_transactions s"
    "r = Inr () \<Longrightarrow> \<not> force \<Longrightarrow> f \<in> set (pt_files tx) \<Longrightarrow> px_disk s (ps_absolutePath f) = expected_text st f"
proof -
  obtain q t where q: "conflicts env tx st force (pt_files tx) s = (q, t)" by (cases "conflicts env tx st force (pt_files tx) s")
  note c = conflictsD [OF q]
  show "px_disk s' = px_disk s" "px_transactions s' = px_transactions s"
    "r = Inr () \<Longrightarrow> \<not> force \<Longrightarrow> f \<in> set (pt_files tx) \<Longrightarrow> px_disk s (ps_absolutePath f) = expected_text st f"
    using assms c q by (cases q; auto simp: assertCurrentMatches_def bindA_def act_defs split: if_splits)+
qed

lemma set_tx_stateD:
  assumes "set_tx_state env tx st s = (r, s')"
  obtains now where "r = Inr (tx\<lparr>pt_state := st, pt_updatedAt := now\<rparr>)" "px_disk s' = px_disk s"
    "px_transactions s' = update_first (\<lambda>t. pt_id t = pt_id tx) (\<lambda>_. tx\<lparr>pt_state := st, pt_updatedAt := now\<rparr>) (px_transactions s)"
  using assms by (auto simp: set_tx_state_def nowP_def bindA_def act_defs Let_def)

text \<open>The shape of both operations: from state \<open>st\<close> to \<open>st'\<close> by \<open>oper\<close> on every file, undone by \<open>undo\<close>.\<close>

lemma tx_cases:
  assumes run: "bindA (require env i) (\<lambda>tx.
     if pt_state tx \<noteq> st then throwA (refusal tx)
     else bindA (assertCurrentMatches env tx st force) (\<lambda>_. \<lambda>s.
       (case each_file (oper tx) (pt_files tx) [] s of
          (None, _, s') \<Rightarrow> set_tx_state env tx st' s'
        | (Some e, changed, s') \<Rightarrow> bindA (forA (undo tx) changed) (\<lambda>_. throwA (failure e)) s'))) s = (r, s')"
    and oper: "\<And>tx. file_writer (oper tx) new (file_error env) exact"
    and undo: "\<And>tx. file_writer (undo tx) old (file_error env) exact"
  obtains (refused) e k where "r = Inl e" "px_disk s' = px_disk s" "px_transactions s' = filter k (px_transactions s)"
  | (changed) tx now k where "r = Inr (tx\<lparr>pt_state := st', pt_updatedAt := now\<rparr>)" "pt_state tx = st"
      "find (\<lambda>t. pt_id t = i) (filter k (px_transactions s)) = Some tx"
      "px_transactions s' = update_first (\<lambda>t. pt_id t = pt_id tx) (\<lambda>_. tx\<lparr>pt_state := st', pt_updatedAt := now\<rparr>) (filter k (px_transactions s))"
      "px_disk s' = file_writer.put_all new (pt_files tx) (px_disk s)"
      "\<And>f. \<not> force \<Longrightarrow> f \<in> set (pt_files tx) \<Longrightarrow> px_disk s (ps_absolutePath f) = expected_text st f"
  | (undone) tx k prior f rest left e where "r = Inl (failure e)" "pt_state tx = st"
      "find (\<lambda>t. pt_id t = i) (filter k (px_transactions s)) = Some tx" "px_transactions s' = filter k (px_transactions s)"
      "pt_files tx = prior @ f # rest"
      "px_disk s' = file_writer.put_all old (rev prior)
         ((file_writer.put_all new prior (px_disk s))(ps_absolutePath f := left))"
      "exact \<Longrightarrow> left = file_writer.put_all new prior (px_disk s) (ps_absolutePath f)"
      "\<And>f. \<not> force \<Longrightarrow> f \<in> set (pt_files tx) \<Longrightarrow> px_disk s (ps_absolutePath f) = expected_text st f"
  | (stuck) e k where "r = Inl e" "file_error env e" "px_transactions s' = filter k (px_transactions s)"
proof -
  obtain q1 s1 where q1: "require env i s = (q1, s1)" by (cases "require env i s")
  obtain k where k: "px_transactions s1 = filter k (px_transactions s)" "px_disk s1 = px_disk s" "\<And>tx. q1 = Inr tx \<Longrightarrow> find_tx i s1 = Some tx"
    using requireD [OF q1] by blast
  show ?thesis
  proof (cases q1)
    case (Inl e)
    with run q1 have "r = Inl e" "s' = s1" by (simp_all add: bindA_def)
    with refused k show ?thesis by blast
  next
    case (Inr tx)
    have found: "find (\<lambda>t. pt_id t = i) (filter k (px_transactions s)) = Some tx" using k Inr by (simp add: find_tx_def)
    show ?thesis
    proof (cases "pt_state tx = st")
      case False
      with run q1 Inr have "r = Inl (refusal tx)" "s' = s1" by (simp_all add: bindA_def throwA_def)
      with refused k show ?thesis by blast
    next
      case st: True
      obtain q2 s2 where q2: "assertCurrentMatches env tx st force s1 = (q2, s2)" by (cases "assertCurrentMatches env tx st force s1")
      note a = assertD [OF q2]
      show ?thesis
      proof (cases q2)
        case (Inl e)
        with run q1 q2 Inr st have "r = Inl e" "s' = s2" by (simp_all add: bindA_def)
        with refused k a show ?thesis by metis
      next
        case (Inr u)
        have clean: "px_disk s (ps_absolutePath f) = expected_text st f" if "\<not> force" "f \<in> set (pt_files tx)" for f
          using a(3) [OF _ that] Inr k(2) by simp
        obtain x ch s3 where each: "each_file (oper tx) (pt_files tx) [] s2 = (x, ch, s3)"
          by (cases "each_file (oper tx) (pt_files tx) [] s2") auto
        have run': "(case x of None \<Rightarrow> set_tx_state env tx st' s3
            | Some e \<Rightarrow> bindA (forA (undo tx) ch) (\<lambda>_. throwA (failure e)) s3) = (r, s')"
          using run q1 q2 \<open>q1 = Inr tx\<close> Inr st each by (cases x) (simp_all add: bindA_def)
        have frame: "px_transactions s3 = filter k (px_transactions s)" "px_disk s2 = px_disk s"
          using file_writer.each_file_frame [OF oper each] a k by simp_all
        show ?thesis
        proof (cases x)
          case None
          with run' have "set_tx_state env tx st' s3 = (r, s')" by simp
          then obtain now where "r = Inr (tx\<lparr>pt_state := st', pt_updatedAt := now\<rparr>)" "px_disk s' = px_disk s3"
            "px_transactions s' = update_first (\<lambda>t. pt_id t = pt_id tx) (\<lambda>_. tx\<lparr>pt_state := st', pt_updatedAt := now\<rparr>) (px_transactions s3)"
            using set_tx_stateD by blast
          with changed [OF _ st found] file_writer.each_file_done [OF oper each [unfolded None]] frame clean show ?thesis by simp
        next
          case (Some e)
          obtain prior f rest left where p: "pt_files tx = prior @ f # rest" "ch = rev prior"
            "px_disk s3 = (file_writer.put_all new prior (px_disk s))(ps_absolutePath f := left)"
            "exact \<longrightarrow> px_disk s3 = file_writer.put_all new prior (px_disk s)"
            using file_writer.each_file_failed [OF oper each [unfolded Some]] frame(2) by auto
          obtain y s4 where y: "forA (undo tx) ch s3 = (y, s4)" by (cases "forA (undo tx) ch s3")
          have tx4: "px_transactions s4 = filter k (px_transactions s)"
            using file_writer.forA_frame [OF undo, of tx ch s3] y frame(1) by simp
          show ?thesis
          proof (cases y)
            case (Inl e')
            with run' Some y have "r = Inl e'" "s' = s4" by (simp_all add: bindA_def)
            with stuck file_writer.forA_error [OF undo y [unfolded Inl]] tx4 show ?thesis by blast
          next
            case (Inr u)
            with run' Some y have r: "r = Inl (failure e)" "s' = s4" by (simp_all add: bindA_def throwA_def)
            have "px_disk s' = file_writer.put_all old (rev prior)
                ((file_writer.put_all new prior (px_disk s))(ps_absolutePath f := left))"
              using file_writer.forA_done [OF undo y [unfolded Inr]] p(2,3) r(2) by simp
            moreover have "left = file_writer.put_all new prior (px_disk s) (ps_absolutePath f)" if exact
              using p(3,4) that by (metis fun_upd_same)
            ultimately show ?thesis using undone [OF r(1) st found _ p(1)] tx4 r(2) clean by simp
          qed
        qed
      qed
    qed
  qed
qed

lemma undo_all:
  assumes "distinct (map ps_absolutePath (prior @ f # rest))" "q \<noteq> ps_absolutePath f"
    "\<And>g. g \<in> set prior \<Longrightarrow> d (ps_absolutePath g) = expected_text Previewed g"
  shows "restorer.put_all (rev prior) ((writer.put_all prior d)(ps_absolutePath f := left)) q = d q"
proof (cases "q \<in> ps_absolutePath ` set prior")
  case True
  then obtain g where g: "g \<in> set prior" "q = ps_absolutePath g" by blast
  have "distinct (map ps_absolutePath (rev prior))" using assms(1) by (simp add: rev_map [symmetric])
  with restorer.put_all_file [OF this, of g] g assms(3) show ?thesis by simp
next
  case False
  with assms(2) show ?thesis by (simp add: restorer.put_all_other writer.put_all_other)
qed

lemma undo_every:
  assumes "distinct (map ps_absolutePath fs)" "\<And>g. g \<in> set fs \<Longrightarrow> d (ps_absolutePath g) = expected_text Previewed g"
  shows "restorer.put_all fs (writer.put_all fs d) = d"
proof
  fix q
  show "restorer.put_all fs (writer.put_all fs d) q = d q"
    using restorer.put_all_file [OF assms(1)] assms(2) restorer.put_all_other [of q fs] writer.put_all_other [of q fs]
    by (cases "q \<in> ps_absolutePath ` set fs") auto
qed

section \<open>The invariant\<close>

definition txs_ok :: "PatchTransaction list \<Rightarrow> bool" where
  "txs_ok txs \<longleftrightarrow> distinct (map pt_id txs) \<and> (\<forall>tx \<in> set txs. distinct (map ps_absolutePath (pt_files tx)))"

definition manager_ok :: "patch_manager \<Rightarrow> bool" where
  "manager_ok s \<longleftrightarrow> txs_ok (px_transactions s) \<and> length (px_transactions s) \<le> MAX_TRANSACTIONS"

lemma txs_ok_filter: "txs_ok txs \<Longrightarrow> txs_ok (filter k txs)"
  by (auto simp: txs_ok_def intro: distinct_map_filter)

lemma manager_ok_filter: "manager_ok s \<Longrightarrow> px_transactions s' = filter k (px_transactions s) \<Longrightarrow> manager_ok s'"
  by (auto simp: manager_ok_def txs_ok_filter intro: le_trans [OF length_filter_le])

lemma txs_ok_update:
  assumes "txs_ok txs" "pt_id tx' = i" "distinct (map ps_absolutePath (pt_files tx'))"
  shows "txs_ok (update_first (\<lambda>t. pt_id t = i) (\<lambda>_. tx') txs)"
  using assms by (auto simp: txs_ok_def map_update_first dest!: set_update_firstD)

lemma manager_ok_same: "manager_ok s \<Longrightarrow> px_transactions s' = px_transactions s \<Longrightarrow> manager_ok s'"
  by (simp add: manager_ok_def)

lemma find_filter_distinct:
  assumes "distinct (map g xs)" "find (\<lambda>t. g t = i) (filter k xs) = Some x"
  shows "find (\<lambda>t. g t = i) xs = Some x"
  using find_SomeD [OF assms(2)] find_key_unique [OF assms(1), of x] by auto

lemma require_ok: "manager_ok s \<Longrightarrow> manager_ok (snd (require env i s))"
  using requireD [of env i s "fst (require env i s)" "snd (require env i s)"] manager_ok_filter by (metis prod.collapse)

lemma tx_update_ok:
  assumes "manager_ok s" "find (\<lambda>t. pt_id t = i) (filter k (px_transactions s)) = Some tx"
    "px_transactions s' = update_first (\<lambda>t. pt_id t = pt_id tx) (\<lambda>_. tx\<lparr>pt_state := st, pt_updatedAt := now\<rparr>) (filter k (px_transactions s))"
  shows "manager_ok s'"
proof -
  have tx: "tx \<in> set (px_transactions s)" using find_SomeD [OF assms(2)] by auto
  then have d: "distinct (map ps_absolutePath (pt_files tx))" using assms(1) by (auto simp: manager_ok_def txs_ok_def)
  have "txs_ok (filter k (px_transactions s))" using assms(1) by (simp add: manager_ok_def txs_ok_filter)
  from txs_ok_update [OF this, of "tx\<lparr>pt_state := st, pt_updatedAt := now\<rparr>" "pt_id tx"] d
  show ?thesis using assms(1,3) by (simp add: manager_ok_def) (meson le_trans length_filter_le)
qed

lemma apply_ok: "manager_ok s \<Longrightarrow> manager_ok (snd (apply_tx env i force s))"
proof (cases "apply_tx env i force s")
  case (Pair r s')
  assume ok: "manager_ok s"
  from Pair [unfolded apply_tx_def] show ?thesis
  proof (cases rule: tx_cases [OF _ writer.file_writer_axioms restorer.file_writer_axioms, consumes 1, case_names refused changed undone stuck])
    case (changed tx now k)
    from tx_update_ok [OF ok changed(3,4)] Pair show ?thesis by simp
  qed (use Pair ok in \<open>simp_all add: manager_ok_filter\<close>)
qed

lemma rollback_ok: "manager_ok s \<Longrightarrow> manager_ok (snd (rollback_tx env i force s))"
proof (cases "rollback_tx env i force s")
  case (Pair r s')
  assume ok: "manager_ok s"
  from Pair [unfolded rollback_tx_def] show ?thesis
  proof (cases rule: tx_cases [OF _ restorer.file_writer_axioms writer.file_writer_axioms, consumes 1, case_names refused changed undone stuck])
    case (changed tx now k)
    from tx_update_ok [OF ok changed(3,4)] Pair show ?thesis by simp
  qed (use Pair ok in \<open>simp_all add: manager_ok_filter\<close>)
qed

lemma build_snapshotsD:
  "build_snapshots env root opers seen used s = (r, s') \<Longrightarrow> px_disk s' = px_disk s \<and> px_transactions s' = px_transactions s \<and>
    (\<forall>fs. r = Inr fs \<longrightarrow> distinct (map ps_absolutePath fs) \<and> ps_absolutePath ` set fs \<inter> set seen = {} \<and>
      (\<forall>f \<in> set fs. px_disk s (ps_absolutePath f) = expected_text Previewed f))"
proof (induction opers arbitrary: seen used s r s')
  case (Cons oper rest)
  obtain q t where q: "validateP env (po_path oper) root s = (q, t)" by (cases "validateP env (po_path oper) root s")
  have frame: "px_disk t = px_disk s" "px_transactions t = px_transactions s" using q by (auto simp: validateP_def)
  show ?case
  proof (cases q)
    case (Inl e)
    with Cons.prems q frame show ?thesis by (auto simp: bindA_def)
  next
    case (Inr absolute)
    define path before where "path = relative (pv_cwd env) root absolute"
      and "before = (case px_disk t absolute of None \<Rightarrow> [] | Some x \<Rightarrow> x)"
    show ?thesis
    proof (cases "absolute \<in> set seen")
      case True
      with Cons.prems q Inr frame show ?thesis by (auto simp: bindA_def throwA_def Let_def)
    next
      case new: False
      show ?thesis
      proof (cases "patched_text path oper before")
        case (Inl e)
        with Cons.prems q \<open>q = Inr absolute\<close> new frame show ?thesis
          by (auto simp: bindA_def liftR_def Let_def path_def before_def)
      next
        case after: (Inr after)
        let ?n = "used + (byte_length before + byte_length after)"
        let ?f = "\<lparr>ps_path = path, ps_absolutePath = absolute, ps_existed = (px_disk t absolute \<noteq> None), ps_before = before,
          ps_after = after, ps_diff = boundedDiff before after path\<rparr>"
        obtain p u where p: "build_snapshots env root rest (absolute # seen) ?n t = (p, u)"
          by (cases "build_snapshots env root rest (absolute # seen) ?n t")
        have "(\<exists>e. r = Inl e \<and> s' = t) \<or> (\<exists>e. p = Inl e \<and> r = Inl e \<and> s' = u) \<or> (\<exists>fs. p = Inr fs \<and> r = Inr (?f # fs) \<and> s' = u)"
          using Cons.prems q \<open>q = Inr absolute\<close> new after p
          by (cases p) (auto simp: bindA_def act_defs Let_def path_def [symmetric] before_def [symmetric] split: if_splits)
        moreover have "px_disk t absolute = expected_text Previewed ?f"
          by (simp add: expected_text_def before_def split: option.split)
        ultimately show ?thesis using Cons.IH [OF p] frame new by (elim disjE exE conjE) auto
      qed
    qed
  qed
qed (simp add: retA_def)

lemma trimOldest_ok:
  assumes "txs_ok txs"
  shows "txs_ok (trimOldest txs)" "length (trimOldest txs) \<le> MAX_TRANSACTIONS"
proof -
  show "txs_ok (trimOldest txs)" using assms by (simp add: trimOldest_def Let_def txs_ok_filter)
  have d: "distinct (map pt_id txs)" using assms by (simp add: txs_ok_def)
  show "length (trimOldest txs) \<le> MAX_TRANSACTIONS"
  proof (cases "length txs \<le> MAX_TRANSACTIONS")
    case False
    define n old where "n = length txs - MAX_TRANSACTIONS" and "old = take n (sort_by (le_on pt_updatedAt) txs)"
    have sub: "set old \<subseteq> set txs" unfolding old_def by (metis set_sort_by set_take_subset)
    have inj: "inj_on pt_id (set txs)" using d by (simp add: distinct_map)
    have "distinct old" unfolding old_def using d by (simp add: distinct_map)
    then have card: "card (set old) = n" unfolding old_def n_def by (simp add: distinct_card)
    have "length (filter (\<lambda>tx. pt_id tx \<notin> pt_id ` set old) txs) = card (set (filter (\<lambda>tx. pt_id tx \<notin> pt_id ` set old) txs))"
      by (rule distinct_card [symmetric]) (use d in \<open>simp add: distinct_map\<close>)
    also have "set (filter (\<lambda>tx. pt_id tx \<notin> pt_id ` set old) txs) = set txs - set old"
      using inj sub by (auto simp: inj_on_def)
    also have "card (set txs - set old) = length txs - n"
      using card sub d by (simp add: card_Diff_subset distinct_card distinct_map)
    finally show ?thesis using False by (simp add: trimOldest_def Let_def old_def n_def)
  qed (simp add: trimOldest_def)
qed

lemma put_tx_ok:
  assumes "txs_ok txs" "distinct (map ps_absolutePath (pt_files tx))"
  shows "txs_ok (put_tx tx txs)"
  using assms txs_ok_update [OF assms(1), of tx "pt_id tx"] by (auto simp: put_tx_def txs_ok_def)

lemma check_new_frame: "px_transactions (snd (check_new_files env root fs s)) = px_transactions s \<and> px_disk (snd (check_new_files env root fs s)) = px_disk s"
proof (induction fs arbitrary: s)
  case (Cons f fs)
  obtain q t where q: "validateP env (ps_path f) root s = (q, t)" by (cases "validateP env (ps_path f) root s")
  then have "px_transactions t = px_transactions s" "px_disk t = px_disk s" by (auto simp: validateP_def)
  with q Cons.IH [of t] show ?case by (cases q) (auto simp: bindA_def throwA_def)
qed (simp add: retA_def)

lemma create_tx_ok: "manager_ok s \<Longrightarrow> distinct (map ps_absolutePath fs) \<Longrightarrow> manager_ok (snd (create_tx env root fs s))"
  unfolding create_tx_def
proof (intro bindA_keeps [where P = manager_ok])
  fix u s1 now s2 v s3 u' s4
  assume ok: "manager_ok s4" and d: "distinct (map ps_absolutePath fs)"
  let ?tx = "\<lparr>pt_id = ''patch_'' @ take 12 u', pt_projectRoot = root, pt_createdAt = now, pt_updatedAt = now, pt_state = Previewed, pt_files = fs\<rparr>"
  have "txs_ok (put_tx ?tx (px_transactions s4))" using put_tx_ok [of "px_transactions s4" ?tx] ok d by (simp add: manager_ok_def)
  from trimOldest_ok [OF this] show "manager_ok (snd ((let tx = ?tx in bindA (modifyA (\<lambda>s. s\<lparr>px_transactions := trimOldest (put_tx tx (px_transactions s))\<rparr>)) (\<lambda>_. retA tx)) s4))"
    by (simp add: bindA_def act_defs manager_ok_def Let_def)
qed (auto simp: prune_eq nowP_def uuidP_def check_new_frame intro: manager_ok_filter manager_ok_same)

lemma patchTransaction_ok: "manager_ok s \<Longrightarrow> manager_ok (snd (patchTransaction env root action s))"
proof -
  assume ok: "manager_ok s"
  have build: "manager_ok t \<and> (\<forall>fs. r = Inr fs \<longrightarrow> distinct (map ps_absolutePath fs))" if "buildPatchSnapshots env root opers s = (r, t)" for opers r t
    using build_snapshotsD [OF that [unfolded buildPatchSnapshots_def]] ok by (auto intro: manager_ok_same)
  show ?thesis unfolding patchTransaction_def
  proof (intro bindA_keeps [where P = manager_ok])
    show "manager_ok (snd ((case action of
        PatchStatus i \<Rightarrow> if i = [] then throwA (PlainError ''transactionId is required for status.'') else require env i
      | PatchRollback i force \<Rightarrow> if i = [] then throwA (PlainError ''transactionId is required for rollback.'') else rollback_tx env i force
      | PatchApply i force \<Rightarrow> apply_tx env i force
      | PatchApplyNow opers force \<Rightarrow> bindA (buildPatchSnapshots env root opers) (\<lambda>files.
          bindA (create_tx env root files) (\<lambda>tx. apply_tx env (pt_id tx) force))
      | PatchPreview opers \<Rightarrow> bindA (buildPatchSnapshots env root opers) (create_tx env root)) s))"
    proof (cases action)
      case (PatchApplyNow opers force)
      show ?thesis unfolding PatchApplyNow patch_action.case
      proof (intro bindA_keeps [where P = manager_ok] apply_ok)
        show "manager_ok (snd (buildPatchSnapshots env root opers s))" by (metis build prod.collapse)
      next
        fix fs t
        assume "buildPatchSnapshots env root opers s = (Inr fs, t)" "manager_ok t"
        with build create_tx_ok show "manager_ok (snd (create_tx env root fs t))" by blast
      qed
    next
      case (PatchPreview opers)
      show ?thesis unfolding PatchPreview patch_action.case
      proof (rule bindA_keeps [where P = manager_ok])
        show "manager_ok (snd (buildPatchSnapshots env root opers s))" by (metis build prod.collapse)
      next
        fix fs t
        assume "buildPatchSnapshots env root opers s = (Inr fs, t)" "manager_ok t"
        with build create_tx_ok show "manager_ok (snd (create_tx env root fs t))" by blast
      qed
    qed (use ok in \<open>simp_all add: require_ok apply_ok rollback_ok throwA_def\<close>)
  qed (simp add: retA_def)
qed

definition patch_runs :: "patch_env \<Rightarrow> (string \<Rightarrow> string option) \<Rightarrow> patch_input list \<Rightarrow> patch_manager" where
  "patch_runs env disk xs = fold (patch_exec env) xs (new_patch_manager disk)"

interpretation patching: stateful "\<lambda>s. \<exists>disk. s = new_patch_manager disk" "patch_exec env" manager_ok for env
proof
  show "manager_ok s" if "\<exists>disk. s = new_patch_manager disk" for s
    using that by (auto simp: new_patch_manager_def manager_ok_def txs_ok_def)
  show "manager_ok (patch_exec env x s)" if "manager_ok s" for s x
    using that by (cases x) (simp_all add: patchTransaction_ok manager_ok_same)
qed

lemma patch_runs_ok: "manager_ok (patch_runs env disk xs)"
  unfolding patch_runs_def by (rule patching.inv_reachable) blast

section \<open>Properties\<close>

lemma manager_tx:
  assumes "manager_ok s" "find (\<lambda>t. pt_id t = i) (filter k (px_transactions s)) = Some tx"
  shows "find_tx i s = Some tx" "distinct (map ps_absolutePath (pt_files tx))"
proof -
  have ok: "distinct (map pt_id (px_transactions s))" "\<forall>t \<in> set (px_transactions s). distinct (map ps_absolutePath (pt_files t))"
    using assms(1) by (simp_all add: manager_ok_def txs_ok_def)
  show "find_tx i s = Some tx" unfolding find_tx_def by (rule find_filter_distinct [OF ok(1) assms(2)])
  show "distinct (map ps_absolutePath (pt_files tx))" using find_SomeD [OF assms(2)] ok(2) by auto
qed



text \<open>Claim C16. Newer changes are not overwritten. When any file of a transaction has changed since its preview, an apply without force
  throws and leaves every file as it is; when any has changed since the apply, so does a rollback without force.\<close>

theorem newer_changes_are_kept:
  assumes "find_tx i (patch_runs env disk xs) = Some tx" "f \<in> set (pt_files tx)"
    "px_disk (patch_runs env disk xs) (ps_absolutePath f) \<noteq> expected_text (pt_state tx) f"
    "pt_state tx = Previewed \<and> oper = apply_tx \<or> pt_state tx = Applied \<and> oper = rollback_tx"
    "oper env i False (patch_runs env disk xs) = (r, s')"
  shows "(\<exists>e. r = Inl e) \<and> px_disk s' = px_disk (patch_runs env disk xs)"
proof -
  note ok = patch_runs_ok [of env disk xs]
  have same: "t = tx" if "find (\<lambda>t. pt_id t = i) (filter k (px_transactions (patch_runs env disk xs))) = Some t" for k t
    using manager_tx(1) [OF ok that] assms(1) by simp
  have "(\<exists>e. r = Inl e) \<and> px_disk s' = px_disk (patch_runs env disk xs)"
    if shape: "bindA (require env i) (\<lambda>tx. if pt_state tx \<noteq> st then throwA (refusal tx)
       else bindA (assertCurrentMatches env tx st False) (g tx)) (patch_runs env disk xs) = (r, s')" and st: "pt_state tx = st"
    for st refusal and g :: "PatchTransaction \<Rightarrow> unit \<Rightarrow> (patch_manager, PatchTransaction) act"
  proof -
    obtain q1 s1 where q1: "require env i (patch_runs env disk xs) = (q1, s1)" by (cases "require env i (patch_runs env disk xs)")
    obtain k where k: "px_transactions s1 = filter k (px_transactions (patch_runs env disk xs))"
      "px_disk s1 = px_disk (patch_runs env disk xs)" "\<And>tx. q1 = Inr tx \<Longrightarrow> find_tx i s1 = Some tx"
      using requireD [OF q1] by blast
    show ?thesis
    proof (cases q1)
      case (Inr t)
      have "t = tx" using k(3) [OF Inr] k(1) same by (simp add: find_tx_def)
      obtain q2 s2 where q2: "assertCurrentMatches env tx st False s1 = (q2, s2)" by (cases "assertCurrentMatches env tx st False s1")
      have "q2 \<noteq> Inr ()" using assertD(3) [OF q2, of f] assms(2,3) k(2) st by auto
      then obtain e where "q2 = Inl e" by (cases q2) auto
      with shape q1 Inr \<open>t = tx\<close> st q2 assertD(1) [OF q2] k(2) show ?thesis by (auto simp: bindA_def)
    qed (use shape q1 k(2) in \<open>auto simp: bindA_def\<close>)
  qed
  note refuses = this
  from assms(4) show ?thesis
  proof
    assume c: "pt_state tx = Previewed \<and> oper = apply_tx"
    with assms(5) have "apply_tx env i False (patch_runs env disk xs) = (r, s')" by simp
    from refuses [OF this [unfolded apply_tx_def]] c show ?thesis by blast
  next
    assume c: "pt_state tx = Applied \<and> oper = rollback_tx"
    with assms(5) have "rollback_tx env i False (patch_runs env disk xs) = (r, s')" by simp
    from refuses [OF this [unfolded rollback_tx_def]] c show ?thesis by blast
  qed
qed

text \<open>The manager stays bounded: after any sequence of calls and outside changes it holds at most 50 transactions, with
  different ids, each over different files.\<close>

theorem patch_transactions_are_bounded:
  "length (px_transactions (patch_runs env disk xs)) \<le> 50 \<and> distinct (map pt_id (px_transactions (patch_runs env disk xs))) \<and>
   list_all (\<lambda>tx. distinct (map ps_absolutePath (pt_files tx))) (px_transactions (patch_runs env disk xs))"
  using patch_runs_ok [of env disk xs] by (simp add: manager_ok_def txs_ok_def MAX_TRANSACTIONS_def list_all_iff)

section \<open>A patch, evaluated\<close>

definition px_env :: "nat \<Rightarrow> patch_env" where
  "px_env bad = \<lparr>pv_validate = (\<lambda>n p root. Inr (root @ ''/'' @ p)), pv_cwd = ''/p'', pv_now = (\<lambda>n. int n), pv_uuid = (\<lambda>_. ''0''),
     pv_io = (\<lambda>n. if n = bad then IoFailed else IoDone)\<rparr>"

definition px_start :: "string \<Rightarrow> string option" where
  "px_start = Map.empty(''/p/a'' \<mapsto> ''x'')"

definition px_preview :: patch_input where
  "px_preview = PtCall ''/p'' (PatchPreview
     [\<lparr>po_path = ''a'', po_oldText = Some ''x'', po_newText = ''y'', po_expectedOccurrences = None\<rparr>,
      \<lparr>po_path = ''b'', po_oldText = None, po_newText = ''z'', po_expectedOccurrences = None\<rparr>])"

definition px_file :: "string \<Rightarrow> bool \<Rightarrow> string \<Rightarrow> string \<Rightarrow> PatchFileSnapshot" where
  "px_file p ex before after = \<lparr>ps_path = p, ps_absolutePath = ''/p/'' @ p, ps_existed = ex, ps_before = before, ps_after = after,
     ps_diff = boundedDiff before after p\<rparr>"

definition px_tx :: "PatchTransactionState \<Rightarrow> int \<Rightarrow> PatchTransaction" where
  "px_tx st t = \<lparr>pt_id = ''patch_0'', pt_projectRoot = ''/p'', pt_createdAt = 1, pt_updatedAt = t, pt_state = st,
     pt_files = [px_file ''a'' True ''x'' ''y'', px_file ''b'' False [] ''z'']\<rparr>"

lemma px_paths: "relative ''/p'' ''/p'' ''/p/a'' = ''a''" "relative ''/p'' ''/p'' ''/p/b'' = ''b''"
  by code_simp+

lemma px_texts: "patched_text p \<lparr>po_path = ''a'', po_oldText = Some ''x'', po_newText = ''y'', po_expectedOccurrences = None\<rparr> ''x'' = Inr ''y''"
  "patched_text p \<lparr>po_path = ''b'', po_oldText = None, po_newText = ''z'', po_expectedOccurrences = None\<rparr> t = Inr ''z''"
  by (simp_all add: patched_text_def countOccurrences_def split_text.simps)

lemma px_sizes: "byte_length ''x'' = 1" "byte_length ''y'' = 1" "byte_length ''z'' = 1" "byte_length [] = 0"
  by (simp_all add: byte_length_def char_code_def)

lemma px_env_simps: "pv_validate (px_env bad) n p r = Inr (r @ ''/'' @ p)" "pv_cwd (px_env bad) = ''/p''" "pv_now (px_env bad) n = int n"
    "pv_uuid (px_env bad) n = ''0''" "pv_io (px_env bad) n = (if n = bad then IoFailed else IoDone)"
  by (simp_all add: px_env_def)

lemma px_start_simps: "px_start ''/p/a'' = Some ''x''" "px_start ''/p/b'' = None"
  by (simp_all add: px_start_def)

lemma px_built:
  "buildPatchSnapshots (px_env bad) ''/p''
     [\<lparr>po_path = ''a'', po_oldText = Some ''x'', po_newText = ''y'', po_expectedOccurrences = None\<rparr>,
      \<lparr>po_path = ''b'', po_oldText = None, po_newText = ''z'', po_expectedOccurrences = None\<rparr>] (new_patch_manager px_start) =
   (Inr [px_file ''a'' True ''x'' ''y'', px_file ''b'' False [] ''z''], (new_patch_manager px_start)\<lparr>px_checks := 2\<rparr>)"
  by (simp add: buildPatchSnapshots_def bindA_def validateP_def px_env_simps act_defs Let_def px_paths px_texts px_sizes new_patch_manager_def
      MAX_PATCH_FILE_BYTES_def MAX_PATCH_TOTAL_BYTES_def px_start_simps px_file_def)

lemma px_created:
  "patch_runs (px_env bad) px_start [px_preview] =
    \<lparr>px_transactions = [px_tx Previewed 1], px_disk = px_start, px_checks = 4, px_reads = 2, px_draws = 1, px_ios = 0\<rparr>"
  by (simp add: patch_runs_def px_preview_def patchTransaction_def bindA_def px_built)
    (simp add: create_tx_def bindA_def prune_eq nowP_def uuidP_def validateP_def act_defs px_env_simps px_file_def new_patch_manager_def
      put_tx_def trimOldest_def MAX_TRANSACTIONS_def px_tx_def Let_def)

lemmas px_eval = bindA_def require_def prune_eq find_tx_def assertCurrentMatches_def validatedAbsolutePath_def validateP_def act_defs px_env_simps
  px_tx_def px_file_def expected_text_def Let_def write_after_def restoreBefore_def mkdirP_def writeP_def removeP_def set_tx_state_def nowP_def
  TRANSACTION_TTL_MS_def px_start_simps

lemma px_applied:
  "apply_tx (px_env 99) ''patch_0'' False (patch_runs (px_env 99) px_start [px_preview]) = (Inr (px_tx Applied 3),
    \<lparr>px_transactions = [px_tx Applied 3], px_disk = px_start(''/p/a'' \<mapsto> ''y'', ''/p/b'' \<mapsto> ''z''), px_checks = 10, px_reads = 4, px_draws = 1, px_ios = 4\<rparr>)"
  by (simp add: px_created apply_tx_def px_eval)

lemma px_rolled_back:
  "fst (rollback_tx (px_env 99) ''patch_0'' False \<lparr>px_transactions = [px_tx Applied 3],
     px_disk = px_start(''/p/a'' \<mapsto> ''y'', ''/p/b'' \<mapsto> ''z''), px_checks = 10, px_reads = 4, px_draws = 1, px_ios = 4\<rparr>) = Inr (px_tx RolledBack 5)"
  by (simp add: rollback_tx_def px_eval)

lemma px_undone:
  "\<exists>s'. apply_tx (px_env 3) ''patch_0'' False (patch_runs (px_env 3) px_start [px_preview]) =
     (Inl (PlainError (''Patch transaction '' @ ''patch_0'' @ '' failed and was rolled back: '' @ error_string io_failed)), s')"
  by (simp add: px_created apply_tx_def px_eval)



theorem newer_changes_are_kept_witness:
  "\<exists>e s'. apply_tx (px_env 99) ''patch_0'' False (patch_runs (px_env 99) px_start [px_preview, PtOutside (\<lambda>_. None)]) = (Inl e, s') \<and>
     px_disk s' = (\<lambda>_. None)"
proof -
  let ?s = "patch_runs (px_env 99) px_start [px_preview, PtOutside (\<lambda>_. None)]"
  have s: "?s = (patch_runs (px_env 99) px_start [px_preview])\<lparr>px_disk := \<lambda>_. None\<rparr>" by (simp add: patch_runs_def)
  have disk: "px_disk ?s = (\<lambda>_. None)" by (simp add: s)
  have tx: "find_tx ''patch_0'' ?s = Some (px_tx Previewed 1)"
    by (simp add: s px_created [unfolded px_tx_def] find_tx_def px_tx_def)
  have f: "px_file ''a'' True ''x'' ''y'' \<in> set (pt_files (px_tx Previewed 1))" "pt_state (px_tx Previewed 1) = Previewed"
    by (simp_all add: px_tx_def)
  obtain r s' where run: "apply_tx (px_env 99) ''patch_0'' False ?s = (r, s')" by (cases "apply_tx (px_env 99) ''patch_0'' False ?s")
  from newer_changes_are_kept [where oper = apply_tx, OF tx f(1) _ _ run] f(2) run show ?thesis
    by (auto simp: disk expected_text_def px_file_def)
qed

end
