(* ===== verification/Spec2Isabelle.thy ===== *)
theory Spec2Isabelle
  imports FF_Pipeline FF_Coordinator FF_AuditStore FF_Workflow FF_Patch
begin

text \<open>
  FolderForge.
\<close>

end
